(* ===== verification/Arq_Prelude.thy ===== *)
theory Arq_Prelude imports Main "HOL-Library.Word" "HOL-Library.Monad_Syntax" "HOL-Library.Code_Target_Nat" begin

text \<open>
  The vocabulary every component of the model of \<open>src/arq.h\<close> shares.

  \<^item> C integers. An \<open>unsigned\<close> or \<open>arq_uint32_t\<close> value is a natural number below \<open>2 ^ 32\<close>,
    an \<open>arq_uint16_t\<close> a natural number below \<open>2 ^ 16\<close>; \<open>u32\<close> and \<open>u16\<close> are the conversions
    to these types and \<open>sub32\<close> the subtraction of two unsigned values, all written out with
    their wrap-around. Bytes are \<open>8 word\<close>, wire words \<open>16 word\<close> and \<open>32 word\<close>.
  \<^item> Undefined behaviour. A C function is a HOL function into \<open>option\<close>: \<open>None\<close> means that the
    execution has no defined result, because it accesses an array out of its bounds, divides
    by zero, shifts by too many places, does not return, or fails an assertion while
    assertions are compiled in. Error codes of the library are ordinary values.
  \<^item> Loops. \<open>for_range\<close> is the counting loop \<open>for (i = lo; i < lo + n; ++i)\<close>.
\<close>

unbundle bit_operations_syntax

named_theorems arq_wrap \<open>conversions and wrapping operations that do nothing in range\<close>
named_theorems arq_mem \<open>memory accesses that are in bounds\<close>
named_theorems arq_len \<open>lengths and constant fields that operations keep\<close>

section \<open>Build configuration\<close>

text \<open>
  The compile-time switches of the header that change the code: \<open>ARQ_LITTLE_ENDIAN_CPU\<close>,
  \<open>ARQ_ASSERTS_ENABLED\<close> and \<open>ARQ_USE_CONNECTIONS\<close>. Every definition takes the ones it
  depends on, so that each theorem holds for all of them unless it says otherwise.
\<close>

record build =
  little_endian :: bool
  asserts_enabled :: bool
  use_connections :: bool

text \<open>The builds for a little-endian and a big-endian processor with everything compiled in.\<close>

definition le_build :: build where
  "le_build = \<lparr>little_endian = True, asserts_enabled = True, use_connections = True\<rparr>"

definition be_build :: build where
  "be_build = \<lparr>little_endian = False, asserts_enabled = True, use_connections = True\<rparr>"

text \<open>
  The assertion macro. With assertions compiled in, a failed condition calls the user's
  handler, which is taken not to return; compiled out, the condition is not evaluated.
\<close>

definition ARQ_ASSERT :: "build \<Rightarrow> bool \<Rightarrow> unit option" where
  "ARQ_ASSERT b c = (if asserts_enabled b \<and> \<not> c then None else Some ())"

lemma ARQ_ASSERT_holds [simp]: "c \<Longrightarrow> ARQ_ASSERT b c = Some ()"
  by (simp add: ARQ_ASSERT_def)

lemma ARQ_ASSERT_off [simp]: "\<not> asserts_enabled b \<Longrightarrow> ARQ_ASSERT b c = Some ()"
  by (simp add: ARQ_ASSERT_def)

lemma ARQ_ASSERT_Some_iff: "ARQ_ASSERT b c = Some u \<longleftrightarrow> (asserts_enabled b \<longrightarrow> c)"
  by (simp add: ARQ_ASSERT_def)

section \<open>C integers\<close>

type_synonym byte = "8 word"

definition u16 :: "nat \<Rightarrow> nat" where
  "u16 x = x mod 2 ^ 16"

definition u32 :: "nat \<Rightarrow> nat" where
  "u32 x = x mod 2 ^ 32"

definition sub32 :: "nat \<Rightarrow> nat \<Rightarrow> nat" where
  "sub32 x y = (x + (2 ^ 32 - y mod 2 ^ 32)) mod 2 ^ 32"

definition not32 :: "nat \<Rightarrow> nat" where
  "not32 x = 2 ^ 32 - 1 - x mod 2 ^ 32"

lemma u16_id [arq_wrap]: "x < 65536 \<Longrightarrow> u16 x = x"
  by (simp add: u16_def)

lemma u32_id [arq_wrap]: "x < 4294967296 \<Longrightarrow> u32 x = x"
  by (simp add: u32_def)

lemma u16_less [simp]: "u16 x < 65536"
  by (simp add: u16_def)

lemma u32_less [simp]: "u32 x < 4294967296"
  by (simp add: u32_def)

lemma u16_0 [simp]: "u16 0 = 0"
  by (simp add: u16_def)

lemma u32_0 [simp]: "u32 0 = 0"
  by (simp add: u32_def)

lemma sub32_le [arq_wrap]: "y \<le> x \<Longrightarrow> x < 4294967296 \<Longrightarrow> sub32 x y = x - y"
proof -
  assume "y \<le> x" "x < 4294967296"
  then have "x + (4294967296 - y) = (x - y) + 4294967296" by linarith
  then have "sub32 x y = ((x - y) + 4294967296) mod 4294967296"
    using \<open>y \<le> x\<close> \<open>x < 4294967296\<close> by (simp only: sub32_def) simp
  then show ?thesis
    using \<open>x < 4294967296\<close> by simp
qed

lemma sub32_gt: "x < y \<Longrightarrow> y < 4294967296 \<Longrightarrow> sub32 x y = 4294967296 - (y - x)"
  by (simp add: sub32_def)

lemma sub32_less [simp]: "sub32 x y < 4294967296"
  by (simp add: sub32_def)

lemma not32_id: "x < 4294967296 \<Longrightarrow> not32 x = 4294967295 - x"
  by (simp add: not32_def)

text \<open>The bits of a number below a power of two.\<close>

lemma bit_nat_less: "bit (m :: nat) n \<Longrightarrow> m < 2 ^ k \<Longrightarrow> n < k"
  by (metis bit_take_bit_iff take_bit_nat_eq_self)

definition umod :: "nat \<Rightarrow> nat \<Rightarrow> nat option" where
  "umod x y = (if y = 0 then None else Some (x mod y))"

definition udiv :: "nat \<Rightarrow> nat \<Rightarrow> nat option" where
  "udiv x y = (if y = 0 then None else Some (x div y))"

lemma umod_pos [arq_mem]: "0 < y \<Longrightarrow> umod x y = Some (x mod y)"
  by (simp add: umod_def)

lemma udiv_pos [arq_mem]: "0 < y \<Longrightarrow> udiv x y = Some (x div y)"
  by (simp add: udiv_def)

text \<open>
  \<open>1 << n\<close> on \<open>int\<close> is defined up to \<open>n = 30\<close> and \<open>1u << n\<close> on \<open>unsigned\<close> up to \<open>n = 31\<close>;
  a right shift of an \<open>unsigned\<close> is defined up to 31 places.
\<close>

definition shl_int :: "nat \<Rightarrow> nat option" where
  "shl_int n = (if n < 31 then Some (2 ^ n) else None)"

definition shl_unsigned :: "nat \<Rightarrow> nat option" where
  "shl_unsigned n = (if n < 32 then Some (2 ^ n) else None)"

definition shr_unsigned :: "nat \<Rightarrow> nat \<Rightarrow> nat option" where
  "shr_unsigned x n = (if n < 32 then Some (drop_bit n x) else None)"

lemma shl_int_ok [arq_mem]: "n < 31 \<Longrightarrow> shl_int n = Some (2 ^ n)"
  by (simp add: shl_int_def)

lemma shl_unsigned_ok [arq_mem]: "n < 32 \<Longrightarrow> shl_unsigned n = Some (2 ^ n)"
  by (simp add: shl_unsigned_def)

lemma shr_unsigned_ok [arq_mem]: "n < 32 \<Longrightarrow> shr_unsigned x n = Some (drop_bit n x)"
  by (simp add: shr_unsigned_def)

section \<open>Arrays\<close>

text \<open>An array is a list; an access outside it has no defined result.\<close>

definition rd :: "'a list \<Rightarrow> nat \<Rightarrow> 'a option" where
  "rd xs i = (if i < length xs then Some (xs ! i) else None)"

definition wr :: "'a list \<Rightarrow> nat \<Rightarrow> 'a \<Rightarrow> 'a list option" where
  "wr xs i v = (if i < length xs then Some (xs[i := v]) else None)"

text \<open>\<open>ARQ_MEMCPY\<close> out of an array (\<open>n\<close> bytes from offset \<open>ofs\<close>) and into one.\<close>

definition memcpy_out :: "'a list \<Rightarrow> nat \<Rightarrow> nat \<Rightarrow> 'a list option" where
  "memcpy_out src ofs n =
     (if ofs + n \<le> length src then Some (take n (drop ofs src)) else None)"

definition memcpy_in :: "'a list \<Rightarrow> nat \<Rightarrow> 'a list \<Rightarrow> 'a list option" where
  "memcpy_in dst ofs bs =
     (if ofs + length bs \<le> length dst
      then Some (take ofs dst @ bs @ drop (ofs + length bs) dst) else None)"

lemma rd_ok [arq_mem]: "i < length xs \<Longrightarrow> rd xs i = Some (xs ! i)"
  by (simp add: rd_def)

lemma wr_ok [arq_mem]: "i < length xs \<Longrightarrow> wr xs i v = Some (xs[i := v])"
  by (simp add: wr_def)

lemma memcpy_out_ok [arq_mem]:
  "ofs + n \<le> length src \<Longrightarrow> memcpy_out src ofs n = Some (take n (drop ofs src))"
  by (simp add: memcpy_out_def)

lemma memcpy_in_ok [arq_mem]:
  "ofs + length bs \<le> length dst \<Longrightarrow>
   memcpy_in dst ofs bs = Some (take ofs dst @ bs @ drop (ofs + length bs) dst)"
  by (simp add: memcpy_in_def)

lemma length_memcpy_in [arq_len]: "memcpy_in dst ofs bs = Some d \<Longrightarrow> length d = length dst"
  by (auto simp: memcpy_in_def split: if_splits)

lemma length_memcpy_out [arq_len]: "memcpy_out src ofs n = Some d \<Longrightarrow> length d = n"
  by (auto simp: memcpy_out_def split: if_splits)

lemma length_wr [arq_len]: "wr xs i v = Some ys \<Longrightarrow> length ys = length xs"
  by (auto simp: wr_def split: if_splits)

lemma nth_blit:
  assumes "ofs + length bs \<le> length dst" "i < length dst"
  shows "(take ofs dst @ bs @ drop (ofs + length bs) dst) ! i =
    (if ofs \<le> i \<and> i < ofs + length bs then bs ! (i - ofs) else dst ! i)"
  using assms by (auto simp: nth_append min_def)

section \<open>Counting loops\<close>

primrec for_range :: "nat \<Rightarrow> nat \<Rightarrow> (nat \<Rightarrow> 's \<Rightarrow> 's option) \<Rightarrow> 's \<Rightarrow> 's option" where
  "for_range i 0 f s = Some s"
| "for_range i (Suc n) f s = do { s' \<leftarrow> f i s; for_range (Suc i) n f s' }"

text \<open>Total correctness of a counting loop by an invariant that depends on the counter.\<close>

lemma for_range_inv:
  assumes "P i s"
    and "\<And>j t. i \<le> j \<Longrightarrow> j < i + n \<Longrightarrow> P j t \<Longrightarrow> \<exists>t'. f j t = Some t' \<and> P (Suc j) t'"
  shows "\<exists>s'. for_range i n f s = Some s' \<and> P (i + n) s'"
  using assms
proof (induction n arbitrary: i s)
  case 0
  then show ?case by simp
next
  case (Suc n)
  obtain t where t: "f i s = Some t" "P (Suc i) t"
    using Suc.prems(2)[of i s] Suc.prems(1) by auto
  have "\<exists>s'. for_range (Suc i) n f t = Some s' \<and> P (Suc i + n) s'"
  proof (rule Suc.IH[OF t(2)])
    fix j u assume "Suc i \<le> j" "j < Suc i + n" "P j u"
    then show "\<exists>t'. f j u = Some t' \<and> P (Suc j) t'"
      using Suc.prems(2)[of j u] by simp
  qed
  with t(1) show ?case by simp
qed

text \<open>A loop whose body is total runs the fold of its body.\<close>

lemma for_range_fold:
  assumes "P s"
    and "\<And>j t. i \<le> j \<Longrightarrow> j < i + n \<Longrightarrow> P t \<Longrightarrow> f j t = Some (g j t) \<and> P (g j t)"
  shows "for_range i n f s = Some (fold g [i..<i + n] s) \<and> P (fold g [i..<i + n] s)"
  using assms
proof (induction n arbitrary: i s)
  case 0
  then show ?case by simp
next
  case (Suc n)
  have step: "f i s = Some (g i s)" "P (g i s)"
    using Suc.prems by auto
  have "for_range (Suc i) n f (g i s) = Some (fold g [Suc i..<Suc i + n] (g i s))
        \<and> P (fold g [Suc i..<Suc i + n] (g i s))"
    using Suc.IH[OF step(2), of "Suc i"] Suc.prems(2) by auto
  moreover have "[i..<i + Suc n] = i # [Suc i..<Suc i + n]"
    by (simp add: upt_conv_Cons)
  ultimately show ?case
    using step by simp
qed

text \<open>A loop that stores the same value everywhere.\<close>

lemma for_range_fill:
  assumes "\<And>j ys. j < length xs \<Longrightarrow> length ys = length xs \<Longrightarrow> f j ys = Some (ys[j := v])"
    and "i + n \<le> length xs"
  shows "for_range i n f xs = Some (take i xs @ replicate n v @ drop (i + n) xs)"
  using assms
proof (induction n arbitrary: i xs)
  case (Suc n)
  have "for_range (Suc i) n f (xs[i := v]) =
      Some (take (Suc i) (xs[i := v]) @ replicate n v @ drop (Suc i + n) (xs[i := v]))"
    using Suc.prems by (intro Suc.IH) auto
  moreover have "take (Suc i) (xs[i := v]) = take i xs @ [v]"
    using Suc.prems(2) by (simp add: take_Suc_conv_app_nth)
  ultimately show ?case
    using Suc.prems by simp
qed simp

section \<open>Results of option computations\<close>

lemma bind_Some_iff: "(do { x \<leftarrow> m; f x }) = Some y \<longleftrightarrow> (\<exists>x. m = Some x \<and> f x = Some y)"
  by (cases m) auto

lemma bind_ex_Some:
  "m = Some x \<Longrightarrow> \<exists>y. f x = Some y \<and> Q y \<Longrightarrow> \<exists>y. (do { x \<leftarrow> m; f x }) = Some y \<and> Q y"
  by auto

section \<open>Transition systems\<close>

inductive reach :: "('s \<Rightarrow> bool) \<Rightarrow> ('s \<Rightarrow> 's \<Rightarrow> bool) \<Rightarrow> 's \<Rightarrow> bool"
  for start :: "'s \<Rightarrow> bool" and step :: "'s \<Rightarrow> 's \<Rightarrow> bool" where
  reach_start: "start s \<Longrightarrow> reach start step s"
| reach_step: "reach start step s \<Longrightarrow> step s s' \<Longrightarrow> reach start step s'"

text \<open>An inductive invariant holds in every reachable state.\<close>

locale invariant_system =
  fixes start :: "'s \<Rightarrow> bool"
    and step :: "'s \<Rightarrow> 's \<Rightarrow> bool"
    and inv :: "'s \<Rightarrow> bool"
  assumes start_inv: "start s \<Longrightarrow> inv s"
    and step_inv: "inv s \<Longrightarrow> step s s' \<Longrightarrow> inv s'"
begin

lemma reach_inv: "reach start step s \<Longrightarrow> inv s"
  by (induction rule: reach.induct) (auto intro: start_inv step_inv)

end

end
