(* ===== verification/Arq_Util.thy ===== *)
theory Arq_Util imports Arq_Prelude begin

text \<open>
  The arithmetic helpers of \<open>src/arq.h\<close>: \<open>arq__min\<close>, \<open>arq__max\<close>, the saturating subtraction
  that every timer uses, the count of trailing zeroes, and the byte-order conversions with
  the object representation of 16- and 32-bit integers they rely on.
\<close>

section \<open>Minimum, maximum, saturating subtraction\<close>

definition arq__min :: "nat \<Rightarrow> nat \<Rightarrow> nat" where
  "arq__min x y = (if x < y then x else y)"

definition arq__max :: "nat \<Rightarrow> nat \<Rightarrow> nat" where
  "arq__max x y = (if x > y then x else y)"

definition arq__sub_sat :: "nat \<Rightarrow> nat \<Rightarrow> nat" where
  "arq__sub_sat x y = (if x > y then x - y else 0)"

lemma arq__min_eq [simp]: "arq__min x y = min x y"
  by (simp add: arq__min_def min_def)

lemma arq__max_eq [simp]: "arq__max x y = max x y"
  by (simp add: arq__max_def max_def)

lemma arq__sub_sat_eq [simp]: "arq__sub_sat x y = x - y"
  by (simp add: arq__sub_sat_def)

section \<open>Counting trailing zeroes\<close>

text \<open>The builtin has no defined result on 0, which the assertion before it rules out.\<close>

fun ctz_bits :: "nat \<Rightarrow> nat" where
  "ctz_bits x = (if x = 0 \<or> odd x then 0 else Suc (ctz_bits (x div 2)))"

declare ctz_bits.simps [simp del]

definition arq__ctz :: "nat \<Rightarrow> nat option" where
  "arq__ctz x = (if x = 0 then None else Some (ctz_bits x))"

lemma bit_ctz_bits: "x \<noteq> 0 \<Longrightarrow> bit x (ctz_bits x)"
proof (induction x rule: ctz_bits.induct)
  case (1 x)
  then show ?case
    by (cases "odd x") (auto simp: ctz_bits.simps [of x] bit_Suc bit_0)
qed

lemma not_bit_below_ctz_bits: "j < ctz_bits x \<Longrightarrow> \<not> bit x j"
proof (induction x arbitrary: j rule: ctz_bits.induct)
  case (1 x)
  then show ?case
    by (cases j) (auto simp: ctz_bits.simps [of x] bit_Suc bit_0 split: if_splits)
qed

lemma not32_word: "not32 x = unat (NOT (word_of_nat x :: 32 word))"
proof -
  let ?w = "word_of_nat x :: 32 word"
  have "NOT ?w = - 1 - ?w"
    by (simp add: not_eq_complement)
  moreover have "unat (- 1 - ?w) = unat (- 1 :: 32 word) - unat ?w"
    by (rule unat_sub) simp
  ultimately show ?thesis
    by (simp add: not32_def unat_of_nat unsigned_minus_1_eq_mask mask_eq_exp_minus_1)
qed

lemma bit_not32_iff: "bit (not32 x) j \<longleftrightarrow> j < 32 \<and> \<not> bit x j"
  by (auto simp: not32_word bit_unsigned_iff bit_not_iff bit_simps)

text \<open>\<open>arq__ctz (~x)\<close> is the index of the lowest clear bit of \<open>x\<close>.\<close>

definition lowest_clear :: "nat \<Rightarrow> nat" where
  "lowest_clear x = ctz_bits (not32 x)"

lemma arq__ctz_not32:
  assumes "x < 2 ^ 31"
  shows "arq__ctz (not32 x) = Some (lowest_clear x)"
    and "\<not> bit x (lowest_clear x)"
    and "\<And>j. j < lowest_clear x \<Longrightarrow> bit x j"
    and "lowest_clear x < 32"
proof -
  have nz: "not32 x \<noteq> 0"
    using assms by (simp add: not32_id)
  then show "arq__ctz (not32 x) = Some (lowest_clear x)"
    by (simp add: arq__ctz_def lowest_clear_def)
  have "bit (not32 x) (lowest_clear x)"
    unfolding lowest_clear_def by (rule bit_ctz_bits[OF nz])
  then show "\<not> bit x (lowest_clear x)" and lt: "lowest_clear x < 32"
    by (simp_all add: bit_not32_iff)
  show "bit x j" if "j < lowest_clear x" for j
    using not_bit_below_ctz_bits[of j "not32 x"] that lt
    by (simp add: bit_not32_iff lowest_clear_def)
qed

section \<open>Byte order\<close>

text \<open>Equality of 32-bit words, bit by bit.\<close>

lemma word32_eqI:
  assumes "list_all (\<lambda>n. bit x n = bit (y :: 32 word) n) [0..<32]"
  shows "x = y"
  by (rule bit_word_eqI) (use assms in \<open>simp add: list_all_iff\<close>)

definition arq__hton16 :: "build \<Rightarrow> 16 word \<Rightarrow> 16 word" where
  "arq__hton16 b x = (if little_endian b then push_bit 8 x OR drop_bit 8 x else x)"

definition arq__ntoh16 :: "build \<Rightarrow> 16 word \<Rightarrow> 16 word" where
  "arq__ntoh16 b x = arq__hton16 b x"

definition arq__hton32 :: "build \<Rightarrow> 32 word \<Rightarrow> 32 word" where
  "arq__hton32 b x =
     (if little_endian b
      then drop_bit 24 x OR drop_bit 8 (x AND 0x00FF0000)
             OR push_bit 8 (x AND 0x0000FF00) OR push_bit 24 x
      else x)"

definition arq__ntoh32 :: "build \<Rightarrow> 32 word \<Rightarrow> 32 word" where
  "arq__ntoh32 b x = arq__hton32 b x"

text \<open>
  The bytes an integer object occupies, lowest address first, and the integer a sequence of
  bytes represents: what \<open>(arq_uchar_t *)&tmp_n\<close> and \<open>ARQ_MEMCPY(&c, ..., 4)\<close> read and write.
\<close>

definition obj16 :: "build \<Rightarrow> 16 word \<Rightarrow> byte list" where
  "obj16 b x = (if little_endian b then [ucast x, ucast (drop_bit 8 x)]
                else [ucast (drop_bit 8 x), ucast x])"

definition of_obj16 :: "build \<Rightarrow> byte \<Rightarrow> byte \<Rightarrow> 16 word" where
  "of_obj16 b d0 d1 = (if little_endian b then ucast d0 OR push_bit 8 (ucast d1)
                       else push_bit 8 (ucast d0) OR ucast d1)"

definition obj32 :: "build \<Rightarrow> 32 word \<Rightarrow> byte list" where
  "obj32 b x =
     (let bs = [ucast x, ucast (drop_bit 8 x), ucast (drop_bit 16 x), ucast (drop_bit 24 x)]
      in if little_endian b then bs else rev bs)"

definition of_obj32 :: "build \<Rightarrow> byte list \<Rightarrow> 32 word" where
  "of_obj32 b bs =
     (let cs = (if little_endian b then bs else rev bs)
      in ucast (cs ! 0) OR push_bit 8 (ucast (cs ! 1)) OR push_bit 16 (ucast (cs ! 2))
           OR push_bit 24 (ucast (cs ! 3)))"

text \<open>Network order is big-endian on every CPU.\<close>

lemma obj16_hton16: "obj16 b (arq__hton16 b x) = [ucast (drop_bit 8 x), ucast x]"
proof -
  have "ucast (push_bit 8 x OR drop_bit 8 x) = (ucast (drop_bit 8 x) :: byte)"
    by (rule bit_word_eqI) (auto simp: bit_simps)
  moreover have "ucast (drop_bit 8 (push_bit 8 x OR drop_bit 8 x)) = (ucast x :: byte)"
    by (rule bit_word_eqI) (auto simp: bit_simps)
  ultimately show ?thesis
    by (simp add: obj16_def arq__hton16_def)
qed

lemma ntoh16_of_obj16:
  "arq__ntoh16 b (of_obj16 b d0 d1) = push_bit 8 (ucast d0) OR ucast d1"
proof (cases "little_endian b")
  case True
  have "push_bit 8 (ucast d0 OR push_bit 8 (ucast d1)) OR
      drop_bit 8 (ucast d0 OR push_bit 8 (ucast d1)) = (push_bit 8 (ucast d0) OR ucast d1 :: 16 word)"
    by (rule bit_word_eqI) (auto simp: bit_simps dest: bit_imp_le_length)
  with True show ?thesis
    by (simp add: arq__ntoh16_def arq__hton16_def of_obj16_def)
qed (simp add: arq__ntoh16_def arq__hton16_def of_obj16_def)

lemma obj32_hton32:
  "obj32 b (arq__hton32 b x) =
     [ucast (drop_bit 24 x), ucast (drop_bit 16 x), ucast (drop_bit 8 x), ucast x]"
proof (cases "little_endian b")
  case True
  have m: "(0x00FF0000 :: 32 word) = push_bit 16 (mask 8)" "(0x0000FF00 :: 32 word) = push_bit 8 (mask 8)"
    by (simp_all add: mask_eq_exp_minus_1)
  let ?y = "drop_bit 24 x OR drop_bit 8 (x AND push_bit 16 (mask 8))
      OR push_bit 8 (x AND push_bit 8 (mask 8)) OR push_bit 24 x"
  have "(ucast ?y :: byte) = ucast (drop_bit 24 x)"
    by (rule bit_word_eqI) (auto simp: bit_simps)
  moreover have "(ucast (drop_bit 8 ?y) :: byte) = ucast (drop_bit 16 x)"
    by (rule bit_word_eqI) (auto simp: bit_simps)
  moreover have "(ucast (drop_bit 16 ?y) :: byte) = ucast (drop_bit 8 x)"
    by (rule bit_word_eqI) (auto simp: bit_simps)
  moreover have "(ucast (drop_bit 24 ?y) :: byte) = ucast x"
    by (rule bit_word_eqI) (auto simp: bit_simps)
  ultimately show ?thesis
    using True by (simp add: obj32_def arq__hton32_def m Let_def)
qed (simp add: obj32_def arq__hton32_def)

lemma length_obj32 [arq_len, simp]: "length (obj32 b x) = 4"
  by (simp add: obj32_def Let_def)

lemma of_obj32_obj32 [simp]: "of_obj32 b (obj32 b x) = x"
proof -
  have "ucast (ucast x :: byte) OR push_bit 8 (ucast (ucast (drop_bit 8 x) :: byte))
      OR push_bit 16 (ucast (ucast (drop_bit 16 x) :: byte))
      OR push_bit 24 (ucast (ucast (drop_bit 24 x) :: byte)) = x"
    by (rule word32_eqI) (simp add: upt_rec bit_simps, simp add: eval_nat_numeral)
  then show ?thesis
    by (auto simp: of_obj32_def obj32_def Let_def)
qed

lemma ntoh32_hton32 [simp]: "arq__ntoh32 b (arq__hton32 b x) = x"
proof (cases "little_endian b")
  case True
  have "obj32 b (arq__hton32 b (arq__hton32 b x)) = obj32 b x"
    using obj32_hton32 [of b "arq__hton32 b x"] obj32_hton32 [of b x] True
    by (simp add: obj32_def)
  then show ?thesis
    unfolding arq__ntoh32_def by (metis of_obj32_obj32)
qed (simp add: arq__ntoh32_def arq__hton32_def)

end
