(* ===== verification/Arq_Crc32.thy ===== *)
theory Arq_Crc32 imports Arq_Util begin

text \<open>
  \<open>arq_crc32\<close> of \<open>src/arq.h\<close>, the checksum the library provides (\<open>ARQ_COMPILE_CRC32\<close>): a
  table-driven CRC-32. The table and the loop are the code's; they are proved equal to the
  bit-serial division by the reflected polynomial, from which the errors the checksum is
  certain to detect follow.
\<close>

section \<open>The table-driven loop\<close>

definition crc32_tab :: "32 word list" where
  "crc32_tab =
     [0x00000000, 0x77073096, 0xEE0E612C, 0x990951BA, 0x076DC419, 0x706AF48F,
      0xE963A535, 0x9E6495A3, 0x0EDB8832, 0x79DCB8A4, 0xE0D5E91E, 0x97D2D988,
      0x09B64C2B, 0x7EB17CBD, 0xE7B82D07, 0x90BF1D91, 0x1DB71064, 0x6AB020F2,
      0xF3B97148, 0x84BE41DE, 0x1ADAD47D, 0x6DDDE4EB, 0xF4D4B551, 0x83D385C7,
      0x136C9856, 0x646BA8C0, 0xFD62F97A, 0x8A65C9EC, 0x14015C4F, 0x63066CD9,
      0xFA0F3D63, 0x8D080DF5, 0x3B6E20C8, 0x4C69105E, 0xD56041E4, 0xA2677172,
      0x3C03E4D1, 0x4B04D447, 0xD20D85FD, 0xA50AB56B, 0x35B5A8FA, 0x42B2986C,
      0xDBBBC9D6, 0xACBCF940, 0x32D86CE3, 0x45DF5C75, 0xDCD60DCF, 0xABD13D59,
      0x26D930AC, 0x51DE003A, 0xC8D75180, 0xBFD06116, 0x21B4F4B5, 0x56B3C423,
      0xCFBA9599, 0xB8BDA50F, 0x2802B89E, 0x5F058808, 0xC60CD9B2, 0xB10BE924,
      0x2F6F7C87, 0x58684C11, 0xC1611DAB, 0xB6662D3D, 0x76DC4190, 0x01DB7106,
      0x98D220BC, 0xEFD5102A, 0x71B18589, 0x06B6B51F, 0x9FBFE4A5, 0xE8B8D433,
      0x7807C9A2, 0x0F00F934, 0x9609A88E, 0xE10E9818, 0x7F6A0DBB, 0x086D3D2D,
      0x91646C97, 0xE6635C01, 0x6B6B51F4, 0x1C6C6162, 0x856530D8, 0xF262004E,
      0x6C0695ED, 0x1B01A57B, 0x8208F4C1, 0xF50FC457, 0x65B0D9C6, 0x12B7E950,
      0x8BBEB8EA, 0xFCB9887C, 0x62DD1DDF, 0x15DA2D49, 0x8CD37CF3, 0xFBD44C65,
      0x4DB26158, 0x3AB551CE, 0xA3BC0074, 0xD4BB30E2, 0x4ADFA541, 0x3DD895D7,
      0xA4D1C46D, 0xD3D6F4FB, 0x4369E96A, 0x346ED9FC, 0xAD678846, 0xDA60B8D0,
      0x44042D73, 0x33031DE5, 0xAA0A4C5F, 0xDD0D7CC9, 0x5005713C, 0x270241AA,
      0xBE0B1010, 0xC90C2086, 0x5768B525, 0x206F85B3, 0xB966D409, 0xCE61E49F,
      0x5EDEF90E, 0x29D9C998, 0xB0D09822, 0xC7D7A8B4, 0x59B33D17, 0x2EB40D81,
      0xB7BD5C3B, 0xC0BA6CAD, 0xEDB88320, 0x9ABFB3B6, 0x03B6E20C, 0x74B1D29A,
      0xEAD54739, 0x9DD277AF, 0x04DB2615, 0x73DC1683, 0xE3630B12, 0x94643B84,
      0x0D6D6A3E, 0x7A6A5AA8, 0xE40ECF0B, 0x9309FF9D, 0x0A00AE27, 0x7D079EB1,
      0xF00F9344, 0x8708A3D2, 0x1E01F268, 0x6906C2FE, 0xF762575D, 0x806567CB,
      0x196C3671, 0x6E6B06E7, 0xFED41B76, 0x89D32BE0, 0x10DA7A5A, 0x67DD4ACC,
      0xF9B9DF6F, 0x8EBEEFF9, 0x17B7BE43, 0x60B08ED5, 0xD6D6A3E8, 0xA1D1937E,
      0x38D8C2C4, 0x4FDFF252, 0xD1BB67F1, 0xA6BC5767, 0x3FB506DD, 0x48B2364B,
      0xD80D2BDA, 0xAF0A1B4C, 0x36034AF6, 0x41047A60, 0xDF60EFC3, 0xA867DF55,
      0x316E8EEF, 0x4669BE79, 0xCB61B38C, 0xBC66831A, 0x256FD2A0, 0x5268E236,
      0xCC0C7795, 0xBB0B4703, 0x220216B9, 0x5505262F, 0xC5BA3BBE, 0xB2BD0B28,
      0x2BB45A92, 0x5CB36A04, 0xC2D7FFA7, 0xB5D0CF31, 0x2CD99E8B, 0x5BDEAE1D,
      0x9B64C2B0, 0xEC63F226, 0x756AA39C, 0x026D930A, 0x9C0906A9, 0xEB0E363F,
      0x72076785, 0x05005713, 0x95BF4A82, 0xE2B87A14, 0x7BB12BAE, 0x0CB61B38,
      0x92D28E9B, 0xE5D5BE0D, 0x7CDCEFB7, 0x0BDBDF21, 0x86D3D2D4, 0xF1D4E242,
      0x68DDB3F8, 0x1FDA836E, 0x81BE16CD, 0xF6B9265B, 0x6FB077E1, 0x18B74777,
      0x88085AE6, 0xFF0F6A70, 0x66063BCA, 0x11010B5C, 0x8F659EFF, 0xF862AE69,
      0x616BFFD3, 0x166CCF45, 0xA00AE278, 0xD70DD2EE, 0x4E048354, 0x3903B3C2,
      0xA7672661, 0xD06016F7, 0x4969474D, 0x3E6E77DB, 0xAED16A4A, 0xD9D65ADC,
      0x40DF0B66, 0x37D83BF0, 0xA9BCAE53, 0xDEBB9EC5, 0x47B2CF7F, 0x30B5FFE9,
      0xBDBDF21C, 0xCABAC28A, 0x53B39330, 0x24B4A3A6, 0xBAD03605, 0xCDD70693,
      0x54DE5729, 0x23D967BF, 0xB3667A2E, 0xC4614AB8, 0x5D681B02, 0x2A6F2B94,
      0xB40BBE37, 0xC30C8EA1, 0x5A05DF1B, 0x2D02EF8D]"

text \<open>One turn of the loop \<open>crc = crc32_tab[(crc ^ *p++) & 0xFF] ^ (crc >> 8)\<close>.\<close>

definition crc32_step :: "byte \<Rightarrow> 32 word \<Rightarrow> 32 word" where
  "crc32_step x crc = crc32_tab ! unat ((crc XOR ucast x) AND 0xFF) XOR drop_bit 8 crc"

definition arq_crc32 :: "byte list \<Rightarrow> nat \<Rightarrow> 32 word option" where
  "arq_crc32 buf len = do {
     bs \<leftarrow> memcpy_out buf 0 len;
     Some (NOT (fold crc32_step bs 0xFFFFFFFF))
   }"

section \<open>Division of polynomials, bit by bit\<close>

definition crc32_shift :: "32 word \<Rightarrow> 32 word" where
  "crc32_shift c = (if bit c 0 then drop_bit 1 c XOR 0xEDB88320 else drop_bit 1 c)"

text \<open>
  The division is linear over exclusive or, so the table is determined by its entries at the
  powers of two. These are computed on integers.
\<close>

lemma crc32_shift_xor: "crc32_shift (x XOR y) = crc32_shift x XOR crc32_shift y"
  by (auto simp: crc32_shift_def bit_xor_iff drop_bit_xor xor.assoc xor.left_commute xor.commute)

lemma crc32_shifts_xor: "(crc32_shift ^^ n) (x XOR y) = (crc32_shift ^^ n) x XOR (crc32_shift ^^ n) y"
  by (induction n) (simp_all add: crc32_shift_xor)

lemma crc32_shift_0 [simp]: "crc32_shift 0 = 0"
  by (simp add: crc32_shift_def)

lemma crc32_shifts_0 [simp]: "(crc32_shift ^^ n) 0 = 0"
  by (induction n) simp_all

definition crc32_shift_int :: "int \<Rightarrow> int" where
  "crc32_shift_int c = (if odd c then (c div 2) XOR 0xEDB88320 else c div 2)"

lemma crc32_shift_int:
  assumes "0 \<le> c" "c < 2 ^ 32"
  shows "crc32_shift (word_of_int c) = word_of_int (crc32_shift_int c)"
    and "0 \<le> crc32_shift_int c \<and> crc32_shift_int c < 2 ^ 32"
proof -
  have "drop_bit 1 (word_of_int c :: 32 word) = word_of_int (c div 2)"
    using assms by (simp add: drop_bit_eq_div word_uint_eq_iff uint_div uint_word_of_int
        zmod_trivial_iff)
  moreover have "bit (word_of_int c :: 32 word) 0 = odd c"
    by (simp only: bit_word_of_int_iff) (simp add: bit_0)
  ultimately show "crc32_shift (word_of_int c) = word_of_int (crc32_shift_int c)"
    by (simp only: crc32_shift_def crc32_shift_int_def if_distrib [of word_of_int]
        of_int_xor_eq of_int_numeral cong: if_cong)
  have "(c div 2) XOR 0xEDB88320 < 2 ^ 32"
    using assms by (intro XOR_upper) auto
  then show "0 \<le> crc32_shift_int c \<and> crc32_shift_int c < 2 ^ 32"
    using assms by (auto simp: crc32_shift_int_def)
qed

lemma crc32_shifts_int:
  "0 \<le> c \<Longrightarrow> c < 2 ^ 32 \<Longrightarrow>
   (crc32_shift ^^ n) (word_of_int c) = word_of_int ((crc32_shift_int ^^ n) c) \<and>
   0 \<le> (crc32_shift_int ^^ n) c \<and> (crc32_shift_int ^^ n) c < 2 ^ 32"
proof (induction n)
  case (Suc n)
  then show ?case
    using crc32_shift_int [of "(crc32_shift_int ^^ n) c"] by simp
qed simp

text \<open>The division of one whole byte.\<close>

definition crc32_shift8 :: "32 word \<Rightarrow> 32 word" where
  "crc32_shift8 c = (crc32_shift ^^ 8) c"

lemma crc32_shift8_xor: "crc32_shift8 (x XOR y) = crc32_shift8 x XOR crc32_shift8 y"
  by (simp add: crc32_shift8_def crc32_shifts_xor)

lemma crc32_shift8_int:
  assumes "0 \<le> c" "c < 2 ^ 32"
  shows "crc32_shift8 (word_of_int c) =
    word_of_int (crc32_shift_int (crc32_shift_int (crc32_shift_int (crc32_shift_int
      (crc32_shift_int (crc32_shift_int (crc32_shift_int (crc32_shift_int c))))))))"
  using crc32_shifts_int [OF assms, of 8] by (simp add: crc32_shift8_def eval_nat_numeral)

lemma crc32_shift8_power:
  "crc32_shift8 1 = 0x77073096" "crc32_shift8 2 = 0xEE0E612C" "crc32_shift8 4 = 0x076DC419"
  "crc32_shift8 8 = 0x0EDB8832" "crc32_shift8 16 = 0x1DB71064" "crc32_shift8 32 = 0x3B6E20C8"
  "crc32_shift8 64 = 0x76DC4190" "crc32_shift8 128 = 0xEDB88320"
  using crc32_shift8_int [of 1] crc32_shift8_int [of 2] crc32_shift8_int [of 4]
    crc32_shift8_int [of 8] crc32_shift8_int [of 16] crc32_shift8_int [of 32]
    crc32_shift8_int [of 64] crc32_shift8_int [of 128]
  by (simp_all add: crc32_shift_int_def)

primrec crc32_double :: "nat \<Rightarrow> 32 word list" where
  "crc32_double 0 = [0]"
| "crc32_double (Suc k) = crc32_double k @ map ((XOR) (crc32_shift8 (2 ^ k))) (crc32_double k)"

lemma word_of_nat_add_power:
  assumes "i < 2 ^ k"
  shows "word_of_nat (2 ^ k + i) = (2 ^ k XOR word_of_nat i :: 32 word)"
proof -
  have "2 ^ k AND word_of_nat i = (0 :: 32 word)"
  proof (rule bit_word_eqI)
    fix n assume "n < LENGTH(32)"
    have "\<not> bit i k"
      using assms by (metis bit_take_bit_iff less_irrefl take_bit_nat_eq_self_iff)
    then show "bit (2 ^ k AND word_of_nat i :: 32 word) n = bit (0 :: 32 word) n"
      by (auto simp: bit_simps)
  qed
  then have "2 ^ k + word_of_nat i = (2 ^ k XOR word_of_nat i :: 32 word)"
    by (rule disjunctive_add_eq_xor)
  then show ?thesis
    by simp
qed

lemma crc32_double_eq: "crc32_double k = map (\<lambda>i. crc32_shift8 (word_of_nat i)) [0..<2 ^ k]"
proof (induction k)
  case 0
  show ?case by (simp add: crc32_shift8_def)
next
  case (Suc k)
  have "[0..<2 ^ Suc k] = [0..<2 ^ k] @ map (\<lambda>i. 2 ^ k + i) [0..<2 ^ k]"
    using upt_add_eq_append [of 0 "2 ^ k" "2 ^ k"] map_add_upt [of "2 ^ k" "2 ^ k"]
    by (simp add: mult_2 add.commute)
  then have "map (\<lambda>i. crc32_shift8 (word_of_nat i)) [0..<2 ^ Suc k] =
      map (\<lambda>i. crc32_shift8 (word_of_nat i)) [0..<2 ^ k]
      @ map (\<lambda>i. crc32_shift8 (word_of_nat (2 ^ k + i))) [0..<2 ^ k]"
    by (simp only: map_append map_map comp_def)
  also have "map (\<lambda>i. crc32_shift8 (word_of_nat (2 ^ k + i))) [0..<2 ^ k] =
      map ((XOR) (crc32_shift8 (2 ^ k))) (map (\<lambda>i. crc32_shift8 (word_of_nat i)) [0..<2 ^ k])"
    by (simp only: map_map comp_def)
       (rule map_cong, simp_all only: atLeast_upt word_of_nat_add_power crc32_shift8_xor
          atLeastLessThan_iff set_upt)
  finally show ?case
    by (simp only: crc32_double.simps Suc.IH)
qed

lemma power_2_word32:
  "(2 :: 32 word) ^ 0 = 1" "(2 :: 32 word) ^ Suc 0 = 2" "(2 :: 32 word) ^ Suc (Suc 0) = 4"
  "(2 :: 32 word) ^ Suc (Suc (Suc 0)) = 8" "(2 :: 32 word) ^ Suc (Suc (Suc (Suc 0))) = 16"
  "(2 :: 32 word) ^ Suc (Suc (Suc (Suc (Suc 0)))) = 32"
  "(2 :: 32 word) ^ Suc (Suc (Suc (Suc (Suc (Suc 0))))) = 64"
  "(2 :: 32 word) ^ Suc (Suc (Suc (Suc (Suc (Suc (Suc 0)))))) = 128"
  by (simp_all only: power_Suc power_0 mult_1_right) simp_all

lemma crc32_tab_double: "crc32_double (Suc (Suc (Suc (Suc (Suc (Suc (Suc (Suc 0)))))))) = crc32_tab"
  by (simp only: crc32_double.simps power_2_word32 crc32_shift8_power)
     (simp only: list.map append.simps crc32_tab_def xor.right_neutral, simp)

lemma crc32_tab_shift: "crc32_tab = map (\<lambda>i. crc32_shift8 (word_of_nat i)) [0..<256]"
proof -
  have "(2 :: nat) ^ Suc (Suc (Suc (Suc (Suc (Suc (Suc (Suc 0))))))) = 256"
    by simp
  then show ?thesis
    using crc32_double_eq crc32_tab_double by metis
qed

lemma crc32_shifts_low_zero: "(\<And>i. i < n \<Longrightarrow> \<not> bit z i) \<Longrightarrow> (crc32_shift ^^ n) z = drop_bit n z"
proof (induction n arbitrary: z)
  case (Suc n)
  have "crc32_shift z = drop_bit 1 z"
    using Suc.prems [of 0] by (simp add: crc32_shift_def)
  moreover have "(crc32_shift ^^ n) (drop_bit 1 z) = drop_bit n (drop_bit 1 z)"
    using Suc.prems by (intro Suc.IH) (simp add: bit_simps)
  ultimately show ?case
    by (simp add: funpow_swap1)
qed simp

text \<open>One step of the table-driven loop divides one byte.\<close>

lemma crc32_step_shift: "crc32_step x c = crc32_shift8 (c XOR ucast x)"
proof -
  let ?z = "c XOR ucast x"
  have "unat (?z AND 0xFF) < 256"
  proof -
    have "?z AND 0xFF \<le> 0xFF" by (rule word_and_le1)
    then show ?thesis by (simp add: word_le_nat_alt)
  qed
  then have tab: "crc32_tab ! unat (?z AND 0xFF) = crc32_shift8 (?z AND 0xFF)"
    by (simp add: crc32_tab_shift)
  have mask: "(0xFF :: 32 word) = mask 8"
    by (simp add: mask_eq_exp_minus_1)
  have "crc32_shift8 (push_bit 8 (drop_bit 8 ?z)) = drop_bit 8 (push_bit 8 (drop_bit 8 ?z))"
    unfolding crc32_shift8_def by (rule crc32_shifts_low_zero) (simp add: bit_simps)
  also have "\<dots> = drop_bit 8 c"
    by (rule bit_word_eqI) (auto simp: bit_simps dest: bit_imp_le_length)
  finally have high: "crc32_shift8 (push_bit 8 (drop_bit 8 ?z)) = drop_bit 8 c" .
  have "?z = (?z AND 0xFF) XOR push_bit 8 (drop_bit 8 ?z)"
    unfolding mask by (rule bit_word_eqI) (auto simp: bit_simps)
  then have "crc32_shift8 ?z = crc32_shift8 (?z AND 0xFF) XOR drop_bit 8 c"
    using crc32_shift8_xor [of "?z AND 0xFF"] high by metis
  then show ?thesis
    by (simp add: crc32_step_def tab)
qed

lemma crc32_step_eq: "crc32_step = (\<lambda>x c. (crc32_shift ^^ 8) (c XOR ucast x))"
  by (intro ext) (simp add: crc32_step_shift crc32_shift8_def)

text \<open>The checksum as bit-serial division: no table, one bit of the message at a time.\<close>

definition crc32_bitwise :: "byte list \<Rightarrow> 32 word" where
  "crc32_bitwise bs = NOT (fold (\<lambda>x c. (crc32_shift ^^ 8) (c XOR ucast x)) bs 0xFFFFFFFF)"

lemma arq_crc32_bitwise:
  "arq_crc32 buf len = (if len \<le> length buf then Some (crc32_bitwise (take len buf)) else None)"
  by (simp add: arq_crc32_def memcpy_out_def crc32_bitwise_def crc32_step_eq)

section \<open>Errors the checksum detects\<close>

lemma xor_right_cancel: "x XOR z = y XOR z \<longleftrightarrow> x = (y :: 32 word)"
  by (metis xor.assoc xor.right_neutral xor_self_eq)

lemma crc32_shift_inject: "crc32_shift x = crc32_shift y \<Longrightarrow> x = y"
proof -
  assume eq: "crc32_shift x = crc32_shift y"
  have top: "bit (crc32_shift z) 31 = bit z 0" for z
    by (simp add: crc32_shift_def bit_simps) (auto dest: bit_imp_le_length)
  with eq have b0: "bit x 0 = bit y 0" by metis
  with eq have "drop_bit 1 x = drop_bit 1 y"
    by (cases "bit x 0") (simp_all add: crc32_shift_def xor_right_cancel)
  then have "bit x (Suc n) = bit y (Suc n)" for n
    by (metis bit_drop_bit_eq comp_apply plus_1_eq_Suc)
  with b0 show "x = y"
    by (metis bit_word_eqI not0_implies_Suc)
qed

lemma crc32_shifts_inject: "(crc32_shift ^^ n) x = (crc32_shift ^^ n) y \<Longrightarrow> x = y"
  by (induction n) (auto dest: crc32_shift_inject)

lemma crc32_step_inject: "crc32_step z x = crc32_step z y \<Longrightarrow> x = y"
  unfolding crc32_step_eq by (drule crc32_shifts_inject) (simp only: xor_right_cancel)

lemma crc32_fold_inject: "fold crc32_step bs x = fold crc32_step bs y \<Longrightarrow> x = y"
  by (induction bs arbitrary: x y) (auto dest: crc32_step_inject)

text \<open>Up to four bytes fit into the remainder: dividing them is injective.\<close>

fun crc32_pack :: "byte list \<Rightarrow> 32 word" where
  "crc32_pack [] = 0"
| "crc32_pack (x # xs) = ucast x XOR push_bit 8 (crc32_pack xs)"

lemma bit_crc32_pack: "bit (crc32_pack xs) i \<Longrightarrow> i < 8 * length xs"
proof (induction xs arbitrary: i)
  case (Cons x xs)
  then show ?case
    by (force simp: bit_simps dest: bit_imp_le_length)
qed simp

lemma crc32_fold_pack:
  "length xs \<le> 4 \<Longrightarrow> fold crc32_step xs c = (crc32_shift ^^ (8 * length xs)) (c XOR crc32_pack xs)"
proof (induction xs arbitrary: c)
  case (Cons x xs)
  have "crc32_shift8 (push_bit 8 (crc32_pack xs)) = drop_bit 8 (push_bit 8 (crc32_pack xs))"
    unfolding crc32_shift8_def by (rule crc32_shifts_low_zero) (simp add: bit_simps)
  also have "\<dots> = crc32_pack xs"
    using Cons.prems by (intro bit_word_eqI) (force simp: bit_simps dest: bit_crc32_pack)
  finally have p: "crc32_shift8 (push_bit 8 (crc32_pack xs)) = crc32_pack xs" .
  have "fold crc32_step (x # xs) c =
      (crc32_shift ^^ (8 * length xs)) (crc32_shift8 (c XOR ucast x) XOR crc32_pack xs)"
    using Cons.IH [of "crc32_shift8 (c XOR ucast x)"] Cons.prems
    by (simp add: crc32_step_shift [of x c])
  also have "crc32_shift8 (c XOR ucast x) XOR crc32_pack xs = crc32_shift8 (c XOR crc32_pack (x # xs))"
    using p by (simp add: crc32_shift8_xor xor.assoc)
  finally have "fold crc32_step (x # xs) c =
      (crc32_shift ^^ (8 * length xs)) ((crc32_shift ^^ 8) (c XOR crc32_pack (x # xs)))"
    by (simp only: crc32_shift8_def)
  also have "\<dots> = (crc32_shift ^^ (8 * length xs + 8)) (c XOR crc32_pack (x # xs))"
    by (simp only: funpow_add comp_apply)
  finally show ?case
    by (simp add: add.commute)
qed simp

lemma crc32_pack_inject:
  "length xs = length ys \<Longrightarrow> length xs \<le> 4 \<Longrightarrow> crc32_pack xs = crc32_pack ys \<Longrightarrow> xs = ys"
proof (induction xs ys rule: list_induct2)
  case (Cons x xs y ys)
  have bits: "bit (crc32_pack (x # xs)) i = bit (crc32_pack (y # ys)) i" for i
    using Cons.prems by simp
  have "bit x i = bit y i" if "i < 8" for i
    using bits [of i] that by (simp add: bit_simps)
  then have "x = y"
    by (intro bit_word_eqI) simp
  then have eq: "push_bit 8 (crc32_pack xs) = push_bit 8 (crc32_pack ys)"
    using Cons.prems by (simp add: xor.commute [of "ucast y"] xor_right_cancel)
  have "bit (crc32_pack xs) i = bit (crc32_pack ys) i" for i
  proof (cases "i < 24")
    case True
    then show ?thesis
      using arg_cong [OF eq, of "\<lambda>w. bit w (i + 8)"] by (simp add: bit_simps)
  next
    case False
    then show ?thesis
      using bit_crc32_pack [of xs i] bit_crc32_pack [of ys i] Cons.prems(1) Cons.hyps by force
  qed
  then have "crc32_pack xs = crc32_pack ys"
    by (intro bit_word_eqI) simp
  with Cons \<open>x = y\<close> show ?case
    by simp
qed simp

section \<open>Properties\<close>

text \<open>
  C22. The table-driven loop of \<open>arq_crc32\<close> computes the CRC-32 of the first \<open>len\<close> bytes, as
  bit-serial division by the reflected polynomial \<open>0xEDB88320\<close> defines it, for every buffer;
  it reads exactly these bytes, so it is defined when they are in the buffer.
\<close>

theorem crc32_is_polynomial_division:
  "arq_crc32 buf len = (if len \<le> length buf then Some (crc32_bitwise (take len buf)) else None)"
  by (rule arq_crc32_bitwise)

text \<open>
  C23. The checksum detects every error burst of up to 32 bits on byte boundaries: two buffers
  that differ only within the same window of at most four bytes have different checksums.
\<close>

theorem crc32_detects_bursts:
  assumes "length w = length w'" "length w \<le> 4" "w \<noteq> w'"
  shows "arq_crc32 (pre @ w @ post) (length (pre @ w @ post)) \<noteq>
         arq_crc32 (pre @ w' @ post) (length (pre @ w' @ post))"
proof
  assume "arq_crc32 (pre @ w @ post) (length (pre @ w @ post)) =
      arq_crc32 (pre @ w' @ post) (length (pre @ w' @ post))"
  then have "fold crc32_step (pre @ w @ post) 0xFFFFFFFF = fold crc32_step (pre @ w' @ post) 0xFFFFFFFF"
    by (simp add: arq_crc32_def memcpy_out_def)
  then have "fold crc32_step w (fold crc32_step pre 0xFFFFFFFF) =
      fold crc32_step w' (fold crc32_step pre 0xFFFFFFFF)"
    by (auto dest: crc32_fold_inject)
  then have "crc32_pack w = crc32_pack w'"
    using assms crc32_fold_pack [of w] crc32_fold_pack [of w']
    by (auto dest!: crc32_shifts_inject simp: xor.commute xor_right_cancel)
  with assms show False
    using crc32_pack_inject [of w w'] by simp
qed

theorem crc32_detects_bursts_witness:
  "arq_crc32 ([7] @ [1, 2] @ [9]) 4 \<noteq> arq_crc32 ([7] @ [2, 1] @ [9]) 4"
  using crc32_detects_bursts [of "[1, 2]" "[2, 1]" "[7]" "[9]"] by (simp add: eval_nat_numeral)

end
