(* ===== verification/Arq_Cobs.thy ===== *)
theory Arq_Cobs imports Arq_Util begin

text \<open>
  \<open>arq__cobs_encode\<close> and \<open>arq__cobs_decode\<close> of \<open>src/arq.h\<close>, which frame a payload in place:
  byte 0 and every zero byte of the payload become the distance to the next zero, and the
  last byte becomes the only zero of the frame. \<open>cobs_stuff\<close> is the encoding as a recursive
  function on the payload; the in-place loops are proved equal to it, and the round trip and
  the absence of zeroes follow.
\<close>

section \<open>The in-place loops\<close>

text \<open>
  \<open>p\<close> is the memory from the frame's first byte on, \<open>patch\<close> and \<open>c\<close> are the code's two
  cursors and \<open>e\<close> its end pointer, all as offsets from \<open>p\<close>.
\<close>

function cobs_encode_loop :: "byte list \<Rightarrow> nat \<Rightarrow> nat \<Rightarrow> nat \<Rightarrow> byte list option" where
  "cobs_encode_loop p patch c e =
     (if c < e then do {
        x \<leftarrow> rd p c;
        if x = 0 then do {
          p' \<leftarrow> wr p patch (of_nat (c - patch));
          cobs_encode_loop p' c (Suc c) e
        } else cobs_encode_loop p patch (Suc c) e
      } else do {
        p' \<leftarrow> wr p patch (of_nat (c - patch));
        wr p' c 0
      })"
  by pat_completeness auto
termination
  by (relation "measure (\<lambda>(p, patch, c, e). e - c)") auto

declare cobs_encode_loop.simps [simp del]

definition arq__cobs_encode :: "build \<Rightarrow> byte list \<Rightarrow> nat \<Rightarrow> byte list option" where
  "arq__cobs_encode b p len = do {
     ARQ_ASSERT b (3 \<le> len \<and> len \<le> 256);
     cobs_encode_loop p 0 1 (sub32 len 1)
   }"

text \<open>
  With assertions compiled out, a zero byte before the end pointer makes the decoder's loop
  run forever: \<open>None\<close> also stands for that.
\<close>

partial_function (option) cobs_decode_loop :: "build \<Rightarrow> byte list \<Rightarrow> nat \<Rightarrow> nat \<Rightarrow> byte list option" where
  "cobs_decode_loop b p c e =
     (if c < e then do {
        x \<leftarrow> rd p c;
        ARQ_ASSERT b (c \<noteq> c + unat x);
        p' \<leftarrow> wr p c 0;
        cobs_decode_loop b p' (c + unat x) e
      } else Some p)"

declare cobs_decode_loop.simps [code]

definition arq__cobs_decode :: "build \<Rightarrow> byte list \<Rightarrow> nat \<Rightarrow> byte list option" where
  "arq__cobs_decode b p len = do {
     ARQ_ASSERT b (3 \<le> len \<and> len \<le> 256);
     cobs_decode_loop b p 0 (sub32 len 1)
   }"

section \<open>The encoding as a function of the payload\<close>

fun cobs_stuff :: "byte list \<Rightarrow> byte list" where
  "cobs_stuff [] = [1]"
| "cobs_stuff (x # xs) =
     (if x = 0 then 1 # cobs_stuff xs
      else (hd (cobs_stuff xs) + 1) # x # tl (cobs_stuff xs))"

lemma length_cobs_stuff [simp, arq_len]: "length (cobs_stuff xs) = Suc (length xs)"
  by (induction xs) auto

lemma cobs_stuff_not_Nil [simp]: "cobs_stuff xs \<noteq> []"
  using length_cobs_stuff [of xs] by (metis list.size(3) nat.distinct(1))

text \<open>A run of nonzero bytes is copied; the byte before it counts it.\<close>

lemma cobs_stuff_run:
  "0 \<notin> set run \<Longrightarrow>
   cobs_stuff (run @ ys) = (hd (cobs_stuff ys) + of_nat (length run)) # run @ tl (cobs_stuff ys)"
  by (induction run) (auto simp: algebra_simps)

lemma cobs_stuff_zero:
  "0 \<notin> set run \<Longrightarrow> cobs_stuff (run @ 0 # ys) = of_nat (Suc (length run)) # run @ cobs_stuff ys"
  by (simp add: cobs_stuff_run)

lemma cobs_stuff_nonzero:
  "0 \<notin> set run \<Longrightarrow> cobs_stuff run = of_nat (Suc (length run)) # run"
  using cobs_stuff_run [of run "[]"] by simp

lemma first_zero_cases:
  obtains "0 \<notin> set (xs :: byte list)"
  | run ys where "xs = run @ 0 # ys" "0 \<notin> set run"
  using split_list_first [of 0 xs] by blast

lemma unat_byte_of_nat: "n < 256 \<Longrightarrow> unat (of_nat n :: byte) = n"
  by (simp add: unat_of_nat)

lemma byte_of_nat_nonzero: "0 < n \<Longrightarrow> n < 256 \<Longrightarrow> (of_nat n :: byte) \<noteq> 0"
  using unat_byte_of_nat [of n] by auto

lemma cobs_stuff_no_zero: "length xs \<le> 254 \<Longrightarrow> 0 \<notin> set (cobs_stuff xs)"
proof (induction xs rule: measure_induct_rule [of length])
  case (less xs)
  show ?case
  proof (cases xs rule: first_zero_cases)
    case 1
    with less.prems show ?thesis
      using byte_of_nat_nonzero [of "Suc (length xs)"]
      by (simp add: cobs_stuff_nonzero del: of_nat_Suc)
  next
    case (2 run ys)
    with less.prems have "0 \<notin> set (cobs_stuff ys)"
      by (intro less.IH) auto
    with 2 less.prems show ?thesis
      using byte_of_nat_nonzero [of "Suc (length run)"]
      by (simp add: cobs_stuff_zero del: of_nat_Suc)
  qed
qed

section \<open>The loops compute the encoding\<close>

lemma cobs_encode_loop_stuff:
  assumes "0 \<notin> set run"
  shows "cobs_encode_loop (pre @ a # run @ rest @ y # post) (length pre)
           (Suc (length pre + length run)) (Suc (length pre + length run + length rest))
         = Some (pre @ cobs_stuff (run @ rest) @ 0 # post)"
  using assms
proof (induction rest arbitrary: pre a run)
  case Nil
  then show ?case
    by (subst cobs_encode_loop.simps)
       (simp add: wr_def cobs_stuff_nonzero nth_append list_update_append)
next
  case (Cons x rest)
  let ?p = "pre @ a # run @ (x # rest) @ y # post"
  have at: "rd ?p (Suc (length pre + length run)) = Some x"
    by (simp add: rd_def nth_append)
  show ?case
  proof (cases "x = 0")
    case True
    have "cobs_encode_loop ((pre @ of_nat (Suc (length run)) # run) @ 0 # [] @ rest @ y # post)
            (length (pre @ of_nat (Suc (length run)) # run))
            (Suc (length (pre @ of_nat (Suc (length run)) # run) + length ([] :: byte list)))
            (Suc (length (pre @ of_nat (Suc (length run)) # run) + length ([] :: byte list) + length rest))
          = Some ((pre @ of_nat (Suc (length run)) # run) @ cobs_stuff ([] @ rest) @ 0 # post)"
      by (rule Cons.IH) simp
    with True at Cons.prems show ?thesis
      by (subst cobs_encode_loop.simps)
         (simp add: wr_def list_update_append cobs_stuff_zero)
  next
    case False
    have "cobs_encode_loop (pre @ a # (run @ [x]) @ rest @ y # post) (length pre)
            (Suc (length pre + length (run @ [x])))
            (Suc (length pre + length (run @ [x]) + length rest))
          = Some (pre @ cobs_stuff ((run @ [x]) @ rest) @ 0 # post)"
      using Cons.prems False by (intro Cons.IH) auto
    with False at show ?thesis
      by (subst cobs_encode_loop.simps) simp
  qed
qed

lemma cobs_decode_loop_stuff:
  assumes "length xs \<le> 254"
  shows "cobs_decode_loop b (pre @ cobs_stuff xs @ y # post) (length pre)
           (length pre + Suc (length xs))
         = Some (pre @ 0 # xs @ y # post)"
  using assms
proof (induction xs arbitrary: pre rule: measure_induct_rule [of length])
  case (less xs)
  show ?case
  proof (cases xs rule: first_zero_cases)
    case 1
    have n: "unat (of_nat (Suc (length xs)) :: byte) = Suc (length xs)"
      using less.prems by (simp add: unat_byte_of_nat del: of_nat_Suc)
    show ?thesis
      using 1 n
      by (subst cobs_decode_loop.simps, subst cobs_decode_loop.simps)
         (simp add: rd_def wr_def cobs_stuff_nonzero nth_append list_update_append del: of_nat_Suc)
  next
    case (2 run ys)
    have n: "unat (of_nat (Suc (length run)) :: byte) = Suc (length run)"
      using less.prems 2 by (simp add: unat_byte_of_nat del: of_nat_Suc)
    have "cobs_decode_loop b ((pre @ 0 # run) @ cobs_stuff ys @ y # post) (length (pre @ 0 # run))
            (length (pre @ 0 # run) + Suc (length ys))
          = Some ((pre @ 0 # run) @ 0 # ys @ y # post)"
      using less.prems 2 by (intro less.IH) auto
    then show ?thesis
      using 2 n
      by (subst cobs_decode_loop.simps)
         (simp add: rd_def wr_def cobs_stuff_zero nth_append list_update_append add.assoc
           del: of_nat_Suc)
  qed
qed

text \<open>A frame buffer is its first byte, the payload, the last byte and what lies beyond.\<close>

lemma frame_split:
  assumes "2 \<le> len" "len \<le> length p"
  shows "p = hd p # take (len - 2) (tl p) @ p ! (len - 1) # drop len p"
proof -
  have "p = hd p # tl p"
    using assms by (cases p) auto
  moreover have "tl p = take (len - 2) (tl p) @ tl p ! (len - 2) # drop (Suc (len - 2)) (tl p)"
    using assms by (intro id_take_nth_drop) simp
  moreover have "tl p ! (len - 2) = p ! (len - 1)"
    using assms by (simp add: nth_tl Suc_diff_Suc numeral_2_eq_2)
  moreover have "drop (Suc (len - 2)) (tl p) = drop len p"
    using assms by (simp add: drop_Suc [symmetric] Suc_diff_Suc numeral_2_eq_2)
  ultimately show ?thesis by metis
qed

definition frame_payload :: "byte list \<Rightarrow> nat \<Rightarrow> byte list" where
  "frame_payload p len = take (len - 2) (tl p)"

lemma length_frame_payload [simp]:
  "2 \<le> len \<Longrightarrow> len \<le> length p \<Longrightarrow> length (frame_payload p len) = len - 2"
  by (simp add: frame_payload_def)

lemma cobs_encode_stuff:
  assumes "3 \<le> len" "len \<le> 256" "len \<le> length p"
  shows "arq__cobs_encode b p len = Some (cobs_stuff (frame_payload p len) @ 0 # drop len p)"
proof -
  have p: "p = [] @ hd p # [] @ frame_payload p len @ p ! (len - 1) # drop len p"
    using frame_split [of len p] assms by (simp add: frame_payload_def)
  have "cobs_encode_loop p 0 1 (len - 1) =
      Some ([] @ cobs_stuff ([] @ frame_payload p len) @ 0 # drop len p)"
    using cobs_encode_loop_stuff [of "[]" "[]" "hd p" "frame_payload p len" "p ! (len - 1)" "drop len p"]
      p assms by (simp add: Suc_diff_Suc numeral_2_eq_2)
  then show ?thesis
    using assms by (simp add: arq__cobs_encode_def sub32_le)
qed

lemma cobs_decode_stuff:
  assumes "1 \<le> length xs" "length xs \<le> 254"
  shows "arq__cobs_decode b (cobs_stuff xs @ y # post) (length xs + 2) = Some (0 # xs @ y # post)"
  using cobs_decode_loop_stuff [of xs b "[]" y post] assms
  by (simp add: arq__cobs_decode_def sub32_le)

text \<open>
  The decoder on any buffer whose bytes before the last are nonzero: it returns, keeps the
  buffer's length, and touches nothing from the last byte of the frame on.
\<close>

lemma cobs_decode_loop_total:
  assumes "e \<le> length p" "\<forall>i<e. c \<le> i \<longrightarrow> p ! i \<noteq> 0"
  shows "\<exists>p'. cobs_decode_loop b p c e = Some p' \<and> length p' = length p \<and> drop e p' = drop e p"
  using assms
proof (induction "e - c" arbitrary: p c rule: less_induct)
  case less
  show ?case
  proof (cases "c < e")
    case True
    let ?n = "c + unat (p ! c)"
    have pos: "0 < unat (p ! c)"
      using less.prems(2) True by (simp add: unat_gt_0)
    have "\<exists>p'. cobs_decode_loop b (p[c := 0]) ?n e = Some p'
        \<and> length p' = length (p[c := 0]) \<and> drop e p' = drop e (p[c := 0])"
      using True pos less.prems by (intro less.hyps) (auto simp: nth_list_update)
    with True pos less.prems show ?thesis
      by (subst cobs_decode_loop.simps) (auto simp: rd_def wr_def)
  next
    case False
    then show ?thesis by (subst cobs_decode_loop.simps) simp
  qed
qed

lemma cobs_decode_total:
  assumes "3 \<le> len" "len \<le> 256" "len \<le> length p" "0 \<notin> set (take (len - 1) p)"
  shows "\<exists>p'. arq__cobs_decode b p len = Some p' \<and> length p' = length p"
proof -
  have "\<forall>i<len - 1. 0 \<le> i \<longrightarrow> p ! i \<noteq> 0"
    using assms by (auto simp: in_set_conv_nth)
  then have "\<exists>p'. cobs_decode_loop b p 0 (len - 1) = Some p' \<and> length p' = length p
      \<and> drop (len - 1) p' = drop (len - 1) p"
    using assms by (intro cobs_decode_loop_total) auto
  with assms show ?thesis
    by (auto simp: arq__cobs_decode_def sub32_le)
qed

section \<open>Properties\<close>

text \<open>
  C20. Encoding a frame of 3 to 256 bytes in place and decoding it restores every payload byte,
  whatever the payload, and clears the first and the last byte; memory after the frame is not
  touched by either.
\<close>

theorem cobs_round_trip:
  assumes "3 \<le> len" "len \<le> 256" "len \<le> length p"
  shows "\<exists>q. arq__cobs_encode b p len = Some q \<and>
             arq__cobs_decode b' q len = Some (0 # frame_payload p len @ 0 # drop len p)"
proof -
  have "len = length (frame_payload p len) + 2"
    using assms by simp
  then show ?thesis
    using cobs_encode_stuff [OF assms, of b] assms
      cobs_decode_stuff [of "frame_payload p len" b' 0 "drop len p"] by auto
qed

theorem cobs_round_trip_witness:
  "\<exists>q. arq__cobs_encode le_build [9, 5, 0, 0, 7, 9, 42] 6 = Some q \<and>
       arq__cobs_decode be_build q 6 = Some [0, 5, 0, 0, 7, 0, 42]"
  using cobs_round_trip [of 6 "[9, 5, 0, 0, 7, 9, 42]" le_build be_build]
  by (simp add: frame_payload_def eval_nat_numeral)

text \<open>
  C21. An encoded frame is delimited unambiguously: its last byte is zero and no other byte of
  it is, so the end of a frame is the first zero on the wire.
\<close>

theorem cobs_delimits:
  assumes "3 \<le> len" "len \<le> 256" "len \<le> length p"
  shows "\<exists>q. arq__cobs_encode b p len = Some q \<and> length q = length p \<and> q ! (len - 1) = 0 \<and>
             0 \<notin> set (take (len - 1) q) \<and> drop len q = drop len p"
proof -
  have "length (cobs_stuff (frame_payload p len)) = len - 1"
    using assms by simp
  moreover from this have "0 \<notin> set (cobs_stuff (frame_payload p len))"
    using assms by (intro cobs_stuff_no_zero) simp
  ultimately show ?thesis
    using cobs_encode_stuff [OF assms, of b] assms by (auto simp: nth_append)
qed

theorem cobs_delimits_witness:
  "\<exists>q. arq__cobs_encode le_build [9, 0, 0, 9] 4 = Some q \<and> q ! 3 = 0 \<and> 0 \<notin> set (take 3 q)"
  using cobs_delimits [of 4 "[9, 0, 0, 9]" le_build] by (auto simp: numeral_eq_Suc)

end
