(* ===== verification/Arq_Frame.thy ===== *)
theory Arq_Frame imports Arq_Cobs begin

text \<open>
  The frame layer of \<open>src/arq.h\<close>: the twelve-byte header (\<open>arq__frame_hdr_write\<close>,
  \<open>arq__frame_hdr_read\<close>), the checksum footer and the assembly of a whole frame in a buffer
  (\<open>arq__frame_write\<close>, \<open>arq__frame_read\<close>). The checksum is the user's function: a parameter
  from the bytes it is given to a 32-bit value.
\<close>

section \<open>Header\<close>

record arq__frame_hdr_t =
  h_version :: nat
  h_seg_len :: nat
  h_win_size :: nat
  h_seq_num :: nat
  h_msg_len :: nat
  h_seg_id :: nat
  h_ack_num :: nat
  h_cur_ack_vec :: nat
  h_rst :: bool
  h_fin :: bool
  h_ack :: bool
  h_seg :: bool

definition ARQ__FRAME_HEADER_SIZE :: nat where
  "ARQ__FRAME_HEADER_SIZE = 12"

definition ARQ__FRAME_COBS_OVERHEAD :: nat where
  "ARQ__FRAME_COBS_OVERHEAD = 2"

definition ARQ__FRAME_MAX_SEQ_NUM :: nat where
  "ARQ__FRAME_MAX_SEQ_NUM = 2 ^ 12 - 1"

lemmas frame_constants [simp] =
  ARQ__FRAME_HEADER_SIZE_def ARQ__FRAME_COBS_OVERHEAD_def ARQ__FRAME_MAX_SEQ_NUM_def

definition arq__frame_hdr_init :: "arq__frame_hdr_t" where
  "arq__frame_hdr_init =
     \<lparr>h_version = 0, h_seg_len = 0, h_win_size = 0, h_seq_num = 0, h_msg_len = 0, h_seg_id = 0,
      h_ack_num = 0, h_cur_ack_vec = 0, h_rst = False, h_fin = False, h_ack = False, h_seg = False\<rparr>"

text \<open>
  The bytes \<open>arq__frame_hdr_write\<close> stores. \<open>q\<close>, \<open>g\<close>, \<open>a\<close> and \<open>c\<close> are the successive contents
  of \<open>tmp_n\<close>, read through \<open>src\<close>; a value stored to a byte keeps its low eight bits.
\<close>

definition arq__frame_hdr_write :: "build \<Rightarrow> arq__frame_hdr_t \<Rightarrow> byte list option" where
  "arq__frame_hdr_write b h = do {
     ARQ_ASSERT b (h_cur_ack_vec h AND 0xF000 = 0);
     let q = obj16 b (arq__hton16 b (of_nat (h_seq_num h)));
     let g = obj16 b (arq__hton16 b (of_nat (h_seg_id h)));
     let a = obj16 b (arq__hton16 b (of_nat (h_ack_num h)));
     let c = obj16 b (arq__hton16 b (of_nat (h_cur_ack_vec h)));
     Some
      [of_nat (h_version h),
       of_nat (h_seg_len h),
       of_bool (h_fin h) OR push_bit 1 (of_bool (h_rst h)) OR push_bit 2 (of_bool (h_ack h))
         OR push_bit 3 (of_bool (h_seg h)),
       of_nat (h_win_size h),
       push_bit 4 (q ! 0) OR drop_bit 4 (q ! 1),
       push_bit 4 (q ! 1) OR of_nat (drop_bit 4 (h_msg_len h)),
       of_nat (push_bit 4 (h_msg_len h)) OR (g ! 0 AND 0x0F),
       g ! 1,
       push_bit 4 (a ! 0) OR drop_bit 4 (a ! 1),
       push_bit 4 (a ! 1),
       c ! 0 AND 0x0F,
       c ! 1]
   }"

text \<open>
  \<open>arq__frame_hdr_read\<close> on the header's bytes; \<open>tmp\<close> is the value \<open>arq__ntoh16(tmp_n)\<close> after
  the code's two stores to \<open>dst\<close>.
\<close>

definition arq__frame_hdr_read :: "build \<Rightarrow> byte list \<Rightarrow> arq__frame_hdr_t" where
  "arq__frame_hdr_read b s =
     (let tmp = (\<lambda>d0 d1. unat (arq__ntoh16 b (of_obj16 b d0 d1)))
      in \<lparr>h_version = unat (s ! 0),
          h_seg_len = unat (s ! 1),
          h_win_size = unat (s ! 3),
          h_seq_num = tmp (drop_bit 4 (s ! 4)) (push_bit 4 (s ! 4) OR drop_bit 4 (s ! 5)),
          h_msg_len = unat (push_bit 4 (s ! 5) OR drop_bit 4 (s ! 6)),
          h_seg_id = tmp (s ! 6 AND 0x0F) (s ! 7),
          h_ack_num = tmp (drop_bit 4 (s ! 8)) (push_bit 4 (s ! 8) OR drop_bit 4 (s ! 9)),
          h_cur_ack_vec = tmp (s ! 10 AND 0x0F) (s ! 11),
          h_rst = bit (s ! 2) 1,
          h_fin = bit (s ! 2) 0,
          h_ack = bit (s ! 2) 2,
          h_seg = bit (s ! 2) 3\<rparr>)"

text \<open>A header whose fields fit the widths the wire format gives them.\<close>

definition hdr_fits :: "arq__frame_hdr_t \<Rightarrow> bool" where
  "hdr_fits h \<longleftrightarrow> h_version h < 256 \<and> h_seg_len h < 256 \<and> h_win_size h < 256 \<and>
     h_seq_num h < 4096 \<and> h_msg_len h < 256 \<and> h_seg_id h < 4096 \<and> h_ack_num h < 4096 \<and>
     h_cur_ack_vec h < 4096"

lemma hdr_init_fits [simp]: "hdr_fits arq__frame_hdr_init"
  by (simp add: hdr_fits_def arq__frame_hdr_init_def)

lemma word16_eqI:
  assumes "list_all (\<lambda>n. bit x n = bit (y :: 16 word) n) [0..<16]"
  shows "x = y"
  by (rule bit_word_eqI) (use assms in \<open>simp add: list_all_iff\<close>)

text \<open>Twelve bits split over two bytes, high nibble first or low nibble first.\<close>

lemma unat_take_bit_12: "n < 4096 \<Longrightarrow> unat (take_bit 12 (of_nat n :: 16 word)) = n"
  by (simp only: unsigned_take_bit_eq) (simp add: unat_of_nat take_bit_eq_mod)

lemma nibbles_high:
  fixes x :: "16 word"
  defines "q0 \<equiv> ucast (drop_bit 8 x) :: byte" and "q1 \<equiv> ucast x :: byte"
  shows "arq__ntoh16 b (of_obj16 b (drop_bit 4 (push_bit 4 q0 OR drop_bit 4 q1))
           (push_bit 4 (push_bit 4 q0 OR drop_bit 4 q1) OR drop_bit 4 (push_bit 4 q1)))
         = take_bit 12 x"
  unfolding ntoh16_of_obj16 q0_def q1_def
  by (rule word16_eqI) (simp add: upt_rec bit_simps, simp add: eval_nat_numeral)

lemma nibbles_low:
  fixes x :: "16 word"
  shows "arq__ntoh16 b (of_obj16 b (ucast (drop_bit 8 x) AND 0x0F) (ucast x)) = take_bit 12 x"
proof -
  have m: "(0x0F :: byte) = mask 4"
    by (simp add: mask_eq_exp_minus_1)
  show ?thesis
    unfolding ntoh16_of_obj16 m
    by (rule word16_eqI) (simp add: upt_rec bit_simps, (simp add: eval_nat_numeral)?)
qed

lemma word8_eqI:
  assumes "list_all (\<lambda>n. bit x n = bit (y :: byte) n) [0..<8]"
  shows "x = y"
  by (rule bit_word_eqI) (use assms in \<open>simp add: list_all_iff\<close>)

text \<open>The message length shares its two bytes with the sequence number and the segment id.\<close>

lemma msg_len_high_nibble:
  assumes "m < 256"
  shows "drop_bit 4 (x OR of_nat (drop_bit 4 m)) = (drop_bit 4 x :: byte)"
proof -
  have "drop_bit 4 (of_nat (drop_bit 4 m)) = (0 :: byte)"
  proof (rule bit_word_eqI)
    fix n assume "n < LENGTH(8)"
    have "\<not> bit m (8 + n)"
      using bit_nat_less [of m "8 + n" 8] assms by auto
    then show "bit (drop_bit 4 (of_nat (drop_bit 4 m)) :: byte) n = bit (0 :: byte) n"
      by (auto simp: bit_simps)
  qed
  then show ?thesis
    by (simp add: drop_bit_or)
qed

lemma msg_len_bytes:
  fixes x g :: byte
  assumes "m < 256"
  shows "push_bit 4 (push_bit 4 x OR of_nat (drop_bit 4 m)) OR
           drop_bit 4 (of_nat (push_bit 4 m) OR (g AND 0x0F)) = (of_nat m :: byte)"
    and "(of_nat (push_bit 4 m) OR (g AND 0x0F)) AND 0x0F = g AND 0x0F"
proof -
  have f: "(0x0F :: byte) = mask 4"
    by (simp add: mask_eq_exp_minus_1)
  show "push_bit 4 (push_bit 4 x OR of_nat (drop_bit 4 m)) OR
      drop_bit 4 (of_nat (push_bit 4 m) OR (g AND 0x0F)) = (of_nat m :: byte)"
    unfolding f by (rule word8_eqI) (simp add: upt_rec bit_simps, simp add: eval_nat_numeral)
  show "(of_nat (push_bit 4 m) OR (g AND 0x0F)) AND 0x0F = g AND 0x0F"
    unfolding f by (rule word8_eqI) (simp add: upt_rec bit_simps)
qed

lemma hdr_flags:
  defines "f \<equiv> (\<lambda>fin rst ack seg. of_bool fin OR push_bit 1 (of_bool rst) OR push_bit 2 (of_bool ack)
      OR push_bit 3 (of_bool seg) :: byte)"
  shows "bit (f fin rst ack seg) 0 = fin" "bit (f fin rst ack seg) 1 = rst"
    "bit (f fin rst ack seg) 2 = ack" "bit (f fin rst ack seg) 3 = seg"
  unfolding f_def by (simp_all add: bit_simps)

lemma hdr_cur_ack_vec_fits: "v < 4096 \<Longrightarrow> v AND 0xF000 = (0 :: nat)"
proof -
  assume v: "v < 4096"
  then have v12: "v < 2 ^ 12" by simp
  have "v AND push_bit 12 15 = (0 :: nat)"
  proof (rule bit_eqI)
    fix n
    have "bit v n \<Longrightarrow> n < 12" by (rule bit_nat_less [OF _ v12])
    then show "bit (v AND push_bit 12 15) n = bit (0 :: nat) n"
      by (simp only: bit_and_iff bit_push_bit_iff bit_0_eq bot_apply bot_bool_def) auto
  qed
  moreover have "push_bit 12 15 = (0xF000 :: nat)"
    by (simp add: push_bit_eq_mult)
  ultimately show ?thesis by simp
qed

lemma hdr_write_read:
  assumes "hdr_fits h"
  shows "\<exists>bs. arq__frame_hdr_write b h = Some bs \<and> length bs = 12 \<and> arq__frame_hdr_read b' bs = h"
proof -
  note fits = assms [unfolded hdr_fits_def]
  define x where "x = (of_nat (h_seq_num h) :: 16 word)"
  define y where "y = (of_nat (h_ack_num h) :: 16 word)"
  define g where "g = (of_nat (h_seg_id h) :: 16 word)"
  define c where "c = (of_nat (h_cur_ack_vec h) :: 16 word)"
  define b2 where "b2 = (of_bool (h_fin h) OR push_bit 1 (of_bool (h_rst h))
    OR push_bit 2 (of_bool (h_ack h)) OR push_bit 3 (of_bool (h_seg h)) :: byte)"
  define b4 where "b4 = (push_bit 4 (ucast (drop_bit 8 x)) OR drop_bit 4 (ucast x) :: byte)"
  define b5 where "b5 = (push_bit 4 (ucast x) OR of_nat (drop_bit 4 (h_msg_len h)) :: byte)"
  define b6 where "b6 = (of_nat (push_bit 4 (h_msg_len h)) OR (ucast (drop_bit 8 g) AND 0x0F) :: byte)"
  define b8 where "b8 = (push_bit 4 (ucast (drop_bit 8 y)) OR drop_bit 4 (ucast y) :: byte)"
  define b9 where "b9 = (push_bit 4 (ucast y) :: byte)"
  define b10 where "b10 = (ucast (drop_bit 8 c) AND 0x0F :: byte)"
  let ?bs = "[of_nat (h_version h), of_nat (h_seg_len h), b2, of_nat (h_win_size h), b4, b5, b6,
    ucast g, b8, b9, b10, ucast c]"
  have "h_cur_ack_vec h AND 0xF000 = 0"
    using fits by (simp only: hdr_cur_ack_vec_fits)
  then have wr: "arq__frame_hdr_write b h = Some ?bs"
    unfolding b2_def b4_def b5_def b6_def b8_def b9_def b10_def x_def y_def g_def c_def
    by (simp only: arq__frame_hdr_write_def ARQ_ASSERT_holds obj16_hton16 Let_def) simp
  have m: "h_msg_len h < 256"
    using fits by simp
  have seq: "unat (arq__ntoh16 b' (of_obj16 b' (drop_bit 4 b4) (push_bit 4 b4 OR drop_bit 4 b5)))
      = h_seq_num h"
    unfolding b4_def b5_def msg_len_high_nibble [OF m] nibbles_high
    using fits by (simp only: x_def unat_take_bit_12)
  have msg: "unat (push_bit 4 b5 OR drop_bit 4 b6) = h_msg_len h"
    unfolding b5_def b6_def msg_len_bytes [OF m] using m by (rule unat_byte_of_nat)
  have seg: "unat (arq__ntoh16 b' (of_obj16 b' (b6 AND 0x0F) (ucast g))) = h_seg_id h"
    unfolding b6_def msg_len_bytes [OF m] nibbles_low
    using fits by (simp only: g_def unat_take_bit_12)
  have ack: "unat (arq__ntoh16 b' (of_obj16 b' (drop_bit 4 b8) (push_bit 4 b8 OR drop_bit 4 b9)))
      = h_ack_num h"
    unfolding b8_def b9_def nibbles_high using fits by (simp only: y_def unat_take_bit_12)
  have b10: "b10 AND 0x0F = ucast (drop_bit 8 c) AND 0x0F"
    by (simp add: b10_def and.assoc)
  have vec: "unat (arq__ntoh16 b' (of_obj16 b' (b10 AND 0x0F) (ucast c))) = h_cur_ack_vec h"
    unfolding b10 nibbles_low using fits by (simp only: c_def unat_take_bit_12)
  have flags: "bit b2 0 = h_fin h" "bit b2 1 = h_rst h" "bit b2 2 = h_ack h" "bit b2 3 = h_seg h"
    unfolding b2_def by (rule hdr_flags)+
  have "arq__frame_hdr_read b' ?bs = h"
    using fits seq msg seg ack vec flags
    by (cases h) (simp add: arq__frame_hdr_read_def unat_byte_of_nat)
  with wr show ?thesis
    by simp
qed

section \<open>Frames\<close>

text \<open>The user's checksum function, from the bytes it is given to their checksum.\<close>

type_synonym checksum = "byte list \<Rightarrow> 32 word"

datatype arq__frame_read_result_t =
  ARQ__FRAME_READ_RESULT_SUCCESS
| ARQ__FRAME_READ_RESULT_ERR_CHECKSUM
| ARQ__FRAME_READ_RESULT_ERR_MALFORMED

definition arq__frame_len :: "build \<Rightarrow> nat \<Rightarrow> nat option" where
  "arq__frame_len b seg_len = do {
     ARQ_ASSERT b (seg_len \<le> 256);
     Some (u32 (ARQ__FRAME_COBS_OVERHEAD + ARQ__FRAME_HEADER_SIZE + seg_len + 4))
   }"

text \<open>
  A segment pointer is \<open>None\<close> for the null pointer, or the memory it points to. The result is
  the buffer after the copy and the number of bytes copied.
\<close>

definition arq__frame_seg_write ::
  "build \<Rightarrow> byte list option \<Rightarrow> byte list \<Rightarrow> nat \<Rightarrow> nat \<Rightarrow> (nat \<times> byte list) option" where
  "arq__frame_seg_write b seg out ofs len = do {
     ARQ_ASSERT b ((len \<noteq> 0 \<and> seg \<noteq> None) \<or> (seg = None \<and> len = 0) \<or> len = 0);
     bs \<leftarrow> (case seg of None \<Rightarrow> (if len = 0 then Some [] else None) | Some m \<Rightarrow> memcpy_out m 0 len);
     out' \<leftarrow> memcpy_in out ofs bs;
     Some (len, out')
   }"

definition arq__frame_checksum_write ::
  "build \<Rightarrow> checksum \<Rightarrow> nat \<Rightarrow> byte list \<Rightarrow> nat \<Rightarrow> byte list option" where
  "arq__frame_checksum_write b checksum seat frame seg_len = do {
     body \<leftarrow> memcpy_out frame 1 (ARQ__FRAME_HEADER_SIZE + seg_len);
     memcpy_in frame seat (obj32 b (arq__hton32 b (checksum body)))
   }"

definition arq__frame_write ::
  "build \<Rightarrow> arq__frame_hdr_t \<Rightarrow> byte list option \<Rightarrow> checksum \<Rightarrow> byte list \<Rightarrow> nat
   \<Rightarrow> (nat \<times> byte list) option" where
  "arq__frame_write b h seg checksum out frame_max = do {
     frame_len \<leftarrow> arq__frame_len b (h_seg_len h);
     ARQ_ASSERT b ((seg \<noteq> None \<or> h_seg_len h = 0) \<and> frame_max \<ge> frame_len);
     hdr \<leftarrow> arq__frame_hdr_write b h;
     out1 \<leftarrow> memcpy_in out 1 hdr;
     (n, out2) \<leftarrow> arq__frame_seg_write b seg out1 (1 + length hdr) (h_seg_len h);
     out3 \<leftarrow> arq__frame_checksum_write b checksum (1 + length hdr + n) out2 (h_seg_len h);
     out4 \<leftarrow> arq__cobs_encode b out3 frame_len;
     Some (frame_len, out4)
   }"

definition arq__frame_checksum_read ::
  "build \<Rightarrow> byte list \<Rightarrow> nat \<Rightarrow> nat \<Rightarrow> checksum \<Rightarrow> arq__frame_read_result_t option" where
  "arq__frame_checksum_read b frame frame_len seg_len checksum = do {
     n \<leftarrow> arq__frame_len b seg_len;
     if n > frame_len then Some ARQ__FRAME_READ_RESULT_ERR_MALFORMED
     else do {
       src \<leftarrow> memcpy_out frame (1 + ARQ__FRAME_HEADER_SIZE + seg_len) 4;
       body \<leftarrow> memcpy_out frame 1 (ARQ__FRAME_HEADER_SIZE + seg_len);
       if arq__ntoh32 b (of_obj32 b src) \<noteq> checksum body
       then Some ARQ__FRAME_READ_RESULT_ERR_CHECKSUM
       else Some ARQ__FRAME_READ_RESULT_SUCCESS
     }
   }"

text \<open>
  The result, the header, the offset \<open>*out_seg\<close> points to, and the buffer, which the decoder
  has overwritten.
\<close>

definition arq__frame_read ::
  "build \<Rightarrow> byte list \<Rightarrow> nat \<Rightarrow> checksum
   \<Rightarrow> (arq__frame_read_result_t \<times> arq__frame_hdr_t \<times> nat \<times> byte list) option" where
  "arq__frame_read b frame frame_len checksum = do {
     frame' \<leftarrow> arq__cobs_decode b frame frame_len;
     s \<leftarrow> memcpy_out frame' 1 ARQ__FRAME_HEADER_SIZE;
     let hdr = arq__frame_hdr_read b s;
     r \<leftarrow> arq__frame_checksum_read b frame' frame_len (h_seg_len hdr) checksum;
     Some (r, hdr, 1 + ARQ__FRAME_HEADER_SIZE, frame')
   }"

section \<open>What a frame holds\<close>

text \<open>The four checksum bytes, big-endian on the wire whatever the CPU.\<close>

definition be32 :: "32 word \<Rightarrow> byte list" where
  "be32 x = [ucast (drop_bit 24 x), ucast (drop_bit 16 x), ucast (drop_bit 8 x), ucast x]"

lemma length_be32 [simp, arq_len]: "length (be32 x) = 4"
  by (simp add: be32_def)

lemma obj32_hton32_be32: "obj32 b (arq__hton32 b x) = be32 x"
  by (simp add: obj32_hton32 be32_def)

definition of_be32 :: "byte list \<Rightarrow> 32 word" where
  "of_be32 bs = arq__ntoh32 \<lparr>little_endian = False, asserts_enabled = False, use_connections = False\<rparr>
     (of_obj32 \<lparr>little_endian = False, asserts_enabled = False, use_connections = False\<rparr> bs)"

lemma be32_surj:
  assumes "length bs = 4"
  obtains x where "bs = be32 x"
proof -
  obtain a c d e where bs: "bs = [a, c, d, e]"
    using assms by (auto simp: numeral_eq_Suc length_Suc_conv)
  let ?x = "push_bit 24 (ucast a) OR push_bit 16 (ucast c) OR push_bit 8 (ucast d) OR ucast e :: 32 word"
  have "ucast (drop_bit 24 ?x) = a" "ucast (drop_bit 16 ?x) = c" "ucast (drop_bit 8 ?x) = d" "ucast ?x = e"
    by (rule bit_word_eqI, auto simp: bit_simps dest: bit_imp_le_length)+
  then have "bs = be32 ?x"
    by (simp add: bs be32_def)
  then show thesis by (rule that)
qed

lemma ntoh32_of_be32: "arq__ntoh32 b (of_obj32 b (be32 x)) = x"
  by (simp flip: obj32_hton32_be32 [of b])

lemma of_be32_be32 [simp]: "of_be32 (be32 x) = x"
  by (simp add: of_be32_def ntoh32_of_be32)

lemma ntoh32_of_obj32: "length bs = 4 \<Longrightarrow> arq__ntoh32 b (of_obj32 b bs) = of_be32 bs"
  by (metis be32_surj ntoh32_of_be32 of_be32_be32)

text \<open>
  What \<open>arq__frame_read\<close> reports about a decoded payload \<open>xs\<close>: the announced segment must fit
  the frame, and the checksum of header and segment must match the footer.
\<close>

definition payload_hdr :: "build \<Rightarrow> byte list \<Rightarrow> arq__frame_hdr_t" where
  "payload_hdr b xs = arq__frame_hdr_read b (take 12 xs)"

definition payload_result :: "build \<Rightarrow> checksum \<Rightarrow> byte list \<Rightarrow> arq__frame_read_result_t" where
  "payload_result b checksum xs =
     (let n = h_seg_len (payload_hdr b xs)
      in if length xs < 16 + n then ARQ__FRAME_READ_RESULT_ERR_MALFORMED
         else if of_be32 (take 4 (drop (12 + n) xs)) \<noteq> checksum (take (12 + n) xs)
         then ARQ__FRAME_READ_RESULT_ERR_CHECKSUM
         else ARQ__FRAME_READ_RESULT_SUCCESS)"

lemma hdr_read_seg_len_less: "h_seg_len (arq__frame_hdr_read b s) < 256"
proof -
  have "unat (s ! 1) < 2 ^ LENGTH(8)"
    by (rule unsigned_less)
  then show ?thesis
    by (simp add: arq__frame_hdr_read_def)
qed

lemma arq__frame_len_ok [arq_mem]: "seg_len \<le> 256 \<Longrightarrow> arq__frame_len b seg_len = Some (18 + seg_len)"
  by (simp add: arq__frame_len_def u32_id)

lemma frame_checksum_read_payload:
  fixes xs :: "byte list"
  assumes "n < 256"
  shows "arq__frame_checksum_read b (0 # xs @ y # rest) (length xs + 2) n checksum =
    Some (if length xs < 16 + n then ARQ__FRAME_READ_RESULT_ERR_MALFORMED
          else if of_be32 (take 4 (drop (12 + n) xs)) \<noteq> checksum (take (12 + n) xs)
          then ARQ__FRAME_READ_RESULT_ERR_CHECKSUM
          else ARQ__FRAME_READ_RESULT_SUCCESS)"
proof (cases "length xs < 16 + n")
  case True
  with assms show ?thesis
    by (simp add: arq__frame_checksum_read_def arq_mem)
next
  case False
  then have "memcpy_out (0 # xs @ y # rest) (13 + n) 4 = Some (take 4 (drop (12 + n) xs))"
    "memcpy_out (0 # xs @ y # rest) 1 (12 + n) = Some (take (12 + n) xs)"
    by (simp_all add: memcpy_out_def drop_Cons')
  moreover have "length (take 4 (drop (12 + n) xs)) = 4"
    using False by simp
  ultimately show ?thesis
    using False assms
    by (simp add: arq__frame_checksum_read_def arq_mem ntoh32_of_obj32 del: length_take length_drop)
qed

lemma frame_read_payload:
  assumes "12 \<le> length xs" "length xs \<le> 254"
  shows "arq__frame_read b (cobs_stuff xs @ y # rest) (length xs + 2) checksum =
    Some (payload_result b checksum xs, payload_hdr b xs, 13, 0 # xs @ y # rest)"
proof -
  have "arq__cobs_decode b (cobs_stuff xs @ y # rest) (length xs + 2) = Some (0 # xs @ y # rest)"
    using assms by (intro cobs_decode_stuff) auto
  moreover have "memcpy_out (0 # xs @ y # rest) 1 12 = Some (take 12 xs)"
    using assms by (simp add: memcpy_out_def)
  ultimately show ?thesis
    using frame_checksum_read_payload [OF hdr_read_seg_len_less]
    by (simp add: arq__frame_read_def payload_hdr_def payload_result_def Let_def)
qed

text \<open>The bytes behind a segment pointer that \<open>arq__frame_write\<close> copies.\<close>

definition seg_bytes :: "byte list option \<Rightarrow> nat \<Rightarrow> byte list" where
  "seg_bytes seg n = (case seg of None \<Rightarrow> [] | Some m \<Rightarrow> take n m)"

definition seg_readable :: "byte list option \<Rightarrow> nat \<Rightarrow> bool" where
  "seg_readable seg n \<longleftrightarrow> (case seg of None \<Rightarrow> n = 0 | Some m \<Rightarrow> n \<le> length m)"

lemma length_seg_bytes [simp]: "seg_readable seg n \<Longrightarrow> length (seg_bytes seg n) = n"
  by (auto simp: seg_readable_def seg_bytes_def split: option.splits)

definition frame_image :: "checksum \<Rightarrow> byte list \<Rightarrow> byte list \<Rightarrow> byte list" where
  "frame_image checksum hdr bs = cobs_stuff (hdr @ bs @ be32 (checksum (hdr @ bs))) @ [0]"

lemma frame_write_image:
  assumes hdr: "arq__frame_hdr_write b h = Some hdr" "length hdr = 12"
    and seg: "seg_readable seg (h_seg_len h)" "h_seg_len h \<le> 238"
    and out: "18 + h_seg_len h \<le> frame_max" "18 + h_seg_len h \<le> length out"
  shows "arq__frame_write b h seg checksum out frame_max =
    Some (18 + h_seg_len h,
      frame_image checksum hdr (seg_bytes seg (h_seg_len h)) @ drop (18 + h_seg_len h) out)"
proof -
  define n where "n = h_seg_len h"
  define bs where "bs = seg_bytes seg n"
  have bs: "length bs = n"
    using seg by (simp add: bs_def n_def)
  define ck where "ck = be32 (checksum (hdr @ bs))"
  have ck: "length ck = 4" by (simp add: ck_def)
  obtain o0 os where o: "out = o0 # os" and os: "17 + n \<le> length os"
    using out(2) by (cases out) (auto simp: n_def)
  have 1: "memcpy_in out 1 hdr = Some (o0 # hdr @ drop 12 os)"
    using hdr(2) os by (simp add: o memcpy_in_def)
  have src: "(case seg of None \<Rightarrow> if n = 0 then Some [] else None | Some m \<Rightarrow> memcpy_out m 0 n) = Some bs"
    using seg by (auto simp: bs_def n_def seg_bytes_def seg_readable_def memcpy_out_def split: option.splits)
  have assert: "n \<noteq> 0 \<and> seg \<noteq> None \<or> seg = None \<and> n = 0 \<or> n = 0" "seg \<noteq> None \<or> n = 0"
    using seg by (auto simp: seg_readable_def n_def split: option.splits)
  have "memcpy_in (o0 # hdr @ drop 12 os) 13 bs = Some (o0 # hdr @ bs @ drop (12 + n) os)"
    using hdr(2) os bs by (simp add: memcpy_in_def add.commute drop_Cons')
  with src assert have 2: "arq__frame_seg_write b seg (o0 # hdr @ drop 12 os) 13 n =
      Some (n, o0 # hdr @ bs @ drop (12 + n) os)"
    by (simp add: arq__frame_seg_write_def)
  have "memcpy_out (o0 # hdr @ bs @ drop (12 + n) os) 1 (12 + n) = Some (hdr @ bs)"
    using hdr(2) os bs by (simp add: memcpy_out_def)
  moreover have "memcpy_in (o0 # hdr @ bs @ drop (12 + n) os) (13 + n) ck =
      Some (o0 # hdr @ bs @ ck @ drop (16 + n) os)"
    using hdr(2) os bs ck by (simp add: memcpy_in_def add.commute take_Cons' drop_Cons')
  ultimately have 3: "arq__frame_checksum_write b checksum (13 + n) (o0 # hdr @ bs @ drop (12 + n) os) n =
      Some (o0 # hdr @ bs @ ck @ drop (16 + n) os)"
    by (simp add: arq__frame_checksum_write_def obj32_hton32_be32 ck_def)
  have "frame_payload (o0 # hdr @ bs @ ck @ drop (16 + n) os) (18 + n) = hdr @ bs @ ck"
    using hdr(2) bs ck by (simp add: frame_payload_def)
  then have 4: "arq__cobs_encode b (o0 # hdr @ bs @ ck @ drop (16 + n) os) (18 + n) =
      Some (cobs_stuff (hdr @ bs @ ck) @ 0 # drop (18 + n) out)"
    using cobs_encode_stuff [of "18 + n" "o0 # hdr @ bs @ ck @ drop (16 + n) os" b]
      hdr(2) bs ck os seg by (simp add: o n_def add.commute drop_Cons')
  show ?thesis
    using 1 2 3 4 assert seg(2) out(1) hdr
    by (simp add: arq__frame_write_def arq__frame_len_ok frame_image_def ck_def bs_def n_def)
qed

lemma length_frame_image [simp]:
  "length hdr = 12 \<Longrightarrow> length (frame_image checksum hdr bs) = 18 + length bs"
  by (simp add: frame_image_def)

text \<open>The payload behind a written frame, and what a reader makes of it.\<close>

lemma frame_write_payload:
  assumes "hdr_fits h" "seg_readable seg (h_seg_len h)" "h_seg_len h \<le> 238"
    and "18 + h_seg_len h \<le> frame_max" "18 + h_seg_len h \<le> length out"
  shows "\<exists>xs. arq__frame_write b h seg checksum out frame_max =
      Some (length xs + 2, cobs_stuff xs @ 0 # drop (18 + h_seg_len h) out) \<and>
    length xs = 16 + h_seg_len h \<and> payload_hdr b' xs = h \<and>
    payload_result b' checksum xs = ARQ__FRAME_READ_RESULT_SUCCESS \<and>
    take (h_seg_len h) (drop 12 xs) = seg_bytes seg (h_seg_len h)"
proof -
  obtain hdr where hdr: "arq__frame_hdr_write b h = Some hdr" "length hdr = 12"
    "arq__frame_hdr_read b' hdr = h"
    using hdr_write_read [OF assms(1)] by blast
  define bs where "bs = seg_bytes seg (h_seg_len h)"
  define xs where "xs = hdr @ bs @ be32 (checksum (hdr @ bs))"
  have bs: "length bs = h_seg_len h"
    using assms by (simp add: bs_def)
  have xs: "length xs = 16 + h_seg_len h" "take 12 xs = hdr"
    using hdr bs by (simp_all add: xs_def)
  have "take (12 + h_seg_len h) xs = hdr @ bs" "drop (12 + h_seg_len h) xs = be32 (checksum (hdr @ bs))"
    using hdr bs by (simp_all add: xs_def)
  then have "payload_hdr b' xs = h" "payload_result b' checksum xs = ARQ__FRAME_READ_RESULT_SUCCESS"
    using hdr xs by (simp_all add: payload_hdr_def payload_result_def)
  moreover have "arq__frame_write b h seg checksum out frame_max =
      Some (length xs + 2, cobs_stuff xs @ 0 # drop (18 + h_seg_len h) out)"
    using frame_write_image [OF hdr(1,2) assms(2-5)] xs(1)
    by (simp add: frame_image_def xs_def bs_def)
  moreover have "take (h_seg_len h) (drop 12 xs) = seg_bytes seg (h_seg_len h)"
    using hdr bs by (simp add: xs_def bs_def)
  ultimately show ?thesis
    using xs(1) by blast
qed

text \<open>Whatever twelve bytes arrive, the fields read from them fit the widths of the wire format.\<close>

lemma word16_hi_less:
  fixes d0 d1 :: byte
  assumes "\<And>n. 4 \<le> n \<Longrightarrow> \<not> bit d0 n"
  shows "unat (push_bit 8 (ucast d0) OR ucast d1 :: 16 word) < 4096"
proof -
  let ?x = "push_bit 8 (ucast d0) OR ucast d1 :: 16 word"
  have "take_bit 12 ?x = ?x"
  proof (rule bit_word_eqI)
    fix n assume n: "n < LENGTH(16)"
    show "bit (take_bit 12 ?x) n = bit ?x n"
    proof (cases "n < 12")
      case False
      then have "\<not> bit d1 n" "\<not> bit d0 (n - 8)"
        using bit_imp_le_length [of d1 n] assms [of "n - 8"] by auto
      then show ?thesis using False by (simp add: bit_simps)
    qed (simp only: bit_take_bit_iff simp_thms)
  qed
  then have "unat ?x = take_bit 12 (unat ?x)" by (metis unsigned_take_bit_eq)
  also have "\<dots> < 2 ^ 12" by (rule take_bit_nat_less_exp)
  finally show ?thesis by simp
qed

lemma nibble_bits:
  "4 \<le> n \<Longrightarrow> \<not> bit (drop_bit 4 (x :: byte)) n" "4 \<le> n \<Longrightarrow> \<not> bit (x AND 0x0F) n"
proof -
  have m: "(0x0F :: byte) = mask 4" by (simp add: mask_eq_exp_minus_1)
  show "4 \<le> n \<Longrightarrow> \<not> bit (drop_bit 4 x) n" using bit_imp_le_length [of x "4 + n"] by (auto simp: bit_drop_bit_eq)
  show "4 \<le> n \<Longrightarrow> \<not> bit (x AND 0x0F) n" unfolding m by (simp add: bit_simps)
qed

lemma hdr_read_all_fit: "hdr_fits (arq__frame_hdr_read b s)"
proof -
  have byte: "unat (x :: byte) < 256" for x using unsigned_less [of x] by simp
  show ?thesis
    unfolding hdr_fits_def arq__frame_hdr_read_def Let_def ntoh16_of_obj16 arq__frame_hdr_t.select_convs
    by (intro conjI byte word16_hi_less [OF nibble_bits(1)] word16_hi_less [OF nibble_bits(2)])
qed

lemma hdr_read_ranges:
  "h_seg_len (arq__frame_hdr_read b s) < 256" "h_seq_num (arq__frame_hdr_read b s) < 4096"
  "h_ack_num (arq__frame_hdr_read b s) < 4096" "h_cur_ack_vec (arq__frame_hdr_read b s) < 4096"
  using hdr_read_all_fit [of b s] by (simp_all add: hdr_fits_def)

section \<open>Properties\<close>

text \<open>
  C18. A header whose fields fit the wire format is read back unchanged from the twelve bytes it
  is written to, whatever the byte orders of the two CPUs.
\<close>

theorem frame_hdr_round_trip:
  assumes "hdr_fits h"
  shows "\<exists>bs. arq__frame_hdr_write b h = Some bs \<and> length bs = ARQ__FRAME_HEADER_SIZE \<and>
              arq__frame_hdr_read b' bs = h"
  using hdr_write_read [OF assms] by simp

theorem frame_hdr_round_trip_witness:
  "\<exists>bs. arq__frame_hdr_write le_build (arq__frame_hdr_init\<lparr>h_seq_num := 0xABC, h_msg_len := 0xDE, h_seg_id := 0xF12\<rparr>)
      = Some bs \<and> length bs = ARQ__FRAME_HEADER_SIZE \<and>
     arq__frame_hdr_read be_build bs = arq__frame_hdr_init\<lparr>h_seq_num := 0xABC, h_msg_len := 0xDE, h_seg_id := 0xF12\<rparr>"
  by (rule frame_hdr_round_trip) (simp add: hdr_fits_def arq__frame_hdr_init_def)

text \<open>
  C17. A frame written by one endpoint is read by the other, on any CPU, as a successful frame
  with the same header and the same segment bytes, for every header that fits the format, every
  segment of at most 238 bytes, every checksum function and any bytes after the frame.
\<close>

theorem frame_round_trip:
  assumes "hdr_fits h" "seg_readable seg (h_seg_len h)" "h_seg_len h \<le> 238"
    and "18 + h_seg_len h \<le> frame_max" "18 + h_seg_len h \<le> length out"
  shows "\<exists>len out' frame'. arq__frame_write b h seg checksum out frame_max = Some (len, out') \<and>
    length out' = length out \<and>
    arq__frame_read b' out' len checksum = Some (ARQ__FRAME_READ_RESULT_SUCCESS, h, 13, frame') \<and>
    take (h_seg_len h) (drop 13 frame') = seg_bytes seg (h_seg_len h)"
proof -
  obtain xs where xs: "arq__frame_write b h seg checksum out frame_max =
      Some (length xs + 2, cobs_stuff xs @ 0 # drop (18 + h_seg_len h) out)"
    "length xs = 16 + h_seg_len h" "payload_hdr b' xs = h"
    "payload_result b' checksum xs = ARQ__FRAME_READ_RESULT_SUCCESS"
    "take (h_seg_len h) (drop 12 xs) = seg_bytes seg (h_seg_len h)"
    using frame_write_payload [OF assms, of b checksum b'] by blast
  have "arq__frame_read b' (cobs_stuff xs @ 0 # drop (18 + h_seg_len h) out) (length xs + 2) checksum =
      Some (ARQ__FRAME_READ_RESULT_SUCCESS, h, 13, 0 # xs @ 0 # drop (18 + h_seg_len h) out)"
    using frame_read_payload [of xs b'] xs(2-4) assms(3) by simp
  then show ?thesis
    using xs assms(5) by auto
qed

theorem frame_round_trip_witness:
  "\<exists>len out' frame'. arq__frame_write le_build (arq__frame_hdr_init\<lparr>h_seg_len := 2, h_seg := True\<rparr>)
      (Some [7, 0, 9]) (\<lambda>bs. of_nat (length bs)) (replicate 30 1) 30 = Some (len, out') \<and>
    arq__frame_read be_build out' len (\<lambda>bs. of_nat (length bs)) =
      Some (ARQ__FRAME_READ_RESULT_SUCCESS, arq__frame_hdr_init\<lparr>h_seg_len := 2, h_seg := True\<rparr>, 13, frame') \<and>
    take 2 (drop 13 frame') = [7, 0]"
  using frame_round_trip [of "arq__frame_hdr_init\<lparr>h_seg_len := 2, h_seg := True\<rparr>" "Some [7, 0, 9]"
      30 "replicate 30 1" le_build "\<lambda>bs. of_nat (length bs)" be_build]
  by (auto simp: hdr_fits_def arq__frame_hdr_init_def seg_readable_def seg_bytes_def numeral_eq_Suc)

text \<open>
  C19. Reading any well-delimited frame reports exactly what its payload deserves: malformed when
  the segment length in the header does not fit the frame, a checksum error when the footer
  differs from the checksum of header and segment, success otherwise; never more than the frame
  is read, and the header is filled in even when the frame is rejected.
\<close>

theorem frame_read_result:
  assumes "12 \<le> length xs" "length xs \<le> 254"
  shows "arq__frame_read b (cobs_stuff xs @ y # rest) (length xs + 2) checksum =
    Some (payload_result b checksum xs, payload_hdr b xs, 13, 0 # xs @ y # rest)"
  by (rule frame_read_payload [OF assms])

theorem frame_read_result_witness:
  "arq__frame_read le_build (cobs_stuff (replicate 16 0) @ 0 # []) (length (replicate 16 (0 :: byte)) + 2) (\<lambda>_. 1) =
    Some (payload_result le_build (\<lambda>_. 1) (replicate 16 0), payload_hdr le_build (replicate 16 0), 13,
          0 # replicate 16 0 @ 0 # [])"
  by (rule frame_read_result) simp_all

text \<open>
  C35. The header type: the fields \<open>arq__frame_hdr_read\<close> takes from any bytes fit the widths of the
  wire format, so that every header that arrives could have been written, and writing it again is
  possible with assertions compiled in.
\<close>

theorem hdr_read_fits:
  "hdr_fits (arq__frame_hdr_read b s) \<and>
   (\<exists>bs. arq__frame_hdr_write b' (arq__frame_hdr_read b s) = Some bs \<and> length bs = ARQ__FRAME_HEADER_SIZE)"
  using hdr_read_all_fit [of b s] hdr_write_read [OF hdr_read_all_fit [of b s], of b' b] by auto

end
