(* ===== verification/Arq_Types.thy ===== *)
theory Arq_Types imports Arq_Frame begin

text \<open>
  The public types of \<open>src/arq.h\<close>: error codes, events and the configuration. An error code is
  ordered by its number, so that \<open>ARQ_SUCCEEDED\<close> is a comparison as in the code.
\<close>

section \<open>Error codes and events\<close>

datatype arq_err_t =
    ARQ_OK_COMPLETED
  | ARQ_OK_POLL_REQUIRED
  | ARQ_ERR_INVALID_PARAM
  | ARQ_ERR_NO_ASSERT_HANDLER
  | ARQ_ERR_SEND_PTR_NOT_HELD
  | ARQ_ERR_POLL_REQUIRED
  | ARQ_ERR_NOT_DISCONNECTED

fun arq_err_code :: "arq_err_t \<Rightarrow> int" where
  "arq_err_code ARQ_OK_COMPLETED = 0"
| "arq_err_code ARQ_OK_POLL_REQUIRED = 1"
| "arq_err_code ARQ_ERR_INVALID_PARAM = - 1"
| "arq_err_code ARQ_ERR_NO_ASSERT_HANDLER = - 2"
| "arq_err_code ARQ_ERR_SEND_PTR_NOT_HELD = - 3"
| "arq_err_code ARQ_ERR_POLL_REQUIRED = - 4"
| "arq_err_code ARQ_ERR_NOT_DISCONNECTED = - 5"

lemma arq_err_code_inject: "arq_err_code e = arq_err_code e' \<Longrightarrow> e = e'"
  by (cases e; cases e') simp_all

instantiation arq_err_t :: linorder
begin

definition less_eq_arq_err_t :: "arq_err_t \<Rightarrow> arq_err_t \<Rightarrow> bool" where
  "less_eq_arq_err_t e e' \<longleftrightarrow> arq_err_code e \<le> arq_err_code e'"

definition less_arq_err_t :: "arq_err_t \<Rightarrow> arq_err_t \<Rightarrow> bool" where
  "less_arq_err_t e e' \<longleftrightarrow> arq_err_code e < arq_err_code e'"

instance
  by standard (auto simp: less_eq_arq_err_t_def less_arq_err_t_def intro: arq_err_code_inject)

end

definition ARQ_SUCCEEDED :: "arq_err_t \<Rightarrow> bool" where
  "ARQ_SUCCEEDED e \<longleftrightarrow> e \<ge> ARQ_OK_COMPLETED"

lemma ARQ_SUCCEEDED_iff: "ARQ_SUCCEEDED e \<longleftrightarrow> e = ARQ_OK_COMPLETED \<or> e = ARQ_OK_POLL_REQUIRED"
  by (cases e) (simp_all add: ARQ_SUCCEEDED_def less_eq_arq_err_t_def)

datatype arq_event_t =
    ARQ_EVENT_NONE
  | ARQ_EVENT_CONN_ESTABLISHED
  | ARQ_EVENT_CONN_FAILED_NO_RESPONSE
  | ARQ_EVENT_CONN_FAILED_DESYNC
  | ARQ_EVENT_CONN_CLOSED
  | ARQ_EVENT_CONN_RESET_BY_PEER
  | ARQ_EVENT_CONN_LOST_PEER_TIMEOUT

section \<open>Configuration\<close>

record arq_cfg_t =
  segment_length_in_bytes :: nat
  message_length_in_segments :: nat
  send_window_size_in_messages :: nat
  recv_window_size_in_messages :: nat
  connection_rst_attempts :: nat
  connection_rst_period :: nat
  retransmission_timeout :: nat
  tinygram_send_delay :: nat
  inter_segment_timeout :: nat
  keepalive_period :: nat
  disconnect_timeout :: nat
  cfg_checksum :: checksum

definition ARQ_TIME_INFINITY :: nat where
  "ARQ_TIME_INFINITY = 2 ^ 32 - 1"

text \<open>The fields of a configuration as the C types bound them.\<close>

definition cfg_ranges :: "arq_cfg_t \<Rightarrow> bool" where
  "cfg_ranges c \<longleftrightarrow> (\<forall>x \<in> {segment_length_in_bytes c, message_length_in_segments c,
     send_window_size_in_messages c, recv_window_size_in_messages c, connection_rst_attempts c,
     connection_rst_period c, retransmission_timeout c, tinygram_send_delay c,
     inter_segment_timeout c, keepalive_period c, disconnect_timeout c}. x < 2 ^ 32)"

definition arq__check_cfg :: "arq_cfg_t \<Rightarrow> arq_err_t" where
  "arq__check_cfg cfg =
     (if message_length_in_segments cfg = 0 then ARQ_ERR_INVALID_PARAM
      else if segment_length_in_bytes cfg = 0 then ARQ_ERR_INVALID_PARAM
      else if send_window_size_in_messages cfg = 0 then ARQ_ERR_INVALID_PARAM
      else if recv_window_size_in_messages cfg = 0 then ARQ_ERR_INVALID_PARAM
      else if connection_rst_attempts cfg \<le> 1 then ARQ_ERR_INVALID_PARAM
      else if connection_rst_period cfg = 0 then ARQ_ERR_INVALID_PARAM
      else ARQ_OK_COMPLETED)"

text \<open>A small configuration, for examples.\<close>

definition demo_cfg :: arq_cfg_t where
  "demo_cfg = \<lparr>segment_length_in_bytes = 2, message_length_in_segments = 2, send_window_size_in_messages = 2,
     recv_window_size_in_messages = 2, connection_rst_attempts = 2, connection_rst_period = 100,
     retransmission_timeout = 50, tinygram_send_delay = 10, inter_segment_timeout = 20, keepalive_period = 0,
     disconnect_timeout = 0, cfg_checksum = \<lambda>_. 0\<rparr>"

end
