(* ===== verification/Arq_Wnd.thy ===== *)
theory Arq_Wnd imports Arq_Types begin

text \<open>
  The ring of messages both windows of \<open>src/arq.h\<close> are built on (\<open>arq__wnd_t\<close>): its setup and
  reset, and the address and length of one segment (\<open>arq__wnd_seg\<close>). \<open>wnd_bytes\<close> is the byte
  stream a window holds, and \<open>window_user\<close> the interface a component that embeds a window offers.
\<close>

section \<open>State and operations\<close>

record arq__msg_t =
  m_len :: nat
  m_cur_ack_vec :: nat
  m_full_ack_vec :: nat

record arq__wnd_t =
  w_msg :: "arq__msg_t list"
  w_buf :: "byte list"
  w_seq :: nat
  w_cap :: nat
  w_size :: nat
  w_msg_len :: nat
  w_seg_len :: nat
  w_full_ack_vec :: nat

definition arq__wnd_rst :: "arq__wnd_t \<Rightarrow> arq__wnd_t option" where
  "arq__wnd_rst w = do {
     msg \<leftarrow> for_range 0 (w_cap w) (\<lambda>i msg. do {
       m \<leftarrow> rd msg i;
       wr msg i (m\<lparr>m_len := 0, m_full_ack_vec := w_full_ack_vec w, m_cur_ack_vec := 0\<rparr>)
     }) (w_msg w);
     Some (w\<lparr>w_size := 0, w_seq := 0, w_msg := msg\<rparr>)
   }"

definition arq__wnd_init :: "arq__wnd_t \<Rightarrow> nat \<Rightarrow> nat \<Rightarrow> nat \<Rightarrow> arq__wnd_t option" where
  "arq__wnd_init w wnd_cap msg_len seg_len = do {
     segs \<leftarrow> udiv msg_len seg_len;
     v \<leftarrow> shl_int segs;
     arq__wnd_rst (w\<lparr>w_cap := u16 wnd_cap, w_msg_len := u16 msg_len, w_seg_len := u16 seg_len,
                    w_full_ack_vec := u16 (v - 1)\<rparr>)
   }"

text \<open>\<open>*out_seg\<close> as an offset into \<open>w->buf\<close>, and \<open>*out_seg_len\<close>.\<close>

definition arq__wnd_seg :: "arq__wnd_t \<Rightarrow> nat \<Rightarrow> nat \<Rightarrow> (nat \<times> nat) option" where
  "arq__wnd_seg w seq seg = do {
     idx \<leftarrow> umod seq (w_cap w);
     m \<leftarrow> rd (w_msg w) idx;
     Some (u32 (w_msg_len w * idx + w_seg_len w * seg),
           arq__min (w_seg_len w) (sub32 (m_len m) (w_seg_len w * seg)))
   }"

section \<open>Well-formed windows\<close>

text \<open>
  The sizes the rest of the code relies on: at most 238 bytes per segment (the frame must stay
  within 256 bytes), at most 12 segments per message (the acknowledgement vector of the header),
  and a capacity that divides the 4096 sequence numbers, so that \<open>seq % cap\<close> stays consecutive
  when sequence numbers wrap.
\<close>

definition segs :: "arq__wnd_t \<Rightarrow> nat" where
  "segs w = w_msg_len w div w_seg_len w"

definition wnd_ok :: "arq__wnd_t \<Rightarrow> bool" where
  "wnd_ok w \<longleftrightarrow> 0 < w_cap w \<and> w_cap w dvd 4096 \<and> 0 < w_seg_len w \<and> w_seg_len w \<le> 238 \<and>
     w_msg_len w = segs w * w_seg_len w \<and> 1 \<le> segs w \<and> segs w \<le> 12 \<and>
     length (w_msg w) = w_cap w \<and> length (w_buf w) = w_cap w * w_msg_len w \<and>
     w_seq w < 4096 \<and> w_size w \<le> w_cap w \<and> w_full_ack_vec w = 2 ^ segs w - 1"

lemma wnd_okD:
  assumes "wnd_ok w"
  shows "0 < w_cap w" "w_cap w dvd 4096" "w_cap w \<le> 4096" "0 < w_seg_len w" "w_seg_len w \<le> 238"
    "w_msg_len w = segs w * w_seg_len w" "1 \<le> segs w" "segs w \<le> 12" "length (w_msg w) = w_cap w"
    "length (w_buf w) = w_cap w * w_msg_len w" "w_seq w < 4096" "w_size w \<le> w_cap w"
    "w_full_ack_vec w = 2 ^ segs w - 1"
  using assms by (auto simp: wnd_ok_def dest: dvd_imp_le)

lemma wnd_ok_msg_len:
  assumes "wnd_ok w"
  shows "0 < w_msg_len w" "w_msg_len w \<le> 2856" "w_seg_len w \<le> w_msg_len w"
    "w_cap w * w_msg_len w \<le> 11698176"
proof -
  note ok = wnd_okD [OF assms]
  show "0 < w_msg_len w"
    using ok by simp
  have "segs w * w_seg_len w \<le> 12 * 238"
    using ok by (intro mult_le_mono)
  with ok show len: "w_msg_len w \<le> 2856" by simp
  show "w_seg_len w \<le> w_msg_len w"
    using ok by simp
  have "w_cap w * w_msg_len w \<le> 4096 * 2856"
    using ok len by (intro mult_le_mono)
  then show "w_cap w * w_msg_len w \<le> 11698176" by simp
qed

text \<open>The slot of the \<open>i\<close>-th message of the window.\<close>

definition slot :: "arq__wnd_t \<Rightarrow> nat \<Rightarrow> nat" where
  "slot w i = (w_seq w + i) mod w_cap w"

abbreviation msg_at :: "arq__wnd_t \<Rightarrow> nat \<Rightarrow> arq__msg_t" where
  "msg_at w i \<equiv> w_msg w ! slot w i"

lemma slot_less [simp]: "wnd_ok w \<Longrightarrow> slot w i < w_cap w"
  by (simp add: slot_def wnd_ok_def)

lemma slot_less_length [simp]: "wnd_ok w \<Longrightarrow> slot w i < length (w_msg w)"
  by (simp add: slot_def wnd_ok_def)

lemma mod_add_neq:
  fixes p i j n :: nat
  assumes "i < j" "j < i + n"
  shows "(p + i) mod n \<noteq> (p + j) mod n"
proof
  assume "(p + i) mod n = (p + j) mod n"
  then have "n dvd (p + j) - (p + i)"
    using assms by (metis mod_eq_dvd_iff_nat nat_add_left_cancel_le order_less_imp_le)
  with assms show False
    by (auto dest!: dvd_imp_le)
qed

lemma slot_inject:
  assumes "i < w_cap w" "j < w_cap w" "slot w i = slot w j"
  shows "i = j"
  using assms mod_add_neq [of i j "w_cap w" "w_seq w"] mod_add_neq [of j i "w_cap w" "w_seq w"]
  unfolding slot_def by (metis linorder_neqE_nat trans_less_add2)

lemma slot_surj:
  assumes "wnd_ok w" "k < w_cap w"
  obtains i where "i < w_cap w" "slot w i = k"
proof -
  let ?i = "(k + w_cap w - w_seq w mod w_cap w) mod w_cap w"
  have "0 < w_cap w" using assms by simp
  then have "w_seq w mod w_cap w < w_cap w" by simp
  then have "w_seq w mod w_cap w + (k + w_cap w - w_seq w mod w_cap w) = k + w_cap w"
    by linarith
  then have "(w_seq w mod w_cap w + (k + w_cap w - w_seq w mod w_cap w)) mod w_cap w = k"
    using assms(2) by simp
  then have "slot w ?i = k"
    by (simp only: slot_def mod_add_left_eq mod_add_right_eq)
  with \<open>0 < w_cap w\<close> show ?thesis
    by (intro that [of ?i]) auto
qed

lemma slot_cong: "w_seq w' = w_seq w \<Longrightarrow> w_cap w' = w_cap w \<Longrightarrow> slot w' i = slot w i"
  by (simp add: slot_def)

lemma slot_inject_ok:
  assumes "i < w_cap w" "j < w_cap w"
  shows "slot w i = slot w j \<longleftrightarrow> i = j"
  using slot_inject assms by blast

text \<open>Sequence numbers wrap at 4096, which the capacity divides.\<close>

lemma mod_seq_mod_cap: "w_cap w dvd 4096 \<Longrightarrow> n mod 4096 mod w_cap w = n mod w_cap w"
  by (rule mod_mod_cancel)

section \<open>Arithmetic of the ring\<close>

lemma ring_pos:
  fixes ml cap :: nat
  assumes "k < ml"
  shows "((s mod cap) * ml + i * ml + k) mod (cap * ml) = ((s + i) mod cap) * ml + k"
proof -
  have "((s mod cap) * ml + i * ml + k) mod (ml * cap) =
      ml * ((((s mod cap) + i) * ml + k) div ml mod cap) + (((s mod cap) + i) * ml + k) mod ml"
    by (simp add: mod_mult2_eq add_mult_distrib)
  also have "(((s mod cap) + i) * ml + k) div ml = (s mod cap) + i"
    using assms by simp
  also have "(((s mod cap) + i) * ml + k) mod ml = k"
    using assms by simp
  also have "((s mod cap) + i) mod cap = (s + i) mod cap"
    by (simp add: mod_add_left_eq)
  finally show ?thesis
    by (simp add: mult.commute)
qed

text \<open>Two copies that wrap around the end of a buffer write a contiguous piece of the ring.\<close>

definition ring_copy :: "'a list \<Rightarrow> nat \<Rightarrow> 'a list \<Rightarrow> 'a list" where
  "ring_copy buf p ds =
     (let k = min (length ds) (length buf - p);
          buf1 = take p buf @ take k ds @ drop (p + k) buf
      in drop k ds @ drop (length ds - k) buf1)"

lemma ring_copy_eq:
  assumes "p \<le> length buf" "length ds \<le> length buf"
  defines "k \<equiv> min (length ds) (length buf - p)"
  shows "ring_copy buf p ds = drop k ds @ drop (length ds - k) (take p buf @ take k ds @ drop (p + k) buf)"
    and "k \<le> length ds" "p + k \<le> length buf" "length ds - k \<le> p" "k < length ds \<Longrightarrow> p + k = length buf"
  using assms(1,2) by (auto simp: ring_copy_def k_def Let_def min_def)

lemma ring_copy_nth:
  assumes "p \<le> length buf" "length ds \<le> length buf" "i < length buf"
  defines "k \<equiv> min (length ds) (length buf - p)"
  shows "ring_copy buf p ds ! i =
      (if i < length ds - k then ds ! (k + i)
       else if p \<le> i \<and> i < p + k then ds ! (i - p) else buf ! i)"
proof -
  note k = ring_copy_eq [OF assms(1,2), folded k_def]
  let ?buf1 = "take p buf @ take k ds @ drop (p + k) buf"
  have lk: "length (take k ds) = k" using k(2) by simp
  have blit: "?buf1 ! i = (if p \<le> i \<and> i < p + k then take k ds ! (i - p) else buf ! i)"
    by (rule nth_blit [of p "take k ds" buf i, unfolded lk, OF k(3) assms(3)])
  have buf1: "?buf1 ! i = (if p \<le> i \<and> i < p + k then ds ! (i - p) else buf ! i)"
  proof (cases "p \<le> i \<and> i < p + k")
    case True
    then have "i - p < k" by linarith
    with blit True show ?thesis by (simp only: if_True nth_take)
  qed (simp only: blit if_False)
  have l: "length (drop k ds) = length ds - k" "length ?buf1 = length buf" using k by auto
  show ?thesis
  proof (cases "i < length ds - k")
    case True
    then have "(drop k ds @ drop (length ds - k) ?buf1) ! i = drop k ds ! i"
      using l(1) by (simp only: nth_append if_True)
    also have "\<dots> = ds ! (k + i)" using k(2) by (rule nth_drop)
    finally show ?thesis using True by (simp only: k(1) if_True)
  next
    case False
    then have "(drop k ds @ drop (length ds - k) ?buf1) ! i = ?buf1 ! i"
      using l assms(3) k by (simp only: nth_append if_False nth_drop length_drop) simp
    with False buf1 show ?thesis by (simp only: k(1) if_False)
  qed
qed

lemma ring_copy:
  assumes "p \<le> length buf" "length ds \<le> length buf"
  shows "length (ring_copy buf p ds) = length buf"
    and "j < length ds \<Longrightarrow> ring_copy buf p ds ! ((p + j) mod length buf) = ds ! j"
    and "i < length buf \<Longrightarrow> (\<And>j. j < length ds \<Longrightarrow> i \<noteq> (p + j) mod length buf) \<Longrightarrow>
         ring_copy buf p ds ! i = buf ! i"
proof -
  define k where "k = min (length ds) (length buf - p)"
  note k = ring_copy_eq [OF assms, folded k_def] and nth = ring_copy_nth [OF assms, folded k_def]
  show "length (ring_copy buf p ds) = length buf" using k by simp
  show "ring_copy buf p ds ! ((p + j) mod length buf) = ds ! j" if j: "j < length ds"
  proof (cases "p + j < length buf")
    case True
    then have "j < k" using j assms k by (auto simp: k_def)
    with True k(2-5) show ?thesis by (simp add: nth)
  next
    case False
    have "k < length ds" using False j by (auto simp: k_def)
    with k(5) have pk: "p + k = length buf" by simp
    have "p + j - length buf < length ds - k" "k + (p + j - length buf) = j"
      using False j pk by auto
    moreover have "p + j - length buf < length buf" "(p + j) mod length buf = p + j - length buf"
      using False j assms by (auto simp: le_mod_geq)
    ultimately show ?thesis by (simp add: nth)
  qed
  show "ring_copy buf p ds ! i = buf ! i"
    if i: "i < length buf" and out: "\<And>j. j < length ds \<Longrightarrow> i \<noteq> (p + j) mod length buf"
  proof -
    have "(p + (k + i)) mod length buf = i" if "i < length ds - k"
    proof -
      have "p + k = length buf" using that k(5) by linarith
      then show ?thesis using i by (metis add.assoc mod_add_self1 mod_less)
    qed
    then have "\<not> i < length ds - k"
      using out [of "k + i"] by (metis add.commute less_diff_conv)
    moreover have "i - p < length ds" if "p \<le> i \<and> i < p + k" using that k(2) by linarith
    then have "\<not> (p \<le> i \<and> i < p + k)" using out [of "i - p"] i by auto
    ultimately show ?thesis
      by (simp only: nth [OF i] if_False)
  qed
qed

section \<open>The bytes a window holds\<close>

definition wnd_total :: "arq__wnd_t \<Rightarrow> nat" where
  "wnd_total w = (w_size w - 1) * w_msg_len w + m_len (msg_at w (w_size w - 1))"

definition wnd_start :: "arq__wnd_t \<Rightarrow> nat" where
  "wnd_start w = (w_seq w mod w_cap w) * w_msg_len w"

definition wnd_bytes :: "arq__wnd_t \<Rightarrow> byte list" where
  "wnd_bytes w =
     map (\<lambda>j. w_buf w ! ((wnd_start w + j) mod (w_cap w * w_msg_len w))) [0..<wnd_total w]"

lemma length_wnd_bytes [simp]: "length (wnd_bytes w) = wnd_total w"
  by (simp add: wnd_bytes_def)

text \<open>The content of one message: its first \<open>m_len\<close> bytes in its part of the buffer.\<close>

definition msg_bytes :: "arq__wnd_t \<Rightarrow> nat \<Rightarrow> byte list" where
  "msg_bytes w k = take (m_len (w_msg w ! k)) (drop (k * w_msg_len w) (w_buf w))"

lemma slot_region:
  assumes "wnd_ok w" "k < w_cap w"
  shows "(k + 1) * w_msg_len w \<le> length (w_buf w)"
  using assms mult_le_mono1 [of "k + 1" "w_cap w" "w_msg_len w"] wnd_okD(10) [OF assms(1)] by simp

lemma length_msg_bytes:
  assumes "wnd_ok w" "k < w_cap w" "m_len (w_msg w ! k) \<le> w_msg_len w"
  shows "length (msg_bytes w k) = m_len (w_msg w ! k)"
  using slot_region [OF assms(1,2)] assms(3) by (simp add: msg_bytes_def)

lemma msg_bytes_wnd_bytes:
  assumes ok: "wnd_ok w" and i: "i < w_size w"
    and full: "i < w_size w - 1 \<Longrightarrow> m_len (msg_at w i) = w_msg_len w"
    and last: "m_len (msg_at w (w_size w - 1)) \<le> w_msg_len w"
  shows "msg_bytes w (slot w i) = take (m_len (msg_at w i)) (drop (i * w_msg_len w) (wnd_bytes w))"
proof (rule nth_equalityI)
  have le: "m_len (msg_at w i) \<le> w_msg_len w"
    using full last i by (cases "i = w_size w - 1") auto
  have tot: "i * w_msg_len w + m_len (msg_at w i) \<le> wnd_total w"
  proof (cases "i = w_size w - 1")
    case False
    then have "(i + 1) * w_msg_len w \<le> (w_size w - 1) * w_msg_len w"
      using i by (intro mult_le_mono1) simp
    with False full i show ?thesis by (simp add: wnd_total_def)
  qed (simp add: wnd_total_def)
  have len: "length (msg_bytes w (slot w i)) = m_len (msg_at w i)"
    using ok le by (intro length_msg_bytes) auto
  then show "length (msg_bytes w (slot w i)) =
      length (take (m_len (msg_at w i)) (drop (i * w_msg_len w) (wnd_bytes w)))"
    using tot by simp
  fix k assume "k < length (msg_bytes w (slot w i))"
  with len have k: "k < m_len (msg_at w i)" by simp
  have "(wnd_start w + (i * w_msg_len w + k)) mod (w_cap w * w_msg_len w) = slot w i * w_msg_len w + k"
    using ring_pos [of k "w_msg_len w" "w_seq w" "w_cap w" i] k le
    by (simp add: wnd_start_def slot_def add.assoc)
  moreover have "slot w i * w_msg_len w + k < length (w_buf w)"
    using slot_region [OF ok, of "slot w i"] ok k le by simp
  ultimately show "msg_bytes w (slot w i) ! k =
      take (m_len (msg_at w i)) (drop (i * w_msg_len w) (wnd_bytes w)) ! k"
    using k tot by (simp add: msg_bytes_def wnd_bytes_def)
qed

section \<open>Setup and segments\<close>

definition fresh_msg :: "arq__wnd_t \<Rightarrow> arq__msg_t" where
  "fresh_msg w = \<lparr>m_len = 0, m_cur_ack_vec = 0, m_full_ack_vec = w_full_ack_vec w\<rparr>"

lemma msg_update_all [simp]:
  "(m :: arq__msg_t)\<lparr>m_len := l, m_full_ack_vec := f, m_cur_ack_vec := c\<rparr> =
   \<lparr>m_len = l, m_cur_ack_vec = c, m_full_ack_vec = f\<rparr>"
  by (cases m) simp

lemma wnd_rst_eq:
  assumes "length (w_msg w) = w_cap w"
  shows "arq__wnd_rst w = Some (w\<lparr>w_size := 0, w_seq := 0, w_msg := replicate (w_cap w) (fresh_msg w)\<rparr>)"
proof -
  have "for_range 0 (w_cap w) (\<lambda>i msg. do {
       m \<leftarrow> rd msg i;
       wr msg i (m\<lparr>m_len := 0, m_full_ack_vec := w_full_ack_vec w, m_cur_ack_vec := 0\<rparr>)
     }) (w_msg w) = Some (take 0 (w_msg w) @ replicate (w_cap w) (fresh_msg w) @ drop (0 + w_cap w) (w_msg w))"
    using assms by (intro for_range_fill) (auto simp: rd_def wr_def fresh_msg_def)
  with assms show ?thesis
    by (simp add: arq__wnd_rst_def)
qed

text \<open>The geometry of a configuration: what \<open>arq__wnd_init\<close> needs to set up a good window.\<close>

definition geometry_ok :: "nat \<Rightarrow> nat \<Rightarrow> nat \<Rightarrow> bool" where
  "geometry_ok cap n seg_len \<longleftrightarrow>
     0 < cap \<and> cap dvd 4096 \<and> 1 \<le> n \<and> n \<le> 12 \<and> 0 < seg_len \<and> seg_len \<le> 238"

lemma geometry_msg_len:
  assumes "geometry_ok cap n seg_len"
  shows "0 < n * seg_len" "n * seg_len \<le> 2856" "cap \<le> 4096"
proof -
  have "n * seg_len \<le> 12 * 238"
    using assms unfolding geometry_ok_def by (intro mult_le_mono) auto
  then show "n * seg_len \<le> 2856" by simp
qed (use assms in \<open>auto simp: geometry_ok_def dest: dvd_imp_le\<close>)

lemma wnd_init_eq:
  assumes "geometry_ok cap n seg_len" "length (w_msg w) = cap"
  shows "arq__wnd_init w cap (n * seg_len) seg_len =
    Some (w\<lparr>w_cap := cap, w_msg_len := n * seg_len, w_seg_len := seg_len,
            w_full_ack_vec := 2 ^ n - 1, w_size := 0, w_seq := 0,
            w_msg := replicate cap \<lparr>m_len = 0, m_cur_ack_vec = 0, m_full_ack_vec = 2 ^ n - 1\<rparr>\<rparr>)"
proof -
  note len = geometry_msg_len [OF assms(1)]
  have g: "1 \<le> n" "n \<le> 12" "0 < seg_len" "seg_len \<le> 238"
    using assms(1) by (auto simp: geometry_ok_def)
  have "(2 :: nat) ^ n \<le> 2 ^ 12"
    using g by (intro power_increasing) auto
  then show ?thesis
    using g len assms(2)
    by (simp add: arq__wnd_init_def udiv_pos shl_int_ok u16_id wnd_rst_eq fresh_msg_def)
qed

lemma wnd_init_ok:
  assumes "geometry_ok cap n seg_len" "length (w_msg w) = cap" "length (w_buf w) = cap * (n * seg_len)"
    and "arq__wnd_init w cap (n * seg_len) seg_len = Some w'"
  shows "wnd_ok w'" "segs w' = n" "w_size w' = 0" "w_seq w' = 0" "w_cap w' = cap"
    "w_msg w' = replicate cap (fresh_msg w')" "w_seg_len w' = seg_len" "w_buf w' = w_buf w"
  using assms unfolding wnd_init_eq [OF assms(1,2)]
  by (auto simp: wnd_ok_def segs_def geometry_ok_def fresh_msg_def)

lemma wnd_rst_ok:
  assumes "wnd_ok w"
  shows "wnd_ok (w\<lparr>w_size := 0, w_seq := 0, w_msg := replicate (w_cap w) (fresh_msg w)\<rparr>)"
  using assms by (auto simp: wnd_ok_def segs_def)

text \<open>
  The interface of a component that embeds a window: whatever invariant it keeps, its window is
  well formed. Every segment of such a window then lies inside the buffer, and different segments
  do not overlap.
\<close>

locale window_user =
  fixes wnd :: "'s \<Rightarrow> arq__wnd_t"
    and inv :: "'s \<Rightarrow> bool"
  assumes inv_wnd_ok: "inv s \<Longrightarrow> wnd_ok (wnd s)"
begin

lemma seg_offset_bound:
  assumes "inv s" "k < w_cap (wnd s)" "seg < segs (wnd s)"
  shows "w_msg_len (wnd s) * k + w_seg_len (wnd s) * seg + w_seg_len (wnd s) \<le> length (w_buf (wnd s))"
proof -
  note ok = inv_wnd_ok [OF assms(1)]
  have "(seg + 1) * w_seg_len (wnd s) \<le> w_msg_len (wnd s)"
    using assms(3) wnd_okD(6) [OF ok] by (metis Suc_eq_plus1 Suc_leI mult_le_mono1)
  then show ?thesis
    using slot_region [OF ok assms(2)] by (simp add: algebra_simps)
qed

lemma wnd_seg_eq:
  assumes "inv s" "seg < segs (wnd s)"
  shows "arq__wnd_seg (wnd s) seq seg =
    Some (w_msg_len (wnd s) * (seq mod w_cap (wnd s)) + w_seg_len (wnd s) * seg,
          min (w_seg_len (wnd s))
            (sub32 (m_len (w_msg (wnd s) ! (seq mod w_cap (wnd s)))) (w_seg_len (wnd s) * seg)))"
proof -
  note ok = inv_wnd_ok [OF assms(1)]
  have k: "seq mod w_cap (wnd s) < w_cap (wnd s)"
    using wnd_okD(1) [OF ok] by simp
  have "w_msg_len (wnd s) * (seq mod w_cap (wnd s)) + w_seg_len (wnd s) * seg < 4294967296"
    using seg_offset_bound [OF assms(1) k assms(2)] wnd_okD(10) [OF ok] wnd_ok_msg_len(4) [OF ok]
    by linarith
  then show ?thesis
    using wnd_okD(1,9) [OF ok] k by (simp add: arq__wnd_seg_def umod_pos rd_ok u32_id)
qed

lemma seg_in_bounds:
  assumes "inv s" "seg < segs (wnd s)"
  shows "\<exists>ofs n. arq__wnd_seg (wnd s) seq seg = Some (ofs, n) \<and> n \<le> w_seg_len (wnd s) \<and>
    ofs + w_seg_len (wnd s) \<le> length (w_buf (wnd s))"
  using wnd_seg_eq [OF assms] seg_offset_bound [OF assms(1) _ assms(2)]
    wnd_okD(1) [OF inv_wnd_ok [OF assms(1)]] by simp

lemma seg_disjoint:
  assumes "inv s" "seg < segs (wnd s)" "seg' < segs (wnd s)"
    and "k < w_cap (wnd s)" "k' < w_cap (wnd s)" "(k, seg) \<noteq> (k', seg')"
    and "i < w_seg_len (wnd s)" "i' < w_seg_len (wnd s)"
  shows "w_msg_len (wnd s) * k + w_seg_len (wnd s) * seg + i \<noteq>
    w_msg_len (wnd s) * k' + w_seg_len (wnd s) * seg' + i'"
proof
  let ?l = "w_seg_len (wnd s)" and ?n = "segs (wnd s)"
  assume eq: "w_msg_len (wnd s) * k + ?l * seg + i = w_msg_len (wnd s) * k' + ?l * seg' + i'"
  have ml: "w_msg_len (wnd s) = ?n * ?l"
    by (rule wnd_okD(6) [OF inv_wnd_ok [OF assms(1)]])
  have div: "(w_msg_len (wnd s) * k + ?l * seg + i) div ?l = ?n * k + seg" if "i < ?l" for k seg i
  proof -
    have "w_msg_len (wnd s) * k + ?l * seg + i = (?n * k + seg) * ?l + i"
      by (simp add: ml algebra_simps)
    with that show ?thesis by simp
  qed
  from eq have e: "?n * k + seg = ?n * k' + seg'"
    using div [OF assms(7)] div [OF assms(8)] by metis
  then have "(?n * k + seg) div ?n = (?n * k' + seg') div ?n" by simp
  with assms(2,3) have "k = k'" by simp
  with e assms(6) show False by simp
qed

end

interpretation bare_window: window_user "\<lambda>w. w" wnd_ok
  by unfold_locales

end
