(* ===== verification/Arq_Send_Wnd.thy ===== *)
theory Arq_Send_Wnd imports Arq_Wnd begin

text \<open>
  The send window of \<open>src/arq.h\<close>: \<open>arq__send_wnd_send\<close> appends user data to the ring,
  \<open>arq__send_wnd_ack\<close> releases acknowledged messages, \<open>arq__send_wnd_flush\<close> and
  \<open>arq__send_wnd_step\<close> drive the timers. The abstract state is the byte stream \<open>wnd_bytes\<close>:
  sending appends to it, acknowledgements remove a prefix of whole messages.
\<close>

section \<open>State and operations\<close>

record arq__send_wnd_t =
  s_w :: arq__wnd_t
  s_rtx :: "nat list"
  s_tiny :: nat
  s_tiny_on :: bool

definition arq__send_wnd_rst :: "arq__send_wnd_t \<Rightarrow> arq__send_wnd_t option" where
  "arq__send_wnd_rst sw = do {
     w \<leftarrow> arq__wnd_rst (s_w sw);
     rtx \<leftarrow> for_range 0 (w_cap w) (\<lambda>i rtx. wr rtx i 0) (s_rtx sw);
     Some (sw\<lparr>s_w := w, s_rtx := rtx, s_tiny := 0, s_tiny_on := False\<rparr>)
   }"

definition arq__send_wnd_send ::
  "arq__send_wnd_t \<Rightarrow> byte list \<Rightarrow> nat \<Rightarrow> nat \<Rightarrow> (nat \<times> arq__send_wnd_t) option" where
  "arq__send_wnd_send sw data len0 tiny =
     (if len0 = 0 then Some (0, sw)
      else do {
        let w = s_w sw;
        let seq = w_seq w + arq__sub_sat (w_size w) 1;
        msg_idx \<leftarrow> umod seq (w_cap w);
        m \<leftarrow> rd (w_msg w) msg_idx;
        let last_msg_len = m_len m;
        let wnd_size_in_bytes = u32 (arq__sub_sat (w_size w) 1 * w_msg_len w + last_msg_len);
        let wnd_cap_in_bytes = u32 (w_cap w * w_msg_len w);
        let len = arq__min len0 (sub32 wnd_cap_in_bytes wnd_size_in_bytes);
        let cur_byte_idx = u32 (msg_idx * w_msg_len w + last_msg_len);
        let pre_wrap_copy_len = arq__min len (sub32 wnd_cap_in_bytes cur_byte_idx);
        pre \<leftarrow> memcpy_out data 0 pre_wrap_copy_len;
        buf1 \<leftarrow> memcpy_in (w_buf w) cur_byte_idx pre;
        post \<leftarrow> memcpy_out data pre_wrap_copy_len (sub32 len pre_wrap_copy_len);
        buf2 \<leftarrow> memcpy_in buf1 0 post;
        full_msg_cnt \<leftarrow> udiv (u32 (last_msg_len + len)) (w_msg_len w);
        (rtx1, msg1) \<leftarrow> for_range 0 full_msg_cnt (\<lambda>i (rtx, msg). do {
          k \<leftarrow> umod (u32 (seq + i)) (w_cap w);
          rtx' \<leftarrow> wr rtx k 0;
          mk \<leftarrow> rd msg k;
          msg' \<leftarrow> wr msg k (mk\<lparr>m_len := w_msg_len w\<rparr>);
          Some (rtx', msg')
        }) (s_rtx sw, w_msg w);
        let bytes_rem = sub32 (u32 (last_msg_len + len)) (u32 (full_msg_cnt * w_msg_len w));
        let orig_size = w_size w;
        q \<leftarrow> udiv (sub32 (u32 (wnd_size_in_bytes + len + w_msg_len w)) 1) (w_msg_len w);
        let size' = u16 q;
        k \<leftarrow> umod (sub32 (w_seq w + size') 1) (w_cap w);
        msg2 \<leftarrow> (if bytes_rem \<noteq> 0
                 then do { mk \<leftarrow> rd msg1 k; wr msg1 k (mk\<lparr>m_len := u16 bytes_rem\<rparr>) }
                 else Some msg1);
        let tiny_on = (bytes_rem > 0);
        (rtx2, tiny') \<leftarrow> (if tiny_on \<and> size' > orig_size
                 then do { r \<leftarrow> wr rtx1 k tiny; Some (r, tiny) }
                 else Some (rtx1, s_tiny sw));
        Some (len, sw\<lparr>s_w := w\<lparr>w_buf := buf2, w_msg := msg2, w_size := size'\<rparr>,
                      s_rtx := rtx2, s_tiny := tiny', s_tiny_on := tiny_on\<rparr>)
      })"

primrec send_wnd_ack_loop ::
  "nat \<Rightarrow> arq__wnd_t \<Rightarrow> nat \<Rightarrow> arq__msg_t list \<Rightarrow> (nat \<times> arq__msg_t list) option" where
  "send_wnd_ack_loop 0 w i msg = Some (i, msg)"
| "send_wnd_ack_loop (Suc n) w i msg = do {
     k \<leftarrow> umod (w_seq w + i) (w_cap w);
     m \<leftarrow> rd msg k;
     if m_cur_ack_vec m \<noteq> m_full_ack_vec m then Some (i, msg)
     else do {
       msg' \<leftarrow> wr msg k (m\<lparr>m_len := 0, m_cur_ack_vec := 0, m_full_ack_vec := w_full_ack_vec w\<rparr>);
       send_wnd_ack_loop n w (Suc i) msg'
     }
   }"

definition arq__send_wnd_ack :: "arq__send_wnd_t \<Rightarrow> nat \<Rightarrow> nat \<Rightarrow> arq__send_wnd_t option" where
  "arq__send_wnd_ack sw seq cur_ack_vec =
     (let w = s_w sw
      in if w_size w = 0 \<or> w_seq w > seq \<or> sub32 (w_seq w + w_size w) 1 < seq then Some sw
         else do {
           ack_msg_idx \<leftarrow> umod seq (w_cap w);
           m \<leftarrow> rd (w_msg w) ack_msg_idx;
           msg1 \<leftarrow> wr (w_msg w) ack_msg_idx (m\<lparr>m_cur_ack_vec := cur_ack_vec\<rparr>);
           rtx1 \<leftarrow> (if cur_ack_vec \<noteq> m_full_ack_vec m then wr (s_rtx sw) ack_msg_idx 0
                   else Some (s_rtx sw));
           (i, msg2) \<leftarrow> send_wnd_ack_loop (w_size w) w 0 msg1;
           Some (sw\<lparr>s_w := w\<lparr>w_msg := msg2, w_size := u16 (w_size w + 65536 - u16 i),
                             w_seq := (w_seq w + i) mod (ARQ__FRAME_MAX_SEQ_NUM + 1)\<rparr>,
                    s_rtx := rtx1\<rparr>)
         })"

definition arq__send_wnd_flush :: "arq__send_wnd_t \<Rightarrow> arq__send_wnd_t option" where
  "arq__send_wnd_flush sw =
     (let w = s_w sw
      in if w_size w = 0 then Some sw
         else do {
           idx \<leftarrow> umod (sub32 (w_seq w + w_size w) 1) (w_cap w);
           m \<leftarrow> rd (w_msg w) idx;
           if m_len m \<noteq> 0 then do {
             segs \<leftarrow> udiv (sub32 (m_len m + w_seg_len w) 1) (w_seg_len w);
             v \<leftarrow> shl_int segs;
             msg \<leftarrow> wr (w_msg w) idx (m\<lparr>m_full_ack_vec := u16 (v - 1)\<rparr>);
             rtx \<leftarrow> wr (s_rtx sw) idx 0;
             Some (sw\<lparr>s_w := w\<lparr>w_msg := msg\<rparr>, s_rtx := rtx\<rparr>)
           } else Some sw
         })"

definition arq__send_wnd_step :: "arq__send_wnd_t \<Rightarrow> nat \<Rightarrow> arq__send_wnd_t option" where
  "arq__send_wnd_step sw dt = do {
     rtx \<leftarrow> for_range 0 (w_size (s_w sw)) (\<lambda>i rtx. do {
       idx \<leftarrow> umod (w_seq (s_w sw) + i) (w_cap (s_w sw));
       t \<leftarrow> rd rtx idx;
       wr rtx idx (arq__sub_sat t dt)
     }) (s_rtx sw);
     Some (sw\<lparr>s_rtx := rtx,
              s_tiny := (if s_tiny_on sw then arq__sub_sat (s_tiny sw) dt else s_tiny sw)\<rparr>)
   }"

section \<open>Invariant\<close>

text \<open>
  All messages but the last are full, the last holds at least one byte, and the slots outside the
  window are as after a reset. The vector that completes a message has a bit for each of its
  first \<open>n\<close> segments.
\<close>

definition full_vec_ok :: "arq__wnd_t \<Rightarrow> nat \<Rightarrow> bool" where
  "full_vec_ok w v \<longleftrightarrow> (\<exists>n\<in>{1..segs w}. v = 2 ^ n - 1)"

definition send_msg_ok :: "arq__wnd_t \<Rightarrow> nat \<Rightarrow> bool" where
  "send_msg_ok w i \<longleftrightarrow>
     (if i < w_size w
      then 0 < m_len (msg_at w i) \<and> m_len (msg_at w i) \<le> w_msg_len w \<and>
           (i + 1 < w_size w \<longrightarrow> m_len (msg_at w i) = w_msg_len w) \<and>
           m_cur_ack_vec (msg_at w i) < 65536 \<and> full_vec_ok w (m_full_ack_vec (msg_at w i))
      else msg_at w i = fresh_msg w)"

definition send_wnd_ok :: "arq__send_wnd_t \<Rightarrow> bool" where
  "send_wnd_ok sw \<longleftrightarrow> wnd_ok (s_w sw) \<and> length (s_rtx sw) = w_cap (s_w sw) \<and>
     (\<forall>t\<in>set (s_rtx sw). t < 2 ^ 32) \<and> s_tiny sw < 2 ^ 32 \<and>
     (\<forall>i<w_cap (s_w sw). send_msg_ok (s_w sw) i)"

lemma send_wnd_okD:
  assumes "send_wnd_ok sw"
  shows "wnd_ok (s_w sw)" "length (s_rtx sw) = w_cap (s_w sw)" "\<forall>t\<in>set (s_rtx sw). t < 2 ^ 32"
    "s_tiny sw < 2 ^ 32" "\<And>i. i < w_cap (s_w sw) \<Longrightarrow> send_msg_ok (s_w sw) i"
  using assms by (auto simp: send_wnd_ok_def)

interpretation send_window: window_user s_w send_wnd_ok
  by unfold_locales (rule send_wnd_okD(1))

lemma full_vec_okE:
  assumes "full_vec_ok w v"
  obtains n where "1 \<le> n" "n \<le> segs w" "v = 2 ^ n - 1"
  using assms by (auto simp: full_vec_ok_def)

lemma full_vec_ok_full: "wnd_ok w \<Longrightarrow> full_vec_ok w (w_full_ack_vec w)"
  by (auto simp: full_vec_ok_def wnd_ok_def)

lemma full_vec_ok_cong: "segs w = segs w' \<Longrightarrow> full_vec_ok w v = full_vec_ok w' v"
  by (simp add: full_vec_ok_def)

lemma pow2_segs_less: "wnd_ok w \<Longrightarrow> n \<le> segs w \<Longrightarrow> (2 :: nat) ^ n \<le> 4096"
proof -
  assume "wnd_ok w" "n \<le> segs w"
  then have "(2 :: nat) ^ n \<le> 2 ^ 12"
    by (intro power_increasing) (auto simp: wnd_ok_def)
  then show ?thesis by simp
qed

lemma send_lens:
  assumes ok: "send_wnd_ok sw" and i: "i < w_cap (s_w sw)"
  shows "m_len (msg_at (s_w sw) i) \<le> w_msg_len (s_w sw)"
    and "i + 1 < w_size (s_w sw) \<Longrightarrow> m_len (msg_at (s_w sw) i) = w_msg_len (s_w sw)"
    and "w_size (s_w sw) \<le> i \<Longrightarrow> m_len (msg_at (s_w sw) i) = 0"
  using send_wnd_okD(5) [OF ok i]
  by (auto simp: send_msg_ok_def fresh_msg_def split: if_splits)

lemma wnd_total_le:
  assumes ok: "send_wnd_ok sw"
  shows "wnd_total (s_w sw) \<le> w_cap (s_w sw) * w_msg_len (s_w sw)"
proof -
  let ?w = "s_w sw"
  note w = wnd_okD [OF send_wnd_okD(1) [OF ok]]
  have le: "m_len (msg_at ?w (w_size ?w - 1)) \<le> w_msg_len ?w"
    using w by (intro send_lens(1) [OF ok]) linarith
  have "(w_size ?w - 1 + 1) * w_msg_len ?w \<le> w_cap ?w * w_msg_len ?w"
    using w by (intro mult_le_mono1) linarith
  with le show ?thesis
    by (simp add: wnd_total_def)
qed

lemma wnd_total_0: "send_wnd_ok sw \<Longrightarrow> w_size (s_w sw) = 0 \<Longrightarrow> wnd_total (s_w sw) = 0"
  using send_lens(3) [of sw 0] wnd_okD(1) [OF send_wnd_okD(1)] by (simp add: wnd_total_def)

section \<open>Reset\<close>

lemma send_wnd_rst_ok:
  assumes "wnd_ok (s_w sw)" "length (s_rtx sw) = w_cap (s_w sw)"
  shows "\<exists>sw'. arq__send_wnd_rst sw = Some sw' \<and> send_wnd_ok sw' \<and> w_size (s_w sw') = 0 \<and>
    w_seq (s_w sw') = 0 \<and> wnd_bytes (s_w sw') = [] \<and> s_tiny_on sw' = False"
proof -
  let ?w = "(s_w sw)\<lparr>w_size := 0, w_seq := 0, w_msg := replicate (w_cap (s_w sw)) (fresh_msg (s_w sw))\<rparr>"
  let ?sw = "sw\<lparr>s_w := ?w, s_rtx := replicate (w_cap (s_w sw)) 0, s_tiny := 0, s_tiny_on := False\<rparr>"
  note w = wnd_okD [OF assms(1)]
  have "for_range 0 (w_cap (s_w sw)) (\<lambda>i rtx. wr rtx i 0) (s_rtx sw) =
      Some (take 0 (s_rtx sw) @ replicate (w_cap (s_w sw)) 0 @ drop (0 + w_cap (s_w sw)) (s_rtx sw))"
    using assms(2) by (intro for_range_fill) (auto simp: wr_def)
  then have "arq__send_wnd_rst sw = Some ?sw"
    using assms w by (simp add: arq__send_wnd_rst_def wnd_rst_eq)
  moreover have "send_wnd_ok ?sw"
    using wnd_rst_ok [OF assms(1)] w
    by (auto simp: send_wnd_ok_def send_msg_ok_def slot_def fresh_msg_def)
  ultimately show ?thesis
    using w by (auto simp: wnd_bytes_def wnd_total_def slot_def fresh_msg_def)
qed

section \<open>Sending\<close>

text \<open>The loop that marks the messages a write completes.\<close>

lemma send_fill_loop:
  fixes msg :: "arq__msg_t list"
  assumes w: "wnd_ok w" and len: "length rtx = w_cap w" "length msg = w_cap w"
    and bnd: "B + n \<le> w_cap w"
  shows "\<exists>rtx' msg'. for_range 0 n (\<lambda>i (rtx, msg). do {
          k \<leftarrow> umod (u32 (w_seq w + B + i)) (w_cap w);
          rtx' \<leftarrow> wr rtx k (0 :: nat);
          mk \<leftarrow> rd msg k;
          msg' \<leftarrow> wr msg k (mk\<lparr>m_len := w_msg_len w\<rparr>);
          Some (rtx', msg')
        }) (rtx, msg) = Some (rtx', msg') \<and> length rtx' = w_cap w \<and> length msg' = w_cap w \<and>
     set rtx' \<subseteq> insert 0 (set rtx) \<and>
     (\<forall>i<w_cap w. msg' ! slot w i =
        (if B \<le> i \<and> i < B + n then (msg ! slot w i)\<lparr>m_len := w_msg_len w\<rparr> else msg ! slot w i) \<and>
        rtx' ! slot w i = (if B \<le> i \<and> i < B + n then 0 else rtx ! slot w i))"
proof -
  define P where "P j st \<longleftrightarrow> length (fst st) = w_cap w \<and> length (snd st) = w_cap w \<and>
     set (fst st) \<subseteq> insert 0 (set rtx) \<and>
     (\<forall>i<w_cap w. snd st ! slot w i =
        (if B \<le> i \<and> i < B + j then (msg ! slot w i)\<lparr>m_len := w_msg_len w\<rparr> else msg ! slot w i) \<and>
        fst st ! slot w i = (if B \<le> i \<and> i < B + j then 0 else rtx ! slot w i))"
    for j and st :: "nat list \<times> arq__msg_t list"
  let ?f = "\<lambda>i (rtx, msg). do {
          k \<leftarrow> umod (u32 (w_seq w + B + i)) (w_cap w);
          rtx' \<leftarrow> wr rtx k (0 :: nat);
          mk \<leftarrow> rd msg k;
          msg' \<leftarrow> wr msg k (mk\<lparr>m_len := w_msg_len w\<rparr>);
          Some (rtx', msg')
        }"
  note wd = wnd_okD [OF w]
  have "\<exists>st'. for_range 0 n ?f (rtx, msg) = Some st' \<and> P (0 + n) st'"
  proof (rule for_range_inv)
    show "P 0 (rtx, msg)" using len by (auto simp: P_def)
    fix j st assume j: "0 \<le> j" "j < 0 + n" and P: "P j st"
    obtain r m where st: "st = (r, m)" by fastforce
    have k: "u32 (w_seq w + B + j) mod w_cap w = slot w (B + j)"
      using wd(3,11) bnd j by (simp add: u32_id slot_def add.assoc)
    have s: "slot w (B + j) < w_cap w" using w by simp
    have eq: "?f j st = Some (r[slot w (B + j) := 0],
        m[slot w (B + j) := (m ! slot w (B + j))\<lparr>m_len := w_msg_len w\<rparr>])"
      using P wd(1) s by (simp add: st P_def umod_pos k rd_ok wr_ok)
    have "P (Suc j) (r[slot w (B + j) := 0],
        m[slot w (B + j) := (m ! slot w (B + j))\<lparr>m_len := w_msg_len w\<rparr>])"
      unfolding P_def
    proof (intro conjI allI impI)
      show "set (fst (r[slot w (B + j) := 0], m[slot w (B + j) := (m ! slot w (B + j))\<lparr>m_len := w_msg_len w\<rparr>]))
          \<subseteq> insert 0 (set rtx)"
        using P set_update_subset_insert [of r "slot w (B + j)" 0] by (auto simp: P_def st)
    next
      fix i assume i: "i < w_cap w"
      have "slot w i = slot w (B + j) \<longleftrightarrow> i = B + j"
        using i bnd j by (intro slot_inject_ok) auto
      then show "snd (r[slot w (B + j) := 0], m[slot w (B + j) := (m ! slot w (B + j))\<lparr>m_len := w_msg_len w\<rparr>]) ! slot w i =
        (if B \<le> i \<and> i < B + Suc j then (msg ! slot w i)\<lparr>m_len := w_msg_len w\<rparr> else msg ! slot w i)"
        and "fst (r[slot w (B + j) := 0], m[slot w (B + j) := (m ! slot w (B + j))\<lparr>m_len := w_msg_len w\<rparr>]) ! slot w i =
        (if B \<le> i \<and> i < B + Suc j then 0 else rtx ! slot w i)"
        using P i s by (cases "i = B + j"; auto simp: P_def st nth_list_update)+
    qed (use P in \<open>auto simp: P_def st\<close>)
    with eq show "\<exists>t'. ?f j st = Some t' \<and> P (Suc j) t'" by blast
  qed
  then show ?thesis
    by (auto simp: P_def)
qed

lemma send_full_cnt_bound:
  fixes ml cap B L n :: nat
  assumes "0 < ml" "B < cap" "B * ml + L + n \<le> cap * ml"
  shows "B + (L + n) div ml \<le> cap" "(L + n) mod ml \<noteq> 0 \<Longrightarrow> B + (L + n) div ml < cap"
proof -
  have "L + n \<le> (cap - B) * ml"
    using assms by (simp add: diff_mult_distrib)
  then have le: "(L + n) div ml \<le> cap - B"
    by (metis assms(1) div_le_mono nonzero_mult_div_cancel_right not_less_zero)
  then show "B + (L + n) div ml \<le> cap"
    using assms(2) by linarith
  assume "(L + n) mod ml \<noteq> 0"
  then have "(L + n) div ml \<noteq> cap - B"
    using \<open>L + n \<le> (cap - B) * ml\<close> by (metis add_gr_0 div_mult_mod_eq le_add1 le_antisym nat_add_left_cancel_le not_gr_zero add.right_neutral)
  with le assms(2) show "B + (L + n) div ml < cap" by linarith
qed

lemma send_new_size:
  fixes ml B L n :: nat
  assumes "0 < ml"
  shows "(B * ml + L + n + ml - 1) div ml = B + (L + n) div ml + (if (L + n) mod ml \<noteq> 0 then 1 else 0)"
proof -
  let ?q = "(L + n) div ml" and ?r = "(L + n) mod ml"
  have "B * ml + L + n + ml - 1 = (B + ?q) * ml + (?r + ml - 1)"
    using assms div_mult_mod_eq [of "L + n" ml] by (simp add: algebra_simps)
  moreover have "(?r + ml - 1) div ml = (if ?r \<noteq> 0 then 1 else 0)"
  proof (cases "?r = 0")
    case False
    then have "?r + ml - 1 = 1 * ml + (?r - 1)" by simp
    moreover have "(?r - 1) div ml = 0"
      using mod_less_divisor [OF assms, of "L + n"] by simp
    ultimately show ?thesis using False assms by (simp only: div_mult_self3) simp
  qed (use assms in simp)
  moreover have "((B + ?q) * ml + (?r + ml - 1)) div ml = B + ?q + (?r + ml - 1) div ml"
    using assms by (intro div_mult_self3) simp
  ultimately show ?thesis
    by (simp only:)
qed

text \<open>The two copies of \<open>arq__send_wnd_send\<close> are a copy into the ring.\<close>

lemma ring_copy_memcpy:
  assumes nl: "n \<le> length data" and p: "p \<le> length buf" "n \<le> length buf"
  defines "n1 \<equiv> min n (length buf - p)"
  shows "memcpy_out data 0 n1 = Some (take n1 data)"
    "memcpy_in buf p (take n1 data) = Some (take p buf @ take n1 data @ drop (p + n1) buf)"
    "memcpy_out data n1 (n - n1) = Some (take (n - n1) (drop n1 data))"
    "memcpy_in (take p buf @ take n1 data @ drop (p + n1) buf) 0 (take (n - n1) (drop n1 data)) =
       Some (ring_copy buf p (take n data))"
proof -
  let ?q = "n - n1" and ?buf1 = "take p buf @ take n1 data @ drop (p + n1) buf"
  have b: "n1 \<le> n" "p + n1 \<le> length buf" "?q \<le> length buf"
    using p by (auto simp: n1_def)
  show "memcpy_out data 0 n1 = Some (take n1 data)"
    "memcpy_out data n1 ?q = Some (take ?q (drop n1 data))"
    using nl b(1) by (simp_all add: memcpy_out_def)
  have l: "length (take n1 data) = n1" "length (take ?q (drop n1 data)) = ?q" "length (take n data) = n"
    using nl b(1) by simp_all
  show "memcpy_in buf p (take n1 data) = Some ?buf1"
    using b(2) by (simp only: memcpy_in_def l if_True)
  have lb: "length ?buf1 = length buf"
    using b(2) l by simp
  have tt: "take n1 (take n data) = take n1 data" "drop n1 (take n data) = take ?q (drop n1 data)"
    using b(1) by (simp_all only: take_take drop_take min_absorb1)
  have "ring_copy buf p (take n data) = take ?q (drop n1 data) @ drop ?q ?buf1"
    by (simp only: ring_copy_def l Let_def tt n1_def [symmetric])
  then show "memcpy_in ?buf1 0 (take ?q (drop n1 data)) = Some (ring_copy buf p (take n data))"
    using b(3) lb by (simp only: memcpy_in_def l add_0 if_True take_0 append_Nil)
qed

text \<open>
  The two copies of \<open>arq__send_wnd_send\<close> are a copy into the ring. In the names below, the write starts in
  the last message of the window, at index \<open>last_msg\<close>, after its \<open>last_len\<close> bytes; with \<open>n\<close> bytes taken,
  \<open>sent_full\<close> messages become full and \<open>sent_rest\<close> bytes remain in the message after them.
\<close>

definition send_take :: "arq__wnd_t \<Rightarrow> nat \<Rightarrow> nat" where
  "send_take w len = min len (w_cap w * w_msg_len w - wnd_total w)"

abbreviation last_msg :: "arq__wnd_t \<Rightarrow> nat" where
  "last_msg w \<equiv> w_size w - 1"

abbreviation last_len :: "arq__wnd_t \<Rightarrow> nat" where
  "last_len w \<equiv> m_len (msg_at w (last_msg w))"

abbreviation write_pos :: "arq__wnd_t \<Rightarrow> nat" where
  "write_pos w \<equiv> slot w (last_msg w) * w_msg_len w + last_len w"

definition sent_full :: "arq__wnd_t \<Rightarrow> nat \<Rightarrow> nat" where
  "sent_full w n = (last_len w + n) div w_msg_len w"

definition sent_rest :: "arq__wnd_t \<Rightarrow> nat \<Rightarrow> nat" where
  "sent_rest w n = (last_len w + n) mod w_msg_len w"

definition sent_size :: "arq__wnd_t \<Rightarrow> nat \<Rightarrow> nat" where
  "sent_size w n = last_msg w + sent_full w n + (if sent_rest w n \<noteq> 0 then 1 else 0)"

definition sent_msg :: "arq__wnd_t \<Rightarrow> nat \<Rightarrow> nat \<Rightarrow> arq__msg_t" where
  "sent_msg w n i =
     (if last_msg w \<le> i \<and> i < last_msg w + sent_full w n then (msg_at w i)\<lparr>m_len := w_msg_len w\<rparr>
      else if i = last_msg w + sent_full w n \<and> sent_rest w n \<noteq> 0 then (msg_at w i)\<lparr>m_len := sent_rest w n\<rparr>
      else msg_at w i)"

lemma wnd_total_last: "wnd_total w = last_msg w * w_msg_len w + last_len w"
  by (simp add: wnd_total_def)

text \<open>Where the write starts and ends.\<close>

lemma send_place:
  assumes ok: "send_wnd_ok sw"
  defines "w \<equiv> s_w sw"
  shows "last_msg w < w_cap w" "last_len w \<le> w_msg_len w" "write_pos w \<le> w_cap w * w_msg_len w"
    "w_cap w * w_msg_len w < 4294967296"
proof -
  have wok: "wnd_ok w" using ok send_wnd_okD(1) by (simp add: w_def)
  note wd = wnd_okD [OF wok]
  show B: "last_msg w < w_cap w" using wd(1,12) by linarith
  show L: "last_len w \<le> w_msg_len w" using send_lens(1) [OF ok, of "last_msg w"] B by (simp add: w_def)
  have "slot w (last_msg w) < w_cap w" using wok by simp
  from slot_region [OF wok this] show "write_pos w \<le> w_cap w * w_msg_len w" using wd(10) L by simp
  show "w_cap w * w_msg_len w < 4294967296" using wnd_ok_msg_len(4) [OF wok] by linarith
qed

lemma send_geometry:
  fixes len0 :: nat
  assumes ok: "send_wnd_ok sw"
  defines "w \<equiv> s_w sw" and "n \<equiv> send_take (s_w sw) len0"
  shows "n \<le> len0" "last_msg w * w_msg_len w + last_len w + n \<le> w_cap w * w_msg_len w"
    "last_msg w + sent_full w n \<le> w_cap w" "sent_rest w n \<noteq> 0 \<Longrightarrow> last_msg w + sent_full w n < w_cap w"
    "sent_size w n \<le> w_cap w" "sent_rest w n < w_msg_len w"
proof -
  have ml: "0 < w_msg_len w" using wnd_ok_msg_len(1) send_wnd_okD(1) [OF ok] by (simp add: w_def)
  show "n \<le> len0" by (simp add: n_def send_take_def)
  have "wnd_total w \<le> w_cap w * w_msg_len w" using wnd_total_le [OF ok] by (simp add: w_def)
  then show n: "last_msg w * w_msg_len w + last_len w + n \<le> w_cap w * w_msg_len w"
    by (auto simp: n_def send_take_def wnd_total_last w_def min_def)
  note F = send_full_cnt_bound [OF ml send_place(1) [OF ok, folded w_def] n, folded sent_full_def sent_rest_def]
  show "last_msg w + sent_full w n \<le> w_cap w" by (rule F(1))
  show "last_msg w + sent_full w n < w_cap w" if "sent_rest w n \<noteq> 0" using that by (rule F(2))
  show "sent_size w n \<le> w_cap w" using F by (auto simp: sent_size_def)
  show "sent_rest w n < w_msg_len w" using ml by (simp add: sent_rest_def)
qed

lemma last_len_pos:
  assumes ok: "send_wnd_ok sw" and ne: "w_size (s_w sw) \<noteq> 0"
  shows "0 < last_len (s_w sw)"
  using send_wnd_okD(5) [OF ok send_place(1) [OF ok]] ne by (simp add: send_msg_ok_def)

text \<open>A write of at least one byte leaves bytes in the window.\<close>

lemma send_take_pos:
  assumes ok: "send_wnd_ok sw" and len: "0 < len0"
  shows "0 < last_len (s_w sw) + send_take (s_w sw) len0"
proof (cases "w_size (s_w sw) = 0")
  case True
  have "0 < w_cap (s_w sw) * w_msg_len (s_w sw)"
    using wnd_okD(1) wnd_ok_msg_len(1) send_wnd_okD(1) [OF ok] by simp
  then show ?thesis using wnd_total_0 [OF ok True] len by (simp add: send_take_def)
qed (use last_len_pos [OF ok] in simp)

lemma sent_any:
  assumes "0 < last_len w + n"
  shows "sent_full w n \<noteq> 0 \<or> sent_rest w n \<noteq> 0"
  using assms unfolding sent_full_def sent_rest_def by (metis add_0 div_mult_mod_eq mult_zero_left not_gr_zero)

lemma sent_size_grows:
  assumes ok: "send_wnd_ok sw" and pos: "0 < last_len (s_w sw) + n"
  shows "w_size (s_w sw) \<le> sent_size (s_w sw) n" "0 < sent_size (s_w sw) n"
  using sent_any [OF pos] by (auto simp: sent_size_def)

text \<open>The numbers the function computes do not wrap around.\<close>

lemma send_small:
  fixes len0 :: nat
  assumes ok: "send_wnd_ok sw"
  defines "w \<equiv> s_w sw" and "n \<equiv> send_take (s_w sw) len0"
  shows "last_len w + n < 4294967296" "n < 4294967296" "sent_rest w n < 65536" "sent_size w n < 65536"
    "w_seq w + sent_size w n < 4294967296"
    "last_msg w * w_msg_len w + last_len w + n + w_msg_len w < 4294967296"
proof -
  have wok: "wnd_ok w" using ok send_wnd_okD(1) by (simp add: w_def)
  note g = send_geometry [OF ok, of len0, folded w_def n_def]
  show "last_len w + n < 4294967296" "n < 4294967296" "sent_rest w n < 65536" "sent_size w n < 65536"
    "w_seq w + sent_size w n < 4294967296"
    "last_msg w * w_msg_len w + last_len w + n + w_msg_len w < 4294967296"
    using g(2,5,6) wnd_ok_msg_len [OF wok] wnd_okD(3,11) [OF wok] by linarith+
qed

text \<open>The remainder and the new size, as the function computes them.\<close>

lemma send_rest_eq:
  fixes len0 :: nat
  assumes ok: "send_wnd_ok sw"
  defines "w \<equiv> s_w sw" and "n \<equiv> send_take (s_w sw) len0"
  shows "sub32 (last_len w + n) (u32 (sent_full w n * w_msg_len w)) = sent_rest w n"
proof -
  have "sent_full w n * w_msg_len w \<le> last_len w + n"
    "last_len w + n - sent_full w n * w_msg_len w = sent_rest w n"
    by (simp_all add: minus_div_mult_eq_mod sent_full_def sent_rest_def)
  then show ?thesis
    using send_small(1) [OF ok, of len0, folded w_def n_def] by (simp only: u32_id sub32_le)
qed

lemma send_size_eq:
  fixes len0 :: nat
  assumes ok: "send_wnd_ok sw"
  defines "w \<equiv> s_w sw" and "n \<equiv> send_take (s_w sw) len0"
  shows "udiv (sub32 (u32 (last_msg w * w_msg_len w + last_len w + n + w_msg_len w)) 1) (w_msg_len w) =
    Some (sent_size w n)"
proof -
  have ml: "0 < w_msg_len w" using wnd_ok_msg_len(1) send_wnd_okD(1) [OF ok] by (simp add: w_def)
  have "1 \<le> last_msg w * w_msg_len w + last_len w + n + w_msg_len w" using ml by simp
  then show ?thesis
    using send_small(6) [OF ok, of len0, folded w_def n_def] ml send_new_size [OF ml, of "last_msg w" "last_len w" n]
    by (simp only: u32_id sub32_le udiv_pos sent_size_def sent_full_def sent_rest_def)
qed

text \<open>The slot of the message that holds the remainder.\<close>

abbreviation rest_slot :: "arq__wnd_t \<Rightarrow> nat \<Rightarrow> nat" where
  "rest_slot w n \<equiv> (w_seq w + sent_size w n - 1) mod w_cap w"

lemma rest_slot_eq: "sent_rest w n \<noteq> 0 \<Longrightarrow> rest_slot w n = slot w (last_msg w + sent_full w n)"
  by (simp add: slot_def sent_size_def add.assoc)

lemma send_wnd_send_run:
  assumes ok: "send_wnd_ok sw" and len: "len0 \<le> length data" "0 < len0"
  defines "w \<equiv> s_w sw" and "n \<equiv> send_take (s_w sw) len0"
  assumes loop: "for_range 0 (sent_full w n) (\<lambda>i (rtx, msg). do {
          k \<leftarrow> umod (u32 (w_seq w + last_msg w + i)) (w_cap w);
          rtx' \<leftarrow> wr rtx k (0 :: nat);
          mk \<leftarrow> rd msg k;
          msg' \<leftarrow> wr msg k (mk\<lparr>m_len := w_msg_len w\<rparr>);
          Some (rtx', msg')
        }) (s_rtx sw, w_msg w) = Some (rtx, msg)"
    and lens: "length rtx = w_cap w" "length msg = w_cap w"
  defines "k \<equiv> rest_slot w n" and "c \<equiv> sent_rest w n > 0 \<and> sent_size w n > w_size w"
  shows "arq__send_wnd_send sw data len0 tiny = Some (n,
     sw\<lparr>s_w := w\<lparr>w_buf := ring_copy (w_buf w) (write_pos w) (take n data),
                  w_msg := if sent_rest w n \<noteq> 0 then msg[k := (msg ! k)\<lparr>m_len := sent_rest w n\<rparr>] else msg,
                  w_size := sent_size w n\<rparr>,
        s_rtx := if c then rtx[k := tiny] else rtx, s_tiny := if c then tiny else s_tiny sw,
        s_tiny_on := sent_rest w n > 0\<rparr>)"
proof -
  have wok: "wnd_ok w" using ok send_wnd_okD(1) by (simp add: w_def)
  note wd = wnd_okD [OF wok] and wl = wnd_ok_msg_len [OF wok]
  note pl = send_place [OF ok, folded w_def]
  note g = send_geometry [OF ok, of len0, folded w_def n_def]
  note small = send_small [OF ok, of len0, folded w_def n_def]
  let ?C = "w_cap w * w_msg_len w" and ?n1 = "min n (w_cap w * w_msg_len w - write_pos w)"
  have k: "k < w_cap w" using wd(1) by (simp add: k_def)
  have pC: "n \<le> length data" "write_pos w \<le> length (w_buf w)" "n \<le> length (w_buf w)"
    using g(1,2) pl(3) len(1) wd(10) by linarith+
  note copy = ring_copy_memcpy [OF pC, unfolded wd(10)]
  have e1: "arq__sub_sat (w_size w) 1 = last_msg w" by simp
  have e2: "umod (w_seq w + last_msg w) (w_cap w) = Some (slot w (last_msg w))"
    using wd(1) by (simp add: umod_pos slot_def)
  have e3: "rd (w_msg w) (slot w (last_msg w)) = Some (msg_at w (last_msg w))" using wok wd(9) by (simp add: rd_ok)
  have e4: "arq__min len0 (sub32 ?C (last_msg w * w_msg_len w + last_len w)) = n"
    using g(2) pl(4) by (simp add: sub32_le n_def send_take_def wnd_total_last w_def)
  have e5: "arq__min n (sub32 ?C (write_pos w)) = ?n1" using pl(3,4) by (simp add: sub32_le)
  have e6: "sub32 n ?n1 = n - ?n1" using small(2) by (simp add: sub32_le)
  have e7: "udiv (last_len w + n) (w_msg_len w) = Some (sent_full w n)" using wl(1) by (simp add: udiv_pos sent_full_def)
  have "1 \<le> w_seq w + sent_size w n"
    using sent_size_grows(2) [OF ok send_take_pos [OF ok len(2)]] unfolding w_def n_def by linarith
  with small(5) wd(1) have e8: "umod (sub32 (w_seq w + sent_size w n) 1) (w_cap w) = Some k"
    by (simp only: sub32_le umod_pos k_def)
  have e9: "(if sent_rest w n \<noteq> 0 then do { mk \<leftarrow> rd msg k; wr msg k (mk\<lparr>m_len := sent_rest w n\<rparr>) } else Some msg) =
      Some (if sent_rest w n \<noteq> 0 then msg[k := (msg ! k)\<lparr>m_len := sent_rest w n\<rparr>] else msg)"
    using lens k by (simp add: rd_ok wr_ok)
  have e10: "(if (sent_rest w n > 0) \<and> sent_size w n > w_size w then do { r \<leftarrow> wr rtx k tiny; Some (r, tiny) }
      else Some (rtx, s_tiny sw)) = Some (if c then rtx[k := tiny] else rtx, if c then tiny else s_tiny sw)"
    using lens k by (simp add: wr_ok c_def)
  have e11: "len0 \<noteq> 0" using len(2) by simp
  have lt: "write_pos w < 4294967296" "last_msg w * w_msg_len w + last_len w < 4294967296"
    using pl(3,4) g(2) by linarith+
  note u = u32_id [OF small(1)] u32_id [OF pl(4)] u32_id [OF lt(1)] u32_id [OF lt(2)]
    u16_id [OF small(3)] u16_id [OF small(4)]
    send_rest_eq [OF ok, of len0, folded w_def n_def] send_size_eq [OF ok, of len0, folded w_def n_def]
  show ?thesis
    unfolding arq__send_wnd_send_def w_def [symmetric]
    by (simp only: Let_def e1 e2 e3 bind.bind_lunit u e4 e5 e6 copy e7 loop split_conv e8 e9 e10 e11 if_False)
qed

lemma send_wnd_send_eq:
  fixes tiny :: nat
  assumes ok: "send_wnd_ok sw" and len: "len0 \<le> length data" "0 < len0"
  defines "w \<equiv> s_w sw" and "n \<equiv> send_take (s_w sw) len0"
  shows "\<exists>msg rtx t. arq__send_wnd_send sw data len0 tiny = Some (n,
       sw\<lparr>s_w := w\<lparr>w_buf := ring_copy (w_buf w) (write_pos w) (take n data), w_msg := msg, w_size := sent_size w n\<rparr>,
          s_rtx := rtx, s_tiny := t, s_tiny_on := sent_rest w n > 0\<rparr>) \<and>
     length msg = w_cap w \<and> length rtx = w_cap w \<and> set rtx \<subseteq> {0, tiny} \<union> set (s_rtx sw) \<and>
     t \<in> {tiny, s_tiny sw} \<and> (\<forall>i<w_cap w. msg ! slot w i = sent_msg w n i)"
proof -
  have wok: "wnd_ok w" using ok send_wnd_okD(1) by (simp add: w_def)
  note wd = wnd_okD [OF wok] and g = send_geometry [OF ok, of len0, folded w_def n_def]
  obtain rtx msg where loop: "for_range 0 (sent_full w n) (\<lambda>i (rtx, msg). do {
          k \<leftarrow> umod (u32 (w_seq w + last_msg w + i)) (w_cap w);
          rtx' \<leftarrow> wr rtx k (0 :: nat);
          mk \<leftarrow> rd msg k;
          msg' \<leftarrow> wr msg k (mk\<lparr>m_len := w_msg_len w\<rparr>);
          Some (rtx', msg')
        }) (s_rtx sw, w_msg w) = Some (rtx, msg)"
    and lens: "length rtx = w_cap w" "length msg = w_cap w" and rset: "set rtx \<subseteq> insert 0 (set (s_rtx sw))"
    and msg: "\<And>i. i < w_cap w \<Longrightarrow> msg ! slot w i =
        (if last_msg w \<le> i \<and> i < last_msg w + sent_full w n then (msg_at w i)\<lparr>m_len := w_msg_len w\<rparr> else msg_at w i)"
    using send_fill_loop [OF wok _ wd(9) g(3), of "s_rtx sw"] send_wnd_okD(2) [OF ok] w_def by blast
  let ?k = "rest_slot w n" and ?R = "sent_rest w n"
  let ?msg = "if ?R \<noteq> 0 then msg[?k := (msg ! ?k)\<lparr>m_len := ?R\<rparr>] else msg"
  let ?c = "?R > 0 \<and> sent_size w n > w_size w"
  note run = send_wnd_send_run [OF ok len, folded w_def n_def, OF loop lens]
  have k: "?k < w_cap w" using wd(1) by simp
  have eqk: "slot w i = ?k \<longleftrightarrow> i = last_msg w + sent_full w n" if "?R \<noteq> 0" "i < w_cap w" for i
    using that rest_slot_eq [of w n] slot_inject_ok [OF that(2), of "last_msg w + sent_full w n"] g(4) by simp
  have "?msg ! slot w i = sent_msg w n i" if i: "i < w_cap w" for i
  proof (cases "?R \<noteq> 0 \<and> i = last_msg w + sent_full w n")
    case True
    then have "?k = slot w i" using rest_slot_eq [of w n] by simp
    with True show ?thesis using msg [OF i] lens k by (simp add: sent_msg_def)
  next
    case False
    then have "?k \<noteq> slot w i" if "?R \<noteq> 0" using eqk [OF that i] that by metis
    then have "?msg ! slot w i = msg ! slot w i" by simp
    with False show ?thesis using msg [OF i] by (auto simp: sent_msg_def)
  qed
  moreover have "set (if ?c then rtx[?k := tiny] else rtx) \<subseteq> {0, tiny} \<union> set (s_rtx sw)"
    using rset set_update_subset_insert [of rtx ?k tiny] by auto
  moreover have "length ?msg = w_cap w" "length (if ?c then rtx[?k := tiny] else rtx) = w_cap w"
    using lens by simp_all
  moreover have "(if ?c then tiny else s_tiny sw) \<in> {tiny, s_tiny sw}" by simp
  ultimately show ?thesis using run by blast
qed

lemma send_total:
  fixes ml B L n :: nat
  assumes "0 < ml" "0 < L + n \<or> 0 < B \<and> L = ml"
  shows "(B + (L + n) div ml + (if (L + n) mod ml \<noteq> 0 then 1 else 0) - 1) * ml +
    (if (L + n) mod ml \<noteq> 0 then (L + n) mod ml else ml) = B * ml + L + n"
proof -
  let ?q = "(L + n) div ml" and ?r = "(L + n) mod ml"
  have e: "?q * ml + ?r = L + n" by (rule div_mult_mod_eq)
  show ?thesis
  proof (cases "?r = 0")
    case True
    with e assms have "0 < ?q" by (metis add.right_neutral add_gr_0 mult_zero_left not_gr_zero)
    then have "(B + ?q - 1) * ml + ml = (B + ?q) * ml"
      by (metis Suc_eq_plus1 Suc_pred' add_gr_0 mult_Suc add.commute)
    with True e show ?thesis by (simp add: add_mult_distrib)
  next
    case False
    with e show ?thesis by (simp add: add_mult_distrib)
  qed
qed

lemma wnd_bytes_append:
  assumes w: "wnd_ok w" and le: "wnd_total w + n \<le> w_cap w * w_msg_len w" and n: "n = length ds"
    and w': "w_seq w' = w_seq w" "w_cap w' = w_cap w" "w_msg_len w' = w_msg_len w"
    and tot: "wnd_total w' = wnd_total w + n"
    and buf: "w_buf w' = ring_copy (w_buf w) p ds"
    and p: "p \<le> w_cap w * w_msg_len w"
      "p mod (w_cap w * w_msg_len w) = (wnd_start w + wnd_total w) mod (w_cap w * w_msg_len w)"
  shows "wnd_bytes w' = wnd_bytes w @ ds"
proof (rule nth_equalityI)
  let ?C = "w_cap w * w_msg_len w"
  note wd = wnd_okD [OF w]
  have C: "0 < ?C" using wd(1) wnd_ok_msg_len(1) [OF w] by simp
  show "length (wnd_bytes w') = length (wnd_bytes w @ ds)"
    using tot n by simp
  fix j assume "j < length (wnd_bytes w')"
  then have j: "j < wnd_total w + n" using tot by simp
  have b: "p \<le> length (w_buf w)" "length ds \<le> length (w_buf w)"
    using p(1) le n wd(10) by auto
  have start: "wnd_start w' = wnd_start w" using w' by (simp add: wnd_start_def)
  have pm: "(p + k) mod ?C = (wnd_start w + (wnd_total w + k)) mod ?C" for k
    using p(2) by (metis add.assoc mod_add_left_eq)
  have lhs: "wnd_bytes w' ! j = ring_copy (w_buf w) p ds ! ((wnd_start w + j) mod ?C)"
    using j tot start w' buf by (simp add: wnd_bytes_def)
  show "wnd_bytes w' ! j = (wnd_bytes w @ ds) ! j"
  proof (cases "j < wnd_total w")
    case True
    have "(wnd_start w + j) mod ?C \<noteq> (p + k) mod length (w_buf w)" if "k < length ds" for k
      unfolding wd(10) pm using True that le n by (intro mod_add_neq) auto
    then have "ring_copy (w_buf w) p ds ! ((wnd_start w + j) mod ?C) = w_buf w ! ((wnd_start w + j) mod ?C)"
      using C wd(10) by (intro ring_copy(3) [OF b]) auto
    with True lhs show ?thesis by (simp add: nth_append) (simp add: wnd_bytes_def)
  next
    case False
    then have k: "j - wnd_total w < length ds" using j n by simp
    have "(wnd_start w + j) mod ?C = (p + (j - wnd_total w)) mod length (w_buf w)"
      using False by (simp only: wd(10) pm) simp
    with lhs ring_copy(2) [OF b k] False show ?thesis by (simp add: nth_append)
  qed
qed

lemma send_vecs:
  assumes ok: "send_wnd_ok sw" and i: "i < w_cap (s_w sw)"
  shows "m_cur_ack_vec (msg_at (s_w sw) i) < 65536" "full_vec_ok (s_w sw) (m_full_ack_vec (msg_at (s_w sw) i))"
  using send_wnd_okD(5) [OF ok i] full_vec_ok_full [OF send_wnd_okD(1) [OF ok]]
  by (auto simp: send_msg_ok_def fresh_msg_def split: if_splits)

text \<open>
  The window after a write: only the buffer, the messages and the size change, the messages as
  \<open>sent_msg\<close> says.
\<close>

definition sent_wnd :: "arq__wnd_t \<Rightarrow> nat \<Rightarrow> byte list \<Rightarrow> arq__wnd_t \<Rightarrow> bool" where
  "sent_wnd w n data w' \<longleftrightarrow>
     (\<exists>msg. w' = w\<lparr>w_buf := ring_copy (w_buf w) (write_pos w) (take n data), w_msg := msg, w_size := sent_size w n\<rparr> \<and>
        length msg = w_cap w \<and> (\<forall>i<w_cap w. msg ! slot w i = sent_msg w n i))"

lemma sent_wndD:
  assumes "sent_wnd w n data w'"
  shows "w_buf w' = ring_copy (w_buf w) (write_pos w) (take n data)" "w_size w' = sent_size w n"
    "w_seq w' = w_seq w" "w_cap w' = w_cap w" "w_msg_len w' = w_msg_len w" "w_seg_len w' = w_seg_len w"
    "w_full_ack_vec w' = w_full_ack_vec w" "length (w_msg w') = w_cap w" "slot w' i = slot w i" "segs w' = segs w"
    "i < w_cap w \<Longrightarrow> w_msg w' ! slot w i = sent_msg w n i"
  using assms by (auto simp: sent_wnd_def slot_def segs_def)

lemma sent_wnd_vecs:
  assumes "sent_wnd w n data w'" "i < w_cap w"
  shows "m_cur_ack_vec (msg_at w' i) = m_cur_ack_vec (msg_at w i)"
    "m_full_ack_vec (msg_at w' i) = m_full_ack_vec (msg_at w i)"
  using assms(2) by (simp_all add: sent_wndD [OF assms(1)] sent_msg_def)

lemma sent_total:
  assumes ok: "send_wnd_ok sw" and pos: "0 < last_len (s_w sw) + n" and w': "sent_wnd (s_w sw) n data w'"
    and le: "sent_size (s_w sw) n \<le> w_cap (s_w sw)"
  shows "wnd_total w' = wnd_total (s_w sw) + n"
proof -
  let ?w = "s_w sw"
  have ml: "0 < w_msg_len ?w" using wnd_ok_msg_len(1) send_wnd_okD(1) [OF ok] by blast
  have i: "last_msg w' < w_cap ?w"
    using le sent_size_grows(2) [OF ok pos] by (simp add: sent_wndD [OF w'])
  have "m_len (sent_msg ?w n (sent_size ?w n - 1)) = (if sent_rest ?w n \<noteq> 0 then sent_rest ?w n else w_msg_len ?w)"
    using sent_any [OF pos] by (auto simp: sent_msg_def sent_size_def)
  moreover have "msg_at w' (last_msg w') = sent_msg ?w n (sent_size ?w n - 1)"
    using sent_wndD(11) [OF w' i] by (simp only: sent_wndD(2,9) [OF w'])
  ultimately have "last_len w' = (if sent_rest ?w n \<noteq> 0 then sent_rest ?w n else w_msg_len ?w)" by simp
  then have "wnd_total w' = (sent_size ?w n - 1) * w_msg_len ?w + (if sent_rest ?w n \<noteq> 0 then sent_rest ?w n else w_msg_len ?w)"
    by (simp only: wnd_total_def sent_wndD [OF w'])
  also have "\<dots> = last_msg ?w * w_msg_len ?w + last_len ?w + n"
    unfolding sent_size_def sent_full_def sent_rest_def by (rule send_total [OF ml]) (use pos in simp)
  finally show ?thesis by (simp only: wnd_total_def)
qed

lemma sent_msg_lens:
  assumes ok: "send_wnd_ok sw" and i: "i < w_cap (s_w sw)" "i < sent_size (s_w sw) n"
  shows "0 < m_len (sent_msg (s_w sw) n i) \<and> m_len (sent_msg (s_w sw) n i) \<le> w_msg_len (s_w sw) \<and>
    (i + 1 < sent_size (s_w sw) n \<longrightarrow> m_len (sent_msg (s_w sw) n i) = w_msg_len (s_w sw))"
proof (cases "last_msg (s_w sw) \<le> i")
  case False
  then have "m_len (msg_at (s_w sw) i) = w_msg_len (s_w sw)"
    using send_lens(2) [OF ok i(1)] by simp
  with False show ?thesis
    using wnd_ok_msg_len(1) [OF send_wnd_okD(1) [OF ok]] by (auto simp: sent_msg_def)
next
  case True
  let ?w = "s_w sw"
  have ml: "0 < w_msg_len ?w" using wnd_ok_msg_len(1) send_wnd_okD(1) [OF ok] by blast
  have "i < last_msg ?w + sent_full ?w n \<or> i = last_msg ?w + sent_full ?w n \<and> sent_rest ?w n \<noteq> 0"
    using i(2) by (auto simp: sent_size_def split: if_splits)
  moreover have "sent_rest ?w n < w_msg_len ?w" using ml by (simp add: sent_rest_def)
  ultimately show ?thesis
    using True ml by (auto simp: sent_msg_def sent_size_def)
qed

lemma sent_wnd_keeps_ok:
  assumes ok: "send_wnd_ok sw" and w': "sent_wnd (s_w sw) n data w'" and pos: "0 < last_len (s_w sw) + n"
    and le: "sent_size (s_w sw) n \<le> w_cap (s_w sw)" and n: "n \<le> w_cap (s_w sw) * w_msg_len (s_w sw)"
    and p: "write_pos (s_w sw) \<le> w_cap (s_w sw) * w_msg_len (s_w sw)" and i: "i < w_cap (s_w sw)"
  shows "wnd_ok w'" "send_msg_ok w' i"
proof -
  let ?w = "s_w sw"
  note D = sent_wndD [OF w']
  have wok: "wnd_ok ?w" using ok send_wnd_okD(1) by simp
  note wd = wnd_okD [OF wok]
  have "length (w_buf w') = w_cap ?w * w_msg_len ?w"
    unfolding D(1) wd(10) [symmetric] by (rule ring_copy(1)) (use p n wd(10) in simp_all)
  then show "wnd_ok w'"
    using wd le unfolding wnd_ok_def D by simp
  show "send_msg_ok w' i"
  proof (cases "i < sent_size ?w n")
    case True
    then show ?thesis
      using sent_msg_lens [OF ok i True] send_vecs [OF ok i] full_vec_ok_cong [OF D(10)] sent_wnd_vecs [OF w' i] i
      by (simp add: send_msg_ok_def D)
  next
    case False
    then have "sent_msg ?w n i = msg_at ?w i" by (auto simp: sent_msg_def sent_size_def)
    with False show ?thesis
      using sent_size_grows(1) [OF ok pos] send_wnd_okD(5) [OF ok i] i
      by (simp add: send_msg_ok_def D fresh_msg_def)
  qed
qed

lemma sent_wnd_bytes:
  assumes ok: "send_wnd_ok sw" and w': "sent_wnd (s_w sw) n data w'" and n: "n \<le> length data"
    and tot: "wnd_total w' = wnd_total (s_w sw) + n"
    and le: "wnd_total (s_w sw) + n \<le> w_cap (s_w sw) * w_msg_len (s_w sw)"
    and p: "write_pos (s_w sw) \<le> w_cap (s_w sw) * w_msg_len (s_w sw)"
  shows "wnd_bytes w' = wnd_bytes (s_w sw) @ take n data"
proof (rule wnd_bytes_append [OF send_wnd_okD(1) [OF ok] le _ _ _ _ tot sent_wndD(1) [OF w'] p])
  let ?w = "s_w sw"
  show "write_pos ?w mod (w_cap ?w * w_msg_len ?w) = (wnd_start ?w + wnd_total ?w) mod (w_cap ?w * w_msg_len ?w)"
    using ring_pos [of 0 "w_msg_len ?w" "w_seq ?w" "w_cap ?w" "last_msg ?w"]
      wnd_ok_msg_len(1) [OF send_wnd_okD(1) [OF ok]]
    by (simp add: wnd_start_def wnd_total_def slot_def) (metis add.assoc mod_add_left_eq)
qed (use n in \<open>simp_all add: sent_wndD [OF w']\<close>)

lemma send_wnd_send_sent:
  assumes ok: "send_wnd_ok sw" and len: "len0 \<le> length data" "0 < len0" and tiny: "tiny < 2 ^ 32"
  shows "\<exists>sw'. arq__send_wnd_send sw data len0 tiny = Some (send_take (s_w sw) len0, sw') \<and>
    send_wnd_ok sw' \<and> sent_wnd (s_w sw) (send_take (s_w sw) len0) data (s_w sw')"
proof -
  let ?w = "s_w sw" and ?n = "send_take (s_w sw) len0"
  note pl = send_place [OF ok] and g = send_geometry [OF ok, of len0] and pos = send_take_pos [OF ok len(2)]
  obtain msg rtx t where run: "arq__send_wnd_send sw data len0 tiny = Some (?n,
       sw\<lparr>s_w := ?w\<lparr>w_buf := ring_copy (w_buf ?w) (write_pos ?w) (take ?n data), w_msg := msg, w_size := sent_size ?w ?n\<rparr>,
          s_rtx := rtx, s_tiny := t, s_tiny_on := sent_rest ?w ?n > 0\<rparr>)" (is "_ = Some (_, ?sw')")
    and msg: "length msg = w_cap ?w" "\<forall>i<w_cap ?w. msg ! slot ?w i = sent_msg ?w ?n i"
    and rtx: "length rtx = w_cap ?w" "set rtx \<subseteq> {0, tiny} \<union> set (s_rtx sw)" and t: "t \<in> {tiny, s_tiny sw}"
    using send_wnd_send_eq [OF ok len, of tiny] by blast
  have sent: "sent_wnd ?w ?n data (s_w ?sw')"
    using msg by (auto simp: sent_wnd_def)
  have n: "?n \<le> w_cap ?w * w_msg_len ?w" using g(2) by linarith
  note keep = sent_wnd_keeps_ok [OF ok sent pos g(5) n pl(3)]
  have "wnd_ok (s_w ?sw')" using keep(1) pl(1) by blast
  moreover have "send_msg_ok (s_w ?sw') i" if "i < w_cap ?w" for i using keep(2) [OF that] .
  moreover have "\<forall>t\<in>set rtx. t < 2 ^ 32" "t < 2 ^ 32"
    using rtx(2) t tiny send_wnd_okD(3,4) [OF ok] by auto
  ultimately have "send_wnd_ok ?sw'"
    using rtx(1) by (simp add: send_wnd_ok_def)
  with run sent show ?thesis by blast
qed

lemma send_wnd_send_appends:
  assumes ok: "send_wnd_ok sw" and len: "len0 \<le> length data" and tiny: "tiny < 2 ^ 32"
  shows "\<exists>sw'. arq__send_wnd_send sw data len0 tiny = Some (send_take (s_w sw) len0, sw') \<and>
    send_wnd_ok sw' \<and> w_seq (s_w sw') = w_seq (s_w sw) \<and> w_cap (s_w sw') = w_cap (s_w sw) \<and>
    w_msg_len (s_w sw') = w_msg_len (s_w sw) \<and> w_seg_len (s_w sw') = w_seg_len (s_w sw) \<and>
    wnd_bytes (s_w sw') = wnd_bytes (s_w sw) @ take (send_take (s_w sw) len0) data"
proof (cases "len0 = 0")
  case True
  then show ?thesis using ok by (simp add: arq__send_wnd_send_def send_take_def)
next
  case False
  let ?n = "send_take (s_w sw) len0"
  note pl = send_place [OF ok] and g = send_geometry [OF ok, of len0] and pos = send_take_pos [OF ok, of len0]
  from False obtain sw' where run: "arq__send_wnd_send sw data len0 tiny = Some (?n, sw')"
    and ok': "send_wnd_ok sw'" and sent: "sent_wnd (s_w sw) ?n data (s_w sw')"
    using send_wnd_send_sent [OF ok len _ tiny] by auto
  have "wnd_total (s_w sw') = wnd_total (s_w sw) + ?n"
    using False pos g(5) by (intro sent_total [OF ok _ sent]) simp_all
  moreover have "?n \<le> length data" "wnd_total (s_w sw) + ?n \<le> w_cap (s_w sw) * w_msg_len (s_w sw)"
    using g(1,2) len by (simp_all add: wnd_total_def)
  ultimately have "wnd_bytes (s_w sw') = wnd_bytes (s_w sw) @ take ?n data"
    using sent_wnd_bytes [OF ok sent] pl(3) by blast
  with run ok' show ?thesis by (simp add: sent_wndD [OF sent])
qed

section \<open>Acknowledgements\<close>

lemma send_wnd_ack_loop:
  assumes w: "wnd_ok w" and "length msg = w_cap w" and "i + n \<le> w_cap w"
  shows "\<exists>k msg'. send_wnd_ack_loop n w i msg = Some (k, msg') \<and> i \<le> k \<and> k \<le> i + n \<and>
    length msg' = w_cap w \<and>
    (\<forall>j\<in>{i..<k}. m_cur_ack_vec (msg ! slot w j) = m_full_ack_vec (msg ! slot w j)) \<and>
    (k < i + n \<longrightarrow> m_cur_ack_vec (msg ! slot w k) \<noteq> m_full_ack_vec (msg ! slot w k)) \<and>
    (\<forall>j<w_cap w. msg' ! slot w j = (if i \<le> j \<and> j < k then fresh_msg w else msg ! slot w j))"
  using assms(2,3)
proof (induction n arbitrary: i msg)
  case 0
  then show ?case by auto
next
  case (Suc n)
  note wd = wnd_okD [OF w]
  let ?m = "msg ! slot w i"
  have i: "i < w_cap w" using Suc.prems by simp
  have e: "umod (w_seq w + i) (w_cap w) = Some (slot w i)" "rd msg (slot w i) = Some ?m"
    using wd(1) w Suc.prems by (auto simp: umod_pos slot_def rd_ok)
  show ?case
  proof (cases "m_cur_ack_vec ?m = m_full_ack_vec ?m")
    case False
    then show ?thesis using Suc.prems by (auto simp: e)
  next
    case True
    let ?msg1 = "msg[slot w i := fresh_msg w]"
    have f: "?m\<lparr>m_len := 0, m_cur_ack_vec := 0, m_full_ack_vec := w_full_ack_vec w\<rparr> = fresh_msg w"
      by (cases ?m) (simp add: fresh_msg_def)
    obtain k msg' where run: "send_wnd_ack_loop n w (Suc i) ?msg1 = Some (k, msg')"
      and k: "Suc i \<le> k" "k \<le> Suc i + n" "length msg' = w_cap w"
      and full: "\<forall>j\<in>{Suc i..<k}. m_cur_ack_vec (?msg1 ! slot w j) = m_full_ack_vec (?msg1 ! slot w j)"
      and stop: "k < Suc i + n \<longrightarrow> m_cur_ack_vec (?msg1 ! slot w k) \<noteq> m_full_ack_vec (?msg1 ! slot w k)"
      and msg': "\<forall>j<w_cap w. msg' ! slot w j = (if Suc i \<le> j \<and> j < k then fresh_msg w else ?msg1 ! slot w j)"
      using Suc.IH [of ?msg1 "Suc i"] Suc.prems by auto
    have nth1: "?msg1 ! slot w j = (if j = i then fresh_msg w else msg ! slot w j)" if "j < w_cap w" for j
      using Suc.prems slot_inject_ok [OF i that] w by (auto simp: nth_list_update)
    have "send_wnd_ack_loop (Suc n) w i msg = Some (k, msg')"
      using True run Suc.prems w by (simp add: e f wr_ok)
    moreover have "\<forall>j\<in>{i..<k}. m_cur_ack_vec (msg ! slot w j) = m_full_ack_vec (msg ! slot w j)"
    proof
      fix j assume j: "j \<in> {i..<k}"
      show "m_cur_ack_vec (msg ! slot w j) = m_full_ack_vec (msg ! slot w j)"
      proof (cases "j = i")
        case False
        then show ?thesis
          using full j k Suc.prems nth1 [of j] by (metis Suc_leI add_Suc_shift atLeastLessThan_iff le_neq_implies_less order.strict_trans2)
      qed (use True in simp)
    qed
    moreover have "k < i + Suc n \<longrightarrow> m_cur_ack_vec (msg ! slot w k) \<noteq> m_full_ack_vec (msg ! slot w k)"
      using stop k Suc.prems nth1 [of k] by auto
    moreover have "\<forall>j<w_cap w. msg' ! slot w j = (if i \<le> j \<and> j < k then fresh_msg w else msg ! slot w j)"
      using msg' nth1 k by auto
    ultimately show ?thesis
      using k by (intro exI [of _ k] exI [of _ msg']) auto
  qed
qed

text \<open>A window whose first \<open>k\<close> messages are released.\<close>

lemma slot_advance: "w_cap w dvd 4096 \<Longrightarrow> w_seq w' = (w_seq w + k) mod 4096 \<Longrightarrow> w_cap w' = w_cap w \<Longrightarrow>
  slot w' i = slot w (k + i)"
  by (simp add: slot_def) (metis add.assoc mod_add_left_eq mod_mod_cancel)

lemma wnd_bytes_release:
  assumes w: "wnd_ok w" and w': "w_seq w' = (w_seq w + k) mod 4096" "w_cap w' = w_cap w"
    "w_msg_len w' = w_msg_len w" "w_buf w' = w_buf w"
    and tot: "wnd_total w' = wnd_total w - k * w_msg_len w"
  shows "wnd_bytes w' = drop (k * w_msg_len w) (wnd_bytes w)"
proof (rule nth_equalityI)
  fix j assume "j < length (wnd_bytes w')"
  then have j: "k * w_msg_len w + j < wnd_total w" "j < wnd_total w - k * w_msg_len w"
    using tot by simp_all
  note wd = wnd_okD [OF w]
  have "wnd_start w' = slot w k * w_msg_len w"
    using slot_advance [OF wd(2) w'(1,2), of 0] w' by (simp add: wnd_start_def slot_def)
  moreover have "(wnd_start w + k * w_msg_len w + 0) mod (w_cap w * w_msg_len w) = slot w k * w_msg_len w + 0"
    unfolding wnd_start_def slot_def by (rule ring_pos) (rule wnd_ok_msg_len(1) [OF w])
  ultimately have "(wnd_start w' + j) mod (w_cap w * w_msg_len w) =
      (wnd_start w + (k * w_msg_len w + j)) mod (w_cap w * w_msg_len w)"
    by (metis add.assoc add_0_right mod_add_left_eq)
  with j show "wnd_bytes w' ! j = drop (k * w_msg_len w) (wnd_bytes w) ! j"
    by (simp add: wnd_bytes_def w' tot)
qed (simp add: tot)

text \<open>The vector of the \<open>i\<close>-th message once an acknowledgement is stored, and the number of messages
  at the front of the window that are then complete.\<close>

definition ack_vec :: "arq__wnd_t \<Rightarrow> nat \<Rightarrow> nat \<Rightarrow> nat \<Rightarrow> nat" where
  "ack_vec w seq vec i = (if i = seq - w_seq w then vec else m_cur_ack_vec (msg_at w i))"

definition ack_count :: "arq__wnd_t \<Rightarrow> nat \<Rightarrow> nat \<Rightarrow> nat" where
  "ack_count w seq vec =
     length (takeWhile (\<lambda>i. ack_vec w seq vec i = m_full_ack_vec (msg_at w i)) [0..<w_size w])"

lemma length_takeWhile_upt:
  assumes "k \<le> n" "\<And>j. j < k \<Longrightarrow> P j" "k < n \<Longrightarrow> \<not> P k"
  shows "length (takeWhile P [0..<n]) = k"
proof -
  have "[0..<n] = [0..<k] @ [k..<n]"
    using assms(1) by (metis le0 le_add_diff_inverse upt_add_eq_append)
  moreover have "takeWhile P [k..<n] = []"
    using assms by (cases "k < n") (simp_all add: upt_conv_Cons)
  ultimately show ?thesis
    using assms(2) by (simp add: takeWhile_append)
qed

text \<open>The window after \<open>k\<close> messages at its front are released, with the vectors \<open>vecs\<close> in the others.\<close>

definition released_wnd :: "arq__wnd_t \<Rightarrow> nat \<Rightarrow> (nat \<Rightarrow> nat) \<Rightarrow> arq__wnd_t \<Rightarrow> bool" where
  "released_wnd w k vecs w' \<longleftrightarrow> k \<le> w_size w \<and>
     (\<exists>msg. w' = w\<lparr>w_msg := msg, w_size := w_size w - k, w_seq := (w_seq w + k) mod 4096\<rparr> \<and> length msg = w_cap w \<and>
        (\<forall>i<w_cap w. msg ! slot w i =
           (if i < k then fresh_msg w else if i < w_size w then (msg_at w i)\<lparr>m_cur_ack_vec := vecs i\<rparr> else msg_at w i)))"

lemma released_wndD:
  assumes "released_wnd w k vecs w'"
  shows "k \<le> w_size w" "w_cap w' = w_cap w" "w_msg_len w' = w_msg_len w" "w_seg_len w' = w_seg_len w"
    "w_full_ack_vec w' = w_full_ack_vec w" "w_buf w' = w_buf w" "length (w_msg w') = w_cap w"
    "w_seq w' = (w_seq w + k) mod 4096" "w_size w' = w_size w - k" "segs w' = segs w" "fresh_msg w' = fresh_msg w"
    "i < w_cap w \<Longrightarrow> w_msg w' ! slot w i =
      (if i < k then fresh_msg w else if i < w_size w then (msg_at w i)\<lparr>m_cur_ack_vec := vecs i\<rparr> else msg_at w i)"
  using assms by (auto simp: released_wnd_def segs_def fresh_msg_def)

lemma released_slot:
  assumes "wnd_ok w" "released_wnd w k vecs w'"
  shows "slot w' i = slot w (k + i)"
  using slot_advance [OF wnd_okD(2) [OF assms(1)]] released_wndD(2,8) [OF assms(2)] by blast

lemma released_inside:
  assumes w: "wnd_ok w" and r: "released_wnd w k vecs w'" and i: "i < w_size w'"
  shows "msg_at w' i = (msg_at w (k + i))\<lparr>m_cur_ack_vec := vecs (k + i)\<rparr>"
  using i wnd_okD(12) [OF w] released_wndD(9,12) [OF r] by (simp add: released_slot [OF w r])

lemma released_outside:
  assumes ok: "send_wnd_ok sw" and r: "released_wnd (s_w sw) k vecs w'" and i: "i < w_cap (s_w sw)" "w_size w' \<le> i"
  shows "msg_at w' i = fresh_msg (s_w sw)"
proof (cases "k + i < w_cap (s_w sw)")
  case True
  then show ?thesis
    using i released_wndD [OF r] send_wnd_okD(5) [OF ok True]
    by (simp add: released_slot [OF send_wnd_okD(1) [OF ok] r] send_msg_ok_def)
next
  case False
  then have "slot (s_w sw) (k + i) = slot (s_w sw) (k + i - w_cap (s_w sw))"
    by (simp add: slot_def le_mod_geq)
  then show ?thesis
    using False i(1) released_wndD [OF r] wnd_okD(12) [OF send_wnd_okD(1) [OF ok]]
    by (simp add: released_slot [OF send_wnd_okD(1) [OF ok] r])
qed

lemma released_total:
  assumes ok: "send_wnd_ok sw" and r: "released_wnd (s_w sw) k vecs w'"
  shows "wnd_total w' = wnd_total (s_w sw) - k * w_msg_len (s_w sw)"
proof (cases "k = w_size (s_w sw)")
  case True
  let ?w = "s_w sw"
  have le: "last_len ?w \<le> w_msg_len ?w" by (rule send_place(2) [OF ok])
  have "wnd_total ?w \<le> w_size ?w * w_msg_len ?w"
  proof (cases "w_size ?w = 0")
    case False
    then show ?thesis using le by (cases "w_size ?w") (simp_all add: wnd_total_def)
  qed (use wnd_total_0 [OF ok] in simp)
  moreover have "wnd_total w' = 0"
    using True released_outside [OF ok r, of 0] wnd_okD(1) [OF send_wnd_okD(1) [OF ok]] released_wndD(9) [OF r]
    by (simp add: wnd_total_def fresh_msg_def)
  ultimately show ?thesis using True by simp
next
  case False
  then obtain n where "w_size w' = Suc n" "w_size (s_w sw) = k + Suc n"
    using released_wndD(1,9) [OF r] by (metis add_diff_inverse_nat diff_is_0_eq le_antisym not0_implies_Suc not_less)
  then show ?thesis
    using released_inside [OF send_wnd_okD(1) [OF ok] r, of n] released_wndD(3) [OF r]
    by (simp add: wnd_total_def add_mult_distrib)
qed

lemma released_ok:
  assumes ok: "send_wnd_ok sw" and r: "released_wnd (s_w sw) k vecs w'"
    and vec: "\<And>i. i < w_size (s_w sw) \<Longrightarrow> vecs i < 65536"
  shows "wnd_ok w'" "i < w_cap w' \<Longrightarrow> send_msg_ok w' i"
    and "wnd_bytes w' = drop (k * w_msg_len w') (wnd_bytes (s_w sw))"
proof -
  let ?w = "s_w sw"
  have wok: "wnd_ok ?w" using ok by (rule send_wnd_okD(1))
  note wd = wnd_okD [OF wok] and D = released_wndD [OF r]
  show "wnd_ok w'"
    using wd D(1) unfolding wnd_ok_def D by simp
  show "send_msg_ok w' i" if i: "i < w_cap w'"
  proof (cases "i < w_size w'")
    case True
    then have j: "k + i < w_cap ?w" "k + i < w_size ?w" using D(9) wd(12) by auto
    then have "send_msg_ok ?w (k + i)" using send_wnd_okD(5) [OF ok] by simp
    then show ?thesis
      using True j(2) vec full_vec_ok_cong [OF D(10)] released_inside [OF wok r True] D
      by (auto simp: send_msg_ok_def)
  qed (use i released_outside [OF ok r] D in \<open>simp add: send_msg_ok_def\<close>)
  show "wnd_bytes w' = drop (k * w_msg_len w') (wnd_bytes ?w)"
    using wnd_bytes_release [OF wok D(8) D(2,3,6) released_total [OF ok r]] D(3) by simp
qed

text \<open>The subtraction of the count from the 16-bit size.\<close>

lemma u16_minus:
  assumes "k \<le> s" "s < 65536"
  shows "u16 (s + 65536 - u16 k) = s - k"
proof -
  have "u16 (s - k + 65536) = s - k" using assms by (simp del: diff_add_assoc2 Nat.add_diff_assoc2 add: u16_def)
  moreover have "u16 k = k" "s + 65536 - k = s - k + 65536" using assms by (simp_all add: u16_id)
  ultimately show ?thesis by (simp only:)
qed

text \<open>The loop stops at the first message that is not complete.\<close>

lemma ack_loop_counts:
  fixes vec :: nat
  assumes ok: "send_wnd_ok sw" and seq: "w_seq (s_w sw) \<le> seq" "seq < w_seq (s_w sw) + w_size (s_w sw)"
  defines "w \<equiv> s_w sw" and "d \<equiv> seq - w_seq (s_w sw)" and "k \<equiv> ack_count (s_w sw) seq vec"
  shows "\<exists>msg. send_wnd_ack_loop (w_size w) w 0 ((w_msg w)[slot w d := (msg_at w d)\<lparr>m_cur_ack_vec := vec\<rparr>]) = Some (k, msg) \<and>
    released_wnd w k (ack_vec w seq vec) (w\<lparr>w_msg := msg, w_size := w_size w - k, w_seq := (w_seq w + k) mod 4096\<rparr>)"
proof -
  have wok: "wnd_ok w" using ok send_wnd_okD(1) by (simp add: w_def)
  note wd = wnd_okD [OF wok]
  have d: "d < w_size w" "d < w_cap w" using seq wd(12) by (auto simp: d_def w_def)
  let ?msg1 = "(w_msg w)[slot w d := (msg_at w d)\<lparr>m_cur_ack_vec := vec\<rparr>]"
  have msg1: "?msg1 ! slot w i = (if i < w_size w then (msg_at w i)\<lparr>m_cur_ack_vec := ack_vec w seq vec i\<rparr> else msg_at w i)"
    if "i < w_cap w" for i
    using that d wok wd(9) slot_inject_ok [OF d(2) that] by (auto simp: ack_vec_def nth_list_update d_def w_def)
  obtain k' msg where loop: "send_wnd_ack_loop (w_size w) w 0 ?msg1 = Some (k', msg)"
    and k': "k' \<le> w_size w" and len: "length msg = w_cap w"
    and full: "\<And>j. j < k' \<Longrightarrow> m_cur_ack_vec (?msg1 ! slot w j) = m_full_ack_vec (?msg1 ! slot w j)"
    and stop: "k' < w_size w \<Longrightarrow> m_cur_ack_vec (?msg1 ! slot w k') \<noteq> m_full_ack_vec (?msg1 ! slot w k')"
    and msg: "\<And>j. j < w_cap w \<Longrightarrow> msg ! slot w j = (if j < k' then fresh_msg w else ?msg1 ! slot w j)"
    using send_wnd_ack_loop [OF wok, of ?msg1 0 "w_size w"] wd(9,12) by auto
  have "k' = k"
    unfolding k_def ack_count_def w_def [symmetric]
  proof (rule length_takeWhile_upt [symmetric])
    show "ack_vec w seq vec j = m_full_ack_vec (msg_at w j)" if "j < k'" for j
      using full [OF that] msg1 [of j] that k' wd(12) by simp
    show "ack_vec w seq vec k' \<noteq> m_full_ack_vec (msg_at w k')" if "k' < w_size w"
      using stop [OF that] msg1 [of k'] that wd(12) by simp
  qed (rule k')
  then show ?thesis
    using loop k' len msg msg1 by (intro exI [of _ msg]) (auto simp: released_wnd_def)
qed

lemma send_wnd_ack_eq:
  assumes ok: "send_wnd_ok sw" and seq: "w_seq (s_w sw) \<le> seq" "seq < w_seq (s_w sw) + w_size (s_w sw)"
    and vec: "vec < 65536"
  defines "k \<equiv> ack_count (s_w sw) seq vec"
  shows "\<exists>sw'. arq__send_wnd_ack sw seq vec = Some sw' \<and> send_wnd_ok sw' \<and>
    released_wnd (s_w sw) k (ack_vec (s_w sw) seq vec) (s_w sw')"
proof -
  let ?w = "s_w sw" let ?d = "seq - w_seq (s_w sw)" let ?s = "slot (s_w sw) ?d"
  have wok: "wnd_ok ?w" using ok by (rule send_wnd_okD(1))
  note wd = wnd_okD [OF wok]
  have s: "?s < w_cap ?w" using wok by simp
  have idx: "umod seq (w_cap ?w) = Some ?s"
    using seq wd(1) by (simp add: umod_pos slot_def)
  let ?rtx = "if vec \<noteq> m_full_ack_vec (msg_at ?w ?d) then (s_rtx sw)[?s := 0] else s_rtx sw"
  obtain msg where loop: "send_wnd_ack_loop (w_size ?w) ?w 0 ((w_msg ?w)[?s := (msg_at ?w ?d)\<lparr>m_cur_ack_vec := vec\<rparr>]) = Some (k, msg)"
    and rel: "released_wnd ?w k (ack_vec ?w seq vec) (?w\<lparr>w_msg := msg, w_size := w_size ?w - k, w_seq := (w_seq ?w + k) mod 4096\<rparr>)"
      (is "released_wnd _ _ _ ?w'")
    using ack_loop_counts [OF ok seq, of vec] unfolding k_def by blast
  have kle: "k \<le> w_size ?w" by (rule released_wndD(1) [OF rel])
  have sub: "u16 (w_size ?w + 65536 - u16 k) = w_size ?w - k"
    using kle wd(3,12) by (intro u16_minus) linarith+
  have inside: "\<not> (w_size ?w = 0 \<or> w_seq ?w > seq \<or> sub32 (w_seq ?w + w_size ?w) 1 < seq)"
    using seq wd(3,11,12) by (simp add: sub32_le)
  have mem: "rd (w_msg ?w) ?s = Some (msg_at ?w ?d)"
    "wr (w_msg ?w) ?s ((msg_at ?w ?d)\<lparr>m_cur_ack_vec := vec\<rparr>) = Some ((w_msg ?w)[?s := (msg_at ?w ?d)\<lparr>m_cur_ack_vec := vec\<rparr>])"
    "(if vec \<noteq> m_full_ack_vec (msg_at ?w ?d) then wr (s_rtx sw) ?s 0 else Some (s_rtx sw)) = Some ?rtx"
    using s wd(9) send_wnd_okD(2) [OF ok] by (simp_all add: rd_ok wr_ok)
  have max: "ARQ__FRAME_MAX_SEQ_NUM + 1 = 4096" by simp
  have run: "arq__send_wnd_ack sw seq vec = Some (sw\<lparr>s_w := ?w', s_rtx := ?rtx\<rparr>)"
    by (simp only: arq__send_wnd_ack_def Let_def if_not_P [OF inside] idx mem bind.bind_lunit loop split_conv sub max)
  have "ack_vec ?w seq vec i < 65536" if "i < w_size ?w" for i
    using vec send_vecs(1) [OF ok, of i] that wd(12) by (simp add: ack_vec_def)
  note rok = released_ok [OF ok rel this]
  have "send_wnd_ok (sw\<lparr>s_w := ?w', s_rtx := ?rtx\<rparr>)"
    using rok(1,2) send_wnd_okD(2-4) [OF ok] set_update_subset_insert [of "s_rtx sw" ?s 0]
    by (auto simp: send_wnd_ok_def)
  with run rel show ?thesis by (intro exI [of _ "sw\<lparr>s_w := ?w', s_rtx := ?rtx\<rparr>"]) simp
qed

text \<open>The same in terms of the stream and the messages that stay.\<close>

lemma send_wnd_ack_releases:
  assumes ok: "send_wnd_ok sw" and seq: "w_seq (s_w sw) \<le> seq" "seq < w_seq (s_w sw) + w_size (s_w sw)"
    and vec: "vec < 65536"
  defines "k \<equiv> ack_count (s_w sw) seq vec"
  shows "\<exists>sw'. arq__send_wnd_ack sw seq vec = Some sw' \<and> send_wnd_ok sw' \<and> k \<le> w_size (s_w sw) \<and>
    w_seq (s_w sw') = (w_seq (s_w sw) + k) mod 4096 \<and> w_size (s_w sw') = w_size (s_w sw) - k \<and>
    wnd_bytes (s_w sw') = drop (k * w_msg_len (s_w sw)) (wnd_bytes (s_w sw)) \<and>
    w_cap (s_w sw') = w_cap (s_w sw) \<and> w_msg_len (s_w sw') = w_msg_len (s_w sw) \<and>
    w_seg_len (s_w sw') = w_seg_len (s_w sw) \<and>
    (\<forall>i<w_size (s_w sw'). msg_at (s_w sw') i =
       (msg_at (s_w sw) (k + i))\<lparr>m_cur_ack_vec := ack_vec (s_w sw) seq vec (k + i)\<rparr>)"
proof -
  obtain sw' where run: "arq__send_wnd_ack sw seq vec = Some sw'" "send_wnd_ok sw'"
    and rel: "released_wnd (s_w sw) k (ack_vec (s_w sw) seq vec) (s_w sw')"
    using send_wnd_ack_eq [OF assms(1-4)] unfolding k_def by blast
  have wok: "wnd_ok (s_w sw)" using ok by (rule send_wnd_okD(1))
  have "wnd_bytes (s_w sw') = drop (k * w_msg_len (s_w sw)) (wnd_bytes (s_w sw))"
    using wnd_bytes_release [OF wok released_wndD(8,2,3,6) [OF rel] released_total [OF ok rel]] .
  with run show ?thesis
    using released_wndD(1-4,8,9) [OF rel] released_inside [OF wok rel] by auto
qed

section \<open>Flushing and timers\<close>

text \<open>The number of segments that carry \<open>len\<close> bytes.\<close>

definition seg_count :: "arq__wnd_t \<Rightarrow> nat \<Rightarrow> nat" where
  "seg_count w len = (len + w_seg_len w - 1) div w_seg_len w"

lemma seg_count_bounds:
  assumes "wnd_ok w" "0 < len" "len \<le> w_msg_len w"
  shows "1 \<le> seg_count w len" "seg_count w len \<le> segs w"
    "(seg_count w len - 1) * w_seg_len w < len" "len \<le> seg_count w len * w_seg_len w"
proof -
  note wd = wnd_okD [OF assms(1)]
  let ?l = "w_seg_len w" let ?q = "(len - 1) div ?l"
  have "(len - 1 + ?l * 1) div ?l = 1 + ?q"
    by (rule div_mult_self2) (use wd(4) in simp)
  moreover have "len + ?l - 1 = len - 1 + ?l * 1" using assms(2) by simp
  ultimately have q: "seg_count w len = Suc ?q"
    by (simp only: seg_count_def)
  then show "1 \<le> seg_count w len" by simp
  have "len - 1 < segs w * ?l" using assms(2,3) wd(6) by simp
  then have "?q < segs w" using wd(4) by (simp add: less_mult_imp_div_less)
  with q show "seg_count w len \<le> segs w" by simp
  have "?q * ?l \<le> len - 1" "len - 1 < ?q * ?l + ?l"
    using div_mult_mod_eq [of "len - 1" ?l] mod_less_divisor [OF wd(4), of "len - 1"] by linarith+
  then have b: "?q * ?l < len" "len \<le> ?q * ?l + ?l" using assms(2) by linarith+
  show "(seg_count w len - 1) * ?l < len" "len \<le> seg_count w len * ?l"
    using b by (simp_all only: q diff_Suc_1 mult_Suc add.commute)
qed

lemma last_lens:
  assumes ok: "send_wnd_ok sw" and sz: "0 < w_size (s_w sw)"
  shows "0 < last_len (s_w sw)" "last_len (s_w sw) \<le> w_msg_len (s_w sw)"
  using last_len_pos [OF ok] send_place(2) [OF ok] sz by simp_all

lemma send_wnd_flush_run:
  assumes ok: "send_wnd_ok sw" and sz: "0 < w_size (s_w sw)"
  defines "w \<equiv> s_w sw"
  defines "s \<equiv> slot w (last_msg w)"
  shows "arq__send_wnd_flush sw = Some
    (sw\<lparr>s_w := w\<lparr>w_msg := (w_msg w)[s := (w_msg w ! s)\<lparr>m_full_ack_vec := 2 ^ seg_count w (last_len w) - 1\<rparr>]\<rparr>,
        s_rtx := (s_rtx sw)[s := 0]\<rparr>)"
proof -
  let ?m = "w_msg w ! s" let ?n = "seg_count w (last_len w)"
  have wok: "wnd_ok w" using ok send_wnd_okD(1) by (simp add: w_def)
  note wd = wnd_okD [OF wok] and m = last_lens [OF ok sz, folded w_def]
  note n = seg_count_bounds [OF wok m]
  have s: "s < w_cap w" using wok by (simp add: s_def)
  have "sub32 (w_seq w + w_size w) 1 = w_seq w + last_msg w"
    using wd(3,11,12) sz by (simp add: sub32_le w_def)
  then have e: "umod (sub32 (w_seq w + w_size w) 1) (w_cap w) = Some s"
    using wd(1) by (simp add: umod_pos slot_def s_def)
  have v: "u16 (2 ^ ?n - 1) = 2 ^ ?n - 1" using pow2_segs_less [OF wok n(2)] by (simp add: u16_id)
  have u: "udiv (sub32 (m_len ?m + w_seg_len w) 1) (w_seg_len w) = Some ?n"
    using m wnd_ok_msg_len(2) [OF wok] wd(4,5) by (simp add: sub32_le udiv_pos seg_count_def s_def)
  have sh: "shl_int ?n = Some (2 ^ ?n)" using n(2) wd(8) by (simp add: shl_int_ok)
  have mem: "rd (w_msg w) s = Some ?m" "wr (w_msg w) s x = Some ((w_msg w)[s := x])"
    "wr (s_rtx sw) s 0 = Some ((s_rtx sw)[s := 0])" for x
    using s wd(9) send_wnd_okD(2) [OF ok] by (simp_all add: rd_ok wr_ok w_def)
  have c: "w_size w \<noteq> 0" "m_len ?m \<noteq> 0" using sz m by (simp_all add: w_def s_def)
  show ?thesis
    by (simp only: arq__send_wnd_flush_def Let_def w_def [symmetric] c e mem u sh v bind.bind_lunit
        if_False not_False_eq_True if_True)
qed

lemma send_wnd_flush_eq:
  assumes ok: "send_wnd_ok sw" and sz: "0 < w_size (s_w sw)"
  defines "B \<equiv> w_size (s_w sw) - 1"
  shows "\<exists>sw'. arq__send_wnd_flush sw = Some sw' \<and> send_wnd_ok sw' \<and>
    (\<exists>msg. s_w sw' = (s_w sw)\<lparr>w_msg := msg\<rparr>) \<and> wnd_bytes (s_w sw') = wnd_bytes (s_w sw) \<and>
    (\<forall>i<w_cap (s_w sw). msg_at (s_w sw') i =
       (if i = B then (msg_at (s_w sw) i)\<lparr>m_full_ack_vec := 2 ^ seg_count (s_w sw) (m_len (msg_at (s_w sw) B)) - 1\<rparr>
        else msg_at (s_w sw) i) \<and>
       s_rtx sw' ! slot (s_w sw) i = (if i = B then 0 else s_rtx sw ! slot (s_w sw) i))"
proof -
  let ?w = "s_w sw" let ?s = "slot ?w B" let ?m = "msg_at ?w B" let ?n = "seg_count ?w (m_len ?m)"
  have wok: "wnd_ok ?w" using ok by (rule send_wnd_okD(1))
  note wd = wnd_okD [OF wok]
  have B: "B < w_cap ?w" "B < w_size ?w" using wd sz by (simp_all add: B_def)
  note n = seg_count_bounds [OF wok last_lens [OF ok sz], folded B_def]
  let ?v = "(2 :: nat) ^ ?n - 1"
  define msg where "msg = (w_msg ?w)[?s := ?m\<lparr>m_full_ack_vec := ?v\<rparr>]"
  let ?w' = "?w\<lparr>w_msg := msg\<rparr>" and ?rtx = "(s_rtx sw)[?s := 0]"
  let ?sw = "sw\<lparr>s_w := ?w', s_rtx := ?rtx\<rparr>"
  have run: "arq__send_wnd_flush sw = Some ?sw"
    using send_wnd_flush_run [OF ok sz] unfolding msg_def B_def .
  have nth: "msg ! slot ?w i = (if i = B then (msg_at ?w i)\<lparr>m_full_ack_vec := ?v\<rparr> else msg_at ?w i)"
    "?rtx ! slot ?w i = (if i = B then 0 else s_rtx sw ! slot ?w i)" if "i < w_cap ?w" for i
    using that wok wd(9) send_wnd_okD(2) [OF ok] slot_inject_ok [OF B(1) that] by (auto simp: nth_list_update msg_def)
  have sl: "slot ?w' i = slot ?w i" "segs ?w' = segs ?w" for i by (simp_all add: slot_def segs_def)
  have fv: "full_vec_ok ?w ?v" unfolding full_vec_ok_def by (rule bexI [of _ ?n]) (use n in auto)
  have "wnd_ok ?w'" using wok by (simp add: wnd_ok_def segs_def msg_def)
  moreover have "send_msg_ok ?w' i" if i: "i < w_cap ?w" for i
    using nth(1) [OF i] send_wnd_okD(5) [OF ok i] fv B(2) full_vec_ok_cong [OF sl(2)]
    by (cases "i = B") (simp_all add: send_msg_ok_def sl fresh_msg_def)
  ultimately have "send_wnd_ok ?sw"
    using send_wnd_okD(2-4) [OF ok] set_update_subset_insert [of "s_rtx sw" ?s 0]
    by (auto simp: send_wnd_ok_def)
  moreover have "wnd_bytes ?w' = wnd_bytes ?w"
    using nth(1) [of B] B by (simp add: wnd_bytes_def wnd_total_def wnd_start_def sl B_def)
  ultimately show ?thesis
    using run nth by (intro exI [of _ ?sw] conjI exI [of _ msg]) (simp_all add: sl)
qed

lemma send_wnd_step_eq:
  assumes ok: "send_wnd_ok sw"
  shows "\<exists>sw'. arq__send_wnd_step sw dt = Some sw' \<and> send_wnd_ok sw' \<and> s_w sw' = s_w sw \<and>
    s_tiny_on sw' = s_tiny_on sw \<and> s_tiny sw' = (if s_tiny_on sw then s_tiny sw - dt else s_tiny sw) \<and>
    (\<forall>i<w_cap (s_w sw). s_rtx sw' ! slot (s_w sw) i =
       (if i < w_size (s_w sw) then s_rtx sw ! slot (s_w sw) i - dt else s_rtx sw ! slot (s_w sw) i))"
proof -
  let ?w = "s_w sw"
  have wok: "wnd_ok ?w" using ok by (rule send_wnd_okD(1))
  note wd = wnd_okD [OF wok]
  let ?f = "\<lambda>i rtx. do { idx \<leftarrow> umod (w_seq ?w + i) (w_cap ?w); t \<leftarrow> rd rtx idx; wr rtx idx (arq__sub_sat t dt) }"
  let ?P = "\<lambda>j r. length r = w_cap ?w \<and> (\<forall>t\<in>set r. t < 2 ^ 32) \<and> (\<forall>i<w_cap ?w. r ! slot ?w i =
       (if i < j then s_rtx sw ! slot ?w i - dt else s_rtx sw ! slot ?w i))"
  have "\<exists>r. for_range 0 (w_size ?w) ?f (s_rtx sw) = Some r \<and> ?P (0 + w_size ?w) r"
  proof (rule for_range_inv)
    show "?P 0 (s_rtx sw)" using send_wnd_okD(2,3) [OF ok] by simp
    fix j r assume j: "0 \<le> j" "j < 0 + w_size ?w" and P: "?P j r"
    have s: "slot ?w j < length r" "j < w_cap ?w" using P wok j wd(12) by auto
    have e: "?f j r = Some (r[slot ?w j := r ! slot ?w j - dt])"
      using wd(1) s by (simp add: umod_pos slot_def [symmetric] rd_ok wr_ok)
    have "r ! slot ?w j - dt < 2 ^ 32"
      using P s(1) by (metis less_imp_diff_less nth_mem)
    then have "?P (Suc j) (r[slot ?w j := r ! slot ?w j - dt])"
      using P s slot_inject_ok [OF s(2)] set_update_subset_insert [of r "slot ?w j" "r ! slot ?w j - dt"]
      by (auto simp: nth_list_update less_Suc_eq)
    with e show "\<exists>t'. ?f j r = Some t' \<and> ?P (Suc j) t'" by blast
  qed
  then obtain r where r: "for_range 0 (w_size ?w) ?f (s_rtx sw) = Some r" "?P (w_size ?w) r" by auto
  let ?sw = "sw\<lparr>s_rtx := r, s_tiny := (if s_tiny_on sw then arq__sub_sat (s_tiny sw) dt else s_tiny sw)\<rparr>"
  have "arq__send_wnd_step sw dt = Some ?sw"
    by (simp only: arq__send_wnd_step_def r(1) bind.bind_lunit)
  moreover have "send_wnd_ok ?sw"
    using r(2) ok by (auto simp: send_wnd_ok_def)
  ultimately show ?thesis
    using r(2) by (intro exI [of _ ?sw]) simp
qed

lemma send_wnd_ack_outside:
  assumes "w_size (s_w sw) = 0 \<or> seq < w_seq (s_w sw) \<or> w_seq (s_w sw) + w_size (s_w sw) \<le> seq"
    and "send_wnd_ok sw"
  shows "arq__send_wnd_ack sw seq vec = Some sw"
proof -
  note wd = wnd_okD [OF send_wnd_okD(1) [OF assms(2)]]
  have "w_size (s_w sw) = 0 \<or> w_seq (s_w sw) > seq \<or> sub32 (w_seq (s_w sw) + w_size (s_w sw)) 1 < seq"
  proof (cases "w_size (s_w sw) = 0 \<or> w_seq (s_w sw) > seq")
    case False
    then have "w_seq (s_w sw) + w_size (s_w sw) \<le> seq" "w_size (s_w sw) \<noteq> 0"
      using assms(1) by auto
    then show ?thesis using wd(3,11,12) by (simp add: sub32_le)
  qed blast
  then show ?thesis by (simp only: arq__send_wnd_ack_def Let_def if_True)
qed

section \<open>Properties\<close>

text \<open>
  C12. Sending appends to the byte stream of the window: in a well-formed send window
  \<open>arq__send_wnd_send\<close> has a defined result for every buffer, takes the bytes that fit into the
  rest of the window, adds exactly these to the stream (across the end of the ring as well), and
  leaves the window well formed with its sequence number unchanged.
\<close>

theorem send_appends:
  assumes "send_wnd_ok sw" "len \<le> length data" "tiny < 2 ^ 32"
  defines "n \<equiv> min len (w_cap (s_w sw) * w_msg_len (s_w sw) - length (wnd_bytes (s_w sw)))"
  shows "\<exists>sw'. arq__send_wnd_send sw data len tiny = Some (n, sw') \<and> send_wnd_ok sw' \<and>
    wnd_bytes (s_w sw') = wnd_bytes (s_w sw) @ take n data \<and> w_seq (s_w sw') = w_seq (s_w sw)"
  using send_wnd_send_appends [OF assms(1-3)] by (auto simp: n_def send_take_def)

text \<open>A window of two messages of two segments of two bytes, for the concrete instances.\<close>

definition demo_wnd :: arq__wnd_t where
  "demo_wnd = \<lparr>w_msg = replicate 2 \<lparr>m_len = 0, m_cur_ack_vec = 0, m_full_ack_vec = 3\<rparr>,
     w_buf = replicate 8 0, w_seq = 0, w_cap = 2, w_size = 0, w_msg_len = 4, w_seg_len = 2,
     w_full_ack_vec = 3\<rparr>"

definition demo_send_wnd :: arq__send_wnd_t where
  "demo_send_wnd = \<lparr>s_w = demo_wnd\<lparr>w_msg := [\<lparr>m_len = 4, m_cur_ack_vec = 1, m_full_ack_vec = 3\<rparr>,
        \<lparr>m_len = 3, m_cur_ack_vec = 0, m_full_ack_vec = 3\<rparr>],
     w_buf := [11, 12, 13, 14, 15, 16, 17, 0], w_size := 2, w_seq := 6\<rparr>,
     s_rtx = [5, 9], s_tiny = 7, s_tiny_on = True\<rparr>"

lemma less_2_cases: "i < (2 :: nat) \<Longrightarrow> i = 0 \<or> i = 1"
  by linarith

lemma demo_send_wnd_ok: "send_wnd_ok demo_send_wnd"
proof -
  have "full_vec_ok (s_w demo_send_wnd) 3"
    unfolding full_vec_ok_def
    by (rule bexI [of _ 2]) (simp_all add: segs_def demo_send_wnd_def demo_wnd_def)
  then show ?thesis
    by (auto simp: send_wnd_ok_def wnd_ok_def segs_def send_msg_ok_def slot_def demo_send_wnd_def
        demo_wnd_def dest!: less_2_cases)
qed

theorem send_appends_witness:
  "\<exists>sw'. arq__send_wnd_send demo_send_wnd [21, 22, 23] 3 50 = Some (1, sw') \<and> send_wnd_ok sw' \<and>
     wnd_bytes (s_w sw') = [11, 12, 13, 14, 15, 16, 17, 21]"
proof -
  have "wnd_bytes (s_w demo_send_wnd) = [11, 12, 13, 14, 15, 16, 17]"
    "w_cap (s_w demo_send_wnd) * w_msg_len (s_w demo_send_wnd) = 8"
    by code_simp+
  then show ?thesis
    using send_appends [OF demo_send_wnd_ok, of 3 "[21, 22, 23]" 50] by auto
qed

text \<open>
  C13. Acknowledgements release whole messages in order: an acknowledgement of a message inside
  the window stores its vector, and removes exactly the leading messages whose vector is then
  complete. The byte stream loses exactly their bytes, the base sequence number advances by
  their number modulo 4096, and the messages behind them stay as they are.
\<close>

theorem ack_releases:
  assumes "send_wnd_ok sw" "w_seq (s_w sw) \<le> seq" "seq < w_seq (s_w sw) + w_size (s_w sw)"
    and "vec < 65536"
  defines "k \<equiv> ack_count (s_w sw) seq vec"
  shows "\<exists>sw'. arq__send_wnd_ack sw seq vec = Some sw' \<and> send_wnd_ok sw' \<and>
    w_seq (s_w sw') = (w_seq (s_w sw) + k) mod 4096 \<and> w_size (s_w sw') = w_size (s_w sw) - k \<and>
    wnd_bytes (s_w sw') = drop (k * w_msg_len (s_w sw)) (wnd_bytes (s_w sw)) \<and>
    (\<forall>i<w_size (s_w sw) - k. msg_at (s_w sw') i =
       (msg_at (s_w sw) (k + i))\<lparr>m_cur_ack_vec := ack_vec (s_w sw) seq vec (k + i)\<rparr>)"
proof -
  obtain sw' where "arq__send_wnd_ack sw seq vec = Some sw' \<and> send_wnd_ok sw' \<and> k \<le> w_size (s_w sw) \<and>
    w_seq (s_w sw') = (w_seq (s_w sw) + k) mod 4096 \<and> w_size (s_w sw') = w_size (s_w sw) - k \<and>
    wnd_bytes (s_w sw') = drop (k * w_msg_len (s_w sw)) (wnd_bytes (s_w sw)) \<and>
    w_cap (s_w sw') = w_cap (s_w sw) \<and> w_msg_len (s_w sw') = w_msg_len (s_w sw) \<and>
    w_seg_len (s_w sw') = w_seg_len (s_w sw) \<and>
    (\<forall>i<w_size (s_w sw'). msg_at (s_w sw') i =
       (msg_at (s_w sw) (k + i))\<lparr>m_cur_ack_vec := ack_vec (s_w sw) seq vec (k + i)\<rparr>)"
    using send_wnd_ack_releases [OF assms(1-4), folded k_def] by blast
  then show ?thesis
    by (intro exI [of _ sw']) metis
qed

theorem ack_releases_witness:
  "\<exists>sw'. arq__send_wnd_ack demo_send_wnd 6 3 = Some sw' \<and> send_wnd_ok sw' \<and>
     w_seq (s_w sw') = 7 \<and> w_size (s_w sw') = 1 \<and> wnd_bytes (s_w sw') = [15, 16, 17]"
proof -
  have "ack_count (s_w demo_send_wnd) 6 3 = 1" "w_seq (s_w demo_send_wnd) = 6"
    "w_size (s_w demo_send_wnd) = 2" "drop (1 * w_msg_len (s_w demo_send_wnd)) (wnd_bytes (s_w demo_send_wnd)) = [15, 16, 17]"
    by code_simp+
  then show ?thesis
    using ack_releases [OF demo_send_wnd_ok, of 6 3] by auto
qed

text \<open>
  C25. Flushing sends the last message as it is: its completion vector shrinks to the segments
  that its bytes occupy, its retransmission timer is due at once, and no other message, no
  timer and no byte of the window changes.
\<close>

theorem flush_sends_partial_message:
  assumes "send_wnd_ok sw" "0 < w_size (s_w sw)"
  defines "B \<equiv> w_size (s_w sw) - 1"
  defines "len \<equiv> m_len (msg_at (s_w sw) B)"
  shows "\<exists>sw'. arq__send_wnd_flush sw = Some sw' \<and> send_wnd_ok sw' \<and>
    wnd_bytes (s_w sw') = wnd_bytes (s_w sw) \<and> w_size (s_w sw') = w_size (s_w sw) \<and>
    w_seq (s_w sw') = w_seq (s_w sw) \<and>
    (\<forall>i<w_cap (s_w sw). msg_at (s_w sw') i =
       (if i = B then (msg_at (s_w sw) i)\<lparr>m_full_ack_vec := 2 ^ seg_count (s_w sw) len - 1\<rparr>
        else msg_at (s_w sw) i) \<and>
       s_rtx sw' ! slot (s_w sw) i = (if i = B then 0 else s_rtx sw ! slot (s_w sw) i))"
  using send_wnd_flush_eq [OF assms(1,2), folded B_def, folded len_def] by auto

theorem flush_sends_partial_message_witness:
  "\<exists>sw'. arq__send_wnd_flush demo_send_wnd = Some sw' \<and> send_wnd_ok sw' \<and> w_size (s_w sw') = 2"
  using flush_sends_partial_message [OF demo_send_wnd_ok]
  by (auto simp: demo_send_wnd_def demo_wnd_def)

end
