(* ===== verification/Arq_Send_Ptr.thy ===== *)
theory Arq_Send_Ptr imports Arq_Send_Wnd begin

text \<open>
  The cursor that walks over the segments to be sent (\<open>arq__send_wnd_ptr_t\<close>) and the frame buffer
  handed to the user (\<open>arq__send_frame_t\<close>) of \<open>src/arq.h\<close>. \<open>arq__send_wnd_ptr_next\<close> moves to the
  next segment of the current message that is not acknowledged, and behind the last one to the
  first other message of the window that is due.
\<close>

section \<open>State and operations\<close>

record arq__send_wnd_ptr_t =
  p_seq :: nat
  p_seg :: nat
  p_valid :: bool

datatype arq__send_wnd_ptr_next_result_t =
    ARQ__SEND_WND_PTR_NEXT_INSIDE_MSG
  | ARQ__SEND_WND_PTR_NEXT_COMPLETED_MSG

datatype arq__send_frame_state_t =
    ARQ__SEND_FRAME_STATE_FREE
  | ARQ__SEND_FRAME_STATE_HELD
  | ARQ__SEND_FRAME_STATE_RELEASED

record arq__send_frame_t =
  sf_buf :: "byte list"
  sf_state :: arq__send_frame_state_t
  sf_cap :: nat
  sf_len :: nat

definition arq__send_wnd_ptr_rst :: "arq__send_wnd_ptr_t \<Rightarrow> arq__send_wnd_ptr_t" where
  "arq__send_wnd_ptr_rst p = p\<lparr>p_valid := False, p_seq := 0, p_seg := 0\<rparr>"

definition arq__send_frame_init :: "arq__send_frame_t \<Rightarrow> nat \<Rightarrow> arq__send_frame_t" where
  "arq__send_frame_init f cap = f\<lparr>sf_cap := u16 cap\<rparr>"

definition arq__send_frame_rst :: "arq__send_frame_t \<Rightarrow> arq__send_frame_t" where
  "arq__send_frame_rst f = f\<lparr>sf_len := 0, sf_state := ARQ__SEND_FRAME_STATE_FREE\<rparr>"

primrec send_wnd_ptr_next_loop ::
  "nat \<Rightarrow> nat \<Rightarrow> arq__send_wnd_ptr_t \<Rightarrow> arq__send_wnd_t \<Rightarrow> arq__send_wnd_ptr_t option" where
  "send_wnd_ptr_next_loop 0 i p sw = Some (p\<lparr>p_valid := False\<rparr>)"
| "send_wnd_ptr_next_loop (Suc n) i p sw =
     (let seq = u32 (i + w_seq (s_w sw)) mod (ARQ__FRAME_MAX_SEQ_NUM + 1)
      in if p_valid p \<and> p_seq p = seq then send_wnd_ptr_next_loop n (Suc i) p sw
         else do {
           k \<leftarrow> umod seq (w_cap (s_w sw));
           m \<leftarrow> rd (w_msg (s_w sw)) k;
           t \<leftarrow> rd (s_rtx sw) k;
           if t = 0 \<and> m_len m > 0 \<and> m_cur_ack_vec m < m_full_ack_vec m
           then do {
             c \<leftarrow> arq__ctz (not32 (m_cur_ack_vec m));
             Some (p\<lparr>p_seq := u16 seq, p_valid := True, p_seg := u16 c\<rparr>)
           }
           else send_wnd_ptr_next_loop n (Suc i) p sw
         })"

definition arq__send_wnd_ptr_next :: "arq__send_wnd_ptr_t \<Rightarrow> arq__send_wnd_t \<Rightarrow>
  (arq__send_wnd_ptr_next_result_t \<times> arq__send_wnd_ptr_t) option" where
  "arq__send_wnd_ptr_next p sw =
     (if p_valid p
      then do {
        k \<leftarrow> umod (p_seq p) (w_cap (s_w sw));
        m \<leftarrow> rd (w_msg (s_w sw)) k;
        rem \<leftarrow> shr_unsigned (m_cur_ack_vec m) (p_seg p + 1);
        c \<leftarrow> arq__ctz (not32 rem);
        let p' = p\<lparr>p_seg := u16 (p_seg p + u16 (1 + c))\<rparr>;
        v \<leftarrow> shl_int (p_seg p');
        if v - 1 < m_full_ack_vec m
        then Some (ARQ__SEND_WND_PTR_NEXT_INSIDE_MSG, p')
        else do {
          p'' \<leftarrow> send_wnd_ptr_next_loop (w_size (s_w sw)) 0 p' sw;
          Some (ARQ__SEND_WND_PTR_NEXT_COMPLETED_MSG, p'')
        }
      }
      else do {
        p'' \<leftarrow> send_wnd_ptr_next_loop (w_size (s_w sw)) 0 p sw;
        Some (ARQ__SEND_WND_PTR_NEXT_INSIDE_MSG, p'')
      })"

section \<open>Clear bits of acknowledgement vectors\<close>

text \<open>The first clear bit behind position \<open>s\<close>.\<close>

definition next_clear :: "nat \<Rightarrow> nat \<Rightarrow> nat" where
  "next_clear v s = Suc s + lowest_clear (drop_bit (Suc s) v)"

lemma lowest_clear_bits:
  assumes "v < 2 ^ 31"
  shows "\<not> bit v (lowest_clear v)" "j < lowest_clear v \<Longrightarrow> bit v j"
  using arq__ctz_not32 [OF assms] by auto

lemma lowest_clear_less:
  assumes "v < 2 ^ 16"
  shows "lowest_clear v \<le> 16"
proof (rule ccontr)
  assume "\<not> lowest_clear v \<le> 16"
  then have "bit v 16" using lowest_clear_bits(2) [of v 16] assms by simp
  then show False using bit_nat_less [OF _ assms] by blast
qed

lemma drop_bit_less: "(v :: nat) < 2 ^ k \<Longrightarrow> drop_bit n v < 2 ^ k"
  by (metis div_le_dividend drop_bit_eq_div order.strict_trans1)

lemma next_clear_props:
  assumes v: "v < 2 ^ 16"
  shows "\<not> bit v (next_clear v s)" "s < j \<Longrightarrow> j < next_clear v s \<Longrightarrow> bit v j" "s < next_clear v s"
    "next_clear v s \<le> max (Suc s) 16"
proof -
  let ?d = "drop_bit (Suc s) v"
  have d: "?d < 2 ^ 31"
    using drop_bit_less [OF v, of "Suc s"] by simp
  show "\<not> bit v (next_clear v s)"
    using lowest_clear_bits(1) [OF d] by (simp add: bit_drop_bit_eq next_clear_def)
  show j: "bit v j" if "s < j" "j < next_clear v s" for j
  proof -
    have "j - Suc s < lowest_clear ?d" using that by (simp add: next_clear_def)
    then have "bit ?d (j - Suc s)" by (rule lowest_clear_bits(2) [OF d])
    then show ?thesis using that(1) by (simp add: bit_drop_bit_eq)
  qed
  show "s < next_clear v s" by (simp add: next_clear_def)
  show "next_clear v s \<le> max (Suc s) 16"
  proof (rule ccontr)
    assume a: "\<not> next_clear v s \<le> max (Suc s) 16"
    then have "bit v (next_clear v s - 1)" by (intro j) auto
    then have "next_clear v s - 1 < 16" using bit_nat_less [OF _ v] by blast
    with a show False by simp
  qed
qed

lemma vec_complete_iff:
  assumes "\<And>j. j < n \<Longrightarrow> bit (v :: nat) j"
  shows "2 ^ n - 1 \<le> v"
proof -
  have "take_bit n v = mask n"
    by (rule bit_eqI) (use assms in \<open>auto simp: bit_take_bit_iff bit_mask_iff\<close>)
  then show ?thesis
    by (metis mask_eq_exp_minus_1 take_bit_nat_less_eq_self)
qed

lemma lowest_clear_incomplete:
  assumes "v < 2 ^ n - 1" "n \<le> 16"
  shows "lowest_clear v < n"
proof (rule ccontr)
  assume a: "\<not> lowest_clear v < n"
  have "(2 :: nat) ^ n \<le> 2 ^ 16" using assms(2) by (intro power_increasing) auto
  with assms(1) have "v < 2 ^ 31" by simp
  then have "2 ^ n - 1 \<le> v"
    using a lowest_clear_bits(2) by (intro vec_complete_iff) auto
  with assms(1) show False by simp
qed

section \<open>What the cursor does\<close>

definition seq_at :: "arq__wnd_t \<Rightarrow> nat \<Rightarrow> nat" where
  "seq_at w i = (w_seq w + i) mod 4096"

text \<open>A message is due when its timer ran out and some of its segments are not acknowledged.\<close>

definition send_due :: "arq__send_wnd_t \<Rightarrow> nat \<Rightarrow> bool" where
  "send_due sw i \<longleftrightarrow> s_rtx sw ! slot (s_w sw) i = 0 \<and> 0 < m_len (msg_at (s_w sw) i) \<and>
     m_cur_ack_vec (msg_at (s_w sw) i) < m_full_ack_vec (msg_at (s_w sw) i)"

definition other_due :: "arq__send_wnd_t \<Rightarrow> arq__send_wnd_ptr_t \<Rightarrow> nat \<Rightarrow> bool" where
  "other_due sw p i \<longleftrightarrow> send_due sw i \<and> \<not> (p_valid p \<and> p_seq p = seq_at (s_w sw) i)"

definition ptr_to_due :: "arq__send_wnd_t \<Rightarrow> arq__send_wnd_ptr_t \<Rightarrow> arq__send_wnd_ptr_t" where
  "ptr_to_due sw p =
     (case find (other_due sw p) [0..<w_size (s_w sw)] of
        None \<Rightarrow> p\<lparr>p_valid := False\<rparr>
      | Some i \<Rightarrow> p\<lparr>p_seq := seq_at (s_w sw) i, p_valid := True,
                   p_seg := lowest_clear (m_cur_ack_vec (msg_at (s_w sw) i))\<rparr>)"

text \<open>A cursor in use names a sequence number and a segment that can exist.\<close>

definition ptr_ok :: "arq__send_wnd_ptr_t \<Rightarrow> bool" where
  "ptr_ok p \<longleftrightarrow> (p_valid p \<longrightarrow> p_seq p < 4096 \<and> p_seg p < 12)"

lemma seq_at_slot: "wnd_ok w \<Longrightarrow> seq_at w i mod w_cap w = slot w i"
  by (simp add: seq_at_def slot_def mod_seq_mod_cap wnd_ok_def)

lemma send_due_segs:
  assumes ok: "send_wnd_ok sw" and i: "i < w_cap (s_w sw)" and due: "send_due sw i"
  obtains n where "n \<le> segs (s_w sw)" "m_full_ack_vec (msg_at (s_w sw) i) = 2 ^ n - 1"
    "lowest_clear (m_cur_ack_vec (msg_at (s_w sw) i)) < n"
proof -
  obtain n where n: "n \<le> segs (s_w sw)" "m_full_ack_vec (msg_at (s_w sw) i) = 2 ^ n - 1"
    using send_vecs(2) [OF ok i] full_vec_okE by metis
  have "n \<le> 16" using n(1) wnd_okD(8) [OF send_wnd_okD(1) [OF ok]] by simp
  with n due have "lowest_clear (m_cur_ack_vec (msg_at (s_w sw) i)) < n"
    by (intro lowest_clear_incomplete) (simp_all add: send_due_def)
  with n show ?thesis by (rule that)
qed

lemma send_wnd_ptr_next_loop:
  assumes ok: "send_wnd_ok sw" and "i + n \<le> w_cap (s_w sw)"
  shows "send_wnd_ptr_next_loop n i p sw = Some
    (case find (other_due sw p) [i..<i + n] of
        None \<Rightarrow> p\<lparr>p_valid := False\<rparr>
      | Some i \<Rightarrow> p\<lparr>p_seq := seq_at (s_w sw) i, p_valid := True,
                   p_seg := lowest_clear (m_cur_ack_vec (msg_at (s_w sw) i))\<rparr>)"
  using assms(2)
proof (induction n arbitrary: i)
  case (Suc n)
  let ?w = "s_w sw"
  have wok: "wnd_ok ?w" using ok by (rule send_wnd_okD(1))
  note wd = wnd_okD [OF wok]
  have i: "i < w_cap ?w" using Suc.prems by simp
  have seq: "u32 (i + w_seq ?w) mod (ARQ__FRAME_MAX_SEQ_NUM + 1) = seq_at ?w i"
    using wd(3,11) i by (simp add: u32_id seq_at_def add.commute)
  have mem: "umod (seq_at ?w i) (w_cap ?w) = Some (slot ?w i)" "rd (w_msg ?w) (slot ?w i) = Some (msg_at ?w i)"
    "rd (s_rtx sw) (slot ?w i) = Some (s_rtx sw ! slot ?w i)"
    using wd(1) wok send_wnd_okD(2) [OF ok] by (simp_all add: umod_pos seq_at_slot rd_ok)
  have upt: "[i..<i + Suc n] = i # [Suc i..<Suc i + n]" by (simp add: upt_conv_Cons)
  have IH: "send_wnd_ptr_next_loop n (Suc i) p sw = Some
    (case find (other_due sw p) [Suc i..<Suc i + n] of
        None \<Rightarrow> p\<lparr>p_valid := False\<rparr>
      | Some i \<Rightarrow> p\<lparr>p_seq := seq_at (s_w sw) i, p_valid := True,
                   p_seg := lowest_clear (m_cur_ack_vec (msg_at (s_w sw) i))\<rparr>)"
    by (rule Suc.IH) (use Suc.prems in simp)
  let ?cur = "m_cur_ack_vec (msg_at ?w i)"
  have "?cur < 2 ^ 31" using send_vecs(1) [OF ok i] by simp
  note ctz = arq__ctz_not32 [OF this]
  have u: "u16 (seq_at ?w i) = seq_at ?w i" "u16 (lowest_clear ?cur) = lowest_clear ?cur"
    using ctz(4) by (simp_all add: u16_id seq_at_def)
  show ?case
  proof (cases "p_valid p \<and> p_seq p = seq_at ?w i")
    case True
    then have "\<not> other_due sw p i" by (simp add: other_due_def)
    with True show ?thesis
      by (simp only: send_wnd_ptr_next_loop.simps Let_def seq if_True IH upt find.simps if_False simp_thms)
  next
    case False
    note skip = if_not_P [OF False]
    show ?thesis
    proof (cases "send_due sw i")
      case True
      then have "other_due sw p i" using False by (simp add: other_due_def)
      moreover have "s_rtx sw ! slot ?w i = 0 \<and> m_len (msg_at ?w i) > 0 \<and>
          ?cur < m_full_ack_vec (msg_at ?w i)"
        using True by (simp add: send_due_def)
      ultimately show ?thesis
        by (simp only: send_wnd_ptr_next_loop.simps Let_def seq skip upt find.simps mem ctz(1) u
            bind.bind_lunit if_True option.case simp_thms)
    next
      case nd: False
      then have "\<not> other_due sw p i" by (simp add: other_due_def)
      moreover have "\<not> (s_rtx sw ! slot ?w i = 0 \<and> m_len (msg_at ?w i) > 0 \<and>
          ?cur < m_full_ack_vec (msg_at ?w i))"
        using nd by (simp add: send_due_def)
      ultimately show ?thesis
        by (simp only: send_wnd_ptr_next_loop.simps Let_def seq skip IH upt find.simps mem
            bind.bind_lunit if_False)
    qed
  qed
qed simp

lemma slot_vecs:
  assumes ok: "send_wnd_ok sw" and k: "k < w_cap (s_w sw)"
  shows "m_cur_ack_vec (w_msg (s_w sw) ! k) < 65536" "full_vec_ok (s_w sw) (m_full_ack_vec (w_msg (s_w sw) ! k))"
proof -
  obtain i where "i < w_cap (s_w sw)" "slot (s_w sw) i = k"
    using slot_surj [OF send_wnd_okD(1) [OF ok] k] by blast
  then show "m_cur_ack_vec (w_msg (s_w sw) ! k) < 65536"
    "full_vec_ok (s_w sw) (m_full_ack_vec (w_msg (s_w sw) ! k))"
    using send_vecs [OF ok, of i] by auto
qed

text \<open>A step of the cursor: the next clear bit of the current message, or the next due message.\<close>

definition ptr_advance :: "arq__send_wnd_t \<Rightarrow> arq__send_wnd_ptr_t \<Rightarrow> arq__send_wnd_ptr_t" where
  "ptr_advance sw p = p\<lparr>p_seg :=
     next_clear (m_cur_ack_vec (w_msg (s_w sw) ! (p_seq p mod w_cap (s_w sw)))) (p_seg p)\<rparr>"

definition ptr_next_spec :: "arq__send_wnd_t \<Rightarrow> arq__send_wnd_ptr_t \<Rightarrow>
  arq__send_wnd_ptr_next_result_t \<times> arq__send_wnd_ptr_t" where
  "ptr_next_spec sw p =
     (if \<not> p_valid p then (ARQ__SEND_WND_PTR_NEXT_INSIDE_MSG, ptr_to_due sw p)
      else if 2 ^ p_seg (ptr_advance sw p) - 1
              < m_full_ack_vec (w_msg (s_w sw) ! (p_seq p mod w_cap (s_w sw)))
      then (ARQ__SEND_WND_PTR_NEXT_INSIDE_MSG, ptr_advance sw p)
      else (ARQ__SEND_WND_PTR_NEXT_COMPLETED_MSG, ptr_to_due sw (ptr_advance sw p)))"

lemma send_wnd_ptr_next_eq:
  assumes ok: "send_wnd_ok sw" and p: "ptr_ok p"
  shows "arq__send_wnd_ptr_next p sw = Some (ptr_next_spec sw p)"
proof -
  let ?w = "s_w sw"
  have wok: "wnd_ok ?w" using ok by (rule send_wnd_okD(1))
  note wd = wnd_okD [OF wok]
  have loop: "send_wnd_ptr_next_loop (w_size ?w) 0 q sw = Some (ptr_to_due sw q)" for q
    using send_wnd_ptr_next_loop [OF ok, of 0 "w_size ?w" q] wd(12) by (simp add: ptr_to_due_def)
  show ?thesis
  proof (cases "p_valid p")
    case False
    then show ?thesis by (simp add: arq__send_wnd_ptr_next_def ptr_next_spec_def loop)
  next
    case True
    let ?k = "p_seq p mod w_cap ?w"
    let ?m = "w_msg ?w ! ?k"
    let ?d = "drop_bit (p_seg p + 1) (m_cur_ack_vec ?m)"
    have k: "?k < w_cap ?w" using wd(1) by simp
    note v = slot_vecs [OF ok k]
    have seg: "p_seg p < 12" using p True by (simp add: ptr_ok_def)
    have d: "?d < 2 ^ 31" using drop_bit_less [of "m_cur_ack_vec ?m" 16 "p_seg p + 1"] v(1) by simp
    note ctz = arq__ctz_not32(1) [OF d]
    have nc: "p_seg p + (1 + lowest_clear ?d) = next_clear (m_cur_ack_vec ?m) (p_seg p)"
      by (simp add: next_clear_def)
    have le: "next_clear (m_cur_ack_vec ?m) (p_seg p) \<le> 16"
      using next_clear_props(4) [of "m_cur_ack_vec ?m" "p_seg p"] v(1) seg by simp
    have "1 + lowest_clear ?d \<le> 16" using le nc by linarith
    then have u: "u16 (p_seg p + u16 (1 + lowest_clear ?d)) = next_clear (m_cur_ack_vec ?m) (p_seg p)"
      using le nc by (simp add: u16_id)
    have sh: "shl_int (next_clear (m_cur_ack_vec ?m) (p_seg p)) = Some (2 ^ next_clear (m_cur_ack_vec ?m) (p_seg p))"
      using le by (simp add: shl_int_ok)
    have mem: "umod (p_seq p) (w_cap ?w) = Some ?k" "rd (w_msg ?w) ?k = Some ?m"
      "shr_unsigned (m_cur_ack_vec ?m) (p_seg p + 1) = Some ?d"
      using k wd(1,9) seg by (simp_all add: umod_pos rd_ok shr_unsigned_ok)
    have sel: "p_seg (p\<lparr>p_seg := x\<rparr>) = x" for x by simp
    show ?thesis
      using True
      by (simp only: arq__send_wnd_ptr_next_def ptr_next_spec_def ptr_advance_def if_True mem ctz
          bind.bind_lunit Let_def u sel sh loop not_True_eq_False if_False if_distrib [of Some])
  qed
qed

lemma ptr_to_due_ok:
  assumes ok: "send_wnd_ok sw" shows "ptr_ok (ptr_to_due sw p)"
proof (cases "find (other_due sw p) [0..<w_size (s_w sw)]")
  case None
  then show ?thesis by (simp add: ptr_to_due_def ptr_ok_def)
next
  case (Some i)
  then have i: "i < w_size (s_w sw)" "send_due sw i"
    by (auto simp: find_Some_iff other_due_def)
  note wd = wnd_okD [OF send_wnd_okD(1) [OF ok]]
  have "i < w_cap (s_w sw)" using i wd(12) by simp
  then have "lowest_clear (m_cur_ack_vec (msg_at (s_w sw) i)) < 12"
    using send_due_segs [OF ok _ i(2)] wd(8) by (metis le_trans less_le_trans)
  with Some show ?thesis by (simp add: ptr_to_due_def ptr_ok_def seq_at_def)
qed

lemma exp_minus_1_less_iff: "(2 :: nat) ^ a - 1 < 2 ^ b - 1 \<longleftrightarrow> a < b"
proof -
  have "(1 :: nat) \<le> 2 ^ a" "(1 :: nat) \<le> 2 ^ b" by simp_all
  then have "(2 :: nat) ^ a - 1 < 2 ^ b - 1 \<longleftrightarrow> (2 :: nat) ^ a < 2 ^ b" by linarith
  then show ?thesis by simp
qed

lemma ptr_next_spec_ok:
  assumes ok: "send_wnd_ok sw" and p: "ptr_ok p"
  shows "ptr_ok (snd (ptr_next_spec sw p))"
proof (cases "p_valid p \<and> 2 ^ p_seg (ptr_advance sw p) - 1
    < m_full_ack_vec (w_msg (s_w sw) ! (p_seq p mod w_cap (s_w sw)))")
  case True
  note wd = wnd_okD [OF send_wnd_okD(1) [OF ok]]
  have "p_seq p mod w_cap (s_w sw) < w_cap (s_w sw)" using wd(1) by simp
  then obtain n where n: "n \<le> segs (s_w sw)"
    "m_full_ack_vec (w_msg (s_w sw) ! (p_seq p mod w_cap (s_w sw))) = 2 ^ n - 1"
    using slot_vecs(2) [OF ok] full_vec_okE by metis
  then have "p_seg (ptr_advance sw p) < n"
    using True exp_minus_1_less_iff by metis
  then show ?thesis
    using True p n wd(8) by (simp add: ptr_next_spec_def ptr_ok_def) (simp add: ptr_advance_def)
qed (auto simp: ptr_next_spec_def intro: ptr_to_due_ok [OF ok])

section \<open>Properties\<close>

text \<open>
  The segments a user of the cursor sends for one message: the current segment, and then the one
  after each call that stays inside the message.
\<close>

fun segs_of_pass :: "nat \<Rightarrow> arq__send_wnd_ptr_t \<Rightarrow> arq__send_wnd_t \<Rightarrow> nat list" where
  "segs_of_pass 0 p sw = []"
| "segs_of_pass (Suc fuel) p sw = p_seg p #
     (case arq__send_wnd_ptr_next p sw of
        Some (ARQ__SEND_WND_PTR_NEXT_INSIDE_MSG, p') \<Rightarrow> segs_of_pass fuel p' sw
      | _ \<Rightarrow> [])"

definition unacked :: "arq__msg_t \<Rightarrow> nat \<Rightarrow> nat list" where
  "unacked m n = filter (\<lambda>j. \<not> bit (m_cur_ack_vec m) j) [0..<n]"

lemma filter_upt_skip:
  assumes "a \<le> b" "b \<le> n" "\<And>j. a \<le> j \<Longrightarrow> j < b \<Longrightarrow> \<not> P j"
  shows "filter P [a..<n] = filter P [b..<n]"
proof -
  have "[a..<n] = [a..<b] @ [b..<n]"
    using assms(1,2) by (metis le_add_diff_inverse upt_add_eq_append)
  moreover have "filter P [a..<b] = []" using assms(3) by (auto simp: filter_empty_conv)
  ultimately show ?thesis by simp
qed

lemma segs_of_pass_from:
  assumes ok: "send_wnd_ok sw" and i: "i < w_cap (s_w sw)"
    and vec: "m_full_ack_vec (msg_at (s_w sw) i) = 2 ^ n - 1" "n \<le> segs (s_w sw)"
    and p: "p_valid p" "p_seq p = seq_at (s_w sw) i" "p_seg p < n"
    and clear: "\<not> bit (m_cur_ack_vec (msg_at (s_w sw) i)) (p_seg p)" and fuel: "n \<le> p_seg p + fuel"
  shows "segs_of_pass fuel p sw =
    filter (\<lambda>j. \<not> bit (m_cur_ack_vec (msg_at (s_w sw) i)) j) [p_seg p..<n]"
  using p clear fuel
proof (induction fuel arbitrary: p)
  case (Suc fuel)
  let ?w = "s_w sw" let ?v = "m_cur_ack_vec (msg_at (s_w sw) i)" let ?s = "next_clear ?v (p_seg p)"
  note wd = wnd_okD [OF send_wnd_okD(1) [OF ok]]
  have v: "?v < 2 ^ 16" using send_vecs(1) [OF ok i] by simp
  note nc = next_clear_props [OF v]
  have sl: "p_seq p mod w_cap ?w = slot ?w i"
    using Suc.prems(2) seq_at_slot [OF send_wnd_okD(1) [OF ok]] by simp
  have ok_p: "ptr_ok p" using Suc.prems vec(2) wd(8) by (simp add: ptr_ok_def seq_at_def)
  have adv: "ptr_advance sw p = p\<lparr>p_seg := ?s\<rparr>" by (simp add: ptr_advance_def sl)
  have cond: "2 ^ p_seg (ptr_advance sw p) - 1 < m_full_ack_vec (w_msg ?w ! (p_seq p mod w_cap ?w)) \<longleftrightarrow> ?s < n"
    by (simp only: sl vec(1) exp_minus_1_less_iff) (simp add: adv)
  have hd: "filter (\<lambda>j. \<not> bit ?v j) [p_seg p..<n] = p_seg p # filter (\<lambda>j. \<not> bit ?v j) [Suc (p_seg p)..<n]"
    using Suc.prems(3,4) by (simp add: upt_conv_Cons)
  show ?case
  proof (cases "?s < n")
    case True
    have "arq__send_wnd_ptr_next p sw = Some (ARQ__SEND_WND_PTR_NEXT_INSIDE_MSG, p\<lparr>p_seg := ?s\<rparr>)"
      using True Suc.prems(1) by (simp only: send_wnd_ptr_next_eq [OF ok ok_p] ptr_next_spec_def cond) (simp add: adv)
    moreover have "segs_of_pass fuel (p\<lparr>p_seg := ?s\<rparr>) sw = filter (\<lambda>j. \<not> bit ?v j) [?s..<n]"
      using Suc.IH [of "p\<lparr>p_seg := ?s\<rparr>"] Suc.prems True nc(1) nc(3) [of "p_seg p"] by simp
    moreover have "filter (\<lambda>j. \<not> bit ?v j) [Suc (p_seg p)..<n] = filter (\<lambda>j. \<not> bit ?v j) [?s..<n]"
      by (rule filter_upt_skip) (use nc(2,3) True in \<open>auto simp: Suc_le_eq\<close>)
    ultimately show ?thesis by (simp add: hd)
  next
    case False
    have "arq__send_wnd_ptr_next p sw =
        Some (ARQ__SEND_WND_PTR_NEXT_COMPLETED_MSG, ptr_to_due sw (ptr_advance sw p))"
      using False Suc.prems(1) by (simp only: send_wnd_ptr_next_eq [OF ok ok_p] ptr_next_spec_def cond) simp
    moreover have "filter (\<lambda>j. \<not> bit ?v j) [Suc (p_seg p)..<n] = filter (\<lambda>j. \<not> bit ?v j) [n..<n]"
    proof (rule filter_upt_skip)
      fix j assume "Suc (p_seg p) \<le> j" "j < n"
      then have "bit ?v j" using False by (intro nc(2) [of "p_seg p"]) linarith+
      then show "\<not> \<not> bit ?v j" by simp
    qed (use Suc.prems(3) in auto)
    ultimately show ?thesis by (simp add: hd)
  qed
qed simp

text \<open>
  C14. A pass over a due message sends exactly the segments that are not acknowledged, each once
  and in ascending order: from the position the cursor takes on entering the message, following
  it as long as it stays inside yields the clear bits of the acknowledgement vector.
\<close>

theorem pass_sends_unacked_segments:
  assumes "send_wnd_ok sw" "i < w_cap (s_w sw)" "send_due sw i"
    and "m_full_ack_vec (msg_at (s_w sw) i) = 2 ^ n - 1" "n \<le> fuel"
    and "p_valid p" "p_seq p = seq_at (s_w sw) i"
    and "p_seg p = lowest_clear (m_cur_ack_vec (msg_at (s_w sw) i))"
  shows "segs_of_pass fuel p sw = unacked (msg_at (s_w sw) i) n \<and> unacked (msg_at (s_w sw) i) n \<noteq> []"
proof -
  let ?v = "m_cur_ack_vec (msg_at (s_w sw) i)"
  have v: "?v < 2 ^ 31" using send_vecs(1) [OF assms(1,2)] by simp
  obtain n' where "n' \<le> segs (s_w sw)" "m_full_ack_vec (msg_at (s_w sw) i) = 2 ^ n' - 1" "lowest_clear ?v < n'"
    using send_due_segs [OF assms(1-3)] by blast
  moreover have "n' = n"
    using calculation(2) assms(4) exp_minus_1_less_iff by (metis less_irrefl linorder_neqE_nat)
  ultimately have n: "n \<le> segs (s_w sw)" "lowest_clear ?v < n" by auto
  note lc = lowest_clear_bits [OF v]
  have "segs_of_pass fuel p sw = filter (\<lambda>j. \<not> bit ?v j) [lowest_clear ?v..<n]"
    using segs_of_pass_from [OF assms(1,2,4) n(1) assms(6,7)] n(2) lc(1) assms(5,8) by simp
  moreover have "unacked (msg_at (s_w sw) i) n = filter (\<lambda>j. \<not> bit ?v j) [lowest_clear ?v..<n]"
    unfolding unacked_def by (rule filter_upt_skip) (use lc(2) n(2) in auto)
  ultimately show ?thesis
    using n(2) lc(1) by (simp add: upt_conv_Cons)
qed

definition demo_due_wnd :: arq__send_wnd_t where
  "demo_due_wnd = demo_send_wnd\<lparr>s_rtx := [5, 0]\<rparr>"

lemma demo_due_wnd_ok: "send_wnd_ok demo_due_wnd"
  using demo_send_wnd_ok by (auto simp: send_wnd_ok_def demo_due_wnd_def demo_send_wnd_def)

lemma lowest_clear_0: "lowest_clear 0 = 0"
proof -
  have "\<not> 0 < lowest_clear 0" using lowest_clear_bits(2) [of 0 0] by auto
  then show ?thesis by simp
qed

theorem pass_sends_unacked_segments_witness:
  "segs_of_pass 2 \<lparr>p_seq = 7, p_seg = 0, p_valid = True\<rparr> demo_due_wnd = [0, 1]"
proof -
  have c: "1 < w_cap (s_w demo_due_wnd)" "send_due demo_due_wnd 1"
    "m_full_ack_vec (msg_at (s_w demo_due_wnd) 1) = 2 ^ 2 - 1" "(2 :: nat) \<le> 2" "seq_at (s_w demo_due_wnd) 1 = 7"
    "m_cur_ack_vec (msg_at (s_w demo_due_wnd) 1) = 0"
    by (simp_all add: send_due_def seq_at_def slot_def demo_due_wnd_def demo_send_wnd_def demo_wnd_def)
  have "unacked (msg_at (s_w demo_due_wnd) 1) 2 = [0, 1]"
    using c(6) by (simp add: unacked_def upt_rec)
  then show ?thesis
    using pass_sends_unacked_segments [OF demo_due_wnd_ok c(1-4), of "\<lparr>p_seq = 7, p_seg = 0, p_valid = True\<rparr>"]
      c(5,6) lowest_clear_0 by simp
qed

text \<open>
  C15. The cursor never faults and never misses a due message: from every cursor that is free or
  in range, \<open>arq__send_wnd_ptr_next\<close> has a defined result in range. If it leaves the
  current message (or was free), it takes the first other due message of the window, at that
  message's first segment that is not acknowledged, and it becomes free only if there is none.
\<close>

theorem ptr_next_finds_due:
  assumes "send_wnd_ok sw" "ptr_ok p"
  shows "\<exists>rv p'. arq__send_wnd_ptr_next p sw = Some (rv, p') \<and> ptr_ok p' \<and>
    (\<not> p_valid p \<or> rv = ARQ__SEND_WND_PTR_NEXT_COMPLETED_MSG \<longrightarrow>
      (if \<exists>i<w_size (s_w sw). other_due sw p i
       then \<exists>i<w_size (s_w sw). other_due sw p i \<and> (\<forall>j<i. \<not> other_due sw p j) \<and>
         p_valid p' \<and> p_seq p' = seq_at (s_w sw) i \<and>
         p_seg p' = lowest_clear (m_cur_ack_vec (msg_at (s_w sw) i))
       else \<not> p_valid p'))"
proof -
  have od: "other_due sw (ptr_advance sw p) = other_due sw p"
    by (simp add: fun_eq_iff other_due_def ptr_advance_def)
  have due: "if \<exists>i<w_size (s_w sw). other_due sw q i
       then \<exists>i<w_size (s_w sw). other_due sw q i \<and> (\<forall>j<i. \<not> other_due sw q j) \<and>
         p_valid (ptr_to_due sw q) \<and> p_seq (ptr_to_due sw q) = seq_at (s_w sw) i \<and>
         p_seg (ptr_to_due sw q) = lowest_clear (m_cur_ack_vec (msg_at (s_w sw) i))
       else \<not> p_valid (ptr_to_due sw q)" for q
  proof (cases "find (other_due sw q) [0..<w_size (s_w sw)]")
    case None
    then have "\<not> (\<exists>i<w_size (s_w sw). other_due sw q i)" by (auto simp: find_None_iff)
    with None show ?thesis by (simp add: ptr_to_due_def)
  next
    case (Some i)
    then have "i < w_size (s_w sw)" "other_due sw q i" "\<forall>j<i. \<not> other_due sw q j"
      by (auto simp: find_Some_iff)
    with Some show ?thesis by (auto simp: ptr_to_due_def)
  qed
  obtain rv p' where r: "ptr_next_spec sw p = (rv, p')" by fastforce
  have "\<not> p_valid p \<or> rv = ARQ__SEND_WND_PTR_NEXT_COMPLETED_MSG \<Longrightarrow>
      p' = ptr_to_due sw p \<or> p' = ptr_to_due sw (ptr_advance sw p)"
    using r by (auto simp: ptr_next_spec_def split: if_splits)
  then have "\<not> p_valid p \<or> rv = ARQ__SEND_WND_PTR_NEXT_COMPLETED_MSG \<longrightarrow>
      (if \<exists>i<w_size (s_w sw). other_due sw p i
       then \<exists>i<w_size (s_w sw). other_due sw p i \<and> (\<forall>j<i. \<not> other_due sw p j) \<and>
         p_valid p' \<and> p_seq p' = seq_at (s_w sw) i \<and>
         p_seg p' = lowest_clear (m_cur_ack_vec (msg_at (s_w sw) i))
       else \<not> p_valid p')"
    using due [of p] due [of "ptr_advance sw p", unfolded od] by metis
  then show ?thesis
    using send_wnd_ptr_next_eq [OF assms] ptr_next_spec_ok [OF assms] r by (metis snd_conv)
qed

theorem ptr_next_finds_due_witness:
  "\<exists>rv p'. arq__send_wnd_ptr_next \<lparr>p_seq = 0, p_seg = 0, p_valid = False\<rparr> demo_due_wnd = Some (rv, p') \<and>
     p_valid p'"
proof -
  have due: "1 < w_size (s_w demo_due_wnd)" "other_due demo_due_wnd \<lparr>p_seq = 0, p_seg = 0, p_valid = False\<rparr> 1"
    by (simp_all add: other_due_def send_due_def seq_at_def slot_def demo_due_wnd_def demo_send_wnd_def demo_wnd_def)
  have "ptr_ok \<lparr>p_seq = 0, p_seg = 0, p_valid = False\<rparr>" by (simp add: ptr_ok_def)
  from ptr_next_finds_due [OF demo_due_wnd_ok this] due show ?thesis
    by (metis arq__send_wnd_ptr_t.select_convs(3))
qed

end
