(* ===== verification/Arq_Recv_Wnd.thy ===== *)
theory Arq_Recv_Wnd imports Arq_Send_Wnd begin

text \<open>
  The receive window of \<open>src/arq.h\<close>: \<open>arq__recv_wnd_frame\<close> stores a segment that arrived,
  \<open>arq__recv_wnd_recv\<close> copies complete messages to the user in order, \<open>arq__recv_wnd_ack\<close> picks
  the next acknowledgement to send. The window keeps the messages the user has already read
  until a frame arrives that needs their room; \<open>slide\<close> counts them.
\<close>

section \<open>State and operations\<close>

record arq__recv_wnd_t =
  r_w :: arq__wnd_t
  r_ack :: "bool list"
  r_inter_seg_ack :: nat
  r_inter_seg_ack_seq :: nat
  r_inter_seg_ack_on :: bool
  r_copy_seq :: nat
  r_copy_ofs :: nat
  r_slide :: nat

definition arq__recv_wnd_rst :: "arq__recv_wnd_t \<Rightarrow> arq__recv_wnd_t option" where
  "arq__recv_wnd_rst rw = do {
     w \<leftarrow> arq__wnd_rst (r_w rw);
     ack \<leftarrow> for_range 0 (w_cap w) (\<lambda>i ack. wr ack i False) (r_ack rw);
     Some (rw\<lparr>r_w := w, r_copy_seq := 0, r_copy_ofs := 0, r_slide := 0, r_inter_seg_ack_on := False,
              r_inter_seg_ack := ARQ_TIME_INFINITY, r_inter_seg_ack_seq := 0, r_ack := ack\<rparr>)
   }"

text \<open>
  \<open>arq__recv_wnd_frame\<close> first makes room (\<open>None\<close> inside: the frame is beyond the window), and
  then stores the segment.
\<close>

definition recv_wnd_make_room :: "arq__recv_wnd_t \<Rightarrow> nat \<Rightarrow> arq__recv_wnd_t option" where
  "recv_wnd_make_room rw seq =
     (let w = r_w rw;
          new_size = u32 (sub32 seq (w_seq w) + 1) mod (ARQ__FRAME_MAX_SEQ_NUM + 1)
      in if new_size > w_cap w
         then if sub32 new_size (r_slide rw) > w_cap w then None
              else Some (rw\<lparr>r_w := w\<lparr>w_size := u16 (sub32 new_size (r_slide rw)),
                                     w_seq := (w_seq w + r_slide rw) mod (ARQ__FRAME_MAX_SEQ_NUM + 1)\<rparr>,
                            r_slide := 0\<rparr>)
         else Some (rw\<lparr>r_w := w\<lparr>w_size := u16 (arq__max (w_size w) new_size)\<rparr>\<rparr>))"

definition recv_wnd_store ::
  "arq__recv_wnd_t \<Rightarrow> nat \<Rightarrow> nat \<Rightarrow> nat \<Rightarrow> nat \<Rightarrow> byte list \<Rightarrow> nat \<Rightarrow> nat \<Rightarrow> (nat \<times> arq__recv_wnd_t) option" where
  "recv_wnd_store rw seq seg seg_cnt full_ack_vec p len inter_seg_ack = do {
     let w = r_w rw;
     idx \<leftarrow> umod seq (w_cap w);
     m \<leftarrow> rd (w_msg w) idx;
     v \<leftarrow> shl_int seg;
     if m_cur_ack_vec m AND v \<noteq> 0
     then do {
       ack \<leftarrow> wr (r_ack rw) idx True;
       Some (0, rw\<lparr>r_ack := ack\<rparr>)
     }
     else do {
       (ofs, unused) \<leftarrow> arq__wnd_seg w seq seg;
       src \<leftarrow> memcpy_out p 0 len;
       buf \<leftarrow> memcpy_in (w_buf w) ofs src;
       msg \<leftarrow> wr (w_msg w) idx (m\<lparr>m_full_ack_vec := u16 full_ack_vec,
                                  m_cur_ack_vec := u16 (m_cur_ack_vec m OR v),
                                  m_len := u16 (m_len m + u16 len)\<rparr>);
       let rw' = rw\<lparr>r_w := w\<lparr>w_buf := buf, w_msg := msg\<rparr>\<rparr>;
       if seg = sub32 seg_cnt 1
       then do {
         ack \<leftarrow> wr (r_ack rw) idx True;
         Some (len, rw'\<lparr>r_ack := ack, r_inter_seg_ack_on := False\<rparr>)
       }
       else Some (len, rw'\<lparr>r_inter_seg_ack := inter_seg_ack, r_inter_seg_ack_seq := seq,
                           r_inter_seg_ack_on := True\<rparr>)
     }
   }"

definition arq__recv_wnd_frame ::
  "build \<Rightarrow> arq__recv_wnd_t \<Rightarrow> nat \<Rightarrow> nat \<Rightarrow> nat \<Rightarrow> byte list \<Rightarrow> nat \<Rightarrow> nat \<Rightarrow>
   (nat \<times> arq__recv_wnd_t) option" where
  "arq__recv_wnd_frame b rw seq seg seg_cnt p len inter_seg_ack = do {
     sc \<leftarrow> shl_unsigned seg_cnt;
     let full_ack_vec = sub32 sc 1;
     ARQ_ASSERT b (len \<le> w_seg_len (r_w rw));
     (case recv_wnd_make_room rw seq of
        None \<Rightarrow> Some (0, rw)
      | Some rw' \<Rightarrow> recv_wnd_store rw' seq seg seg_cnt full_ack_vec p len inter_seg_ack)
   }"

definition arq__recv_wnd_pending :: "arq__recv_wnd_t \<Rightarrow> bool option" where
  "arq__recv_wnd_pending rw =
     (if w_size (r_w rw) \<noteq> 0
      then do {
        idx \<leftarrow> umod (w_seq (r_w rw)) (w_cap (r_w rw));
        m \<leftarrow> rd (w_msg (r_w rw)) idx;
        Some (m_cur_ack_vec m = m_full_ack_vec m)
      }
      else Some False)"

primrec recv_wnd_recv_loop ::
  "nat \<Rightarrow> nat \<Rightarrow> nat \<Rightarrow> nat \<Rightarrow> arq__recv_wnd_t \<Rightarrow> byte list \<Rightarrow> (byte list \<times> arq__recv_wnd_t) option" where
  "recv_wnd_recv_loop 0 base i dst_max rw out = Some (out, rw)"
| "recv_wnd_recv_loop (Suc n) base i dst_max rw out =
     (if dst_max = 0 then Some (out, rw)
      else do {
        let w = r_w rw;
        msg_idx \<leftarrow> umod (u32 (base + i)) (w_cap w);
        m \<leftarrow> rd (w_msg w) msg_idx;
        let copy_len = arq__min dst_max (sub32 (m_len m) (r_copy_ofs rw));
        let src_idx = u32 (msg_idx * w_msg_len w);
        if m_len m = 0 then Some (out, rw)
        else if m_cur_ack_vec m \<noteq> m_full_ack_vec m then Some (out, rw)
        else do {
          bs \<leftarrow> memcpy_out (w_buf w) (src_idx + r_copy_ofs rw) copy_len;
          let out' = out @ bs;
          let dst_max' = sub32 dst_max copy_len;
          if r_copy_ofs rw + copy_len < m_len m
          then Some (out', rw\<lparr>r_copy_ofs := u16 (r_copy_ofs rw + u16 copy_len)\<rparr>)
          else do {
            msg \<leftarrow> wr (w_msg w) msg_idx
              (m\<lparr>m_len := 0, m_cur_ack_vec := 0, m_full_ack_vec := w_full_ack_vec w\<rparr>);
            recv_wnd_recv_loop n base (Suc i) dst_max'
              (rw\<lparr>r_w := w\<lparr>w_msg := msg\<rparr>, r_copy_ofs := 0,
                  r_copy_seq := (r_copy_seq rw + 1) mod (ARQ__FRAME_MAX_SEQ_NUM + 1),
                  r_slide := u16 (r_slide rw + 1)\<rparr>) out'
          }
        }
      })"

text \<open>The bytes written to \<open>dst\<close> (their number is the value the C function returns).\<close>

definition arq__recv_wnd_recv ::
  "arq__recv_wnd_t \<Rightarrow> nat \<Rightarrow> (byte list \<times> arq__recv_wnd_t) option" where
  "arq__recv_wnd_recv rw dst_max =
     recv_wnd_recv_loop (w_size (r_w rw)) (r_copy_seq rw) 0 dst_max rw []"

primrec recv_wnd_ack_loop ::
  "nat \<Rightarrow> nat \<Rightarrow> arq__recv_wnd_t \<Rightarrow> ((nat \<times> nat) option \<times> arq__recv_wnd_t) option" where
  "recv_wnd_ack_loop 0 i rw = Some (None, rw)"
| "recv_wnd_ack_loop (Suc n) i rw = do {
     idx \<leftarrow> umod (w_seq (r_w rw) + i) (w_cap (r_w rw));
     a \<leftarrow> rd (r_ack rw) idx;
     if a then do {
       m \<leftarrow> rd (w_msg (r_w rw)) idx;
       ack \<leftarrow> wr (r_ack rw) idx False;
       Some (Some ((w_seq (r_w rw) + i) mod (ARQ__FRAME_MAX_SEQ_NUM + 1), m_cur_ack_vec m),
             rw\<lparr>r_ack := ack\<rparr>)
     }
     else recv_wnd_ack_loop n (Suc i) rw
   }"

text \<open>\<open>Some\<close> inside is \<open>ARQ_TRUE\<close> with \<open>*out_ack_seq\<close> and \<open>*out_ack_vec\<close>.\<close>

definition arq__recv_wnd_ack ::
  "arq__recv_wnd_t \<Rightarrow> ((nat \<times> nat) option \<times> arq__recv_wnd_t) option" where
  "arq__recv_wnd_ack rw = recv_wnd_ack_loop (w_size (r_w rw)) 0 rw"

section \<open>Invariant\<close>

text \<open>The segments a vector marks, among the first \<open>n\<close>.\<close>

definition marked :: "nat \<Rightarrow> nat \<Rightarrow> nat set" where
  "marked v n = {j. j < n \<and> bit v j}"

lemma finite_marked [simp]: "finite (marked v n)"
  by (simp add: marked_def)

lemma marked_0 [simp]: "marked 0 n = {}"
  by (simp add: marked_def)

lemma marked_or: "s < n \<Longrightarrow> marked (v OR 2 ^ s) n = insert s (marked v n)"
  by (auto simp: marked_def bit_or_iff bit_exp_iff)

lemma card_marked_le: "card (marked v n) \<le> n"
  using card_mono [of "{..<n}" "marked v n"] by (simp add: marked_def subset_iff)

lemma or_exp_less: "(v :: nat) < 2 ^ n \<Longrightarrow> s < n \<Longrightarrow> v OR 2 ^ s < 2 ^ n"
proof -
  assume "v < 2 ^ n" "s < n"
  then have "take_bit n (v OR 2 ^ s) = v OR 2 ^ s"
    by (simp add: take_bit_nat_eq_self)
  then show "v OR 2 ^ s < 2 ^ n" by (metis take_bit_nat_less_exp)
qed

lemma and_exp_0_iff: "(v :: nat) AND 2 ^ s \<noteq> 0 \<longleftrightarrow> bit v s"
  by (simp add: and_exp_eq_0_iff_not_bit)

text \<open>
  The structure every operation keeps, whatever the peer sends: the vectors stay within the
  segments of a message, a message is not longer than the segments it has, and the read offset
  stays within the message it belongs to.
\<close>

definition recv_msg_ok :: "arq__wnd_t \<Rightarrow> arq__msg_t \<Rightarrow> bool" where
  "recv_msg_ok w m \<longleftrightarrow> m_cur_ack_vec m < 2 ^ segs w \<and> m_full_ack_vec m < 65536 \<and>
     m_len m \<le> card (marked (m_cur_ack_vec m) (segs w)) * w_seg_len w"

definition recv_wnd_ok :: "arq__recv_wnd_t \<Rightarrow> bool" where
  "recv_wnd_ok rw \<longleftrightarrow> wnd_ok (r_w rw) \<and> length (r_ack rw) = w_cap (r_w rw) \<and>
     r_inter_seg_ack rw < 2 ^ 32 \<and> r_copy_seq rw < 4096 \<and> r_slide rw < 65536 \<and>
     (\<forall>k<w_cap (r_w rw). recv_msg_ok (r_w rw) (w_msg (r_w rw) ! k)) \<and>
     r_copy_ofs rw \<le> m_len (w_msg (r_w rw) ! (r_copy_seq rw mod w_cap (r_w rw)))"

lemma recv_wnd_okD:
  assumes "recv_wnd_ok rw"
  shows "wnd_ok (r_w rw)" "length (r_ack rw) = w_cap (r_w rw)" "r_inter_seg_ack rw < 2 ^ 32"
    "r_copy_seq rw < 4096" "r_slide rw < 65536"
    "\<And>k. k < w_cap (r_w rw) \<Longrightarrow> recv_msg_ok (r_w rw) (w_msg (r_w rw) ! k)"
    "r_copy_ofs rw \<le> m_len (w_msg (r_w rw) ! (r_copy_seq rw mod w_cap (r_w rw)))"
  using assms by (auto simp: recv_wnd_ok_def)

interpretation recv_window: window_user r_w recv_wnd_ok
  by unfold_locales (rule recv_wnd_okD(1))

lemma recv_msg_len:
  assumes "recv_wnd_ok rw" "k < w_cap (r_w rw)"
  shows "m_len (w_msg (r_w rw) ! k) \<le> w_msg_len (r_w rw)"
proof -
  let ?w = "r_w rw"
  have "card (marked (m_cur_ack_vec (w_msg ?w ! k)) (segs ?w)) * w_seg_len ?w \<le> segs ?w * w_seg_len ?w"
    by (intro mult_le_mono1 card_marked_le)
  then show ?thesis
    using recv_wnd_okD(6) [OF assms] wnd_okD(6) [OF recv_wnd_okD(1) [OF assms(1)]]
    unfolding recv_msg_ok_def by linarith
qed

lemma recv_wnd_rst_eq:
  assumes "wnd_ok (r_w rw)" "length (r_ack rw) = w_cap (r_w rw)"
  shows "arq__recv_wnd_rst rw = Some (rw\<lparr>r_w := (r_w rw)\<lparr>w_size := 0, w_seq := 0,
      w_msg := replicate (w_cap (r_w rw)) (fresh_msg (r_w rw))\<rparr>,
    r_copy_seq := 0, r_copy_ofs := 0, r_slide := 0, r_inter_seg_ack_on := False,
    r_inter_seg_ack := ARQ_TIME_INFINITY, r_inter_seg_ack_seq := 0,
    r_ack := replicate (w_cap (r_w rw)) False\<rparr>)"
proof -
  have "for_range 0 (w_cap (r_w rw)) (\<lambda>i ack. wr ack i False) (r_ack rw) =
      Some (take 0 (r_ack rw) @ replicate (w_cap (r_w rw)) False @ drop (0 + w_cap (r_w rw)) (r_ack rw))"
    using assms(2) by (intro for_range_fill) (auto simp: wr_def)
  then show ?thesis
    using assms wnd_okD(9) [OF assms(1)] by (simp add: arq__recv_wnd_rst_def wnd_rst_eq)
qed

section \<open>Storing a segment\<close>

lemma if_Some_pair: "(if c then Some (x, a) else Some (x, b)) = Some (x, if c then a else b)"
  by simp

text \<open>What \<open>recv_wnd_store\<close> leaves behind when the segment is new.\<close>

definition stored :: "arq__recv_wnd_t \<Rightarrow> nat \<Rightarrow> nat \<Rightarrow> nat \<Rightarrow> nat \<Rightarrow> byte list \<Rightarrow> nat \<Rightarrow> arq__recv_wnd_t" where
  "stored rw seq seg seg_cnt full p t =
     (let w = r_w rw; k = seq mod w_cap w; m = w_msg w ! k; ofs = w_msg_len w * k + w_seg_len w * seg;
          rw' = rw\<lparr>r_w := w\<lparr>
            w_buf := take ofs (w_buf w) @ p @ drop (ofs + length p) (w_buf w),
            w_msg := (w_msg w)[k := \<lparr>m_len = m_len m + length p, m_cur_ack_vec = m_cur_ack_vec m OR 2 ^ seg,
                                     m_full_ack_vec = full\<rparr>]\<rparr>\<rparr>
      in if seg = seg_cnt - 1 then rw'\<lparr>r_ack := (r_ack rw)[k := True], r_inter_seg_ack_on := False\<rparr>
         else rw'\<lparr>r_inter_seg_ack := t, r_inter_seg_ack_seq := seq, r_inter_seg_ack_on := True\<rparr>)"

lemma recv_wnd_store_eq:
  assumes ok: "recv_wnd_ok rw" and seg: "seg < segs (r_w rw)" and len: "length p \<le> w_seg_len (r_w rw)"
    and cnt: "1 \<le> seg_cnt" "seg_cnt < 2 ^ 32" and full: "full < 65536"
  shows "recv_wnd_store rw seq seg seg_cnt full p (length p) t =
    Some (if bit (m_cur_ack_vec (w_msg (r_w rw) ! (seq mod w_cap (r_w rw)))) seg
          then (0, rw\<lparr>r_ack := (r_ack rw)[seq mod w_cap (r_w rw) := True]\<rparr>)
          else (length p, stored rw seq seg seg_cnt full p t))"
proof -
  let ?w = "r_w rw" let ?k = "seq mod w_cap (r_w rw)" let ?m = "w_msg ?w ! ?k"
  let ?ofs = "w_msg_len ?w * ?k + w_seg_len ?w * seg"
  have wok: "wnd_ok ?w" using ok by (rule recv_wnd_okD(1))
  note wd = wnd_okD [OF wok] and wl = wnd_ok_msg_len [OF wok]
  have k: "?k < w_cap ?w" using wd(1) by simp
  note mo = recv_wnd_okD(6) [OF ok k, unfolded recv_msg_ok_def]
  have cur: "?m = ?m" "m_cur_ack_vec ?m OR 2 ^ seg < 4096"
    using or_exp_less [OF conjunct1 [OF mo] seg] pow2_segs_less [OF wok, of "segs ?w"] by auto
  have ml: "m_len ?m + length p < 65536"
    using recv_msg_len [OF ok k] wl(2) len wd(5) by linarith
  have mem: "umod seq (w_cap ?w) = Some ?k" "rd (w_msg ?w) ?k = Some ?m" "shl_int seg = Some (2 ^ seg)"
    "wr (r_ack rw) ?k True = Some ((r_ack rw)[?k := True])"
    "\<And>m. wr (w_msg ?w) ?k m = Some ((w_msg ?w)[?k := m])"
    "memcpy_out p 0 (length p) = Some p"
    using wd k seg recv_wnd_okD(2) [OF ok]
    by (simp_all add: umod_pos rd_ok wr_ok shl_int_ok memcpy_out_ok)
  obtain n where sg: "arq__wnd_seg ?w seq seg = Some (?ofs, n)"
    using recv_window.wnd_seg_eq [OF ok seg] by blast
  have bd: "?ofs + length p \<le> length (w_buf ?w)"
    using recv_window.seg_offset_bound [OF ok k seg] len by linarith
  then have cp: "memcpy_in (w_buf ?w) ?ofs p = Some (take ?ofs (w_buf ?w) @ p @ drop (?ofs + length p) (w_buf ?w))"
    by (rule memcpy_in_ok)
  have u: "u16 full = full" "u16 (m_cur_ack_vec ?m OR 2 ^ seg) = m_cur_ack_vec ?m OR 2 ^ seg"
    "u16 (length p) = length p" "u16 (m_len ?m + length p) = m_len ?m + length p"
    "sub32 seg_cnt 1 = seg_cnt - 1"
    using full cur ml cnt by (simp_all add: u16_id sub32_le)
  have upd: "?m\<lparr>m_full_ack_vec := f, m_cur_ack_vec := c, m_len := l\<rparr> =
      \<lparr>m_len = l, m_cur_ack_vec = c, m_full_ack_vec = f\<rparr>" for f c l
    by (cases ?m) simp
  show ?thesis
    by (cases "bit (m_cur_ack_vec ?m) seg")
      (simp_all only: if_Some_pair recv_wnd_store_def Let_def mem bind.bind_lunit and_exp_0_iff sg cp u upd stored_def
        split_conv if_True if_False not_False_eq_True)
qed

lemma stored_fields [simp]:
  "w_seq (r_w (stored rw seq seg seg_cnt full p t)) = w_seq (r_w rw)"
  "w_size (r_w (stored rw seq seg seg_cnt full p t)) = w_size (r_w rw)"
  "w_cap (r_w (stored rw seq seg seg_cnt full p t)) = w_cap (r_w rw)"
  "w_msg_len (r_w (stored rw seq seg seg_cnt full p t)) = w_msg_len (r_w rw)"
  "w_seg_len (r_w (stored rw seq seg seg_cnt full p t)) = w_seg_len (r_w rw)"
  "w_full_ack_vec (r_w (stored rw seq seg seg_cnt full p t)) = w_full_ack_vec (r_w rw)"
  "r_copy_seq (stored rw seq seg seg_cnt full p t) = r_copy_seq rw"
  "r_copy_ofs (stored rw seq seg seg_cnt full p t) = r_copy_ofs rw"
  "r_slide (stored rw seq seg seg_cnt full p t) = r_slide rw"
  "length (w_msg (r_w (stored rw seq seg seg_cnt full p t))) = length (w_msg (r_w rw))"
  "length (r_ack (stored rw seq seg seg_cnt full p t)) = length (r_ack rw)"
  "segs (r_w (stored rw seq seg seg_cnt full p t)) = segs (r_w rw)"
  "r_inter_seg_ack (stored rw seq seg seg_cnt full p t) = (if seg = seg_cnt - 1 then r_inter_seg_ack rw else t)"
  by (simp_all add: stored_def Let_def segs_def)

lemma stored_msg:
  "w_msg (r_w (stored rw seq seg seg_cnt full p t)) =
    (w_msg (r_w rw))[seq mod w_cap (r_w rw) :=
      \<lparr>m_len = m_len (w_msg (r_w rw) ! (seq mod w_cap (r_w rw))) + length p,
       m_cur_ack_vec = m_cur_ack_vec (w_msg (r_w rw) ! (seq mod w_cap (r_w rw))) OR 2 ^ seg,
       m_full_ack_vec = full\<rparr>]"
  by (simp add: stored_def Let_def)

lemma stored_buf:
  "w_buf (r_w (stored rw seq seg seg_cnt full p t)) =
    (let ofs = w_msg_len (r_w rw) * (seq mod w_cap (r_w rw)) + w_seg_len (r_w rw) * seg
     in take ofs (w_buf (r_w rw)) @ p @ drop (ofs + length p) (w_buf (r_w rw)))"
  by (simp add: stored_def Let_def)

lemma stored_ok:
  assumes ok: "recv_wnd_ok rw" and seg: "seg < segs (r_w rw)" and len: "length p \<le> w_seg_len (r_w rw)"
    and full: "full < 65536" and t: "t < 2 ^ 32"
    and new: "\<not> bit (m_cur_ack_vec (w_msg (r_w rw) ! (seq mod w_cap (r_w rw)))) seg"
  shows "recv_wnd_ok (stored rw seq seg seg_cnt full p t)"
proof -
  let ?w = "r_w rw" let ?k = "seq mod w_cap (r_w rw)" let ?m = "w_msg ?w ! ?k"
  let ?rw = "stored rw seq seg seg_cnt full p t"
  let ?m' = "\<lparr>m_len = m_len ?m + length p, m_cur_ack_vec = m_cur_ack_vec ?m OR 2 ^ seg, m_full_ack_vec = full\<rparr>"
  have wok: "wnd_ok ?w" using ok by (rule recv_wnd_okD(1))
  note wd = wnd_okD [OF wok]
  have k: "?k < w_cap ?w" using wd(1) by simp
  have lb: "length (w_buf (r_w ?rw)) = length (w_buf ?w)"
    using recv_window.seg_offset_bound [OF ok k seg] len by (simp add: stored_buf Let_def)
  have "wnd_ok (r_w ?rw)" using wd lb unfolding wnd_ok_def by simp
  moreover have m': "recv_msg_ok ?w ?m'"
  proof -
    have mo: "m_cur_ack_vec ?m < 2 ^ segs ?w"
      "m_len ?m \<le> card (marked (m_cur_ack_vec ?m) (segs ?w)) * w_seg_len ?w"
      using recv_wnd_okD(6) [OF ok k] by (simp_all add: recv_msg_ok_def)
    have "seg \<notin> marked (m_cur_ack_vec ?m) (segs ?w)" using new by (simp add: marked_def)
    then have "card (marked (m_cur_ack_vec ?m OR 2 ^ seg) (segs ?w)) =
        Suc (card (marked (m_cur_ack_vec ?m) (segs ?w)))"
      using seg by (simp add: marked_or)
    then show ?thesis
      using mo or_exp_less [OF mo(1) seg] len full by (simp add: recv_msg_ok_def)
  qed
  moreover have "recv_msg_ok ?w (w_msg (r_w ?rw) ! j)" if "j < w_cap ?w" for j
    using m' recv_wnd_okD(6) [OF ok that] that wd(9) by (cases "j = ?k") (simp_all add: stored_msg)
  moreover have "m_len (w_msg ?w ! j) \<le> m_len (w_msg (r_w ?rw) ! j)" if "j < w_cap ?w" for j
    using that wd(9) k by (cases "j = ?k") (simp_all add: stored_msg)
  moreover have "r_copy_seq rw mod w_cap ?w < w_cap ?w" using wd(1) by simp
  ultimately show ?thesis
    using recv_wnd_okD(2-5) [OF ok] recv_wnd_okD(7) [OF ok] t
    by (auto simp: recv_wnd_ok_def recv_msg_ok_def intro: order.trans)
qed

section \<open>Making room\<close>

lemma new_size_mod:
  assumes "a < 4096" "b < 4096"
  shows "u32 (sub32 a b + 1) mod (ARQ__FRAME_MAX_SEQ_NUM + 1) = (a + 4096 - b + 1) mod 4096"
proof -
  have "u32 (sub32 a b + 1) mod 4096 = (a + (4294967296 - b) + 1) mod 4096"
    using assms by (simp add: u32_def sub32_def mod_mod_cancel mod_Suc_eq)
  also have "a + (4294967296 - b) + 1 = (a + 4096 - b + 1) + 1048575 * 4096"
    using assms by simp
  also have "(\<dots>) mod 4096 = (a + 4096 - b + 1) mod 4096"
    by (rule mod_mult_self1)
  finally show ?thesis by simp
qed

definition frame_size :: "arq__wnd_t \<Rightarrow> nat \<Rightarrow> nat" where
  "frame_size w seq = (seq + 4096 - w_seq w + 1) mod 4096"

definition slid :: "arq__recv_wnd_t \<Rightarrow> nat \<Rightarrow> arq__recv_wnd_t" where
  "slid rw n = rw\<lparr>r_w := (r_w rw)\<lparr>w_size := n - r_slide rw, w_seq := (w_seq (r_w rw) + r_slide rw) mod 4096\<rparr>,
     r_slide := 0\<rparr>"

definition grown :: "arq__recv_wnd_t \<Rightarrow> nat \<Rightarrow> arq__recv_wnd_t" where
  "grown rw n = rw\<lparr>r_w := (r_w rw)\<lparr>w_size := max (w_size (r_w rw)) n\<rparr>\<rparr>"

lemma recv_wnd_make_room_eq:
  assumes ok: "recv_wnd_ok rw" and seq: "seq < 4096"
  defines "n \<equiv> frame_size (r_w rw) seq"
  shows "recv_wnd_make_room rw seq =
    (if n \<le> w_cap (r_w rw) then Some (grown rw n)
     else if r_slide rw \<le> n \<and> n - r_slide rw \<le> w_cap (r_w rw) then Some (slid rw n) else None)"
proof -
  let ?w = "r_w rw"
  note wd = wnd_okD [OF recv_wnd_okD(1) [OF ok]]
  have n: "u32 (sub32 seq (w_seq ?w) + 1) mod (ARQ__FRAME_MAX_SEQ_NUM + 1) = n" "n < 4096"
    using new_size_mod [OF seq wd(11)] by (simp_all add: n_def frame_size_def)
  show ?thesis
  proof (cases "n \<le> w_cap ?w")
    case True
    then have "u16 (arq__max (w_size ?w) n) = max (w_size ?w) n"
      using wd(3,12) by (simp add: u16_id)
    with True show ?thesis
      unfolding recv_wnd_make_room_def Let_def n(1) by (simp add: grown_def)
  next
    case False
    show ?thesis
    proof (cases "r_slide rw \<le> n")
      case True
      then have s: "sub32 n (r_slide rw) = n - r_slide rw" using n(2) by (simp add: sub32_le)
      have "u16 (n - r_slide rw) = n - r_slide rw" using n(2) by (simp add: u16_id)
      with False True show ?thesis
        unfolding recv_wnd_make_room_def Let_def n(1) s by (simp add: slid_def)
    next
      case le: False
      then have "sub32 n (r_slide rw) > w_cap ?w"
        using wd(3) n(2) recv_wnd_okD(5) [OF ok] by (simp add: sub32_gt)
      with le False show ?thesis
        unfolding recv_wnd_make_room_def Let_def n(1) by simp
    qed
  qed
qed

lemma recv_wnd_make_room_ok:
  assumes ok: "recv_wnd_ok rw" and seq: "seq < 4096" and r: "recv_wnd_make_room rw seq = Some rw'"
  shows "recv_wnd_ok rw'" "w_cap (r_w rw') = w_cap (r_w rw)" "segs (r_w rw') = segs (r_w rw)"
    "w_seg_len (r_w rw') = w_seg_len (r_w rw)" "w_msg (r_w rw') = w_msg (r_w rw)"
    "w_msg_len (r_w rw') = w_msg_len (r_w rw)"
  using ok r unfolding recv_wnd_make_room_eq [OF ok seq]
  by (auto simp: grown_def slid_def recv_wnd_ok_def wnd_ok_def segs_def recv_msg_ok_def split: if_splits)

lemma seg_cnt_vec:
  assumes "seg_cnt \<le> 16"
  shows "(2 :: nat) ^ seg_cnt - 1 < 65536"
proof -
  have "(2 :: nat) ^ seg_cnt \<le> 2 ^ 16" using assms by (intro power_increasing) auto
  moreover have "(0 :: nat) < 2 ^ seg_cnt" by simp
  ultimately show ?thesis by (simp del: zero_less_power)
qed

lemma recv_wnd_frame_run:
  assumes cnt: "seg_cnt \<le> 16" and len: "length p \<le> w_seg_len (r_w rw)"
  shows "arq__recv_wnd_frame b rw seq seg seg_cnt p (length p) t =
    (case recv_wnd_make_room rw seq of None \<Rightarrow> Some (0, rw)
      | Some rw' \<Rightarrow> recv_wnd_store rw' seq seg seg_cnt (2 ^ seg_cnt - 1) p (length p) t)"
proof -
  have "(1 :: nat) \<le> 2 ^ seg_cnt" by simp
  then have v: "sub32 (2 ^ seg_cnt) 1 = 2 ^ seg_cnt - 1"
    using seg_cnt_vec [OF cnt] by (intro sub32_le) (simp_all del: one_le_power)
  have s: "shl_unsigned seg_cnt = Some (2 ^ seg_cnt)" using cnt by (simp add: shl_unsigned_ok)
  show ?thesis
    by (simp only: arq__recv_wnd_frame_def s Let_def v ARQ_ASSERT_holds [OF len] bind.bind_lunit)
qed

lemma recv_wnd_frame_total:
  assumes ok: "recv_wnd_ok rw" and seq: "seq < 4096" and seg: "seg < segs (r_w rw)"
    and cnt: "1 \<le> seg_cnt" "seg_cnt \<le> 16" and len: "length p \<le> w_seg_len (r_w rw)" and t: "t < 2 ^ 32"
  shows "\<exists>n rw'. arq__recv_wnd_frame b rw seq seg seg_cnt p (length p) t = Some (n, rw') \<and>
    recv_wnd_ok rw' \<and> w_cap (r_w rw') = w_cap (r_w rw) \<and> segs (r_w rw') = segs (r_w rw) \<and>
    w_seg_len (r_w rw') = w_seg_len (r_w rw) \<and> w_msg_len (r_w rw') = w_msg_len (r_w rw)"
proof -
  note run = recv_wnd_frame_run [OF cnt(2) len]
  have v: "(2 :: nat) ^ seg_cnt - 1 < 65536" by (rule seg_cnt_vec [OF cnt(2)])
  show ?thesis
  proof (cases "recv_wnd_make_room rw seq")
    case None
    then show ?thesis using run ok by simp
  next
    case (Some rw')
    note room = recv_wnd_make_room_ok [OF ok seq Some]
    have c: "seg_cnt < 2 ^ 32" using cnt(2) by simp
    note st = recv_wnd_store_eq [OF room(1), of seg p seg_cnt _ seq t, OF _ _ cnt(1) c v]
    have "recv_wnd_ok (rw'\<lparr>r_ack := a\<rparr>)" if "length a = w_cap (r_w rw')" for a
      using room(1) that by (simp add: recv_wnd_ok_def)
    then show ?thesis
      using run Some st seg len room stored_ok [OF room(1), of seg p _ t seq] v t recv_wnd_okD(2) [OF room(1)]
      by (auto simp: segs_def)
  qed
qed

end
