(* ===== verification/Arq_Reassembly.thy ===== *)
theory Arq_Reassembly imports Arq_Recv_Wnd begin

text \<open>
  What the receive window of \<open>src/arq.h\<close> is for: whatever the order in which the segments of the
  peer's messages arrive, and however often before a message is read, the user reads the messages'
  bytes in order, each once. The peer's messages are a ghost sequence \<open>msgs\<close>; \<open>recv_holds msgs base rw\<close> relates the
  window to it.
\<close>

section \<open>Reassembly\<close>

definition msg_seg :: "nat \<Rightarrow> byte list \<Rightarrow> nat \<Rightarrow> byte list" where
  "msg_seg l M s = take l (drop (s * l) M)"

lemma length_msg_seg: "length (msg_seg l M s) = min l (length M - s * l)"
  by (simp add: msg_seg_def)

lemma sum_msg_segs: "(\<Sum>s<n. length (msg_seg l M s)) = min (n * l) (length M)"
  by (induction n) (auto simp: length_msg_seg)

lemma msg_segs_glue:
  assumes l: "0 < l" and n: "length M \<le> n * l"
    and seg: "\<And>s. s < n \<Longrightarrow> take (length (msg_seg l M s)) (drop (ofs + l * s) buf) = msg_seg l M s"
    and len: "ofs + length M \<le> length buf"
  shows "take (length M) (drop ofs buf) = M"
proof (rule nth_equalityI)
  show "length (take (length M) (drop ofs buf)) = length M" using len by simp
  fix i assume "i < length (take (length M) (drop ofs buf))"
  then have i: "i < length M" by simp
  let ?s = "i div l" and ?r = "i mod l"
  have r: "?r < l" "?s * l + ?r = i" using l by simp_all
  have s: "?s < n" using i n by (simp add: less_mult_imp_div_less)
  have "?r < length M - ?s * l" using i r(2) by linarith
  with r(1) have rl: "?r < length (msg_seg l M ?s)" by (simp only: length_msg_seg min_less_iff_conj)
  have "msg_seg l M ?s ! ?r = take (length (msg_seg l M ?s)) (drop (ofs + l * ?s) buf) ! ?r"
    by (simp only: seg [OF s])
  also have "\<dots> = drop (ofs + l * ?s) buf ! ?r" using rl by simp
  also have "\<dots> = buf ! (ofs + l * ?s + ?r)"
  proof (rule nth_drop)
    have "l * ?s \<le> i" using r(2) by (metis le_add1 mult.commute)
    then show "ofs + l * ?s \<le> length buf" using i len by linarith
  qed
  also have "ofs + l * ?s + ?r = ofs + i" using r(2) by (simp add: mult.commute)
  finally have "buf ! (ofs + i) = msg_seg l M ?s ! ?r" by simp
  also have "\<dots> = M ! (?s * l + ?r)" using rl i r by (simp add: msg_seg_def)
  finally show "take (length M) (drop ofs buf) ! i = M ! i" using i len r(2) by simp
qed

lemma blit_same: "ofs + length p \<le> length buf \<Longrightarrow>
  take (length p) (drop ofs (take ofs buf @ p @ drop (ofs + length p) buf)) = p"
  by simp

lemma blit_disjoint:
  assumes "ofs + length p \<le> length buf" "a + n \<le> ofs \<or> ofs + length p \<le> a"
  shows "take n (drop a (take ofs buf @ p @ drop (ofs + length p) buf)) = take n (drop a buf)"
proof (rule nth_equalityI)
  let ?b = "take ofs buf @ p @ drop (ofs + length p) buf"
  have l: "length ?b = length buf" using assms(1) by simp
  then show len: "length (take n (drop a ?b)) = length (take n (drop a buf))"
    by (simp only: length_take length_drop)
  fix i assume "i < length (take n (drop a ?b))"
  then have i: "i < n" "a + i < length buf" unfolding len by (simp_all add: less_diff_conv add.commute)
  have "?b ! (a + i) = buf ! (a + i)"
    using nth_blit [OF assms(1) i(2)] assms(2) i(1) by auto
  moreover have "a \<le> length ?b" "a \<le> length buf" using i l by linarith+
  ultimately show "take n (drop a ?b) ! i = take n (drop a buf) ! i"
    by (simp only: nth_take [OF i(1)] nth_drop)
qed

text \<open>The part of message \<open>M\<close> that slot \<open>k\<close> holds.\<close>

definition partial :: "arq__wnd_t \<Rightarrow> nat \<Rightarrow> byte list \<Rightarrow> bool" where
  "partial w k M \<longleftrightarrow> (let m = w_msg w ! k; n = seg_count w (length M); l = w_seg_len w
     in m_cur_ack_vec m < 2 ^ n \<and> (m_cur_ack_vec m \<noteq> 0 \<longrightarrow> m_full_ack_vec m = 2 ^ n - 1) \<and>
        1 \<le> m_full_ack_vec m \<and>
        m_len m = (\<Sum>s\<in>marked (m_cur_ack_vec m) n. length (msg_seg l M s)) \<and>
        (\<forall>s\<in>marked (m_cur_ack_vec m) n.
           take (length (msg_seg l M s)) (drop (w_msg_len w * k + l * s) (w_buf w)) = msg_seg l M s))"

definition empty_msg :: "arq__msg_t \<Rightarrow> bool" where
  "empty_msg m \<longleftrightarrow> m_len m = 0 \<and> m_cur_ack_vec m = 0 \<and> 1 \<le> m_full_ack_vec m"

definition complete_msg :: "arq__msg_t \<Rightarrow> bool" where
  "complete_msg m \<longleftrightarrow> m_cur_ack_vec m = m_full_ack_vec m"

definition msg_fits :: "arq__wnd_t \<Rightarrow> byte list \<Rightarrow> bool" where
  "msg_fits w M \<longleftrightarrow> 0 < length M \<and> length M \<le> w_msg_len w"

lemma partial_empty: "empty_msg (w_msg w ! k) \<Longrightarrow> partial w k M"
  by (simp add: partial_def empty_msg_def Let_def)

lemma empty_not_complete: "empty_msg m \<Longrightarrow> \<not> complete_msg m"
  by (simp add: empty_msg_def complete_msg_def)

lemma partial_complete:
  assumes w: "wnd_ok w" and k: "k < w_cap w" and M: "msg_fits w M"
    and part: "partial w k M" and compl: "complete_msg (w_msg w ! k)"
  shows "m_len (w_msg w ! k) = length M" "msg_bytes w k = M"
proof -
  let ?m = "w_msg w ! k" let ?n = "seg_count w (length M)" let ?l = "w_seg_len w"
  note wd = wnd_okD [OF w]
  have M': "0 < length M" "length M \<le> w_msg_len w" using M by (simp_all add: msg_fits_def)
  note sc = seg_count_bounds [OF w M']
  have full: "m_cur_ack_vec ?m = 2 ^ ?n - 1"
    using part compl by (auto simp: partial_def complete_msg_def Let_def)
  have "m_cur_ack_vec ?m = mask ?n" using full by (simp add: mask_eq_exp_minus_1)
  then have all: "marked (m_cur_ack_vec ?m) ?n = {..<?n}"
    by (auto simp: marked_def bit_mask_iff)
  have P: "m_len ?m = (\<Sum>s<?n. length (msg_seg ?l M s))"
    "\<And>s. s < ?n \<Longrightarrow> take (length (msg_seg ?l M s)) (drop (w_msg_len w * k + ?l * s) (w_buf w)) = msg_seg ?l M s"
    using part all by (auto simp: partial_def Let_def)
  show len: "m_len ?m = length M" using P(1) sc(4) by (simp add: sum_msg_segs)
  have "w_msg_len w * k + length M \<le> length (w_buf w)"
    using slot_region [OF w k] M'(2) by (simp add: mult.commute)
  from msg_segs_glue [OF wd(4) sc(4) P(2) this] len
  show "msg_bytes w k = M" by (simp add: msg_bytes_def mult.commute)
qed

text \<open>Segments of different places in the buffer do not overlap.\<close>

lemma seg_regions:
  assumes w: "wnd_ok w" and "s < segs w" "s' < segs w" "(k, s) \<noteq> (k', s')"
  shows "w_msg_len w * k + w_seg_len w * s + w_seg_len w \<le> w_msg_len w * k' + w_seg_len w * s' \<or>
    w_msg_len w * k' + w_seg_len w * s' + w_seg_len w \<le> w_msg_len w * k + w_seg_len w * s"
proof -
  let ?q = "segs w * k + s" and ?q' = "segs w * k' + s'" and ?l = "w_seg_len w"
  have ne: "?q \<noteq> ?q'"
  proof
    assume e: "?q = ?q'"
    then have "?q div segs w = ?q' div segs w" by simp
    then have "k = k'" using assms(2,3) by simp
    with e assms(4) show False by simp
  qed
  have eq: "w_msg_len w * k + ?l * s = (segs w * k + s) * ?l" for k s
    using wnd_okD(6) [OF w] by (simp add: algebra_simps)
  have "?q + 1 \<le> ?q' \<or> ?q' + 1 \<le> ?q" using ne by linarith
  then have "(?q + 1) * ?l \<le> ?q' * ?l \<or> (?q' + 1) * ?l \<le> ?q * ?l"
    using mult_le_mono1 by blast
  then show ?thesis unfolding eq add_mult_distrib mult_1 by (simp only: add_mult_distrib)
qed

lemma seg_count_stored [simp]: "seg_count (r_w (stored rw seq seg seg_cnt full p t)) = seg_count (r_w rw)"
  by (simp add: fun_eq_iff seg_count_def)

text \<open>A stored segment overwrites no other segment.\<close>

lemma stored_elsewhere:
  assumes ok: "recv_wnd_ok rw" and s: "s < segs (r_w rw)" and n: "length p \<le> w_seg_len (r_w rw)"
    and j: "j < segs (r_w rw)" "(k, j) \<noteq> (seq mod w_cap (r_w rw), s)" and x: "x \<le> w_seg_len (r_w rw)"
  shows "take x (drop (w_msg_len (r_w rw) * k + w_seg_len (r_w rw) * j) (w_buf (r_w (stored rw seq s c v p t)))) =
    take x (drop (w_msg_len (r_w rw) * k + w_seg_len (r_w rw) * j) (w_buf (r_w rw)))"
proof -
  let ?w = "r_w rw" let ?ofs = "w_msg_len (r_w rw) * (seq mod w_cap (r_w rw)) + w_seg_len (r_w rw) * s"
  have wok: "wnd_ok ?w" using ok by (rule recv_wnd_okD(1))
  have "seq mod w_cap ?w < w_cap ?w" using wnd_okD(1) [OF wok] by simp
  then have bnd: "?ofs + length p \<le> length (w_buf ?w)"
    using recv_window.seg_offset_bound [OF ok _ s] n by (meson add_left_mono order_trans)
  show ?thesis
    unfolding stored_buf Let_def
  proof (rule blit_disjoint [OF bnd])
    show "w_msg_len ?w * k + w_seg_len ?w * j + x \<le> ?ofs \<or> ?ofs + length p \<le> w_msg_len ?w * k + w_seg_len ?w * j"
      using seg_regions [OF wok j(1) s j(2)] x n by linarith
  qed
qed

lemma stored_here:
  assumes ok: "recv_wnd_ok rw" and s: "s < segs (r_w rw)" and n: "length p \<le> w_seg_len (r_w rw)"
  shows "take (length p) (drop (w_msg_len (r_w rw) * (seq mod w_cap (r_w rw)) + w_seg_len (r_w rw) * s)
    (w_buf (r_w (stored rw seq s c v p t)))) = p"
proof -
  let ?w = "r_w rw"
  have "seq mod w_cap ?w < w_cap ?w" using wnd_okD(1) [OF recv_wnd_okD(1) [OF ok]] by simp
  then have "w_msg_len ?w * (seq mod w_cap ?w) + w_seg_len ?w * s + length p \<le> length (w_buf ?w)"
    using recv_window.seg_offset_bound [OF ok _ s] n by (meson add_left_mono order_trans)
  then show ?thesis unfolding stored_buf Let_def by (rule blit_same)
qed

lemma partial_stored_here:
  assumes ok: "recv_wnd_ok rw" and M: "msg_fits (r_w rw) M" and k: "k = seq mod w_cap (r_w rw)"
    and s: "s < seg_count (r_w rw) (length M)"
    and new: "\<not> bit (m_cur_ack_vec (w_msg (r_w rw) ! k)) s" and part: "partial (r_w rw) k M"
  shows "partial (r_w (stored rw seq s c (2 ^ seg_count (r_w rw) (length M) - 1)
    (msg_seg (w_seg_len (r_w rw)) M s) t)) k M"
proof -
  let ?w = "r_w rw" let ?l = "w_seg_len ?w" let ?p = "msg_seg ?l M s"
  let ?n = "seg_count ?w (length M)" let ?m = "w_msg ?w ! k"
  define w' where "w' = r_w (stored rw seq s c (2 ^ ?n - 1) ?p t)"
  have wok: "wnd_ok ?w" using ok by (rule recv_wnd_okD(1))
  note wd = wnd_okD [OF wok]
  have nb: "?n \<le> segs ?w" "1 \<le> ?n" using seg_count_bounds [OF wok] M by (auto simp: msg_fits_def)
  have lp: "length (msg_seg ?l M j) \<le> ?l" for j by (simp add: length_msg_seg)
  have ss: "s < segs ?w" using s nb(1) by simp
  have m': "w_msg w' ! k = \<lparr>m_len = m_len ?m + length ?p, m_cur_ack_vec = m_cur_ack_vec ?m OR 2 ^ s,
      m_full_ack_vec = 2 ^ ?n - 1\<rparr>"
    using k wd(1,9) by (simp add: w'_def stored_msg)
  have P: "m_cur_ack_vec ?m < 2 ^ ?n" "m_len ?m = (\<Sum>j\<in>marked (m_cur_ack_vec ?m) ?n. length (msg_seg ?l M j))"
    "\<And>j. j \<in> marked (m_cur_ack_vec ?m) ?n \<Longrightarrow>
       take (length (msg_seg ?l M j)) (drop (w_msg_len ?w * k + ?l * j) (w_buf ?w)) = msg_seg ?l M j"
    using part by (auto simp: partial_def Let_def)
  have "take (length (msg_seg ?l M j)) (drop (w_msg_len ?w * k + ?l * j) (w_buf w')) = msg_seg ?l M j"
    if "j \<in> insert s (marked (m_cur_ack_vec ?m) ?n)" for j
  proof (cases "j = s")
    case True
    then show ?thesis using stored_here [OF ok ss lp] by (simp add: w'_def k)
  next
    case False
    with that have jm: "j \<in> marked (m_cur_ack_vec ?m) ?n" by simp
    then have "j < segs ?w" using nb(1) by (simp add: marked_def)
    then show ?thesis
      using stored_elsewhere [OF ok ss lp _ _ lp] P(3) [OF jm] False by (simp add: w'_def)
  qed
  moreover have "s \<notin> marked (m_cur_ack_vec ?m) ?n" using new by (simp add: marked_def)
  moreover have "(2 :: nat) ^ 1 \<le> 2 ^ ?n" using nb(2) by (intro power_increasing) auto
  moreover have "seg_count w' = seg_count ?w" "w_seg_len w' = ?l" "w_msg_len w' = w_msg_len ?w"
    by (simp_all add: w'_def)
  ultimately have "partial w' k M"
    using P(1,2) or_exp_less [OF P(1) s] by (simp add: partial_def Let_def m' marked_or [OF s])
  then show ?thesis by (simp only: w'_def)
qed

lemma partial_stored:
  assumes ok: "recv_wnd_ok rw" and M: "msg_fits (r_w rw) M" "msg_fits (r_w rw) M'"
    and k: "k < w_cap (r_w rw)"
    and s: "s < seg_count (r_w rw) (length M)"
    and same: "k = seq mod w_cap (r_w rw) \<Longrightarrow> M' = M"
    and new: "\<not> bit (m_cur_ack_vec (w_msg (r_w rw) ! (seq mod w_cap (r_w rw)))) s"
    and part: "partial (r_w rw) k M'"
  shows "partial (r_w (stored rw seq s c (2 ^ seg_count (r_w rw) (length M) - 1)
    (msg_seg (w_seg_len (r_w rw)) M s) t)) k M'"
proof (cases "k = seq mod w_cap (r_w rw)")
  case True
  then show ?thesis using partial_stored_here [OF ok M(1) True s] new part same by simp
next
  case False
  let ?w = "r_w rw" let ?p = "msg_seg (w_seg_len (r_w rw)) M s"
  have wok: "wnd_ok ?w" using ok by (rule recv_wnd_okD(1))
  have nb: "seg_count ?w (length X) \<le> segs ?w" if "msg_fits ?w X" for X
    using seg_count_bounds(2) [OF wok] that by (auto simp: msg_fits_def)
  have lp: "length (msg_seg (w_seg_len ?w) X j) \<le> w_seg_len ?w" for X j by (simp add: length_msg_seg)
  have ss: "s < segs ?w" using s nb [OF M(1)] by simp
  have "w_msg (r_w (stored rw seq s c (2 ^ seg_count ?w (length M) - 1) ?p t)) ! k = w_msg ?w ! k"
    using False by (simp add: stored_msg)
  moreover have "take (length (msg_seg (w_seg_len ?w) M' j)) (drop (w_msg_len ?w * k + w_seg_len ?w * j)
      (w_buf (r_w (stored rw seq s c (2 ^ seg_count ?w (length M) - 1) ?p t)))) =
    take (length (msg_seg (w_seg_len ?w) M' j)) (drop (w_msg_len ?w * k + w_seg_len ?w * j) (w_buf ?w))"
    if "j < segs ?w" for j
    using stored_elsewhere [OF ok ss lp that _ lp] False by simp
  ultimately show ?thesis
    using part nb [OF M(2)] by (auto simp: partial_def Let_def marked_def)
qed

section \<open>The window and the messages of the peer\<close>

definition recv_holds :: "(nat \<Rightarrow> byte list) \<Rightarrow> nat \<Rightarrow> arq__recv_wnd_t \<Rightarrow> bool" where
  "recv_holds msgs base rw \<longleftrightarrow> recv_wnd_ok rw \<and> w_seq (r_w rw) = base mod 4096 \<and>
     2 * w_cap (r_w rw) < 4096 \<and> r_slide rw \<le> w_size (r_w rw) \<and>
     r_copy_seq rw = (base + r_slide rw) mod 4096 \<and> (\<forall>a. msg_fits (r_w rw) (msgs a)) \<and>
     (\<forall>i<w_cap (r_w rw). if r_slide rw \<le> i \<and> i < w_size (r_w rw)
        then partial (r_w rw) (slot (r_w rw) i) (msgs (base + i))
        else empty_msg (msg_at (r_w rw) i)) \<and>
     (r_copy_ofs rw \<noteq> 0 \<longrightarrow> r_slide rw < w_size (r_w rw) \<and>
        complete_msg (msg_at (r_w rw) (r_slide rw)) \<and>
        r_copy_ofs rw < length (msgs (base + r_slide rw)))"

lemma recv_holdsD:
  assumes "recv_holds msgs base rw"
  shows "recv_wnd_ok rw" "w_seq (r_w rw) = base mod 4096" "2 * w_cap (r_w rw) < 4096"
    "r_slide rw \<le> w_size (r_w rw)" "r_copy_seq rw = (base + r_slide rw) mod 4096"
    "\<And>a. msg_fits (r_w rw) (msgs a)"
    "\<And>i. i < w_cap (r_w rw) \<Longrightarrow> r_slide rw \<le> i \<Longrightarrow> i < w_size (r_w rw) \<Longrightarrow>
       partial (r_w rw) (slot (r_w rw) i) (msgs (base + i))"
    "\<And>i. i < w_cap (r_w rw) \<Longrightarrow> \<not> (r_slide rw \<le> i \<and> i < w_size (r_w rw)) \<Longrightarrow>
       empty_msg (msg_at (r_w rw) i)"
    "r_copy_ofs rw \<noteq> 0 \<Longrightarrow> r_slide rw < w_size (r_w rw)"
    "r_copy_ofs rw \<noteq> 0 \<Longrightarrow> complete_msg (msg_at (r_w rw) (r_slide rw))"
    "r_copy_ofs rw \<noteq> 0 \<Longrightarrow> r_copy_ofs rw < length (msgs (base + r_slide rw))"
  using assms unfolding recv_holds_def by (auto split: if_splits)

lemma recv_wnd_ok_ack: "length a = length (r_ack rw) \<Longrightarrow> recv_wnd_ok (rw\<lparr>r_ack := a\<rparr>) = recv_wnd_ok rw"
  by (simp add: recv_wnd_ok_def)

lemma recv_holds_ack:
  "length a = length (r_ack rw) \<Longrightarrow> recv_holds msgs base (rw\<lparr>r_ack := a\<rparr>) = recv_holds msgs base rw"
  by (simp add: recv_holds_def recv_wnd_ok_ack)

lemma holds_slot:
  assumes "recv_holds msgs base rw"
  shows "slot (r_w rw) i = (base + i) mod w_cap (r_w rw)"
proof -
  have "w_cap (r_w rw) dvd 4096" using wnd_okD(2) recv_wnd_okD(1) recv_holdsD(1) assms by blast
  then show ?thesis
    by (simp add: slot_def recv_holdsD(2) [OF assms]) (metis mod_add_left_eq mod_mod_cancel)
qed

lemma holds_partial:
  assumes h: "recv_holds msgs base rw" and i: "i < w_cap (r_w rw)" "r_slide rw \<le> i"
  shows "partial (r_w rw) (slot (r_w rw) i) (msgs (base + i))"
  using recv_holdsD(7,8) [OF h i(1)] i(2) partial_empty by blast

text \<open>What has arrived of the messages that are not read yet: pairs of message and segment.\<close>

definition has_seg :: "arq__recv_wnd_t \<Rightarrow> nat \<Rightarrow> nat \<Rightarrow> bool" where
  "has_seg rw a s \<longleftrightarrow> bit (m_cur_ack_vec (w_msg (r_w rw) ! (a mod w_cap (r_w rw)))) s"

text \<open>Making room for message \<open>base + d\<close>.\<close>

lemma frame_size_holds:
  assumes h: "recv_holds msgs base rw" and d: "d + 1 < 4096"
  shows "frame_size (r_w rw) ((base + d) mod 4096) = d + 1"
proof -
  let ?b = "base mod 4096"
  have b: "?b < 4096" by simp
  have "(base + d) mod 4096 = (?b + d) mod 4096" by (simp add: mod_add_left_eq)
  also have "\<dots> = (if ?b + d < 4096 then ?b + d else ?b + d - 4096)"
    using d b by (simp add: le_mod_geq)
  finally have "(base + d) mod 4096 + 4096 - ?b + 1 = d + 1 + (if ?b + d < 4096 then 4096 else 0)"
    using b by simp
  then have "((base + d) mod 4096 + 4096 - ?b + 1) mod 4096 = (d + 1 + (if ?b + d < 4096 then 4096 else 0)) mod 4096"
    by (simp only:)
  also have "\<dots> = d + 1"
    using d by (cases "?b + d < 4096") (simp_all only: if_True if_False mod_add_self2 add_0_right mod_less)
  finally show ?thesis by (simp only: frame_size_def recv_holdsD(2) [OF h])
qed

lemma partial_cong:
  assumes "w_msg w' ! k = w_msg w ! k" "w_buf w' = w_buf w" "w_seg_len w' = w_seg_len w"
    "w_msg_len w' = w_msg_len w"
  shows "partial w' k M = partial w k M"
  by (simp add: partial_def Let_def seg_count_def assms)

lemma make_room_grown:
  assumes h: "recv_holds msgs base rw" and d: "d < w_cap (r_w rw)"
  shows "recv_holds msgs base (grown rw (d + 1))"
proof -
  let ?w = "r_w rw" let ?rw = "grown rw (d + 1)"
  note hd = recv_holdsD [OF h]
  have e: "slot (r_w ?rw) = slot ?w"
    by (simp add: fun_eq_iff grown_def slot_def)
  have p: "partial (r_w ?rw) k M = partial ?w k M" for k M
    by (rule partial_cong) (simp_all add: grown_def)
  have mf: "msg_fits (r_w ?rw) M = msg_fits ?w M" for M by (simp add: msg_fits_def grown_def)
  have f: "w_cap (r_w ?rw) = w_cap ?w" "w_seq (r_w ?rw) = w_seq ?w" "w_size (r_w ?rw) = max (w_size ?w) (d + 1)"
    "w_msg (r_w ?rw) = w_msg ?w" "r_slide ?rw = r_slide rw" "r_copy_seq ?rw = r_copy_seq rw"
    "r_copy_ofs ?rw = r_copy_ofs rw"
    by (simp_all add: grown_def)
  have "wnd_ok (r_w ?rw)"
    using recv_wnd_okD(1) [OF hd(1)] d unfolding wnd_ok_def by (simp add: grown_def segs_def)
  then have "recv_wnd_ok ?rw"
    using hd(1) by (simp add: recv_wnd_ok_def recv_msg_ok_def grown_def segs_def)
  then show ?thesis
    unfolding recv_holds_def f e p mf
    using hd holds_partial [OF h] by (auto simp: less_max_iff_disj)
qed

lemma make_room_slid:
  assumes h: "recv_holds msgs base rw" and d: "w_cap (r_w rw) \<le> d" "d < w_cap (r_w rw) + r_slide rw"
  shows "recv_holds msgs (base + r_slide rw) (slid rw (d + 1))"
proof -
  let ?w = "r_w rw" let ?rw = "slid rw (d + 1)" let ?s = "r_slide rw"
  note hd = recv_holdsD [OF h]
  note wd = wnd_okD [OF recv_wnd_okD(1) [OF hd(1)]]
  have f: "w_cap (r_w ?rw) = w_cap ?w" "w_seq (r_w ?rw) = (w_seq ?w + ?s) mod 4096"
    "w_size (r_w ?rw) = d + 1 - ?s" "w_msg (r_w ?rw) = w_msg ?w" "r_slide ?rw = 0"
    "r_copy_seq ?rw = r_copy_seq rw" "r_copy_ofs ?rw = r_copy_ofs rw"
    by (simp_all add: slid_def)
  have sl: "slot (r_w ?rw) i = slot ?w (?s + i)" for i
    by (rule slot_advance [OF wd(2) f(2,1)])
  have p: "partial (r_w ?rw) k M = partial ?w k M" for k M
    by (rule partial_cong) (simp_all add: slid_def)
  have mf: "msg_fits (r_w ?rw) M = msg_fits ?w M" for M by (simp add: msg_fits_def slid_def)
  have "wnd_ok (r_w ?rw)"
    using recv_wnd_okD(1) [OF hd(1)] d unfolding wnd_ok_def by (simp add: slid_def segs_def)
  then have ok: "recv_wnd_ok ?rw"
    using hd(1) by (simp add: recv_wnd_ok_def recv_msg_ok_def slid_def segs_def)
  have wrap: "slot ?w i = slot ?w (i - w_cap ?w)" if "w_cap ?w \<le> i" for i
  proof -
    have "w_seq ?w + i = w_seq ?w + (i - w_cap ?w) + w_cap ?w" using that by simp
    then show ?thesis unfolding slot_def by (simp only: mod_add_self2)
  qed
  have empty: "empty_msg (w_msg ?w ! slot ?w (?s + i))" if "i < w_cap ?w" "\<not> ?s + i < w_size ?w" for i
  proof (cases "?s + i < w_cap ?w")
    case True
    then show ?thesis using hd(8) that by simp
  next
    case False
    then show ?thesis
      using wrap [of "?s + i"] hd(4) wd(12) that hd(8) [of "?s + i - w_cap ?w"] by simp
  qed
  have part: "partial ?w (slot ?w (?s + i)) (msgs (base + ?s + i))" if "i < w_cap ?w" for i
  proof (cases "?s + i < w_size ?w")
    case True
    then show ?thesis using hd(7) [of "?s + i"] wd(12) by (simp add: add.assoc)
  next
    case False
    then show ?thesis using empty [OF that] partial_empty by blast
  qed
  have seq: "(base mod 4096 + ?s) mod 4096 = (base + ?s) mod 4096" by (simp add: mod_add_left_eq)
  show ?thesis
    unfolding recv_holds_def f sl p mf
    using ok hd(2,3,5,6,9-11) part empty seq d wd(12) hd(4) by auto
qed

lemma make_room_holds:
  assumes h: "recv_holds msgs base rw" and d: "r_slide rw \<le> d" "d < w_cap (r_w rw) + r_slide rw"
  shows "\<exists>rw' base'. recv_wnd_make_room rw ((base + d) mod 4096) = Some rw' \<and> recv_holds msgs base' rw' \<and>
    base' + r_slide rw' = base + r_slide rw \<and> base' \<le> base + d \<and> base + d < base' + w_size (r_w rw') \<and>
    w_msg (r_w rw') = w_msg (r_w rw) \<and> w_cap (r_w rw') = w_cap (r_w rw) \<and>
    w_seg_len (r_w rw') = w_seg_len (r_w rw) \<and> w_msg_len (r_w rw') = w_msg_len (r_w rw) \<and>
    r_copy_ofs rw' = r_copy_ofs rw"
proof -
  note hd = recv_holdsD [OF h]
  have d4: "d + 1 < 4096"
    using d hd(3,4) wnd_okD(12) [OF recv_wnd_okD(1) [OF hd(1)]] by linarith
  have room: "recv_wnd_make_room rw ((base + d) mod 4096) =
    (if d + 1 \<le> w_cap (r_w rw) then Some (grown rw (d + 1))
     else if r_slide rw \<le> d + 1 \<and> d + 1 - r_slide rw \<le> w_cap (r_w rw) then Some (slid rw (d + 1)) else None)"
    using recv_wnd_make_room_eq [OF hd(1), of "(base + d) mod 4096"] frame_size_holds [OF h d4] by simp
  show ?thesis
  proof (cases "d < w_cap (r_w rw)")
    case True
    then show ?thesis
      using room make_room_grown [OF h True] by (intro exI [of _ "grown rw (d + 1)"] exI [of _ base])
        (simp add: grown_def less_max_iff_disj)
  next
    case False
    then show ?thesis
      using room d make_room_slid [OF h, of d] by (intro exI [of _ "slid rw (d + 1)"] exI [of _ "base + r_slide rw"])
        (simp add: slid_def)
  qed
qed

lemma complete_all_marked:
  assumes "partial w k M" "complete_msg (w_msg w ! k)" "s < seg_count w (length M)"
  shows "bit (m_cur_ack_vec (w_msg w ! k)) s"
proof -
  have "m_cur_ack_vec (w_msg w ! k) = 2 ^ seg_count w (length M) - 1"
    using assms(1,2) by (auto simp: partial_def complete_msg_def Let_def)
  then have "m_cur_ack_vec (w_msg w ! k) = mask (seg_count w (length M))"
    by (simp add: mask_eq_exp_minus_1)
  then show ?thesis using assms(3) by (simp add: bit_mask_iff)
qed

lemma fits_seg_count:
  assumes "wnd_ok w" "msg_fits w M"
  shows "1 \<le> seg_count w (length M)" "seg_count w (length M) \<le> segs w" "seg_count w (length M) \<le> 16"
proof -
  have M: "0 < length M" "length M \<le> w_msg_len w" using assms(2) by (simp_all add: msg_fits_def)
  note sc = seg_count_bounds(1,2) [OF assms(1) M]
  then show "1 \<le> seg_count w (length M)" "seg_count w (length M) \<le> segs w" by simp_all
  show "seg_count w (length M) \<le> 16" using sc(2) wnd_okD(8) [OF assms(1)] by linarith
qed

lemma store_holds:
  assumes h: "recv_holds msgs base rw" and d: "r_slide rw \<le> d" "d < w_size (r_w rw)"
  defines "n \<equiv> seg_count (r_w rw) (length (msgs (base + d)))"
  assumes s: "s < n" and new: "\<not> has_seg rw (base + d) s" and t: "t < 2 ^ 32"
  shows "recv_holds msgs base (stored rw ((base + d) mod 4096) s n (2 ^ n - 1)
    (msg_seg (w_seg_len (r_w rw)) (msgs (base + d)) s) t)"
proof -
  let ?w = "r_w rw" let ?p = "msg_seg (w_seg_len ?w) (msgs (base + d)) s"
  define rw' where "rw' = stored rw ((base + d) mod 4096) s n (2 ^ n - 1) ?p t"
  note hd = recv_holdsD [OF h]
  have wok: "wnd_ok ?w" by (rule recv_wnd_okD(1) [OF hd(1)])
  note wd = wnd_okD [OF wok]
  have dc: "d < w_cap ?w" using d wd(12) by simp
  have k: "(base + d) mod 4096 mod w_cap ?w = slot ?w d" "(base + d) mod w_cap ?w = slot ?w d"
    using wd(2) by (simp_all add: holds_slot [OF h] mod_seq_mod_cap)
  have fit: "msg_fits ?w (msgs (base + d))" by (rule hd(6))
  have n: "n \<le> segs ?w" "n \<le> 16"
    using fits_seg_count(2,3) [OF wok fit] by (simp_all add: n_def)
  have vn: "(2 :: nat) ^ n - 1 < 65536" by (rule seg_cnt_vec [OF n(2)])
  have new': "\<not> bit (m_cur_ack_vec (w_msg ?w ! ((base + d) mod 4096 mod w_cap ?w))) s"
    using new k by (simp add: has_seg_def)
  have ok: "recv_wnd_ok rw'"
    unfolding rw'_def by (rule stored_ok [OF hd(1) _ _ vn t new']) (use s n in \<open>simp_all add: length_msg_seg\<close>)
  have f: "w_seq (r_w rw') = w_seq ?w" "w_size (r_w rw') = w_size ?w" "w_cap (r_w rw') = w_cap ?w"
    "w_msg_len (r_w rw') = w_msg_len ?w" "r_copy_seq rw' = r_copy_seq rw" "r_copy_ofs rw' = r_copy_ofs rw"
    "r_slide rw' = r_slide rw"
    by (simp_all add: rw'_def)
  have sl: "slot (r_w rw') i = slot ?w i" for i by (rule slot_cong) (simp_all add: f)
  have mf: "msg_fits (r_w rw') M = msg_fits ?w M" for M by (simp add: msg_fits_def f)
  have other: "w_msg (r_w rw') ! slot ?w i = msg_at ?w i" if "i < w_cap ?w" "i \<noteq> d" for i
    using that slot_inject_ok [OF dc that(1)] by (simp add: rw'_def stored_msg k)
  have part: "partial (r_w rw') (slot ?w i) (msgs (base + i))"
    if i: "i < w_cap ?w" "r_slide rw \<le> i" "i < w_size ?w" for i
    unfolding rw'_def n_def
  proof (rule partial_stored [OF hd(1) fit hd(6) _ s [unfolded n_def] _ new'])
    show "slot ?w i < w_cap ?w" using wok by simp
    show "msgs (base + i) = msgs (base + d)" if "slot ?w i = (base + d) mod 4096 mod w_cap ?w"
      using that slot_inject_ok [OF i(1) dc] by (simp add: k)
    show "partial ?w (slot ?w i) (msgs (base + i))" by (rule hd(7) [OF i])
  qed
  have ofs: "complete_msg (w_msg (r_w rw') ! slot ?w (r_slide rw))" if o: "r_copy_ofs rw \<noteq> 0"
  proof -
    have c: "r_slide rw < w_cap ?w" using hd(9) [OF o] wd(12) by simp
    have "bit (m_cur_ack_vec (msg_at ?w (r_slide rw))) s" if "r_slide rw = d"
      using complete_all_marked [OF holds_partial [OF h c order.refl] hd(10) [OF o]] s that
      by (simp add: n_def)
    then have "r_slide rw \<noteq> d" using new' k by auto
    then show ?thesis using other [OF c] hd(10) [OF o] by simp
  qed
  have "recv_holds msgs base rw'"
    unfolding recv_holds_def f sl mf
    using ok hd(2-6,8,9,11) part other ofs d(2) d(1) by auto
  then show ?thesis by (simp only: rw'_def)
qed

lemma mod_window_inject:
  fixes a b :: nat
  assumes "m \<le> a" "a < m + c" "m \<le> b" "b < m + c"
  shows "a mod c = b mod c \<longleftrightarrow> a = b"
proof (rule iffI, rule ccontr)
  assume eq: "a mod c = b mod c" and ne: "a \<noteq> b"
  have "a = m + (a - m)" "b = m + (b - m)" "a - m \<noteq> b - m" "a - m < c" "b - m < c"
    using assms ne by auto
  then show False
    using eq mod_add_neq [of "a - m" "b - m" c m] mod_add_neq [of "b - m" "a - m" c m]
    by (metis linorder_neqE_nat trans_less_add2)
qed simp

lemma recv_frame_holds:
  fixes s :: nat
  assumes h: "recv_holds msgs base rw" and d: "r_slide rw \<le> d" "d < w_cap (r_w rw) + r_slide rw"
  defines "n \<equiv> seg_count (r_w rw) (length (msgs (base + d)))"
  defines "p \<equiv> msg_seg (w_seg_len (r_w rw)) (msgs (base + d)) s"
  assumes s: "s < n" and t: "t < 2 ^ 32"
  shows "\<exists>k rw' base'. arq__recv_wnd_frame b rw ((base + d) mod 4096) s n p (length p) t = Some (k, rw') \<and>
    recv_holds msgs base' rw' \<and> base' + r_slide rw' = base + r_slide rw \<and>
    r_copy_ofs rw' = r_copy_ofs rw \<and> w_cap (r_w rw') = w_cap (r_w rw) \<and>
    w_seg_len (r_w rw') = w_seg_len (r_w rw) \<and> w_msg_len (r_w rw') = w_msg_len (r_w rw) \<and>
    (\<forall>a s'. base + r_slide rw \<le> a \<and> a < base + r_slide rw + w_cap (r_w rw) \<longrightarrow>
       has_seg rw' a s' = (has_seg rw a s' \<or> a = base + d \<and> s' = s))"
proof -
  let ?w = "r_w rw"
  obtain rw1 base1 where room: "recv_wnd_make_room rw ((base + d) mod 4096) = Some rw1"
    and h1: "recv_holds msgs base1 rw1" and b1: "base1 + r_slide rw1 = base + r_slide rw"
    and d1: "base1 \<le> base + d" "base + d < base1 + w_size (r_w rw1)"
    and f1: "w_msg (r_w rw1) = w_msg ?w" "w_cap (r_w rw1) = w_cap ?w" "w_seg_len (r_w rw1) = w_seg_len ?w"
      "w_msg_len (r_w rw1) = w_msg_len ?w" "r_copy_ofs rw1 = r_copy_ofs rw"
    using make_room_holds [OF h d] by blast
  let ?d = "base + d - base1" let ?k = "(base + d) mod 4096 mod w_cap (r_w rw1)"
  note hd = recv_holdsD [OF h] and hd1 = recv_holdsD [OF h1]
  have wok: "wnd_ok ?w" by (rule recv_wnd_okD(1) [OF hd(1)])
  note wd = wnd_okD [OF wok]
  have dd: "base1 + ?d = base + d" "r_slide rw1 \<le> ?d" "?d < w_size (r_w rw1)" using d1 b1 d by auto
  have n1: "n = seg_count (r_w rw1) (length (msgs (base + d)))" by (simp add: n_def seg_count_def f1)
  have n: "n \<le> segs ?w" "n \<le> 16" "1 \<le> n"
    using fits_seg_count [OF wok hd(6) [of "base + d"]] by (simp_all add: n_def)
  have lp: "length p \<le> w_seg_len ?w" by (simp add: p_def length_msg_seg)
  have s1: "s < segs (r_w rw1)" using s n(1) by (simp add: segs_def f1)
  have n32: "n < 2 ^ 32" using n(2) by simp
  have lp1: "length p \<le> w_seg_len (r_w rw1)" using lp f1 by simp
  have run: "arq__recv_wnd_frame b rw ((base + d) mod 4096) s n p (length p) t =
      Some (if bit (m_cur_ack_vec (w_msg (r_w rw1) ! ?k)) s
            then (0, rw1\<lparr>r_ack := (r_ack rw1)[?k := True]\<rparr>)
            else (length p, stored rw1 ((base + d) mod 4096) s n (2 ^ n - 1) p t))"
    using recv_wnd_frame_run [OF n(2) lp, of b "(base + d) mod 4096" s t] room
      recv_wnd_store_eq [OF hd1(1) s1 lp1 n(3) n32 seg_cnt_vec [OF n(2)], of "(base + d) mod 4096" t]
    by simp
  have kk: "?k = (base + d) mod w_cap ?w" using wd(2) by (simp add: f1 mod_seq_mod_cap)
  have hs1: "has_seg rw1 = has_seg rw" by (simp add: fun_eq_iff has_seg_def f1)
  have mod_eq: "a mod w_cap ?w = (base + d) mod w_cap ?w \<longleftrightarrow> a = base + d"
    if "base + r_slide rw \<le> a" "a < base + r_slide rw + w_cap ?w" for a
    using that d by (intro mod_window_inject [where m = "base + r_slide rw"]) auto
  show ?thesis
  proof (cases "has_seg rw (base + d) s")
    case True
    then have b: "bit (m_cur_ack_vec (w_msg (r_w rw1) ! ?k)) s" by (simp only: has_seg_def kk f1(1))
    let ?rw = "rw1\<lparr>r_ack := (r_ack rw1)[?k := True]\<rparr>"
    have "recv_holds msgs base1 ?rw"
      using h1 by (simp add: recv_holds_ack)
    moreover have "has_seg ?rw = has_seg rw" by (simp add: fun_eq_iff has_seg_def f1)
    ultimately show ?thesis
      using run b b1 f1 True by (intro exI [of _ 0] exI [of _ ?rw] exI [of _ base1]) auto
  next
    case False
    then have b: "\<not> bit (m_cur_ack_vec (w_msg (r_w rw1) ! ?k)) s" by (simp only: has_seg_def kk f1(1) not_False_eq_True)
    let ?rw = "stored rw1 ((base + d) mod 4096) s n (2 ^ n - 1) p t"
    have "recv_holds msgs base1 ?rw"
      using store_holds [OF h1 dd(2,3), of s t] s t False unfolding dd(1) n1 hs1 p_def f1(3) by blast
    moreover have "has_seg ?rw a s' = (has_seg rw a s' \<or> a = base + d \<and> s' = s)"
      if "base + r_slide rw \<le> a" "a < base + r_slide rw + w_cap ?w" for a s'
      using mod_eq [OF that] wd(1,9) kk [unfolded f1]
      by (auto simp: has_seg_def stored_msg f1 bit_or_iff bit_exp_iff)
    ultimately show ?thesis
      using run b b1 f1 by (intro exI [of _ "length p"] exI [of _ ?rw] exI [of _ base1]) auto
  qed
qed

section \<open>Reading\<close>

text \<open>The bytes the user can read at once: the complete messages from the read position on.\<close>

definition avail :: "(nat \<Rightarrow> byte list) \<Rightarrow> nat \<Rightarrow> arq__recv_wnd_t \<Rightarrow> byte list" where
  "avail msgs base rw = drop (r_copy_ofs rw) (concat (map (\<lambda>i. msgs (base + i))
     (takeWhile (\<lambda>i. complete_msg (msg_at (r_w rw) i)) [r_slide rw..<w_size (r_w rw)])))"

text \<open>The window after its first unread message was read to the end.\<close>

definition advanced :: "arq__recv_wnd_t \<Rightarrow> arq__recv_wnd_t" where
  "advanced rw = rw\<lparr>
     r_w := (r_w rw)\<lparr>w_msg := (w_msg (r_w rw))[slot (r_w rw) (r_slide rw) := fresh_msg (r_w rw)]\<rparr>,
     r_copy_ofs := 0, r_copy_seq := (r_copy_seq rw + 1) mod 4096, r_slide := r_slide rw + 1\<rparr>"

lemma advanced_fields:
  "w_seq (r_w (advanced rw)) = w_seq (r_w rw)" "w_size (r_w (advanced rw)) = w_size (r_w rw)"
  "w_cap (r_w (advanced rw)) = w_cap (r_w rw)" "w_msg_len (r_w (advanced rw)) = w_msg_len (r_w rw)"
  "w_seg_len (r_w (advanced rw)) = w_seg_len (r_w rw)" "w_buf (r_w (advanced rw)) = w_buf (r_w rw)"
  "r_copy_ofs (advanced rw) = 0" "r_slide (advanced rw) = r_slide rw + 1"
  "r_copy_seq (advanced rw) = (r_copy_seq rw + 1) mod 4096"
  "w_full_ack_vec (r_w (advanced rw)) = w_full_ack_vec (r_w rw)"
  by (simp_all add: advanced_def)

lemma slot_advanced: "slot (r_w (advanced rw)) i = slot (r_w rw) i"
  by (rule slot_cong) (simp_all add: advanced_fields)

lemma advanced_msg:
  assumes "wnd_ok (r_w rw)" "r_slide rw < w_cap (r_w rw)" "i < w_cap (r_w rw)"
  shows "w_msg (r_w (advanced rw)) ! slot (r_w rw) i =
    (if i = r_slide rw then fresh_msg (r_w rw) else msg_at (r_w rw) i)"
proof -
  have "slot (r_w rw) (r_slide rw) < length (w_msg (r_w rw))" using assms(1) by simp
  moreover have "slot (r_w rw) i = slot (r_w rw) (r_slide rw) \<longleftrightarrow> i = r_slide rw"
    by (rule slot_inject_ok [OF assms(3,2)])
  ultimately show ?thesis
    by (cases "i = r_slide rw") (simp_all add: advanced_def)
qed

lemma advanced_holds:
  assumes h: "recv_holds msgs base rw" and sl: "r_slide rw < w_size (r_w rw)"
  shows "recv_holds msgs base (advanced rw)"
proof -
  let ?w = "r_w rw" let ?w' = "r_w (advanced rw)"
  note hd = recv_holdsD [OF h]
  have wok: "wnd_ok ?w" by (rule recv_wnd_okD(1) [OF hd(1)])
  note wd = wnd_okD [OF wok]
  have sc: "r_slide rw < w_cap ?w" using sl wd(12) by simp
  have fresh: "fresh_msg ?w = \<lparr>m_len = 0, m_cur_ack_vec = 0, m_full_ack_vec = 2 ^ segs ?w - 1\<rparr>"
    using wd(13) by (simp add: fresh_msg_def)
  have v: "(2 :: nat) ^ segs ?w - 1 < 65536" "1 \<le> (2 :: nat) ^ segs ?w - 1"
  proof -
    show "(2 :: nat) ^ segs ?w - 1 < 65536" using wd(8) by (intro seg_cnt_vec) simp
    have "(2 :: nat) ^ 1 \<le> 2 ^ segs ?w" using wd(7) by (intro power_increasing) auto
    then show "1 \<le> (2 :: nat) ^ segs ?w - 1" by simp
  qed
  have sg: "segs ?w' = segs ?w" by (simp add: segs_def advanced_fields)
  have "wnd_ok ?w'"
    using wd unfolding wnd_ok_def sg by (simp add: advanced_fields) (simp add: advanced_def)
  moreover have "recv_msg_ok ?w' (w_msg ?w' ! k)" if "k < w_cap ?w" for k
  proof (cases "k = slot ?w (r_slide rw)")
    case True
    then show ?thesis using that wd(9) v by (simp add: recv_msg_ok_def sg advanced_def fresh)
  next
    case False
    then have "w_msg ?w' ! k = w_msg ?w ! k" by (simp add: advanced_def)
    then show ?thesis
      using recv_wnd_okD(6) [OF hd(1) that] by (simp add: recv_msg_ok_def sg advanced_fields)
  qed
  moreover have "r_slide rw + 1 < 65536" using sc wd(3) by simp
  ultimately have ok: "recv_wnd_ok (advanced rw)"
    using recv_wnd_okD(2,3) [OF hd(1)]
    unfolding recv_wnd_ok_def advanced_fields(3,7,8,9) by (simp add: advanced_def)
  have part: "partial ?w' (slot ?w i) (msgs (base + i))" if "i < w_cap ?w" "r_slide rw < i" "i < w_size ?w" for i
  proof -
    have "w_msg ?w' ! slot ?w i = msg_at ?w i" using advanced_msg [OF wok sc that(1)] that(2) by simp
    then show ?thesis
      using hd(7) [OF that(1) _ that(3)] that(2) partial_cong [of ?w' "slot ?w i" ?w] by (simp add: advanced_fields)
  qed
  have empty: "empty_msg (w_msg ?w' ! slot ?w i)" if "i < w_cap ?w" "\<not> (r_slide rw < i \<and> i < w_size ?w)" for i
    using advanced_msg [OF wok sc that(1)] hd(8) [OF that(1)] that(2) v fresh
    by (cases "i = r_slide rw") (auto simp: empty_msg_def)
  have mf: "msg_fits ?w' M = msg_fits ?w M" for M by (simp add: msg_fits_def advanced_fields)
  have cs: "((base + r_slide rw) mod 4096 + 1) mod 4096 = (base + (r_slide rw + 1)) mod 4096"
    by (simp only: mod_add_left_eq add.assoc)
  show ?thesis
    unfolding recv_holds_def slot_advanced advanced_fields mf hd(5) cs
    using ok hd(2,3,6) sl part empty by (auto simp: Suc_le_eq)
qed

lemma avail_step:
  assumes h: "recv_holds msgs base rw" and sl: "r_slide rw < w_size (r_w rw)"
    and c: "complete_msg (msg_at (r_w rw) (r_slide rw))"
  shows "avail msgs base rw = drop (r_copy_ofs rw) (msgs (base + r_slide rw)) @ avail msgs base (advanced rw)"
proof -
  let ?w = "r_w rw"
  note hd = recv_holdsD [OF h]
  have wok: "wnd_ok ?w" by (rule recv_wnd_okD(1) [OF hd(1)])
  note wd = wnd_okD [OF wok]
  have sc: "r_slide rw < w_cap ?w" using sl wd(12) by simp
  have upt: "[r_slide rw..<w_size ?w] = r_slide rw # [Suc (r_slide rw)..<w_size ?w]"
    using sl by (rule upt_conv_Cons)
  have "takeWhile (\<lambda>i. complete_msg (msg_at (r_w (advanced rw)) i)) [Suc (r_slide rw)..<w_size ?w] =
      takeWhile (\<lambda>i. complete_msg (msg_at ?w i)) [Suc (r_slide rw)..<w_size ?w]"
    by (rule takeWhile_cong) (use advanced_msg [OF wok sc] wd(12) in \<open>auto simp: slot_advanced\<close>)
  moreover have "r_copy_ofs rw \<le> length (msgs (base + r_slide rw))"
    using hd(11) by (cases "r_copy_ofs rw = 0") auto
  ultimately show ?thesis
    using c by (simp add: avail_def upt advanced_fields del: upt_Suc)
qed

lemma avail_none:
  assumes h: "recv_holds msgs base rw" and "\<not> (r_slide rw < w_size (r_w rw) \<and> complete_msg (msg_at (r_w rw) (r_slide rw)))"
  shows "avail msgs base rw = []"
proof (cases "r_slide rw < w_size (r_w rw)")
  case True
  then show ?thesis using assms(2) by (simp add: avail_def upt_conv_Cons)
qed (simp add: avail_def)

text \<open>What the user has read so far: whole messages, and a part of the next one.\<close>

definition read_upto :: "(nat \<Rightarrow> byte list) \<Rightarrow> nat \<Rightarrow> arq__recv_wnd_t \<Rightarrow> byte list" where
  "read_upto msgs base rw = concat (map msgs [0..<base + r_slide rw]) @
     take (r_copy_ofs rw) (msgs (base + r_slide rw))"

lemma read_upto_advanced:
  "read_upto msgs base (advanced rw) = read_upto msgs base rw @ drop (r_copy_ofs rw) (msgs (base + r_slide rw))"
  by (simp add: read_upto_def advanced_fields)

lemma recv_loop_stop:
  assumes h: "recv_holds msgs base rw" and n: "0 < n" and b: "b0 + i < 2 ^ 32"
    "(b0 + i) mod w_cap (r_w rw) = slot (r_w rw) (r_slide rw)"
    and stop: "\<not> (r_slide rw < w_size (r_w rw) \<and> complete_msg (msg_at (r_w rw) (r_slide rw)))"
  shows "recv_wnd_recv_loop n b0 i dst_max rw out = Some (out, rw)"
proof -
  let ?w = "r_w rw" let ?m = "msg_at ?w (r_slide rw)"
  note hd = recv_holdsD [OF h]
  have wok: "wnd_ok ?w" by (rule recv_wnd_okD(1) [OF hd(1)])
  note wd = wnd_okD [OF wok]
  have mem: "umod (u32 (b0 + i)) (w_cap ?w) = Some (slot ?w (r_slide rw))"
    "rd (w_msg ?w) (slot ?w (r_slide rw)) = Some ?m"
    using b wd(1) wok by (simp_all add: umod_pos u32_id rd_ok)
  have "m_len ?m = 0 \<or> m_cur_ack_vec ?m \<noteq> m_full_ack_vec ?m"
  proof (cases "r_slide rw < w_size ?w")
    case True
    then show ?thesis using stop by (simp add: complete_msg_def)
  next
    case False
    then have sl: "r_slide rw = w_size ?w" using hd(4) by simp
    have "empty_msg ?m"
    proof (cases "r_slide rw < w_cap ?w")
      case True
      then show ?thesis using hd(8) sl by simp
    next
      case False
      then have "r_slide rw = w_cap ?w" using sl wd(12) by simp
      then have "slot ?w (r_slide rw) = slot ?w 0" by (simp add: slot_def)
      then show ?thesis using hd(8) [of 0] wd(1) sl \<open>r_slide rw = w_cap ?w\<close> by simp
    qed
    then show ?thesis by (simp add: empty_msg_def)
  qed
  then show ?thesis
    using n by (cases n) (auto simp: mem Let_def)
qed

text \<open>A copy out of the part of a message that was not read yet.\<close>

lemma message_copy:
  assumes w: "wnd_ok w" "k < w_cap w" and M: "length M \<le> w_msg_len w"
    "take (length M) (drop (k * w_msg_len w) (w_buf w)) = M" and n: "ofs \<le> length M" "n \<le> length M - ofs"
  shows "memcpy_out (w_buf w) (k * w_msg_len w + ofs) n = Some (take n (drop ofs M))"
proof -
  have "(k + 1) * w_msg_len w \<le> length (w_buf w)" by (rule slot_region [OF w])
  then have "k * w_msg_len w + length M \<le> length (w_buf w)" using M(1) by simp
  moreover have "drop ofs M = take (length M - ofs) (drop (k * w_msg_len w + ofs) (w_buf w))"
    using arg_cong [OF M(2), of "drop ofs"] by (simp only: drop_take drop_drop add.commute)
  then have "take n (drop ofs M) = take n (drop (k * w_msg_len w + ofs) (w_buf w))"
    using n(2) by (simp only: take_take min_absorb1)
  moreover have "k * w_msg_len w + ofs + n \<le> length (w_buf w)" using calculation(1) n by linarith
  ultimately show ?thesis by (simp only: memcpy_out_def if_True)
qed

lemma recv_loop_message:
  assumes h: "recv_holds msgs base rw" and b: "b0 + i < 2 ^ 32"
    "(b0 + i) mod w_cap (r_w rw) = slot (r_w rw) (r_slide rw)"
    and c: "r_slide rw < w_size (r_w rw)" "complete_msg (msg_at (r_w rw) (r_slide rw))"
    and dst: "0 < dst_max" "dst_max < 2 ^ 32"
  defines "M \<equiv> drop (r_copy_ofs rw) (msgs (base + r_slide rw))"
  shows "recv_wnd_recv_loop (Suc n) b0 i dst_max rw out =
    (if dst_max < length M then Some (out @ take dst_max M, rw\<lparr>r_copy_ofs := r_copy_ofs rw + dst_max\<rparr>)
     else recv_wnd_recv_loop n b0 (Suc i) (dst_max - length M) (advanced rw) (out @ M))"
proof -
  let ?w = "r_w rw" let ?k = "slot ?w (r_slide rw)" let ?m = "w_msg ?w ! ?k"
  let ?msg = "msgs (base + r_slide rw)" let ?o = "r_copy_ofs rw"
  note hd = recv_holdsD [OF h]
  have wok: "wnd_ok ?w" by (rule recv_wnd_okD(1) [OF hd(1)])
  note wd = wnd_okD [OF wok] and wl = wnd_ok_msg_len [OF wok]
  have sc: "r_slide rw < w_cap ?w" using c(1) wd(12) by simp
  have k: "?k < w_cap ?w" using wok by simp
  have fit: "0 < length ?msg" "length ?msg \<le> w_msg_len ?w"
    using hd(6) by (simp_all add: msg_fits_def)
  note pc = partial_complete [OF wok k hd(6) hd(7) [OF sc order.refl c(1)] c(2)]
  have o: "?o < length ?msg" using hd(11) fit(1) by (cases "?o = 0") auto
  have lm: "length M = length ?msg - ?o" by (simp add: M_def)
  have mem: "umod (u32 (b0 + i)) (w_cap ?w) = Some ?k" "rd (w_msg ?w) ?k = Some ?m"
    "\<And>m. wr (w_msg ?w) ?k m = Some ((w_msg ?w)[?k := m])"
    using b wd(1,9) wok by (simp_all add: umod_pos u32_id rd_ok wr_ok)
  let ?n = "min dst_max (length M)"
  have cl: "arq__min dst_max (sub32 (m_len ?m) ?o) = ?n"
    using o fit(2) wl(2) by (simp add: pc(1) lm sub32_le)
  have reg: "(?k + 1) * w_msg_len ?w \<le> length (w_buf ?w)" by (rule slot_region [OF wok k])
  have src: "u32 (?k * w_msg_len ?w) = ?k * w_msg_len ?w"
    using reg wd(10) wl(4) by (simp add: u32_id)
  have bs: "memcpy_out (w_buf ?w) (?k * w_msg_len ?w + ?o) ?n = Some (take ?n M)"
    unfolding M_def using o
    by (intro message_copy [OF wok k fit(2) pc(2) [unfolded msg_bytes_def pc(1)]]) (simp_all add: lm [unfolded M_def])
  have nz: "m_len ?m \<noteq> 0" "\<not> m_cur_ack_vec ?m \<noteq> m_full_ack_vec ?m" "dst_max \<noteq> 0"
    using pc(1) fit(1) c(2) dst(1) by (auto simp: complete_msg_def)
  have cond: "?o + ?n < m_len ?m \<longleftrightarrow> dst_max < length M" using o by (auto simp: pc(1) lm)
  have upd: "?m\<lparr>m_len := 0, m_cur_ack_vec := 0, m_full_ack_vec := w_full_ack_vec ?w\<rparr> = fresh_msg ?w"
    by (cases ?m) (simp add: fresh_msg_def)
  have adv: "rw\<lparr>r_w := ?w\<lparr>w_msg := (w_msg ?w)[?k := fresh_msg ?w]\<rparr>, r_copy_ofs := 0,
      r_copy_seq := (r_copy_seq rw + 1) mod (ARQ__FRAME_MAX_SEQ_NUM + 1),
      r_slide := u16 (r_slide rw + 1)\<rparr> = advanced rw"
    using sc wd(3) by (simp add: advanced_def u16_id)
  have u: "u16 (?o + u16 ?n) = ?o + ?n" "sub32 dst_max ?n = dst_max - ?n"
    using o fit(2) wl(2) dst(2) lm by (auto simp: u16_id sub32_le)
  show ?thesis
  proof (cases "dst_max < length M")
    case True
    then have n: "?n = dst_max" by simp
    show ?thesis
      using True
      by (simp only: recv_wnd_recv_loop.simps Let_def mem bind.bind_lunit cl [unfolded n] src bs [unfolded n] nz
          cond [unfolded n] u [unfolded n] if_False if_True)
  next
    case False
    then have n: "?n = length M" by simp
    show ?thesis
      using False
      by (simp only: recv_wnd_recv_loop.simps Let_def mem bind.bind_lunit cl [unfolded n] src bs [unfolded n] nz
          cond [unfolded n] u [unfolded n] upd adv if_False take_all order.refl)
  qed
qed

text \<open>Reading a part of a message only moves the offset.\<close>

lemma holds_read_on:
  assumes h: "recv_holds msgs base rw"
    and c: "r_slide rw < w_size (r_w rw)" "complete_msg (msg_at (r_w rw) (r_slide rw))"
    and less: "n < length (drop (r_copy_ofs rw) (msgs (base + r_slide rw)))"
  shows "recv_holds msgs base (rw\<lparr>r_copy_ofs := r_copy_ofs rw + n\<rparr>)"
proof -
  note hd = recv_holdsD [OF h]
  have wok: "wnd_ok (r_w rw)" by (rule recv_wnd_okD(1) [OF hd(1)])
  note wd = wnd_okD [OF wok]
  have sc: "r_slide rw < w_cap (r_w rw)" using c(1) wd(12) by simp
  have k: "slot (r_w rw) (r_slide rw) < w_cap (r_w rw)" using wok by simp
  have "m_len (msg_at (r_w rw) (r_slide rw)) = length (msgs (base + r_slide rw))"
    by (rule partial_complete(1) [OF wok k hd(6) hd(7) [OF sc order.refl]]) (use c in auto)
  moreover have "r_copy_seq rw mod w_cap (r_w rw) = slot (r_w rw) (r_slide rw)"
    using wd(2) by (simp add: hd(5) holds_slot [OF h] mod_seq_mod_cap)
  ultimately have "recv_wnd_ok (rw\<lparr>r_copy_ofs := r_copy_ofs rw + n\<rparr>)"
    using hd(1) less by (simp add: recv_wnd_ok_def)
  moreover have "r_copy_ofs rw + n < length (msgs (base + r_slide rw))"
    using less by simp
  ultimately show ?thesis using h c by (simp add: recv_holds_def)
qed

lemma recv_loop:
  assumes "recv_holds msgs base rw" "w_size (r_w rw) \<le> r_slide rw + n" "b0 + i + n < 2 ^ 32"
    and "(b0 + i) mod w_cap (r_w rw) = slot (r_w rw) (r_slide rw)" "dst_max < 2 ^ 32"
  shows "\<exists>rw'. recv_wnd_recv_loop n b0 i dst_max rw out = Some (out @ take dst_max (avail msgs base rw), rw') \<and>
    recv_holds msgs base rw' \<and> avail msgs base rw' = drop dst_max (avail msgs base rw) \<and>
    read_upto msgs base rw' = read_upto msgs base rw @ take dst_max (avail msgs base rw)"
  using assms
proof (induction n arbitrary: i rw dst_max out)
  case 0
  then have "avail msgs base rw = []" by (intro avail_none) auto
  then show ?case using 0 by simp
next
  case (Suc n)
  note h = Suc.prems(1)
  note hd = recv_holdsD [OF h]
  have wok: "wnd_ok (r_w rw)" by (rule recv_wnd_okD(1) [OF hd(1)])
  note wd = wnd_okD [OF wok]
  show ?case
  proof (cases "dst_max = 0")
    case True
    then show ?thesis using h by simp
  next
    case dst: False
    show ?thesis
    proof (cases "r_slide rw < w_size (r_w rw) \<and> complete_msg (msg_at (r_w rw) (r_slide rw))")
      case False
      have "recv_wnd_recv_loop (Suc n) b0 i dst_max rw out = Some (out, rw)"
        by (rule recv_loop_stop [OF h _ _ Suc.prems(4) False]) (use Suc.prems(3) in simp_all)
      moreover have "avail msgs base rw = []" by (rule avail_none [OF h False])
      ultimately show ?thesis using h by simp
    next
      case True
      let ?M = "drop (r_copy_ofs rw) (msgs (base + r_slide rw))"
      have av: "avail msgs base rw = ?M @ avail msgs base (advanced rw)"
        using True by (intro avail_step [OF h]) auto
      have step: "recv_wnd_recv_loop (Suc n) b0 i dst_max rw out =
        (if dst_max < length ?M then Some (out @ take dst_max ?M, rw\<lparr>r_copy_ofs := r_copy_ofs rw + dst_max\<rparr>)
         else recv_wnd_recv_loop n b0 (Suc i) (dst_max - length ?M) (advanced rw) (out @ ?M))"
        by (rule recv_loop_message [OF h _ Suc.prems(4)]) (use True dst Suc.prems in auto)
      show ?thesis
      proof (cases "dst_max < length ?M")
        case less: True
        let ?rw = "rw\<lparr>r_copy_ofs := r_copy_ofs rw + dst_max\<rparr>"
        have "avail msgs base ?rw = drop dst_max (avail msgs base rw)"
          by (simp add: avail_def add.commute)
        moreover have "recv_holds msgs base ?rw"
          using True less by (intro holds_read_on [OF h]) simp_all
        moreover have "take dst_max (avail msgs base rw) = take dst_max ?M" using less by (simp add: av)
        moreover have "read_upto msgs base ?rw = read_upto msgs base rw @ take dst_max ?M"
          by (simp add: read_upto_def take_add)
        ultimately show ?thesis using less by (intro exI [of _ ?rw]) (simp only: step if_True simp_thms)
      next
        case False
        have "(b0 + Suc i) mod w_cap (r_w (advanced rw)) = slot (r_w (advanced rw)) (r_slide (advanced rw))"
          using Suc.prems(4) unfolding slot_advanced advanced_fields
          by (simp add: slot_def) (metis mod_Suc_eq)
        moreover have "recv_holds msgs base (advanced rw)" using True by (intro advanced_holds [OF h]) simp
        moreover have "w_size (r_w (advanced rw)) \<le> r_slide (advanced rw) + n" "b0 + Suc i + n < 2 ^ 32"
          "dst_max - length ?M < 2 ^ 32"
          using Suc.prems by (simp_all add: advanced_fields)
        ultimately obtain rw' where "recv_wnd_recv_loop n b0 (Suc i) (dst_max - length ?M) (advanced rw) (out @ ?M) =
            Some ((out @ ?M) @ take (dst_max - length ?M) (avail msgs base (advanced rw)), rw')"
          "recv_holds msgs base rw'"
          "avail msgs base rw' = drop (dst_max - length ?M) (avail msgs base (advanced rw))"
          "read_upto msgs base rw' = read_upto msgs base (advanced rw) @
            take (dst_max - length ?M) (avail msgs base (advanced rw))"
          using Suc.IH by blast
        moreover have "take dst_max (avail msgs base rw) = ?M @ take (dst_max - length ?M) (avail msgs base (advanced rw))"
          "drop dst_max (avail msgs base rw) = drop (dst_max - length ?M) (avail msgs base (advanced rw))"
          using False by (simp_all add: av)
        ultimately show ?thesis using False
          by (intro exI [of _ rw']) (simp only: step if_False append_assoc read_upto_advanced simp_thms)
      qed
    qed
  qed
qed

lemma recv_wnd_recv_holds:
  assumes h: "recv_holds msgs base rw" and dst: "dst_max < 2 ^ 32"
  shows "\<exists>rw'. arq__recv_wnd_recv rw dst_max = Some (take dst_max (avail msgs base rw), rw') \<and>
    recv_holds msgs base rw' \<and> avail msgs base rw' = drop dst_max (avail msgs base rw) \<and>
    read_upto msgs base rw' = read_upto msgs base rw @ take dst_max (avail msgs base rw)"
proof -
  note hd = recv_holdsD [OF h]
  have wok: "wnd_ok (r_w rw)" by (rule recv_wnd_okD(1) [OF hd(1)])
  note wd = wnd_okD [OF wok]
  have "(r_copy_seq rw + 0) mod w_cap (r_w rw) = slot (r_w rw) (r_slide rw)"
    using wd(2) by (simp add: hd(5) holds_slot [OF h] mod_seq_mod_cap)
  moreover have "r_copy_seq rw + 0 + w_size (r_w rw) < 2 ^ 32"
    using recv_wnd_okD(4) [OF hd(1)] wd(3,12) by simp
  ultimately show ?thesis
    using recv_loop [OF h _ _ _ dst, of "w_size (r_w rw)" "r_copy_seq rw" 0 "[]"]
    by (simp add: arq__recv_wnd_recv_def)
qed

section \<open>Acknowledging\<close>

lemma recv_wnd_ack_loop:
  assumes ok: "recv_wnd_ok rw" and "i + n \<le> w_cap (r_w rw)"
  shows "recv_wnd_ack_loop n i rw = Some
    (case find (\<lambda>j. r_ack rw ! slot (r_w rw) j) [i..<i + n] of
       None \<Rightarrow> (None, rw)
     | Some j \<Rightarrow> (Some ((w_seq (r_w rw) + j) mod 4096, m_cur_ack_vec (msg_at (r_w rw) j)),
                 rw\<lparr>r_ack := (r_ack rw)[slot (r_w rw) j := False]\<rparr>))"
  using assms(2)
proof (induction n arbitrary: i)
  case (Suc n)
  have wok: "wnd_ok (r_w rw)" by (rule recv_wnd_okD(1) [OF ok])
  note wd = wnd_okD [OF wok]
  have mem: "umod (w_seq (r_w rw) + i) (w_cap (r_w rw)) = Some (slot (r_w rw) i)"
    "rd (r_ack rw) (slot (r_w rw) i) = Some (r_ack rw ! slot (r_w rw) i)"
    "rd (w_msg (r_w rw)) (slot (r_w rw) i) = Some (msg_at (r_w rw) i)"
    "wr (r_ack rw) (slot (r_w rw) i) False = Some ((r_ack rw)[slot (r_w rw) i := False])"
    using wd(1) wok recv_wnd_okD(2) [OF ok] by (simp_all add: umod_pos slot_def [symmetric] rd_ok wr_ok)
  have upt: "[i..<Suc (i + n)] = i # [Suc i..<Suc (i + n)]" by (simp add: upt_conv_Cons)
  show ?case
    using Suc.IH [of "Suc i"] Suc.prems
    by (cases "r_ack rw ! slot (r_w rw) i") (simp_all add: mem upt del: upt_Suc)
qed simp

lemma recv_wnd_ack_flags:
  assumes ok: "recv_wnd_ok rw" and "arq__recv_wnd_ack rw = Some (a, rw')"
  shows "\<exists>ack. length ack = length (r_ack rw) \<and> rw' = rw\<lparr>r_ack := ack\<rparr>"
proof (cases "find (\<lambda>j. r_ack rw ! slot (r_w rw) j) [0..<w_size (r_w rw)]")
  case None
  then have "rw' = rw\<lparr>r_ack := r_ack rw\<rparr>"
    using assms(2) recv_wnd_ack_loop [OF ok, of 0 "w_size (r_w rw)"] wnd_okD(12) [OF recv_wnd_okD(1) [OF ok]]
    by (simp add: arq__recv_wnd_ack_def)
  then show ?thesis by blast
next
  case (Some j)
  then have "rw' = rw\<lparr>r_ack := (r_ack rw)[slot (r_w rw) j := False]\<rparr>"
    using assms(2) recv_wnd_ack_loop [OF ok, of 0 "w_size (r_w rw)"] wnd_okD(12) [OF recv_wnd_okD(1) [OF ok]]
    by (simp add: arq__recv_wnd_ack_def)
  then show ?thesis by (metis length_list_update)
qed

section \<open>Properties\<close>

text \<open>
  C10. Segments may arrive in any order and any number of times: a segment of a message that the
  user has not read completely, and that fits beside the read position, is always accepted
  without fault. Afterwards the window holds exactly the segments it held before and this one,
  each byte at its place; the read position has not moved.
\<close>

theorem segments_reassemble:
  assumes "recv_holds msgs base rw"
    and "r_slide rw \<le> d" "d < w_cap (r_w rw) + r_slide rw" "t < 2 ^ 32"
    and "s < seg_count (r_w rw) (length (msgs (base + d)))"
  defines "seg \<equiv> msg_seg (w_seg_len (r_w rw)) (msgs (base + d)) s"
  shows "\<exists>k rw' base'. arq__recv_wnd_frame b rw ((base + d) mod 4096) s
      (seg_count (r_w rw) (length (msgs (base + d)))) seg (length seg) t = Some (k, rw') \<and>
    recv_holds msgs base' rw' \<and> base' + r_slide rw' = base + r_slide rw \<and>
    r_copy_ofs rw' = r_copy_ofs rw \<and>
    (\<forall>a s'. base + r_slide rw \<le> a \<and> a < base + r_slide rw + w_cap (r_w rw) \<longrightarrow>
       has_seg rw' a s' = (has_seg rw a s' \<or> a = base + d \<and> s' = s))"
  using recv_frame_holds [OF assms(1-3) assms(5,4), of b] unfolding seg_def by blast

text \<open>
  C11. Reading returns the next bytes of the peer's stream: as many as the user's buffer takes of
  the complete messages in order, and it moves the read position by exactly these bytes, across
  message boundaries and in the middle of a message.
\<close>

theorem reading_in_order:
  assumes "recv_holds msgs base rw" "dst_max < 2 ^ 32"
  shows "\<exists>rw'. arq__recv_wnd_recv rw dst_max = Some (take dst_max (avail msgs base rw), rw') \<and>
    recv_holds msgs base rw' \<and> avail msgs base rw' = drop dst_max (avail msgs base rw) \<and>
    read_upto msgs base rw' = read_upto msgs base rw @ take dst_max (avail msgs base rw)"
  by (rule recv_wnd_recv_holds [OF assms])

text \<open>A window after a reset holds no message.\<close>

lemma recv_wnd_rst_holds:
  assumes "wnd_ok (r_w rw0)" "length (r_ack rw0) = w_cap (r_w rw0)" "arq__recv_wnd_rst rw0 = Some rw"
    and "2 * w_cap (r_w rw) < 4096" "\<And>a. msg_fits (r_w rw) (msgs a)"
  shows "recv_holds msgs 0 rw" "read_upto msgs 0 rw = []"
proof -
  note wd = wnd_okD [OF assms(1)]
  let ?w = "(r_w rw0)\<lparr>w_size := 0, w_seq := 0, w_msg := replicate (w_cap (r_w rw0)) (fresh_msg (r_w rw0))\<rparr>"
  have rw: "rw = rw0\<lparr>r_w := ?w, r_copy_seq := 0, r_copy_ofs := 0, r_slide := 0, r_inter_seg_ack_on := False,
      r_inter_seg_ack := ARQ_TIME_INFINITY, r_inter_seg_ack_seq := 0, r_ack := replicate (w_cap (r_w rw0)) False\<rparr>"
    using assms(3) by (simp add: recv_wnd_rst_eq [OF assms(1,2)])
  have v: "(2 :: nat) ^ segs (r_w rw0) - 1 < 65536" using wd(8) by (intro seg_cnt_vec) simp
  have "(2 :: nat) ^ 1 \<le> 2 ^ segs (r_w rw0)" using wd(7) by (intro power_increasing) auto
  then have v1: "1 \<le> (2 :: nat) ^ segs (r_w rw0) - 1" by simp
  have sg: "segs ?w = segs (r_w rw0)" by (simp add: segs_def)
  have fr: "fresh_msg (r_w rw0) = \<lparr>m_len = 0, m_cur_ack_vec = 0, m_full_ack_vec = 2 ^ segs (r_w rw0) - 1\<rparr>"
    using wd(13) by (simp add: fresh_msg_def)
  have "recv_wnd_ok rw"
    unfolding recv_wnd_ok_def rw using wnd_rst_ok [OF assms(1)] v
    by (simp add: recv_msg_ok_def sg fr ARQ_TIME_INFINITY_def)
  then show "recv_holds msgs 0 rw"
    using assms(4,5) wd(1) v1 by (simp add: recv_holds_def) (simp add: rw slot_def empty_msg_def fr)
  show "read_upto msgs 0 rw = []" by (simp add: read_upto_def rw)
qed

text \<open>A window after a reset, and the arrival and reading of a message of three bytes.\<close>

definition demo_recv_wnd :: arq__recv_wnd_t where
  "demo_recv_wnd = \<lparr>r_w = demo_wnd, r_ack = [False, False], r_inter_seg_ack = ARQ_TIME_INFINITY,
     r_inter_seg_ack_seq = 0, r_inter_seg_ack_on = False, r_copy_seq = 0, r_copy_ofs = 0, r_slide = 0\<rparr>"

definition demo_msgs :: "nat \<Rightarrow> byte list" where
  "demo_msgs a = [1, 2, 3]"

lemma demo_wnd_ok: "wnd_ok demo_wnd"
  by (simp add: wnd_ok_def segs_def demo_wnd_def)

lemma demo_recv_rst: "arq__recv_wnd_rst demo_recv_wnd = Some demo_recv_wnd"
proof -
  have "wnd_ok (r_w demo_recv_wnd)" "length (r_ack demo_recv_wnd) = w_cap (r_w demo_recv_wnd)"
    using demo_wnd_ok by (simp_all add: demo_recv_wnd_def demo_wnd_def)
  from recv_wnd_rst_eq [OF this] show ?thesis
    by (simp add: demo_recv_wnd_def demo_wnd_def fresh_msg_def numeral_2_eq_2)
qed

lemma demo_recv_start: "2 * w_cap (r_w demo_recv_wnd) < 4096" "msg_fits (r_w demo_recv_wnd) (demo_msgs a)"
  by (simp_all add: msg_fits_def demo_msgs_def demo_recv_wnd_def demo_wnd_def)

lemma demo_recv_holds: "recv_holds demo_msgs 0 demo_recv_wnd"
proof (rule recv_wnd_rst_holds(1) [OF _ _ demo_recv_rst demo_recv_start])
  show "wnd_ok (r_w demo_recv_wnd)" "length (r_ack demo_recv_wnd) = w_cap (r_w demo_recv_wnd)"
    using demo_wnd_ok by (simp_all add: demo_recv_wnd_def demo_wnd_def)
qed

theorem segments_reassemble_witness:
  "\<exists>k rw' base'. arq__recv_wnd_frame le_build demo_recv_wnd 0 1 2 [3] 1 9 = Some (k, rw') \<and>
     recv_holds demo_msgs base' rw' \<and> has_seg rw' 0 1 \<and> \<not> has_seg rw' 0 0"
proof -
  have c: "seg_count (r_w demo_recv_wnd) (length (demo_msgs (0 + 0))) = 2"
    "msg_seg (w_seg_len (r_w demo_recv_wnd)) (demo_msgs (0 + 0)) 1 = [3]" "r_slide demo_recv_wnd = 0"
    "w_cap (r_w demo_recv_wnd) = 2" "\<not> has_seg demo_recv_wnd 0 0"
    by (simp_all add: seg_count_def msg_seg_def demo_recv_wnd_def demo_wnd_def demo_msgs_def has_seg_def)
  then obtain k rw' base' where "arq__recv_wnd_frame le_build demo_recv_wnd 0 1 2 [3] 1 9 = Some (k, rw')"
    "recv_holds demo_msgs base' rw'"
    "\<forall>a s'. 0 \<le> a \<and> a < 2 \<longrightarrow> has_seg rw' a s' = (has_seg demo_recv_wnd a s' \<or> a = 0 \<and> s' = 1)"
    using segments_reassemble [OF demo_recv_holds, of 0 9 1 le_build] by (auto simp del: One_nat_def simp: One_nat_def [symmetric])
  with c(5) show ?thesis by (intro exI [of _ k] exI [of _ rw'] exI [of _ base']) auto
qed

text \<open>The segments arrive in the wrong order, and the user reads two of the three bytes.\<close>

definition demo_rw1 :: arq__recv_wnd_t where
  "demo_rw1 = snd (the (arq__recv_wnd_frame le_build demo_recv_wnd 0 1 2 [3] 1 9))"

definition demo_rw2 :: arq__recv_wnd_t where
  "demo_rw2 = snd (the (arq__recv_wnd_frame le_build demo_rw1 0 0 2 [1, 2] 2 9))"

definition demo_rw3 :: arq__recv_wnd_t where
  "demo_rw3 = snd (the (arq__recv_wnd_recv demo_rw2 2))"

lemma demo_arrivals:
  "arq__recv_wnd_frame le_build demo_recv_wnd 0 1 2 [3] 1 9 = Some (1, demo_rw1)"
  "arq__recv_wnd_frame le_build demo_rw1 0 0 2 [1, 2] 2 9 = Some (2, demo_rw2)"
  "arq__recv_wnd_recv demo_rw2 2 = Some ([1, 2], demo_rw3)"
  by code_simp+

lemma demo_segments:
  "seg_count (r_w demo_recv_wnd) (length (demo_msgs 0)) = 2" "msg_seg (w_seg_len (r_w demo_recv_wnd)) (demo_msgs 0) 1 = [3]"
  "seg_count (r_w demo_rw1) (length (demo_msgs 0)) = 2" "msg_seg (w_seg_len (r_w demo_rw1)) (demo_msgs 0) 0 = [1, 2]"
  "r_slide demo_recv_wnd = 0" "r_slide demo_rw1 = 0" "r_slide demo_rw2 = 0" "r_slide demo_rw3 = 0"
  "w_cap (r_w demo_recv_wnd) = 2" "w_cap (r_w demo_rw1) = 2" "r_copy_ofs demo_rw3 = 2"
  by code_simp+

text \<open>The window after both segments holds the message, and two of its bytes are read.\<close>

lemma demo_rw2_holds: "recv_holds demo_msgs 0 demo_rw2"
proof -
  have d: "r_slide demo_recv_wnd \<le> 0" "0 < w_cap (r_w demo_recv_wnd) + r_slide demo_recv_wnd"
    "1 < seg_count (r_w demo_recv_wnd) (length (demo_msgs (0 + 0)))" "(9 :: nat) < 2 ^ 32"
    "r_slide demo_rw1 \<le> 0" "0 < w_cap (r_w demo_rw1) + r_slide demo_rw1"
    "0 < seg_count (r_w demo_rw1) (length (demo_msgs (0 + 0)))"
    using demo_segments by simp_all
  from recv_frame_holds [OF demo_recv_holds d(1-4), of le_build] obtain base1
    where h1: "recv_holds demo_msgs base1 demo_rw1" "base1 + r_slide demo_rw1 = 0"
    using demo_segments demo_arrivals(1) by auto
  then have "recv_holds demo_msgs 0 demo_rw1" by simp
  from recv_frame_holds [OF this d(5-7,4), of le_build] obtain base2
    where h2: "recv_holds demo_msgs base2 demo_rw2" "base2 + r_slide demo_rw2 = 0"
    using demo_segments demo_arrivals(2) by (auto simp: numeral_2_eq_2)
  then show ?thesis by simp
qed

theorem reading_in_order_witness:
  "\<exists>rw'. arq__recv_wnd_recv demo_rw2 2 = Some ([1, 2], rw') \<and> recv_holds demo_msgs 0 rw' \<and>
     avail demo_msgs 0 rw' = [3] \<and> read_upto demo_msgs 0 rw' = [1, 2]"
proof -
  have "avail demo_msgs 0 demo_rw2 = [1, 2, 3]" "read_upto demo_msgs 0 demo_rw2 = []" by code_simp+
  then show ?thesis using reading_in_order [OF demo_rw2_holds, of 2] by simp
qed

end
