(* ===== verification/Arq_Recv_Frame.thy ===== *)
theory Arq_Recv_Frame imports Arq_Frame begin

text \<open>
  The receive frame of \<open>src/arq.h\<close> (\<open>arq__recv_frame_t\<close>): the buffer that collects bytes from the
  wire until a zero byte ends a frame. The locale \<open>delimited_buffer\<close> states what a frame reader
  needs of such a buffer: fed in chunks of any size, it stops right behind the delimiter.
\<close>

section \<open>State and operations\<close>

datatype arq__recv_frame_state_t =
    ARQ__RECV_FRAME_STATE_ACCUMULATING
  | ARQ__RECV_FRAME_STATE_FULL_FRAME_PRESENT

record arq__recv_frame_t =
  rf_buf :: "byte list"
  rf_state :: arq__recv_frame_state_t
  rf_cap :: nat
  rf_len :: nat

definition arq__recv_frame_init :: "build \<Rightarrow> arq__recv_frame_t \<Rightarrow> nat \<Rightarrow> arq__recv_frame_t option" where
  "arq__recv_frame_init b f cap = do {
     ARQ_ASSERT b (cap < 65535);
     Some (f\<lparr>rf_cap := u16 cap\<rparr>)
   }"

definition arq__recv_frame_rst :: "arq__recv_frame_t \<Rightarrow> arq__recv_frame_t" where
  "arq__recv_frame_rst f = f\<lparr>rf_len := 0, rf_state := ARQ__RECV_FRAME_STATE_ACCUMULATING\<rparr>"

text \<open>
  The loop of \<open>arq__recv_frame_fill\<close>: \<open>len\<close> bytes are left, the next one is \<open>src ! i\<close> and goes to
  offset \<open>dst\<close>. The result is the number of bytes still left, the buffer and the state.
\<close>

primrec recv_frame_fill_loop ::
  "nat \<Rightarrow> byte list \<Rightarrow> nat \<Rightarrow> byte list \<Rightarrow> nat \<Rightarrow> arq__recv_frame_state_t \<Rightarrow>
   (nat \<times> byte list \<times> arq__recv_frame_state_t) option" where
  "recv_frame_fill_loop 0 src i buf dst st = Some (0, buf, st)"
| "recv_frame_fill_loop (Suc len) src i buf dst st = do {
     x \<leftarrow> rd src i;
     buf' \<leftarrow> wr buf dst x;
     if x = 0 then Some (len, buf', ARQ__RECV_FRAME_STATE_FULL_FRAME_PRESENT)
     else recv_frame_fill_loop len src (Suc i) buf' (Suc dst) st
   }"

definition arq__recv_frame_fill ::
  "arq__recv_frame_t \<Rightarrow> byte list \<Rightarrow> nat \<Rightarrow> (nat \<times> arq__recv_frame_t) option" where
  "arq__recv_frame_fill f src len0 =
     (if rf_state f = ARQ__RECV_FRAME_STATE_FULL_FRAME_PRESENT then Some (0, f)
      else do {
        let ret = arq__min len0 (sub32 (rf_cap f) (rf_len f));
        (len, buf, st) \<leftarrow> recv_frame_fill_loop ret src 0 (rf_buf f) (rf_len f) (rf_state f);
        Some (sub32 ret len,
              f\<lparr>rf_buf := buf, rf_state := st, rf_len := u16 (rf_len f + u16 (sub32 ret len))\<rparr>)
      })"

section \<open>What filling does\<close>

definition recv_frame_ok :: "arq__recv_frame_t \<Rightarrow> bool" where
  "recv_frame_ok f \<longleftrightarrow> rf_len f \<le> rf_cap f \<and> rf_cap f \<le> length (rf_buf f) \<and> rf_cap f < 65535 \<and>
     (rf_state f = ARQ__RECV_FRAME_STATE_FULL_FRAME_PRESENT \<longleftrightarrow>
        0 < rf_len f \<and> rf_buf f ! (rf_len f - 1) = 0) \<and>
     (\<forall>i. i + 1 < rf_len f \<longrightarrow> rf_buf f ! i \<noteq> 0)"

definition rf_bytes :: "arq__recv_frame_t \<Rightarrow> byte list" where
  "rf_bytes f = take (rf_len f) (rf_buf f)"

abbreviation rf_full :: "arq__recv_frame_t \<Rightarrow> bool" where
  "rf_full f \<equiv> rf_state f = ARQ__RECV_FRAME_STATE_FULL_FRAME_PRESENT"

text \<open>The bytes up to and including the first zero.\<close>

fun upto_zero :: "byte list \<Rightarrow> byte list" where
  "upto_zero [] = []"
| "upto_zero (x # xs) = (if x = 0 then [x] else x # upto_zero xs)"

lemma upto_zero_prefix: "upto_zero xs = take (length (upto_zero xs)) xs"
  by (induction xs) auto

lemma length_upto_zero: "length (upto_zero xs) \<le> length xs"
  by (induction xs) auto

lemma upto_zero_no_zero: "0 \<notin> set xs \<Longrightarrow> upto_zero xs = xs"
  by (induction xs) auto

lemma upto_zero_append: "0 \<notin> set xs \<Longrightarrow> upto_zero (xs @ ys) = xs @ upto_zero ys"
  by (induction xs) auto

lemma upto_zero_inner: "i + 1 < length (upto_zero xs) \<Longrightarrow> upto_zero xs ! i \<noteq> 0"
proof (induction xs arbitrary: i)
  case (Cons x xs)
  then show ?case by (cases i) (auto split: if_splits)
qed simp

lemma upto_zero_last: "0 \<in> set xs \<longleftrightarrow> upto_zero xs \<noteq> [] \<and> last (upto_zero xs) = 0"
proof (induction xs)
  case (Cons x xs)
  then show ?case by (cases "xs = []") auto
qed simp

lemma recv_frame_fill_loop:
  assumes "i + n \<le> length src" "dst + n \<le> length buf"
  defines "ys \<equiv> upto_zero (take n (drop i src))"
  shows "recv_frame_fill_loop n src i buf dst st =
    Some (n - length ys, take dst buf @ ys @ drop (dst + length ys) buf,
          if 0 \<in> set ys then ARQ__RECV_FRAME_STATE_FULL_FRAME_PRESENT else st)"
  using assms(1,2) unfolding ys_def
proof (induction n arbitrary: i buf dst)
  case (Suc n)
  let ?x = "src ! i" let ?buf = "buf[dst := src ! i]"
  have mem: "rd src i = Some ?x" "wr buf dst ?x = Some ?buf"
    using Suc.prems by (simp_all add: rd_ok wr_ok)
  have split: "take (Suc n) (drop i src) = ?x # take n (drop (Suc i) src)"
    using Suc.prems by (simp add: Cons_nth_drop_Suc [symmetric])
  have tk: "take (Suc dst) ?buf = take dst buf @ [?x]"
    using Suc.prems by (simp add: take_Suc_conv_app_nth)
  show ?case
  proof (cases "?x = 0")
    case True
    have "?buf = take dst buf @ [?x] @ drop (Suc dst) buf"
      using Suc.prems by (simp add: upd_conv_take_nth_drop)
    moreover have "wr buf dst 0 = Some ?buf" using mem(2) True by (simp only:)
    ultimately show ?thesis using True by (simp add: mem(1) split)
  next
    case False
    have IH: "recv_frame_fill_loop n src (Suc i) ?buf (Suc dst) st =
        Some (n - length (upto_zero (take n (drop (Suc i) src))),
          take (Suc dst) ?buf @ upto_zero (take n (drop (Suc i) src)) @
            drop (Suc dst + length (upto_zero (take n (drop (Suc i) src)))) ?buf,
          if 0 \<in> set (upto_zero (take n (drop (Suc i) src))) then ARQ__RECV_FRAME_STATE_FULL_FRAME_PRESENT else st)"
      by (rule Suc.IH) (use Suc.prems in auto)
    show ?thesis using False by (simp add: mem split IH tk)
  qed
qed simp

definition fill_take :: "arq__recv_frame_t \<Rightarrow> byte list \<Rightarrow> byte list" where
  "fill_take f src = (if rf_full f then [] else upto_zero (take (rf_cap f - rf_len f) src))"

lemma zero_in_upto_zero: "0 \<in> set (upto_zero xs) \<longleftrightarrow> 0 \<in> set xs"
  by (induction xs) auto

text \<open>A buffer that was open, with \<open>ys\<close> (at most one delimiter, as the last byte) behind its bytes.\<close>

abbreviation filled_buf :: "arq__recv_frame_t \<Rightarrow> byte list \<Rightarrow> byte list" where
  "filled_buf f ys \<equiv> take (rf_len f) (rf_buf f) @ ys @ drop (rf_len f + length ys) (rf_buf f)"

abbreviation filled :: "arq__recv_frame_t \<Rightarrow> byte list \<Rightarrow> arq__recv_frame_t" where
  "filled f ys \<equiv> f\<lparr>rf_buf := filled_buf f ys,
     rf_state := (if 0 \<in> set ys then ARQ__RECV_FRAME_STATE_FULL_FRAME_PRESENT else rf_state f),
     rf_len := rf_len f + length ys\<rparr>"

lemma filled_nth:
  assumes "recv_frame_ok f" "rf_len f + length ys \<le> rf_cap f" "i < length (rf_buf f)"
  shows "filled_buf f ys ! i = (if rf_len f \<le> i \<and> i < rf_len f + length ys then ys ! (i - rf_len f) else rf_buf f ! i)"
  by (rule nth_blit) (use assms in \<open>auto simp: recv_frame_ok_def\<close>)

lemma filled_last:
  assumes ok: "recv_frame_ok f" and le: "rf_len f + length ys \<le> rf_cap f" and ne: "ys \<noteq> []"
  shows "filled_buf f ys ! (rf_len f + length ys - 1) = last ys"
proof -
  have "0 < length ys" using ne by simp
  then have "rf_len f + length ys - 1 < length (rf_buf f)"
    "rf_len f \<le> rf_len f + length ys - 1" "rf_len f + length ys - 1 < rf_len f + length ys"
    "rf_len f + length ys - 1 - rf_len f = length ys - 1"
    using ok le unfolding recv_frame_ok_def by linarith+
  then show ?thesis using ne by (simp only: filled_nth [OF ok le] last_conv_nth simp_thms if_True)
qed

lemma filled_ok:
  assumes ok: "recv_frame_ok f" and op: "\<not> rf_full f" and le: "rf_len f + length ys \<le> rf_cap f"
    and ys: "ys = upto_zero xs"
  shows "recv_frame_ok (filled f ys)"
  unfolding recv_frame_ok_def
proof (intro conjI allI impI)
  have b: "rf_cap f \<le> length (rf_buf f)" using ok by (simp add: recv_frame_ok_def)
  show "rf_len (filled f ys) \<le> rf_cap (filled f ys)" "rf_cap (filled f ys) \<le> length (rf_buf (filled f ys))"
    "rf_cap (filled f ys) < 65535"
    using ok le by (simp_all add: recv_frame_ok_def)
  show "rf_full (filled f ys) \<longleftrightarrow> 0 < rf_len (filled f ys) \<and> rf_buf (filled f ys) ! (rf_len (filled f ys) - 1) = 0"
  proof (cases "ys = []")
    case True
    then show ?thesis using op ok by (simp add: recv_frame_ok_def)
  next
    case False
    have "0 \<in> set ys \<longleftrightarrow> last ys = 0"
      using False upto_zero_last [of xs] unfolding ys zero_in_upto_zero by blast
    then show ?thesis using op False filled_last [OF ok le False] by simp
  qed
  fix i assume i: "i + 1 < rf_len (filled f ys)"
  then have il: "i < length (rf_buf f)" using le b by simp
  show "rf_buf (filled f ys) ! i \<noteq> 0"
  proof (cases "i < rf_len f")
    case True
    have "rf_buf f ! i \<noteq> 0"
      using ok True op unfolding recv_frame_ok_def
      by (metis Suc_eq_plus1 diff_Suc_1 less_Suc_eq_0_disj less_antisym not_less_eq zero_less_Suc)
    then show ?thesis using filled_nth [OF ok le il] True by simp
  next
    case False
    then have "ys ! (i - rf_len f) \<noteq> 0"
      using i upto_zero_inner [of "i - rf_len f" xs] unfolding ys by simp
    then show ?thesis using filled_nth [OF ok le il] False i by simp
  qed
qed

lemma recv_frame_fill_eq:
  assumes ok: "recv_frame_ok f" and len: "length src < 2 ^ 32"
  defines "ys \<equiv> fill_take f src"
  shows "\<exists>f'. arq__recv_frame_fill f src (length src) = Some (length ys, f') \<and> recv_frame_ok f' \<and>
    rf_bytes f' = rf_bytes f @ ys \<and> rf_cap f' = rf_cap f \<and> length (rf_buf f') = length (rf_buf f) \<and>
    (rf_full f' \<longleftrightarrow> rf_full f \<or> 0 \<in> set ys)"
proof (cases "rf_full f")
  case True
  then show ?thesis using ok by (simp add: arq__recv_frame_fill_def ys_def fill_take_def)
next
  case False
  let ?n = "min (length src) (rf_cap f - rf_len f)"
  have b: "rf_len f \<le> rf_cap f" "rf_cap f \<le> length (rf_buf f)" "rf_cap f < 65535"
    using ok by (simp_all add: recv_frame_ok_def)
  have ys: "ys = upto_zero (take ?n (drop 0 src))"
    using False by (cases "length src \<le> rf_cap f - rf_len f") (simp_all add: ys_def fill_take_def min_def)
  have ly: "length ys \<le> ?n"
    unfolding ys using length_upto_zero [of "take ?n (drop 0 src)"] by simp
  have ret: "arq__min (length src) (sub32 (rf_cap f) (rf_len f)) = ?n"
    using b by (simp add: sub32_le)
  have loop: "recv_frame_fill_loop ?n src 0 (rf_buf f) (rf_len f) (rf_state f) =
      Some (?n - length ys, filled_buf f ys, if 0 \<in> set ys then ARQ__RECV_FRAME_STATE_FULL_FRAME_PRESENT else rf_state f)"
    unfolding ys by (rule recv_frame_fill_loop) (use b in auto)
  have "sub32 ?n (?n - length ys) = ?n - (?n - length ys)"
    by (rule sub32_le) (use len in auto)
  then have sub: "sub32 ?n (?n - length ys) = length ys" using ly by (simp only: diff_diff_cancel)
  have lc: "rf_len f + length ys \<le> rf_cap f" using ly b(1) by linarith
  then have "rf_len f + length ys < 65536" using b(3) by linarith
  then have u: "u16 (rf_len f + u16 (length ys)) = rf_len f + length ys" by (simp add: u16_id)
  have "arq__recv_frame_fill f src (length src) = Some (length ys, filled f ys)"
    using False by (simp only: arq__recv_frame_fill_def if_False Let_def ret loop bind.bind_lunit split_conv sub u)
  moreover have "recv_frame_ok (filled f ys)" by (rule filled_ok [OF ok False lc ys])
  moreover have "rf_bytes (filled f ys) = rf_bytes f @ ys" "length (rf_buf (filled f ys)) = length (rf_buf f)"
    using b lc by (simp_all add: rf_bytes_def)
  ultimately show ?thesis
    using False by (intro exI [of _ "filled f ys"]) simp
qed

section \<open>Delimited buffers\<close>

text \<open>
  The contract of a buffer that collects one delimited frame: a call stores the bytes up to and
  including the first zero, as far as there is room, and nothing once a frame is complete.
\<close>

locale delimited_buffer =
  fixes inv :: "'s \<Rightarrow> bool"
    and fill :: "'s \<Rightarrow> byte list \<Rightarrow> (nat \<times> 's) option"
    and bytes :: "'s \<Rightarrow> byte list"
    and complete :: "'s \<Rightarrow> bool"
    and room :: "'s \<Rightarrow> nat"
  assumes fill_complete: "inv s \<Longrightarrow> complete s \<Longrightarrow> length src < 2 ^ 32 \<Longrightarrow> fill s src = Some (0, s)"
    and fill_open: "inv s \<Longrightarrow> \<not> complete s \<Longrightarrow> length src < 2 ^ 32 \<Longrightarrow>
      ys = upto_zero (take (room s) src) \<Longrightarrow>
      \<exists>s'. fill s src = Some (length ys, s') \<and> inv s' \<and> bytes s' = bytes s @ ys \<and>
        room s' + length ys = room s \<and> (complete s' \<longleftrightarrow> 0 \<in> set ys)"

text \<open>Feeding a list of chunks, one call each; the result counts the bytes that were taken.\<close>

primrec feed :: "('s \<Rightarrow> byte list \<Rightarrow> (nat \<times> 's) option) \<Rightarrow> 's \<Rightarrow> byte list list \<Rightarrow> (nat \<times> 's) option" where
  "feed fill s [] = Some (0, s)"
| "feed fill s (c # cs) = do {
     (n, s') \<leftarrow> fill s c;
     (m, s'') \<leftarrow> feed fill s' cs;
     Some (n + m, s'')
   }"

context delimited_buffer
begin

lemma feed_complete:
  assumes "inv s" "complete s" "\<forall>c\<in>set cs. length c < 2 ^ 32"
  shows "feed fill s cs = Some (0, s)"
  using assms by (induction cs) (auto simp: fill_complete)

lemma feed_frame:
  assumes "inv s" "\<not> complete s" "\<forall>c\<in>set cs. length c < 2 ^ 32"
    and "concat cs = ys @ [0] @ rest" "0 \<notin> set ys" "length ys < room s"
  shows "\<exists>s'. feed fill s cs = Some (length ys + 1, s') \<and> inv s' \<and> complete s' \<and> bytes s' = bytes s @ ys @ [0]"
  using assms
proof (induction cs arbitrary: s ys)
  case (Cons c cs)
  have len: "length c < 2 ^ 32" "\<forall>c\<in>set cs. length c < 2 ^ 32" using Cons.prems(3) by simp_all
  have "c @ concat cs = ys @ [0] @ rest" using Cons.prems(4) by simp
  then consider us where "ys = c @ us" "concat cs = us @ [0] @ rest"
    | r where "c = ys @ [0] @ r"
    by (auto simp: append_eq_append_conv2 append_eq_Cons_conv Cons_eq_append_conv)
  then show ?case
  proof cases
    case 1
    have up: "upto_zero (take (room s) c) = c"
      using 1(1) Cons.prems(5,6) by (simp add: upto_zero_no_zero)
    obtain s' where s': "fill s c = Some (length c, s')" "inv s'" "bytes s' = bytes s @ c"
      "room s' + length c = room s" "\<not> complete s'"
      using fill_open [OF Cons.prems(1,2) len(1) refl] 1(1) Cons.prems(5) unfolding up by auto
    have "\<exists>s''. feed fill s' cs = Some (length us + 1, s'') \<and> inv s'' \<and> complete s'' \<and>
        bytes s'' = bytes s' @ us @ [0]"
      by (rule Cons.IH [OF s'(2,5) len(2) 1(2)]) (use 1(1) s'(4) Cons.prems(5,6) in auto)
    then show ?thesis using s' 1(1) by auto
  next
    case 2
    have up: "upto_zero (take (room s) c) = ys @ [0]"
    proof -
      have "take (room s) c = ys @ take (room s - length ys) ([0] @ r)"
        using 2 Cons.prems(6) by simp
      moreover obtain k where "room s - length ys = Suc k" using Cons.prems(6) by (metis Suc_diff_Suc)
      ultimately show ?thesis using Cons.prems(5) by (simp add: upto_zero_append)
    qed
    obtain s' where s': "fill s c = Some (length ys + 1, s')" "inv s'" "bytes s' = bytes s @ ys @ [0]" "complete s'"
      using fill_open [OF Cons.prems(1,2) len(1) refl] unfolding up by auto
    then show ?thesis using feed_complete [OF s'(2,4) len(2)] by simp
  qed
qed simp

end

interpretation recv_frame: delimited_buffer recv_frame_ok
  "\<lambda>f src. arq__recv_frame_fill f src (length src)" rf_bytes rf_full "\<lambda>f. rf_cap f - rf_len f"
proof
  fix f src assume "recv_frame_ok f" "rf_full f"
  then show "arq__recv_frame_fill f src (length src) = Some (0, f)"
    by (simp add: arq__recv_frame_fill_def)
next
  fix f src ys
  assume ok: "recv_frame_ok f" and open_: "\<not> rf_full f" and len: "length src < 2 ^ 32"
    and ys: "ys = upto_zero (take (rf_cap f - rf_len f) src)"
  have t: "fill_take f src = ys" using open_ ys by (simp add: fill_take_def)
  obtain f' where f': "arq__recv_frame_fill f src (length src) = Some (length ys, f')" "recv_frame_ok f'"
    "rf_bytes f' = rf_bytes f @ ys" "rf_cap f' = rf_cap f" "rf_full f' \<longleftrightarrow> 0 \<in> set ys"
    using recv_frame_fill_eq [OF ok len] open_ unfolding t by auto
  have b: "length (rf_bytes g) = rf_len g" if "recv_frame_ok g" for g
    using that by (simp add: recv_frame_ok_def rf_bytes_def)
  have "rf_len f' = rf_len f + length ys" using b [OF f'(2)] b [OF ok] f'(3) by simp
  moreover have "rf_len f' \<le> rf_cap f'" using f'(2) by (simp add: recv_frame_ok_def)
  ultimately show "\<exists>s'. arq__recv_frame_fill f src (length src) = Some (length ys, s') \<and> recv_frame_ok s' \<and>
      rf_bytes s' = rf_bytes f @ ys \<and> rf_cap s' - rf_len s' + length ys = rf_cap f - rf_len f \<and>
      rf_full s' = (0 \<in> set ys)"
    using f' by auto
qed

text \<open>A frame that is written on one side and collected on the other is read as it was.\<close>

lemma frame_wire:
  assumes "hdr_fits h" "seg_readable seg (h_seg_len h)" "h_seg_len h \<le> 238"
    and "18 + h_seg_len h \<le> frame_max" "18 + h_seg_len h \<le> length out"
    and "arq__frame_write b h seg checksum out frame_max = Some (len, out')"
    and "recv_frame_ok f" "rf_len f = 0" "len \<le> rf_cap f"
    and "concat chunks = take len out' @ rest" "\<forall>c\<in>set chunks. length c < 2 ^ 32"
  shows "\<exists>f' frame'. feed (\<lambda>f src. arq__recv_frame_fill f src (length src)) f chunks = Some (len, f') \<and>
    recv_frame_ok f' \<and> rf_full f' \<and> rf_len f' = len \<and>
    arq__frame_read b' (rf_buf f') (rf_len f') checksum = Some (ARQ__FRAME_READ_RESULT_SUCCESS, h, 13, frame') \<and>
    take (h_seg_len h) (drop 13 frame') = seg_bytes seg (h_seg_len h)"
proof -
  obtain xs where xs: "arq__frame_write b h seg checksum out frame_max =
      Some (length xs + 2, cobs_stuff xs @ 0 # drop (18 + h_seg_len h) out)"
    "length xs = 16 + h_seg_len h" "payload_hdr b' xs = h"
    "payload_result b' checksum xs = ARQ__FRAME_READ_RESULT_SUCCESS"
    "take (h_seg_len h) (drop 12 xs) = seg_bytes seg (h_seg_len h)"
    using frame_write_payload [OF assms(1-5), of b checksum b'] by blast
  have len: "len = length xs + 2" and tk: "take len out' = cobs_stuff xs @ [0]"
    using assms(6) xs(1) by auto
  have nz: "0 \<notin> set (cobs_stuff xs)" using xs(2) assms(3) by (intro cobs_stuff_no_zero) simp
  have op: "\<not> rf_full f" "rf_bytes f = []" using assms(7,8) by (auto simp: recv_frame_ok_def rf_bytes_def)
  obtain f' where f': "feed (\<lambda>f src. arq__recv_frame_fill f src (length src)) f chunks = Some (len, f')"
    "recv_frame_ok f'" "rf_full f'" "rf_bytes f' = cobs_stuff xs @ [0]"
    using recv_frame.feed_frame [OF assms(7) op(1) assms(11), of "cobs_stuff xs" rest] assms(8,9,10) tk nz len op(2)
    by auto
  have le: "rf_len f' \<le> length (rf_buf f')" using f'(2) by (simp add: recv_frame_ok_def)
  then have rl: "rf_len f' = length xs + 2"
    using arg_cong [OF f'(4), of length] by (simp add: rf_bytes_def)
  have buf: "rf_buf f' = cobs_stuff xs @ 0 # drop (rf_len f') (rf_buf f')"
    using f'(4) append_take_drop_id [of "rf_len f'" "rf_buf f'"] by (simp add: rf_bytes_def)
  have "arq__frame_read b' (rf_buf f') (rf_len f') checksum =
      Some (ARQ__FRAME_READ_RESULT_SUCCESS, h, 13, 0 # xs @ 0 # drop (rf_len f') (rf_buf f'))"
    using frame_read_payload [of xs b' 0 "drop (rf_len f') (rf_buf f')" checksum] xs(2-4) assms(3) buf rl by simp
  then show ?thesis using f'(1-3) rl len xs by auto
qed

section \<open>Properties\<close>

definition demo_recv_frame :: arq__recv_frame_t where
  "demo_recv_frame = \<lparr>rf_buf = replicate 24 9, rf_state = ARQ__RECV_FRAME_STATE_ACCUMULATING,
     rf_cap = 24, rf_len = 0\<rparr>"

lemma demo_recv_frame_ok: "recv_frame_ok demo_recv_frame"
  by (simp add: recv_frame_ok_def demo_recv_frame_def)

text \<open>
  C16. A frame crosses the wire: the bytes \<open>arq__frame_write\<close> makes of a header and a segment,
  followed by anything and cut into chunks of any size, fill an empty receive frame with exactly
  this frame, of which \<open>arq__frame_read\<close> returns the same header and segment.
\<close>

theorem frame_over_the_wire:
  assumes "hdr_fits h" "seg_readable seg (h_seg_len h)" "h_seg_len h \<le> 238"
    and "18 + h_seg_len h \<le> frame_max" "18 + h_seg_len h \<le> length out"
    and "arq__frame_write b h seg checksum out frame_max = Some (len, out')"
    and "recv_frame_ok f" "rf_len f = 0" "len \<le> rf_cap f"
    and "concat chunks = take len out' @ rest" "\<forall>c\<in>set chunks. length c < 2 ^ 32"
  shows "\<exists>f' frame'. feed (\<lambda>f src. arq__recv_frame_fill f src (length src)) f chunks = Some (len, f') \<and>
    rf_full f' \<and> rf_len f' = len \<and>
    arq__frame_read b' (rf_buf f') (rf_len f') checksum = Some (ARQ__FRAME_READ_RESULT_SUCCESS, h, 13, frame') \<and>
    take (h_seg_len h) (drop 13 frame') = seg_bytes seg (h_seg_len h)"
  using frame_wire [OF assms] by blast

theorem frame_over_the_wire_witness:
  "\<exists>len out' f' frame'.
     arq__frame_write le_build arq__frame_hdr_init None (\<lambda>_. 7) (replicate 20 1) 20 = Some (len, out') \<and>
     feed (\<lambda>f src. arq__recv_frame_fill f src (length src)) demo_recv_frame
       [take 5 (take len out'), drop 5 (take len out') @ [3, 0]] = Some (len, f') \<and>
     arq__frame_read be_build (rf_buf f') (rf_len f') (\<lambda>_. 7) =
       Some (ARQ__FRAME_READ_RESULT_SUCCESS, arq__frame_hdr_init, 13, frame')"
proof -
  have h: "hdr_fits arq__frame_hdr_init" "seg_readable None (h_seg_len arq__frame_hdr_init)"
    "h_seg_len arq__frame_hdr_init = 0"
    by (simp_all add: hdr_fits_def arq__frame_hdr_init_def seg_readable_def)
  obtain len out' where w: "arq__frame_write le_build arq__frame_hdr_init None (\<lambda>_. 7) (replicate 20 1) 20 = Some (len, out')"
    "length out' = 20" "len = 18"
    using frame_write_payload [OF h(1,2), of 20 "replicate 20 1" le_build "\<lambda>_. 7" be_build] h(3) by auto
  have "concat [take 5 x, drop 5 x @ r] = x @ r" for x r :: "byte list"
    by (simp flip: append_assoc)
  then have c: "concat [take 5 (take len out'), drop 5 (take len out') @ [3, 0]] = take len out' @ [3, 0]"
    "\<forall>c\<in>set [take 5 (take len out'), drop 5 (take len out') @ [3, 0]]. length c < 2 ^ 32"
    using w(2,3) by (blast, simp)
  have l: "len \<le> rf_cap demo_recv_frame" "rf_len demo_recv_frame = 0"
    using w by (simp_all add: demo_recv_frame_def)
  have r: "h_seg_len arq__frame_hdr_init \<le> 238" "18 + h_seg_len arq__frame_hdr_init \<le> 20"
    "18 + h_seg_len arq__frame_hdr_init \<le> length (replicate 20 (1 :: byte))"
    using h(3) by simp_all
  show ?thesis
    using frame_over_the_wire [OF h(1,2) r w(1) demo_recv_frame_ok l(2,1) c, of be_build] w(1) by blast
qed

end
