(* ===== verification/Arq_Conn.thy ===== *)
theory Arq_Conn imports Arq_Types begin

text \<open>
  The connection of \<open>src/arq.h\<close>: the state machine of the three-way handshake, one callback per
  state, and the loop that drives it (\<open>arq__conn_poll\<close>). A handshake segment is a frame header
  with the flags \<open>rst\<close> and \<open>ack\<close>.
\<close>

section \<open>State\<close>

datatype arq_conn_state_t =
    ARQ_CONN_STATE_CLOSED
  | ARQ_CONN_STATE_RST_RECVD
  | ARQ_CONN_STATE_RST_SENT
  | ARQ_CONN_STATE_ESTABLISHED
  | ARQ_CONN_STATE_CLOSE_WAIT
  | ARQ_CONN_STATE_LAST_ACK
  | ARQ_CONN_STATE_FIN_WAIT_1
  | ARQ_CONN_STATE_FIN_WAIT_2
  | ARQ_CONN_STATE_CLOSING
  | ARQ_CONN_STATE_TIME_WAIT

record arq__rst_recvd_t =
  rr_cnt :: nat
  rr_tmr :: nat
  rr_sent_rst_ack :: bool

record arq__rst_sent_t =
  rs_cnt :: nat
  rs_tmr :: nat
  rs_recvd_rst_ack :: bool
  rs_simultaneous :: bool

text \<open>The union \<open>u\<close>: reading the member that was not written last has no defined result.\<close>

datatype arq__conn_u = U_rst_recvd arq__rst_recvd_t | U_rst_sent arq__rst_sent_t

record arq__conn_t =
  cn_state :: arq_conn_state_t
  cn_u :: arq__conn_u

fun u_rst_recvd :: "arq__conn_u \<Rightarrow> arq__rst_recvd_t option" where
  "u_rst_recvd (U_rst_recvd x) = Some x"
| "u_rst_recvd (U_rst_sent x) = None"

fun u_rst_sent :: "arq__conn_u \<Rightarrow> arq__rst_sent_t option" where
  "u_rst_sent (U_rst_recvd x) = None"
| "u_rst_sent (U_rst_sent x) = Some x"

record arq__conn_state_ctx_t =
  cx_cfg :: arq_cfg_t
  cx_dt :: nat
  cx_conn :: arq__conn_t
  cx_sh :: "arq__frame_hdr_t option"
  cx_rh :: arq__frame_hdr_t

datatype arq__conn_state_next_t = ARQ__CONN_STATE_CONTINUE | ARQ__CONN_STATE_STOP

type_synonym arq__conn_poll_state_cb_t =
  "arq__conn_state_ctx_t \<Rightarrow> bool \<Rightarrow> arq_event_t \<Rightarrow>
   (arq__conn_state_next_t \<times> arq__conn_state_ctx_t \<times> bool \<times> arq_event_t) option"

abbreviation cx_set_state :: "arq__conn_state_ctx_t \<Rightarrow> arq_conn_state_t \<Rightarrow> arq__conn_state_ctx_t" where
  "cx_set_state ctx s \<equiv> ctx\<lparr>cx_conn := (cx_conn ctx)\<lparr>cn_state := s\<rparr>\<rparr>"

abbreviation cx_set_u :: "arq__conn_state_ctx_t \<Rightarrow> arq__conn_u \<Rightarrow> arq__conn_state_ctx_t" where
  "cx_set_u ctx u \<equiv> ctx\<lparr>cx_conn := (cx_conn ctx)\<lparr>cn_u := u\<rparr>\<rparr>"

section \<open>The callbacks\<close>

definition arq__conn_poll_state_closed :: arq__conn_poll_state_cb_t where
  "arq__conn_poll_state_closed ctx emit event =
     (if h_ack (cx_rh ctx) \<or> h_seg (cx_rh ctx)
      then Some (ARQ__CONN_STATE_STOP, ctx, emit, ARQ_EVENT_CONN_FAILED_DESYNC)
      else if h_rst (cx_rh ctx)
      then Some (ARQ__CONN_STATE_CONTINUE,
                 ctx\<lparr>cx_conn := \<lparr>cn_state = ARQ_CONN_STATE_RST_RECVD,
                       cn_u = U_rst_recvd \<lparr>rr_cnt = 0, rr_tmr = 0, rr_sent_rst_ack = False\<rparr>\<rparr>\<rparr>,
                 emit, event)
      else Some (ARQ__CONN_STATE_STOP, ctx, emit, event))"

definition arq__conn_poll_state_rst_sent :: arq__conn_poll_state_cb_t where
  "arq__conn_poll_state_rst_sent ctx emit event =
     (if h_seg (cx_rh ctx) \<or> (h_ack (cx_rh ctx) \<and> \<not> h_rst (cx_rh ctx))
      then Some (ARQ__CONN_STATE_STOP, cx_set_state ctx ARQ_CONN_STATE_CLOSED, emit,
                 ARQ_EVENT_CONN_FAILED_DESYNC)
      else do {
        u \<leftarrow> u_rst_sent (cn_u (cx_conn ctx));
        let (ctx1, emit1, event1) =
          (if h_rst (cx_rh ctx) \<and> h_ack (cx_rh ctx)
           then (cx_set_u ctx (U_rst_sent (u\<lparr>rs_recvd_rst_ack := True\<rparr>)), emit, event)
           else if h_rst (cx_rh ctx)
           then (cx_set_u ctx (U_rst_sent (u\<lparr>rs_simultaneous := True\<rparr>)), emit, event)
           else if \<not> rs_recvd_rst_ack u
           then (let u1 = u\<lparr>rs_tmr := arq__sub_sat (rs_tmr u) (cx_dt ctx)\<rparr>
                 in case cx_sh ctx of
                      Some sh \<Rightarrow>
                        if rs_tmr u1 = 0
                        then (let u2 = u1\<lparr>rs_cnt := u32 (rs_cnt u1 + 1),
                                          rs_tmr := connection_rst_period (cx_cfg ctx)\<rparr>;
                                  ctx2 = (cx_set_u ctx (U_rst_sent u2))\<lparr>cx_sh := Some (sh\<lparr>h_rst := True\<rparr>)\<rparr>
                              in if rs_cnt u2 > connection_rst_attempts (cx_cfg ctx)
                                 then (cx_set_state ctx2 ARQ_CONN_STATE_CLOSED, True,
                                       ARQ_EVENT_CONN_FAILED_NO_RESPONSE)
                                 else (ctx2, True, event))
                        else (cx_set_u ctx (U_rst_sent u1), emit, event)
                    | None \<Rightarrow> (cx_set_u ctx (U_rst_sent u1), emit, event))
           else (ctx, emit, event));
        u' \<leftarrow> u_rst_sent (cn_u (cx_conn ctx1));
        let send_ack = (rs_simultaneous u' \<or> rs_recvd_rst_ack u');
        (case cx_sh ctx1 of
           Some sh \<Rightarrow>
             if send_ack
             then Some (ARQ__CONN_STATE_STOP,
                        (cx_set_state ctx1 ARQ_CONN_STATE_ESTABLISHED)\<lparr>cx_sh := Some (sh\<lparr>h_ack := True\<rparr>)\<rparr>,
                        True, ARQ_EVENT_CONN_ESTABLISHED)
             else Some (ARQ__CONN_STATE_STOP, ctx1, emit1, event1)
         | None \<Rightarrow> Some (ARQ__CONN_STATE_STOP, ctx1, emit1, event1))
      })"

definition arq__conn_poll_state_rst_recvd :: arq__conn_poll_state_cb_t where
  "arq__conn_poll_state_rst_recvd ctx emit event =
     (if h_seg (cx_rh ctx)
      then Some (ARQ__CONN_STATE_STOP, cx_set_state ctx ARQ_CONN_STATE_CLOSED, emit,
                 ARQ_EVENT_CONN_FAILED_DESYNC)
      else do {
        u \<leftarrow> u_rst_recvd (cn_u (cx_conn ctx));
        if h_ack (cx_rh ctx)
        then if rr_sent_rst_ack u
             then Some (ARQ__CONN_STATE_STOP, cx_set_state ctx ARQ_CONN_STATE_ESTABLISHED, emit,
                        ARQ_EVENT_CONN_ESTABLISHED)
             else Some (ARQ__CONN_STATE_STOP, cx_set_state ctx ARQ_CONN_STATE_CLOSED, emit,
                        ARQ_EVENT_CONN_FAILED_DESYNC)
        else (let u1 = u\<lparr>rr_tmr := arq__sub_sat (rr_tmr u) (cx_dt ctx)\<rparr>
              in case cx_sh ctx of
                   Some sh \<Rightarrow>
                     if rr_tmr u1 = 0
                     then (let u2 = u1\<lparr>rr_sent_rst_ack := True, rr_cnt := u32 (rr_cnt u1 + 1),
                                       rr_tmr := connection_rst_period (cx_cfg ctx)\<rparr>;
                               ctx2 = (cx_set_u ctx (U_rst_recvd u2))
                                 \<lparr>cx_sh := Some (sh\<lparr>h_ack := True, h_rst := True\<rparr>)\<rparr>
                           in if rr_cnt u2 > connection_rst_attempts (cx_cfg ctx)
                              then Some (ARQ__CONN_STATE_STOP, cx_set_state ctx2 ARQ_CONN_STATE_CLOSED,
                                         True, ARQ_EVENT_CONN_FAILED_NO_RESPONSE)
                              else Some (ARQ__CONN_STATE_STOP, ctx2, True, event))
                     else Some (ARQ__CONN_STATE_STOP, cx_set_u ctx (U_rst_recvd u1), emit, event)
                 | None \<Rightarrow> Some (ARQ__CONN_STATE_STOP, cx_set_u ctx (U_rst_recvd u1), emit, event))
      })"

definition arq__conn_poll_state_established :: arq__conn_poll_state_cb_t where
  "arq__conn_poll_state_established ctx emit event = Some (ARQ__CONN_STATE_STOP, ctx, emit, event)"

definition arq__conn_poll_state_null :: arq__conn_poll_state_cb_t where
  "arq__conn_poll_state_null ctx emit event = Some (ARQ__CONN_STATE_STOP, ctx, emit, event)"

fun arq__conn_poll_state_cb_get :: "arq_conn_state_t \<Rightarrow> arq__conn_poll_state_cb_t" where
  "arq__conn_poll_state_cb_get ARQ_CONN_STATE_CLOSED = arq__conn_poll_state_closed"
| "arq__conn_poll_state_cb_get ARQ_CONN_STATE_RST_SENT = arq__conn_poll_state_rst_sent"
| "arq__conn_poll_state_cb_get ARQ_CONN_STATE_RST_RECVD = arq__conn_poll_state_rst_recvd"
| "arq__conn_poll_state_cb_get ARQ_CONN_STATE_ESTABLISHED = arq__conn_poll_state_established"
| "arq__conn_poll_state_cb_get _ = arq__conn_poll_state_null"

section \<open>The driver\<close>

partial_function (option) conn_poll_loop ::
  "arq__conn_state_ctx_t \<Rightarrow> bool \<Rightarrow> arq_event_t \<Rightarrow>
   (arq__conn_state_ctx_t \<times> bool \<times> arq_event_t) option" where
  "conn_poll_loop ctx emit event =
     Option.bind (arq__conn_poll_state_cb_get (cn_state (cx_conn ctx)) ctx emit event)
       (\<lambda>(keep_going, ctx', emit', event').
          if keep_going = ARQ__CONN_STATE_CONTINUE then conn_poll_loop ctx' emit' event'
          else Some (ctx', emit', event'))"

declare conn_poll_loop.simps [code]

text \<open>The result, \<open>*conn\<close>, \<open>*sh\<close> and \<open>*out_event\<close>.\<close>

definition arq__conn_poll ::
  "build \<Rightarrow> arq__conn_t \<Rightarrow> arq__frame_hdr_t option \<Rightarrow> arq__frame_hdr_t \<Rightarrow> nat \<Rightarrow> arq_cfg_t \<Rightarrow>
   (bool \<times> arq__conn_t \<times> arq__frame_hdr_t option \<times> arq_event_t) option" where
  "arq__conn_poll b conn sh rh dt cfg =
     (if \<not> use_connections b then Some (False, conn, sh, ARQ_EVENT_NONE)
      else do {
        (ctx, emit, e) \<leftarrow> conn_poll_loop
          \<lparr>cx_cfg = cfg, cx_dt = dt, cx_conn = conn, cx_sh = sh, cx_rh = rh\<rparr> False ARQ_EVENT_NONE;
        Some (sh \<noteq> None \<and> emit, cx_conn ctx, cx_sh ctx, e)
      })"

definition arq__conn_next_poll :: "arq__conn_t \<Rightarrow> nat option" where
  "arq__conn_next_poll c =
     (case cn_state c of
        ARQ_CONN_STATE_RST_SENT \<Rightarrow> do {
          u \<leftarrow> u_rst_sent (cn_u c);
          if \<not> rs_recvd_rst_ack u \<and> \<not> rs_simultaneous u
          then Some (arq__min ARQ_TIME_INFINITY (rs_tmr u)) else Some ARQ_TIME_INFINITY
        }
      | ARQ_CONN_STATE_RST_RECVD \<Rightarrow> do {
          u \<leftarrow> u_rst_recvd (cn_u c);
          Some (arq__min ARQ_TIME_INFINITY (rr_tmr u))
        }
      | _ \<Rightarrow> Some ARQ_TIME_INFINITY)"

section \<open>The loop stops\<close>

text \<open>Only the closed state asks to go on, and only into the state \<open>RST_RECVD\<close>, which stops.\<close>

definition conn_ok :: "arq__conn_t \<Rightarrow> bool" where
  "conn_ok c \<longleftrightarrow>
     (case cn_state c of
        ARQ_CONN_STATE_RST_SENT \<Rightarrow>
          (case cn_u c of U_rst_sent u \<Rightarrow> rs_tmr u < 2 ^ 32 \<and> rs_cnt u < 2 ^ 32 | _ \<Rightarrow> False)
      | ARQ_CONN_STATE_RST_RECVD \<Rightarrow>
          (case cn_u c of U_rst_recvd u \<Rightarrow> rr_tmr u < 2 ^ 32 \<and> rr_cnt u < 2 ^ 32 | _ \<Rightarrow> False)
      | _ \<Rightarrow> True)"

lemma conn_loop_stop:
  assumes "arq__conn_poll_state_cb_get (cn_state (cx_conn ctx)) ctx emit e =
    Some (ARQ__CONN_STATE_STOP, ctx', emit', e')"
  shows "conn_poll_loop ctx emit e = Some (ctx', emit', e')"
  using assms by (subst conn_poll_loop.simps) simp

lemma rst_sent_stops:
  assumes "cn_u (cx_conn ctx) = U_rst_sent u"
  shows "\<exists>ctx' emit' e'. arq__conn_poll_state_rst_sent ctx emit e = Some (ARQ__CONN_STATE_STOP, ctx', emit', e')"
  using assms
  by (auto simp: arq__conn_poll_state_rst_sent_def Let_def split: option.splits)

lemma rst_recvd_stops:
  assumes "cn_u (cx_conn ctx) = U_rst_recvd u"
  shows "\<exists>ctx' emit' e'. arq__conn_poll_state_rst_recvd ctx emit e = Some (ARQ__CONN_STATE_STOP, ctx', emit', e')"
  using assms
  by (auto simp: arq__conn_poll_state_rst_recvd_def Let_def split: option.splits)

text \<open>What one call of \<open>arq__conn_poll\<close> does, state by state.\<close>

lemma conn_loop_closed:
  assumes "cn_state (cx_conn ctx) = ARQ_CONN_STATE_CLOSED"
  shows "conn_poll_loop ctx emit e =
    (if h_ack (cx_rh ctx) \<or> h_seg (cx_rh ctx) then Some (ctx, emit, ARQ_EVENT_CONN_FAILED_DESYNC)
     else if h_rst (cx_rh ctx)
     then Option.bind (arq__conn_poll_state_rst_recvd
         (ctx\<lparr>cx_conn := \<lparr>cn_state = ARQ_CONN_STATE_RST_RECVD,
            cn_u = U_rst_recvd \<lparr>rr_cnt = 0, rr_tmr = 0, rr_sent_rst_ack = False\<rparr>\<rparr>\<rparr>) emit e)
       (\<lambda>(_, ctx', emit', e'). Some (ctx', emit', e'))
     else Some (ctx, emit, e))"
proof (cases "\<not> (h_ack (cx_rh ctx) \<or> h_seg (cx_rh ctx)) \<and> h_rst (cx_rh ctx)")
  case True
  let ?ctx = "ctx\<lparr>cx_conn := \<lparr>cn_state = ARQ_CONN_STATE_RST_RECVD,
      cn_u = U_rst_recvd \<lparr>rr_cnt = 0, rr_tmr = 0, rr_sent_rst_ack = False\<rparr>\<rparr>\<rparr>"
  obtain ctx' emit' e' where "arq__conn_poll_state_rst_recvd ?ctx emit e = Some (ARQ__CONN_STATE_STOP, ctx', emit', e')"
    using rst_recvd_stops [of ?ctx] by force
  then show ?thesis
    using True assms conn_loop_stop [of ?ctx emit e ctx' emit' e']
    by (subst conn_poll_loop.simps) (simp add: arq__conn_poll_state_closed_def)
next
  case False
  then show ?thesis
    using assms by (subst conn_poll_loop.simps) (auto simp: arq__conn_poll_state_closed_def)
qed

lemma conn_callback_stops:
  assumes "conn_ok (cx_conn ctx)" "cn_state (cx_conn ctx) \<noteq> ARQ_CONN_STATE_CLOSED"
  shows "\<exists>ctx' emit' e'. arq__conn_poll_state_cb_get (cn_state (cx_conn ctx)) ctx emit e =
      Some (ARQ__CONN_STATE_STOP, ctx', emit', e')"
  using assms rst_sent_stops rst_recvd_stops
  by (cases "cn_state (cx_conn ctx)"; cases "cn_u (cx_conn ctx)")
    (simp_all add: conn_ok_def arq__conn_poll_state_null_def arq__conn_poll_state_established_def)

lemma conn_loop_other:
  assumes "conn_ok (cx_conn ctx)" "cn_state (cx_conn ctx) \<noteq> ARQ_CONN_STATE_CLOSED"
  shows "conn_poll_loop ctx emit e =
    Option.bind (arq__conn_poll_state_cb_get (cn_state (cx_conn ctx)) ctx emit e)
      (\<lambda>(_, ctx', emit', e'). Some (ctx', emit', e'))"
  using conn_callback_stops [OF assms, of emit e] conn_loop_stop by fastforce

lemma conn_loop_total:
  assumes "conn_ok (cx_conn ctx)"
  shows "\<exists>ctx' emit' e'. conn_poll_loop ctx emit e = Some (ctx', emit', e')"
proof (cases "cn_state (cx_conn ctx) = ARQ_CONN_STATE_CLOSED")
  case True
  let ?ctx = "ctx\<lparr>cx_conn := \<lparr>cn_state = ARQ_CONN_STATE_RST_RECVD,
      cn_u = U_rst_recvd \<lparr>rr_cnt = 0, rr_tmr = 0, rr_sent_rst_ack = False\<rparr>\<rparr>\<rparr>"
  obtain ctx' emit' e' where "arq__conn_poll_state_rst_recvd ?ctx emit e = Some (ARQ__CONN_STATE_STOP, ctx', emit', e')"
    using rst_recvd_stops [of ?ctx] by force
  then show ?thesis by (simp add: conn_loop_closed [OF True])
next
  case False
  then obtain ctx' emit' e' where "arq__conn_poll_state_cb_get (cn_state (cx_conn ctx)) ctx emit e =
      Some (ARQ__CONN_STATE_STOP, ctx', emit', e')"
    using conn_callback_stops [OF assms] by blast
  then show ?thesis using conn_loop_stop by blast
qed

section \<open>The handshake as a transition system\<close>

text \<open>
  A connection with what passed between the peers since it last left \<open>CLOSED\<close>: whether a frame
  with \<open>rst\<close> was received, and whether one with \<open>rst\<close> or \<open>ack\<close> was sent.
\<close>

record conn_run =
  cr_conn :: arq__conn_t
  cr_heard :: bool
  cr_spoke :: bool

text \<open>What \<open>arq_connect\<close> stores in a closed connection.\<close>

definition connect_u :: arq__rst_sent_t where
  "connect_u = \<lparr>rs_cnt = 0, rs_tmr = 0, rs_recvd_rst_ack = False, rs_simultaneous = False\<rparr>"

definition conn_connect :: "arq__conn_t \<Rightarrow> arq__conn_t" where
  "conn_connect c = c\<lparr>cn_state := ARQ_CONN_STATE_RST_SENT, cn_u := U_rst_sent connect_u\<rparr>"

definition sent_handshake :: "bool \<Rightarrow> arq__frame_hdr_t option \<Rightarrow> bool" where
  "sent_handshake emit sh = (case sh of Some s \<Rightarrow> emit \<and> (h_rst s \<or> h_ack s) | None \<Rightarrow> False)"

inductive conn_step :: "build \<Rightarrow> arq_cfg_t \<Rightarrow> conn_run \<Rightarrow> conn_run \<Rightarrow> bool"
  for b :: build and cfg :: arq_cfg_t where
  connect: "cn_state (cr_conn r) = ARQ_CONN_STATE_CLOSED \<Longrightarrow>
    conn_step b cfg r (r\<lparr>cr_conn := conn_connect (cr_conn r), cr_heard := False, cr_spoke := False\<rparr>)"
| poll: "arq__conn_poll b (cr_conn r) sh rh dt cfg = Some (emit, conn', sh', e) \<Longrightarrow> dt < 2 ^ 32 \<Longrightarrow>
    active = (cn_state (cr_conn r) \<noteq> ARQ_CONN_STATE_CLOSED) \<Longrightarrow>
    conn_step b cfg r \<lparr>cr_conn = conn', cr_heard = (active \<and> cr_heard r \<or> h_rst rh),
      cr_spoke = (active \<and> cr_spoke r \<or> sent_handshake emit sh')\<rparr>"

definition conn_start :: "conn_run \<Rightarrow> bool" where
  "conn_start r \<longleftrightarrow> cn_state (cr_conn r) = ARQ_CONN_STATE_CLOSED"

definition conn_inv :: "conn_run \<Rightarrow> bool" where
  "conn_inv r \<longleftrightarrow> conn_ok (cr_conn r) \<and>
     (case cn_state (cr_conn r) of
        ARQ_CONN_STATE_CLOSED \<Rightarrow> True
      | ARQ_CONN_STATE_RST_SENT \<Rightarrow>
          (case cn_u (cr_conn r) of
             U_rst_sent u \<Rightarrow> rs_recvd_rst_ack u \<or> rs_simultaneous u \<longrightarrow> cr_heard r
           | _ \<Rightarrow> False)
      | ARQ_CONN_STATE_RST_RECVD \<Rightarrow>
          (case cn_u (cr_conn r) of
             U_rst_recvd u \<Rightarrow> cr_heard r \<and> (rr_sent_rst_ack u \<longrightarrow> cr_spoke r)
           | _ \<Rightarrow> False)
      | ARQ_CONN_STATE_ESTABLISHED \<Rightarrow> cr_heard r \<and> cr_spoke r
      | _ \<Rightarrow> False)"

lemma rst_sent_post:
  assumes u: "cn_u (cx_conn ctx) = U_rst_sent u" "rs_tmr u < 2 ^ 32" and st: "cn_state (cx_conn ctx) = ARQ_CONN_STATE_RST_SENT"
    and p: "connection_rst_period (cx_cfg ctx) < 2 ^ 32" "rs_cnt u < 2 ^ 32"
    and run: "arq__conn_poll_state_rst_sent ctx False ARQ_EVENT_NONE = Some (k, ctx', emit, e)"
    and heard: "rs_recvd_rst_ack u \<or> rs_simultaneous u \<longrightarrow> heard"
  shows "conn_inv \<lparr>cr_conn = cx_conn ctx', cr_heard = heard \<or> h_rst (cx_rh ctx),
     cr_spoke = (spoke \<or> sent_handshake emit (cx_sh ctx'))\<rparr>"
proof -
  note hyps = run u p st heard
  note defs = arq__conn_poll_state_rst_sent_def conn_inv_def conn_ok_def sent_handshake_def Let_def less_imp_diff_less
  consider (desync) "h_seg (cx_rh ctx) \<or> (h_ack (cx_rh ctx) \<and> \<not> h_rst (cx_rh ctx))"
    | (reply) "\<not> h_seg (cx_rh ctx)" "h_rst (cx_rh ctx)" "h_ack (cx_rh ctx)"
    | (crossed) "\<not> h_seg (cx_rh ctx)" "h_rst (cx_rh ctx)" "\<not> h_ack (cx_rh ctx)"
    | (wait) "\<not> h_seg (cx_rh ctx)" "\<not> h_rst (cx_rh ctx)" "\<not> h_ack (cx_rh ctx)" by blast
  then show ?thesis
  proof cases
    case desync then show ?thesis using hyps by (clarsimp simp: defs)
  next
    case reply then show ?thesis using hyps by (cases "cx_sh ctx") (clarsimp simp: defs)+
  next
    case crossed then show ?thesis using hyps by (cases "cx_sh ctx") (clarsimp simp: defs)+
  next
    case wait
    show ?thesis
    proof (cases "rs_recvd_rst_ack u")
      case True then show ?thesis using hyps wait by (cases "cx_sh ctx") (clarsimp simp: defs)+
    next
      case no_reply: False
      show ?thesis
      proof (cases "cx_sh ctx")
        case None then show ?thesis using hyps wait no_reply by (clarsimp simp: defs)
      next
        case (Some sh)
        then show ?thesis using hyps wait no_reply
          by (cases "rs_tmr u \<le> cx_dt ctx"; cases "u32 (rs_cnt u + 1) > connection_rst_attempts (cx_cfg ctx)";
              cases "rs_simultaneous u") (clarsimp simp: defs)+
      qed
    qed
  qed
qed

lemma rst_recvd_post:
  assumes u: "cn_u (cx_conn ctx) = U_rst_recvd u" "rr_tmr u < 2 ^ 32" and st: "cn_state (cx_conn ctx) = ARQ_CONN_STATE_RST_RECVD"
    and p: "connection_rst_period (cx_cfg ctx) < 2 ^ 32" "rr_cnt u < 2 ^ 32"
    and run: "arq__conn_poll_state_rst_recvd ctx False ARQ_EVENT_NONE = Some (k, ctx', emit, e)"
    and heard: "heard \<or> h_rst (cx_rh ctx)" "rr_sent_rst_ack u \<longrightarrow> spoke"
  shows "conn_inv \<lparr>cr_conn = cx_conn ctx', cr_heard = heard \<or> h_rst (cx_rh ctx),
     cr_spoke = (spoke \<or> sent_handshake emit (cx_sh ctx'))\<rparr>"
proof -
  note hyps = run u p st heard
  note defs = arq__conn_poll_state_rst_recvd_def conn_inv_def conn_ok_def sent_handshake_def Let_def less_imp_diff_less
  consider (desync) "h_seg (cx_rh ctx)"
    | (ack) "\<not> h_seg (cx_rh ctx)" "h_ack (cx_rh ctx)"
    | (wait) "\<not> h_seg (cx_rh ctx)" "\<not> h_ack (cx_rh ctx)" by blast
  then show ?thesis
  proof cases
    case desync then show ?thesis using hyps by (clarsimp simp: defs)
  next
    case ack then show ?thesis using hyps
      by (cases "rr_sent_rst_ack u"; cases "cx_sh ctx") (clarsimp simp: defs)+
  next
    case wait
    show ?thesis
    proof (cases "cx_sh ctx")
      case None then show ?thesis using hyps wait by (clarsimp simp: defs)
    next
      case (Some sh)
      then show ?thesis using hyps wait
        by (cases "rr_tmr u \<le> cx_dt ctx"; cases "u32 (rr_cnt u + 1) > connection_rst_attempts (cx_cfg ctx)")
          (clarsimp simp: defs)+
    qed
  qed
qed

lemma conn_poll_start:
  assumes "cn_state conn = ARQ_CONN_STATE_CLOSED" "use_connections b"
  shows "arq__conn_poll b conn sh rh dt cfg =
    (if h_ack rh \<or> h_seg rh then Some (False, conn, sh, ARQ_EVENT_CONN_FAILED_DESYNC)
     else if h_rst rh
     then do {
       (_, ctx, emit, e) \<leftarrow> arq__conn_poll_state_rst_recvd
         \<lparr>cx_cfg = cfg, cx_dt = dt, cx_conn = \<lparr>cn_state = ARQ_CONN_STATE_RST_RECVD,
            cn_u = U_rst_recvd \<lparr>rr_cnt = 0, rr_tmr = 0, rr_sent_rst_ack = False\<rparr>\<rparr>, cx_sh = sh, cx_rh = rh\<rparr>
         False ARQ_EVENT_NONE;
       Some (sh \<noteq> None \<and> emit, cx_conn ctx, cx_sh ctx, e) }
     else Some (False, conn, sh, ARQ_EVENT_NONE))"
  using assms by (auto simp: arq__conn_poll_def conn_loop_closed bind_eq_None_conv split: option.splits Option.bind_splits)

lemma conn_poll_active:
  assumes "conn_ok conn" "cn_state conn \<noteq> ARQ_CONN_STATE_CLOSED" "use_connections b"
  shows "arq__conn_poll b conn sh rh dt cfg = do {
    (_, ctx, emit, e) \<leftarrow> arq__conn_poll_state_cb_get (cn_state conn)
      \<lparr>cx_cfg = cfg, cx_dt = dt, cx_conn = conn, cx_sh = sh, cx_rh = rh\<rparr> False ARQ_EVENT_NONE;
    Some (sh \<noteq> None \<and> emit, cx_conn ctx, cx_sh ctx, e) }"
  using assms by (auto simp: arq__conn_poll_def conn_loop_other split: Option.bind_splits)

text \<open>A poll without a header to fill in sends nothing.\<close>

lemma rst_recvd_sent:
  "arq__conn_poll_state_rst_recvd ctx emit0 e0 = Some (k, ctx', em, e) \<Longrightarrow>
   sent_handshake (cx_sh ctx \<noteq> None \<and> em) (cx_sh ctx') = sent_handshake em (cx_sh ctx')"
  by (cases "cx_sh ctx"; cases "cn_u (cx_conn ctx)")
    (auto simp: arq__conn_poll_state_rst_recvd_def Let_def sent_handshake_def split: if_splits)

lemma rst_sent_sent:
  "arq__conn_poll_state_rst_sent ctx emit0 e0 = Some (k, ctx', em, e) \<Longrightarrow>
   sent_handshake (cx_sh ctx \<noteq> None \<and> em) (cx_sh ctx') = sent_handshake em (cx_sh ctx')"
  by (cases "cx_sh ctx"; cases "cn_u (cx_conn ctx)")
    (auto simp: arq__conn_poll_state_rst_sent_def Let_def sent_handshake_def split: if_splits)

lemma conn_poll_inv:
  assumes period: "connection_rst_period cfg < 2 ^ 32" and b: "use_connections b"
    and inv: "conn_inv r" and active: "active = (cn_state (cr_conn r) \<noteq> ARQ_CONN_STATE_CLOSED)"
    and poll: "arq__conn_poll b (cr_conn r) sh rh dt cfg = Some (emit, conn', sh', e)"
  shows "conn_inv \<lparr>cr_conn = conn', cr_heard = (active \<and> cr_heard r \<or> h_rst rh),
      cr_spoke = (active \<and> cr_spoke r \<or> sent_handshake emit sh')\<rparr>"
proof (cases "cn_state (cr_conn r)")
  case closed: ARQ_CONN_STATE_CLOSED
  let ?new = "\<lparr>cx_cfg = cfg, cx_dt = dt, cx_conn = \<lparr>cn_state = ARQ_CONN_STATE_RST_RECVD,
      cn_u = U_rst_recvd \<lparr>rr_cnt = 0, rr_tmr = 0, rr_sent_rst_ack = False\<rparr>\<rparr>, cx_sh = sh, cx_rh = rh\<rparr>"
  show ?thesis
  proof (cases "\<not> h_ack rh \<and> \<not> h_seg rh \<and> h_rst rh")
    case True
    then obtain k ctx' em' where cb: "arq__conn_poll_state_rst_recvd ?new False ARQ_EVENT_NONE = Some (k, ctx', em', e)"
      and em: "emit = (sh \<noteq> None \<and> em')" "conn' = cx_conn ctx'" "sh' = cx_sh ctx'"
      using poll by (auto simp: conn_poll_start [OF closed b] bind_Some_iff)
    then show ?thesis
      using rst_recvd_post [of ?new, OF _ _ _ _ _ cb, of _ False False] rst_recvd_sent [OF cb] period True active closed
      by simp
  next
    case False
    then show ?thesis
      using poll closed by (auto simp: conn_poll_start [OF _ b] conn_inv_def conn_ok_def split: if_splits)
  qed
next
  case recvd: ARQ_CONN_STATE_RST_RECVD
  then obtain u where u: "cn_u (cr_conn r) = U_rst_recvd u" "rr_tmr u < 2 ^ 32" "rr_cnt u < 2 ^ 32"
    "cr_heard r" "rr_sent_rst_ack u \<longrightarrow> cr_spoke r" and ok: "conn_ok (cr_conn r)"
    using inv by (auto simp: conn_inv_def conn_ok_def split: arq__conn_u.splits)
  let ?ctx = "\<lparr>cx_cfg = cfg, cx_dt = dt, cx_conn = cr_conn r, cx_sh = sh, cx_rh = rh\<rparr>"
  obtain k ctx' em' where cb: "arq__conn_poll_state_rst_recvd ?ctx False ARQ_EVENT_NONE = Some (k, ctx', em', e)"
    and em: "emit = (sh \<noteq> None \<and> em')" "conn' = cx_conn ctx'" "sh' = cx_sh ctx'"
    using poll recvd by (auto simp: conn_poll_active [OF ok _ b] bind_Some_iff)
  then show ?thesis
    using rst_recvd_post [of ?ctx, OF _ _ _ _ _ cb, of u "cr_heard r" "cr_spoke r"] rst_recvd_sent [OF cb]
      period u active recvd by simp
next
  case sent: ARQ_CONN_STATE_RST_SENT
  then obtain u where u: "cn_u (cr_conn r) = U_rst_sent u" "rs_tmr u < 2 ^ 32" "rs_cnt u < 2 ^ 32"
    "rs_recvd_rst_ack u \<or> rs_simultaneous u \<longrightarrow> cr_heard r" and ok: "conn_ok (cr_conn r)"
    using inv by (auto simp: conn_inv_def conn_ok_def split: arq__conn_u.splits)
  let ?ctx = "\<lparr>cx_cfg = cfg, cx_dt = dt, cx_conn = cr_conn r, cx_sh = sh, cx_rh = rh\<rparr>"
  obtain k ctx' em' where cb: "arq__conn_poll_state_rst_sent ?ctx False ARQ_EVENT_NONE = Some (k, ctx', em', e)"
    and em: "emit = (sh \<noteq> None \<and> em')" "conn' = cx_conn ctx'" "sh' = cx_sh ctx'"
    using poll sent by (auto simp: conn_poll_active [OF ok _ b] bind_Some_iff)
  then show ?thesis
    using rst_sent_post [of ?ctx, OF _ _ _ _ _ cb, of u "cr_heard r" "cr_spoke r"] rst_sent_sent [OF cb]
      period u active sent by simp
next
  case established: ARQ_CONN_STATE_ESTABLISHED
  then have "conn_ok (cr_conn r)" by (simp add: conn_ok_def)
  then show ?thesis
    using poll inv active established
    by (auto simp: conn_poll_active [OF _ _ b] arq__conn_poll_state_established_def conn_inv_def)
qed (use inv in \<open>auto simp: conn_inv_def\<close>)

text \<open>Keeping the union in step with the state does not depend on what was heard and sent.\<close>

lemma conn_poll_keeps_ok:
  assumes "use_connections b" "conn_ok c" "connection_rst_period cfg < 2 ^ 32"
    and "arq__conn_poll b c sh rh dt cfg = Some (emit, conn', sh', e)"
  shows "conn_ok conn'"
proof (cases "conn_inv \<lparr>cr_conn = c, cr_heard = True, cr_spoke = True\<rparr>")
  case True
  from conn_poll_inv [OF assms(3,1) True refl] assms(4) show ?thesis by (simp add: conn_inv_def)
next
  case False
  then have "arq__conn_poll_state_cb_get (cn_state c) = arq__conn_poll_state_null" "cn_state c \<noteq> ARQ_CONN_STATE_CLOSED"
    using assms(2) by (auto simp: conn_inv_def conn_ok_def split: arq_conn_state_t.splits arq__conn_u.splits)
  then show ?thesis
    using assms by (auto simp: conn_poll_active [OF _ _ assms(1)] arq__conn_poll_state_null_def)
qed

lemma conn_step_inv:
  assumes "connection_rst_period cfg < 2 ^ 32" "use_connections b" "conn_inv r" "conn_step b cfg r r'"
  shows "conn_inv r'"
  using assms(4)
  by (cases rule: conn_step.cases)
    (auto simp: conn_inv_def [of "_\<lparr>cr_conn := _, cr_heard := _, cr_spoke := _\<rparr>"] conn_connect_def connect_u_def conn_ok_def
      intro: conn_poll_inv [OF assms(1-3)])

lemma conn_start_inv: "conn_start r \<Longrightarrow> conn_inv r"
  by (simp add: conn_start_def conn_inv_def conn_ok_def)

text \<open>A configuration and build with connections.\<close>

definition conn_cfg_ok :: "build \<Rightarrow> arq_cfg_t \<Rightarrow> bool" where
  "conn_cfg_ok b cfg \<longleftrightarrow> use_connections b \<and> connection_rst_period cfg < 2 ^ 32"

interpretation handshake: invariant_system conn_start
  "\<lambda>r r'. conn_cfg_ok b cfg \<and> conn_step b cfg r r'" conn_inv
  by unfold_locales (auto simp: conn_cfg_ok_def intro: conn_start_inv conn_step_inv)

section \<open>Properties\<close>

text \<open>
  C26. The polling loop of the connection returns: for a connection in any state, whose union
  holds the member of that state, and whatever header was received, \<open>arq__conn_poll\<close> has a
  result, and the union again holds the member of the state it ends in.
\<close>

theorem conn_poll_returns:
  assumes "conn_ok conn" "connection_rst_period cfg < 2 ^ 32"
  shows "\<exists>emit conn' sh' e. arq__conn_poll b conn sh rh dt cfg = Some (emit, conn', sh', e) \<and> conn_ok conn'"
proof (cases "use_connections b")
  case False
  then show ?thesis using assms by (auto simp: arq__conn_poll_def)
next
  case True
  obtain emit conn' sh' e where run: "arq__conn_poll b conn sh rh dt cfg = Some (emit, conn', sh', e)"
    using conn_loop_total [of "\<lparr>cx_cfg = cfg, cx_dt = dt, cx_conn = conn, cx_sh = sh, cx_rh = rh\<rparr>" False ARQ_EVENT_NONE]
      assms(1) True by (auto simp: arq__conn_poll_def)
  show ?thesis using run conn_poll_keeps_ok [OF True assms(1,2) run] by blast
qed

theorem conn_poll_returns_witness:
  "\<exists>emit conn' sh' e. arq__conn_poll le_build (conn_connect \<lparr>cn_state = ARQ_CONN_STATE_CLOSED,
      cn_u = U_rst_recvd \<lparr>rr_cnt = 0, rr_tmr = 0, rr_sent_rst_ack = False\<rparr>\<rparr>)
      None arq__frame_hdr_init 5 demo_cfg = Some (emit, conn', sh', e) \<and> conn_ok conn'"
  by (rule conn_poll_returns) (simp_all add: conn_ok_def conn_connect_def connect_u_def demo_cfg_def)

text \<open>
  C27. Safety of the handshake: a connection that is established has, since it last left
  \<open>CLOSED\<close>, received a frame with \<open>rst\<close> from its peer and sent one with \<open>rst\<close> or \<open>ack\<close> itself,
  in whatever order frames, timeouts and connection requests came.
\<close>

theorem established_after_handshake:
  assumes "reach conn_start (\<lambda>r r'. conn_cfg_ok b cfg \<and> conn_step b cfg r r') r"
    and "cn_state (cr_conn r) = ARQ_CONN_STATE_ESTABLISHED"
  shows "cr_heard r \<and> cr_spoke r"
  using handshake.reach_inv [OF assms(1)] assms(2) by (simp add: conn_inv_def)

definition demo_closed :: arq__conn_t where
  "demo_closed = \<lparr>cn_state = ARQ_CONN_STATE_CLOSED, cn_u = U_rst_sent connect_u\<rparr>"

definition demo_rst_sent :: arq__conn_t where
  "demo_rst_sent = \<lparr>cn_state = ARQ_CONN_STATE_RST_SENT,
     cn_u = U_rst_sent (connect_u\<lparr>rs_cnt := 1, rs_tmr := 100\<rparr>)\<rparr>"

lemma conn_step_pollI:
  assumes "arq__conn_poll b c sh rh dt cfg = Some (emit, c', sh', e)" "dt < 2 ^ 32"
    and "heard' = (cn_state c \<noteq> ARQ_CONN_STATE_CLOSED \<and> heard \<or> h_rst rh)"
    and "spoke' = (cn_state c \<noteq> ARQ_CONN_STATE_CLOSED \<and> spoke \<or> sent_handshake emit sh')"
  shows "conn_step b cfg \<lparr>cr_conn = c, cr_heard = heard, cr_spoke = spoke\<rparr>
    \<lparr>cr_conn = c', cr_heard = heard', cr_spoke = spoke'\<rparr>"
  using conn_step.poll [of b "\<lparr>cr_conn = c, cr_heard = heard, cr_spoke = spoke\<rparr>"] assms by simp

lemma demo_handshake_reach:
  "reach conn_start (\<lambda>r r'. conn_cfg_ok le_build demo_cfg \<and> conn_step le_build demo_cfg r r')
     \<lparr>cr_conn = \<lparr>cn_state = ARQ_CONN_STATE_ESTABLISHED,
        cn_u = U_rst_sent (connect_u\<lparr>rs_cnt := 1, rs_tmr := 100, rs_recvd_rst_ack := True\<rparr>)\<rparr>,
      cr_heard = True, cr_spoke = True\<rparr>" (is "reach _ _ ?r3")
proof -
  let ?r0 = "\<lparr>cr_conn = demo_closed, cr_heard = False, cr_spoke = False\<rparr>"
  let ?r1 = "\<lparr>cr_conn = conn_connect demo_closed, cr_heard = False, cr_spoke = False\<rparr>"
  let ?r2 = "\<lparr>cr_conn = demo_rst_sent, cr_heard = False, cr_spoke = True\<rparr>"
  have ok: "conn_cfg_ok le_build demo_cfg" by (simp add: conn_cfg_ok_def le_build_def demo_cfg_def)
  have s1: "conn_step le_build demo_cfg ?r0 ?r1"
    using conn_step.connect [of ?r0 le_build demo_cfg] by (simp add: demo_closed_def)
  have "arq__conn_poll le_build (conn_connect demo_closed) (Some arq__frame_hdr_init) arq__frame_hdr_init 1 demo_cfg =
      Some (True, demo_rst_sent, Some (arq__frame_hdr_init\<lparr>h_rst := True\<rparr>), ARQ_EVENT_NONE)"
    by code_simp
  then have s2: "conn_step le_build demo_cfg ?r1 ?r2"
    by (rule conn_step_pollI) (simp_all add: sent_handshake_def arq__frame_hdr_init_def)
  have "arq__conn_poll le_build demo_rst_sent (Some arq__frame_hdr_init)
      (arq__frame_hdr_init\<lparr>h_rst := True, h_ack := True\<rparr>) 1 demo_cfg =
      Some (True, cr_conn ?r3, Some (arq__frame_hdr_init\<lparr>h_ack := True\<rparr>), ARQ_EVENT_CONN_ESTABLISHED)"
    by code_simp
  then have s3: "conn_step le_build demo_cfg ?r2 ?r3"
    unfolding conn_run.simps
    by (rule conn_step_pollI) (simp_all add: sent_handshake_def arq__frame_hdr_init_def demo_rst_sent_def)
  have "reach conn_start (\<lambda>r r'. conn_cfg_ok le_build demo_cfg \<and> conn_step le_build demo_cfg r r') ?r0"
    by (rule reach_start) (simp add: conn_start_def demo_closed_def)
  then show ?thesis using reach_step s1 s2 s3 ok by (metis (no_types, lifting))
qed

theorem established_after_handshake_witness:
  "cr_heard \<lparr>cr_conn = \<lparr>cn_state = ARQ_CONN_STATE_ESTABLISHED,
        cn_u = U_rst_sent (connect_u\<lparr>rs_cnt := 1, rs_tmr := 100, rs_recvd_rst_ack := True\<rparr>)\<rparr>,
      cr_heard = True, cr_spoke = True\<rparr>"
  using established_after_handshake [OF demo_handshake_reach] by simp

text \<open>Headers without flags, and what one poll does in the states of the handshake.\<close>

definition silent :: "arq__frame_hdr_t \<Rightarrow> bool" where
  "silent h \<longleftrightarrow> \<not> h_rst h \<and> \<not> h_ack h \<and> \<not> h_seg h"

lemma poll_rst_sent_expired:
  assumes "use_connections b" "cn_state c = ARQ_CONN_STATE_RST_SENT" "cn_u c = U_rst_sent u"
    and "\<not> rs_recvd_rst_ack u" "\<not> rs_simultaneous u" "rs_tmr u \<le> dt" "rs_cnt u + 1 < 2 ^ 32" "rs_tmr u < 2 ^ 32"
    and "silent rh"
  shows "arq__conn_poll b c (Some s) rh dt cfg =
    (let u' = u\<lparr>rs_tmr := connection_rst_period cfg, rs_cnt := rs_cnt u + 1\<rparr> in
     if rs_cnt u + 1 > connection_rst_attempts cfg
     then Some (True, \<lparr>cn_state = ARQ_CONN_STATE_CLOSED, cn_u = U_rst_sent u'\<rparr>, Some (s\<lparr>h_rst := True\<rparr>),
            ARQ_EVENT_CONN_FAILED_NO_RESPONSE)
     else Some (True, c\<lparr>cn_u := U_rst_sent u'\<rparr>, Some (s\<lparr>h_rst := True\<rparr>), ARQ_EVENT_NONE))"
proof -
  have ok: "conn_ok c" using assms by (simp add: conn_ok_def)
  show ?thesis
    using assms
    by (cases c; cases u)
      (simp add: conn_poll_active [OF ok _ assms(1)] arq__conn_poll_state_rst_sent_def silent_def Let_def u32_def)
qed

lemma poll_rst_sent_reply:
  assumes "use_connections b" "conn_ok c" "cn_state c = ARQ_CONN_STATE_RST_SENT" "h_rst rh" "\<not> h_seg rh"
  shows "\<exists>c'. arq__conn_poll b c (Some s) rh dt cfg =
      Some (True, c', Some (s\<lparr>h_ack := True\<rparr>), ARQ_EVENT_CONN_ESTABLISHED) \<and>
    cn_state c' = ARQ_CONN_STATE_ESTABLISHED"
proof -
  obtain u where "cn_u c = U_rst_sent u" using assms by (auto simp: conn_ok_def split: arq__conn_u.splits)
  then show ?thesis
    using assms(3-)
    by (cases "h_ack rh")
      (simp_all add: conn_poll_active [OF assms(2) _ assms(1)] arq__conn_poll_state_rst_sent_def Let_def)
qed

lemma poll_closed_rst:
  assumes "use_connections b" "cn_state c = ARQ_CONN_STATE_CLOSED" "h_rst rh" "\<not> h_ack rh" "\<not> h_seg rh"
    and "connection_rst_attempts cfg \<ge> 1"
  shows "arq__conn_poll b c (Some s) rh dt cfg =
    Some (True, \<lparr>cn_state = ARQ_CONN_STATE_RST_RECVD, cn_u = U_rst_recvd
        \<lparr>rr_cnt = 1, rr_tmr = connection_rst_period cfg, rr_sent_rst_ack = True\<rparr>\<rparr>,
      Some (s\<lparr>h_ack := True, h_rst := True\<rparr>), ARQ_EVENT_NONE)"
  using assms by (simp add: conn_poll_start arq__conn_poll_state_rst_recvd_def Let_def u32_def arq__sub_sat_def)

lemma poll_rst_recvd_ack:
  assumes "use_connections b" "conn_ok c" "cn_state c = ARQ_CONN_STATE_RST_RECVD" "cn_u c = U_rst_recvd u"
    and "rr_sent_rst_ack u" "h_ack rh" "\<not> h_seg rh"
  shows "arq__conn_poll b c sh rh dt cfg =
    Some (False, c\<lparr>cn_state := ARQ_CONN_STATE_ESTABLISHED\<rparr>, sh, ARQ_EVENT_CONN_ESTABLISHED)"
  using assms by (simp add: conn_poll_active [OF assms(2) _ assms(1)] arq__conn_poll_state_rst_recvd_def)

text \<open>
  The three-way handshake: when one peer connects, the other one is closed, and each gets the
  frame the other one sends, four polls establish both connections, with the frames RST,
  RST+ACK and ACK, and each peer is told once.
\<close>

theorem three_way_handshake:
  assumes "use_connections b" "cn_state p0 = ARQ_CONN_STATE_CLOSED" "silent rh0"
    and "\<forall>s \<in> {s1, s2, s3, s4}. silent s"
    and "connection_rst_attempts cfg \<ge> 1" "connection_rst_attempts cfg' \<ge> 1"
    and "connection_rst_period cfg < 2 ^ 32" "connection_rst_period cfg' < 2 ^ 32"
  shows "\<exists>c1 c2 p1 p2 h1 h2 h3.
    arq__conn_poll b (conn_connect c0) (Some s1) rh0 d1 cfg = Some (True, c1, Some h1, ARQ_EVENT_NONE) \<and>
    arq__conn_poll b p0 (Some s2) h1 d2 cfg' = Some (True, p1, Some h2, ARQ_EVENT_NONE) \<and>
    arq__conn_poll b c1 (Some s3) h2 d3 cfg = Some (True, c2, Some h3, ARQ_EVENT_CONN_ESTABLISHED) \<and>
    arq__conn_poll b p1 (Some s4) h3 d4 cfg' = Some (False, p2, Some s4, ARQ_EVENT_CONN_ESTABLISHED) \<and>
    h_rst h1 \<and> \<not> h_ack h1 \<and> h_rst h2 \<and> h_ack h2 \<and> h_ack h3 \<and> \<not> h_rst h3 \<and>
    cn_state c2 = ARQ_CONN_STATE_ESTABLISHED \<and> cn_state p2 = ARQ_CONN_STATE_ESTABLISHED"
proof -
  let ?h1 = "s1\<lparr>h_rst := True\<rparr>" and ?h2 = "s2\<lparr>h_ack := True, h_rst := True\<rparr>" and ?h3 = "s3\<lparr>h_ack := True\<rparr>"
  define c1 where "c1 = \<lparr>cn_state = ARQ_CONN_STATE_RST_SENT, cn_u = U_rst_sent
    \<lparr>rs_cnt = 1, rs_tmr = connection_rst_period cfg, rs_recvd_rst_ack = False, rs_simultaneous = False\<rparr>\<rparr>"
  define p1 where "p1 = \<lparr>cn_state = ARQ_CONN_STATE_RST_RECVD, cn_u = U_rst_recvd
    \<lparr>rr_cnt = 1, rr_tmr = connection_rst_period cfg', rr_sent_rst_ack = True\<rparr>\<rparr>"
  have 1: "arq__conn_poll b (conn_connect c0) (Some s1) rh0 d1 cfg = Some (True, c1, Some ?h1, ARQ_EVENT_NONE)"
    using assms by (subst poll_rst_sent_expired [where u = connect_u]) (simp_all add: conn_connect_def c1_def connect_u_def)
  have 2: "arq__conn_poll b p0 (Some s2) ?h1 d2 cfg' = Some (True, p1, Some ?h2, ARQ_EVENT_NONE)"
    using assms by (subst poll_closed_rst) (simp_all add: silent_def p1_def)
  obtain c2 where 3: "arq__conn_poll b c1 (Some s3) ?h2 d3 cfg = Some (True, c2, Some ?h3, ARQ_EVENT_CONN_ESTABLISHED)"
    "cn_state c2 = ARQ_CONN_STATE_ESTABLISHED"
    using poll_rst_sent_reply [of b c1 ?h2 s3 d3 cfg] assms by (auto simp: conn_ok_def c1_def silent_def)
  define p2 where "p2 = p1\<lparr>cn_state := ARQ_CONN_STATE_ESTABLISHED\<rparr>"
  have 4: "arq__conn_poll b p1 (Some s4) ?h3 d4 cfg' = Some (False, p2, Some s4, ARQ_EVENT_CONN_ESTABLISHED)"
    using assms by (subst poll_rst_recvd_ack [where u = "\<lparr>rr_cnt = 1, rr_tmr = connection_rst_period cfg', rr_sent_rst_ack = True\<rparr>"])
      (simp_all add: conn_ok_def p1_def p2_def silent_def)
  have "h_rst ?h1 \<and> \<not> h_ack ?h1 \<and> h_rst ?h2 \<and> h_ack ?h2 \<and> h_ack ?h3 \<and> \<not> h_rst ?h3"
    using assms(4) by (simp add: silent_def)
  moreover have "cn_state p2 = ARQ_CONN_STATE_ESTABLISHED" by (simp add: p2_def)
  ultimately show ?thesis using 1 2 3 4 by blast
qed

theorem three_way_handshake_witness:
  "\<exists>c1 c2 p1 p2 h1 h2 h3.
    arq__conn_poll le_build (conn_connect \<lparr>cn_state = ARQ_CONN_STATE_CLOSED, cn_u = U_rst_sent connect_u\<rparr>)
      (Some arq__frame_hdr_init) arq__frame_hdr_init 1 demo_cfg = Some (True, c1, Some h1, ARQ_EVENT_NONE) \<and>
    arq__conn_poll le_build \<lparr>cn_state = ARQ_CONN_STATE_CLOSED, cn_u = U_rst_sent connect_u\<rparr>
      (Some arq__frame_hdr_init) h1 2 demo_cfg = Some (True, p1, Some h2, ARQ_EVENT_NONE) \<and>
    arq__conn_poll le_build c1 (Some arq__frame_hdr_init) h2 3 demo_cfg =
      Some (True, c2, Some h3, ARQ_EVENT_CONN_ESTABLISHED) \<and>
    arq__conn_poll le_build p1 (Some arq__frame_hdr_init) h3 4 demo_cfg =
      Some (False, p2, Some arq__frame_hdr_init, ARQ_EVENT_CONN_ESTABLISHED) \<and>
    h_rst h1 \<and> \<not> h_ack h1 \<and> h_rst h2 \<and> h_ack h2 \<and> h_ack h3 \<and> \<not> h_rst h3 \<and>
    cn_state c2 = ARQ_CONN_STATE_ESTABLISHED \<and> cn_state p2 = ARQ_CONN_STATE_ESTABLISHED"
  by (rule three_way_handshake) (simp_all add: le_build_def silent_def arq__frame_hdr_init_def demo_cfg_def)

text \<open>
  Simultaneous open: when both peers connect and their first frames cross, each answers the
  other's RST with an ACK and is established after its second poll.
\<close>

theorem simultaneous_open:
  assumes "use_connections b" "silent rh0" "\<forall>s \<in> {s1, s2, s3, s4}. silent s"
    and "connection_rst_attempts cfg \<ge> 1" "connection_rst_attempts cfg' \<ge> 1"
    and "connection_rst_period cfg < 2 ^ 32" "connection_rst_period cfg' < 2 ^ 32"
  shows "\<exists>c1 c2 p1 p2 h1 h2.
    arq__conn_poll b (conn_connect c0) (Some s1) rh0 d1 cfg = Some (True, c1, Some h1, ARQ_EVENT_NONE) \<and>
    arq__conn_poll b (conn_connect p0) (Some s2) rh0 d2 cfg' = Some (True, p1, Some h2, ARQ_EVENT_NONE) \<and>
    arq__conn_poll b c1 (Some s3) h2 d3 cfg = Some (True, c2, Some (s3\<lparr>h_ack := True\<rparr>), ARQ_EVENT_CONN_ESTABLISHED) \<and>
    arq__conn_poll b p1 (Some s4) h1 d4 cfg' = Some (True, p2, Some (s4\<lparr>h_ack := True\<rparr>), ARQ_EVENT_CONN_ESTABLISHED) \<and>
    cn_state c2 = ARQ_CONN_STATE_ESTABLISHED \<and> cn_state p2 = ARQ_CONN_STATE_ESTABLISHED"
proof -
  have opened: "\<exists>c1. arq__conn_poll b (conn_connect c) (Some s) rh0 d g =
      Some (True, c1, Some (s\<lparr>h_rst := True\<rparr>), ARQ_EVENT_NONE) \<and>
      conn_ok c1 \<and> cn_state c1 = ARQ_CONN_STATE_RST_SENT"
    if "connection_rst_attempts g \<ge> 1" "connection_rst_period g < 2 ^ 32" for c s d g
    using assms(1,2) that
    by (subst poll_rst_sent_expired [where u = connect_u]) (simp_all add: conn_connect_def connect_u_def conn_ok_def)
  obtain c1 where c1: "arq__conn_poll b (conn_connect c0) (Some s1) rh0 d1 cfg =
      Some (True, c1, Some (s1\<lparr>h_rst := True\<rparr>), ARQ_EVENT_NONE)" "conn_ok c1" "cn_state c1 = ARQ_CONN_STATE_RST_SENT"
    using opened assms(4,6) by blast
  obtain p1 where p1: "arq__conn_poll b (conn_connect p0) (Some s2) rh0 d2 cfg' =
      Some (True, p1, Some (s2\<lparr>h_rst := True\<rparr>), ARQ_EVENT_NONE)" "conn_ok p1" "cn_state p1 = ARQ_CONN_STATE_RST_SENT"
    using opened assms(5,7) by blast
  have "h_rst (s\<lparr>h_rst := True\<rparr>)" "\<not> h_seg (s\<lparr>h_rst := True\<rparr>)" if "s \<in> {s1, s2}" for s
    using assms(3) that by (auto simp: silent_def)
  then show ?thesis
    using c1 p1 poll_rst_sent_reply [OF assms(1) c1(2,3), of "s2\<lparr>h_rst := True\<rparr>" s3 d3 cfg]
      poll_rst_sent_reply [OF assms(1) p1(2,3), of "s1\<lparr>h_rst := True\<rparr>" s4 d4 cfg'] by blast
qed

theorem simultaneous_open_witness:
  "\<exists>c1 c2 p1 p2 h1 h2.
    arq__conn_poll le_build (conn_connect \<lparr>cn_state = ARQ_CONN_STATE_CLOSED, cn_u = U_rst_sent connect_u\<rparr>)
      (Some arq__frame_hdr_init) arq__frame_hdr_init 1 demo_cfg = Some (True, c1, Some h1, ARQ_EVENT_NONE) \<and>
    arq__conn_poll le_build (conn_connect \<lparr>cn_state = ARQ_CONN_STATE_CLOSED, cn_u = U_rst_sent connect_u\<rparr>)
      (Some arq__frame_hdr_init) arq__frame_hdr_init 1 demo_cfg = Some (True, p1, Some h2, ARQ_EVENT_NONE) \<and>
    arq__conn_poll le_build c1 (Some arq__frame_hdr_init) h2 7 demo_cfg =
      Some (True, c2, Some (arq__frame_hdr_init\<lparr>h_ack := True\<rparr>), ARQ_EVENT_CONN_ESTABLISHED) \<and>
    arq__conn_poll le_build p1 (Some arq__frame_hdr_init) h1 7 demo_cfg =
      Some (True, p2, Some (arq__frame_hdr_init\<lparr>h_ack := True\<rparr>), ARQ_EVENT_CONN_ESTABLISHED) \<and>
    cn_state c2 = ARQ_CONN_STATE_ESTABLISHED \<and> cn_state p2 = ARQ_CONN_STATE_ESTABLISHED"
  by (rule simultaneous_open) (simp_all add: le_build_def silent_def arq__frame_hdr_init_def demo_cfg_def)

text \<open>Polls that receive nothing and always may send: what each one emits and reports.\<close>

primrec silent_polls :: "build \<Rightarrow> arq_cfg_t \<Rightarrow> nat list \<Rightarrow> arq__conn_t \<Rightarrow>
    ((bool \<times> arq_event_t) list \<times> arq__conn_t) option" where
  "silent_polls b cfg [] c = Some ([], c)"
| "silent_polls b cfg (d # ds) c = do {
     (emit, c', _, e) \<leftarrow> arq__conn_poll b c (Some arq__frame_hdr_init) arq__frame_hdr_init d cfg;
     (rs, c'') \<leftarrow> silent_polls b cfg ds c';
     Some ((emit, e) # rs, c'')
   }"

lemma silent_hdr_init: "silent arq__frame_hdr_init"
  by (simp add: silent_def arq__frame_hdr_init_def)

lemma silent_polls_give_up:
  assumes b: "use_connections b" and cfg: "connection_rst_attempts cfg + 1 < 2 ^ 32" "connection_rst_period cfg < 2 ^ 32"
    and "rs_tmr u < 2 ^ 32" "rs_cnt u + n = connection_rst_attempts cfg" "length ds = n + 1"
    and "rs_tmr u \<le> hd ds" "\<forall>d \<in> set (tl ds). connection_rst_period cfg \<le> d"
    and "\<not> rs_recvd_rst_ack u" "\<not> rs_simultaneous u"
  shows "\<exists>c'. silent_polls b cfg ds \<lparr>cn_state = ARQ_CONN_STATE_RST_SENT, cn_u = U_rst_sent u\<rparr> =
      Some (replicate n (True, ARQ_EVENT_NONE) @ [(True, ARQ_EVENT_CONN_FAILED_NO_RESPONSE)], c') \<and>
    cn_state c' = ARQ_CONN_STATE_CLOSED"
  using assms(4-)
proof (induction n arbitrary: u ds)
  case 0
  then obtain d where ds: "ds = [d]" by (cases ds) auto
  show ?case
    using 0 cfg b unfolding ds
    by (simp add: poll_rst_sent_expired [where u = u] silent_hdr_init)
next
  case (Suc n)
  then obtain d ds' where ds: "ds = d # ds'" "length ds' = n + 1" by (cases ds) auto
  then have hd: "hd ds' \<in> set ds'" "set (tl ds') \<subseteq> set ds'" by (cases ds'; auto)+
  let ?u = "u\<lparr>rs_tmr := connection_rst_period cfg, rs_cnt := rs_cnt u + 1\<rparr>"
  obtain c' where "silent_polls b cfg ds' \<lparr>cn_state = ARQ_CONN_STATE_RST_SENT, cn_u = U_rst_sent ?u\<rparr> =
      Some (replicate n (True, ARQ_EVENT_NONE) @ [(True, ARQ_EVENT_CONN_FAILED_NO_RESPONSE)], c')"
    "cn_state c' = ARQ_CONN_STATE_CLOSED"
    using Suc.IH [of ?u ds'] Suc.prems ds hd cfg(2) by auto
  then show ?case
    using Suc.prems cfg b
    by (simp add: ds(1) poll_rst_sent_expired [where u = u] silent_hdr_init Let_def)
qed



text \<open>A handshake that waits for its peer, or for its timer.\<close>

definition conn_waiting :: "arq__conn_t \<Rightarrow> bool" where
  "conn_waiting c \<longleftrightarrow>
     (case cn_u c of
        U_rst_sent u \<Rightarrow> cn_state c = ARQ_CONN_STATE_RST_SENT \<and> \<not> rs_recvd_rst_ack u \<and> \<not> rs_simultaneous u
      | U_rst_recvd u \<Rightarrow> cn_state c = ARQ_CONN_STATE_RST_RECVD)"

text \<open>
  C30. \<open>arq__conn_next_poll\<close> is exact: a poll of a waiting handshake that receives nothing sends
  if and only if at least the announced time has passed; before that it changes nothing but the
  announcement, which becomes smaller by the time that passed.
\<close>

theorem conn_next_poll_exact:
  assumes "use_connections b" "conn_ok c" "conn_waiting c" "silent rh" "arq__conn_next_poll c = Some n"
  shows "\<exists>emit c' sh' e. arq__conn_poll b c (Some s) rh dt cfg = Some (emit, c', sh', e) \<and>
    (emit \<longleftrightarrow> n \<le> dt) \<and>
    (\<not> emit \<longrightarrow> e = ARQ_EVENT_NONE \<and> conn_waiting c' \<and> cn_state c' = cn_state c \<and>
       arq__conn_next_poll c' = Some (n - dt))"
proof (cases "cn_u c")
  case (U_rst_sent u)
  then have st: "cn_state c = ARQ_CONN_STATE_RST_SENT" and n: "n = rs_tmr u" and u: "rs_tmr u < 2 ^ 32"
    and f: "\<not> rs_recvd_rst_ack u" "\<not> rs_simultaneous u"
    using assms(2,3,5) by (auto simp: conn_ok_def conn_waiting_def arq__conn_next_poll_def arq__min_def ARQ_TIME_INFINITY_def)
  show ?thesis
    using assms(4) st n u f U_rst_sent
    by (cases "rs_tmr u \<le> dt")
      (auto simp: conn_poll_active [OF assms(2) _ assms(1)] arq__conn_poll_state_rst_sent_def silent_def Let_def
        arq__sub_sat_def conn_waiting_def arq__conn_next_poll_def arq__min_def ARQ_TIME_INFINITY_def)
next
  case (U_rst_recvd u)
  then have st: "cn_state c = ARQ_CONN_STATE_RST_RECVD" and n: "n = rr_tmr u" and u: "rr_tmr u < 2 ^ 32"
    using assms(2,3,5) by (auto simp: conn_ok_def conn_waiting_def arq__conn_next_poll_def arq__min_def ARQ_TIME_INFINITY_def)
  show ?thesis
    using assms(4) st n u U_rst_recvd
    by (cases "rr_tmr u \<le> dt")
      (auto simp: conn_poll_active [OF assms(2) _ assms(1)] arq__conn_poll_state_rst_recvd_def silent_def Let_def
        arq__sub_sat_def conn_waiting_def arq__conn_next_poll_def arq__min_def ARQ_TIME_INFINITY_def)
qed

theorem conn_next_poll_exact_witness:
  "\<exists>emit c' sh' e. arq__conn_poll le_build demo_rst_sent (Some arq__frame_hdr_init) arq__frame_hdr_init 30 demo_cfg =
      Some (emit, c', sh', e) \<and> \<not> emit \<and> arq__conn_next_poll c' = Some 70"
  using conn_next_poll_exact [of le_build demo_rst_sent arq__frame_hdr_init 100 arq__frame_hdr_init 30 demo_cfg]
  by (auto simp: le_build_def conn_ok_def conn_waiting_def demo_rst_sent_def connect_u_def silent_hdr_init
      arq__conn_next_poll_def arq__min_def ARQ_TIME_INFINITY_def)

end
