(* ===== verification/Arq_Poll.thy ===== *)
theory Arq_Poll imports Arq_Send_Ptr Arq_Reassembly Arq_Recv_Frame Arq_Conn begin

text \<open>
  The three polls \<open>arq_backend_poll\<close> of \<open>src/arq.h\<close> is made of: \<open>arq__recv_poll\<close> (a frame that
  arrived goes into the receive window, and an acknowledgement goes out), \<open>arq__send_poll\<close> (an
  acknowledgement that arrived releases messages, timers run, the next segment goes out), and
  \<open>arq__next_poll\<close>, the time until one of the timers needs the next poll.
\<close>

section \<open>Operations\<close>

text \<open>
  A header that may be missing (\<open>sh\<close>) is an option; a null \<open>sh\<close> means that no frame can be sent.
  The results are the returned value and what the poll writes through its pointers. The frame is
  decoded in place in \<open>rf->buf\<close>, and the segment pointer points into that buffer.
\<close>

definition recv_poll_frame ::
  "build \<Rightarrow> arq__recv_wnd_t \<Rightarrow> arq__recv_frame_t \<Rightarrow> checksum \<Rightarrow> arq__frame_hdr_t \<Rightarrow> nat \<Rightarrow>
   (arq__recv_wnd_t \<times> arq__recv_frame_t \<times> arq__frame_hdr_t) option" where
  "recv_poll_frame b rw rf checksum rh inter_seg_ack =
     (if rf_state rf = ARQ__RECV_FRAME_STATE_FULL_FRAME_PRESENT
      then do {
        (ok, rh', seg, buf) \<leftarrow> arq__frame_read b (rf_buf rf) (rf_len rf) checksum;
        let rf' = arq__recv_frame_rst (rf\<lparr>rf_buf := buf\<rparr>);
        if ok = ARQ__FRAME_READ_RESULT_SUCCESS \<and> h_seg rh'
        then do {
          (n, rw') \<leftarrow> arq__recv_wnd_frame b rw (h_seq_num rh') (h_seg_id rh') (h_msg_len rh')
                       (drop seg buf) (h_seg_len rh') inter_seg_ack;
          Some (rw', rf', rh')
        }
        else Some (rw, rf', rh')
      }
      else Some (rw, rf, rh))"

definition recv_poll_timer :: "arq__recv_wnd_t \<Rightarrow> nat \<Rightarrow> arq__recv_wnd_t option" where
  "recv_poll_timer rw dt =
     (if r_inter_seg_ack_on rw
      then (let rw' = rw\<lparr>r_inter_seg_ack := arq__sub_sat (r_inter_seg_ack rw) dt\<rparr>
            in if r_inter_seg_ack rw' = 0
               then do {
                 idx \<leftarrow> umod (r_inter_seg_ack_seq rw') (w_cap (r_w rw'));
                 ack \<leftarrow> wr (r_ack rw') idx True;
                 Some (rw'\<lparr>r_inter_seg_ack_on := False, r_ack := ack\<rparr>)
               }
               else Some rw')
      else Some rw)"

definition arq__recv_poll ::
  "build \<Rightarrow> arq__recv_wnd_t \<Rightarrow> arq__recv_frame_t \<Rightarrow> checksum \<Rightarrow> arq__frame_hdr_t option \<Rightarrow>
   arq__frame_hdr_t \<Rightarrow> nat \<Rightarrow> nat \<Rightarrow>
   (bool \<times> arq__recv_wnd_t \<times> arq__recv_frame_t \<times> arq__frame_hdr_t option \<times> arq__frame_hdr_t) option" where
  "arq__recv_poll b rw rf checksum sh rh dt inter_seg_ack = do {
     (rw1, rf1, rh1) \<leftarrow> recv_poll_frame b rw rf checksum rh inter_seg_ack;
     rw2 \<leftarrow> recv_poll_timer rw1 dt;
     (case sh of
        Some h \<Rightarrow> do {
          (a, rw3) \<leftarrow> arq__recv_wnd_ack rw2;
          (case a of
             Some (seq, vec) \<Rightarrow>
               Some (True, rw3, rf1, Some (h\<lparr>h_ack := True, h_ack_num := seq, h_cur_ack_vec := vec\<rparr>), rh1)
           | None \<Rightarrow> Some (False, rw3, rf1, Some (h\<lparr>h_ack := False\<rparr>), rh1))
        }
      | None \<Rightarrow> Some (False, rw2, rf1, None, rh1))
   }"

text \<open>The send frame is an argument of \<open>arq__send_poll\<close> that it does not use.\<close>

definition send_poll_timers ::
  "arq__send_wnd_t \<Rightarrow> arq__frame_hdr_t \<Rightarrow> nat \<Rightarrow> arq__send_wnd_t option" where
  "send_poll_timers sw rh dt = do {
     sw1 \<leftarrow> (if h_ack rh then arq__send_wnd_ack sw (h_ack_num rh) (h_cur_ack_vec rh) else Some sw);
     sw2 \<leftarrow> arq__send_wnd_step sw1 dt;
     if s_tiny_on sw2 \<and> s_tiny sw2 = 0
     then do { sw3 \<leftarrow> arq__send_wnd_flush sw2; Some (sw3\<lparr>s_tiny_on := False\<rparr>) }
     else Some sw2
   }"

definition send_poll_header ::
  "arq__send_wnd_t \<Rightarrow> arq__send_wnd_ptr_t \<Rightarrow> arq__frame_hdr_t \<Rightarrow> nat \<Rightarrow>
   (arq__send_wnd_t \<times> arq__send_wnd_ptr_t \<times> arq__frame_hdr_t) option" where
  "send_poll_header sw sp h rtx = do {
     let p_seq' = p_seq sp;
     (r, sp') \<leftarrow> arq__send_wnd_ptr_next sp sw;
     sw' \<leftarrow> (if r = ARQ__SEND_WND_PTR_NEXT_COMPLETED_MSG
            then do {
              k \<leftarrow> umod p_seq' (w_cap (s_w sw));
              t \<leftarrow> wr (s_rtx sw) k rtx;
              Some (sw\<lparr>s_rtx := t\<rparr>)
            }
            else Some sw);
     if p_valid sp'
     then do {
       k \<leftarrow> umod (p_seq sp') (w_cap (s_w sw'));
       m \<leftarrow> rd (w_msg (s_w sw')) k;
       n \<leftarrow> udiv (sub32 (m_len m + w_seg_len (s_w sw')) 1) (w_seg_len (s_w sw'));
       Some (sw', sp', h\<lparr>h_msg_len := n, h_seq_num := p_seq sp', h_seg_id := p_seg sp', h_seg := True\<rparr>)
     }
     else Some (sw', sp', h)
   }"

definition arq__send_poll ::
  "arq__send_wnd_t \<Rightarrow> arq__send_wnd_ptr_t \<Rightarrow> arq__frame_hdr_t option \<Rightarrow> arq__frame_hdr_t \<Rightarrow> nat \<Rightarrow> nat \<Rightarrow>
   (bool \<times> arq__send_wnd_t \<times> arq__send_wnd_ptr_t \<times> arq__frame_hdr_t option) option" where
  "arq__send_poll sw sp sh rh dt rtx = do {
     sw1 \<leftarrow> send_poll_timers sw rh dt;
     (case sh of
        Some h \<Rightarrow> do {
          (sw2, sp', h') \<leftarrow> send_poll_header sw1 sp h rtx;
          Some (h_seg h', sw2, sp', Some h')
        }
      | None \<Rightarrow> Some (False, sw1, sp, None))
   }"

definition arq__next_poll ::
  "build \<Rightarrow> arq__send_wnd_t \<Rightarrow> arq__recv_wnd_t \<Rightarrow> arq__conn_t \<Rightarrow> nat option" where
  "arq__next_poll b sw rw c = do {
     np1 \<leftarrow> for_range 0 (w_size (s_w sw)) (\<lambda>i np. do {
       k \<leftarrow> umod (w_seq (s_w sw) + i) (w_cap (s_w sw));
       t \<leftarrow> rd (s_rtx sw) k;
       Some (if t > 0 then arq__min np t else np)
     }) ARQ_TIME_INFINITY;
     let np2 = (if s_tiny_on sw \<and> s_tiny sw > 0 then arq__min np1 (s_tiny sw) else np1);
     let np3 = (if r_inter_seg_ack_on rw \<and> r_inter_seg_ack rw > 0 then arq__min np2 (r_inter_seg_ack rw) else np2);
     if use_connections b then do { t \<leftarrow> arq__conn_next_poll c; Some (arq__min np3 t) } else Some np3
   }"

section \<open>The next poll\<close>

text \<open>The timers that run, each with the time it has left.\<close>

definition running_timers :: "arq__send_wnd_t \<Rightarrow> arq__recv_wnd_t \<Rightarrow> nat list" where
  "running_timers sw rw =
     filter (\<lambda>t. 0 < t) (map (\<lambda>i. s_rtx sw ! slot (s_w sw) i) [0..<w_size (s_w sw)] @
       (if s_tiny_on sw then [s_tiny sw] else []) @ (if r_inter_seg_ack_on rw then [r_inter_seg_ack rw] else []))"

lemma fold_min_timers:
  "fold (\<lambda>i np. if 0 < f i then arq__min np (f i) else np) xs a = Min (set (a # filter (\<lambda>t. 0 < t) (map f xs)))"
proof (induction xs arbitrary: a)
  case (Cons x xs)
  let ?S = "set (filter (\<lambda>t. 0 < t) (map f xs))"
  have "Min (insert (min a (f x)) ?S) = Min (insert a (insert (f x) ?S))"
    by (cases "?S = {}") (simp_all add: min.assoc min.left_commute)
  then show ?case using Cons.IH by simp
qed simp

lemma Min_append: "Min (set (a # xs @ ys)) = Min (set (Min (set (a # xs)) # ys))" for a :: nat
  by (cases "xs = []"; cases "ys = []") (simp_all add: Min_Un min.assoc)

lemma Min_optional:
  "Min (set (a # filter (\<lambda>t. 0 < t) (if on then [x] else []))) = (if on \<and> 0 < x then arq__min a x else a)"
  by (cases on; cases "x = 0") simp_all

lemma next_poll_eq:
  assumes ok: "send_wnd_ok sw"
  shows "arq__next_poll b sw rw c =
    (let n = Min (set (ARQ_TIME_INFINITY # running_timers sw rw))
     in if use_connections b then do { t \<leftarrow> arq__conn_next_poll c; Some (arq__min n t) } else Some n)"
proof -
  let ?w = "s_w sw" let ?f = "\<lambda>i. s_rtx sw ! slot ?w i"
  let ?rtx = "filter (\<lambda>t. 0 < t) (map ?f [0..<w_size ?w])"
  have wok: "wnd_ok ?w" using ok by (rule send_wnd_okD(1))
  note wd = wnd_okD [OF wok]
  have loop: "for_range 0 (w_size ?w) (\<lambda>i np. do {
       k \<leftarrow> umod (w_seq ?w + i) (w_cap ?w);
       t \<leftarrow> rd (s_rtx sw) k;
       Some (if t > 0 then arq__min np t else np)
     }) ARQ_TIME_INFINITY = Some (Min (set (ARQ_TIME_INFINITY # ?rtx)))"
  proof -
    have "for_range 0 (w_size ?w) (\<lambda>i np. do {
       k \<leftarrow> umod (w_seq ?w + i) (w_cap ?w);
       t \<leftarrow> rd (s_rtx sw) k;
       Some (if t > 0 then arq__min np t else np)
     }) ARQ_TIME_INFINITY = Some (fold (\<lambda>i np. if 0 < ?f i then arq__min np (?f i) else np)
         [0..<0 + w_size ?w] ARQ_TIME_INFINITY) \<and> True"
      by (rule for_range_fold [where P = "\<lambda>_. True"])
        (use wd(1) wok send_wnd_okD(2) [OF ok] in \<open>simp_all add: umod_pos slot_def [symmetric] rd_ok\<close>)
    then show ?thesis by (simp only: fold_min_timers add_0 simp_thms)
  qed
  define a where "a = Min (set (ARQ_TIME_INFINITY # ?rtx))"
  have eq: "Min (set (ARQ_TIME_INFINITY # running_timers sw rw)) =
      (let np2 = (if s_tiny_on sw \<and> s_tiny sw > 0 then arq__min a (s_tiny sw) else a)
       in if r_inter_seg_ack_on rw \<and> r_inter_seg_ack rw > 0 then arq__min np2 (r_inter_seg_ack rw) else np2)"
    unfolding running_timers_def filter_append
    by (subst Min_append, fold a_def, subst Min_append) (simp only: Min_optional Let_def)
  show ?thesis
    unfolding arq__next_poll_def loop a_def [symmetric] eq Let_def bind.bind_lunit by (rule refl)
qed

section \<open>The inter-segment timer and acknowledgements\<close>

definition timer_ran :: "arq__recv_wnd_t \<Rightarrow> nat \<Rightarrow> arq__recv_wnd_t" where
  "timer_ran rw dt =
     (if \<not> r_inter_seg_ack_on rw then rw
      else if r_inter_seg_ack rw \<le> dt
      then rw\<lparr>r_inter_seg_ack := 0, r_inter_seg_ack_on := False,
              r_ack := (r_ack rw)[r_inter_seg_ack_seq rw mod w_cap (r_w rw) := True]\<rparr>
      else rw\<lparr>r_inter_seg_ack := r_inter_seg_ack rw - dt\<rparr>)"

lemma recv_poll_timer_eq:
  assumes "recv_wnd_ok rw"
  shows "recv_poll_timer rw dt = Some (timer_ran rw dt)" "recv_wnd_ok (timer_ran rw dt)"
    "r_w (timer_ran rw dt) = r_w rw"
proof -
  note wd = wnd_okD [OF recv_wnd_okD(1) [OF assms]]
  have "r_inter_seg_ack_seq rw mod w_cap (r_w rw) < length (r_ack rw)"
    using wd(1) recv_wnd_okD(2) [OF assms] by simp
  then show "recv_poll_timer rw dt = Some (timer_ran rw dt)"
    using wd(1) by (auto simp: recv_poll_timer_def timer_ran_def Let_def umod_pos wr_ok arq__sub_sat_def)
  show "recv_wnd_ok (timer_ran rw dt)" "r_w (timer_ran rw dt) = r_w rw"
    using assms by (auto simp: timer_ran_def recv_wnd_ok_def)
qed

text \<open>The acknowledgement a poll puts into the header: of the first message that asks for one.\<close>

definition acked :: "arq__recv_wnd_t \<Rightarrow> arq__frame_hdr_t \<Rightarrow> bool \<times> arq__recv_wnd_t \<times> arq__frame_hdr_t" where
  "acked rw h =
     (case find (\<lambda>j. r_ack rw ! slot (r_w rw) j) [0..<w_size (r_w rw)] of
        None \<Rightarrow> (False, rw, h\<lparr>h_ack := False\<rparr>)
      | Some j \<Rightarrow> (True, rw\<lparr>r_ack := (r_ack rw)[slot (r_w rw) j := False]\<rparr>,
          h\<lparr>h_ack := True, h_ack_num := (w_seq (r_w rw) + j) mod 4096,
            h_cur_ack_vec := m_cur_ack_vec (msg_at (r_w rw) j)\<rparr>))"

lemma recv_wnd_ack_eq:
  assumes "recv_wnd_ok rw"
  shows "arq__recv_wnd_ack rw = Some (case find (\<lambda>j. r_ack rw ! slot (r_w rw) j) [0..<w_size (r_w rw)] of
       None \<Rightarrow> (None, rw)
     | Some j \<Rightarrow> (Some ((w_seq (r_w rw) + j) mod 4096, m_cur_ack_vec (msg_at (r_w rw) j)),
                 rw\<lparr>r_ack := (r_ack rw)[slot (r_w rw) j := False]\<rparr>))"
  using recv_wnd_ack_loop [OF assms, of 0 "w_size (r_w rw)"] wnd_okD(12) [OF recv_wnd_okD(1) [OF assms]]
  by (simp add: arq__recv_wnd_ack_def)

lemma acked_ok:
  assumes "recv_wnd_ok rw" "acked rw h = (e, rw', h')"
  shows "recv_wnd_ok rw'" "r_w rw' = r_w rw"
  using assms by (auto simp: acked_def recv_wnd_ok_def split: option.splits)

text \<open>A poll after the frame was dealt with.\<close>

lemma recv_poll_run:
  assumes "recv_poll_frame b rw rf checksum rh t = Some (rw1, rf1, rh1)" "recv_wnd_ok rw1"
  shows "arq__recv_poll b rw rf checksum sh rh dt t = Some
    (case sh of
       None \<Rightarrow> (False, timer_ran rw1 dt, rf1, None, rh1)
     | Some h \<Rightarrow> (case acked (timer_ran rw1 dt) h of (e, rw2, h') \<Rightarrow> (e, rw2, rf1, Some h', rh1)))"
  using assms recv_poll_timer_eq [OF assms(2), of dt]
  by (cases "find (\<lambda>j. r_ack (timer_ran rw1 dt) ! slot (r_w rw1) j) [0..<w_size (r_w rw1)]")
    (auto simp: arq__recv_poll_def recv_wnd_ack_eq acked_def split: option.splits)

section \<open>Announcing a segment\<close>

lemma send_wnd_ok_rtx:
  assumes "send_wnd_ok sw" "rtx < 2 ^ 32"
  shows "send_wnd_ok (sw\<lparr>s_rtx := (s_rtx sw)[k := rtx]\<rparr>)"
  using assms set_update_subset_insert [of "s_rtx sw" k rtx] by (auto simp: send_wnd_ok_def)

lemma send_poll_header_eq:
  assumes ok: "send_wnd_ok sw" and sp: "ptr_ok sp" and rtx: "rtx < 2 ^ 32"
  shows "\<exists>r sp' sw' h'. arq__send_wnd_ptr_next sp sw = Some (r, sp') \<and> ptr_ok sp' \<and>
    send_poll_header sw sp h rtx = Some (sw', sp', h') \<and> send_wnd_ok sw' \<and>
    sw' = (if r = ARQ__SEND_WND_PTR_NEXT_COMPLETED_MSG
           then sw\<lparr>s_rtx := (s_rtx sw)[p_seq sp mod w_cap (s_w sw) := rtx]\<rparr> else sw) \<and>
    h' = (if p_valid sp'
          then h\<lparr>h_msg_len := seg_count (s_w sw) (m_len (w_msg (s_w sw) ! (p_seq sp' mod w_cap (s_w sw)))),
                 h_seq_num := p_seq sp', h_seg_id := p_seg sp', h_seg := True\<rparr>
          else h)"
proof -
  obtain r sp' where r: "ptr_next_spec sw sp = (r, sp')" by fastforce
  have run: "arq__send_wnd_ptr_next sp sw = Some (r, sp')" "ptr_ok sp'"
    using send_wnd_ptr_next_eq [OF ok sp] ptr_next_spec_ok [OF ok sp] r by simp_all
  note wd = wnd_okD [OF send_wnd_okD(1) [OF ok]]
  let ?sw = "if r = ARQ__SEND_WND_PTR_NEXT_COMPLETED_MSG
      then sw\<lparr>s_rtx := (s_rtx sw)[p_seq sp mod w_cap (s_w sw) := rtx]\<rparr> else sw"
  have sw': "s_w ?sw = s_w sw" "send_wnd_ok ?sw" using ok send_wnd_ok_rtx [OF ok rtx] by simp_all
  have upd: "(if r = ARQ__SEND_WND_PTR_NEXT_COMPLETED_MSG
      then do { k \<leftarrow> umod (p_seq sp) (w_cap (s_w sw)); t \<leftarrow> wr (s_rtx sw) k rtx; Some (sw\<lparr>s_rtx := t\<rparr>) }
      else Some sw) = Some ?sw"
    using wd(1) send_wnd_okD(2) [OF ok] by (simp add: umod_pos wr_ok)
  let ?k = "p_seq sp' mod w_cap (s_w sw)"
  have k: "?k < w_cap (s_w sw)" using wd(1) by simp
  obtain i where i: "i < w_cap (s_w sw)" "slot (s_w sw) i = ?k"
    using slot_surj [OF send_wnd_okD(1) [OF ok] k] by blast
  have "m_len (w_msg (s_w sw) ! ?k) \<le> w_msg_len (s_w sw)"
    using send_wnd_okD(5) [OF ok i(1)] i(2) by (auto simp: send_msg_ok_def fresh_msg_def split: if_splits)
  then have "m_len (w_msg (s_w sw) ! ?k) + w_seg_len (s_w sw) < 4294967296"
    using wnd_ok_msg_len(2) [OF send_wnd_okD(1) [OF ok]] wd(5) by linarith
  then have n: "udiv (sub32 (m_len (w_msg (s_w sw) ! ?k) + w_seg_len (s_w sw)) 1) (w_seg_len (s_w sw)) =
      Some (seg_count (s_w sw) (m_len (w_msg (s_w sw) ! ?k)))"
    using wd(4) by (simp add: sub32_le udiv_pos seg_count_def)
  have m: "umod (p_seq sp') (w_cap (s_w sw)) = Some ?k" "rd (w_msg (s_w sw)) ?k = Some (w_msg (s_w sw) ! ?k)"
    using wd(1,9) k by (simp_all add: umod_pos rd_ok)
  let ?h = "if p_valid sp'
      then h\<lparr>h_msg_len := seg_count (s_w sw) (m_len (w_msg (s_w sw) ! ?k)),
             h_seq_num := p_seq sp', h_seg_id := p_seg sp', h_seg := True\<rparr> else h"
  have "send_poll_header sw sp h rtx = Some (?sw, sp', ?h)"
    unfolding send_poll_header_def Let_def run(1) bind.bind_lunit split_conv upd sw'(1) m n
    by (cases "p_valid sp'") simp_all
  then show ?thesis using run sw'(2) by blast
qed

lemma send_poll_timers_ok:
  assumes ok: "send_wnd_ok sw" and vec: "h_cur_ack_vec rh < 65536"
  shows "\<exists>sw'. send_poll_timers sw rh dt = Some sw' \<and> send_wnd_ok sw' \<and> w_cap (s_w sw') = w_cap (s_w sw) \<and>
    w_seg_len (s_w sw') = w_seg_len (s_w sw) \<and> w_msg_len (s_w sw') = w_msg_len (s_w sw)"
proof -
  have "\<exists>sw1. (if h_ack rh then arq__send_wnd_ack sw (h_ack_num rh) (h_cur_ack_vec rh) else Some sw) = Some sw1 \<and>
      send_wnd_ok sw1 \<and> w_cap (s_w sw1) = w_cap (s_w sw) \<and> w_seg_len (s_w sw1) = w_seg_len (s_w sw) \<and>
      w_msg_len (s_w sw1) = w_msg_len (s_w sw)"
  proof (cases "w_seq (s_w sw) \<le> h_ack_num rh \<and> h_ack_num rh < w_seq (s_w sw) + w_size (s_w sw)")
    case True
    then show ?thesis using send_wnd_ack_releases [OF ok _ _ vec, of "h_ack_num rh"] ok by auto
  next
    case False
    then show ?thesis using send_wnd_ack_outside [OF _ ok, of "h_ack_num rh"] ok by auto
  qed
  then obtain sw1 where 1: "(if h_ack rh then arq__send_wnd_ack sw (h_ack_num rh) (h_cur_ack_vec rh) else Some sw) = Some sw1"
    "send_wnd_ok sw1" "w_cap (s_w sw1) = w_cap (s_w sw)" "w_seg_len (s_w sw1) = w_seg_len (s_w sw)"
    "w_msg_len (s_w sw1) = w_msg_len (s_w sw)" by blast
  obtain sw2 where 2: "arq__send_wnd_step sw1 dt = Some sw2" "send_wnd_ok sw2" "s_w sw2 = s_w sw1"
    using send_wnd_step_eq [OF 1(2), of dt] by blast
  have "\<exists>sw3. arq__send_wnd_flush sw2 = Some sw3 \<and> send_wnd_ok sw3 \<and> w_cap (s_w sw3) = w_cap (s_w sw2) \<and>
      w_seg_len (s_w sw3) = w_seg_len (s_w sw2) \<and> w_msg_len (s_w sw3) = w_msg_len (s_w sw2)"
  proof (cases "w_size (s_w sw2) = 0")
    case True
    then show ?thesis using 2(2) by (simp add: arq__send_wnd_flush_def Let_def)
  next
    case False
    then show ?thesis using send_wnd_flush_eq [OF 2(2)] by auto
  qed
  then obtain sw3 where 3: "arq__send_wnd_flush sw2 = Some sw3" "send_wnd_ok sw3" "w_cap (s_w sw3) = w_cap (s_w sw2)"
    "w_seg_len (s_w sw3) = w_seg_len (s_w sw2)" "w_msg_len (s_w sw3) = w_msg_len (s_w sw2)" by blast
  have "send_wnd_ok (sw3\<lparr>s_tiny_on := False\<rparr>)" using 3(2) by (simp add: send_wnd_ok_def)
  then show ?thesis
    using 1 2 3 by (cases "s_tiny_on sw2 \<and> s_tiny sw2 = 0") (simp_all add: send_poll_timers_def)
qed

section \<open>A frame in the receive poll\<close>

text \<open>Only the bytes of the segment matter to the receive window, not what lies behind them.\<close>

lemma recv_wnd_frame_take:
  assumes "len \<le> length q"
  shows "arq__recv_wnd_frame b rw seq seg cnt q len t = arq__recv_wnd_frame b rw seq seg cnt (take len q) len t"
proof -
  have "memcpy_out q 0 len = memcpy_out (take len q) 0 len" using assms by (simp add: memcpy_out_def)
  then show ?thesis by (simp only: arq__recv_wnd_frame_def recv_wnd_store_def)
qed

definition frame_taken :: "arq__recv_frame_t \<Rightarrow> byte list \<Rightarrow> arq__recv_frame_t" where
  "frame_taken rf buf = arq__recv_frame_rst (rf\<lparr>rf_buf := buf\<rparr>)"

lemma frame_taken_ok:
  "recv_frame_ok rf \<Longrightarrow> length buf = length (rf_buf rf) \<Longrightarrow> recv_frame_ok (frame_taken rf buf)"
  by (simp add: frame_taken_def arq__recv_frame_rst_def recv_frame_ok_def)

text \<open>A frame that carries a segment and passes the checksum goes into the window.\<close>

lemma recv_poll_segment:
  assumes "rf_full rf" "arq__frame_read b (rf_buf rf) (rf_len rf) checksum =
      Some (ARQ__FRAME_READ_RESULT_SUCCESS, h, ofs, buf)"
    and "h_seg h" "h_seg_len h \<le> length (drop ofs buf)"
    and "arq__recv_wnd_frame b rw (h_seq_num h) (h_seg_id h) (h_msg_len h) (take (h_seg_len h) (drop ofs buf))
      (h_seg_len h) t = Some (n, rw')"
  shows "recv_poll_frame b rw rf checksum rh t = Some (rw', frame_taken rf buf, h)"
  using assms recv_wnd_frame_take [OF assms(4), of b rw]
  by (simp add: recv_poll_frame_def frame_taken_def)

lemma recv_poll_other:
  assumes "rf_full rf" "arq__frame_read b (rf_buf rf) (rf_len rf) checksum = Some (r, h, ofs, buf)"
    and "r \<noteq> ARQ__FRAME_READ_RESULT_SUCCESS \<or> \<not> h_seg h"
  shows "recv_poll_frame b rw rf checksum rh t = Some (rw, frame_taken rf buf, h)"
  using assms by (auto simp: recv_poll_frame_def frame_taken_def)

lemma recv_poll_no_frame: "\<not> rf_full rf \<Longrightarrow> recv_poll_frame b rw rf checksum rh t = Some (rw, rf, rh)"
  by (simp add: recv_poll_frame_def)

section \<open>Properties\<close>

text \<open>
  C32. \<open>arq__next_poll\<close> is the earliest of all timers that run: the retransmission timers of the
  messages in the send window, the tinygram timer, the inter-segment timer and the timer of the
  handshake; without one it is \<open>ARQ_TIME_INFINITY\<close>.
\<close>

theorem next_poll_is_earliest:
  assumes "send_wnd_ok sw" "arq__conn_next_poll c = Some t"
  shows "arq__next_poll b sw rw c =
    Some (Min (set (ARQ_TIME_INFINITY # running_timers sw rw @ (if use_connections b then [t] else []))))"
proof (cases "use_connections b")
  case True
  have "Min (set (ARQ_TIME_INFINITY # running_timers sw rw @ [t])) =
      arq__min (Min (set (ARQ_TIME_INFINITY # running_timers sw rw))) t"
    by (subst Min_append) simp
  then show ?thesis using True assms(2) unfolding next_poll_eq [OF assms(1)] Let_def by (simp only: if_True bind.bind_lunit)
next
  case False
  then show ?thesis unfolding next_poll_eq [OF assms(1)] Let_def by (simp only: if_False append_Nil2)
qed

theorem next_poll_is_earliest_witness:
  "arq__next_poll le_build demo_due_wnd demo_recv_wnd demo_rst_sent =
    Some (Min (set (ARQ_TIME_INFINITY # running_timers demo_due_wnd demo_recv_wnd @ [100])))"
proof -
  have "arq__conn_next_poll demo_rst_sent = Some 100" by code_simp
  from next_poll_is_earliest [OF demo_due_wnd_ok this, of le_build demo_recv_wnd] show ?thesis
    by (simp only: le_build_def build.select_convs if_True)
qed

text \<open>
  C33. A poll before the announced time lets no timer expire: no message becomes due, the tinygram
  is not flushed, and no acknowledgement is asked for by the inter-segment timer.
\<close>

theorem early_poll_expires_nothing:
  assumes "send_wnd_ok sw" "recv_wnd_ok rw" "arq__next_poll b sw rw c = Some n" "dt < n"
  shows "\<exists>sw' rw'. arq__send_wnd_step sw dt = Some sw' \<and> recv_poll_timer rw dt = Some rw' \<and>
    (\<forall>i < w_size (s_w sw). s_rtx sw' ! slot (s_w sw) i = 0 \<longleftrightarrow> s_rtx sw ! slot (s_w sw) i = 0) \<and>
    (s_tiny_on sw \<longrightarrow> (s_tiny sw' = 0 \<longleftrightarrow> s_tiny sw = 0)) \<and>
    (0 < r_inter_seg_ack rw \<longrightarrow> r_inter_seg_ack_on rw' = r_inter_seg_ack_on rw \<and> r_ack rw' = r_ack rw)"
proof -
  obtain sw' where step: "arq__send_wnd_step sw dt = Some sw'"
    "s_tiny_on sw' = s_tiny_on sw" "s_tiny sw' = (if s_tiny_on sw then s_tiny sw - dt else s_tiny sw)"
    "\<forall>i<w_cap (s_w sw). s_rtx sw' ! slot (s_w sw) i =
       (if i < w_size (s_w sw) then s_rtx sw ! slot (s_w sw) i - dt else s_rtx sw ! slot (s_w sw) i)"
    using send_wnd_step_eq [OF assms(1), of dt] by blast
  define m where "m = Min (set (ARQ_TIME_INFINITY # running_timers sw rw))"
  have "n \<le> m"
    using assms(3) unfolding next_poll_eq [OF assms(1)] Let_def m_def [symmetric]
    by (cases "use_connections b"; cases "arq__conn_next_poll c") auto
  then have early: "dt < t" if "t \<in> set (running_timers sw rw)" for t
    using that assms(4) \<open>n \<le> m\<close> Min_le [of "set (ARQ_TIME_INFINITY # running_timers sw rw)" t]
    unfolding m_def [symmetric] by fastforce
  have rtx: "dt < s_rtx sw ! slot (s_w sw) i" if "i < w_size (s_w sw)" "0 < s_rtx sw ! slot (s_w sw) i" for i
    using that by (intro early) (simp add: running_timers_def)
  have tiny: "dt < s_tiny sw" if "s_tiny_on sw" "0 < s_tiny sw"
    using that by (intro early) (simp add: running_timers_def)
  have inter: "dt < r_inter_seg_ack rw" if "r_inter_seg_ack_on rw" "0 < r_inter_seg_ack rw"
    using that by (intro early) (simp add: running_timers_def)
  have "w_size (s_w sw) \<le> w_cap (s_w sw)" using wnd_okD(12) [OF send_wnd_okD(1) [OF assms(1)]] .
  then have "s_rtx sw' ! slot (s_w sw) i = 0 \<longleftrightarrow> s_rtx sw ! slot (s_w sw) i = 0" if "i < w_size (s_w sw)" for i
    using step(4) rtx [of i] that by fastforce
  moreover have "s_tiny_on sw \<longrightarrow> (s_tiny sw' = 0 \<longleftrightarrow> s_tiny sw = 0)"
    using step(3) tiny by (cases "s_tiny sw") auto
  moreover have "0 < r_inter_seg_ack rw \<longrightarrow> r_inter_seg_ack_on (timer_ran rw dt) = r_inter_seg_ack_on rw \<and>
      r_ack (timer_ran rw dt) = r_ack rw"
    using inter by (cases "r_inter_seg_ack_on rw"; cases "r_inter_seg_ack rw \<le> dt") (auto simp: timer_ran_def)
  ultimately show ?thesis
    using step(1) recv_poll_timer_eq(1) [OF assms(2), of dt]
    by (intro exI [of _ sw'] exI [of _ "timer_ran rw dt"]) simp
qed

text \<open>What a poll acknowledges, once it has dealt with the frame.\<close>

lemma recv_poll_acks:
  fixes dt :: nat
  assumes frame: "recv_poll_frame b rw rf checksum rh t = Some (rw0, rf0, rh0)" and ok: "recv_wnd_ok rw0"
  defines "rw1 \<equiv> timer_ran rw0 dt"
  shows "arq__recv_poll b rw rf checksum None rh dt t = Some (False, rw1, rf0, None, rh0)"
    and "(\<forall>j < w_size (r_w rw0). \<not> r_ack rw1 ! slot (r_w rw0) j) \<and>
      arq__recv_poll b rw rf checksum (Some h) rh dt t = Some (False, rw1, rf0, Some (h\<lparr>h_ack := False\<rparr>), rh0) \<or>
    (\<exists>j < w_size (r_w rw0). r_ack rw1 ! slot (r_w rw0) j \<and> (\<forall>i < j. \<not> r_ack rw1 ! slot (r_w rw0) i) \<and>
      arq__recv_poll b rw rf checksum (Some h) rh dt t =
        Some (True, rw1\<lparr>r_ack := (r_ack rw1)[slot (r_w rw0) j := False]\<rparr>, rf0,
          Some (h\<lparr>h_ack := True, h_ack_num := (w_seq (r_w rw0) + j) mod 4096,
                  h_cur_ack_vec := m_cur_ack_vec (msg_at (r_w rw0) j)\<rparr>), rh0))"
proof -
  have rw: "r_w rw1 = r_w rw0" unfolding rw1_def by (rule recv_poll_timer_eq(3) [OF ok])
  show "arq__recv_poll b rw rf checksum None rh dt t = Some (False, rw1, rf0, None, rh0)"
    unfolding rw1_def using recv_poll_run [where sh = None and dt = dt, OF frame ok] by simp
  note run = recv_poll_run [where sh = "Some h" and dt = dt, OF frame ok, folded rw1_def]
  show "(\<forall>j < w_size (r_w rw0). \<not> r_ack rw1 ! slot (r_w rw0) j) \<and>
      arq__recv_poll b rw rf checksum (Some h) rh dt t = Some (False, rw1, rf0, Some (h\<lparr>h_ack := False\<rparr>), rh0) \<or>
    (\<exists>j < w_size (r_w rw0). r_ack rw1 ! slot (r_w rw0) j \<and> (\<forall>i < j. \<not> r_ack rw1 ! slot (r_w rw0) i) \<and>
      arq__recv_poll b rw rf checksum (Some h) rh dt t =
        Some (True, rw1\<lparr>r_ack := (r_ack rw1)[slot (r_w rw0) j := False]\<rparr>, rf0,
          Some (h\<lparr>h_ack := True, h_ack_num := (w_seq (r_w rw0) + j) mod 4096,
                  h_cur_ack_vec := m_cur_ack_vec (msg_at (r_w rw0) j)\<rparr>), rh0))"
  proof (cases "find (\<lambda>j. r_ack rw1 ! slot (r_w rw0) j) [0..<w_size (r_w rw0)]")
    case None
    then have "\<forall>j < w_size (r_w rw0). \<not> r_ack rw1 ! slot (r_w rw0) j" by (auto simp: find_None_iff)
    then show ?thesis using None run by (simp add: acked_def rw)
  next
    case (Some j)
    then have "j < w_size (r_w rw0)" "r_ack rw1 ! slot (r_w rw0) j" "\<forall>i < j. \<not> r_ack rw1 ! slot (r_w rw0) i"
      by (auto simp: find_Some_iff)
    then show ?thesis using Some run by (intro disjI2 exI [of _ j]) (simp add: acked_def rw)
  qed
qed

text \<open>The window of the example after its first segment: the message asks for an acknowledgement.\<close>

lemma demo_rw1_ok: "recv_wnd_ok demo_rw1"
proof -
  have "recv_wnd_ok demo_recv_wnd" using demo_recv_holds recv_holdsD(1) by blast
  moreover have "(0 :: nat) < 4096" "1 < segs (r_w demo_recv_wnd)" "(1 :: nat) \<le> 2" "(2 :: nat) \<le> 16"
    "length [3 :: byte] \<le> w_seg_len (r_w demo_recv_wnd)" "(9 :: nat) < 2 ^ 32"
    by (simp_all add: demo_recv_wnd_def demo_wnd_def segs_def)
  ultimately have "\<exists>n rw'. arq__recv_wnd_frame le_build demo_recv_wnd 0 1 2 [3] (length [3 :: byte]) 9 = Some (n, rw') \<and>
      recv_wnd_ok rw'"
    using recv_wnd_frame_total [of demo_recv_wnd 0 1 2 "[3]" 9 le_build] by blast
  moreover have "length [3 :: byte] = 1" by simp
  ultimately show ?thesis using demo_arrivals(1) by (simp only: option.inject prod.inject) blast
qed

lemma demo_recv_frame_open: "\<not> rf_full demo_recv_frame"
  by (simp add: demo_recv_frame_def)

theorem early_poll_expires_nothing_witness:
  "\<exists>sw' rw'. arq__send_wnd_step demo_send_wnd 4 = Some sw' \<and> recv_poll_timer demo_rw1 4 = Some rw' \<and>
    r_ack rw' = r_ack demo_rw1"
proof -
  have c: "arq__next_poll le_build demo_send_wnd demo_rw1 demo_rst_sent = Some 5" "0 < r_inter_seg_ack demo_rw1"
    by code_simp+
  show ?thesis
    using early_poll_expires_nothing [OF demo_send_wnd_ok demo_rw1_ok c(1), of 4] c(2) by auto
qed

text \<open>
  What a poll announces: \<open>arq__send_poll\<close> moves the cursor on and, if it points to a segment,
  announces that segment with the sequence number of its message and the number of segments the
  message has; the message the cursor completed gets its retransmission timer set. The window
  and the cursor stay well formed.
\<close>

theorem send_poll_announces:
  assumes "send_wnd_ok sw" "ptr_ok sp" "rtx < 2 ^ 32"
  shows "\<exists>r sp' sw' h'. arq__send_wnd_ptr_next sp sw = Some (r, sp') \<and> ptr_ok sp' \<and>
    send_poll_header sw sp h rtx = Some (sw', sp', h') \<and> send_wnd_ok sw' \<and> s_w sw' = s_w sw \<and>
    s_rtx sw' = (if r = ARQ__SEND_WND_PTR_NEXT_COMPLETED_MSG
                 then (s_rtx sw)[p_seq sp mod w_cap (s_w sw) := rtx] else s_rtx sw) \<and>
    (p_valid sp' \<longrightarrow> h_seg h' \<and> h_seq_num h' = p_seq sp' \<and> h_seg_id h' = p_seg sp' \<and>
       h_msg_len h' = seg_count (s_w sw) (m_len (w_msg (s_w sw) ! (p_seq sp' mod w_cap (s_w sw))))) \<and>
    (\<not> p_valid sp' \<longrightarrow> h' = h)"
  using send_poll_header_eq [OF assms, of h] by (elim exE conjE) simp

theorem send_poll_announces_witness:
  "\<exists>sp' sw' h'. send_poll_header demo_due_wnd \<lparr>p_seq = 0, p_seg = 0, p_valid = False\<rparr> arq__frame_hdr_init 50 =
      Some (sw', sp', h') \<and> ptr_ok sp' \<and> s_w sw' = s_w demo_due_wnd"
proof -
  have "ptr_ok \<lparr>p_seq = 0, p_seg = 0, p_valid = False\<rparr>" "(50 :: nat) < 2 ^ 32" by (simp_all add: ptr_ok_def)
  from send_poll_announces [OF demo_due_wnd_ok this, of arq__frame_hdr_init] show ?thesis by blast
qed

end
