(* ===== verification/Arq_Alloc.thy ===== *)
theory Arq_Alloc imports Arq_Types begin

text \<open>
  The memory of an instance: the linear allocator of \<open>src/arq.h\<close> and \<open>arq__alloc\<close>, which carves
  the object and its eight arrays out of the seat the user provides.
\<close>

section \<open>State and operations\<close>

text \<open>Pointers are addresses, and the null pointer is 0.\<close>

record arq__lin_alloc_t =
  la_base :: nat
  la_size :: nat
  la_capacity :: nat

definition arq__lin_alloc_init :: "nat \<Rightarrow> nat \<Rightarrow> arq__lin_alloc_t" where
  "arq__lin_alloc_init base capacity = \<lparr>la_base = base, la_size = 0, la_capacity = capacity\<rparr>"

definition arq__lin_alloc_alloc ::
  "build \<Rightarrow> arq__lin_alloc_t \<Rightarrow> nat \<Rightarrow> nat \<Rightarrow> (nat \<times> arq__lin_alloc_t) option" where
  "arq__lin_alloc_alloc b a sz align = do {
     let seat = u32 (la_size a + sub32 align 1) AND not32 (sub32 align 1);
     let new_size = u32 (seat + sz);
     ARQ_ASSERT b (sz > 0 \<and> align \<le> 32 \<and> align > 0 \<and> align AND sub32 align 1 = 0);
     ARQ_ASSERT b (new_size \<le> la_capacity a);
     if new_size > la_capacity a then Some (0, a)
     else Some (la_base a + seat, a\<lparr>la_size := new_size\<rparr>)
   }"

text \<open>
  The sizes and alignments the compiler chooses for \<open>arq_t\<close>, \<open>arq_time_t\<close> and \<open>arq__msg_t\<close>.
\<close>

record abi =
  sizeof_arq :: nat
  alignof_arq :: nat
  sizeof_time :: nat
  alignof_time :: nat
  sizeof_msg :: nat
  alignof_msg :: nat

text \<open>The pointers \<open>arq__alloc\<close> stores in the object.\<close>

record arq__layout_t =
  lo_send_rtx :: nat
  lo_send_msg :: nat
  lo_send_buf :: nat
  lo_recv_ack :: nat
  lo_recv_msg :: nat
  lo_recv_buf :: nat
  lo_send_frame :: nat
  lo_recv_frame :: nat

text \<open>
  The returned pointer, the pointers stored in the object (\<open>None\<close> when there is no object to
  store them in), and \<open>*la\<close>.
\<close>

definition arq__alloc ::
  "build \<Rightarrow> abi \<Rightarrow> arq_cfg_t \<Rightarrow> arq__lin_alloc_t \<Rightarrow>
   (nat \<times> arq__layout_t option \<times> arq__lin_alloc_t) option" where
  "arq__alloc b abi cfg la0 = do {
     (arq, la1) \<leftarrow> arq__lin_alloc_alloc b la0 (sizeof_arq abi) (alignof_arq abi);
     (p1, la2) \<leftarrow> arq__lin_alloc_alloc b la1 (u32 (sizeof_time abi * send_window_size_in_messages cfg)) (alignof_time abi);
     (p2, la3) \<leftarrow> arq__lin_alloc_alloc b la2 (u32 (sizeof_msg abi * send_window_size_in_messages cfg)) (alignof_msg abi);
     (p3, la4) \<leftarrow> arq__lin_alloc_alloc b la3 (u32 (u32 (send_window_size_in_messages cfg *
                     message_length_in_segments cfg) * segment_length_in_bytes cfg)) 1;
     (p4, la5) \<leftarrow> arq__lin_alloc_alloc b la4 (recv_window_size_in_messages cfg) 1;
     (p5, la6) \<leftarrow> arq__lin_alloc_alloc b la5 (u32 (sizeof_msg abi * recv_window_size_in_messages cfg)) (alignof_msg abi);
     (p6, la7) \<leftarrow> arq__lin_alloc_alloc b la6 (u32 (u32 (recv_window_size_in_messages cfg *
                     message_length_in_segments cfg) * segment_length_in_bytes cfg)) 1;
     len \<leftarrow> arq__frame_len b (segment_length_in_bytes cfg);
     (p7, la8) \<leftarrow> arq__lin_alloc_alloc b la7 len 1;
     (p8, la9) \<leftarrow> arq__lin_alloc_alloc b la8 len 1;
     Some (if \<forall>p \<in> set [arq, p1, p2, p3, p4, p5, p6, p7, p8]. p \<noteq> 0 then arq else 0,
           if arq \<noteq> 0
           then Some \<lparr>lo_send_rtx = p1, lo_send_msg = p2, lo_send_buf = p3, lo_recv_ack = p4,
                      lo_recv_msg = p5, lo_recv_buf = p6, lo_send_frame = p7, lo_recv_frame = p8\<rparr>
           else None, la9)
   }"

section \<open>Placement\<close>

text \<open>The reference: each request goes to the next offset that is a multiple of its alignment.\<close>

definition align_up :: "nat \<Rightarrow> nat \<Rightarrow> nat" where
  "align_up n a = (n + (a - 1)) div a * a"

fun place :: "nat \<Rightarrow> (nat \<times> nat) list \<Rightarrow> nat list" where
  "place ofs [] = []"
| "place ofs ((n, a) # rs) = align_up ofs a # place (align_up ofs a + n) rs"

fun place_end :: "nat \<Rightarrow> (nat \<times> nat) list \<Rightarrow> nat" where
  "place_end ofs [] = ofs"
| "place_end ofs ((n, a) # rs) = place_end (align_up ofs a + n) rs"

definition request_ok :: "nat \<times> nat \<Rightarrow> bool" where
  "request_ok r \<longleftrightarrow> 0 < fst r \<and> (\<exists>k \<le> 5. snd r = 2 ^ k)"

lemma align_up_ge: "0 < a \<Longrightarrow> n \<le> align_up n a"
proof -
  assume a: "0 < a"
  have "(n + (a - 1)) div a * a + (n + (a - 1)) mod a = n + (a - 1)" by (rule div_mult_mod_eq)
  moreover have "(n + (a - 1)) mod a \<le> a - 1" using a by (simp add: Suc_leI less_Suc_eq_le [symmetric])
  ultimately show ?thesis unfolding align_up_def by linarith
qed

lemma dvd_align_up [simp]: "a dvd align_up n a"
  by (simp add: align_up_def)

lemma request_okD: "request_ok (n, a) \<Longrightarrow> 0 < n \<and> 0 < a"
  by (auto simp: request_ok_def)

lemma length_place [simp]: "length (place ofs rs) = length rs"
  by (induction ofs rs rule: place.induct) simp_all

lemma place_end_ge: "\<forall>r \<in> set rs. request_ok r \<Longrightarrow> ofs \<le> place_end ofs rs"
proof (induction ofs rs rule: place_end.induct)
  case (2 ofs n a rs)
  then have "align_up ofs a + n \<le> place_end (align_up ofs a + n) rs" "0 < a"
    using request_okD by auto
  then show ?case using align_up_ge [of a ofs] by simp
qed simp

lemma place_region:
  "\<forall>r \<in> set rs. request_ok r \<Longrightarrow> i < length rs \<Longrightarrow>
   ofs \<le> place ofs rs ! i \<and> snd (rs ! i) dvd place ofs rs ! i \<and> place ofs rs ! i + fst (rs ! i) \<le> place_end ofs rs"
proof (induction ofs rs arbitrary: i rule: place.induct)
  case (2 ofs n a rs)
  then have "0 < a" "align_up ofs a + n \<le> place_end (align_up ofs a + n) rs"
    using request_okD [of n a] place_end_ge [of rs "align_up ofs a + n"] by auto
  then show ?case
    using 2 align_up_ge [of a ofs] by (cases i) force+
qed simp

lemma place_disjoint:
  "\<forall>r \<in> set rs. request_ok r \<Longrightarrow> i < j \<Longrightarrow> j < length rs \<Longrightarrow>
   place ofs rs ! i + fst (rs ! i) \<le> place ofs rs ! j"
proof (induction ofs rs arbitrary: i j rule: place.induct)
  case (2 ofs n a rs)
  show ?case
  proof (cases i)
    case 0
    then show ?thesis using 2(2-) place_region [of rs "j - 1" "align_up ofs a + n"] by (cases j) auto
  next
    case (Suc i')
    then show ?thesis using 2(1) [of i' "j - 1"] 2(2-) by (cases j) auto
  qed
qed simp

text \<open>Masking the low bits rounds down to a multiple of the alignment.\<close>

lemma round_down:
  assumes "x < 2 ^ 32" "k \<le> 5"
  shows "x AND not32 (2 ^ k - 1) = x div 2 ^ k * 2 ^ k"
proof -
  have p: "(2 :: nat) ^ 32 = 2 ^ k * 2 ^ (32 - k)" using assms(2) by (simp flip: power_add)
  have lt: "(2 :: nat) ^ k \<le> 2 ^ 5" using assms(2) by (intro power_increasing) auto
  have "not32 (2 ^ k - 1) = 2 ^ 32 - 2 ^ k"
    using lt by (simp add: not32_def)
  also have "\<dots> = push_bit k (mask (32 - k))"
    unfolding push_bit_eq_mult mask_eq_exp_minus_1 p by (simp add: algebra_simps diff_mult_distrib2)
  finally have n: "not32 (2 ^ k - 1) = push_bit k (mask (32 - k))" .
  have "x AND push_bit k (mask (32 - k)) = push_bit k (drop_bit k x)"
    using assms bit_nat_less [OF _ assms(1)]
    by (auto intro!: bit_eqI simp: bit_and_iff bit_push_bit_iff bit_mask_iff bit_drop_bit_eq diff_less_mono)
  then show ?thesis unfolding n by (simp only: push_bit_eq_mult drop_bit_eq_div)
qed

lemma lin_alloc_seat:
  assumes "request_ok (n, a)" "align_up (la_size la) a < 2 ^ 32" "la_size la < 2 ^ 32"
  shows "u32 (la_size la + sub32 a 1) AND not32 (sub32 a 1) = align_up (la_size la) a"
proof -
  obtain k where k: "k \<le> 5" "a = 2 ^ k" using assms(1) by (auto simp: request_ok_def)
  have a: "0 < a" "a \<le> 32" using k power_increasing [of k 5 "2 :: nat"] by auto
  have "la_size la + (a - 1) < 2 ^ 32"
  proof (rule ccontr)
    assume "\<not> la_size la + (a - 1) < 2 ^ 32"
    then have "2 ^ 32 div a \<le> (la_size la + (a - 1)) div a" by (intro div_le_mono) simp
    moreover have "(2 :: nat) ^ 32 div a * a = 2 ^ 32"
      using k(1) le_imp_power_dvd [of k 32 "2 :: nat"] unfolding k(2) by (intro dvd_div_mult_self) linarith
    ultimately have "2 ^ 32 \<le> align_up (la_size la) a"
      unfolding align_up_def by (metis mult_le_mono1)
    then show False using assms(2) by simp
  qed
  then show ?thesis
    using round_down [OF _ k(1), of "la_size la + (a - 1)"] a
    by (simp add: sub32_le u32_id k(2) align_up_def)
qed

text \<open>One allocation: it succeeds exactly when the request fits, and never moves backwards.\<close>

lemma lin_alloc_eq:
  assumes "request_ok (n, a)" "align_up (la_size la) a + n < 2 ^ 32" "la_size la < 2 ^ 32"
    and "asserts_enabled b \<longrightarrow> align_up (la_size la) a + n \<le> la_capacity la"
  shows "arq__lin_alloc_alloc b la n a =
    Some (if align_up (la_size la) a + n \<le> la_capacity la
          then (la_base la + align_up (la_size la) a, la\<lparr>la_size := align_up (la_size la) a + n\<rparr>)
          else (0, la))"
proof -
  have seat: "u32 (la_size la + sub32 a 1) AND not32 (sub32 a 1) = align_up (la_size la) a"
    using assms by (intro lin_alloc_seat) auto
  obtain k where k: "k \<le> 5" "a = 2 ^ k" "0 < n" using assms(1) by (auto simp: request_ok_def)
  have a: "0 < a" "a \<le> 32" using k power_increasing [of k 5 "2 :: nat"] by auto
  have "a AND (a - 1) = 0" unfolding k(2) mask_eq_exp_minus_1 [symmetric]
    by (auto intro!: bit_eqI simp: bit_and_iff bit_exp_iff bit_mask_iff)
  then have "a AND sub32 a 1 = 0" using a by (simp add: sub32_le)
  moreover have "u32 (align_up (la_size la) a + n) = align_up (la_size la) a + n"
    using assms(2) by (simp add: u32_id)
  ultimately show ?thesis
    using assms(4) a k(3) unfolding arq__lin_alloc_alloc_def seat Let_def
    by (cases "align_up (la_size la) a + n \<le> la_capacity la") simp_all
qed

text \<open>A sequence of allocations.\<close>

fun alloc_all :: "build \<Rightarrow> arq__lin_alloc_t \<Rightarrow> (nat \<times> nat) list \<Rightarrow> (nat list \<times> arq__lin_alloc_t) option" where
  "alloc_all b la [] = Some ([], la)"
| "alloc_all b la ((n, a) # rs) = do {
     (p, la') \<leftarrow> arq__lin_alloc_alloc b la n a;
     (ps, la'') \<leftarrow> alloc_all b la' rs;
     Some (p # ps, la'')
   }"

lemma alloc_all_place:
  assumes "\<forall>r \<in> set rs. request_ok r" "place_end (la_size la) rs \<le> la_capacity la" "la_capacity la < 2 ^ 32"
  shows "alloc_all b la rs = Some (map (\<lambda>s. la_base la + s) (place (la_size la) rs),
    la\<lparr>la_size := place_end (la_size la) rs\<rparr>)"
  using assms
proof (induction rs arbitrary: la)
  case (Cons r rs)
  obtain n a where r: "r = (n, a)" by (cases r)
  let ?s = "align_up (la_size la) a"
  have ok: "request_ok (n, a)" "\<forall>r \<in> set rs. request_ok r" using Cons.prems(1) r by auto
  have "?s + n \<le> place_end (?s + n) rs" "la_size la \<le> ?s"
    using place_end_ge [OF ok(2)] align_up_ge request_okD [OF ok(1)] by auto
  then have le: "?s + n \<le> la_capacity la" "?s + n < 2 ^ 32" "la_size la < 2 ^ 32"
    using Cons.prems(2,3) r by auto
  have "alloc_all b (la\<lparr>la_size := ?s + n\<rparr>) rs = Some (map (\<lambda>s. la_base la + s) (place (?s + n) rs),
      la\<lparr>la_size := place_end (?s + n) rs\<rparr>)"
    using Cons.IH [of "la\<lparr>la_size := ?s + n\<rparr>"] ok Cons.prems r by simp
  then show ?case
    using lin_alloc_eq [OF ok(1) le(2,3), of b] le(1) by (simp add: r)
qed simp

lemma alloc_all_total: "\<not> asserts_enabled b \<Longrightarrow> \<exists>ps la'. alloc_all b la rs = Some (ps, la')"
proof (induction rs arbitrary: la)
  case (Cons r rs)
  obtain n a where r: "r = (n, a)" by (cases r)
  have "arq__lin_alloc_alloc b la n a \<noteq> None"
    using Cons.prems by (simp add: arq__lin_alloc_alloc_def Let_def)
  then obtain p la1 where 1: "arq__lin_alloc_alloc b la n a = Some (p, la1)" by auto
  obtain ps la2 where "alloc_all b la1 rs = Some (ps, la2)" using Cons.IH [OF Cons.prems, of la1] by blast
  with 1 show ?case by (simp add: r)
qed simp

lemma alloc_all_fails:
  assumes "\<forall>r \<in> set rs. request_ok r" "place_end (la_size la) rs < 2 ^ 32" "la_capacity la < place_end (la_size la) rs"
    and "\<not> asserts_enabled b" "la_size la \<le> la_capacity la"
  shows "\<exists>ps la'. alloc_all b la rs = Some (ps, la') \<and> 0 \<in> set ps"
  using assms
proof (induction rs arbitrary: la)
  case (Cons r rs)
  obtain n a where r: "r = (n, a)" by (cases r)
  let ?s = "align_up (la_size la) a"
  have ok: "request_ok (n, a)" "\<forall>r \<in> set rs. request_ok r" using Cons.prems(1) r by auto
  have le: "?s + n < 2 ^ 32" "la_size la < 2 ^ 32"
    using place_end_ge [OF ok(2), of "?s + n"] align_up_ge [of a "la_size la"] request_okD [OF ok(1)] Cons.prems(2) r
    by auto
  note eq = lin_alloc_eq [OF ok(1) le, of b]
  show ?case
  proof (cases "?s + n \<le> la_capacity la")
    case True
    have "\<exists>ps la'. alloc_all b (la\<lparr>la_size := ?s + n\<rparr>) rs = Some (ps, la') \<and> 0 \<in> set ps"
      using Cons.IH [of "la\<lparr>la_size := ?s + n\<rparr>"] ok Cons.prems r True by simp
    then show ?thesis using eq True Cons.prems(4) by (auto simp: r)
  next
    case False
    then have "arq__lin_alloc_alloc b la n a = Some (0, la)" using eq Cons.prems(4) by simp
    then show ?thesis using alloc_all_total [OF Cons.prems(4), of la rs] by (auto simp: r)
  qed
qed simp

section \<open>The layout of an instance\<close>

definition requests :: "abi \<Rightarrow> arq_cfg_t \<Rightarrow> (nat \<times> nat) list" where
  "requests abi cfg =
     (let buf = message_length_in_segments cfg * segment_length_in_bytes cfg;
          frame = 18 + segment_length_in_bytes cfg
      in [(sizeof_arq abi, alignof_arq abi),
          (sizeof_time abi * send_window_size_in_messages cfg, alignof_time abi),
          (sizeof_msg abi * send_window_size_in_messages cfg, alignof_msg abi),
          (send_window_size_in_messages cfg * buf, 1),
          (recv_window_size_in_messages cfg, 1),
          (sizeof_msg abi * recv_window_size_in_messages cfg, alignof_msg abi),
          (recv_window_size_in_messages cfg * buf, 1),
          (frame, 1), (frame, 1)])"

text \<open>The addresses of the nine regions, in the order of the requests.\<close>

definition regions :: "nat \<Rightarrow> arq__layout_t \<Rightarrow> nat list" where
  "regions arq lo = [arq, lo_send_rtx lo, lo_send_msg lo, lo_send_buf lo, lo_recv_ack lo, lo_recv_msg lo,
     lo_recv_buf lo, lo_send_frame lo, lo_recv_frame lo]"

definition abi_ok :: "abi \<Rightarrow> bool" where
  "abi_ok abi \<longleftrightarrow> request_ok (sizeof_arq abi, alignof_arq abi) \<and> request_ok (sizeof_time abi, alignof_time abi) \<and>
     request_ok (sizeof_msg abi, alignof_msg abi)"

definition required_bytes :: "abi \<Rightarrow> arq_cfg_t \<Rightarrow> nat" where
  "required_bytes abi cfg = place_end 0 (requests abi cfg)"

lemma check_cfg_pos:
  "arq__check_cfg cfg = ARQ_OK_COMPLETED \<Longrightarrow> 0 < message_length_in_segments cfg \<and> 0 < segment_length_in_bytes cfg \<and>
     0 < send_window_size_in_messages cfg \<and> 0 < recv_window_size_in_messages cfg"
  by (simp add: arq__check_cfg_def split: if_splits)

lemma requests_ok:
  assumes "abi_ok abi" "arq__check_cfg cfg = ARQ_OK_COMPLETED"
  shows "\<forall>r \<in> set (requests abi cfg). request_ok r"
proof -
  have "request_ok (n, 1)" if "0 < n" for n using that unfolding request_ok_def by (intro conjI exI [of _ 0]) simp_all
  moreover have "request_ok (s * n, a)" if "request_ok (s, a)" "0 < n" for s n a
    using that by (simp add: request_ok_def)
  ultimately show ?thesis using assms check_cfg_pos [OF assms(2)] by (simp add: requests_def abi_ok_def Let_def)
qed

lemma arq__alloc_all:
  assumes "segment_length_in_bytes cfg \<le> 256" "\<forall>r \<in> set (requests abi cfg). fst r < 2 ^ 32"
    and "0 < segment_length_in_bytes cfg"
  shows "arq__alloc b abi cfg la = do {
    (ps, la') \<leftarrow> alloc_all b la (requests abi cfg);
    Some (if 0 \<notin> set ps then hd ps else 0,
          if hd ps \<noteq> 0
          then Some \<lparr>lo_send_rtx = ps ! 1, lo_send_msg = ps ! 2, lo_send_buf = ps ! 3, lo_recv_ack = ps ! 4,
                     lo_recv_msg = ps ! 5, lo_recv_buf = ps ! 6, lo_send_frame = ps ! 7, lo_recv_frame = ps ! 8\<rparr>
          else None, la') }"
proof -
  have w: "u32 (u32 (x * y) * z) = x * (y * z)" if "x * (y * z) < 2 ^ 32" "0 < z" for x y z
  proof -
    have "x * y * 1 \<le> x * y * z" using that(2) by (intro mult_le_mono2) simp
    then have "x * y < 2 ^ 32" using that(1) by (simp only: mult.assoc mult_1_right)
    then show ?thesis using that(1) by (simp only: u32_def mod_less mult.assoc)
  qed
  have u: "u32 (x * y) = x * y" if "x * y < 2 ^ 32" for x y using that by (simp add: u32_id)
  show ?thesis
    using assms unfolding arq__alloc_def requests_def Let_def
    by (simp add: w u arq__frame_len_ok split_def nth_Cons')
      (intro bind_option_cong refl, auto simp: neq_commute)
qed

lemma arq__alloc_fits:
  assumes "abi_ok abi" "arq__check_cfg cfg = ARQ_OK_COMPLETED" "segment_length_in_bytes cfg \<le> 256"
    and "required_bytes abi cfg \<le> capacity" "capacity < 2 ^ 32"
  shows "\<exists>lo. arq__alloc b abi cfg (arq__lin_alloc_init seat capacity) = Some (seat, lo,
      \<lparr>la_base = seat, la_size = required_bytes abi cfg, la_capacity = capacity\<rparr>)"
proof -
  let ?rs = "requests abi cfg" let ?la = "arq__lin_alloc_init seat capacity"
  have ok: "\<forall>r \<in> set ?rs. request_ok r" by (rule requests_ok [OF assms(1,2)])
  have le: "place_end 0 ?rs \<le> capacity" using assms(4) by (simp add: required_bytes_def)
  have "\<forall>r \<in> set ?rs. fst r < 2 ^ 32"
    using place_region [OF ok, of _ 0] le assms(5) by (metis add_leD2 in_set_conv_nth order.strict_trans1)
  then have run: "arq__alloc b abi cfg ?la = (case map (\<lambda>s. seat + s) (place 0 ?rs) of ps \<Rightarrow>
      Some (if 0 \<notin> set ps then hd ps else 0,
        if hd ps \<noteq> 0
        then Some \<lparr>lo_send_rtx = ps ! 1, lo_send_msg = ps ! 2, lo_send_buf = ps ! 3, lo_recv_ack = ps ! 4,
                   lo_recv_msg = ps ! 5, lo_recv_buf = ps ! 6, lo_send_frame = ps ! 7, lo_recv_frame = ps ! 8\<rparr>
        else None, ?la\<lparr>la_size := place_end 0 ?rs\<rparr>))"
    using arq__alloc_all [OF assms(3), of abi b ?la] alloc_all_place [of ?rs ?la b] ok le assms(5)
      check_cfg_pos [OF assms(2)]
    by (simp add: arq__lin_alloc_init_def)
  have "hd (map (\<lambda>s. seat + s) (place 0 ?rs)) = seat" "0 \<in> set (map (\<lambda>s. seat + s) (place 0 ?rs)) \<Longrightarrow> seat = 0"
    by (auto simp: requests_def Let_def align_up_def)
  then show ?thesis
    unfolding run by (auto simp: arq__lin_alloc_init_def required_bytes_def)
qed

text \<open>
  C31. The memory of an instance. Given a configuration that \<open>arq__check_cfg\<close> accepts, with segments of
  at most 256 bytes, and a seat that is not null and has room for the layout, \<open>arq__alloc\<close> succeeds:
  its nine regions lie inside the seat, in order, no two overlap, and the allocator ends at the number
  of bytes the layout takes. The offset of every region from the seat is a multiple of the alignment of
  its type, so the region is aligned if the seat is; the code does not align the seat itself.
\<close>

theorem alloc_layout:
  assumes "abi_ok abi" "arq__check_cfg cfg = ARQ_OK_COMPLETED" "segment_length_in_bytes cfg \<le> 256"
    and "0 < seat" "required_bytes abi cfg \<le> capacity" "capacity < 2 ^ 32"
  defines "rs \<equiv> requests abi cfg"
  shows "\<exists>lo. arq__alloc b abi cfg (arq__lin_alloc_init seat capacity) = Some (seat, Some lo,
      \<lparr>la_base = seat, la_size = required_bytes abi cfg, la_capacity = capacity\<rparr>) \<and>
    (\<forall>i < 9. seat \<le> regions seat lo ! i \<and> regions seat lo ! i + fst (rs ! i) \<le> seat + capacity \<and>
       snd (rs ! i) dvd regions seat lo ! i - seat \<and>
       (snd (rs ! i) dvd seat \<longrightarrow> snd (rs ! i) dvd regions seat lo ! i)) \<and>
    (\<forall>j < 9. \<forall>i < j. regions seat lo ! i + fst (rs ! i) \<le> regions seat lo ! j)"
proof -
  let ?la = "arq__lin_alloc_init seat capacity"
  define ps where "ps = map (\<lambda>s. seat + s) (place 0 rs)"
  have ok: "\<forall>r \<in> set rs. request_ok r" unfolding rs_def by (rule requests_ok [OF assms(1,2)])
  have le: "place_end 0 rs \<le> capacity" using assms(5) by (simp add: rs_def required_bytes_def)
  have len: "length rs = 9" by (simp add: rs_def requests_def Let_def)
  have reg: "i < 9 \<Longrightarrow> snd (rs ! i) dvd place 0 rs ! i \<and> place 0 rs ! i + fst (rs ! i) \<le> capacity" for i
    using place_region [OF ok, of i 0] le len by force
  have "\<forall>r \<in> set rs. fst r < 2 ^ 32"
    using reg len assms(6) by (metis add_leD2 in_set_conv_nth order_le_less_trans)
  then have "arq__alloc b abi cfg ?la = Some (if 0 \<notin> set ps then hd ps else 0,
      if hd ps \<noteq> 0
      then Some \<lparr>lo_send_rtx = ps ! 1, lo_send_msg = ps ! 2, lo_send_buf = ps ! 3, lo_recv_ack = ps ! 4,
                 lo_recv_msg = ps ! 5, lo_recv_buf = ps ! 6, lo_send_frame = ps ! 7, lo_recv_frame = ps ! 8\<rparr>
      else None, ?la\<lparr>la_size := place_end 0 rs\<rparr>)"
    using arq__alloc_all [OF assms(3), of abi b ?la] alloc_all_place [of rs ?la b] ok le assms(6)
      check_cfg_pos [OF assms(2)]
    by (simp add: arq__lin_alloc_init_def ps_def rs_def)
  moreover have "hd ps = seat" "0 \<notin> set ps"
    using assms(4) unfolding ps_def rs_def requests_def Let_def by (simp_all add: align_up_def image_iff) auto
  moreover have "regions seat \<lparr>lo_send_rtx = ps ! 1, lo_send_msg = ps ! 2, lo_send_buf = ps ! 3,
      lo_recv_ack = ps ! 4, lo_recv_msg = ps ! 5, lo_recv_buf = ps ! 6, lo_send_frame = ps ! 7,
      lo_recv_frame = ps ! 8\<rparr> = ps"
  proof -
    have "length ps = 9" by (simp add: ps_def len)
    then have "ps = [ps ! 0, ps ! 1, ps ! 2, ps ! 3, ps ! 4, ps ! 5, ps ! 6, ps ! 7, ps ! 8]"
      by (intro nth_equalityI) (auto simp: less_Suc_eq numeral_eq_Suc)
    moreover have "ps ! 0 = seat" using calculation \<open>hd ps = seat\<close> by (metis list.sel(1))
    ultimately show ?thesis by (simp add: regions_def)
  qed
  moreover have "ps ! i = seat + place 0 rs ! i" if "i < 9" for i
    using that len by (simp add: ps_def)
  ultimately show ?thesis
    using reg place_disjoint [OF ok, of _ _ 0] len assms(4,5)
    by (auto simp: arq__lin_alloc_init_def required_bytes_def rs_def intro!: exI)
qed

definition demo_abi :: abi where
  "demo_abi = \<lparr>sizeof_arq = 200, alignof_arq = 8, sizeof_time = 4, alignof_time = 4, sizeof_msg = 6, alignof_msg = 2\<rparr>"

lemma demo_abi_ok: "abi_ok demo_abi"
proof -
  have "\<exists>k \<le> 5. (8 :: nat) = 2 ^ k" by (rule exI [of _ 3]) simp
  moreover have "\<exists>k \<le> 5. (4 :: nat) = 2 ^ k" by (rule exI [of _ 2]) simp
  moreover have "\<exists>k \<le> 5. (2 :: nat) = 2 ^ k" by (rule exI [of _ 1]) simp
  ultimately show ?thesis by (simp add: abi_ok_def request_ok_def demo_abi_def)
qed

lemma demo_cfg_ok: "arq__check_cfg demo_cfg = ARQ_OK_COMPLETED" "segment_length_in_bytes demo_cfg \<le> 256"
  by (simp_all add: arq__check_cfg_def demo_cfg_def)

lemma demo_required_bytes: "required_bytes demo_abi demo_cfg = 290"
  by (simp add: required_bytes_def requests_def demo_abi_def demo_cfg_def align_up_def)

theorem alloc_layout_witness:
  "\<exists>lo. arq__alloc le_build demo_abi demo_cfg (arq__lin_alloc_init 4096 300) =
    Some (4096, Some lo, \<lparr>la_base = 4096, la_size = 290, la_capacity = 300\<rparr>)"
proof -
  have "0 < (4096 :: nat)" "required_bytes demo_abi demo_cfg \<le> 300" "(300 :: nat) < 2 ^ 32"
    by (simp_all add: demo_required_bytes)
  from alloc_layout [OF demo_abi_ok demo_cfg_ok this, of le_build] obtain lo
    where "arq__alloc le_build demo_abi demo_cfg (arq__lin_alloc_init 4096 300) =
      Some (4096, Some lo, \<lparr>la_base = 4096, la_size = required_bytes demo_abi demo_cfg, la_capacity = 300\<rparr>)"
    by (elim exE conjE) (rule that)
  then show ?thesis unfolding demo_required_bytes by (rule exI)
qed

text \<open>
  A seat that is too small is refused: with assertions compiled out, \<open>arq__alloc\<close> returns the
  null pointer whenever the layout does not fit the seat.
\<close>

lemma alloc_refuses_small_seat:
  assumes "abi_ok abi" "arq__check_cfg cfg = ARQ_OK_COMPLETED" "segment_length_in_bytes cfg \<le> 256"
    and "\<not> asserts_enabled b" "required_bytes abi cfg < 2 ^ 32" "capacity < required_bytes abi cfg"
  shows "\<exists>lo la. arq__alloc b abi cfg (arq__lin_alloc_init seat capacity) = Some (0, lo, la)"
proof -
  let ?la = "arq__lin_alloc_init seat capacity"
  note ok = requests_ok [OF assms(1,2)]
  have "fst r < 2 ^ 32" if mem: "r \<in> set (requests abi cfg)" for r
  proof -
    obtain i where "i < length (requests abi cfg)" "requests abi cfg ! i = r"
      using mem unfolding in_set_conv_nth by blast
    then show ?thesis using place_region [OF ok, of i 0] assms(5) by (simp add: required_bytes_def)
  qed
  moreover obtain ps la' where "alloc_all b ?la (requests abi cfg) = Some (ps, la')" "0 \<in> set ps"
    using alloc_all_fails [OF ok, of ?la b] assms(4-6)
    by (auto simp: arq__lin_alloc_init_def required_bytes_def)
  ultimately show ?thesis
    using arq__alloc_all [OF assms(3), of abi b ?la] check_cfg_pos [OF assms(2)] by simp
qed

end
