(* ===== verification/Arq_Api.thy ===== *)
theory Arq_Api imports Arq_Poll Arq_Alloc begin

text \<open>
  The public interface of \<open>src/arq.h\<close>: setup and reset, the data calls, and the backend calls a
  transport driver makes. A pointer argument is an option or, where nothing is read through it, the
  fact that it is not null; every call returns an error code, what it writes through its output
  pointers (\<open>None\<close> when it writes nothing), and the object.
\<close>

section \<open>State\<close>

text \<open>
  The object. Its arrays are the lists inside its components: \<open>arq__alloc\<close> gives each array a
  region of its own (\<open>Arq_Alloc.alloc_layout\<close>), so that writing one never changes another. The
  member \<open>stats\<close> is left out: no code reads or writes it.
\<close>

record arq_t =
  a_cfg :: arq_cfg_t
  a_send_wnd :: arq__send_wnd_t
  a_send_wnd_ptr :: arq__send_wnd_ptr_t
  a_send_frame :: arq__send_frame_t
  a_recv_wnd :: arq__recv_wnd_t
  a_recv_frame :: arq__recv_frame_t
  a_need_poll :: bool
  a_conn :: arq__conn_t

section \<open>Assertion handler\<close>

text \<open>The static variable \<open>s_assert_cb\<close> is a state of its own; \<open>'cb\<close> are the handlers.\<close>

definition arq_assert_handler_set ::
  "build \<Rightarrow> 'cb option \<Rightarrow> 'cb option \<Rightarrow> arq_err_t \<times> 'cb option" where
  "arq_assert_handler_set b assert_cb s_assert_cb =
     (if asserts_enabled b
      then if assert_cb = None then (ARQ_ERR_INVALID_PARAM, s_assert_cb)
           else (ARQ_OK_COMPLETED, assert_cb)
      else (ARQ_OK_COMPLETED, s_assert_cb))"

text \<open>The outer option is for the null dereference when assertions are compiled out.\<close>

definition arq_assert_handler_get ::
  "build \<Rightarrow> bool \<Rightarrow> 'cb option \<Rightarrow> (arq_err_t \<times> 'cb option option) option" where
  "arq_assert_handler_get b out_assert_cb s_assert_cb =
     (if asserts_enabled b
      then if \<not> out_assert_cb then Some (ARQ_ERR_INVALID_PARAM, None)
           else Some (ARQ_OK_COMPLETED, Some s_assert_cb)
      else if \<not> out_assert_cb then None else Some (ARQ_OK_COMPLETED, Some None))"

section \<open>Sizes\<close>

definition arq_seg_len_from_frame_len :: "nat \<Rightarrow> bool \<Rightarrow> arq_err_t \<times> nat option" where
  "arq_seg_len_from_frame_len frame_len out_seg_len =
     (if \<not> out_seg_len then (ARQ_ERR_INVALID_PARAM, None)
      else if frame_len < ARQ__FRAME_COBS_OVERHEAD + ARQ__FRAME_HEADER_SIZE + 4 + 1
      then (ARQ_ERR_INVALID_PARAM, None)
      else (ARQ_OK_COMPLETED,
            Some (sub32 (sub32 (sub32 frame_len ARQ__FRAME_COBS_OVERHEAD) ARQ__FRAME_HEADER_SIZE) 4)))"

definition arq_required_size ::
  "build \<Rightarrow> abi \<Rightarrow> arq_cfg_t option \<Rightarrow> bool \<Rightarrow> (arq_err_t \<times> nat option) option" where
  "arq_required_size b abi cfg out_required_size =
     (case cfg of
        None \<Rightarrow> Some (ARQ_ERR_INVALID_PARAM, None)
      | Some c \<Rightarrow>
          if \<not> out_required_size then Some (ARQ_ERR_INVALID_PARAM, None)
          else if \<not> ARQ_SUCCEEDED (arq__check_cfg c) then Some (arq__check_cfg c, None)
          else do {
            (arq, layout, la) \<leftarrow> arq__alloc b abi c (arq__lin_alloc_init 0 (2 ^ 32 - 1));
            Some (ARQ_OK_COMPLETED, Some (la_size la))
          })"

section \<open>Setup\<close>

definition arq__init :: "build \<Rightarrow> arq_t \<Rightarrow> arq_t option" where
  "arq__init b arq = do {
     let c = a_cfg arq;
     let msg_len = u32 (message_length_in_segments c * segment_length_in_bytes c);
     sw \<leftarrow> arq__wnd_init (s_w (a_send_wnd arq)) (send_window_size_in_messages c) msg_len (segment_length_in_bytes c);
     n1 \<leftarrow> arq__frame_len b (segment_length_in_bytes c);
     rw \<leftarrow> arq__wnd_init (r_w (a_recv_wnd arq)) (recv_window_size_in_messages c) msg_len (segment_length_in_bytes c);
     n2 \<leftarrow> arq__frame_len b (segment_length_in_bytes c);
     rf \<leftarrow> arq__recv_frame_init b (a_recv_frame arq) n2;
     Some (arq\<lparr>a_send_wnd := (a_send_wnd arq)\<lparr>s_w := sw\<rparr>,
               a_send_frame := arq__send_frame_init (a_send_frame arq) n1,
               a_recv_wnd := (a_recv_wnd arq)\<lparr>r_w := rw\<rparr>,
               a_recv_frame := rf\<rparr>)
   }"

definition arq__rst :: "build \<Rightarrow> arq_t \<Rightarrow> arq_t option" where
  "arq__rst b arq = do {
     sw \<leftarrow> arq__send_wnd_rst (a_send_wnd arq);
     rw \<leftarrow> arq__recv_wnd_rst (a_recv_wnd arq);
     Some (arq\<lparr>a_send_wnd := sw,
               a_send_wnd_ptr := arq__send_wnd_ptr_rst (a_send_wnd_ptr arq),
               a_send_frame := arq__send_frame_rst (a_send_frame arq),
               a_recv_wnd := rw,
               a_recv_frame := arq__recv_frame_rst (a_recv_frame arq),
               a_need_poll := False,
               a_conn := (a_conn arq)\<lparr>cn_state :=
                 if use_connections b then ARQ_CONN_STATE_CLOSED else ARQ_CONN_STATE_ESTABLISHED\<rparr>\<rparr>)
   }"

text \<open>
  \<open>mem\<close> is what the memory of the seat holds before the call, read as an object with its arrays.
\<close>

definition arq_init ::
  "build \<Rightarrow> abi \<Rightarrow> arq_cfg_t option \<Rightarrow> nat \<Rightarrow> nat \<Rightarrow> arq_t \<Rightarrow> bool \<Rightarrow> (arq_err_t \<times> arq_t option) option" where
  "arq_init b abi cfg arq_seat arq_seat_size mem out_arq =
     (case cfg of
        None \<Rightarrow> Some (ARQ_ERR_INVALID_PARAM, None)
      | Some c \<Rightarrow>
          if arq_seat = 0 \<or> \<not> out_arq then Some (ARQ_ERR_INVALID_PARAM, None)
          else if \<not> ARQ_SUCCEEDED (arq__check_cfg c) then Some (arq__check_cfg c, None)
          else do {
            (arq, layout, la) \<leftarrow> arq__alloc b abi c (arq__lin_alloc_init arq_seat arq_seat_size);
            if arq = 0 then Some (ARQ_ERR_INVALID_PARAM, None)
            else do {
              a1 \<leftarrow> arq__init b (mem\<lparr>a_cfg := c\<rparr>);
              a2 \<leftarrow> arq__rst b a1;
              Some (ARQ_OK_COMPLETED, Some a2)
            }
          })"

definition arq_reset :: "build \<Rightarrow> arq_t option \<Rightarrow> (arq_err_t \<times> arq_t option) option" where
  "arq_reset b arq =
     (case arq of
        None \<Rightarrow> Some (ARQ_ERR_INVALID_PARAM, None)
      | Some a \<Rightarrow> do { a' \<leftarrow> arq__rst b a; Some (ARQ_OK_COMPLETED, Some a') })"

definition arq_connect :: "build \<Rightarrow> arq_t option \<Rightarrow> arq_err_t \<times> arq_t option" where
  "arq_connect b arq =
     (case arq of
        None \<Rightarrow> (ARQ_ERR_INVALID_PARAM, None)
      | Some a \<Rightarrow>
          if \<not> use_connections b then (ARQ_OK_COMPLETED, Some a)
          else if cn_state (a_conn a) \<noteq> ARQ_CONN_STATE_CLOSED then (ARQ_ERR_NOT_DISCONNECTED, Some a)
          else (ARQ_OK_POLL_REQUIRED,
                Some (a\<lparr>a_conn := (a_conn a)\<lparr>cn_state := ARQ_CONN_STATE_RST_SENT,
                  cn_u := U_rst_sent \<lparr>rs_cnt = 0, rs_tmr = 0, rs_recvd_rst_ack = False,
                                      rs_simultaneous = False\<rparr>\<rparr>\<rparr>)))"

section \<open>Data\<close>

text \<open>\<open>recv\<close> says that the destination is not null; the bytes written to it are in the result.\<close>

definition arq_recv ::
  "arq_t option \<Rightarrow> bool \<Rightarrow> nat \<Rightarrow> bool \<Rightarrow> (arq_err_t \<times> byte list option \<times> arq_t option) option" where
  "arq_recv arq recv recv_max out_recv_size =
     (case arq of
        None \<Rightarrow> Some (ARQ_ERR_INVALID_PARAM, None, None)
      | Some a \<Rightarrow>
          if \<not> recv \<or> \<not> out_recv_size then Some (ARQ_ERR_INVALID_PARAM, None, arq)
          else if a_need_poll a then Some (ARQ_ERR_POLL_REQUIRED, None, arq)
          else do {
            (bs, rw) \<leftarrow> arq__recv_wnd_recv (a_recv_wnd a) recv_max;
            Some (ARQ_OK_COMPLETED, Some bs, Some (a\<lparr>a_recv_wnd := rw\<rparr>))
          })"

definition arq_send ::
  "arq_t option \<Rightarrow> byte list option \<Rightarrow> nat \<Rightarrow> bool \<Rightarrow> (arq_err_t \<times> nat option \<times> arq_t option) option" where
  "arq_send arq send send_max out_sent_size =
     (case arq of
        None \<Rightarrow> Some (ARQ_ERR_INVALID_PARAM, None, None)
      | Some a \<Rightarrow>
          (case send of
             None \<Rightarrow> Some (ARQ_ERR_INVALID_PARAM, None, arq)
           | Some bytes \<Rightarrow>
               if \<not> out_sent_size then Some (ARQ_ERR_INVALID_PARAM, None, arq)
               else if a_need_poll a then Some (ARQ_ERR_POLL_REQUIRED, None, arq)
               else do {
                 (n, sw) \<leftarrow> arq__send_wnd_send (a_send_wnd a) bytes send_max (tinygram_send_delay (a_cfg a));
                 Some (ARQ_OK_COMPLETED, Some n, Some (a\<lparr>a_send_wnd := sw\<rparr>))
               }))"

definition arq_flush :: "arq_t option \<Rightarrow> (arq_err_t \<times> arq_t option) option" where
  "arq_flush arq =
     (case arq of
        None \<Rightarrow> Some (ARQ_ERR_INVALID_PARAM, None)
      | Some a \<Rightarrow> do {
          sw \<leftarrow> arq__send_wnd_flush (a_send_wnd a);
          Some (ARQ_OK_COMPLETED, Some (a\<lparr>a_send_wnd := sw\<rparr>))
        })"

section \<open>Backend\<close>

record poll_out =
  po_event :: arq_event_t
  po_send_ready :: bool
  po_recv_ready :: bool
  po_next_poll :: nat

text \<open>The frame a poll emits: the header is completed by the segment it announces.\<close>

definition backend_emit ::
  "build \<Rightarrow> arq_cfg_t \<Rightarrow> arq__send_wnd_t \<Rightarrow> arq__frame_hdr_t \<Rightarrow> arq__send_frame_t \<Rightarrow> arq__send_frame_t option" where
  "backend_emit b cfg sw sh sf = do {
     (seg, h) \<leftarrow> (if h_seg sh
       then do {
         (ofs, len) \<leftarrow> arq__wnd_seg (s_w sw) (h_seq_num sh) (h_seg_id sh);
         ARQ_ASSERT b (len \<noteq> 0);
         Some (Some (drop ofs (w_buf (s_w sw))), sh\<lparr>h_seg_len := len\<rparr>)
       }
       else Some (None, sh));
     (n, buf) \<leftarrow> arq__frame_write b h seg (cfg_checksum cfg) (sf_buf sf) (sf_cap sf);
     Some (sf\<lparr>sf_buf := buf, sf_len := u16 n, sf_state := ARQ__SEND_FRAME_STATE_FREE\<rparr>)
   }"

definition backend_poll ::
  "build \<Rightarrow> arq_t \<Rightarrow> nat \<Rightarrow> (poll_out \<times> arq_t) option" where
  "backend_poll b a dt = do {
     let c = a_cfg a;
     let psh = (if sf_len (a_send_frame a) = 0 \<and> sf_state (a_send_frame a) \<noteq> ARQ__SEND_FRAME_STATE_HELD
                then Some arq__frame_hdr_init else None);
     (e1, rw, rf, psh1, rh) \<leftarrow> arq__recv_poll b (a_recv_wnd a) (a_recv_frame a) (cfg_checksum c) psh
                                arq__frame_hdr_init dt (inter_segment_timeout c);
     (e2, sw, sp, psh2) \<leftarrow> arq__send_poll (a_send_wnd a) (a_send_wnd_ptr a) psh1 rh dt (retransmission_timeout c);
     (e3, conn, psh3, event) \<leftarrow> arq__conn_poll b (a_conn a) psh2 rh dt c;
     sf \<leftarrow> (case psh3 of
             Some sh \<Rightarrow> if e1 \<or> e2 \<or> e3 then backend_emit b c sw sh (a_send_frame a) else Some (a_send_frame a)
           | None \<Rightarrow> Some (a_send_frame a));
     next_poll \<leftarrow> arq__next_poll b sw rw conn;
     recv_ready \<leftarrow> arq__recv_wnd_pending rw;
     Some (\<lparr>po_event = event, po_send_ready = (sf_len sf > 0), po_recv_ready = recv_ready, po_next_poll = next_poll\<rparr>,
           a\<lparr>a_send_wnd := sw, a_send_wnd_ptr := sp, a_send_frame := sf, a_recv_wnd := rw, a_recv_frame := rf,
             a_need_poll := False, a_conn := conn\<rparr>)
   }"

definition arq_backend_poll ::
  "build \<Rightarrow> arq_t option \<Rightarrow> nat \<Rightarrow> bool \<Rightarrow> bool \<Rightarrow> bool \<Rightarrow> bool \<Rightarrow>
   (arq_err_t \<times> poll_out option \<times> arq_t option) option" where
  "arq_backend_poll b arq dt out_event out_send_ready out_recv_ready out_next_poll =
     (case arq of
        None \<Rightarrow> Some (ARQ_ERR_INVALID_PARAM, None, None)
      | Some a \<Rightarrow>
          if \<not> out_event \<or> \<not> out_send_ready \<or> \<not> out_recv_ready \<or> \<not> out_next_poll
          then Some (ARQ_ERR_INVALID_PARAM, None, arq)
          else do { (out, a') \<leftarrow> backend_poll b a dt; Some (ARQ_OK_COMPLETED, Some out, Some a') })"

text \<open>What \<open>*out_send\<close> points to, with \<open>*out_send_size\<close> its length; \<open>Some None\<close> is the null pointer.\<close>

definition arq_backend_send_ptr_get ::
  "arq_t option \<Rightarrow> bool \<Rightarrow> bool \<Rightarrow> arq_err_t \<times> (byte list option \<times> nat) option \<times> arq_t option" where
  "arq_backend_send_ptr_get arq out_send out_send_size =
     (case arq of
        None \<Rightarrow> (ARQ_ERR_INVALID_PARAM, None, None)
      | Some a \<Rightarrow>
          if \<not> out_send \<or> \<not> out_send_size then (ARQ_ERR_INVALID_PARAM, None, arq)
          else let f = a_send_frame a in
            if sf_len f \<noteq> 0
            then (ARQ_OK_COMPLETED, Some (Some (sf_buf f), sf_len f),
                  Some (a\<lparr>a_send_frame := f\<lparr>sf_state := ARQ__SEND_FRAME_STATE_HELD\<rparr>\<rparr>))
            else (ARQ_OK_COMPLETED, Some (None, 0),
                  Some (a\<lparr>a_send_frame := f\<lparr>sf_state := ARQ__SEND_FRAME_STATE_FREE\<rparr>\<rparr>)))"

definition arq_backend_send_ptr_release :: "arq_t option \<Rightarrow> arq_err_t \<times> arq_t option" where
  "arq_backend_send_ptr_release arq =
     (case arq of
        None \<Rightarrow> (ARQ_ERR_INVALID_PARAM, None)
      | Some a \<Rightarrow>
          let f = a_send_frame a in
            if sf_state f \<noteq> ARQ__SEND_FRAME_STATE_HELD then (ARQ_ERR_SEND_PTR_NOT_HELD, arq)
            else (ARQ_OK_POLL_REQUIRED,
                  Some (a\<lparr>a_send_frame := f\<lparr>sf_len := 0, sf_state := ARQ__SEND_FRAME_STATE_RELEASED\<rparr>,
                          a_need_poll := True\<rparr>)))"

definition arq_backend_recv_fill ::
  "arq_t option \<Rightarrow> byte list option \<Rightarrow> nat \<Rightarrow> bool \<Rightarrow> (arq_err_t \<times> nat option \<times> arq_t option) option" where
  "arq_backend_recv_fill arq recv recv_max out_recv_size =
     (case arq of
        None \<Rightarrow> Some (ARQ_ERR_INVALID_PARAM, None, None)
      | Some a \<Rightarrow>
          (case recv of
             None \<Rightarrow> Some (ARQ_ERR_INVALID_PARAM, None, arq)
           | Some bytes \<Rightarrow>
               if \<not> out_recv_size then Some (ARQ_ERR_INVALID_PARAM, None, arq)
               else do {
                 (n, f) \<leftarrow> arq__recv_frame_fill (a_recv_frame a) bytes recv_max;
                 if rf_state f = ARQ__RECV_FRAME_STATE_FULL_FRAME_PRESENT
                 then Some (ARQ_OK_POLL_REQUIRED, Some n, Some (a\<lparr>a_recv_frame := f, a_need_poll := True\<rparr>))
                 else Some (ARQ_OK_COMPLETED, Some n, Some (a\<lparr>a_recv_frame := f\<rparr>))
               }))"

end
