(* ===== verification/Arq_Safety.thy ===== *)
theory Arq_Safety imports Arq_Api begin

text \<open>
  Why no call of the public interface faults: every operation of \<open>src/arq.h\<close> has a defined result
  on a well-formed object and leaves it well formed, whatever bytes the transport delivers, as long
  as the frames that pass the checksum describe segments that can exist. The lemmas go bottom up:
  reading messages, reading a frame, emitting a frame, one poll of the backend.
\<close>

section \<open>Reading\<close>

lemma recv_wnd_recv_loop_total:
  assumes "recv_wnd_ok rw" "b0 + i + n < 2 ^ 32"
    and "(b0 + i) mod w_cap (r_w rw) = r_copy_seq rw mod w_cap (r_w rw)" "dst_max < 2 ^ 32"
  shows "\<exists>bs rw'. recv_wnd_recv_loop n b0 i dst_max rw out = Some (out @ bs, rw') \<and> recv_wnd_ok rw' \<and>
    length bs \<le> dst_max \<and> w_cap (r_w rw') = w_cap (r_w rw) \<and> w_seg_len (r_w rw') = w_seg_len (r_w rw) \<and>
    w_msg_len (r_w rw') = w_msg_len (r_w rw)"
  using assms
proof (induction n arbitrary: i rw dst_max out)
  case (Suc n)
  let ?w = "r_w rw" let ?k = "r_copy_seq rw mod w_cap ?w" let ?m = "w_msg ?w ! ?k"
  let ?ofs = "r_copy_ofs rw" let ?n = "min dst_max (m_len ?m - ?ofs)"
  note ok = Suc.prems(1)
  have wok: "wnd_ok ?w" by (rule recv_wnd_okD(1) [OF ok])
  note wd = wnd_okD [OF wok] and wl = wnd_ok_msg_len [OF wok]
  have k: "?k < w_cap ?w" using wd(1) by simp
  have ml: "m_len ?m \<le> w_msg_len ?w" "?ofs \<le> m_len ?m" using recv_msg_len [OF ok k] recv_wnd_okD(7) [OF ok] by auto
  have mem: "umod (u32 (b0 + i)) (w_cap ?w) = Some ?k" "rd (w_msg ?w) ?k = Some ?m"
    "\<And>m. wr (w_msg ?w) ?k m = Some ((w_msg ?w)[?k := m])"
    using Suc.prems(2,3) wd(1,9) k by (simp_all add: umod_pos u32_id rd_ok wr_ok)
  have cl: "arq__min dst_max (sub32 (m_len ?m) ?ofs) = ?n" using ml wl(2) by (simp add: sub32_le)
  have reg: "(?k + 1) * w_msg_len ?w \<le> length (w_buf ?w)" by (rule slot_region [OF wok k])
  have src: "u32 (?k * w_msg_len ?w) = ?k * w_msg_len ?w" using reg wd(10) wl(4) by (simp add: u32_id)
  have bd: "?k * w_msg_len ?w + ?ofs + ?n \<le> length (w_buf ?w)" using reg ml by simp
  obtain bs where bs: "memcpy_out (w_buf ?w) (?k * w_msg_len ?w + ?ofs) ?n = Some bs" "length bs = ?n"
    using bd by (simp add: memcpy_out_def)
  have u: "sub32 dst_max ?n = dst_max - ?n" "u16 (?ofs + u16 ?n) = ?ofs + ?n"
    using Suc.prems(4) ml wl(2) by (simp_all add: sub32_le u16_id)
  show ?case
  proof (cases "dst_max = 0 \<or> m_len ?m = 0 \<or> m_cur_ack_vec ?m \<noteq> m_full_ack_vec ?m")
    case True
    then have "recv_wnd_recv_loop (Suc n) b0 i dst_max rw out = Some (out, rw)"
      by (auto simp: mem Let_def)
    then show ?thesis using ok by (intro exI [of _ "[]"] exI [of _ rw]) simp
  next
    case False
    show ?thesis
    proof (cases "?ofs + ?n < m_len ?m")
      case True
      let ?rw = "rw\<lparr>r_copy_ofs := ?ofs + ?n\<rparr>"
      have "recv_wnd_recv_loop (Suc n) b0 i dst_max rw out = Some (out @ bs, ?rw)"
        using False True by (simp only: recv_wnd_recv_loop.simps Let_def mem bind.bind_lunit cl src bs u if_False if_True de_Morgan_disj not_not simp_thms)
      moreover have "recv_wnd_ok ?rw" using ok True by (simp add: recv_wnd_ok_def)
      ultimately show ?thesis using bs(2) by (intro exI [of _ bs] exI [of _ ?rw]) simp
    next
      case whole: False
      let ?fresh = "?m\<lparr>m_len := 0, m_cur_ack_vec := 0, m_full_ack_vec := w_full_ack_vec ?w\<rparr>"
      let ?rw = "rw\<lparr>r_w := ?w\<lparr>w_msg := (w_msg ?w)[?k := ?fresh]\<rparr>, r_copy_ofs := 0,
          r_copy_seq := (r_copy_seq rw + 1) mod (ARQ__FRAME_MAX_SEQ_NUM + 1), r_slide := u16 (r_slide rw + 1)\<rparr>"
      have step: "recv_wnd_recv_loop (Suc n) b0 i dst_max rw out =
          recv_wnd_recv_loop n b0 (Suc i) (dst_max - ?n) ?rw (out @ bs)"
        using False whole by (simp only: recv_wnd_recv_loop.simps Let_def mem bind.bind_lunit cl src bs u if_False if_True de_Morgan_disj not_not simp_thms)
      have "w_full_ack_vec ?w < 65536" using wd(8,13) seg_cnt_vec [of "segs ?w"] by simp
      then have "recv_wnd_ok ?rw"
        using ok k wok by (auto simp: recv_wnd_ok_def recv_msg_ok_def nth_list_update wnd_ok_def segs_def)
      moreover have "(b0 + Suc i) mod w_cap ?w = (r_copy_seq rw + 1) mod 4096 mod w_cap ?w"
        using Suc.prems(3) wd(2) by (simp add: mod_seq_mod_cap) (metis mod_Suc_eq)
      ultimately have "\<exists>bs' rw'. recv_wnd_recv_loop n b0 (Suc i) (dst_max - ?n) ?rw (out @ bs) = Some ((out @ bs) @ bs', rw') \<and>
          recv_wnd_ok rw' \<and> length bs' \<le> dst_max - ?n \<and> w_cap (r_w rw') = w_cap (r_w ?rw) \<and>
          w_seg_len (r_w rw') = w_seg_len (r_w ?rw) \<and> w_msg_len (r_w rw') = w_msg_len (r_w ?rw)"
        using Suc.prems(2,4) by (intro Suc.IH) simp_all
      then obtain bs' rw' where "recv_wnd_recv_loop (Suc n) b0 i dst_max rw out = Some ((out @ bs) @ bs', rw')"
        "recv_wnd_ok rw'" "length bs' \<le> dst_max - ?n" "w_cap (r_w rw') = w_cap ?w"
        "w_seg_len (r_w rw') = w_seg_len ?w" "w_msg_len (r_w rw') = w_msg_len ?w"
        unfolding step by auto
      then show ?thesis using bs(2) by (intro exI [of _ "bs @ bs'"] exI [of _ rw']) simp
    qed
  qed
qed simp

lemma recv_wnd_recv_total:
  assumes ok: "recv_wnd_ok rw" and "dst_max < 2 ^ 32"
  shows "\<exists>bs rw'. arq__recv_wnd_recv rw dst_max = Some (bs, rw') \<and> recv_wnd_ok rw' \<and> length bs \<le> dst_max \<and>
    w_cap (r_w rw') = w_cap (r_w rw) \<and> w_seg_len (r_w rw') = w_seg_len (r_w rw) \<and>
    w_msg_len (r_w rw') = w_msg_len (r_w rw)"
proof -
  note wd = wnd_okD [OF recv_wnd_okD(1) [OF ok]]
  have "r_copy_seq rw + 0 + w_size (r_w rw) < 2 ^ 32" using recv_wnd_okD(4) [OF ok] wd(3,12) by simp
  from recv_wnd_recv_loop_total [OF ok this _ assms(2), of "[]"] show ?thesis
    by (simp add: arq__recv_wnd_recv_def)
qed


section \<open>Reading a frame\<close>

lemma frame_read_total:
  assumes "\<not> asserts_enabled b" "recv_frame_ok f" "rf_full f" "13 \<le> rf_cap f"
  shows "\<exists>r h buf. arq__frame_read b (rf_buf f) (rf_len f) checksum = Some (r, h, 13, buf) \<and>
    length buf = length (rf_buf f) \<and> h_seg_len h < 256 \<and> h_seq_num h < 4096 \<and> h_ack_num h < 4096 \<and>
    h_cur_ack_vec h < 4096 \<and> (r = ARQ__FRAME_READ_RESULT_SUCCESS \<longrightarrow> 18 + h_seg_len h \<le> rf_len f)"
proof -
  have f: "0 < rf_len f" "rf_len f \<le> rf_cap f" "rf_cap f \<le> length (rf_buf f)" "rf_cap f < 65535"
    "\<forall>i<rf_len f - 1. 0 \<le> i \<longrightarrow> rf_buf f ! i \<noteq> 0"
    using assms(2,3) by (auto simp: recv_frame_ok_def)
  have n: "sub32 (rf_len f) 1 = rf_len f - 1" using f by (simp add: sub32_le)
  have "rf_len f - 1 \<le> length (rf_buf f)" using f(2,3) by simp
  from cobs_decode_loop_total [OF this f(5), of b] obtain buf
    where buf: "cobs_decode_loop b (rf_buf f) 0 (rf_len f - 1) = Some buf" "length buf = length (rf_buf f)"
    by (elim exE conjE)
  then have dec: "arq__cobs_decode b (rf_buf f) (rf_len f) = Some buf"
    using assms(1) unfolding arq__cobs_decode_def n by simp
  obtain s where s: "memcpy_out buf 1 12 = Some s"
    using buf(2) f assms(4) by (simp add: memcpy_out_def)
  let ?h = "arq__frame_hdr_read b s"
  have "\<exists>r. arq__frame_checksum_read b buf (rf_len f) (h_seg_len ?h) checksum = Some r \<and>
      (r = ARQ__FRAME_READ_RESULT_SUCCESS \<longrightarrow> 18 + h_seg_len ?h \<le> rf_len f)"
  proof (cases "rf_len f < 18 + h_seg_len ?h")
    case True
    then show ?thesis
      using hdr_read_ranges(1) [of b s] by (simp add: arq__frame_checksum_read_def arq__frame_len_ok)
  next
    case False
    then have "\<exists>x. memcpy_out buf (13 + h_seg_len ?h) 4 = Some x" "\<exists>x. memcpy_out buf 1 (12 + h_seg_len ?h) = Some x"
      using f buf(2) by (simp_all add: memcpy_out_def)
    then show ?thesis
      using False hdr_read_ranges(1) [of b s] by (auto simp: arq__frame_checksum_read_def arq__frame_len_ok)
  qed
  then show ?thesis
    using dec s buf(2) hdr_read_ranges [of b s] by (auto simp: arq__frame_read_def Let_def)
qed

section \<open>What the connection does to a header\<close>

definition unflagged :: "arq__frame_hdr_t option \<Rightarrow> arq__frame_hdr_t option" where
  "unflagged sh = map_option (\<lambda>s. s\<lparr>h_rst := False, h_ack := False\<rparr>) sh"

lemma callback_unflagged:
  assumes "arq__conn_poll_state_cb_get st ctx emit e = Some (r, ctx', emit', e')"
  shows "unflagged (cx_sh ctx') = unflagged (cx_sh ctx)"
  using assms
  by (cases st)
    (auto simp: arq__conn_poll_state_closed_def arq__conn_poll_state_rst_sent_def
      arq__conn_poll_state_rst_recvd_def arq__conn_poll_state_established_def arq__conn_poll_state_null_def
      unflagged_def bind_Some_iff Let_def split: if_splits option.splits)

lemma conn_loop_unflagged:
  assumes "conn_poll_loop ctx emit e = Some r"
  shows "unflagged (cx_sh (fst r)) = unflagged (cx_sh ctx)"
  using _ assms
proof (rule conn_poll_loop.raw_induct [where P = "\<lambda>ctx _ _ r. unflagged (cx_sh (fst r)) = unflagged (cx_sh ctx)"])
  fix loop :: "arq__conn_state_ctx_t \<Rightarrow> bool \<Rightarrow> arq_event_t \<Rightarrow> (arq__conn_state_ctx_t \<times> bool \<times> arq_event_t) option"
    and ctx emit e r
  assume IH: "\<And>ctx emit e r. loop ctx emit e = Some r \<Longrightarrow> unflagged (cx_sh (fst r)) = unflagged (cx_sh ctx)"
    and run: "Option.bind (arq__conn_poll_state_cb_get (cn_state (cx_conn ctx)) ctx emit e)
       (\<lambda>(keep_going, ctx', emit', event').
          if keep_going = ARQ__CONN_STATE_CONTINUE then loop ctx' emit' event'
          else Some (ctx', emit', event')) = Some r"
  obtain k ctx1 emit1 e1 where cb: "arq__conn_poll_state_cb_get (cn_state (cx_conn ctx)) ctx emit e = Some (k, ctx1, emit1, e1)"
    and "(if k = ARQ__CONN_STATE_CONTINUE then loop ctx1 emit1 e1 else Some (ctx1, emit1, e1)) = Some r"
    using run by (auto simp: bind_Some_iff)
  then show "unflagged (cx_sh (fst r)) = unflagged (cx_sh ctx)"
    using callback_unflagged [OF cb] IH [of ctx1 emit1 e1 r] by (auto split: if_splits)
qed

lemma conn_poll_unflagged:
  assumes "arq__conn_poll b conn sh rh dt cfg = Some (emit, conn', sh', e)"
  shows "unflagged sh' = unflagged sh"
  using assms conn_loop_unflagged
  by (fastforce simp: arq__conn_poll_def bind_Some_iff split: if_splits)

lemma unflagged_fields:
  assumes "unflagged (Some s') = unflagged (Some s)"
  shows "h_version s' = h_version s" "h_seg_len s' = h_seg_len s" "h_win_size s' = h_win_size s"
    "h_seq_num s' = h_seq_num s" "h_msg_len s' = h_msg_len s" "h_seg_id s' = h_seg_id s"
    "h_ack_num s' = h_ack_num s" "h_cur_ack_vec s' = h_cur_ack_vec s" "h_seg s' = h_seg s"
  using assms by (cases s; cases s'; simp add: unflagged_def)+

section \<open>Sending a frame\<close>

lemma ptr_next_seg:
  assumes ok: "send_wnd_ok sw" and sp: "ptr_ok sp" and run: "arq__send_wnd_ptr_next sp sw = Some (r, sp')"
    and v: "p_valid sp'"
  shows "p_seg sp' < segs (s_w sw)"
proof -
  have wok: "wnd_ok (s_w sw)" by (rule send_wnd_okD(1) [OF ok])
  have due: "p_seg (ptr_to_due sw q) < segs (s_w sw)" if "p_valid (ptr_to_due sw q)" for q
  proof (cases "find (other_due sw q) [0..<w_size (s_w sw)]")
    case None
    then show ?thesis using that by (simp add: ptr_to_due_def)
  next
    case (Some i)
    then have "i < w_cap (s_w sw)" "send_due sw i"
      using wnd_okD(12) [OF wok] by (auto simp: find_Some_iff other_due_def)
    then obtain n where "n \<le> segs (s_w sw)" "lowest_clear (m_cur_ack_vec (msg_at (s_w sw) i)) < n"
      using send_due_segs [OF ok] by blast
    then show ?thesis using Some by (simp add: ptr_to_due_def)
  qed
  have adv: "p_seg (ptr_advance sw sp) < segs (s_w sw)"
    if "2 ^ p_seg (ptr_advance sw sp) - 1 < m_full_ack_vec (w_msg (s_w sw) ! (p_seq sp mod w_cap (s_w sw)))"
  proof -
    obtain n where n: "n \<le> segs (s_w sw)" "m_full_ack_vec (w_msg (s_w sw) ! (p_seq sp mod w_cap (s_w sw))) = 2 ^ n - 1"
      using slot_vecs(2) [OF ok, of "p_seq sp mod w_cap (s_w sw)"] wnd_okD(1) [OF wok] full_vec_okE by (metis mod_less_divisor)
    then have "(2 :: nat) ^ p_seg (ptr_advance sw sp) < 2 ^ n" using that by linarith
    then show ?thesis using n(1) by simp
  qed
  have "ptr_next_spec sw sp = (r, sp')" using run send_wnd_ptr_next_eq [OF ok sp] by simp
  then show ?thesis using v due adv by (auto simp: ptr_next_spec_def split: if_splits)
qed

text \<open>A header the backend can emit: it announces a segment the window has.\<close>

definition emittable :: "arq__wnd_t \<Rightarrow> arq__frame_hdr_t \<Rightarrow> bool" where
  "emittable w h \<longleftrightarrow> hdr_fits h \<and> (if h_seg h then h_seg_id h < segs w else h_seg_len h = 0)"

definition send_frame_ok :: "nat \<Rightarrow> arq__send_frame_t \<Rightarrow> bool" where
  "send_frame_ok n f \<longleftrightarrow> n \<le> sf_cap f \<and> sf_cap f \<le> length (sf_buf f) \<and> sf_len f \<le> sf_cap f"

lemma backend_emit_segment:
  assumes ok: "send_wnd_ok sw" and sf: "send_frame_ok (18 + w_seg_len (s_w sw)) sf"
    and h: "hdr_fits h" "h_seg h" "h_seg_id h < segs (s_w sw)"
  defines "k \<equiv> h_seq_num h mod w_cap (s_w sw)"
  defines "ofs \<equiv> w_msg_len (s_w sw) * k + w_seg_len (s_w sw) * h_seg_id h"
  defines "len \<equiv> min (w_seg_len (s_w sw)) (sub32 (m_len (w_msg (s_w sw) ! k)) (w_seg_len (s_w sw) * h_seg_id h))"
  assumes nab: "asserts_enabled b \<longrightarrow> len \<noteq> 0"
  shows "\<exists>out. arq__frame_write b (h\<lparr>h_seg_len := len\<rparr>) (Some (drop ofs (w_buf (s_w sw)))) (cfg_checksum cfg)
      (sf_buf sf) (sf_cap sf) = Some (18 + len, out) \<and> length out = length (sf_buf sf) \<and>
    backend_emit b cfg sw h sf =
      Some (sf\<lparr>sf_buf := out, sf_len := 18 + len, sf_state := ARQ__SEND_FRAME_STATE_FREE\<rparr>) \<and>
    len \<le> w_seg_len (s_w sw) \<and> ofs + w_seg_len (s_w sw) \<le> length (w_buf (s_w sw))"
proof -
  let ?w = "s_w sw"
  have wok: "wnd_ok ?w" by (rule send_wnd_okD(1) [OF ok])
  note wd = wnd_okD [OF wok]
  have seg: "arq__wnd_seg ?w (h_seq_num h) (h_seg_id h) = Some (ofs, len)"
    unfolding ofs_def len_def k_def by (rule send_window.wnd_seg_eq [OF ok h(3)])
  have k: "k < w_cap ?w" using wd(1) by (simp add: k_def)
  have bd: "ofs + w_seg_len ?w \<le> length (w_buf ?w)"
    unfolding ofs_def by (rule send_window.seg_offset_bound [OF ok k h(3)])
  have len: "len \<le> w_seg_len ?w" by (simp add: len_def)
  let ?h = "h\<lparr>h_seg_len := len\<rparr>" let ?p = "Some (drop ofs (w_buf ?w))"
  have fits: "hdr_fits ?h" using h(1) len wd(5) by (simp add: hdr_fits_def)
  have "seg_readable ?p (h_seg_len ?h)" using bd len by (simp add: seg_readable_def)
  moreover have "h_seg_len ?h \<le> 238" "18 + h_seg_len ?h \<le> sf_cap sf" "18 + h_seg_len ?h \<le> length (sf_buf sf)"
    using len wd(5) sf by (simp_all add: send_frame_ok_def)
  ultimately obtain out where out: "arq__frame_write b ?h ?p (cfg_checksum cfg) (sf_buf sf) (sf_cap sf) = Some (18 + len, out)"
    "length out = length (sf_buf sf)"
    using frame_write_payload [OF fits, of ?p "sf_cap sf" "sf_buf sf" b "cfg_checksum cfg" b] by auto
  have "u16 (18 + len) = 18 + len" using len wd(5) by (simp add: u16_id)
  then have "backend_emit b cfg sw h sf =
      Some (sf\<lparr>sf_buf := out, sf_len := 18 + len, sf_state := ARQ__SEND_FRAME_STATE_FREE\<rparr>)"
    using h(2) nab out(1) by (simp add: backend_emit_def seg ARQ_ASSERT_def)
  then show ?thesis using out len bd by blast
qed

lemma backend_emit_control:
  assumes "send_frame_ok n sf" "18 \<le> n" "hdr_fits h" "\<not> h_seg h" "h_seg_len h = 0"
  shows "\<exists>out. arq__frame_write b h None (cfg_checksum cfg) (sf_buf sf) (sf_cap sf) = Some (18, out) \<and>
    length out = length (sf_buf sf) \<and>
    backend_emit b cfg sw h sf = Some (sf\<lparr>sf_buf := out, sf_len := 18, sf_state := ARQ__SEND_FRAME_STATE_FREE\<rparr>)"
proof -
  have "seg_readable None (h_seg_len h)" "h_seg_len h \<le> 238" "18 + h_seg_len h \<le> sf_cap sf"
    "18 + h_seg_len h \<le> length (sf_buf sf)"
    using assms by (simp_all add: seg_readable_def send_frame_ok_def)
  then obtain out where out: "arq__frame_write b h None (cfg_checksum cfg) (sf_buf sf) (sf_cap sf) = Some (18, out)"
    "length out = length (sf_buf sf)"
    using frame_write_payload [OF assms(3), of None "sf_cap sf" "sf_buf sf" b "cfg_checksum cfg" b] assms(5) by auto
  then show ?thesis using assms(4) by (simp add: backend_emit_def u16_id)
qed

lemma backend_emit_total:
  assumes nab: "asserts_enabled b \<longrightarrow> \<not> h_seg h"
    and sf: "send_wnd_ok sw" "send_frame_ok (18 + w_seg_len (s_w sw)) sf" and em: "emittable (s_w sw) h"
  shows "\<exists>sf'. backend_emit b cfg sw h sf = Some sf' \<and> send_frame_ok (18 + w_seg_len (s_w sw)) sf' \<and>
    sf_state sf' = ARQ__SEND_FRAME_STATE_FREE \<and> 0 < sf_len sf'"
proof (cases "h_seg h")
  case True
  with em have h: "hdr_fits h" "h_seg h" "h_seg_id h < segs (s_w sw)" by (simp_all add: emittable_def)
  obtain len out where "len \<le> w_seg_len (s_w sw)" "length out = length (sf_buf sf)"
    "backend_emit b cfg sw h sf = Some (sf\<lparr>sf_buf := out, sf_len := 18 + len, sf_state := ARQ__SEND_FRAME_STATE_FREE\<rparr>)"
    using backend_emit_segment [OF sf h, of b cfg] nab True by blast
  then show ?thesis using sf(2) by (simp add: send_frame_ok_def)
next
  case False
  with em have h: "hdr_fits h" "\<not> h_seg h" "h_seg_len h = 0" by (simp_all add: emittable_def)
  from backend_emit_control [OF sf(2) le_add1 h, of b cfg sw] show ?thesis
    using sf(2) by (elim exE conjE) (simp add: send_frame_ok_def)
qed

section \<open>One poll of the backend\<close>

text \<open>
  The receive window trusts the segment number and the segment count of a frame whose checksum is
  right: it indexes its buffer with them. \<open>frame_sane\<close> says that the complete frame in the receive
  frame, if it is accepted, names a segment that can exist.
\<close>

definition frame_sane :: "build \<Rightarrow> nat \<Rightarrow> checksum \<Rightarrow> arq__recv_frame_t \<Rightarrow> bool" where
  "frame_sane b n checksum rf =
     (case arq__frame_read b (rf_buf rf) (rf_len rf) checksum of
        None \<Rightarrow> True
      | Some (r, h, ofs, buf) \<Rightarrow>
          r = ARQ__FRAME_READ_RESULT_SUCCESS \<and> h_seg h \<longrightarrow>
            h_seg_id h < n \<and> 1 \<le> h_msg_len h \<and> h_msg_len h \<le> 16)"

lemma recv_poll_frame_total:
  assumes nab: "\<not> asserts_enabled b" and rw: "recv_wnd_ok rw" and rf: "recv_frame_ok rf"
    and cap: "rf_cap rf = 18 + w_seg_len (r_w rw)" and t: "t < 2 ^ 32" and rh: "h_cur_ack_vec rh < 4096"
    and sane: "rf_full rf \<Longrightarrow> frame_sane b (segs (r_w rw)) checksum rf"
  shows "\<exists>rw' rf' rh'. recv_poll_frame b rw rf checksum rh t = Some (rw', rf', rh') \<and> recv_wnd_ok rw' \<and>
    recv_frame_ok rf' \<and> rf_cap rf' = rf_cap rf \<and> w_seg_len (r_w rw') = w_seg_len (r_w rw) \<and>
    h_cur_ack_vec rh' < 4096"
proof (cases "rf_full rf")
  case False
  then show ?thesis using rw rf rh by (simp add: recv_poll_no_frame)
next
  case full: True
  obtain r h buf where rd: "arq__frame_read b (rf_buf rf) (rf_len rf) checksum = Some (r, h, 13, buf)"
    "length buf = length (rf_buf rf)" "h_seg_len h < 256" "h_seq_num h < 4096" "h_cur_ack_vec h < 4096"
    "r = ARQ__FRAME_READ_RESULT_SUCCESS \<longrightarrow> 18 + h_seg_len h \<le> rf_len rf"
    using frame_read_total [OF nab rf full, of checksum] cap by auto
  have tk: "recv_frame_ok (frame_taken rf buf)" "rf_cap (frame_taken rf buf) = rf_cap rf"
    using frame_taken_ok [OF rf rd(2)] by (simp_all add: frame_taken_def arq__recv_frame_rst_def)
  show ?thesis
  proof (cases "r = ARQ__FRAME_READ_RESULT_SUCCESS \<and> h_seg h")
    case False
    then show ?thesis using recv_poll_other [OF full rd(1)] rw tk rd(5) by auto
  next
    case True
    let ?p = "take (h_seg_len h) (drop 13 buf)"
    have l: "18 + h_seg_len h \<le> rf_cap rf" "rf_cap rf \<le> length (rf_buf rf)"
      using True rd(6) rf by (auto simp: recv_frame_ok_def)
    then have len: "length ?p = h_seg_len h" "h_seg_len h \<le> length (drop 13 buf)" "h_seg_len h \<le> w_seg_len (r_w rw)"
      using rd(2) cap by auto
    have sn: "h_seg_id h < segs (r_w rw)" "1 \<le> h_msg_len h" "h_msg_len h \<le> 16"
      using sane [OF full] True rd(1) by (simp_all add: frame_sane_def)
    have "length ?p \<le> w_seg_len (r_w rw)" using len by simp
    from recv_wnd_frame_total [OF rw rd(4) sn this t, of b]
    obtain n rw' where st: "arq__recv_wnd_frame b rw (h_seq_num h) (h_seg_id h) (h_msg_len h) ?p (h_seg_len h) t = Some (n, rw')"
      "recv_wnd_ok rw'" "w_seg_len (r_w rw') = w_seg_len (r_w rw)"
      unfolding len(1) by blast
    then show ?thesis using recv_poll_segment [OF full, of b checksum h 13 buf rw t n rw' rh] rd(1,5) True len(2) tk by simp
  qed
qed

text \<open>The first step of a poll, with and without a frame.\<close>

lemma recv_poll_frame_runs:
  assumes "recv_wnd_ok rw"
    and full: "rf_full rf \<longrightarrow> \<not> asserts_enabled b \<and> recv_frame_ok rf \<and> rf_cap rf = 18 + w_seg_len (r_w rw) \<and>
      t < 2 ^ 32 \<and> frame_sane b (segs (r_w rw)) checksum rf"
  shows "\<exists>rw0 rf0 rh0. recv_poll_frame b rw rf checksum rh t = Some (rw0, rf0, rh0) \<and> recv_wnd_ok rw0"
proof (cases "rf_full rf")
  case False
  then show ?thesis using assms(1) by (simp add: recv_poll_no_frame)
next
  case True
  let ?rh = "rh\<lparr>h_cur_ack_vec := 0\<rparr>"
  from recv_poll_frame_total [OF _ assms(1), of b rf t ?rh checksum] full True
  have "\<exists>rw0 rf0 rh0. recv_poll_frame b rw rf checksum ?rh t = Some (rw0, rf0, rh0) \<and> recv_wnd_ok rw0" by auto
  moreover have "recv_poll_frame b rw rf checksum ?rh t = recv_poll_frame b rw rf checksum rh t"
    using True by (simp add: recv_poll_frame_def)
  ultimately show ?thesis by simp
qed

lemma recv_poll_frame_does:
  assumes "recv_poll_frame b rw rf checksum rh t = Some (rw0, rf0, rh0)"
  shows "if rf_full rf
     then \<exists>res ofs buf. arq__frame_read b (rf_buf rf) (rf_len rf) checksum = Some (res, rh0, ofs, buf) \<and>
       rf0 = frame_taken rf buf \<and>
       (if res = ARQ__FRAME_READ_RESULT_SUCCESS \<and> h_seg rh0
        then \<exists>n. arq__recv_wnd_frame b rw (h_seq_num rh0) (h_seg_id rh0) (h_msg_len rh0) (drop ofs buf) (h_seg_len rh0) t =
          Some (n, rw0)
        else rw0 = rw)
     else rw0 = rw \<and> rf0 = rf \<and> rh0 = rh"
  using assms by (auto simp: recv_poll_frame_def frame_taken_def bind_Some_iff Let_def split: if_splits)

text \<open>
  C34. Acknowledgements. A poll first takes the frame, if the receive frame holds one: the header is
  handed on and, if the checksum is right and it carries a segment, \<open>arq__recv_wnd_frame\<close> gets the
  segment. Whatever that leaves in the window, the poll lets the inter-segment timer run, and with a
  header to fill in it then acknowledges the first message of the window that asks for it, with the
  segments that have arrived so far, this frame's included, and clears only that request; an expired
  timer is such a request. Without a request the header carries no acknowledgement, and without a
  header every request waits.
\<close>

theorem recv_poll_acknowledges:
  fixes dt :: nat
  assumes "recv_wnd_ok rw"
    and "rf_full rf \<longrightarrow> \<not> asserts_enabled b \<and> recv_frame_ok rf \<and> rf_cap rf = 18 + w_seg_len (r_w rw) \<and>
      t < 2 ^ 32 \<and> frame_sane b (segs (r_w rw)) checksum rf"
  shows "\<exists>rw0 rf0 rh0.
    (if rf_full rf
     then \<exists>res ofs buf. arq__frame_read b (rf_buf rf) (rf_len rf) checksum = Some (res, rh0, ofs, buf) \<and>
       rf0 = frame_taken rf buf \<and>
       (if res = ARQ__FRAME_READ_RESULT_SUCCESS \<and> h_seg rh0
        then \<exists>n. arq__recv_wnd_frame b rw (h_seq_num rh0) (h_seg_id rh0) (h_msg_len rh0) (drop ofs buf) (h_seg_len rh0) t =
          Some (n, rw0)
        else rw0 = rw)
     else rw0 = rw \<and> rf0 = rf \<and> rh0 = rh) \<and>
    (let rw1 = timer_ran rw0 dt in
      arq__recv_poll b rw rf checksum None rh dt t = Some (False, rw1, rf0, None, rh0) \<and>
      ((\<forall>j < w_size (r_w rw0). \<not> r_ack rw1 ! slot (r_w rw0) j) \<and>
        arq__recv_poll b rw rf checksum (Some h) rh dt t = Some (False, rw1, rf0, Some (h\<lparr>h_ack := False\<rparr>), rh0) \<or>
       (\<exists>j < w_size (r_w rw0). r_ack rw1 ! slot (r_w rw0) j \<and> (\<forall>i < j. \<not> r_ack rw1 ! slot (r_w rw0) i) \<and>
        arq__recv_poll b rw rf checksum (Some h) rh dt t =
          Some (True, rw1\<lparr>r_ack := (r_ack rw1)[slot (r_w rw0) j := False]\<rparr>, rf0,
            Some (h\<lparr>h_ack := True, h_ack_num := (w_seq (r_w rw0) + j) mod 4096,
                    h_cur_ack_vec := m_cur_ack_vec (msg_at (r_w rw0) j)\<rparr>), rh0))))"
proof -
  obtain rw0 rf0 rh0 where run: "recv_poll_frame b rw rf checksum rh t = Some (rw0, rf0, rh0)" and ok: "recv_wnd_ok rw0"
    using recv_poll_frame_runs [OF assms] by blast
  show ?thesis
    using recv_poll_frame_does [OF run] recv_poll_acks [OF run ok, of dt] unfolding Let_def by blast
qed

text \<open>The last segment of the example's message arrives in a frame, and is acknowledged with the first.\<close>

definition demo_checked :: build where
  "demo_checked = le_build\<lparr>asserts_enabled := False\<rparr>"

definition demo_full_frame :: arq__recv_frame_t where
  "demo_full_frame = \<lparr>rf_buf = [1, 3, 2, 8, 1, 1, 2, 32, 1, 1, 1, 1, 3, 1, 2, 1, 1, 1, 1, 0],
     rf_state = ARQ__RECV_FRAME_STATE_FULL_FRAME_PRESENT, rf_cap = 20, rf_len = 20\<rparr>"

definition demo_full_hdr :: arq__frame_hdr_t where
  "demo_full_hdr = arq__frame_hdr_init\<lparr>h_msg_len := 2, h_seg_len := 2, h_seg := True\<rparr>"

definition demo_rw_whole :: arq__recv_wnd_t where
  "demo_rw_whole = snd (the (arq__recv_wnd_frame demo_checked demo_rw1 0 0 2 [1, 2, 0, 0, 0, 0, 0] 2 20))"

lemma demo_full_frame_ok: "recv_frame_ok demo_full_frame"
proof -
  let ?buf = "[1, 3, 2, 8, 1, 1, 2, 32, 1, 1, 1, 1, 3, 1, 2, 1, 1, 1, 1, 0] :: byte list"
  have "?buf ! i \<noteq> 0" if "i + 1 < 20" for i
  proof -
    have "?buf ! i = take 19 ?buf ! i" by (rule nth_take [symmetric]) (use that in simp)
    also have "\<dots> \<in> set (take 19 ?buf)" using that by (intro nth_mem) simp
    finally show ?thesis by auto
  qed
  then show ?thesis by (simp add: recv_frame_ok_def demo_full_frame_def)
qed

lemma demo_full_read:
  "arq__frame_read demo_checked (rf_buf demo_full_frame) (rf_len demo_full_frame) (\<lambda>_. 0) =
     Some (ARQ__FRAME_READ_RESULT_SUCCESS, demo_full_hdr, 13, [0, 0, 2, 8, 0, 0, 0, 32, 0, 0, 0, 0, 0, 1, 2, 0, 0, 0, 0, 0])"
  by code_simp

theorem recv_poll_acknowledges_witness:
  "\<exists>rw' rf' h'. arq__recv_poll demo_checked demo_rw1 demo_full_frame (\<lambda>_. 0) (Some arq__frame_hdr_init) arq__frame_hdr_init 5 20 =
      Some (True, rw', rf', Some h', demo_full_hdr) \<and> h_ack h' \<and> h_ack_num h' = 0 \<and> h_cur_ack_vec h' = 3"
proof -
  have pre: "rf_full demo_full_frame \<longrightarrow> \<not> asserts_enabled demo_checked \<and> recv_frame_ok demo_full_frame \<and>
      rf_cap demo_full_frame = 18 + w_seg_len (r_w demo_rw1) \<and> (20 :: nat) < 2 ^ 32 \<and>
      frame_sane demo_checked (segs (r_w demo_rw1)) (\<lambda>_. 0) demo_full_frame"
  proof -
    have "segs (r_w demo_rw1) = 2" "w_seg_len (r_w demo_rw1) = 2" by code_simp+
    then show ?thesis
      using demo_full_frame_ok demo_full_read
      by (simp add: frame_sane_def demo_full_hdr_def arq__frame_hdr_init_def demo_checked_def) (simp add: demo_full_frame_def)
  qed
  have c: "rf_full demo_full_frame" "h_seg demo_full_hdr" "h_seq_num demo_full_hdr = 0" "h_seg_id demo_full_hdr = 0"
    "h_msg_len demo_full_hdr = 2" "h_seg_len demo_full_hdr = 2"
    by (simp_all add: demo_full_frame_def demo_full_hdr_def arq__frame_hdr_init_def)
  have f: "arq__recv_wnd_frame demo_checked demo_rw1 0 0 2 [1, 2, 0, 0, 0, 0, 0] 2 20 = Some (2, demo_rw_whole)"
    "w_size (r_w demo_rw_whole) = 1" "r_ack (timer_ran demo_rw_whole 5) ! slot (r_w demo_rw_whole) 0"
    "w_seq (r_w demo_rw_whole) = 0" "m_cur_ack_vec (msg_at (r_w demo_rw_whole) 0) = 3"
    by code_simp+
  from recv_poll_acknowledges [OF demo_rw1_ok pre, of arq__frame_hdr_init 5 arq__frame_hdr_init] show ?thesis
    using c f unfolding demo_full_read Let_def by auto
qed
lemma acked_hdr:
  assumes "recv_wnd_ok rw" "acked rw h = (e, rw', h')" "emittable w h"
  shows "emittable w h'"
proof -
  have wok: "wnd_ok (r_w rw)" by (rule recv_wnd_okD(1) [OF assms(1)])
  have "m_cur_ack_vec (msg_at (r_w rw) j) < 4096" for j
  proof -
    have "m_cur_ack_vec (msg_at (r_w rw) j) < 2 ^ segs (r_w rw)"
      using recv_wnd_okD(6) [OF assms(1) slot_less [OF wok]] by (simp add: recv_msg_ok_def)
    then show ?thesis using pow2_segs_less [OF wok order.refl] by linarith
  qed
  then show ?thesis
    using assms(2,3) by (auto simp: acked_def emittable_def hdr_fits_def split: option.splits)
qed

lemma send_poll_total:
  assumes sw: "send_wnd_ok sw" and sp: "ptr_ok sp" and rtx: "rtx < 2 ^ 32" and rh: "h_cur_ack_vec rh < 4096"
    and "\<forall>h. sh = Some h \<longrightarrow> emittable (s_w sw) h"
  shows "\<exists>e sw' sp' sh'. arq__send_poll sw sp sh rh dt rtx = Some (e, sw', sp', sh') \<and> send_wnd_ok sw' \<and>
    ptr_ok sp' \<and> w_seg_len (s_w sw') = w_seg_len (s_w sw) \<and> (sh' = None \<longleftrightarrow> sh = None) \<and>
    (\<forall>h'. sh' = Some h' \<longrightarrow> emittable (s_w sw') h')"
proof -
  note sh = assms(5) [rule_format]
  obtain sw1 where 1: "send_poll_timers sw rh dt = Some sw1" "send_wnd_ok sw1" "w_seg_len (s_w sw1) = w_seg_len (s_w sw)"
    "w_msg_len (s_w sw1) = w_msg_len (s_w sw)" "segs (s_w sw1) = segs (s_w sw)"
    using send_poll_timers_ok [OF sw, of rh dt] rh by (auto simp: segs_def)
  show ?thesis
  proof (cases sh)
    case None
    then show ?thesis using 1 sp by (auto simp: arq__send_poll_def)
  next
    case (Some h)
    obtain r sp' sw' h' where 2: "arq__send_wnd_ptr_next sp sw1 = Some (r, sp')" "ptr_ok sp'"
      "send_poll_header sw1 sp h rtx = Some (sw', sp', h')" "send_wnd_ok sw'" "s_w sw' = s_w sw1"
      "h' = (if p_valid sp'
          then h\<lparr>h_msg_len := seg_count (s_w sw1) (m_len (w_msg (s_w sw1) ! (p_seq sp' mod w_cap (s_w sw1)))),
                 h_seq_num := p_seq sp', h_seg_id := p_seg sp', h_seg := True\<rparr>
          else h)"
      using send_poll_header_eq [OF 1(2) sp rtx, of h] by (elim exE conjE) (simp split: if_splits)
    have "emittable (s_w sw1) h'"
    proof (cases "p_valid sp'")
      case False
      then show ?thesis using sh [OF Some] 1(5) by (simp add: 2(6) emittable_def)
    next
      case True
      have wok: "wnd_ok (s_w sw1)" by (rule send_wnd_okD(1) [OF 1(2)])
      let ?k = "p_seq sp' mod w_cap (s_w sw1)"
      obtain i where i: "i < w_cap (s_w sw1)" "slot (s_w sw1) i = ?k"
        using slot_surj [OF wok, of ?k] wnd_okD(1) [OF wok] by auto
      have ml: "m_len (w_msg (s_w sw1) ! ?k) \<le> w_msg_len (s_w sw1)" using send_lens(1) [OF 1(2) i(1)] i(2) by simp
      have "seg_count (s_w sw1) (m_len (w_msg (s_w sw1) ! ?k)) < 256"
      proof (cases "m_len (w_msg (s_w sw1) ! ?k) = 0")
        case True
        then show ?thesis using wnd_okD(4) [OF wok] by (simp add: seg_count_def)
      next
        case False
        then show ?thesis using seg_count_bounds(2) [OF wok _ ml] wnd_okD(8) [OF wok] by simp
      qed
      moreover have "p_seg sp' < segs (s_w sw1)" by (rule ptr_next_seg [OF 1(2) sp 2(1) True])
      ultimately show ?thesis
        using sh [OF Some] 2(2) True by (simp add: 2(6) emittable_def hdr_fits_def ptr_ok_def)
    qed
    then show ?thesis using 1 2(2-5) Some by (simp add: arq__send_poll_def)
  qed
qed

text \<open>A send window that is empty, with a cursor at rest, has nothing to say.\<close>

definition quiet :: "arq__send_wnd_t \<Rightarrow> arq__send_wnd_ptr_t \<Rightarrow> bool" where
  "quiet sw sp \<longleftrightarrow> w_size (s_w sw) = 0 \<and> \<not> p_valid sp"

lemma quiet_timers:
  assumes "send_wnd_ok sw" "w_size (s_w sw) = 0" "h_cur_ack_vec rh < 65536"
  shows "\<exists>sw'. send_poll_timers sw rh dt = Some sw' \<and> send_wnd_ok sw' \<and> s_w sw' = s_w sw"
proof -
  obtain sw' where sw: "send_poll_timers sw rh dt = Some sw'" "send_wnd_ok sw'"
    using send_poll_timers_ok [OF assms(1,3)] by blast
  moreover have "s_w sw' = s_w sw"
    using sw(1) assms(2) by (auto simp: send_poll_timers_def arq__send_wnd_ack_def arq__send_wnd_step_def
        arq__send_wnd_flush_def Let_def split: if_splits)
  ultimately show ?thesis by blast
qed

lemma quiet_header:
  assumes "quiet sw sp"
  shows "send_poll_header sw sp h rtx = Some (sw, sp, h)"
proof -
  have "arq__send_wnd_ptr_next sp sw = Some (ARQ__SEND_WND_PTR_NEXT_INSIDE_MSG, sp)"
    using assms by (cases sp) (simp add: quiet_def arq__send_wnd_ptr_next_def)
  then show ?thesis using assms by (simp add: quiet_def send_poll_header_def Let_def)
qed

lemma quiet_send_poll:
  assumes "send_wnd_ok sw" "quiet sw sp" "h_cur_ack_vec rh < 4096"
  shows "\<exists>e sw'. arq__send_poll sw sp sh rh dt rtx = Some (e, sw', sp, sh) \<and> send_wnd_ok sw' \<and> s_w sw' = s_w sw"
proof -
  obtain sw' where sw: "send_poll_timers sw rh dt = Some sw'" "send_wnd_ok sw'" "s_w sw' = s_w sw"
    using quiet_timers [OF assms(1), of rh dt] assms(2,3) by (auto simp: quiet_def)
  then have "quiet sw' sp" using assms(2) by (simp add: quiet_def)
  then show ?thesis using sw by (cases sh) (auto simp: arq__send_poll_def quiet_header)
qed

text \<open>The object every call keeps: the invariants of its parts, and frames large enough for its windows.\<close>

definition arq_ok :: "arq_t \<Rightarrow> bool" where
  "arq_ok a \<longleftrightarrow> cfg_ranges (a_cfg a) \<and> send_wnd_ok (a_send_wnd a) \<and> ptr_ok (a_send_wnd_ptr a) \<and>
     send_frame_ok (18 + w_seg_len (s_w (a_send_wnd a))) (a_send_frame a) \<and> recv_wnd_ok (a_recv_wnd a) \<and>
     recv_frame_ok (a_recv_frame a) \<and> rf_cap (a_recv_frame a) = 18 + w_seg_len (r_w (a_recv_wnd a)) \<and>
     conn_ok (a_conn a)"

lemma arq_okD:
  assumes "arq_ok a"
  shows "cfg_ranges (a_cfg a)" "send_wnd_ok (a_send_wnd a)" "ptr_ok (a_send_wnd_ptr a)"
    "send_frame_ok (18 + w_seg_len (s_w (a_send_wnd a))) (a_send_frame a)" "recv_wnd_ok (a_recv_wnd a)"
    "recv_frame_ok (a_recv_frame a)" "rf_cap (a_recv_frame a) = 18 + w_seg_len (r_w (a_recv_wnd a))"
    "conn_ok (a_conn a)"
  using assms by (simp_all add: arq_ok_def)

lemma conn_poll_total:
  assumes "conn_ok conn" "connection_rst_period cfg < 2 ^ 32"
  shows "\<exists>emit conn' sh' e. arq__conn_poll b conn sh rh dt cfg = Some (emit, conn', sh', e) \<and> conn_ok conn'"
proof (cases "use_connections b")
  case False
  then show ?thesis using assms(1) by (auto simp: arq__conn_poll_def)
next
  case True
  obtain ctx' emit' e' where "conn_poll_loop \<lparr>cx_cfg = cfg, cx_dt = dt, cx_conn = conn, cx_sh = sh, cx_rh = rh\<rparr>
      False ARQ_EVENT_NONE = Some (ctx', emit', e')"
    using conn_loop_total [of "\<lparr>cx_cfg = cfg, cx_dt = dt, cx_conn = conn, cx_sh = sh, cx_rh = rh\<rparr>"
        False ARQ_EVENT_NONE] assms(1) by auto
  then have "arq__conn_poll b conn sh rh dt cfg = Some (sh \<noteq> None \<and> emit', cx_conn ctx', cx_sh ctx', e')"
    using True by (simp add: arq__conn_poll_def)
  then show ?thesis using conn_poll_keeps_ok [OF True assms] by blast
qed

lemma conn_next_poll_total: "conn_ok c \<Longrightarrow> \<exists>t. arq__conn_next_poll c = Some t"
  by (cases "cn_state c"; cases "cn_u c") (simp_all add: conn_ok_def arq__conn_next_poll_def)

lemma recv_pending_total:
  assumes "recv_wnd_ok rw"
  shows "\<exists>p. arq__recv_wnd_pending rw = Some p"
  using wnd_okD(1,9) [OF recv_wnd_okD(1) [OF assms]] by (auto simp: arq__recv_wnd_pending_def umod_pos rd_ok)

text \<open>The header of a poll, if a frame can be sent.\<close>

definition poll_hdr :: "arq__send_frame_t \<Rightarrow> arq__frame_hdr_t option" where
  "poll_hdr f = (if sf_len f = 0 \<and> sf_state f \<noteq> ARQ__SEND_FRAME_STATE_HELD then Some arq__frame_hdr_init else None)"

lemma emittable_init [simp]: "emittable w arq__frame_hdr_init"
  by (simp add: emittable_def) (simp add: arq__frame_hdr_init_def)

lemma emittable_unflagged:
  assumes "unflagged (Some s') = unflagged (Some s)" "emittable w s"
  shows "emittable w s'"
  using assms(2) unfolding emittable_def hdr_fits_def unflagged_fields [OF assms(1)] .

text \<open>The timer and the acknowledgements leave what the receive window holds.\<close>

definition same_content :: "arq__recv_wnd_t \<Rightarrow> arq__recv_wnd_t \<Rightarrow> bool" where
  "same_content rw rw' \<longleftrightarrow> recv_wnd_ok rw' \<and> r_w rw' = r_w rw \<and> r_copy_seq rw' = r_copy_seq rw \<and>
     r_copy_ofs rw' = r_copy_ofs rw \<and> r_slide rw' = r_slide rw"

lemma same_content_holds:
  assumes "same_content rw rw'" "recv_holds msgs base rw"
  shows "recv_holds msgs base rw'"
  using assms unfolding recv_holds_def same_content_def by simp

lemma timer_ran_content: "recv_wnd_ok rw \<Longrightarrow> same_content rw (timer_ran rw dt)"
  using recv_poll_timer_eq [of rw dt] by (auto simp: same_content_def timer_ran_def)

lemma acked_content:
  assumes "same_content rw rw1" "acked rw1 h = (e, rw2, h')"
  shows "same_content rw rw2"
  using assms acked_ok [OF _ assms(2)] by (auto simp: same_content_def acked_def split: option.splits)

lemma acked_any:
  assumes "acked rw h = (e, rw', h')" "j < w_size (r_w rw)" "r_ack rw ! slot (r_w rw) j"
  shows e
proof -
  have "find (\<lambda>j. r_ack rw ! slot (r_w rw) j) [0..<w_size (r_w rw)] \<noteq> None"
    using assms(2,3) by (auto simp: find_None_iff)
  then show ?thesis using assms(1) by (auto simp: acked_def)
qed

lemma timer_ran_ack:
  assumes "recv_wnd_ok rw" "r_ack rw ! slot (r_w rw) j"
  shows "r_ack (timer_ran rw dt) ! slot (r_w rw) j"
  using assms slot_less [OF recv_wnd_okD(1) [OF assms(1)], of j] recv_wnd_okD(2) [OF assms(1)]
  by (auto simp: timer_ran_def nth_list_update)

text \<open>The receiving half of a poll.\<close>

lemma recv_poll_stage:
  assumes run: "recv_poll_frame b rw rf cs rh t = Some (rw1, rf1, rh1)" and ok: "recv_wnd_ok rw1"
    and sh: "\<forall>h. sh = Some h \<longrightarrow> emittable w h"
  shows "\<exists>e rw2 sh1. arq__recv_poll b rw rf cs sh rh dt t = Some (e, rw2, rf1, sh1, rh1) \<and> same_content rw1 rw2 \<and>
    (sh1 = None \<longleftrightarrow> sh = None) \<and> (\<forall>h. sh1 = Some h \<longrightarrow> emittable w h) \<and>
    (sh \<noteq> None \<and> (\<exists>j < w_size (r_w rw1). r_ack rw1 ! slot (r_w rw1) j) \<longrightarrow> e)"
proof (cases sh)
  case None
  then show ?thesis using recv_poll_run [OF run ok, of None dt] timer_ran_content [OF ok] by auto
next
  case (Some h)
  note tr = recv_poll_timer_eq [OF ok, of dt]
  obtain e rw2 h' where ack: "acked (timer_ran rw1 dt) h = (e, rw2, h')" by (metis prod_cases3)
  have "e" if "j < w_size (r_w rw1)" "r_ack rw1 ! slot (r_w rw1) j" for j
    using acked_any [OF ack, of j] timer_ran_ack [OF ok that(2), of dt] that(1) tr(3) by simp
  then show ?thesis
    using recv_poll_run [OF run ok, of "Some h" dt] Some ack acked_content [OF timer_ran_content [OF ok] ack]
      acked_hdr [OF tr(2) ack] sh by auto
qed

text \<open>The header of a poll has no segment before the sender had its turn.\<close>

lemma recv_stage_no_seg:
  assumes "arq__recv_poll b rw rf cs (poll_hdr f) rh dt t = Some (e, rw', rf', sh, rh')" "sh = Some h"
  shows "\<not> h_seg h"
proof -
  have "\<not> h_seg arq__frame_hdr_init" by (simp add: arq__frame_hdr_init_def)
  then show ?thesis
    using assms by (auto simp: arq__recv_poll_def poll_hdr_def split: if_splits option.splits Option.bind_splits prod.splits)
qed

text \<open>
  A poll, once the frame that arrived is dealt with. Assertions are off, or there is nothing to send: a
  segment of length zero would fail one.
\<close>

lemma backend_poll_runs:
  assumes ok: "arq_ok a"
    and q: "asserts_enabled b \<longrightarrow> quiet (a_send_wnd a) (a_send_wnd_ptr a)"
    and recv: "recv_poll_frame b (a_recv_wnd a) (a_recv_frame a) (cfg_checksum (a_cfg a)) arq__frame_hdr_init
      (inter_segment_timeout (a_cfg a)) = Some (rw1, rf1, rh)" "recv_wnd_ok rw1" "recv_frame_ok rf1"
    "rf_cap rf1 = rf_cap (a_recv_frame a)" "w_seg_len (r_w rw1) = w_seg_len (r_w (a_recv_wnd a))" "h_cur_ack_vec rh < 4096"
  shows "\<exists>out a'. backend_poll b a dt = Some (out, a') \<and> arq_ok a' \<and> \<not> a_need_poll a' \<and> a_cfg a' = a_cfg a \<and>
    (poll_hdr (a_send_frame a) = None \<longrightarrow> a_send_frame a' = a_send_frame a) \<and>
    a_recv_frame a' = rf1 \<and> same_content rw1 (a_recv_wnd a') \<and>
    (quiet (a_send_wnd a) (a_send_wnd_ptr a) \<longrightarrow> quiet (a_send_wnd a') (a_send_wnd_ptr a')) \<and>
    arq__recv_wnd_pending rw1 = Some (po_recv_ready out) \<and> po_send_ready out = (0 < sf_len (a_send_frame a')) \<and>
    (poll_hdr (a_send_frame a) \<noteq> None \<and> (\<exists>j < w_size (r_w rw1). r_ack rw1 ! slot (r_w rw1) j) \<longrightarrow> po_send_ready out)"
proof -
  let ?c = "a_cfg a" and ?w = "s_w (a_send_wnd a)"
  note p = arq_okD [OF ok]
  have tm: "retransmission_timeout ?c < 2 ^ 32" "connection_rst_period ?c < 2 ^ 32"
    using p(1) by (simp_all add: cfg_ranges_def)
  have sh: "\<forall>h. poll_hdr (a_send_frame a) = Some h \<longrightarrow> emittable ?w h"
    by (auto simp: poll_hdr_def split: if_splits)
  obtain e1 rw2 sh1 where 2: "arq__recv_poll b (a_recv_wnd a) (a_recv_frame a) (cfg_checksum ?c) (poll_hdr (a_send_frame a))
      arq__frame_hdr_init dt (inter_segment_timeout ?c) = Some (e1, rw2, rf1, sh1, rh)" "same_content rw1 rw2"
    "sh1 = None \<longleftrightarrow> poll_hdr (a_send_frame a) = None" "\<forall>h. sh1 = Some h \<longrightarrow> emittable ?w h"
    "poll_hdr (a_send_frame a) \<noteq> None \<and> (\<exists>j < w_size (r_w rw1). r_ack rw1 ! slot (r_w rw1) j) \<longrightarrow> e1"
    using recv_poll_stage [OF recv(1,2) sh, of dt] by (elim exE conjE)
  have rw2: "recv_wnd_ok rw2" "r_w rw2 = r_w rw1" using 2(2) by (simp_all add: same_content_def)
  obtain e2 sw sp sh2 where 3: "arq__send_poll (a_send_wnd a) (a_send_wnd_ptr a) sh1 rh dt (retransmission_timeout ?c) =
      Some (e2, sw, sp, sh2)" "send_wnd_ok sw" "ptr_ok sp" "w_seg_len (s_w sw) = w_seg_len ?w"
    "sh2 = None \<longleftrightarrow> sh1 = None" "\<forall>h'. sh2 = Some h' \<longrightarrow> emittable (s_w sw) h'"
    using send_poll_total [OF p(2,3) tm(1) recv(6) 2(4), of dt] by (elim exE conjE)
  have qs: "quiet sw sp \<and> sh2 = sh1" if "quiet (a_send_wnd a) (a_send_wnd_ptr a)"
    using quiet_send_poll [OF p(2) that recv(6), of sh1 dt "retransmission_timeout ?c"] 3(1) that by (auto simp: quiet_def)
  obtain e3 conn sh3 ev where 4: "arq__conn_poll b (a_conn a) sh2 rh dt ?c = Some (e3, conn, sh3, ev)" "conn_ok conn"
    using conn_poll_total [OF p(8) tm(2), of b sh2 rh dt] by blast
  have u: "unflagged sh3 = unflagged sh2" by (rule conn_poll_unflagged [OF 4(1)])
  then have sh3: "sh3 = None \<longleftrightarrow> sh2 = None" by (auto simp: unflagged_def)
  have em: "emittable (s_w sw) h" if "sh3 = Some h" for h
    using that u sh3 3(6) emittable_unflagged by (cases sh2) auto
  have nseg: "asserts_enabled b \<longrightarrow> \<not> h_seg h" if "sh3 = Some h" for h
    using recv_stage_no_seg [OF 2(1)] that u sh3 qs q by (cases sh2) (auto dest: unflagged_fields(9))
  have sfo: "send_frame_ok (18 + w_seg_len (s_w sw)) (a_send_frame a)" using p(4) 3(4) by simp
  obtain sf where 5: "(case sh3 of
             Some sh \<Rightarrow> if e1 \<or> e2 \<or> e3 then backend_emit b ?c sw sh (a_send_frame a) else Some (a_send_frame a)
           | None \<Rightarrow> Some (a_send_frame a)) = Some sf" "send_frame_ok (18 + w_seg_len (s_w sw)) sf"
    "sh3 = None \<longrightarrow> sf = a_send_frame a" "sh3 \<noteq> None \<and> e1 \<longrightarrow> 0 < sf_len sf"
    using backend_emit_total [where cfg = ?c, OF nseg 3(2) sfo em] sfo by (cases sh3; cases "e1 \<or> e2 \<or> e3") auto
  obtain np where 6: "arq__next_poll b sw rw2 conn = Some np"
    using next_poll_eq [OF 3(2), of b rw2 conn] conn_next_poll_total [OF 4(2)] by (cases "use_connections b") (auto simp: Let_def)
  obtain pend where 7: "arq__recv_wnd_pending rw2 = Some pend" using recv_pending_total [OF rw2(1)] by blast
  let ?a = "a\<lparr>a_send_wnd := sw, a_send_wnd_ptr := sp, a_send_frame := sf, a_recv_wnd := rw2, a_recv_frame := rf1,
             a_need_poll := False, a_conn := conn\<rparr>"
  have run: "backend_poll b a dt = Some (\<lparr>po_event = ev, po_send_ready = (sf_len sf > 0), po_recv_ready = pend,
      po_next_poll = np\<rparr>, ?a)"
    unfolding backend_poll_def Let_def poll_hdr_def [symmetric]
    by (simp only: 2(1) 3(1) 4(1) 5(1) 6 7 bind.bind_lunit split_conv)
  have "arq_ok ?a" using p rw2 recv 3 4 5 by (simp add: arq_ok_def)
  moreover have "arq__recv_wnd_pending rw1 = Some pend" using 7 by (simp only: arq__recv_wnd_pending_def rw2(2))
  ultimately show ?thesis using run 2(2,3,5) 3(5) sh3 5(3,4) qs by simp
qed

lemma backend_poll_total:
  assumes nab: "\<not> asserts_enabled b" and ok: "arq_ok a"
    and sane: "rf_full (a_recv_frame a) \<Longrightarrow>
      frame_sane b (segs (r_w (a_recv_wnd a))) (cfg_checksum (a_cfg a)) (a_recv_frame a)"
  shows "\<exists>out a'. backend_poll b a dt = Some (out, a') \<and> arq_ok a' \<and> \<not> a_need_poll a' \<and> a_cfg a' = a_cfg a \<and>
    (poll_hdr (a_send_frame a) = None \<longrightarrow> a_send_frame a' = a_send_frame a)"
proof -
  note p = arq_okD [OF ok]
  have t: "inter_segment_timeout (a_cfg a) < 2 ^ 32" using p(1) by (simp add: cfg_ranges_def)
  have "h_cur_ack_vec arq__frame_hdr_init < 4096" by (simp add: arq__frame_hdr_init_def)
  from recv_poll_frame_total [OF nab p(5,6,7) t this sane]
  obtain rw1 rf1 rh where 1: "recv_poll_frame b (a_recv_wnd a) (a_recv_frame a) (cfg_checksum (a_cfg a)) arq__frame_hdr_init
      (inter_segment_timeout (a_cfg a)) = Some (rw1, rf1, rh)" "recv_wnd_ok rw1" "recv_frame_ok rf1"
    "rf_cap rf1 = rf_cap (a_recv_frame a)" "w_seg_len (r_w rw1) = w_seg_len (r_w (a_recv_wnd a))" "h_cur_ack_vec rh < 4096"
    by blast
  have "asserts_enabled b \<longrightarrow> quiet (a_send_wnd a) (a_send_wnd_ptr a)" using nab by simp
  from backend_poll_runs [OF ok this 1, of dt] show ?thesis by (elim exE conjE) (intro exI conjI)
qed

end
