(* ===== verification/Arq_Calls.thy ===== *)
theory Arq_Calls imports Arq_Safety begin

text \<open>
  The public calls of \<open>src/arq.h\<close> as operations on one object: its setup by \<open>arq_init\<close> in memory
  sized by \<open>arq_required_size\<close>, the transition system of all calls, and what holds in every state
  it reaches.
\<close>

section \<open>Setup\<close>

text \<open>
  Configurations the windows can work with: \<open>arq__check_cfg\<close> accepts them, and the sizes are
  within the limits of the wire format (which \<open>arq__check_cfg\<close> does not check).
\<close>

definition cfg_sound :: "arq_cfg_t \<Rightarrow> bool" where
  "cfg_sound c \<longleftrightarrow> arq__check_cfg c = ARQ_OK_COMPLETED \<and> cfg_ranges c \<and>
     geometry_ok (send_window_size_in_messages c) (message_length_in_segments c) (segment_length_in_bytes c) \<and>
     geometry_ok (recv_window_size_in_messages c) (message_length_in_segments c) (segment_length_in_bytes c)"

text \<open>The arrays \<open>arq__alloc\<close> makes room for, with the lengths it computes.\<close>

definition arrays_fit :: "arq_cfg_t \<Rightarrow> arq_t \<Rightarrow> bool" where
  "arrays_fit c a \<longleftrightarrow>
     length (w_msg (s_w (a_send_wnd a))) = send_window_size_in_messages c \<and>
     length (w_buf (s_w (a_send_wnd a))) =
       send_window_size_in_messages c * (message_length_in_segments c * segment_length_in_bytes c) \<and>
     length (s_rtx (a_send_wnd a)) = send_window_size_in_messages c \<and>
     length (w_msg (r_w (a_recv_wnd a))) = recv_window_size_in_messages c \<and>
     length (w_buf (r_w (a_recv_wnd a))) =
       recv_window_size_in_messages c * (message_length_in_segments c * segment_length_in_bytes c) \<and>
     length (r_ack (a_recv_wnd a)) = recv_window_size_in_messages c \<and>
     length (sf_buf (a_send_frame a)) = 18 + segment_length_in_bytes c \<and>
     length (rf_buf (a_recv_frame a)) = 18 + segment_length_in_bytes c"

text \<open>
  These are the lengths at which the arrays fill the nine regions of the layout: the object itself,
  and behind it each array with the size of its elements.
\<close>

lemma arrays_fill_regions:
  assumes "abi_ok abi"
  shows "arrays_fit c a \<longleftrightarrow> map fst (requests abi c) =
    [sizeof_arq abi, sizeof_time abi * length (s_rtx (a_send_wnd a)), sizeof_msg abi * length (w_msg (s_w (a_send_wnd a))),
     length (w_buf (s_w (a_send_wnd a))), length (r_ack (a_recv_wnd a)), sizeof_msg abi * length (w_msg (r_w (a_recv_wnd a))),
     length (w_buf (r_w (a_recv_wnd a))), length (sf_buf (a_send_frame a)), length (rf_buf (a_recv_frame a))]"
  using assms by (auto simp: arrays_fit_def requests_def abi_ok_def request_ok_def Let_def)

text \<open>An object that holds nothing: what \<open>arq_init\<close> and \<open>arq_reset\<close> leave behind.\<close>

definition arq_blank :: "build \<Rightarrow> arq_t \<Rightarrow> bool" where
  "arq_blank b a \<longleftrightarrow> wnd_bytes (s_w (a_send_wnd a)) = [] \<and> w_size (s_w (a_send_wnd a)) = 0 \<and>
     w_seq (s_w (a_send_wnd a)) = 0 \<and> \<not> p_valid (a_send_wnd_ptr a) \<and> sf_len (a_send_frame a) = 0 \<and>
     sf_state (a_send_frame a) = ARQ__SEND_FRAME_STATE_FREE \<and> w_size (r_w (a_recv_wnd a)) = 0 \<and>
     w_seq (r_w (a_recv_wnd a)) = 0 \<and> rf_len (a_recv_frame a) = 0 \<and> \<not> rf_full (a_recv_frame a) \<and>
     \<not> a_need_poll a \<and> cn_state (a_conn a) =
       (if use_connections b then ARQ_CONN_STATE_CLOSED else ARQ_CONN_STATE_ESTABLISHED)"

lemma recv_wnd_rst_ok:
  assumes "wnd_ok (r_w rw)" "length (r_ack rw) = w_cap (r_w rw)"
  shows "\<exists>rw'. arq__recv_wnd_rst rw = Some rw' \<and> recv_wnd_ok rw' \<and> w_size (r_w rw') = 0 \<and>
    w_seq (r_w rw') = 0 \<and> w_seg_len (r_w rw') = w_seg_len (r_w rw)"
proof -
  let ?w = "(r_w rw)\<lparr>w_size := 0, w_seq := 0, w_msg := replicate (w_cap (r_w rw)) (fresh_msg (r_w rw))\<rparr>"
  have "wnd_ok ?w" by (rule wnd_rst_ok [OF assms(1)])
  moreover have "recv_msg_ok ?w (fresh_msg (r_w rw))"
    using wnd_okD(8,13) [OF assms(1)] seg_cnt_vec [of "segs (r_w rw)"] by (simp add: recv_msg_ok_def fresh_msg_def)
  moreover have "0 < w_cap (r_w rw)" by (rule wnd_okD(1) [OF assms(1)])
  ultimately show ?thesis
    unfolding recv_wnd_rst_eq [OF assms] by (simp add: recv_wnd_ok_def ARQ_TIME_INFINITY_def fresh_msg_def)
qed

lemma wnd_rst_seg_len: "arq__wnd_rst w = Some w' \<Longrightarrow> w_seg_len w' = w_seg_len w"
  by (auto simp: arq__wnd_rst_def bind_Some_iff)

lemma send_wnd_rst_seg_len: "arq__send_wnd_rst sw = Some sw' \<Longrightarrow> w_seg_len (s_w sw') = w_seg_len (s_w sw)"
  by (auto simp: arq__send_wnd_rst_def bind_Some_iff dest: wnd_rst_seg_len)

lemma rst_total:
  assumes "wnd_ok (s_w (a_send_wnd a))" "length (s_rtx (a_send_wnd a)) = w_cap (s_w (a_send_wnd a))"
    and "wnd_ok (r_w (a_recv_wnd a))" "length (r_ack (a_recv_wnd a)) = w_cap (r_w (a_recv_wnd a))"
    and "cfg_ranges (a_cfg a)" "18 + w_seg_len (s_w (a_send_wnd a)) \<le> sf_cap (a_send_frame a)"
    and "sf_cap (a_send_frame a) \<le> length (sf_buf (a_send_frame a))"
    and "rf_cap (a_recv_frame a) = 18 + w_seg_len (r_w (a_recv_wnd a))"
    and "rf_cap (a_recv_frame a) \<le> length (rf_buf (a_recv_frame a))"
  shows "\<exists>a'. arq__rst b a = Some a' \<and> arq_ok a' \<and> arq_blank b a' \<and> a_cfg a' = a_cfg a"
proof -
  obtain sw where sw: "arq__send_wnd_rst (a_send_wnd a) = Some sw" "send_wnd_ok sw" "w_size (s_w sw) = 0"
    "w_seq (s_w sw) = 0" "wnd_bytes (s_w sw) = []"
    using send_wnd_rst_ok [OF assms(1,2)] by blast
  obtain rw where rw: "arq__recv_wnd_rst (a_recv_wnd a) = Some rw" "recv_wnd_ok rw" "w_size (r_w rw) = 0"
    "w_seq (r_w rw) = 0" "w_seg_len (r_w rw) = w_seg_len (r_w (a_recv_wnd a))"
    using recv_wnd_rst_ok [OF assms(3,4)] by blast
  have "w_seg_len (r_w (a_recv_wnd a)) \<le> 238" by (rule wnd_okD(5) [OF assms(3)])
  then show ?thesis
    using assms sw rw send_wnd_rst_seg_len [OF sw(1)]
    by (simp add: arq__rst_def arq_ok_def arq_blank_def arq__send_wnd_ptr_rst_def arq__send_frame_rst_def
        arq__recv_frame_rst_def ptr_ok_def send_frame_ok_def recv_frame_ok_def conn_ok_def)
qed

lemma reset_total:
  assumes "arq_ok a"
  shows "\<exists>a'. arq__rst b a = Some a' \<and> arq_ok a' \<and> arq_blank b a' \<and> a_cfg a' = a_cfg a"
  using arq_okD [OF assms] send_wnd_okD(1,2) recv_wnd_okD(1,2)
  by (intro rst_total) (auto simp: send_frame_ok_def recv_frame_ok_def)

lemma init_total:
  assumes c: "cfg_sound c" and fit: "arrays_fit c mem"
  shows "\<exists>a1 a2. arq__init b (mem\<lparr>a_cfg := c\<rparr>) = Some a1 \<and> arq__rst b a1 = Some a2 \<and> arq_ok a2 \<and>
    arq_blank b a2 \<and> a_cfg a2 = c"
proof -
  let ?n = "message_length_in_segments c" and ?l = "segment_length_in_bytes c"
  have geo: "geometry_ok (send_window_size_in_messages c) ?n ?l" "geometry_ok (recv_window_size_in_messages c) ?n ?l"
    and cr: "cfg_ranges c" using c by (simp_all add: cfg_sound_def)
  have ml: "u32 (?n * ?l) = ?n * ?l" using geometry_msg_len(2) [OF geo(1)] by (simp add: u32_id)
  have l: "?l \<le> 238" "0 < ?l" using geo(1) by (simp_all add: geometry_ok_def)
  obtain sw where sw: "arq__wnd_init (s_w (a_send_wnd mem)) (send_window_size_in_messages c) (?n * ?l) ?l = Some sw"
    using wnd_init_eq [OF geo(1)] fit by (simp add: arrays_fit_def)
  obtain rw where rw: "arq__wnd_init (r_w (a_recv_wnd mem)) (recv_window_size_in_messages c) (?n * ?l) ?l = Some rw"
    using wnd_init_eq [OF geo(2)] fit by (simp add: arrays_fit_def)
  note s = wnd_init_ok [OF geo(1) _ _ sw] and r = wnd_init_ok [OF geo(2) _ _ rw]
  let ?a1 = "mem\<lparr>a_cfg := c, a_send_wnd := (a_send_wnd mem)\<lparr>s_w := sw\<rparr>,
               a_send_frame := (a_send_frame mem)\<lparr>sf_cap := 18 + ?l\<rparr>,
               a_recv_wnd := (a_recv_wnd mem)\<lparr>r_w := rw\<rparr>,
               a_recv_frame := (a_recv_frame mem)\<lparr>rf_cap := 18 + ?l\<rparr>\<rparr>"
  have init: "arq__init b (mem\<lparr>a_cfg := c\<rparr>) = Some ?a1"
    using l sw rw by (simp add: arq__init_def Let_def ml arq__frame_len_ok arq__recv_frame_init_def
        arq__send_frame_init_def u16_id)
  have "\<exists>a'. arq__rst b ?a1 = Some a' \<and> arq_ok a' \<and> arq_blank b a' \<and> a_cfg a' = a_cfg ?a1"
    using s r fit cr by (intro rst_total) (simp_all add: arrays_fit_def)
  then show ?thesis using init by auto
qed

section \<open>The calls\<close>

text \<open>The calls of the user and of the transport driver on an object, with valid pointers.\<close>

datatype api_call =
    Call_reset
  | Call_connect
  | Call_send "byte list"
  | Call_recv nat
  | Call_flush
  | Call_poll nat
  | Call_send_ptr_get
  | Call_send_ptr_release
  | Call_recv_fill "byte list"

text \<open>The object after a call; the outer option is \<open>None\<close> when the call has no defined result.\<close>

fun api_exec :: "build \<Rightarrow> arq_t \<Rightarrow> api_call \<Rightarrow> (arq_err_t \<times> arq_t option) option" where
  "api_exec b a Call_reset = arq_reset b (Some a)"
| "api_exec b a Call_connect = Some (arq_connect b (Some a))"
| "api_exec b a (Call_send bs) = do { (e, _, a') \<leftarrow> arq_send (Some a) (Some bs) (length bs) True; Some (e, a') }"
| "api_exec b a (Call_recv n) = do { (e, _, a') \<leftarrow> arq_recv (Some a) True n True; Some (e, a') }"
| "api_exec b a Call_flush = arq_flush (Some a)"
| "api_exec b a (Call_poll dt) = do {
     (e, _, a') \<leftarrow> arq_backend_poll b (Some a) dt True True True True; Some (e, a') }"
| "api_exec b a Call_send_ptr_get =
     (case arq_backend_send_ptr_get (Some a) True True of (e, _, a') \<Rightarrow> Some (e, a'))"
| "api_exec b a Call_send_ptr_release = Some (arq_backend_send_ptr_release (Some a))"
| "api_exec b a (Call_recv_fill bs) = do {
     (e, _, a') \<leftarrow> arq_backend_recv_fill (Some a) (Some bs) (length bs) True; Some (e, a') }"

text \<open>Sizes are values of type \<open>unsigned\<close>, and a frame about to be taken names a possible segment.\<close>

fun call_allowed :: "build \<Rightarrow> arq_t \<Rightarrow> api_call \<Rightarrow> bool" where
  "call_allowed b a (Call_send bs) = (length bs < 2 ^ 32)"
| "call_allowed b a (Call_recv n) = (n < 2 ^ 32)"
| "call_allowed b a (Call_recv_fill bs) = (length bs < 2 ^ 32)"
| "call_allowed b a (Call_poll dt) = (rf_full (a_recv_frame a) \<longrightarrow>
     frame_sane b (segs (r_w (a_recv_wnd a))) (cfg_checksum (a_cfg a)) (a_recv_frame a))"
| "call_allowed b a _ = True"

lemma flush_total:
  assumes "send_wnd_ok sw"
  shows "\<exists>sw'. arq__send_wnd_flush sw = Some sw' \<and> send_wnd_ok sw' \<and> w_seg_len (s_w sw') = w_seg_len (s_w sw)"
proof (cases "w_size (s_w sw) = 0")
  case True
  then show ?thesis using assms by (simp add: arq__send_wnd_flush_def Let_def)
next
  case False
  then show ?thesis using send_wnd_flush_eq [OF assms] by auto
qed

lemma api_call_ok:
  assumes nab: "\<not> asserts_enabled b" and ok: "arq_ok a" and al: "call_allowed b a c"
  shows "\<exists>e a'. api_exec b a c = Some (e, Some a') \<and> arq_ok a'"
proof -
  note p = arq_okD [OF ok]
  show ?thesis
  proof (cases c)
    case Call_reset
    then show ?thesis using reset_total [OF ok, of b] by (auto simp: arq_reset_def)
  next
    case Call_connect
    then show ?thesis using ok by (auto simp: arq_connect_def arq_ok_def conn_ok_def)
  next
    case (Call_send bs)
    have "tinygram_send_delay (a_cfg a) < 2 ^ 32" using p(1) by (simp add: cfg_ranges_def)
    from send_wnd_send_appends [OF p(2) order.refl this, of bs] Call_send
    show ?thesis using ok by (auto simp: arq_send_def arq_ok_def)
  next
    case (Call_recv n)
    then show ?thesis using recv_wnd_recv_total [OF p(5), of n] al ok by (auto simp: arq_recv_def arq_ok_def)
  next
    case Call_flush
    then show ?thesis using flush_total [OF p(2)] ok by (auto simp: arq_flush_def arq_ok_def)
  next
    case (Call_poll dt)
    then show ?thesis using backend_poll_total [OF nab ok, of dt] al by (auto simp: arq_backend_poll_def)
  next
    case Call_send_ptr_get
    then show ?thesis using ok by (auto simp: arq_backend_send_ptr_get_def arq_ok_def send_frame_ok_def Let_def)
  next
    case Call_send_ptr_release
    then show ?thesis using ok by (auto simp: arq_backend_send_ptr_release_def arq_ok_def send_frame_ok_def Let_def)
  next
    case (Call_recv_fill bs)
    then obtain f where "arq__recv_frame_fill (a_recv_frame a) bs (length bs) = Some (length (fill_take (a_recv_frame a) bs), f)"
      "recv_frame_ok f" "rf_cap f = rf_cap (a_recv_frame a)"
      using recv_frame_fill_eq [OF p(6), of bs] al by auto
    then show ?thesis using Call_recv_fill ok by (auto simp: arq_backend_recv_fill_def arq_ok_def)
  qed
qed

section \<open>The calls as a transition system\<close>

inductive api_step :: "build \<Rightarrow> arq_t \<Rightarrow> arq_t \<Rightarrow> bool" for b :: build where
  call: "call_allowed b a c \<Longrightarrow> api_exec b a c = Some (e, Some a') \<Longrightarrow> api_step b a a'"

text \<open>Objects as \<open>arq_init\<close> makes them, in memory \<open>arq__alloc\<close> has laid out.\<close>

definition api_start :: "build \<Rightarrow> arq_t \<Rightarrow> bool" where
  "api_start b a \<longleftrightarrow> (\<exists>abi c seat sz mem. cfg_sound c \<and> arrays_fit c mem \<and>
     arq_init b abi (Some c) seat sz mem True = Some (ARQ_OK_COMPLETED, Some a))"

lemma arq_init_ok:
  assumes "cfg_sound c" "arrays_fit c mem" "arq_init b abi (Some c) seat sz mem True = Some (e, Some a)"
  shows "arq_ok a" "arq_blank b a" "a_cfg a = c"
proof -
  obtain a1 a2 where i: "arq__init b (mem\<lparr>a_cfg := c\<rparr>) = Some a1" "arq__rst b a1 = Some a2" "arq_ok a2"
    "arq_blank b a2" "a_cfg a2 = c"
    using init_total [OF assms(1,2)] by blast
  have "a = a2"
    using assms(3) i(1,2) by (auto simp: arq_init_def bind_Some_iff split: if_splits)
  with i show "arq_ok a" "arq_blank b a" "a_cfg a = c" by simp_all
qed

lemma api_step_ok: "\<not> asserts_enabled b \<Longrightarrow> arq_ok a \<Longrightarrow> api_step b a a' \<Longrightarrow> arq_ok a'"
  using api_call_ok by (fastforce elim: api_step.cases)

interpretation api: invariant_system "api_start b" "\<lambda>a a'. \<not> asserts_enabled b \<and> api_step b a a'" arq_ok
  by unfold_locales (auto simp: api_start_def intro: arq_init_ok(1) api_step_ok)

section \<open>What polls leave alone\<close>

lemma recv_poll_no_hdr:
  "arq__recv_poll b rw rf checksum None rh dt t = Some (e, rw', rf', sh, rh') \<Longrightarrow> sh = None \<and> \<not> e"
  by (auto simp: arq__recv_poll_def bind_Some_iff)

lemma send_poll_no_hdr:
  "arq__send_poll sw sp None rh dt rtx = Some (e, sw', sp', sh) \<Longrightarrow> sh = None \<and> \<not> e"
  by (auto simp: arq__send_poll_def bind_Some_iff)

lemma conn_poll_no_hdr:
  assumes "arq__conn_poll b c None rh dt cfg = Some (e, c', sh, ev)"
  shows "sh = None"
  using conn_poll_unflagged [OF assms] by (simp add: unflagged_def)

lemma backend_poll_pending:
  assumes "backend_poll b a dt = Some (out, a')" "poll_hdr (a_send_frame a) = None"
  shows "a_send_frame a' = a_send_frame a"
  using assms unfolding backend_poll_def poll_hdr_def [symmetric]
  by (auto simp: bind_Some_iff Let_def dest!: recv_poll_no_hdr send_poll_no_hdr conn_poll_no_hdr)

lemma backend_poll_need: "backend_poll b a dt = Some (out, a') \<Longrightarrow> \<not> a_need_poll a'"
  by (auto simp: backend_poll_def bind_Some_iff Let_def)

lemmas api_call_defs = arq_reset_def arq_connect_def arq_send_def arq_recv_def arq_flush_def
  arq_backend_poll_def arq_backend_send_ptr_get_def arq_backend_send_ptr_release_def arq_backend_recv_fill_def

section \<open>An example\<close>

text \<open>An object in the memory of the example configuration, before and after its setup.\<close>

definition demo_mem :: arq_t where
  "demo_mem = \<lparr>a_cfg = demo_cfg,
     a_send_wnd = \<lparr>s_w = demo_wnd, s_rtx = [1, 2], s_tiny = 3, s_tiny_on = True\<rparr>,
     a_send_wnd_ptr = \<lparr>p_seq = 9, p_seg = 9, p_valid = True\<rparr>,
     a_send_frame = \<lparr>sf_buf = replicate 20 7, sf_state = ARQ__SEND_FRAME_STATE_HELD, sf_cap = 0, sf_len = 5\<rparr>,
     a_recv_wnd = demo_recv_wnd\<lparr>r_ack := [True, True], r_slide := 8\<rparr>,
     a_recv_frame = \<lparr>rf_buf = replicate 20 7, rf_state = ARQ__RECV_FRAME_STATE_ACCUMULATING, rf_cap = 0, rf_len = 3\<rparr>,
     a_need_poll = True,
     a_conn = \<lparr>cn_state = ARQ_CONN_STATE_RST_SENT, cn_u = U_rst_recvd \<lparr>rr_cnt = 0, rr_tmr = 0, rr_sent_rst_ack = False\<rparr>\<rparr>\<rparr>"

text \<open>A build for release: little-endian, with connections and without assertions.\<close>

definition release_build :: build where
  "release_build = \<lparr>little_endian = True, asserts_enabled = False, use_connections = True\<rparr>"

definition demo_arq :: arq_t where
  "demo_arq = the (snd (the (arq_init release_build demo_abi (Some demo_cfg) 4096 300 demo_mem True)))"

lemma demo_cfg_sound: "cfg_sound demo_cfg"
  using demo_cfg_ok(1) by (simp add: cfg_sound_def cfg_ranges_def geometry_ok_def demo_cfg_def)

lemma demo_arrays_fit: "arrays_fit demo_cfg demo_mem"
  by (simp add: arrays_fit_def demo_mem_def demo_cfg_def demo_wnd_def demo_recv_wnd_def)

lemma demo_init: "arq_init release_build demo_abi (Some demo_cfg) 4096 300 demo_mem True = Some (ARQ_OK_COMPLETED, Some demo_arq)"
proof -
  have "map_option fst (arq_init release_build demo_abi (Some demo_cfg) 4096 300 demo_mem True) = Some ARQ_OK_COMPLETED"
    "map_option (\<lambda>x. snd x = None) (arq_init release_build demo_abi (Some demo_cfg) 4096 300 demo_mem True) = Some False"
    by code_simp+
  then show ?thesis unfolding demo_arq_def by (auto split: option.splits)
qed

lemma demo_arq_start: "api_start release_build demo_arq"
  unfolding api_start_def using demo_cfg_sound demo_arrays_fit demo_init by blast

definition demo_held :: arq_t where
  "demo_held = demo_mem\<lparr>a_need_poll := False\<rparr>"

text \<open>The two steps of a caller: ask for the size, and initialize in a seat of at least that size.\<close>

lemma init_in_seat:
  assumes "cfg_sound c" "abi_ok abi" "required_bytes abi c < 2 ^ 32" "arrays_fit c mem" "0 < seat"
  shows "arq_required_size b abi (Some c) True = Some (ARQ_OK_COMPLETED, Some (required_bytes abi c)) \<and>
    (\<forall>sz < 2 ^ 32. required_bytes abi c \<le> sz \<longrightarrow>
      (\<exists>a. arq_init b abi (Some c) seat sz mem True = Some (ARQ_OK_COMPLETED, Some a) \<and> arq_ok a \<and>
        arq_blank b a \<and> a_cfg a = c \<and> (\<exists>a1. arq__init b (mem\<lparr>a_cfg := c\<rparr>) = Some a1 \<and> arq__rst b a1 = Some a)))"
proof -
  have chk: "arq__check_cfg c = ARQ_OK_COMPLETED" and sl: "segment_length_in_bytes c \<le> 256"
    using assms(1) by (simp_all add: cfg_sound_def geometry_ok_def)
  have size: "arq_required_size b abi (Some c) True = Some (ARQ_OK_COMPLETED, Some (required_bytes abi c))"
    using arq__alloc_fits [OF assms(2) chk sl, of "2 ^ 32 - 1" b 0] assms(3)
    by (auto simp: arq_required_size_def chk ARQ_SUCCEEDED_iff)
  obtain a1 a2 where i: "arq__init b (mem\<lparr>a_cfg := c\<rparr>) = Some a1" "arq__rst b a1 = Some a2" "arq_ok a2"
    "arq_blank b a2" "a_cfg a2 = c"
    using init_total [OF assms(1,4)] by blast
  have "arq_init b abi (Some c) seat sz mem True = Some (ARQ_OK_COMPLETED, Some a2)"
    if "sz < 2 ^ 32" "required_bytes abi c \<le> sz" for sz
    using arq__alloc_fits [OF assms(2) chk sl that(2,1), of b seat] assms(5) i(1,2)
    by (auto simp: arq_init_def chk ARQ_SUCCEEDED_iff)
  with size i show ?thesis by blast
qed

text \<open>The calls check their pointers: \<open>ARQ_ERR_INVALID_PARAM\<close> stands for a null pointer, and nothing has changed.\<close>

lemma null_pointers_rejected:
  "(\<exists>x. arq_reset b arq = Some (ARQ_ERR_INVALID_PARAM, x)) \<longleftrightarrow> arq = None"
  "fst (arq_connect b arq) = ARQ_ERR_INVALID_PARAM \<longleftrightarrow> arq = None"
  "(\<exists>x a'. arq_send arq data n out = Some (ARQ_ERR_INVALID_PARAM, x, a')) \<longleftrightarrow> arq = None \<or> data = None \<or> \<not> out"
  "(\<exists>x a'. arq_recv arq dst n out = Some (ARQ_ERR_INVALID_PARAM, x, a')) \<longleftrightarrow> arq = None \<or> \<not> dst \<or> \<not> out"
  "(\<exists>x. arq_flush arq = Some (ARQ_ERR_INVALID_PARAM, x)) \<longleftrightarrow> arq = None"
  "(\<exists>x a'. arq_backend_poll b arq dt o1 o2 o3 o4 = Some (ARQ_ERR_INVALID_PARAM, x, a')) \<longleftrightarrow>
     arq = None \<or> \<not> o1 \<or> \<not> o2 \<or> \<not> o3 \<or> \<not> o4"
  "fst (arq_backend_send_ptr_get arq o1 o2) = ARQ_ERR_INVALID_PARAM \<longleftrightarrow> arq = None \<or> \<not> o1 \<or> \<not> o2"
  "fst (arq_backend_send_ptr_release arq) = ARQ_ERR_INVALID_PARAM \<longleftrightarrow> arq = None"
  "(\<exists>x a'. arq_backend_recv_fill arq data n out = Some (ARQ_ERR_INVALID_PARAM, x, a')) \<longleftrightarrow> arq = None \<or> data = None \<or> \<not> out"
  by (auto simp: api_call_defs bind_Some_iff Let_def split: option.splits if_splits)

section \<open>Properties\<close>

text \<open>
  C36. No call faults: with assertions compiled out, whatever sequence of calls an object went through
  that \<open>arq_init\<close> made from a sound configuration (\<open>cfg_sound\<close>: accepted by \<open>arq__check_cfg\<close>, with windows
  and messages within the limits of the wire format) in memory with the arrays of the layout
  (\<open>arrays_fit\<close>), and whatever bytes the transport put into it, every further call with valid pointers
  and sizes of type \<open>unsigned\<close> returns without accessing memory out of bounds, dividing by zero or
  running forever, and leaves the object well formed. The one condition on the bytes is that a frame
  with the right checksum names a segment that can exist.
\<close>

theorem api_never_faults:
  assumes "\<not> asserts_enabled b" "reach (api_start b) (\<lambda>a a'. \<not> asserts_enabled b \<and> api_step b a a') a"
    and "call_allowed b a c"
  shows "\<exists>e a'. api_exec b a c = Some (e, Some a') \<and> arq_ok a'"
  by (rule api_call_ok [OF assms(1) api.reach_inv [OF assms(2)] assms(3)])

theorem api_never_faults_witness:
  "\<exists>e a'. api_exec release_build demo_arq (Call_send [1, 2, 3]) = Some (e, Some a') \<and> arq_ok a'"
proof -
  have "\<not> asserts_enabled release_build" "call_allowed release_build demo_arq (Call_send [1, 2, 3])"
    by (simp_all add: release_build_def)
  moreover have "reach (api_start release_build) (\<lambda>a a'. \<not> asserts_enabled release_build \<and> api_step release_build a a') demo_arq"
    by (rule reach_start) (rule demo_arq_start)
  ultimately show ?thesis using api_never_faults by blast
qed

text \<open>
  C37. The poll gate: after a frame was released or completed, sending and receiving are refused
  with \<open>ARQ_ERR_POLL_REQUIRED\<close> until the next poll, and they are refused for no other reason;
  \<open>need_poll\<close> is set and cleared by exactly these calls.
\<close>

theorem poll_gate:
  assumes "api_exec b a c = Some (e, Some a')"
  shows "(e = ARQ_ERR_POLL_REQUIRED \<longleftrightarrow> a_need_poll a \<and> ((\<exists>bs. c = Call_send bs) \<or> (\<exists>n. c = Call_recv n))) \<and>
    (a_need_poll a' \<longleftrightarrow>
      (case c of
         Call_reset \<Rightarrow> False
       | Call_poll dt \<Rightarrow> False
       | Call_send_ptr_release \<Rightarrow> a_need_poll a \<or> sf_state (a_send_frame a) = ARQ__SEND_FRAME_STATE_HELD
       | Call_recv_fill bs \<Rightarrow> a_need_poll a \<or> rf_full (a_recv_frame a')
       | _ \<Rightarrow> a_need_poll a))"
  using assms
  by (cases c) (auto simp: api_call_defs arq__rst_def bind_Some_iff Let_def split: if_splits dest: backend_poll_need)

theorem poll_gate_witness:
  "\<exists>a'. api_exec release_build demo_held Call_send_ptr_release = Some (ARQ_OK_POLL_REQUIRED, Some a') \<and> a_need_poll a'"
proof -
  have "sf_state (a_send_frame demo_held) = ARQ__SEND_FRAME_STATE_HELD"
    "\<exists>a'. api_exec release_build demo_held Call_send_ptr_release = Some (ARQ_OK_POLL_REQUIRED, Some a')"
    by (simp_all add: demo_held_def demo_mem_def arq_backend_send_ptr_release_def)
  then show ?thesis using poll_gate by fastforce
qed

text \<open>
  C38. The errors of the calls, made with valid pointers, and when they occur. \<open>arq_connect\<close> reports
  \<open>ARQ_ERR_NOT_DISCONNECTED\<close> exactly if the build has connections and the connection is not closed,
  \<open>arq_backend_send_ptr_release\<close> reports \<open>ARQ_ERR_SEND_PTR_NOT_HELD\<close> exactly if the frame is not held,
  \<open>arq_send\<close> and \<open>arq_recv\<close> report \<open>ARQ_ERR_POLL_REQUIRED\<close> exactly if a poll is due, and there is no other
  error. A call that reports one has changed nothing.
\<close>

theorem failed_call_changes_nothing:
  assumes "api_exec b a c = Some (e, Some a')"
  shows "(e = ARQ_ERR_NOT_DISCONNECTED \<longleftrightarrow>
      c = Call_connect \<and> use_connections b \<and> cn_state (a_conn a) \<noteq> ARQ_CONN_STATE_CLOSED) \<and>
    (e = ARQ_ERR_SEND_PTR_NOT_HELD \<longleftrightarrow>
      c = Call_send_ptr_release \<and> sf_state (a_send_frame a) \<noteq> ARQ__SEND_FRAME_STATE_HELD) \<and>
    (e = ARQ_ERR_POLL_REQUIRED \<longleftrightarrow> ((\<exists>bs. c = Call_send bs) \<or> (\<exists>n. c = Call_recv n)) \<and> a_need_poll a) \<and>
    (\<not> ARQ_SUCCEEDED e \<longleftrightarrow> e \<in> {ARQ_ERR_NOT_DISCONNECTED, ARQ_ERR_SEND_PTR_NOT_HELD, ARQ_ERR_POLL_REQUIRED}) \<and>
    (\<not> ARQ_SUCCEEDED e \<longrightarrow> a' = a)"
  using assms
  by (cases c) (auto simp: api_call_defs ARQ_SUCCEEDED_iff bind_Some_iff Let_def split: if_splits)

theorem failed_call_changes_nothing_witness:
  "\<exists>a'. api_exec release_build demo_mem (Call_recv 4) = Some (ARQ_ERR_POLL_REQUIRED, Some a') \<and> a' = demo_mem"
proof -
  have "\<exists>a'. api_exec release_build demo_mem (Call_recv 4) = Some (ARQ_ERR_POLL_REQUIRED, Some a')"
    by (simp add: demo_mem_def arq_recv_def)
  then show ?thesis using failed_call_changes_nothing by fastforce
qed

text \<open>
  C39. A frame handed to the transport stays as it is: while the send frame holds bytes, no call
  but the release and a reset changes them, so that the pointer \<open>arq_backend_send_ptr_get\<close>
  returned stays good; and a frame that is held stays held.
\<close>

theorem pending_frame_untouched:
  assumes "api_exec b a c = Some (e, Some a')" "sf_len (a_send_frame a) \<noteq> 0"
    and "c \<noteq> Call_reset" "c \<noteq> Call_send_ptr_release"
  shows "sf_buf (a_send_frame a') = sf_buf (a_send_frame a) \<and> sf_len (a_send_frame a') = sf_len (a_send_frame a) \<and>
    (sf_state (a_send_frame a) = ARQ__SEND_FRAME_STATE_HELD \<longrightarrow>
       sf_state (a_send_frame a') = ARQ__SEND_FRAME_STATE_HELD)"
proof -
  have "poll_hdr (a_send_frame a) = None" using assms(2) by (simp add: poll_hdr_def)
  note poll = backend_poll_pending [OF _ this]
  show ?thesis
    using assms
    by (cases c) (auto simp: api_call_defs bind_Some_iff Let_def split: if_splits dest: poll)
qed

theorem pending_frame_untouched_witness:
  "\<exists>e a'. api_exec release_build demo_held Call_flush = Some (e, Some a') \<and>
    sf_buf (a_send_frame a') = replicate 20 7 \<and> sf_state (a_send_frame a') = ARQ__SEND_FRAME_STATE_HELD"
proof -
  have f: "sf_len (a_send_frame demo_held) \<noteq> 0" "sf_buf (a_send_frame demo_held) = replicate 20 7"
    "sf_state (a_send_frame demo_held) = ARQ__SEND_FRAME_STATE_HELD"
    by (simp_all add: demo_held_def demo_mem_def)
  have "\<exists>e a'. api_exec release_build demo_held Call_flush = Some (e, Some a')"
    by (simp add: demo_held_def demo_mem_def arq_flush_def arq__send_wnd_flush_def demo_wnd_def)
  then show ?thesis using pending_frame_untouched [OF _ f(1), of release_build Call_flush] f(2,3) by fastforce
qed

text \<open>
  C40. Setup succeeds: for a sound configuration \<open>arq_required_size\<close> reports the bytes of the
  layout, and a seat of at least that size makes \<open>arq_init\<close> return a well-formed object that
  holds no data, whatever the memory held before; without assertions a smaller seat is refused.
\<close>

theorem required_size_suffices:
  assumes "cfg_sound c" "abi_ok abi" "required_bytes abi c < 2 ^ 32" "arrays_fit c mem" "0 < seat"
  shows "arq_required_size b abi (Some c) True = Some (ARQ_OK_COMPLETED, Some (required_bytes abi c)) \<and>
    (\<forall>sz < 2 ^ 32. required_bytes abi c \<le> sz \<longrightarrow>
      (\<exists>a. arq_init b abi (Some c) seat sz mem True = Some (ARQ_OK_COMPLETED, Some a) \<and> arq_ok a \<and>
        arq_blank b a \<and> a_cfg a = c))"
  using init_in_seat [OF assms] by blast

theorem required_size_suffices_witness:
  "\<exists>a. arq_required_size release_build demo_abi (Some demo_cfg) True = Some (ARQ_OK_COMPLETED, Some 290) \<and>
    arq_init release_build demo_abi (Some demo_cfg) 4096 290 demo_mem True = Some (ARQ_OK_COMPLETED, Some a) \<and>
    arq_blank release_build a"
proof -
  have "required_bytes demo_abi demo_cfg < 2 ^ 32" "(0 :: nat) < 4096" by (simp_all add: demo_required_bytes)
  note run = required_size_suffices [OF demo_cfg_sound demo_abi_ok this(1) demo_arrays_fit this(2),
      of release_build, unfolded demo_required_bytes]
  have "(290 :: nat) < 2 ^ 32" "(290 :: nat) \<le> 290" by simp_all
  with run show ?thesis by blast
qed

end
