(* ===== verification/Arq_Arrived.thy ===== *)
theory Arq_Arrived imports Arq_Calls begin

text \<open>
  The receive window, seen as the set of segments that have arrived: what \<open>arq__recv_wnd_frame\<close> and
  \<open>arq__recv_wnd_recv\<close> of \<open>src/arq.h\<close> do to this set, for the arguments about two parties.
\<close>

section \<open>What has arrived\<close>

text \<open>
  The segments that have arrived at the receiver, by absolute message number: all of the messages
  the user has read, and those marked in the window.
\<close>

definition arrived :: "(nat \<Rightarrow> byte list) \<Rightarrow> nat \<Rightarrow> arq__recv_wnd_t \<Rightarrow> (nat \<times> nat) set" where
  "arrived msgs base rw = {(a, s). s < seg_count (r_w rw) (length (msgs a)) \<and>
     (a < base + r_slide rw \<or> a < base + r_slide rw + w_cap (r_w rw) \<and> has_seg rw a s)}"

lemma arrivedI:
  "s < seg_count (r_w rw) (length (msgs a)) \<Longrightarrow> a < base + r_slide rw + w_cap (r_w rw) \<Longrightarrow> has_seg rw a s \<Longrightarrow>
   (a, s) \<in> arrived msgs base rw"
  by (simp add: arrived_def)

lemma arrived_ack: "arrived msgs base (rw\<lparr>r_ack := a\<rparr>) = arrived msgs base rw"
  by (simp add: arrived_def has_seg_def)

lemma arrived_ofs: "arrived msgs base (rw\<lparr>r_copy_ofs := x\<rparr>) = arrived msgs base rw"
  by (simp add: arrived_def has_seg_def)

lemma seg_count_cong: "w_seg_len w = w_seg_len w' \<Longrightarrow> seg_count w n = seg_count w' n"
  by (simp add: seg_count_def)

lemma has_seg_bound:
  assumes h: "recv_holds msgs base rw" and a: "base + r_slide rw \<le> a" "a < base + r_slide rw + w_cap (r_w rw)"
    and s: "has_seg rw a s"
  shows "s < seg_count (r_w rw) (length (msgs a))" "a < base + w_size (r_w rw)"
proof -
  let ?i = "a - base" let ?w = "r_w rw"
  note hd = recv_holdsD [OF h]
  have wok: "wnd_ok ?w" by (rule recv_wnd_okD(1) [OF hd(1)])
  have k: "slot ?w ?i = a mod w_cap ?w" using a by (simp add: holds_slot [OF h])
  have bit: "bit (m_cur_ack_vec (msg_at ?w ?i)) s" using s by (simp add: has_seg_def k)
  have "\<not> empty_msg (msg_at ?w ?i)" using bit by (auto simp: empty_msg_def)
  moreover have "?i < w_cap ?w \<or> \<not> ?i < w_cap ?w" by blast
  ultimately have i: "?i < w_cap ?w \<and> r_slide rw \<le> ?i \<and> ?i < w_size ?w"
  proof (elim disjE)
    assume "\<not> empty_msg (msg_at ?w ?i)" "?i < w_cap ?w"
    then show ?thesis using hd(8) by blast
  next
    assume ne: "\<not> empty_msg (msg_at ?w ?i)" and ge: "\<not> ?i < w_cap ?w"
    let ?j = "?i - w_cap ?w"
    have "?j < r_slide rw" "?j < w_cap ?w" using a ge hd(4) wnd_okD(12) [OF wok] by auto
    then have "empty_msg (msg_at ?w ?j)" using hd(8) by simp
    moreover have "slot ?w ?i = slot ?w ?j"
    proof -
      have "w_seq ?w + ?i = (w_seq ?w + ?j) + w_cap ?w" using ge by linarith
      then show ?thesis unfolding slot_def by (simp only: mod_add_self2)
    qed
    ultimately show ?thesis using ne by simp
  qed
  then show "a < base + w_size ?w" using a by linarith
  have "partial ?w (slot ?w ?i) (msgs (base + ?i))" using hd(7) i by blast
  then have "m_cur_ack_vec (msg_at ?w ?i) < 2 ^ seg_count ?w (length (msgs a))"
    using a by (simp add: partial_def Let_def)
  then show "s < seg_count ?w (length (msgs a))" using bit_nat_less [OF bit] by blast
qed

lemma mod_cap_eq:
  fixes a c n :: nat
  assumes "c < a" "a < c + n"
  shows "a mod n \<noteq> c mod n"
proof -
  have "0 < a - c" "a - c < 0 + n" using assms by linarith+
  then have "(c + 0) mod n \<noteq> (c + (a - c)) mod n" by (rule mod_add_neq)
  then show ?thesis using assms(1) by simp
qed

text \<open>Reading a message keeps what has arrived: the message read was complete.\<close>

lemma arrived_advanced:
  assumes h: "recv_holds msgs base rw" and sl: "r_slide rw < w_size (r_w rw)"
    and c: "complete_msg (msg_at (r_w rw) (r_slide rw))"
  shows "arrived msgs base (advanced rw) = arrived msgs base rw"
proof -
  let ?w = "r_w rw" let ?c = "base + r_slide rw"
  note hd = recv_holdsD [OF h]
  have wok: "wnd_ok ?w" by (rule recv_wnd_okD(1) [OF hd(1)])
  note wd = wnd_okD [OF wok]
  have sc: "r_slide rw < w_cap ?w" using sl wd(12) by simp
  have sg: "seg_count (r_w (advanced rw)) n = seg_count ?w n" for n
    by (rule seg_count_cong) (simp add: advanced_fields)
  have k: "slot ?w (r_slide rw) = ?c mod w_cap ?w" by (rule holds_slot [OF h])
  have msg: "w_msg (r_w (advanced rw)) ! j = (if j = ?c mod w_cap ?w then fresh_msg ?w else w_msg ?w ! j)"
    if "j < w_cap ?w" for j
    using that wd(9) by (simp add: advanced_def k)
  have all: "has_seg rw ?c s" if "s < seg_count ?w (length (msgs ?c))" for s
    using complete_all_marked [OF hd(7) [OF sc order.refl sl] c that] by (simp add: has_seg_def k)
  have other: "has_seg (advanced rw) a s = has_seg rw a s" if "?c < a" "a < ?c + w_cap ?w" for a s
    using mod_cap_eq [OF that] msg [of "a mod w_cap ?w"] wd(1) by (simp add: has_seg_def advanced_fields)
  have last: "\<not> has_seg (advanced rw) (?c + w_cap ?w) s" for s
    using msg [of "?c mod w_cap ?w"] wd(1) by (simp add: has_seg_def advanced_fields fresh_msg_def)
  have "(a, s) \<in> arrived msgs base (advanced rw) \<longleftrightarrow> (a, s) \<in> arrived msgs base rw" for a s
  proof -
    consider "a < ?c" | "a = ?c" | "?c < a \<and> a < ?c + w_cap ?w" | "a = ?c + w_cap ?w" | "?c + w_cap ?w < a" by linarith
    then show ?thesis
      using all other last wd(1) by cases (auto simp: arrived_def sg advanced_fields)
  qed
  then show ?thesis by auto
qed

lemma arrived_recv_loop:
  assumes "recv_holds msgs base rw" "b0 + i + n < 2 ^ 32"
    and "(b0 + i) mod w_cap (r_w rw) = slot (r_w rw) (r_slide rw)" "dst_max < 2 ^ 32"
    and "recv_wnd_recv_loop n b0 i dst_max rw out = Some (bs, rw')"
  shows "arrived msgs base rw' = arrived msgs base rw \<and> w_seg_len (r_w rw') = w_seg_len (r_w rw) \<and>
    w_msg_len (r_w rw') = w_msg_len (r_w rw)"
  using assms
proof (induction n arbitrary: i rw dst_max out)
  case (Suc n)
  note h = Suc.prems(1)
  show ?case
  proof (cases "dst_max = 0 \<or> \<not> (r_slide rw < w_size (r_w rw) \<and> complete_msg (msg_at (r_w rw) (r_slide rw)))")
    case True
    then have "recv_wnd_recv_loop (Suc n) b0 i dst_max rw out = Some (out, rw)"
    proof
      assume "dst_max = 0"
      then show ?thesis by simp
    next
      assume "\<not> (r_slide rw < w_size (r_w rw) \<and> complete_msg (msg_at (r_w rw) (r_slide rw)))"
      then show ?thesis by (intro recv_loop_stop [OF h _ _ Suc.prems(3)]) (use Suc.prems(2) in simp_all)
    qed
    then show ?thesis using Suc.prems(5) by simp
  next
    case False
    let ?M = "drop (r_copy_ofs rw) (msgs (base + r_slide rw))"
    have step: "recv_wnd_recv_loop (Suc n) b0 i dst_max rw out =
        (if dst_max < length ?M then Some (out @ take dst_max ?M, rw\<lparr>r_copy_ofs := r_copy_ofs rw + dst_max\<rparr>)
         else recv_wnd_recv_loop n b0 (Suc i) (dst_max - length ?M) (advanced rw) (out @ ?M))"
      by (rule recv_loop_message [OF h _ Suc.prems(3)]) (use False Suc.prems in auto)
    have adv: "arrived msgs base (advanced rw) = arrived msgs base rw" "recv_holds msgs base (advanced rw)"
      using False arrived_advanced [OF h] advanced_holds [OF h] by blast+
    show ?thesis
    proof (cases "dst_max < length ?M")
      case True
      then have "rw' = rw\<lparr>r_copy_ofs := r_copy_ofs rw + dst_max\<rparr>" using Suc.prems(5) unfolding step by simp
      then show ?thesis by (simp only: arrived_ofs) simp
    next
      case whole: False
      have "(b0 + Suc i) mod w_cap (r_w (advanced rw)) = slot (r_w (advanced rw)) (r_slide (advanced rw))"
        using Suc.prems(3) unfolding slot_advanced advanced_fields by (simp add: slot_def) (metis mod_Suc_eq)
      then have "arrived msgs base rw' = arrived msgs base (advanced rw) \<and>
          w_seg_len (r_w rw') = w_seg_len (r_w (advanced rw)) \<and> w_msg_len (r_w rw') = w_msg_len (r_w (advanced rw))"
        using Suc.prems whole unfolding step by (intro Suc.IH [OF adv(2)]) auto
      then show ?thesis using adv(1) by (simp add: advanced_fields)
    qed
  qed
qed simp

lemma arrived_recv:
  assumes h: "recv_holds msgs base rw" and "dst_max < 2 ^ 32" "arq__recv_wnd_recv rw dst_max = Some (bs, rw')"
  shows "arrived msgs base rw' = arrived msgs base rw" "w_seg_len (r_w rw') = w_seg_len (r_w rw)"
    "w_msg_len (r_w rw') = w_msg_len (r_w rw)"
proof -
  note hd = recv_holdsD [OF h]
  note wd = wnd_okD [OF recv_wnd_okD(1) [OF hd(1)]]
  have "r_copy_seq rw mod w_cap (r_w rw) = slot (r_w rw) (r_slide rw)"
    using wd(2) by (simp add: hd(5) holds_slot [OF h] mod_seq_mod_cap)
  moreover have "r_copy_seq rw + 0 + w_size (r_w rw) < 2 ^ 32"
    using recv_wnd_okD(4) [OF hd(1)] wd(3,12) by simp
  ultimately have "arrived msgs base rw' = arrived msgs base rw \<and> w_seg_len (r_w rw') = w_seg_len (r_w rw) \<and>
    w_msg_len (r_w rw') = w_msg_len (r_w rw)"
    using arrived_recv_loop [OF h _ _ assms(2), of "r_copy_seq rw" 0 "w_size (r_w rw)" "[]" bs rw'] assms(3)
    by (simp add: arq__recv_wnd_recv_def)
  then show "arrived msgs base rw' = arrived msgs base rw" "w_seg_len (r_w rw') = w_seg_len (r_w rw)"
    "w_msg_len (r_w rw') = w_msg_len (r_w rw)" by blast+
qed

text \<open>A segment that arrives is added, and nothing else.\<close>

lemma arrived_frame:
  fixes s :: nat
  assumes h: "recv_holds msgs base rw" and d: "base + r_slide rw \<le> a" "a < base + r_slide rw + w_cap (r_w rw)"
  defines "n \<equiv> seg_count (r_w rw) (length (msgs a))"
  defines "p \<equiv> msg_seg (w_seg_len (r_w rw)) (msgs a) s"
  assumes s: "s < n" and t: "t < 2 ^ 32"
  shows "\<exists>k rw' base'. arq__recv_wnd_frame b rw (a mod 4096) s n p (length p) t = Some (k, rw') \<and>
    recv_holds msgs base' rw' \<and> base' + r_slide rw' = base + r_slide rw \<and> r_copy_ofs rw' = r_copy_ofs rw \<and>
    w_cap (r_w rw') = w_cap (r_w rw) \<and> w_seg_len (r_w rw') = w_seg_len (r_w rw) \<and> w_msg_len (r_w rw') = w_msg_len (r_w rw) \<and>
    arrived msgs base' rw' = insert (a, s) (arrived msgs base rw)"
proof -
  have a: "base + (a - base) = a" using d by simp
  have dd: "r_slide rw \<le> a - base" "a - base < w_cap (r_w rw) + r_slide rw" using d by auto
  from recv_frame_holds [OF h dd _ t, of s b] s
  obtain k rw' base' where r: "arq__recv_wnd_frame b rw (a mod 4096) s n p (length p) t = Some (k, rw')"
    "recv_holds msgs base' rw'" "base' + r_slide rw' = base + r_slide rw" "r_copy_ofs rw' = r_copy_ofs rw"
    "w_cap (r_w rw') = w_cap (r_w rw)" "w_seg_len (r_w rw') = w_seg_len (r_w rw)" "w_msg_len (r_w rw') = w_msg_len (r_w rw)"
    "\<forall>c s'. base + r_slide rw \<le> c \<and> c < base + r_slide rw + w_cap (r_w rw) \<longrightarrow>
       has_seg rw' c s' = (has_seg rw c s' \<or> c = a \<and> s' = s)"
    unfolding a n_def p_def by blast
  have sg: "seg_count (r_w rw') m = seg_count (r_w rw) m" for m using r(6) by (rule seg_count_cong)
  have "(c, s') \<in> arrived msgs base' rw' \<longleftrightarrow> (c, s') \<in> insert (a, s) (arrived msgs base rw)" for c s'
    using r(3,5,8) d s by (cases "c < base + r_slide rw"; cases "c < base + r_slide rw + w_cap (r_w rw)")
      (auto simp: arrived_def sg n_def)
  then have "arrived msgs base' rw' = insert (a, s) (arrived msgs base rw)" by auto
  then show ?thesis using r by blast
qed

end
