(* ===== verification/Arq_Receiver.thy ===== *)
theory Arq_Receiver imports Arq_Arrived begin

text \<open>
  The receive window of \<open>src/arq.h\<close> over time: whatever segments of the peer's messages the network
  delivers, in whatever order and however often, none of them is kept away from the window. What the
  window does with a segment it has no place for is recorded, and what the user reads is stated for
  every run in which this has not happened.
\<close>

section \<open>Segments the window has no place for\<close>

text \<open>
  The window has a place for the messages from the read position on. A segment of another message is
  refused, or \<open>arq__recv_wnd_frame\<close> takes it, by its sequence number, for a segment of another
  message: then the window misreads it.
\<close>

record receiver =
  rc_base :: nat
  rc_wnd :: arq__recv_wnd_t
  rc_out :: "byte list"
  rc_misread :: bool

definition wanted :: "receiver \<Rightarrow> nat \<Rightarrow> bool" where
  "wanted r a \<longleftrightarrow> rc_base r + r_slide (rc_wnd r) \<le> a \<and> a < rc_base r + r_slide (rc_wnd r) + w_cap (r_w (rc_wnd r))"

definition misread :: "receiver \<Rightarrow> nat \<Rightarrow> bool" where
  "misread r a \<longleftrightarrow> \<not> wanted r a \<and> recv_wnd_make_room (rc_wnd r) (a mod 4096) \<noteq> None"

text \<open>
  Which messages these are: the message just before the window, those that were read and that the window
  has not slid past, and messages about 4096 behind or ahead.
\<close>

lemma misread_range:
  assumes h: "recv_holds msgs (rc_base r) (rc_wnd r)" and m: "misread r a"
  shows "rc_base r \<le> a + 1 \<and> a < rc_base r + r_slide (rc_wnd r) \<or>
    a + 4096 < rc_base r + r_slide (rc_wnd r) + w_cap (r_w (rc_wnd r)) \<or> rc_base r + 4095 \<le> a"
proof (rule ccontr)
  let ?rw = "rc_wnd r" let ?w = "r_w ?rw"
  assume no: "\<not> ?thesis"
  note ok = recv_holdsD(1) [OF h]
  define d where "d = (if rc_base r \<le> a then a - rc_base r else a + 4096 - rc_base r)"
  have far: "\<not> wanted r a" "recv_wnd_make_room ?rw (a mod 4096) \<noteq> None" using m by (simp_all add: misread_def)
  have "(rc_base r + d) mod 4096 = a mod 4096"
  proof (cases "rc_base r \<le> a")
    case True
    then show ?thesis by (simp add: d_def)
  next
    case False
    then have "rc_base r + d = a + 4096" using no by (simp add: d_def)
    then show ?thesis by simp
  qed
  moreover have d: "d + 1 < 4096" "w_cap ?w + r_slide ?rw < d + 1"
    using no far(1) by (auto simp: d_def wanted_def)
  ultimately have "frame_size ?w (a mod 4096) = d + 1" using frame_size_holds [OF h d(1)] by simp
  then show False
    using recv_wnd_make_room_eq [OF ok, of "a mod 4096"] d(2) far(2) by (auto split: if_splits)
qed

section \<open>The receiving endpoint\<close>

text \<open>
  Its window, the ghost number of the window's first message, the bytes the user has read, and whether
  the window has ever misread a segment. A segment of any message may arrive at any time.
\<close>

inductive receiver_step :: "build \<Rightarrow> (nat \<Rightarrow> byte list) \<Rightarrow> receiver \<Rightarrow> receiver \<Rightarrow> bool"
  for b :: build and msgs :: "nat \<Rightarrow> byte list" where
  arrive: "t < 2 ^ 32 \<Longrightarrow> n = seg_count (r_w (rc_wnd r)) (length (msgs a)) \<Longrightarrow> s < n \<Longrightarrow>
    p = msg_seg (w_seg_len (r_w (rc_wnd r))) (msgs a) s \<Longrightarrow>
    arq__recv_wnd_frame b (rc_wnd r) (a mod 4096) s n p (length p) t = Some (k, rw') \<Longrightarrow>
    receiver_step b msgs r (r\<lparr>rc_base := rc_base r + r_slide (rc_wnd r) - r_slide rw', rc_wnd := rw',
      rc_misread := rc_misread r \<or> misread r a\<rparr>)"
| read: "dst_max < 2 ^ 32 \<Longrightarrow> arq__recv_wnd_recv (rc_wnd r) dst_max = Some (bs, rw') \<Longrightarrow>
    receiver_step b msgs r (r\<lparr>rc_wnd := rw', rc_out := rc_out r @ bs\<rparr>)"
| acknowledge: "arq__recv_wnd_ack (rc_wnd r) = Some (a, rw') \<Longrightarrow>
    receiver_step b msgs r (r\<lparr>rc_wnd := rw'\<rparr>)"
| elapse: "recv_poll_timer (rc_wnd r) dt = Some rw' \<Longrightarrow> receiver_step b msgs r (r\<lparr>rc_wnd := rw'\<rparr>)"

definition receiver_start :: "(nat \<Rightarrow> byte list) \<Rightarrow> receiver \<Rightarrow> bool" where
  "receiver_start msgs r \<longleftrightarrow> rc_base r = 0 \<and> rc_out r = [] \<and> \<not> rc_misread r \<and> 2 * w_cap (r_w (rc_wnd r)) < 4096 \<and>
     (\<forall>a. msg_fits (r_w (rc_wnd r)) (msgs a)) \<and>
     (\<exists>rw. wnd_ok (r_w rw) \<and> length (r_ack rw) = w_cap (r_w rw) \<and> arq__recv_wnd_rst rw = Some (rc_wnd r))"

text \<open>What holds as long as nothing was misread, and what holds always.\<close>

definition receiver_inv :: "(nat \<Rightarrow> byte list) \<Rightarrow> receiver \<Rightarrow> bool" where
  "receiver_inv msgs r \<longleftrightarrow> recv_holds msgs (rc_base r) (rc_wnd r) \<and>
     rc_out r = read_upto msgs (rc_base r) (rc_wnd r)"

definition receiver_safe :: "(nat \<Rightarrow> byte list) \<Rightarrow> arq__recv_wnd_t \<Rightarrow> bool" where
  "receiver_safe msgs rw \<longleftrightarrow> recv_wnd_ok rw \<and> (\<forall>a. msg_fits (r_w rw) (msgs a))"

lemma receiver_safe_frame:
  assumes safe: "receiver_safe msgs rw" and s: "s < seg_count (r_w rw) (length (msgs a))" and t: "t < 2 ^ 32"
  shows "\<exists>k rw'. arq__recv_wnd_frame b rw (a mod 4096) s (seg_count (r_w rw) (length (msgs a)))
      (msg_seg (w_seg_len (r_w rw)) (msgs a) s) (length (msg_seg (w_seg_len (r_w rw)) (msgs a) s)) t = Some (k, rw') \<and>
    receiver_safe msgs rw'"
proof -
  have ok: "recv_wnd_ok rw" and fits: "\<And>a. msg_fits (r_w rw) (msgs a)" using safe by (simp_all add: receiver_safe_def)
  note n = fits_seg_count [OF recv_wnd_okD(1) [OF ok] fits, of a]
  have "s < segs (r_w rw)" using s n(2) by simp
  moreover have "length (msg_seg (w_seg_len (r_w rw)) (msgs a) s) \<le> w_seg_len (r_w rw)" by (simp add: length_msg_seg)
  moreover have "a mod 4096 < 4096" by simp
  ultimately obtain k rw' where "arq__recv_wnd_frame b rw (a mod 4096) s (seg_count (r_w rw) (length (msgs a)))
      (msg_seg (w_seg_len (r_w rw)) (msgs a) s) (length (msg_seg (w_seg_len (r_w rw)) (msgs a) s)) t = Some (k, rw')"
    "recv_wnd_ok rw'" "w_msg_len (r_w rw') = w_msg_len (r_w rw)"
    using recv_wnd_frame_total [OF ok, of "a mod 4096" s] n(1,3) t by blast
  then show ?thesis using fits by (simp add: receiver_safe_def msg_fits_def)
qed

lemma receiver_safe_recv:
  assumes safe: "receiver_safe msgs rw" and "dst_max < 2 ^ 32"
  shows "\<exists>bs rw'. arq__recv_wnd_recv rw dst_max = Some (bs, rw') \<and> receiver_safe msgs rw'"
proof -
  have "recv_wnd_ok rw" using safe by (simp add: receiver_safe_def)
  from recv_wnd_recv_total [OF this assms(2)] show ?thesis
    using safe by (auto simp: receiver_safe_def msg_fits_def)
qed

lemma receiver_safe_ack:
  assumes safe: "receiver_safe msgs rw"
  shows "\<exists>a rw'. arq__recv_wnd_ack rw = Some (a, rw') \<and> receiver_safe msgs rw'"
proof -
  have ok: "recv_wnd_ok rw" using safe by (simp add: receiver_safe_def)
  obtain a rw' where r: "arq__recv_wnd_ack rw = Some (a, rw')"
    using recv_wnd_ack_eq [OF ok] by (auto split: option.splits)
  from recv_wnd_ack_flags [OF ok r] show ?thesis
    using r safe by (auto simp: receiver_safe_def recv_wnd_ok_ack)
qed

text \<open>The inter-segment timer touches flags only.\<close>

lemma timer_ran_fields:
  "r_slide (timer_ran rw dt) = r_slide rw" "r_copy_seq (timer_ran rw dt) = r_copy_seq rw"
  "r_copy_ofs (timer_ran rw dt) = r_copy_ofs rw" "r_w (timer_ran rw dt) = r_w rw"
  by (simp_all add: timer_ran_def)

lemma timer_holds:
  assumes h: "recv_holds msgs base rw" and run: "recv_poll_timer rw dt = Some rw'"
  shows "rw' = timer_ran rw dt" "recv_holds msgs base rw'" "read_upto msgs base rw' = read_upto msgs base rw"
    "arrived msgs base rw' = arrived msgs base rw"
proof -
  note t = recv_poll_timer_eq [OF recv_holdsD(1) [OF h], of dt]
  show e: "rw' = timer_ran rw dt" using t(1) run by simp
  show "recv_holds msgs base rw'"
    using h t(2) unfolding recv_holds_def e timer_ran_fields by blast
  show "read_upto msgs base rw' = read_upto msgs base rw" by (simp add: e read_upto_def timer_ran_fields)
  show "arrived msgs base rw' = arrived msgs base rw" by (simp add: e arrived_def has_seg_def timer_ran_fields)
qed

lemma receiver_safe_timer:
  assumes safe: "receiver_safe msgs rw"
  shows "\<exists>rw'. recv_poll_timer rw dt = Some rw' \<and> receiver_safe msgs rw'"
proof -
  have "recv_wnd_ok rw" using safe by (simp add: receiver_safe_def)
  from recv_poll_timer_eq [OF this, of dt] show ?thesis using safe by (simp add: receiver_safe_def)
qed

text \<open>A segment that is neither wanted nor misread changes nothing.\<close>

lemma refused_frame:
  assumes safe: "receiver_safe msgs (rc_wnd r)" and a: "\<not> wanted r a" "\<not> misread r a"
    and run: "arq__recv_wnd_frame b (rc_wnd r) (a mod 4096) s (seg_count (r_w (rc_wnd r)) (length (msgs a)))
      (msg_seg (w_seg_len (r_w (rc_wnd r))) (msgs a) s) (length (msg_seg (w_seg_len (r_w (rc_wnd r))) (msgs a) s)) t = Some (k, rw')"
  shows "rw' = rc_wnd r"
proof -
  let ?w = "r_w (rc_wnd r)"
  have wok: "wnd_ok ?w" using safe recv_wnd_okD(1) by (auto simp: receiver_safe_def)
  have n: "seg_count ?w (length (msgs a)) \<le> 16"
    using fits_seg_count(3) [OF wok] safe by (simp add: receiver_safe_def)
  have len: "length (msg_seg (w_seg_len ?w) (msgs a) s) \<le> w_seg_len ?w" by (simp add: length_msg_seg)
  show ?thesis
    using recv_wnd_frame_run [OF n len, of b "a mod 4096" s t] run a by (simp add: misread_def)
qed

lemma receiver_step_keeps:
  assumes inv: "receiver_inv msgs r" and step: "receiver_step b msgs r r'" and clean: "\<not> rc_misread r'"
  shows "receiver_inv msgs r'"
proof -
  have h: "recv_holds msgs (rc_base r) (rc_wnd r)" and out: "rc_out r = read_upto msgs (rc_base r) (rc_wnd r)"
    using inv by (simp_all add: receiver_inv_def)
  have safe: "receiver_safe msgs (rc_wnd r)" using recv_holdsD(1,6) [OF h] by (simp add: receiver_safe_def)
  show ?thesis
    using step
  proof (cases rule: receiver_step.cases)
    case (arrive t n a s p k rw')
    have m: "\<not> misread r a" using clean arrive(1) by simp
    show ?thesis
    proof (cases "wanted r a")
      case True
      then have d: "rc_base r + (a - rc_base r) = a" "r_slide (rc_wnd r) \<le> a - rc_base r"
        "a - rc_base r < w_cap (r_w (rc_wnd r)) + r_slide (rc_wnd r)"
        by (auto simp: wanted_def)
      obtain base' where "recv_holds msgs base' rw'" "base' + r_slide rw' = rc_base r + r_slide (rc_wnd r)"
        "r_copy_ofs rw' = r_copy_ofs (rc_wnd r)"
        using recv_frame_holds [OF h d(2,3), of s t b] arrive(2-6) unfolding d(1) by auto
      moreover have "base' = rc_base r + r_slide (rc_wnd r) - r_slide rw'" using calculation(2) by simp
      ultimately show ?thesis
        using out arrive(1) by (simp add: receiver_inv_def read_upto_def)
    next
      case False
      then have "rw' = rc_wnd r" using refused_frame [OF safe _ m] arrive(3,5,6) by blast
      then show ?thesis using inv arrive(1) by (simp add: receiver_inv_def)
    qed
  next
    case (read dst_max bs rw')
    then show ?thesis
      using recv_wnd_recv_holds [OF h read(2)] out by (auto simp: receiver_inv_def)
  next
    case (acknowledge a rw')
    have "\<exists>ack. length ack = length (r_ack (rc_wnd r)) \<and> rw' = (rc_wnd r)\<lparr>r_ack := ack\<rparr>"
      using recv_wnd_ack_flags [OF recv_holdsD(1) [OF h] acknowledge(2)] .
    then show ?thesis
      using acknowledge(1) h out by (auto simp: receiver_inv_def recv_holds_ack read_upto_def)
  next
    case (elapse dt rw')
    then show ?thesis using timer_holds [OF h elapse(2)] out by (simp add: receiver_inv_def)
  qed
qed

lemma receiver_step_safe:
  assumes safe: "receiver_safe msgs (rc_wnd r)" and step: "receiver_step b msgs r r'"
  shows "receiver_safe msgs (rc_wnd r')"
  using step
proof (cases rule: receiver_step.cases)
  case (arrive t n a s p k rw')
  then show ?thesis using receiver_safe_frame [OF safe, of s a t b] by auto
next
  case (read dst_max bs rw')
  then show ?thesis using receiver_safe_recv [OF safe read(2)] by auto
next
  case (acknowledge a rw')
  then show ?thesis using receiver_safe_ack [OF safe] by auto
next
  case (elapse dt rw')
  then show ?thesis using receiver_safe_timer [OF safe, of dt] by auto
qed

lemma receiver_step_misread: "receiver_step b msgs r r' \<Longrightarrow> rc_misread r \<Longrightarrow> rc_misread r'"
  by (erule receiver_step.cases) simp_all

definition receiver_good :: "(nat \<Rightarrow> byte list) \<Rightarrow> receiver \<Rightarrow> bool" where
  "receiver_good msgs r \<longleftrightarrow> receiver_safe msgs (rc_wnd r) \<and> (\<not> rc_misread r \<longrightarrow> receiver_inv msgs r)"

lemma receiver_start_inv: "receiver_start msgs r \<Longrightarrow> receiver_inv msgs r"
  using recv_wnd_rst_holds [of _ "rc_wnd r" msgs] by (auto simp: receiver_start_def receiver_inv_def)

lemma receiver_start_good: "receiver_start msgs r \<Longrightarrow> receiver_good msgs r"
  using receiver_start_inv [of msgs r] recv_holdsD(1,6) [of msgs "rc_base r" "rc_wnd r"]
  by (simp add: receiver_good_def receiver_inv_def receiver_safe_def)

lemma receiver_step_good: "receiver_good msgs r \<Longrightarrow> receiver_step b msgs r r' \<Longrightarrow> receiver_good msgs r'"
  using receiver_step_safe receiver_step_keeps receiver_step_misread unfolding receiver_good_def by blast

interpretation receiving: invariant_system "receiver_start msgs" "receiver_step b msgs" "receiver_good msgs"
  by unfold_locales (auto intro: receiver_start_good receiver_step_good)

text \<open>
  C6. In-order delivery: from a reset on, whatever segments of the peer's messages arrive, of any
  message, in whatever order and however often, whatever the user reads and whenever the timer runs and
  acknowledgements are taken, no call of the window faults; and as long as the window has not misread a segment, the bytes the user has read are exactly the first
  messages of the peer, in order, each once, and a prefix of the next one. A segment is misread only
  if its message is the one just before the window, was read and is not slid past yet, or lies about
  4096 messages behind or ahead; the code refuses all others that it has no place for.
\<close>

theorem receiver_delivers_prefix:
  assumes "reach (receiver_start msgs) (receiver_step b msgs) r"
  defines "n \<equiv> rc_base r + r_slide (rc_wnd r)"
  shows "(\<forall>a s t. s < seg_count (r_w (rc_wnd r)) (length (msgs a)) \<and> t < 2 ^ 32 \<longrightarrow>
      arq__recv_wnd_frame b (rc_wnd r) (a mod 4096) s (seg_count (r_w (rc_wnd r)) (length (msgs a)))
        (msg_seg (w_seg_len (r_w (rc_wnd r))) (msgs a) s) (length (msg_seg (w_seg_len (r_w (rc_wnd r))) (msgs a) s)) t \<noteq> None) \<and>
    (\<forall>dst_max < 2 ^ 32. arq__recv_wnd_recv (rc_wnd r) dst_max \<noteq> None) \<and> arq__recv_wnd_ack (rc_wnd r) \<noteq> None \<and>
    (\<forall>dt. recv_poll_timer (rc_wnd r) dt \<noteq> None) \<and>
    (\<not> rc_misread r \<longrightarrow>
      rc_out r = concat (map msgs [0..<n]) @ take (r_copy_ofs (rc_wnd r)) (msgs n) \<and>
      (\<forall>a. misread r a \<longrightarrow> rc_base r \<le> a + 1 \<and> a < n \<or> a + 4096 < n + w_cap (r_w (rc_wnd r)) \<or> rc_base r + 4095 \<le> a))"
proof -
  have good: "receiver_safe msgs (rc_wnd r)" "\<not> rc_misread r \<Longrightarrow> receiver_inv msgs r"
    using receiving.reach_inv [OF assms(1)] by (simp_all add: receiver_good_def)
  have "rc_out r = concat (map msgs [0..<n]) @ take (r_copy_ofs (rc_wnd r)) (msgs n)" if "\<not> rc_misread r"
    using good(2) [OF that] by (simp add: receiver_inv_def read_upto_def n_def)
  moreover have "rc_base r \<le> a + 1 \<and> a < n \<or> a + 4096 < n + w_cap (r_w (rc_wnd r)) \<or> rc_base r + 4095 \<le> a"
    if "\<not> rc_misread r" "misread r a" for a
    using misread_range [OF _ that(2)] good(2) [OF that(1)] by (auto simp: receiver_inv_def n_def)
  ultimately show ?thesis
    using receiver_safe_frame [OF good(1)] receiver_safe_recv [OF good(1)] receiver_safe_ack [OF good(1)]
      receiver_safe_timer [OF good(1)] by fastforce
qed

section \<open>A message of three bytes\<close>

abbreviation demo_receiver :: "arq__recv_wnd_t \<Rightarrow> byte list \<Rightarrow> receiver" where
  "demo_receiver rw out \<equiv> \<lparr>rc_base = 0, rc_wnd = rw, rc_out = out, rc_misread = False\<rparr>"

lemma demo_receiver_start: "receiver_start demo_msgs (demo_receiver demo_recv_wnd [])"
proof -
  have "wnd_ok (r_w demo_recv_wnd) \<and> length (r_ack demo_recv_wnd) = w_cap (r_w demo_recv_wnd) \<and>
      arq__recv_wnd_rst demo_recv_wnd = Some demo_recv_wnd"
    using demo_wnd_ok demo_recv_rst by (simp add: demo_recv_wnd_def demo_wnd_def)
  then show ?thesis using demo_recv_start by (auto simp: receiver_start_def)
qed

text \<open>The step of a segment of the first message, from a window that has not slid.\<close>

lemma demo_arrive:
  assumes "r_slide rw = 0" "w_cap (r_w rw) = 2" "r_slide rw' = 0"
    and "n = seg_count (r_w rw) (length (demo_msgs 0))" "s < n"
    and "p = msg_seg (w_seg_len (r_w rw)) (demo_msgs 0) s"
    and "arq__recv_wnd_frame b rw 0 s n p (length p) 9 = Some (k, rw')"
  shows "receiver_step b demo_msgs (demo_receiver rw []) (demo_receiver rw' [])"
proof -
  let ?r = "demo_receiver rw []"
  have a: "9 < (2 :: nat) ^ 32" "n = seg_count (r_w (rc_wnd ?r)) (length (demo_msgs 0))" "s < n"
    "p = msg_seg (w_seg_len (r_w (rc_wnd ?r))) (demo_msgs 0) s"
    "arq__recv_wnd_frame b (rc_wnd ?r) (0 mod 4096) s n p (length p) 9 = Some (k, rw')"
    using assms by (simp_all only: receiver.simps mod_0) simp_all
  have "\<not> misread ?r 0" using assms(1,2) by (simp add: misread_def wanted_def)
  then show ?thesis
    using receiver_step.arrive [where r = ?r and a = 0 and msgs = demo_msgs and b = b, OF a] assms(1,3) by simp
qed

lemma demo_step1: "receiver_step le_build demo_msgs (demo_receiver demo_recv_wnd []) (demo_receiver demo_rw1 [])"
  by (rule demo_arrive [where s = 1 and p = "[3]" and n = 2 and k = 1]) (code_simp | fact)+

lemma demo_step2: "receiver_step le_build demo_msgs (demo_receiver demo_rw1 []) (demo_receiver demo_rw2 [])"
  by (rule demo_arrive [where s = 0 and p = "[1, 2]" and n = 2 and k = 2]) (code_simp | fact)+

lemma demo_step3: "receiver_step le_build demo_msgs (demo_receiver demo_rw2 []) (demo_receiver demo_rw3 [1, 2])"
  using receiver_step.read [of 2 "demo_receiver demo_rw2 []" "[1, 2]" demo_rw3 le_build demo_msgs]
    demo_arrivals(3) by simp

lemma demo_reach: "reach (receiver_start demo_msgs) (receiver_step le_build demo_msgs) (demo_receiver demo_rw3 [1, 2])"
  using demo_receiver_start demo_step1 demo_step2 demo_step3 by (blast intro: reach_start reach_step)

theorem receiver_delivers_prefix_witness:
  "rc_out (demo_receiver demo_rw3 [1, 2]) = take 2 (demo_msgs 0) \<and> arq__recv_wnd_ack demo_rw3 \<noteq> None"
  using receiver_delivers_prefix [OF demo_reach] by (simp add: demo_segments)

end
