(* ===== verification/Arq_Link.thy ===== *)
theory Arq_Link imports Arq_Receiver begin

text \<open>
  A sender and a receiver of \<open>src/arq.h\<close> with a lossy, reordering, duplicating channel between
  them: the steps of the window code on both sides, and the invariant of the pair.
\<close>

section \<open>What the sender holds\<close>

text \<open>
  A message of the send window is sealed when it holds all bytes it will get, and asks for exactly
  the segments these bytes fill: a full message, or one that was flushed.
\<close>

definition sealed :: "(nat \<Rightarrow> byte list) \<Rightarrow> nat \<Rightarrow> arq__wnd_t \<Rightarrow> nat \<Rightarrow> bool" where
  "sealed msgs base w i \<longleftrightarrow> m_len (msg_at w i) = length (msgs (base + i)) \<and>
     m_full_ack_vec (msg_at w i) = 2 ^ seg_count w (length (msgs (base + i))) - 1"

text \<open>Every message the window holds is a prefix of its final bytes, and asks for enough segments.\<close>

definition sender_has :: "(nat \<Rightarrow> byte list) \<Rightarrow> nat \<Rightarrow> arq__wnd_t \<Rightarrow> bool" where
  "sender_has msgs base w \<longleftrightarrow> (\<forall>i<w_size w.
     msg_bytes w (slot w i) = take (m_len (msg_at w i)) (msgs (base + i)) \<and>
     2 ^ seg_count w (length (msgs (base + i))) - 1 \<le> m_full_ack_vec (msg_at w i))"

text \<open>The two halves of it: the bytes are those of \<open>msgs\<close>, and the masks ask for all of them.\<close>

definition holds_bytes :: "(nat \<Rightarrow> byte list) \<Rightarrow> nat \<Rightarrow> arq__wnd_t \<Rightarrow> bool" where
  "holds_bytes msgs base w \<longleftrightarrow> (\<forall>i<w_size w. msg_bytes w (slot w i) = take (m_len (msg_at w i)) (msgs (base + i)))"

definition asks_for_all :: "(nat \<Rightarrow> byte list) \<Rightarrow> nat \<Rightarrow> arq__wnd_t \<Rightarrow> bool" where
  "asks_for_all msgs base w \<longleftrightarrow> (\<forall>i<w_size w. 2 ^ seg_count w (length (msgs (base + i))) - 1 \<le> m_full_ack_vec (msg_at w i))"

lemma sender_has_halves: "sender_has msgs base w \<longleftrightarrow> holds_bytes msgs base w \<and> asks_for_all msgs base w"
  by (auto simp: sender_has_def holds_bytes_def asks_for_all_def)

lemma ptr_next_full:
  assumes ok: "send_wnd_ok sw" and sp: "ptr_ok sp" and run: "arq__send_wnd_ptr_next sp sw = Some (r, sp')"
    and v: "p_valid sp'"
  shows "2 ^ p_seg sp' - 1 < m_full_ack_vec (w_msg (s_w sw) ! (p_seq sp' mod w_cap (s_w sw)))"
proof -
  have wok: "wnd_ok (s_w sw)" by (rule send_wnd_okD(1) [OF ok])
  have due: "2 ^ p_seg (ptr_to_due sw q) - 1 <
      m_full_ack_vec (w_msg (s_w sw) ! (p_seq (ptr_to_due sw q) mod w_cap (s_w sw)))" if "p_valid (ptr_to_due sw q)" for q
  proof (cases "find (other_due sw q) [0..<w_size (s_w sw)]")
    case None
    then show ?thesis using that by (simp add: ptr_to_due_def)
  next
    case (Some i)
    then have "i < w_cap (s_w sw)" "send_due sw i"
      using wnd_okD(12) [OF wok] by (auto simp: find_Some_iff other_due_def)
    then obtain n where n: "m_full_ack_vec (msg_at (s_w sw) i) = 2 ^ n - 1"
      "lowest_clear (m_cur_ack_vec (msg_at (s_w sw) i)) < n"
      using send_due_segs [OF ok] by blast
    have "(2 :: nat) ^ lowest_clear (m_cur_ack_vec (msg_at (s_w sw) i)) < 2 ^ n" using n(2) by simp
    then have "(2 :: nat) ^ lowest_clear (m_cur_ack_vec (msg_at (s_w sw) i)) - 1 < 2 ^ n - 1"
      by (intro diff_less_mono) simp_all
    then show ?thesis using Some n(1) by (simp add: ptr_to_due_def seq_at_slot [OF wok])
  qed
  have "ptr_next_spec sw sp = (r, sp')" using run send_wnd_ptr_next_eq [OF ok sp] by simp
  then show ?thesis using v due by (auto simp: ptr_next_spec_def ptr_advance_def split: if_splits)
qed

text \<open>The bytes \<open>arq__wnd_seg\<close> names are the segment of the message.\<close>

lemma sealed_segment:
  assumes ok: "send_wnd_ok sw" and has: "sender_has msgs base (s_w sw)" and i: "i < w_size (s_w sw)"
    and sl: "sealed msgs base (s_w sw) i" and s: "s < seg_count (s_w sw) (length (msgs (base + i)))"
  shows "\<exists>ofs len. arq__wnd_seg (s_w sw) (seq_at (s_w sw) i) s = Some (ofs, len) \<and>
    len = length (msg_seg (w_seg_len (s_w sw)) (msgs (base + i)) s) \<and> 0 < len \<and> len \<le> w_seg_len (s_w sw) \<and>
    ofs + w_seg_len (s_w sw) \<le> length (w_buf (s_w sw)) \<and> s < segs (s_w sw) \<and>
    take len (drop ofs (w_buf (s_w sw))) = msg_seg (w_seg_len (s_w sw)) (msgs (base + i)) s"
proof -
  let ?w = "s_w sw" let ?M = "msgs (base + i)" let ?l = "w_seg_len (s_w sw)" let ?k = "slot (s_w sw) i"
  have wok: "wnd_ok ?w" by (rule send_wnd_okD(1) [OF ok])
  note wd = wnd_okD [OF wok]
  have ic: "i < w_cap ?w" using i wd(12) by simp
  have ml: "m_len (msg_at ?w i) = length ?M" "length ?M \<le> w_msg_len ?w"
    using sl send_lens(1) [OF ok ic] by (simp_all add: sealed_def)
  have "send_msg_ok ?w i" by (rule send_wnd_okD(5) [OF ok ic])
  then have pos: "0 < length ?M" using i ml(1) by (simp add: send_msg_ok_def)
  have M: "msg_bytes ?w ?k = ?M" using has i ml(1) by (simp add: sender_has_def)
  note sc = seg_count_bounds [OF wok pos ml(2)]
  have ss: "s < segs ?w" using s sc(2) by simp
  have "s * ?l \<le> (seg_count ?w (length ?M) - 1) * ?l" using s by (intro mult_le_mono1) simp
  then have "s * ?l < length ?M" using sc(3) by linarith
  then have lt: "?l * s < length ?M" by (simp only: mult.commute)
  have "length ?M < 4294967296" using ml(2) wnd_ok_msg_len(2) [OF wok] by simp
  then have n: "min ?l (sub32 (length ?M) (?l * s)) = length (msg_seg ?l ?M s)"
    using lt by (simp add: sub32_le length_msg_seg mult.commute)
  let ?ofs = "w_msg_len ?w * ?k + ?l * s"
  have seg: "arq__wnd_seg ?w (seq_at ?w i) s = Some (?ofs, length (msg_seg ?l ?M s))"
    using send_window.wnd_seg_eq [OF ok ss, of "seq_at ?w i"] by (simp add: seq_at_slot [OF wok] ml(1) n)
  have kc: "?k < w_cap ?w" using wok by simp
  have bd: "?ofs + ?l \<le> length (w_buf ?w)" by (rule send_window.seg_offset_bound [OF ok kc ss])
  have "?M = take (length ?M) (drop (?k * w_msg_len ?w) (w_buf ?w))" using M by (simp add: msg_bytes_def ml(1))
  then have "msg_seg ?l ?M s = take ?l (drop (s * ?l) (take (length ?M) (drop (?k * w_msg_len ?w) (w_buf ?w))))"
    by (simp only: msg_seg_def)
  also have "\<dots> = take (min ?l (length ?M - s * ?l)) (drop ?ofs (w_buf ?w))"
    by (simp add: drop_take add.commute mult.commute)
  also have "min ?l (length ?M - s * ?l) = length (msg_seg ?l ?M s)" by (simp add: length_msg_seg)
  finally have "take (length (msg_seg ?l ?M s)) (drop ?ofs (w_buf ?w)) = msg_seg ?l ?M s" by simp
  then show ?thesis
    using seg bd ss lt wd(4) by (intro exI [of _ ?ofs] exI [of _ "length (msg_seg ?l ?M s)"])
      (simp add: length_msg_seg mult.commute)
qed

section \<open>The two parties\<close>

text \<open>
  A sender, a receiver and the frames on their way. \<open>msgs\<close> are the messages the sender's stream is
  cut into, by absolute number; \<open>lk_base\<close> is the number of the first message of the send window.
  Frames carry what the code puts into them, and as ghost state the number of their message: a
  segment in flight is a header with its bytes, an acknowledgement a sequence number and a vector.
\<close>

text \<open>
  No step is ruled out: frames may be lost (never delivered), repeated, reordered and delayed, the user
  may send and flush at will. What the protocol is not made for is recorded: the receive window misread
  a segment, the send window took an acknowledgement for one of another message, the sender sent a
  segment of a message that was not finished, the user sent bytes that are not those of \<open>msgs\<close>, or sent
  more into a message that was flushed.
\<close>

datatype anomaly = Segment_misread | Ack_misread | Unfinished_sent | Other_bytes | Sent_behind_flush

record link =
  lk_base :: nat
  lk_send :: arq__send_wnd_t
  lk_ptr :: arq__send_wnd_ptr_t
  lk_segs :: "(nat \<times> arq__frame_hdr_t \<times> byte list) list"
  lk_acks :: "(nat \<times> nat \<times> nat) list"
  lk_recv :: receiver
  lk_anomalies :: "anomaly set"

text \<open>Which message of a window a sequence number names, counted from its first.\<close>

definition seq_ofs :: "arq__wnd_t \<Rightarrow> nat \<Rightarrow> nat" where
  "seq_ofs w seq = (seq + 4096 - w_seq w) mod 4096"

definition sender_anomalies :: "(nat \<Rightarrow> byte list) \<Rightarrow> nat \<Rightarrow> arq__wnd_t \<Rightarrow> anomaly set" where
  "sender_anomalies msgs base w =
     (if holds_bytes msgs base w then {} else {Other_bytes}) \<union> (if asks_for_all msgs base w then {} else {Sent_behind_flush})"

text \<open>\<open>arq__send_wnd_ack\<close> finds the message of an acknowledgement by its sequence number alone.\<close>

definition ack_misread :: "link \<Rightarrow> nat \<Rightarrow> nat \<Rightarrow> nat \<Rightarrow> bool" where
  "ack_misread l a seq vec \<longleftrightarrow> (let w = s_w (lk_send l)
     in w_seq w \<le> seq \<and> seq < w_seq w + w_size w \<and> vec \<noteq> 0 \<and> lk_base l + (seq - w_seq w) \<noteq> a)"

inductive link_step :: "build \<Rightarrow> (nat \<Rightarrow> byte list) \<Rightarrow> link \<Rightarrow> link \<Rightarrow> bool"
  for b :: build and msgs :: "nat \<Rightarrow> byte list" where
  app_send: "length data < 2 ^ 32 \<Longrightarrow> tiny < 2 ^ 32 \<Longrightarrow>
    arq__send_wnd_send (lk_send l) data (length data) tiny = Some (n, sw) \<Longrightarrow>
    link_step b msgs l (l\<lparr>lk_send := sw, lk_anomalies := lk_anomalies l \<union> sender_anomalies msgs (lk_base l) (s_w sw)\<rparr>)"
| app_flush: "arq__send_wnd_flush (lk_send l) = Some sw \<Longrightarrow>
    link_step b msgs l (l\<lparr>lk_send := sw, lk_anomalies := lk_anomalies l \<union> sender_anomalies msgs (lk_base l) (s_w sw)\<rparr>)"
| tick: "arq__send_wnd_step (lk_send l) dt = Some sw \<Longrightarrow> link_step b msgs l (l\<lparr>lk_send := sw\<rparr>)"
| transmit: "rtx < 2 ^ 32 \<Longrightarrow> hdr_fits h0 \<Longrightarrow> \<not> h_seg h0 \<Longrightarrow>
    send_poll_header (lk_send l) (lk_ptr l) h0 rtx = Some (sw, sp, h) \<Longrightarrow> h_seg h \<Longrightarrow>
    arq__wnd_seg (s_w sw) (h_seq_num h) (h_seg_id h) = Some (ofs, len) \<Longrightarrow> i = seq_ofs (s_w sw) (h_seq_num h) \<Longrightarrow>
    link_step b msgs l (l\<lparr>lk_send := sw, lk_ptr := sp,
      lk_segs := (lk_base l + i, h\<lparr>h_seg_len := len\<rparr>, take len (drop ofs (w_buf (s_w sw)))) # lk_segs l,
      lk_anomalies := lk_anomalies l \<union>
        (if i < w_size (s_w sw) \<and> sealed msgs (lk_base l) (s_w sw) i then {} else {Unfinished_sent})\<rparr>)"
| idle: "rtx < 2 ^ 32 \<Longrightarrow> hdr_fits h0 \<Longrightarrow> \<not> h_seg h0 \<Longrightarrow>
    send_poll_header (lk_send l) (lk_ptr l) h0 rtx = Some (sw, sp, h) \<Longrightarrow> \<not> h_seg h \<Longrightarrow>
    link_step b msgs l (l\<lparr>lk_send := sw, lk_ptr := sp\<rparr>)"
| segment_in: "(a, h, bs) \<in> set (lk_segs l) \<Longrightarrow> r = lk_recv l \<Longrightarrow> t < 2 ^ 32 \<Longrightarrow>
    arq__recv_wnd_frame b (rc_wnd r) (h_seq_num h) (h_seg_id h) (h_msg_len h) bs (h_seg_len h) t = Some (k, rw) \<Longrightarrow>
    link_step b msgs l (l\<lparr>lk_recv := r\<lparr>rc_base := rc_base r + r_slide (rc_wnd r) - r_slide rw, rc_wnd := rw\<rparr>,
      lk_anomalies := lk_anomalies l \<union> (if misread r a then {Segment_misread} else {})\<rparr>)"
| app_recv: "dst_max < 2 ^ 32 \<Longrightarrow> r = lk_recv l \<Longrightarrow> arq__recv_wnd_recv (rc_wnd r) dst_max = Some (bs, rw) \<Longrightarrow>
    link_step b msgs l (l\<lparr>lk_recv := r\<lparr>rc_wnd := rw, rc_out := rc_out r @ bs\<rparr>\<rparr>)"
| recv_tick: "r = lk_recv l \<Longrightarrow> recv_poll_timer (rc_wnd r) dt = Some rw \<Longrightarrow>
    link_step b msgs l (l\<lparr>lk_recv := r\<lparr>rc_wnd := rw\<rparr>\<rparr>)"
| ack_out: "r = lk_recv l \<Longrightarrow> arq__recv_wnd_ack (rc_wnd r) = Some (Some (seq, vec), rw) \<Longrightarrow>
    link_step b msgs l (l\<lparr>lk_recv := r\<lparr>rc_wnd := rw\<rparr>,
      lk_acks := (rc_base r + seq_ofs (r_w (rc_wnd r)) seq, seq, vec) # lk_acks l\<rparr>)"
| ack_in: "(a, seq, vec) \<in> set (lk_acks l) \<Longrightarrow> arq__send_wnd_ack (lk_send l) seq vec = Some sw \<Longrightarrow>
    link_step b msgs l (l\<lparr>lk_send := sw, lk_base := lk_base l + (w_size (s_w (lk_send l)) - w_size (s_w sw)),
      lk_anomalies := lk_anomalies l \<union> (if ack_misread l a seq vec then {Ack_misread} else {})\<rparr>)"

text \<open>Both windows were reset, and cut messages alike.\<close>

definition link_start :: "(nat \<Rightarrow> byte list) \<Rightarrow> link \<Rightarrow> bool" where
  "link_start msgs l \<longleftrightarrow> lk_base l = 0 \<and> send_wnd_ok (lk_send l) \<and> w_size (s_w (lk_send l)) = 0 \<and>
     w_seq (s_w (lk_send l)) = 0 \<and> 2 * w_cap (s_w (lk_send l)) < 4096 \<and> \<not> p_valid (lk_ptr l) \<and>
     lk_segs l = [] \<and> lk_acks l = [] \<and> lk_anomalies l = {} \<and> receiver_start msgs (lk_recv l) \<and>
     w_seg_len (s_w (lk_send l)) = w_seg_len (r_w (rc_wnd (lk_recv l)))"

section \<open>The invariant\<close>

definition link_arrived :: "(nat \<Rightarrow> byte list) \<Rightarrow> link \<Rightarrow> (nat \<times> nat) set" where
  "link_arrived msgs l = arrived msgs (rc_base (lk_recv l)) (rc_wnd (lk_recv l))"

text \<open>A vector is sound when it marks only segments that have arrived.\<close>

definition sound_vec :: "(nat \<times> nat) set \<Rightarrow> nat \<Rightarrow> nat \<Rightarrow> bool" where
  "sound_vec R a v \<longleftrightarrow> (\<forall>s. bit v s \<longrightarrow> (a, s) \<in> R)"

definition frame_ok :: "(nat \<Rightarrow> byte list) \<Rightarrow> arq__wnd_t \<Rightarrow> nat \<times> arq__frame_hdr_t \<times> byte list \<Rightarrow> bool" where
  "frame_ok msgs w f \<longleftrightarrow> (case f of (a, h, bs) \<Rightarrow>
     h_seq_num h = a mod 4096 \<and> h_seg_id h < seg_count w (length (msgs a)) \<and>
     h_msg_len h = seg_count w (length (msgs a)) \<and> bs = msg_seg (w_seg_len w) (msgs a) (h_seg_id h) \<and>
     h_seg_len h = length bs)"

definition link_inv :: "(nat \<Rightarrow> byte list) \<Rightarrow> link \<Rightarrow> bool" where
  "link_inv msgs l \<longleftrightarrow> (let w = s_w (lk_send l); base = lk_base l; R = link_arrived msgs l
     in receiver_inv msgs (lk_recv l) \<and> send_wnd_ok (lk_send l) \<and> ptr_ok (lk_ptr l) \<and>
        w_seq w = base mod 4096 \<and> 2 * w_cap w < 4096 \<and>
        w_seg_len w = w_seg_len (r_w (rc_wnd (lk_recv l))) \<and> sender_has msgs base w \<and>
        (\<forall>f\<in>set (lk_segs l). frame_ok msgs w f \<and> fst f < base + w_size w) \<and>
        (\<forall>(a, seq, vec)\<in>set (lk_acks l). seq = a mod 4096 \<and> vec < 65536 \<and> sound_vec R a vec) \<and>
        (\<forall>i<w_size w. sound_vec R (base + i) (m_cur_ack_vec (msg_at w i))) \<and>
        (\<forall>a<base. \<forall>s < seg_count w (length (msgs a)). (a, s) \<in> R) \<and>
        (\<forall>(a, s)\<in>R. a < base + w_size w))"

lemma link_invD:
  assumes "link_inv msgs l"
  shows "receiver_inv msgs (lk_recv l)" "send_wnd_ok (lk_send l)" "ptr_ok (lk_ptr l)"
    "w_seq (s_w (lk_send l)) = lk_base l mod 4096" "2 * w_cap (s_w (lk_send l)) < 4096"
    "w_seg_len (s_w (lk_send l)) = w_seg_len (r_w (rc_wnd (lk_recv l)))"
    "sender_has msgs (lk_base l) (s_w (lk_send l))"
    "\<And>f. f \<in> set (lk_segs l) \<Longrightarrow> frame_ok msgs (s_w (lk_send l)) f \<and> fst f < lk_base l + w_size (s_w (lk_send l))"
    "\<And>a seq vec. (a, seq, vec) \<in> set (lk_acks l) \<Longrightarrow>
       seq = a mod 4096 \<and> vec < 65536 \<and> sound_vec (link_arrived msgs l) a vec"
    "\<And>i. i < w_size (s_w (lk_send l)) \<Longrightarrow>
       sound_vec (link_arrived msgs l) (lk_base l + i) (m_cur_ack_vec (msg_at (s_w (lk_send l)) i))"
    "\<And>a s. a < lk_base l \<Longrightarrow> s < seg_count (s_w (lk_send l)) (length (msgs a)) \<Longrightarrow> (a, s) \<in> link_arrived msgs l"
    "\<And>a s. (a, s) \<in> link_arrived msgs l \<Longrightarrow> a < lk_base l + w_size (s_w (lk_send l))"
  using assms unfolding link_inv_def Let_def by blast+

lemma link_invI:
  assumes "receiver_inv msgs (lk_recv l)" "send_wnd_ok (lk_send l)" "ptr_ok (lk_ptr l)"
    "w_seq (s_w (lk_send l)) = lk_base l mod 4096" "2 * w_cap (s_w (lk_send l)) < 4096"
    "w_seg_len (s_w (lk_send l)) = w_seg_len (r_w (rc_wnd (lk_recv l)))"
    "sender_has msgs (lk_base l) (s_w (lk_send l))"
    "\<And>f. f \<in> set (lk_segs l) \<Longrightarrow> frame_ok msgs (s_w (lk_send l)) f \<and> fst f < lk_base l + w_size (s_w (lk_send l))"
    "\<And>a seq vec. (a, seq, vec) \<in> set (lk_acks l) \<Longrightarrow>
       seq = a mod 4096 \<and> vec < 65536 \<and> sound_vec (link_arrived msgs l) a vec"
    "\<And>i. i < w_size (s_w (lk_send l)) \<Longrightarrow>
       sound_vec (link_arrived msgs l) (lk_base l + i) (m_cur_ack_vec (msg_at (s_w (lk_send l)) i))"
    "\<And>a s. a < lk_base l \<Longrightarrow> s < seg_count (s_w (lk_send l)) (length (msgs a)) \<Longrightarrow> (a, s) \<in> link_arrived msgs l"
    "\<And>a s. (a, s) \<in> link_arrived msgs l \<Longrightarrow> a < lk_base l + w_size (s_w (lk_send l))"
  shows "link_inv msgs l"
  unfolding link_inv_def Let_def using assms by blast

lemma link_inv_anomalies: "link_inv msgs (l\<lparr>lk_anomalies := x\<rparr>) = link_inv msgs l"
  by (simp add: link_inv_def link_arrived_def Let_def)

lemma sound_vec_mono: "sound_vec R a v \<Longrightarrow> R \<subseteq> R' \<Longrightarrow> sound_vec R' a v"
  by (auto simp: sound_vec_def)

lemma sound_vec_0 [simp]: "sound_vec R a 0"
  by (simp add: sound_vec_def)

lemma frame_ok_cong: "w_seg_len w = w_seg_len w' \<Longrightarrow> frame_ok msgs w f = frame_ok msgs w' f"
  using seg_count_cong [of w w'] by (simp add: frame_ok_def split_def)

text \<open>A step of the receiver: frames and the sender stay, what has arrived can only grow.\<close>

lemma link_inv_recv:
  assumes inv: "link_inv msgs l" and r: "receiver_inv msgs r"
    and seg: "w_seg_len (r_w (rc_wnd r)) = w_seg_len (r_w (rc_wnd (lk_recv l)))"
    and grow: "link_arrived msgs l \<subseteq> arrived msgs (rc_base r) (rc_wnd r)"
    and bound: "\<And>a s. (a, s) \<in> arrived msgs (rc_base r) (rc_wnd r) \<Longrightarrow> a < lk_base l + w_size (s_w (lk_send l))"
    and acks: "\<And>a seq vec. (a, seq, vec) \<in> set acks \<Longrightarrow> (a, seq, vec) \<in> set (lk_acks l) \<or>
      seq = a mod 4096 \<and> vec < 65536 \<and> sound_vec (link_arrived msgs l) a vec"
  shows "link_inv msgs (l\<lparr>lk_recv := r, lk_acks := acks\<rparr>)"
proof -
  note d = link_invD [OF inv]
  let ?l = "l\<lparr>lk_recv := r, lk_acks := acks\<rparr>"
  have R: "link_arrived msgs ?l = arrived msgs (rc_base r) (rc_wnd r)" by (simp add: link_arrived_def)
  show ?thesis
  proof (rule link_invI)
    fix a seq vec assume "(a, seq, vec) \<in> set (lk_acks ?l)"
    then show "seq = a mod 4096 \<and> vec < 65536 \<and> sound_vec (link_arrived msgs ?l) a vec"
      using acks [of a seq vec] d(9) [of a seq vec] sound_vec_mono [OF _ grow] unfolding R by auto
  next
    fix i assume "i < w_size (s_w (lk_send ?l))"
    then show "sound_vec (link_arrived msgs ?l) (lk_base ?l + i) (m_cur_ack_vec (msg_at (s_w (lk_send ?l)) i))"
      using d(10) [of i] sound_vec_mono [OF _ grow] unfolding R by simp
  qed (use d r seg grow bound in \<open>auto simp: R\<close>)
qed

text \<open>A step of the sender that keeps its messages, or adds fresh ones behind them.\<close>

lemma link_inv_send:
  assumes inv: "link_inv msgs l" and ok: "send_wnd_ok sw" and sp: "ptr_ok sp"
    and w: "w_seq (s_w sw) = w_seq (s_w (lk_send l))" "w_cap (s_w sw) = w_cap (s_w (lk_send l))"
      "w_seg_len (s_w sw) = w_seg_len (s_w (lk_send l))" "w_size (s_w (lk_send l)) \<le> w_size (s_w sw)"
    and has: "sender_has msgs (lk_base l) (s_w sw)"
    and vec: "\<And>i. i < w_size (s_w sw) \<Longrightarrow> m_cur_ack_vec (msg_at (s_w sw) i) = m_cur_ack_vec (msg_at (s_w (lk_send l)) i)"
    and segs: "\<And>f. f \<in> set fs \<Longrightarrow> f \<in> set (lk_segs l) \<or> frame_ok msgs (s_w sw) f \<and> fst f < lk_base l + w_size (s_w sw)"
  shows "link_inv msgs (l\<lparr>lk_send := sw, lk_ptr := sp, lk_segs := fs\<rparr>)"
proof -
  note d = link_invD [OF inv]
  let ?l = "l\<lparr>lk_send := sw, lk_ptr := sp, lk_segs := fs\<rparr>"
  have R: "link_arrived msgs ?l = link_arrived msgs l" by (simp add: link_arrived_def)
  have sg: "seg_count (s_w sw) n = seg_count (s_w (lk_send l)) n" for n using w(3) by (rule seg_count_cong)
  have wok: "wnd_ok (s_w (lk_send l))" by (rule send_wnd_okD(1) [OF d(2)])
  show ?thesis
  proof (rule link_invI)
    fix f assume "f \<in> set (lk_segs ?l)"
    then show "frame_ok msgs (s_w (lk_send ?l)) f \<and> fst f < lk_base ?l + w_size (s_w (lk_send ?l))"
      using segs [of f] d(8) [of f] frame_ok_cong [OF w(3)] w(4) by auto
  next
    fix i assume i: "i < w_size (s_w (lk_send ?l))"
    show "sound_vec (link_arrived msgs ?l) (lk_base ?l + i) (m_cur_ack_vec (msg_at (s_w (lk_send ?l)) i))"
    proof (cases "i < w_size (s_w (lk_send l))")
      case True
      then show ?thesis using d(10) [OF True] vec [of i] i by (simp add: R)
    next
      case False
      have "i < w_cap (s_w (lk_send l))" using i w(2) wnd_okD(12) [OF send_wnd_okD(1) [OF ok]] by simp
      then have "msg_at (s_w (lk_send l)) i = fresh_msg (s_w (lk_send l))"
        using send_wnd_okD(5) [OF d(2)] False by (simp add: send_msg_ok_def)
      then show ?thesis using vec [of i] i by (simp add: fresh_msg_def)
    qed
  next
    fix a s assume "(a, s) \<in> link_arrived msgs ?l"
    then have "a < lk_base l + w_size (s_w (lk_send l))" using d(12) [of a s] by (simp only: R)
    then show "a < lk_base ?l + w_size (s_w (lk_send ?l))" using w(4) by simp
  qed (use d(1-7,9,11) ok sp w has in \<open>simp_all add: R sg\<close>)
qed

section \<open>Every step keeps the invariant\<close>

lemma send_keeps_messages:
  assumes ok: "send_wnd_ok sw" and len: "length data < 2 ^ 32" and tiny: "tiny < 2 ^ 32"
    and run: "arq__send_wnd_send sw data (length data) tiny = Some (n, sw')"
  shows "send_wnd_ok sw' \<and> w_seq (s_w sw') = w_seq (s_w sw) \<and> w_cap (s_w sw') = w_cap (s_w sw) \<and>
    w_seg_len (s_w sw') = w_seg_len (s_w sw) \<and> w_size (s_w sw) \<le> w_size (s_w sw') \<and>
    (\<forall>i < w_cap (s_w sw). m_cur_ack_vec (msg_at (s_w sw') i) = m_cur_ack_vec (msg_at (s_w sw) i))"
proof (cases "data = []")
  case True
  then have "sw' = sw" using run by (simp add: arq__send_wnd_send_def)
  then show ?thesis using ok by simp
next
  case False
  then have pos: "0 < length data" by simp
  have "send_wnd_ok sw'" and sent: "sent_wnd (s_w sw) (send_take (s_w sw) (length data)) data (s_w sw')"
    using send_wnd_send_sent [OF ok order.refl pos tiny] run by auto
  then show ?thesis
    using sent_size_grows(1) [OF ok send_take_pos [OF ok pos]] sent_wnd_vecs(1) [OF sent] by (simp add: sent_wndD [OF sent])
qed

lemma flush_keeps_messages:
  assumes ok: "send_wnd_ok sw" and run: "arq__send_wnd_flush sw = Some sw'"
  shows "send_wnd_ok sw' \<and> w_seq (s_w sw') = w_seq (s_w sw) \<and> w_cap (s_w sw') = w_cap (s_w sw) \<and>
    w_seg_len (s_w sw') = w_seg_len (s_w sw) \<and> w_size (s_w sw') = w_size (s_w sw) \<and>
    (\<forall>i < w_cap (s_w sw). m_cur_ack_vec (msg_at (s_w sw') i) = m_cur_ack_vec (msg_at (s_w sw) i))"
proof (cases "w_size (s_w sw) = 0")
  case True
  then show ?thesis using ok run by (simp add: arq__send_wnd_flush_def Let_def)
next
  case False
  then obtain msg where f: "send_wnd_ok sw'" "s_w sw' = (s_w sw)\<lparr>w_msg := msg\<rparr>"
    "\<forall>i<w_cap (s_w sw). m_cur_ack_vec (msg_at (s_w sw') i) = m_cur_ack_vec (msg_at (s_w sw) i)"
    using send_wnd_flush_eq [OF ok] run by fastforce
  then show ?thesis by simp
qed

lemma step_keeps_messages:
  assumes ok: "send_wnd_ok sw" and run: "arq__send_wnd_step sw dt = Some sw'"
  shows "send_wnd_ok sw'" "s_w sw' = s_w sw"
  using send_wnd_step_eq [OF ok, of dt] run by auto

text \<open>What a poll does to cursor and header.\<close>

lemma send_header_run:
  assumes ok: "send_wnd_ok sw" and sp: "ptr_ok sp" and rtx: "rtx < 2 ^ 32"
    and run: "send_poll_header sw sp h0 rtx = Some (sw', sp', h)"
  obtains r where "arq__send_wnd_ptr_next sp sw = Some (r, sp')" "ptr_ok sp'" "send_wnd_ok sw'" "s_w sw' = s_w sw"
    "h = (if p_valid sp'
          then h0\<lparr>h_msg_len := seg_count (s_w sw) (m_len (w_msg (s_w sw) ! (p_seq sp' mod w_cap (s_w sw)))),
                 h_seq_num := p_seq sp', h_seg_id := p_seg sp', h_seg := True\<rparr>
          else h0)"
proof -
  obtain r sp1 sw1 h1 where e: "arq__send_wnd_ptr_next sp sw = Some (r, sp1)" "ptr_ok sp1"
    "send_poll_header sw sp h0 rtx = Some (sw1, sp1, h1)" "send_wnd_ok sw1"
    "sw1 = (if r = ARQ__SEND_WND_PTR_NEXT_COMPLETED_MSG
         then sw\<lparr>s_rtx := (s_rtx sw)[p_seq sp mod w_cap (s_w sw) := rtx]\<rparr> else sw)"
    "h1 = (if p_valid sp1
        then h0\<lparr>h_msg_len := seg_count (s_w sw) (m_len (w_msg (s_w sw) ! (p_seq sp1 mod w_cap (s_w sw)))),
               h_seq_num := p_seq sp1, h_seg_id := p_seg sp1, h_seg := True\<rparr>
        else h0)"
    using send_poll_header_eq [OF ok sp rtx, of h0] by (elim exE conjE)
  then have eq: "sw1 = sw'" "sp1 = sp'" "h1 = h" using run by simp_all
  have "s_w sw1 = s_w sw" by (simp add: e(5))
  then show ?thesis by (intro that [of r] e(1,2,4,6) [unfolded eq]) (simp only: eq)
qed

text \<open>The header a poll announces, with the segment behind it, is a frame of its message.\<close>

lemma transmit_frame:
  assumes ok: "send_wnd_ok sw" and sp: "ptr_ok sp" and rtx: "rtx < 2 ^ 32"
    and h0: "hdr_fits h0" "\<not> h_seg h0" and run: "send_poll_header sw sp h0 rtx = Some (sw', sp', h)"
  shows "send_wnd_ok sw'" "ptr_ok sp'" "s_w sw' = s_w sw"
    and "\<lbrakk>h_seg h; i < w_size (s_w sw'); h_seq_num h = seq_at (s_w sw') i; sealed msgs base (s_w sw') i;
       sender_has msgs base (s_w sw'); w_seq (s_w sw') = base mod 4096\<rbrakk> \<Longrightarrow>
     \<exists>ofs len. arq__wnd_seg (s_w sw') (h_seq_num h) (h_seg_id h) = Some (ofs, len) \<and>
     frame_ok msgs (s_w sw') (base + i, h\<lparr>h_seg_len := len\<rparr>, take len (drop ofs (w_buf (s_w sw')))) \<and>
     hdr_fits h \<and> h_seg_id h < segs (s_w sw') \<and> 0 < len"
proof -
  let ?w = "s_w sw"
  obtain r where n: "arq__send_wnd_ptr_next sp sw = Some (r, sp')" "ptr_ok sp'" "send_wnd_ok sw'" "s_w sw' = ?w"
    "h = (if p_valid sp'
          then h0\<lparr>h_msg_len := seg_count ?w (m_len (w_msg ?w ! (p_seq sp' mod w_cap ?w))),
                 h_seq_num := p_seq sp', h_seg_id := p_seg sp', h_seg := True\<rparr>
          else h0)"
    using send_header_run [OF ok sp rtx run] .
  show "send_wnd_ok sw'" "ptr_ok sp'" "s_w sw' = s_w sw" by (rule n)+
  assume h: "h_seg h" "i < w_size (s_w sw')" "h_seq_num h = seq_at (s_w sw') i" "sealed msgs base (s_w sw') i"
    "sender_has msgs base (s_w sw')" "w_seq (s_w sw') = base mod 4096"
  have v: "p_valid sp'" using h(1) n(5) h0(2) by (auto split: if_splits)
  have wok: "wnd_ok ?w" by (rule send_wnd_okD(1) [OF ok])
  have seq: "p_seq sp' = seq_at ?w i" using h(3) n(4,5) v by simp
  then have k: "p_seq sp' mod w_cap ?w = slot ?w i" by (simp add: seq_at_slot [OF wok])
  let ?M = "msgs (base + i)" let ?n = "seg_count ?w (length (msgs (base + i)))"
  have sl: "m_len (msg_at ?w i) = length ?M" "m_full_ack_vec (msg_at ?w i) = 2 ^ ?n - 1"
    using h(4) n(4) by (simp_all add: sealed_def)
  have "(2 :: nat) ^ p_seg sp' - 1 < 2 ^ ?n - 1" using ptr_next_full [OF ok sp n(1) v] sl(2) by (simp add: k)
  then have "(2 :: nat) ^ p_seg sp' < 2 ^ ?n" by linarith
  then have s: "p_seg sp' < ?n" by simp
  have has: "sender_has msgs base ?w" "i < w_size ?w" "sealed msgs base ?w i" using h n(4) by simp_all
  from sealed_segment [OF ok has s] v n(4,5) seq obtain ofs len
    where g: "len = length (msg_seg (w_seg_len ?w) ?M (p_seg sp'))" "0 < len" "p_seg sp' < segs ?w"
    "take len (drop ofs (w_buf ?w)) = msg_seg (w_seg_len ?w) ?M (p_seg sp')"
      "arq__wnd_seg (s_w sw') (h_seq_num h) (h_seg_id h) = Some (ofs, len)"
    by auto
  have sq: "seq_at ?w i = (base + i) mod 4096" using h(6) n(4) by (simp add: seq_at_def mod_add_left_eq)
  then have "(base + i) mod 4096 mod w_cap ?w = slot ?w i" using k seq by simp
  moreover note sq
  moreover have "?n \<le> 12"
    using seg_count_bounds(2) [OF wok, of "length ?M"] wnd_okD(8,12) [OF wok] send_wnd_okD(5) [OF ok, of i] has(2) sl(1)
    by (simp add: send_msg_ok_def)
  moreover have "p_seg sp' < 4096" using g(3) wnd_okD(8) [OF wok] by simp
  moreover have "seq_at ?w i < 4096" by (simp add: seq_at_def)
  ultimately have "frame_ok msgs (s_w sw') (base + i, h\<lparr>h_seg_len := len\<rparr>, take len (drop ofs (w_buf (s_w sw')))) \<and>
     hdr_fits h \<and> h_seg_id h < segs (s_w sw') \<and> 0 < len"
    using v g(1-4) s seq sl(1) n(4) h0(1) unfolding n(5)
    by (simp add: frame_ok_def k hdr_fits_def)
  with g(5) show "\<exists>ofs len. arq__wnd_seg (s_w sw') (h_seq_num h) (h_seg_id h) = Some (ofs, len) \<and>
     frame_ok msgs (s_w sw') (base + i, h\<lparr>h_seg_len := len\<rparr>, take len (drop ofs (w_buf (s_w sw')))) \<and>
     hdr_fits h \<and> h_seg_id h < segs (s_w sw') \<and> 0 < len"
    by blast
qed

text \<open>A frame of a message that arrives where the receiver still wants it.\<close>

lemma segment_in_inv:
  assumes r: "receiver_inv msgs r" and f: "frame_ok msgs (r_w (rc_wnd r)) (a, h, bs)"
    and a: "rc_base r + r_slide (rc_wnd r) \<le> a" "a < rc_base r + r_slide (rc_wnd r) + w_cap (r_w (rc_wnd r))"
    and t: "t < 2 ^ 32"
    and run: "arq__recv_wnd_frame b (rc_wnd r) (h_seq_num h) (h_seg_id h) (h_msg_len h) bs (h_seg_len h) t = Some (k, rw)"
  defines "r' \<equiv> r\<lparr>rc_base := rc_base r + r_slide (rc_wnd r) - r_slide rw, rc_wnd := rw\<rparr>"
  shows "receiver_inv msgs r'" "w_seg_len (r_w rw) = w_seg_len (r_w (rc_wnd r))"
    "arrived msgs (rc_base r') rw = insert (a, h_seg_id h) (arrived msgs (rc_base r) (rc_wnd r))"
proof -
  have h: "recv_holds msgs (rc_base r) (rc_wnd r)" and out: "rc_out r = read_upto msgs (rc_base r) (rc_wnd r)"
    using r by (simp_all add: receiver_inv_def)
  have "h_seg_id h < seg_count (r_w (rc_wnd r)) (length (msgs a))" using f by (simp add: frame_ok_def)
  from arrived_frame [OF h a this t, of b] run f
  obtain base' where s: "recv_holds msgs base' rw" "base' + r_slide rw = rc_base r + r_slide (rc_wnd r)"
    "r_copy_ofs rw = r_copy_ofs (rc_wnd r)" "w_seg_len (r_w rw) = w_seg_len (r_w (rc_wnd r))"
    "arrived msgs base' rw = insert (a, h_seg_id h) (arrived msgs (rc_base r) (rc_wnd r))"
    by (auto simp: frame_ok_def)
  have "base' = rc_base r + r_slide (rc_wnd r) - r_slide rw" using s(2) by simp
  then show "receiver_inv msgs r'" "w_seg_len (r_w rw) = w_seg_len (r_w (rc_wnd r))"
    "arrived msgs (rc_base r') rw = insert (a, h_seg_id h) (arrived msgs (rc_base r) (rc_wnd r))"
    using s out by (simp_all add: r'_def receiver_inv_def read_upto_def)
qed

text \<open>An acknowledgement names only segments that have arrived.\<close>

lemma ack_out_sound:
  assumes r: "receiver_inv msgs r" and run: "arq__recv_wnd_ack (rc_wnd r) = Some (Some (seq, vec), rw)"
    and j: "j < w_size (r_w (rc_wnd r))" "seq = (rc_base r + j) mod 4096"
  shows "\<exists>ack. rw = (rc_wnd r)\<lparr>r_ack := ack\<rparr> \<and> length ack = length (r_ack (rc_wnd r))"
    "vec < 65536" "sound_vec (arrived msgs (rc_base r) (rc_wnd r)) (rc_base r + j) vec"
proof -
  let ?rw = "rc_wnd r" let ?w = "r_w ?rw"
  have h: "recv_holds msgs (rc_base r) ?rw" using r by (simp add: receiver_inv_def)
  note hd = recv_holdsD [OF h]
  have wok: "wnd_ok ?w" by (rule recv_wnd_okD(1) [OF hd(1)])
  note wd = wnd_okD [OF wok]
  show "\<exists>ack. rw = ?rw\<lparr>r_ack := ack\<rparr> \<and> length ack = length (r_ack ?rw)"
    using recv_wnd_ack_flags [OF hd(1) run] by blast
  from run [unfolded recv_wnd_ack_eq [OF hd(1)]] obtain i where i: "i < w_size ?w" "seq = (w_seq ?w + i) mod 4096"
    "vec = m_cur_ack_vec (msg_at ?w i)"
    by (auto simp: find_Some_iff split: option.splits)
  have "i = j"
  proof (rule ccontr)
    assume "i \<noteq> j"
    then have "(rc_base r + i) mod 4096 \<noteq> (rc_base r + j) mod 4096"
      using mod_add_neq [of i j 4096 "rc_base r"] mod_add_neq [of j i 4096 "rc_base r"] i(1) j(1) wd(12) hd(3) by linarith
    then show False using i(2) j(2) hd(2) by (simp add: mod_add_left_eq)
  qed
  have ic: "i < w_cap ?w" using i(1) wd(12) by simp
  have "vec < 2 ^ segs ?w" using recv_wnd_okD(6) [OF hd(1) slot_less [OF wok]] by (simp add: i(3) recv_msg_ok_def)
  then show "vec < 65536" using pow2_segs_less [OF wok order.refl] by simp
  show "sound_vec (arrived msgs (rc_base r) ?rw) (rc_base r + j) vec"
  proof (cases "r_slide ?rw \<le> j")
    case True
    have "partial ?w (slot ?w j) (msgs (rc_base r + j))" using hd(7) ic i(1) True \<open>i = j\<close> by blast
    then have "vec < 2 ^ seg_count ?w (length (msgs (rc_base r + j)))"
      using \<open>i = j\<close> by (simp add: i(3) partial_def Let_def)
    then show ?thesis
      using bit_nat_less [of vec] ic \<open>i = j\<close> True
      by (auto simp: sound_vec_def arrived_def has_seg_def i(3) holds_slot [OF h])
  next
    case False
    then have "empty_msg (msg_at ?w j)" using hd(8) ic \<open>i = j\<close> by blast
    then show ?thesis using \<open>i = j\<close> by (simp add: i(3) empty_msg_def)
  qed
qed

text \<open>An acknowledgement releases messages that have arrived, and marks segments that have.\<close>

lemma full_vec_covers:
  assumes "full_vec_ok w v" "2 ^ n - 1 \<le> v" "s < n"
  shows "bit v s"
proof -
  obtain m where m: "v = 2 ^ m - 1" using full_vec_okE [OF assms(1)] by metis
  have "(0 :: nat) < 2 ^ m" by simp
  then have "(2 :: nat) ^ n \<le> 2 ^ m" using assms(2) unfolding m by linarith
  then have "n \<le> m" by simp
  moreover have "v = mask m" unfolding m by (rule mask_eq_exp_minus_1 [symmetric])
  ultimately show ?thesis using assms(3) by (simp add: bit_mask_iff)
qed

lemma takeWhile_upt_nth:
  assumes "j < length (takeWhile P [0..<n])"
  shows "P j"
proof -
  have "j < n" using assms length_takeWhile_le [of P "[0..<n]"] by simp
  then have "takeWhile P [0..<n] ! j = j" using takeWhile_nth [OF assms] by simp
  then show ?thesis using nth_mem [OF assms] set_takeWhileD by metis
qed

lemma ack_message:
  assumes seq: "seq = a mod 4096" "w_seq w = base mod 4096" "w_seq w \<le> seq" "seq < w_seq w + w_size w"
    and sz: "2 * w_size w < 4096" and a: "base < a + 2048" "a < base + w_size w"
  shows "base + (seq - w_seq w) = a"
proof -
  let ?i = "seq - w_seq w"
  have "(base + ?i) mod 4096 = (base mod 4096 + ?i) mod 4096" by (simp add: mod_add_left_eq)
  also have "base mod 4096 + ?i = seq" using seq(2,3) by simp
  finally have m: "(base + ?i) mod 4096 = a mod 4096" using seq(1) by simp
  show ?thesis
  proof (rule ccontr)
    assume "base + ?i \<noteq> a"
    then consider "a < base + ?i" | "base + ?i < a" by linarith
    then show False
    proof cases
      case 1
      then have "base + ?i < a + 4096" using a seq(3,4) sz by linarith
      from mod_cap_eq [OF 1 this] m show False by simp
    next
      case 2
      then have "a < base + ?i + 4096" using a sz by linarith
      from mod_cap_eq [OF 2 this] m show False by simp
    qed
  qed
qed

lemma msg_bytes_released:
  assumes ok: "send_wnd_ok sw" "send_wnd_ok sw'" and j: "j < w_size (s_w sw')"
    and sz: "w_size (s_w sw') = w_size (s_w sw) - k"
    and bytes: "wnd_bytes (s_w sw') = drop (k * w_msg_len (s_w sw)) (wnd_bytes (s_w sw))"
    and ml: "w_msg_len (s_w sw') = w_msg_len (s_w sw)" "m_len (msg_at (s_w sw') j) = m_len (msg_at (s_w sw) (k + j))"
  shows "msg_bytes (s_w sw') (slot (s_w sw') j) = msg_bytes (s_w sw) (slot (s_w sw) (k + j))"
proof -
  have mb: "msg_bytes (s_w x) (slot (s_w x) i) = take (m_len (msg_at (s_w x) i)) (drop (i * w_msg_len (s_w x)) (wnd_bytes (s_w x)))"
    if x: "send_wnd_ok x" and i: "i < w_size (s_w x)" for x i
  proof (rule msg_bytes_wnd_bytes [OF send_wnd_okD(1) [OF x] i])
    have c: "w_size (s_w x) \<le> w_cap (s_w x)" by (rule wnd_okD(12) [OF send_wnd_okD(1) [OF x]])
    show "i < w_size (s_w x) - 1 \<Longrightarrow> m_len (msg_at (s_w x) i) = w_msg_len (s_w x)"
      using send_lens(2) [OF x, of i] i c by simp
    show "m_len (msg_at (s_w x) (w_size (s_w x) - 1)) \<le> w_msg_len (s_w x)"
      using send_lens(1) [OF x, of "w_size (s_w x) - 1"] i c by simp
  qed
  have "k + j < w_size (s_w sw)" using j sz by simp
  then show ?thesis
    using mb [OF ok(2) j] mb [OF ok(1), of "k + j"] ml bytes by (simp add: add.commute add_mult_distrib)
qed

lemma ack_vecs_sound:
  assumes inv: "link_inv msgs l" and a: "(a, seq, vec) \<in> set (lk_acks l)" "\<not> ack_misread l a seq vec"
    and in_wnd: "w_seq (s_w (lk_send l)) \<le> seq" "seq < w_seq (s_w (lk_send l)) + w_size (s_w (lk_send l))"
    and j: "j < w_size (s_w (lk_send l))"
  shows "sound_vec (link_arrived msgs l) (lk_base l + j) (ack_vec (s_w (lk_send l)) seq vec j)"
proof (cases "j = seq - w_seq (s_w (lk_send l)) \<and> vec \<noteq> 0")
  case False
  then show ?thesis
    using link_invD(10) [OF inv j] by (cases "j = seq - w_seq (s_w (lk_send l))") (simp_all add: ack_vec_def)
next
  case True
  have "sound_vec (link_arrived msgs l) a vec" using link_invD(9) [OF inv a(1)] by blast
  moreover have "lk_base l + (seq - w_seq (s_w (lk_send l))) = a"
    using True a(2) in_wnd by (simp add: ack_misread_def Let_def)
  ultimately show ?thesis using True by (simp add: ack_vec_def)
qed

text \<open>Only an acknowledgement half the sequence space old is misread.\<close>

lemma ack_misread_old:
  assumes inv: "link_inv msgs l" and a: "(a, seq, vec) \<in> set (lk_acks l)" and m: "ack_misread l a seq vec"
  shows "a + 2048 \<le> lk_base l"
proof (rule ccontr)
  assume "\<not> ?thesis"
  then have near: "lk_base l < a + 2048" by simp
  note d = link_invD [OF inv]
  let ?w = "s_w (lk_send l)"
  have ak: "seq = a mod 4096" "sound_vec (link_arrived msgs l) a vec" using d(9) [OF a(1)] by blast+
  have size: "2 * w_size ?w < 4096" using d(5) wnd_okD(12) [OF send_wnd_okD(1) [OF d(2)]] by linarith
  have v: "w_seq ?w \<le> seq" "seq < w_seq ?w + w_size ?w" "vec \<noteq> 0" "lk_base l + (seq - w_seq ?w) \<noteq> a"
    using m unfolding ack_misread_def Let_def by blast+
  obtain i where "bit vec i" using v(3) by (metis bit_eqI bit_0_eq bot_apply bot_bool_def)
  then have "a < lk_base l + w_size ?w" using ak(2) d(12) unfolding sound_vec_def by blast
  from ack_message [OF ak(1) d(4) v(1,2) size near this] v(4) show False by simp
qed

lemma ack_released_arrived:
  assumes inv: "link_inv msgs l" and a: "(a, seq, vec) \<in> set (lk_acks l)" "\<not> ack_misread l a seq vec"
    and in_wnd: "w_seq (s_w (lk_send l)) \<le> seq" "seq < w_seq (s_w (lk_send l)) + w_size (s_w (lk_send l))"
    and j: "j < ack_count (s_w (lk_send l)) seq vec" "j < w_size (s_w (lk_send l))"
    and i: "i < seg_count (s_w (lk_send l)) (length (msgs (lk_base l + j)))"
  shows "(lk_base l + j, i) \<in> link_arrived msgs l"
proof -
  note d = link_invD [OF inv]
  let ?w = "s_w (lk_send l)"
  have jc: "j < w_cap ?w" using j(2) wnd_okD(12) [OF send_wnd_okD(1) [OF d(2)]] by simp
  have full: "ack_vec ?w seq vec j = m_full_ack_vec (msg_at ?w j)"
    using j(1) unfolding ack_count_def by (rule takeWhile_upt_nth)
  have "2 ^ seg_count ?w (length (msgs (lk_base l + j))) - 1 \<le> m_full_ack_vec (msg_at ?w j)"
    using d(7) j(2) by (simp add: sender_has_def)
  from full_vec_covers [OF send_vecs(2) [OF d(2) jc] this i] show ?thesis
    using ack_vecs_sound [OF inv a in_wnd j(2)] full by (simp add: sound_vec_def)
qed

text \<open>The messages behind the released ones move to the front.\<close>

lemma released_has:
  assumes ok: "send_wnd_ok sw" "send_wnd_ok sw'" and has: "sender_has msgs base (s_w sw)"
    and rel: "released_wnd (s_w sw) k vecs (s_w sw')"
  shows "sender_has msgs (base + k) (s_w sw')"
  unfolding sender_has_def
proof (intro allI impI)
  have wok: "wnd_ok (s_w sw)" by (rule send_wnd_okD(1) [OF ok(1)])
  fix j assume j: "j < w_size (s_w sw')"
  then have kj: "k + j < w_size (s_w sw)" using released_wndD(9) [OF rel] by simp
  have m: "m_len (msg_at (s_w sw') j) = m_len (msg_at (s_w sw) (k + j))"
    "m_full_ack_vec (msg_at (s_w sw') j) = m_full_ack_vec (msg_at (s_w sw) (k + j))"
    using released_inside [OF wok rel j] by simp_all
  have bytes: "wnd_bytes (s_w sw') = drop (k * w_msg_len (s_w sw)) (wnd_bytes (s_w sw))"
    using wnd_bytes_release [OF wok released_wndD(8,2,3,6) [OF rel] released_total [OF ok(1) rel]] .
  have "msg_bytes (s_w sw') (slot (s_w sw') j) = msg_bytes (s_w sw) (slot (s_w sw) (k + j))"
    by (rule msg_bytes_released [OF ok j released_wndD(9) [OF rel] bytes released_wndD(3) [OF rel] m(1)])
  then show "msg_bytes (s_w sw') (slot (s_w sw') j) = take (m_len (msg_at (s_w sw') j)) (msgs (base + k + j)) \<and>
      2 ^ seg_count (s_w sw') (length (msgs (base + k + j))) - 1 \<le> m_full_ack_vec (msg_at (s_w sw') j)"
    using has kj m seg_count_cong [OF released_wndD(4) [OF rel]] by (simp add: sender_has_def add.assoc)
qed

lemma link_inv_released:
  assumes inv: "link_inv msgs l" and ok: "send_wnd_ok sw" and rel: "released_wnd (s_w (lk_send l)) k vecs (s_w sw)"
    and sound: "\<And>j. j < w_size (s_w (lk_send l)) \<Longrightarrow> sound_vec (link_arrived msgs l) (lk_base l + j) (vecs j)"
    and arr: "\<And>j i. j < k \<Longrightarrow> i < seg_count (s_w (lk_send l)) (length (msgs (lk_base l + j))) \<Longrightarrow>
      (lk_base l + j, i) \<in> link_arrived msgs l"
  shows "link_inv msgs (l\<lparr>lk_send := sw, lk_base := lk_base l + k\<rparr>)"
proof -
  note d = link_invD [OF inv] and D = released_wndD [OF rel]
  let ?l = "l\<lparr>lk_send := sw, lk_base := lk_base l + k\<rparr>" let ?w = "s_w (lk_send l)"
  have wok: "wnd_ok ?w" by (rule send_wnd_okD(1) [OF d(2)])
  have R: "link_arrived msgs ?l = link_arrived msgs l" by (simp add: link_arrived_def)
  have sg: "seg_count (s_w sw) n = seg_count ?w n" for n using D(4) by (rule seg_count_cong)
  have tot: "lk_base l + k + w_size (s_w sw) = lk_base l + w_size ?w" using D(1,9) by simp
  show ?thesis
  proof (rule link_invI)
    show "w_seq (s_w (lk_send ?l)) = lk_base ?l mod 4096"
      using D(8) d(4) by (simp add: mod_add_left_eq)
    show "sender_has msgs (lk_base ?l) (s_w (lk_send ?l))"
      using released_has [OF d(2) ok d(7) rel] by simp
    show "frame_ok msgs (s_w (lk_send ?l)) f \<and> fst f < lk_base ?l + w_size (s_w (lk_send ?l))"
      if "f \<in> set (lk_segs ?l)" for f
      using d(8) [of f] that frame_ok_cong [OF D(4)] tot by simp
    show "sound_vec (link_arrived msgs ?l) (lk_base ?l + i) (m_cur_ack_vec (msg_at (s_w (lk_send ?l)) i))"
      if "i < w_size (s_w (lk_send ?l))" for i
      unfolding R using sound [of "k + i"] that D(9) released_inside [OF wok rel, of i] by (simp add: add.assoc)
    show "(c, i) \<in> link_arrived msgs ?l"
      if "c < lk_base ?l" "i < seg_count (s_w (lk_send ?l)) (length (msgs c))" for c i
      using that d(11) [of c i] arr [of "c - lk_base l" i] unfolding R
      by (cases "c < lk_base l") (simp_all add: sg)
    show "c < lk_base ?l + w_size (s_w (lk_send ?l))" if "(c, i) \<in> link_arrived msgs ?l" for c i
      using d(12) [of c i] that tot unfolding R by simp
    show "q = c mod 4096 \<and> v < 65536 \<and> sound_vec (link_arrived msgs ?l) c v" if "(c, q, v) \<in> set (lk_acks ?l)" for c q v
      unfolding R using that d(9) [of c q v] by simp
  qed (use d(1,3,5,6) ok D in simp_all)
qed

lemma link_inv_ack:
  assumes inv: "link_inv msgs l" and a: "(a, seq, vec) \<in> set (lk_acks l)" "\<not> ack_misread l a seq vec"
    and run: "arq__send_wnd_ack (lk_send l) seq vec = Some sw"
  shows "link_inv msgs (l\<lparr>lk_send := sw, lk_base := lk_base l + (w_size (s_w (lk_send l)) - w_size (s_w sw))\<rparr>)"
proof (cases "w_seq (s_w (lk_send l)) \<le> seq \<and> seq < w_seq (s_w (lk_send l)) + w_size (s_w (lk_send l))")
  case False
  then have "sw = lk_send l" using send_wnd_ack_outside [OF _ link_invD(2) [OF inv], of seq vec] run by auto
  then have "l\<lparr>lk_send := sw, lk_base := lk_base l + (w_size (s_w (lk_send l)) - w_size (s_w sw))\<rparr> = l" by simp
  then show ?thesis using inv by simp
next
  case True
  note d = link_invD [OF inv] and s = conjunct1 [OF True] conjunct2 [OF True]
  let ?k = "ack_count (s_w (lk_send l)) seq vec"
  have vec: "vec < 65536" using d(9) [OF a(1)] by blast
  have ok: "send_wnd_ok sw" and rel: "released_wnd (s_w (lk_send l)) ?k (ack_vec (s_w (lk_send l)) seq vec) (s_w sw)"
    using send_wnd_ack_eq [OF d(2) s vec] run by auto
  have k: "?k \<le> w_size (s_w (lk_send l))" by (rule released_wndD(1) [OF rel])
  have "link_inv msgs (l\<lparr>lk_send := sw, lk_base := lk_base l + ?k\<rparr>)"
    using k by (intro link_inv_released [OF inv ok rel] ack_vecs_sound [OF inv a s] ack_released_arrived [OF inv a s]) auto
  moreover have "w_size (s_w (lk_send l)) - w_size (s_w sw) = ?k" using k released_wndD(9) [OF rel] by simp
  ultimately show ?thesis by simp
qed

text \<open>The steps of the sender that only add bytes or move timers and cursor.\<close>

lemma link_inv_keep:
  assumes inv: "link_inv msgs l" and ok: "send_wnd_ok sw" "ptr_ok sp"
    and w: "w_seq (s_w sw) = w_seq (s_w (lk_send l))" "w_cap (s_w sw) = w_cap (s_w (lk_send l))"
      "w_seg_len (s_w sw) = w_seg_len (s_w (lk_send l))" "w_size (s_w (lk_send l)) \<le> w_size (s_w sw)"
    and has: "sender_has msgs (lk_base l) (s_w sw)"
    and vec: "\<forall>i < w_cap (s_w (lk_send l)). m_cur_ack_vec (msg_at (s_w sw) i) = m_cur_ack_vec (msg_at (s_w (lk_send l)) i)"
    and fs: "\<forall>f \<in> set fs. f \<in> set (lk_segs l) \<or> frame_ok msgs (s_w sw) f \<and> fst f < lk_base l + w_size (s_w sw)"
  shows "link_inv msgs (l\<lparr>lk_send := sw, lk_ptr := sp, lk_segs := fs\<rparr>)"
proof (rule link_inv_send [OF inv ok w has])
  fix i assume "i < w_size (s_w sw)"
  then have "i < w_cap (s_w (lk_send l))" using wnd_okD(12) [OF send_wnd_okD(1) [OF ok(1)]] w(2) by simp
  then show "m_cur_ack_vec (msg_at (s_w sw) i) = m_cur_ack_vec (msg_at (s_w (lk_send l)) i)" using vec by blast
qed (use fs in blast)

lemma link_inv_keep_send:
  assumes inv: "link_inv msgs l" and ok: "send_wnd_ok sw"
    and w: "w_seq (s_w sw) = w_seq (s_w (lk_send l))" "w_cap (s_w sw) = w_cap (s_w (lk_send l))"
      "w_seg_len (s_w sw) = w_seg_len (s_w (lk_send l))" "w_size (s_w (lk_send l)) \<le> w_size (s_w sw)"
    and has: "sender_has msgs (lk_base l) (s_w sw)"
    and vec: "\<forall>i < w_cap (s_w (lk_send l)). m_cur_ack_vec (msg_at (s_w sw) i) = m_cur_ack_vec (msg_at (s_w (lk_send l)) i)"
  shows "link_inv msgs (l\<lparr>lk_send := sw\<rparr>)"
  using link_inv_keep [OF inv ok link_invD(3) [OF inv] w has vec, of "lk_segs l"] by simp

text \<open>The number of the message behind a sequence number.\<close>

lemma seq_at_ofs: "w_seq w < 4096 \<Longrightarrow> seq < 4096 \<Longrightarrow> seq_at w (seq_ofs w seq) = seq"
  by (simp add: seq_at_def seq_ofs_def mod_add_right_eq)

lemma seq_ofs_at:
  assumes "w_seq w < 4096" "i < 4096"
  shows "seq_ofs w ((w_seq w + i) mod 4096) = i"
proof (cases "w_seq w + i < 4096")
  case True
  then show ?thesis using assms by (simp add: seq_ofs_def)
next
  case False
  then have "(w_seq w + i) mod 4096 = w_seq w + i - 4096" using assms by (simp add: le_mod_geq)
  then show ?thesis using assms False by (simp add: seq_ofs_def)
qed

lemma transmit_seq:
  assumes ok: "send_wnd_ok sw" and sp: "ptr_ok sp" and tx: "rtx < 2 ^ 32" "\<not> h_seg h0"
    "send_poll_header sw sp h0 rtx = Some (sw', sp', h)" "h_seg h"
  shows "h_seq_num h = seq_at (s_w sw') (seq_ofs (s_w sw') (h_seq_num h))"
proof -
  obtain r where n: "ptr_ok sp'" "send_wnd_ok sw'"
    "h = (if p_valid sp'
          then h0\<lparr>h_msg_len := seg_count (s_w sw) (m_len (w_msg (s_w sw) ! (p_seq sp' mod w_cap (s_w sw)))),
                 h_seq_num := p_seq sp', h_seg_id := p_seg sp', h_seg := True\<rparr>
          else h0)"
    using send_header_run [OF ok sp tx(1,3)] .
  then have "h_seq_num h < 4096" using tx(2,4) by (auto simp: ptr_ok_def split: if_splits)
  then show ?thesis using seq_at_ofs wnd_okD(11) [OF send_wnd_okD(1) [OF n(2)]] by simp
qed

lemma link_inv_transmit:
  assumes inv: "link_inv msgs l" and tx: "rtx < 2 ^ 32" "hdr_fits h0" "\<not> h_seg h0"
    "send_poll_header (lk_send l) (lk_ptr l) h0 rtx = Some (sw, sp, h)" "h_seg h"
    "i < w_size (s_w sw)" "h_seq_num h = seq_at (s_w sw) i" "sealed msgs (lk_base l) (s_w sw) i"
    "arq__wnd_seg (s_w sw) (h_seq_num h) (h_seg_id h) = Some (ofs, len)"
  shows "link_inv msgs (l\<lparr>lk_send := sw, lk_ptr := sp,
      lk_segs := (lk_base l + i, h\<lparr>h_seg_len := len\<rparr>, take len (drop ofs (w_buf (s_w sw)))) # lk_segs l\<rparr>)"
proof -
  note d = link_invD [OF inv]
  note t = transmit_frame [OF d(2,3) tx(1-4)]
  have "sender_has msgs (lk_base l) (s_w sw)" "w_seq (s_w sw) = lk_base l mod 4096" using d(4,7) t(3) by simp_all
  from t(4) [OF tx(5-8) this] tx(9) have
    "frame_ok msgs (s_w sw) (lk_base l + i, h\<lparr>h_seg_len := len\<rparr>, take len (drop ofs (w_buf (s_w sw))))" by auto
  then show ?thesis
    using t(1-3) d(7) tx(6) by (intro link_inv_keep [OF inv]) auto
qed

text \<open>A frame that is refused leaves the receiver as it is.\<close>

lemma segment_refused:
  assumes inv: "link_inv msgs l" and f: "(a, h, bs) \<in> set (lk_segs l)" and r: "r = lk_recv l"
    and a: "\<not> misread r a" "\<not> wanted r a"
    and run: "arq__recv_wnd_frame b (rc_wnd r) (h_seq_num h) (h_seg_id h) (h_msg_len h) bs (h_seg_len h) t = Some (k, rw)"
  shows "rw = rc_wnd r"
proof -
  note d = link_invD [OF inv]
  have fr: "frame_ok msgs (r_w (rc_wnd r)) (a, h, bs)" using d(8) [OF f] frame_ok_cong [OF d(6)] r by auto
  have "recv_holds msgs (rc_base r) (rc_wnd r)" using d(1) r by (simp add: receiver_inv_def)
  then have "receiver_safe msgs (rc_wnd r)" using recv_holdsD(1,6) by (auto simp: receiver_safe_def)
  from refused_frame [OF this a(2,1)] show ?thesis using run fr by (auto simp: frame_ok_def)
qed

lemma link_inv_segment_in:
  assumes inv: "link_inv msgs l" and f: "(a, h, bs) \<in> set (lk_segs l)" and r: "r = lk_recv l"
    and t: "t < 2 ^ 32"
    and run: "arq__recv_wnd_frame b (rc_wnd r) (h_seq_num h) (h_seg_id h) (h_msg_len h) bs (h_seg_len h) t = Some (k, rw)"
    and m: "\<not> misread r a"
  shows "link_inv msgs (l\<lparr>lk_recv := r\<lparr>rc_base := rc_base r + r_slide (rc_wnd r) - r_slide rw, rc_wnd := rw\<rparr>\<rparr>)"
proof (cases "wanted r a")
  case False
  then have "rw = rc_wnd r" using segment_refused [OF inv f r m] run by blast
  then show ?thesis using inv r by simp
next
  case True
  then have a: "rc_base r + r_slide (rc_wnd r) \<le> a" "a < rc_base r + r_slide (rc_wnd r) + w_cap (r_w (rc_wnd r))"
    by (simp_all add: wanted_def)
  note d = link_invD [OF inv]
  have fr: "frame_ok msgs (r_w (rc_wnd r)) (a, h, bs)" "a < lk_base l + w_size (s_w (lk_send l))"
    using d(8) [OF f] frame_ok_cong [OF d(6)] r by auto
  have ri: "receiver_inv msgs r" using d(1) r by simp
  note s = segment_in_inv [OF ri fr(1) a t run]
  let ?r = "r\<lparr>rc_base := rc_base r + r_slide (rc_wnd r) - r_slide rw, rc_wnd := rw\<rparr>"
  have "link_inv msgs (l\<lparr>lk_recv := ?r, lk_acks := lk_acks l\<rparr>)"
    using s(2,3) r fr(2) d(12) by (intro link_inv_recv [OF inv s(1)]) (auto simp: link_arrived_def)
  then show ?thesis by simp
qed

text \<open>
  A segment in flight that the receiver would misread belongs to a message the user has read: the
  windows are too small for the sender to be a whole sequence space ahead.
\<close>

lemma segment_misread_read:
  assumes inv: "link_inv msgs l" and f: "f \<in> set (lk_segs l)" and m: "misread (lk_recv l) (fst f)"
  shows "fst f < rc_base (lk_recv l) + r_slide (rc_wnd (lk_recv l))"
proof -
  note d = link_invD [OF inv]
  let ?r = "lk_recv l" let ?rw = "rc_wnd (lk_recv l)"
  have h: "recv_holds msgs (rc_base ?r) ?rw" using d(1) by (simp add: receiver_inv_def)
  note hd = recv_holdsD [OF h]
  have caps: "w_size (r_w ?rw) \<le> w_cap (r_w ?rw)" "w_size (s_w (lk_send l)) \<le> w_cap (s_w (lk_send l))"
    using wnd_okD(12) recv_wnd_okD(1) [OF hd(1)] send_wnd_okD(1) [OF d(2)] by blast+
  have "lk_base l \<le> rc_base ?r + w_size (r_w ?rw)"
  proof (cases "lk_base l")
    case (Suc c)
    have "0 < seg_count (r_w ?rw) (length (msgs c))"
      using fits_seg_count(1) [OF recv_wnd_okD(1) [OF hd(1)] hd(6)] by (simp add: Suc_le_eq)
    then have "(c, 0) \<in> link_arrived msgs l" using d(11) [of c 0] Suc seg_count_cong [OF d(6)] by simp
    then have "c < rc_base ?r + w_size (r_w ?rw)"
      using has_seg_bound(2) [OF h, of c 0] hd(4) by (cases "c < rc_base ?r + r_slide ?rw") (auto simp: link_arrived_def arrived_def)
    then show ?thesis using Suc by simp
  qed simp
  then have "fst f < rc_base ?r + 4095" using d(8) [OF f] caps d(5) hd(3) by linarith
  then show ?thesis using misread_range [OF h m] hd(3,4) caps by linarith
qed

lemma link_inv_app_recv:
  assumes inv: "link_inv msgs l" and r: "r = lk_recv l" and n: "dst_max < 2 ^ 32"
    and run: "arq__recv_wnd_recv (rc_wnd r) dst_max = Some (bs, rw)"
  shows "link_inv msgs (l\<lparr>lk_recv := r\<lparr>rc_wnd := rw, rc_out := rc_out r @ bs\<rparr>\<rparr>)"
proof -
  note d = link_invD [OF inv]
  have h: "recv_holds msgs (rc_base r) (rc_wnd r)" "rc_out r = read_upto msgs (rc_base r) (rc_wnd r)"
    using d(1) r by (simp_all add: receiver_inv_def)
  note a = arrived_recv [OF h(1) n run]
  let ?r = "r\<lparr>rc_wnd := rw, rc_out := rc_out r @ bs\<rparr>"
  have "receiver_inv msgs ?r"
    using recv_wnd_recv_holds [OF h(1) n] run h(2) by (auto simp: receiver_inv_def)
  then have "link_inv msgs (l\<lparr>lk_recv := ?r, lk_acks := lk_acks l\<rparr>)"
    using a r d(12) by (intro link_inv_recv [OF inv]) (auto simp: link_arrived_def)
  then show ?thesis by simp
qed

lemma link_inv_recv_tick:
  assumes inv: "link_inv msgs l" and r: "r = lk_recv l" and run: "recv_poll_timer (rc_wnd r) dt = Some rw"
  shows "link_inv msgs (l\<lparr>lk_recv := r\<lparr>rc_wnd := rw\<rparr>\<rparr>)"
proof -
  note d = link_invD [OF inv]
  have h: "recv_holds msgs (rc_base r) (rc_wnd r)" using d(1) r by (simp add: receiver_inv_def)
  note t = timer_holds [OF h run]
  have "receiver_inv msgs (r\<lparr>rc_wnd := rw\<rparr>)" using d(1) r t(2,3) by (simp add: receiver_inv_def)
  then have "link_inv msgs (l\<lparr>lk_recv := r\<lparr>rc_wnd := rw\<rparr>, lk_acks := lk_acks l\<rparr>)"
    using r t(1,4) d(12) by (intro link_inv_recv [OF inv]) (auto simp: link_arrived_def timer_ran_fields)
  then show ?thesis by simp
qed

lemma ack_out_named:
  assumes r: "receiver_inv msgs r" and run: "arq__recv_wnd_ack (rc_wnd r) = Some (Some (seq, vec), rw)"
  shows "seq_ofs (r_w (rc_wnd r)) seq < w_size (r_w (rc_wnd r))"
    "seq = (rc_base r + seq_ofs (r_w (rc_wnd r)) seq) mod 4096"
proof -
  let ?w = "r_w (rc_wnd r)"
  have h: "recv_holds msgs (rc_base r) (rc_wnd r)" using r by (simp add: receiver_inv_def)
  note hd = recv_holdsD [OF h]
  note wd = wnd_okD [OF recv_wnd_okD(1) [OF hd(1)]]
  from run [unfolded recv_wnd_ack_eq [OF hd(1)]] obtain i where i: "i < w_size ?w" "seq = (w_seq ?w + i) mod 4096"
    by (auto simp: find_Some_iff split: option.splits)
  have "seq_ofs ?w seq = i" unfolding i(2) using i(1) wd(11,12) hd(3) by (intro seq_ofs_at) linarith+
  then show "seq_ofs ?w seq < w_size ?w" "seq = (rc_base r + seq_ofs ?w seq) mod 4096"
    using i hd(2) by (simp_all add: mod_add_left_eq)
qed

lemma link_inv_ack_out:
  assumes inv: "link_inv msgs l" and r: "r = lk_recv l"
    and run: "arq__recv_wnd_ack (rc_wnd r) = Some (Some (seq, vec), rw)"
  defines "j \<equiv> seq_ofs (r_w (rc_wnd r)) seq"
  shows "link_inv msgs (l\<lparr>lk_recv := r\<lparr>rc_wnd := rw\<rparr>, lk_acks := (rc_base r + j, seq, vec) # lk_acks l\<rparr>)"
proof -
  note d = link_invD [OF inv]
  have ri: "receiver_inv msgs r" using d(1) r by simp
  note j = ack_out_named [OF ri run, folded j_def]
  note s = ack_out_sound [OF ri run j]
  then obtain ack where rw: "rw = (rc_wnd r)\<lparr>r_ack := ack\<rparr>" "length ack = length (r_ack (rc_wnd r))" by blast
  let ?r = "r\<lparr>rc_wnd := rw\<rparr>"
  have "receiver_inv msgs ?r"
    using ri rw by (simp add: receiver_inv_def recv_holds_ack read_upto_def)
  then show ?thesis
    using s(2,3) r j(2) d(12) rw by (intro link_inv_recv [OF inv]) (auto simp: link_arrived_def arrived_ack)
qed

lemma sender_anomalies_none: "sender_anomalies msgs base w = {} \<Longrightarrow> sender_has msgs base w"
  by (auto simp: sender_anomalies_def sender_has_halves split: if_splits)

lemma link_step_anomalies: "link_step b msgs l l' \<Longrightarrow> lk_anomalies l \<subseteq> lk_anomalies l'"
  by (erule link_step.cases) auto

lemma link_step_inv:
  assumes inv: "link_inv msgs l" and step: "link_step b msgs l l'" and clean: "lk_anomalies l' = {}"
  shows "link_inv msgs l'"
  using step
proof (cases rule: link_step.cases)
  case (app_send data tiny n sw)
  have "sender_has msgs (lk_base l) (s_w sw)" using clean app_send(1) by (intro sender_anomalies_none) simp
  then show ?thesis unfolding app_send(1) link_inv_anomalies
    using send_keeps_messages [OF link_invD(2) [OF inv] app_send(2-4)]
    by (intro link_inv_keep_send [OF inv]) auto
next
  case (app_flush sw)
  have "sender_has msgs (lk_base l) (s_w sw)" using clean app_flush(1) by (intro sender_anomalies_none) simp
  then show ?thesis unfolding app_flush(1) link_inv_anomalies
    using flush_keeps_messages [OF link_invD(2) [OF inv] app_flush(2)]
    by (intro link_inv_keep_send [OF inv]) auto
next
  case (tick dt sw)
  show ?thesis unfolding tick(1)
    using step_keeps_messages [OF link_invD(2) [OF inv] tick(2)] link_invD(7) [OF inv]
    by (intro link_inv_keep_send [OF inv]) auto
next
  case (transmit rtx h0 sw sp h ofs len i)
  have i: "i < w_size (s_w sw)" "sealed msgs (lk_base l) (s_w sw) i" using clean transmit(1) by (simp_all split: if_splits)
  have seq: "h_seq_num h = seq_at (s_w sw) i"
    using transmit_seq [OF link_invD(2,3) [OF inv] transmit(2,4-6)] transmit(8) by simp
  show ?thesis unfolding transmit(1) link_inv_anomalies
    by (rule link_inv_transmit [OF inv transmit(2-6) i(1) seq i(2) transmit(7)])
next
  case (idle rtx h0 sw sp h)
  note t = transmit_frame(1-3) [OF link_invD(2,3) [OF inv] idle(2-5)]
  have "link_inv msgs (l\<lparr>lk_send := sw, lk_ptr := sp, lk_segs := lk_segs l\<rparr>)"
    using t link_invD(7) [OF inv] by (intro link_inv_keep [OF inv]) auto
  then show ?thesis unfolding idle(1) by simp
next
  case (segment_in a h bs r t k rw)
  have "\<not> misread r a" using clean segment_in(1) by (simp split: if_splits)
  then show ?thesis unfolding segment_in(1) link_inv_anomalies by (rule link_inv_segment_in [OF inv segment_in(2-5)])
next
  case (app_recv dst_max r bs rw)
  show ?thesis unfolding app_recv(1) by (rule link_inv_app_recv [OF inv app_recv(3,2,4)])
next
  case (recv_tick r dt rw)
  show ?thesis unfolding recv_tick(1) by (rule link_inv_recv_tick [OF inv recv_tick(2,3)])
next
  case (ack_out r seq vec rw)
  show ?thesis unfolding ack_out(1) by (rule link_inv_ack_out [OF inv ack_out(2,3)])
next
  case (ack_in a seq vec sw)
  have "\<not> ack_misread l a seq vec" using clean ack_in(1) by (simp split: if_splits)
  then show ?thesis unfolding ack_in(1) link_inv_anomalies by (rule link_inv_ack [OF inv ack_in(2) _ ack_in(3)])
qed

text \<open>The invariant, for the runs in which nothing was recorded.\<close>

definition link_good :: "(nat \<Rightarrow> byte list) \<Rightarrow> link \<Rightarrow> bool" where
  "link_good msgs l \<longleftrightarrow> (lk_anomalies l = {} \<longrightarrow> link_inv msgs l)"

lemma link_step_good: "link_good msgs l \<Longrightarrow> link_step b msgs l l' \<Longrightarrow> link_good msgs l'"
  using link_step_inv link_step_anomalies unfolding link_good_def by blast

lemma link_start_inv:
  assumes "link_start msgs l"
  shows "link_inv msgs l"
proof -
  have r: "receiver_inv msgs (lk_recv l)" using receiver_start_inv assms by (simp add: link_start_def)
  then have h: "recv_holds msgs (rc_base (lk_recv l)) (rc_wnd (lk_recv l))" by (simp add: receiver_inv_def)
  have z: "rc_base (lk_recv l) = 0" "w_size (r_w (rc_wnd (lk_recv l))) = 0"
    using assms recv_wnd_rst_ok by (force simp: link_start_def receiver_start_def)+
  then have sl: "r_slide (rc_wnd (lk_recv l)) = 0" using recv_holdsD(4) [OF h] by simp
  have "link_arrived msgs l = {}"
    using has_seg_bound(2) [OF h] z sl by (auto simp: link_arrived_def arrived_def)
  then show ?thesis
    using assms r by (intro link_invI) (auto simp: link_start_def ptr_ok_def sender_has_def)
qed

lemma link_start_good: "link_start msgs l \<Longrightarrow> link_good msgs l"
  using link_start_inv by (simp add: link_good_def)

interpretation link: invariant_system "link_start msgs" "link_step b msgs" "link_good msgs"
  by unfold_locales (fact link_start_good link_step_good)+

lemma link_reach_inv:
  "reach (link_start msgs) (link_step b msgs) l \<Longrightarrow> lk_anomalies l = {} \<Longrightarrow> link_inv msgs l"
  using link.reach_inv by (auto simp: link_good_def)

end
