(* ===== verification/Arq_Stream.thy ===== *)
theory Arq_Stream imports Arq_Link begin

text \<open>
  What the pair of \<open>Arq_Link\<close> promises to its users: it refines an abstract stream, and the bytes of
  a segment travel from the send window through both frames into the receive window.
\<close>

section \<open>The abstract stream\<close>

text \<open>
  What the two parties implement: segments arrive in any order, the reader sees a growing prefix of
  the stream that reaches only into messages that have arrived whole, and the writer forgets only
  messages that have arrived whole.
\<close>

record stream =
  st_arrived :: "(nat \<times> nat) set"
  st_released :: nat
  st_out :: "byte list"

definition seg_total :: "nat \<Rightarrow> byte list \<Rightarrow> nat" where
  "seg_total n M = (length M + n - 1) div n"

definition whole :: "nat \<Rightarrow> (nat \<Rightarrow> byte list) \<Rightarrow> (nat \<times> nat) set \<Rightarrow> nat \<Rightarrow> bool" where
  "whole n msgs R m \<longleftrightarrow> (\<forall>a < m. \<forall>k < seg_total n (msgs a). (a, k) \<in> R)"

inductive stream_step :: "nat \<Rightarrow> (nat \<Rightarrow> byte list) \<Rightarrow> stream \<Rightarrow> stream \<Rightarrow> bool"
  for n :: nat and msgs :: "nat \<Rightarrow> byte list" where
  stutter: "stream_step n msgs s s"
| arrive: "k < seg_total n (msgs a) \<Longrightarrow> stream_step n msgs s (s\<lparr>st_arrived := insert (a, k) (st_arrived s)\<rparr>)"
| read: "out = st_out s @ bs \<Longrightarrow> out = take x (concat (map msgs [0..<m])) \<Longrightarrow> whole n msgs (st_arrived s) m \<Longrightarrow>
    stream_step n msgs s (s\<lparr>st_out := out\<rparr>)"
| release: "st_released s \<le> m \<Longrightarrow> whole n msgs (st_arrived s) m \<Longrightarrow> stream_step n msgs s (s\<lparr>st_released := m\<rparr>)"

definition link_abs :: "(nat \<Rightarrow> byte list) \<Rightarrow> link \<Rightarrow> stream" where
  "link_abs msgs l = \<lparr>st_arrived = link_arrived msgs l, st_released = lk_base l, st_out = rc_out (lk_recv l)\<rparr>"

lemma seg_total_count: "seg_count w (length M) = seg_total (w_seg_len w) M"
  by (simp add: seg_count_def seg_total_def)

lemma read_whole:
  assumes r: "receiver_inv msgs r"
  shows "\<exists>x m. rc_out r = take x (concat (map msgs [0..<m])) \<and>
    whole (w_seg_len (r_w (rc_wnd r))) msgs (arrived msgs (rc_base r) (rc_wnd r)) m"
proof -
  let ?rw = "rc_wnd r" let ?n = "rc_base r + r_slide (rc_wnd r)" let ?l = "w_seg_len (r_w (rc_wnd r))"
  have h: "recv_holds msgs (rc_base r) ?rw" and out: "rc_out r = read_upto msgs (rc_base r) ?rw"
    using r by (simp_all add: receiver_inv_def)
  note hd = recv_holdsD [OF h]
  have before: "whole ?l msgs (arrived msgs (rc_base r) ?rw) ?n"
    by (simp add: whole_def arrived_def seg_total_count)
  show ?thesis
  proof (cases "r_copy_ofs ?rw = 0")
    case True
    then have "rc_out r = take (length (concat (map msgs [0..<?n]))) (concat (map msgs [0..<?n]))"
      using out by (simp add: read_upto_def)
    then show ?thesis using before by blast
  next
    case False
    then have sl: "r_slide ?rw < w_size (r_w ?rw)" "complete_msg (msg_at (r_w ?rw) (r_slide ?rw))" using hd(9,10) by blast+
    have sc: "r_slide ?rw < w_cap (r_w ?rw)" using sl(1) wnd_okD(12) [OF recv_wnd_okD(1) [OF hd(1)]] by simp
    have "(?n, k) \<in> arrived msgs (rc_base r) ?rw" if "k < seg_count (r_w ?rw) (length (msgs ?n))" for k
      using complete_all_marked [OF hd(7) [OF sc order.refl sl(1)] sl(2) that] that sc
      by (auto simp: arrived_def has_seg_def holds_slot [OF h])
    then have "whole ?l msgs (arrived msgs (rc_base r) ?rw) (Suc ?n)"
      using before by (auto simp: whole_def less_Suc_eq seg_total_count)
    moreover have "rc_out r = take (length (concat (map msgs [0..<?n])) + r_copy_ofs ?rw) (concat (map msgs [0..<Suc ?n]))"
      using out by (simp add: read_upto_def)
    ultimately show ?thesis by blast
  qed
qed

lemma released_whole:
  assumes "link_inv msgs l"
  shows "whole (w_seg_len (s_w (lk_send l))) msgs (link_arrived msgs l) (lk_base l)"
  using link_invD(11) [OF assms] by (simp add: whole_def seg_total_count)

lemma link_step_simulated:
  assumes inv: "link_inv msgs l" and step: "link_step b msgs l l'" and clean: "lk_anomalies l' = {}"
  shows "stream_step (w_seg_len (s_w (lk_send l))) msgs (link_abs msgs l) (link_abs msgs l')"
proof -
  note d = link_invD [OF inv]
  have inv': "link_inv msgs l'" by (rule link_step_inv [OF inv step clean])
  have stay: "link_abs msgs l' = link_abs msgs l \<Longrightarrow> ?thesis" by (simp add: stutter)
  show ?thesis
    using step
  proof (cases rule: link_step.cases)
    case (segment_in a h bs r t k rw)
    have f: "frame_ok msgs (r_w (rc_wnd r)) (a, h, bs)"
      using d(8) [OF segment_in(2)] frame_ok_cong [OF d(6)] segment_in(3) by auto
    have ri: "receiver_inv msgs r" using d(1) segment_in(3) by simp
    have m: "\<not> misread r a" using clean segment_in(1) by (simp split: if_splits)
    show ?thesis
    proof (cases "wanted r a")
      case False
      then have "rw = rc_wnd r" using segment_refused [OF inv segment_in(2,3) m _ segment_in(5)] by blast
      then show ?thesis using segment_in(1,3) by (intro stay) (simp add: link_abs_def link_arrived_def)
    next
      case True
      then have a: "rc_base r + r_slide (rc_wnd r) \<le> a" "a < rc_base r + r_slide (rc_wnd r) + w_cap (r_w (rc_wnd r))"
        by (simp_all add: wanted_def)
      have "link_abs msgs l' = (link_abs msgs l)\<lparr>st_arrived := insert (a, h_seg_id h) (st_arrived (link_abs msgs l))\<rparr>"
        using segment_in_inv(3) [OF ri f a segment_in(4,5)] segment_in(1,3) by (simp add: link_abs_def link_arrived_def)
      moreover have "h_seg_id h < seg_total (w_seg_len (s_w (lk_send l))) (msgs a)"
        using d(8) [OF segment_in(2)] by (simp add: frame_ok_def seg_total_count)
      ultimately show ?thesis by (simp add: arrive)
    qed
  next
    case (app_recv dst_max r bs rw)
    have h: "recv_holds msgs (rc_base r) (rc_wnd r)" using d(1) app_recv(3) by (simp add: receiver_inv_def)
    note a = arrived_recv [OF h app_recv(2,4)]
    have "receiver_inv msgs (lk_recv l')" by (rule link_invD(1) [OF inv'])
    from read_whole [OF this] obtain x m where "rc_out r @ bs = take x (concat (map msgs [0..<m]))"
      "whole (w_seg_len (s_w (lk_send l))) msgs (link_arrived msgs l) m"
      using a app_recv(1,3) d(6) by (auto simp: link_arrived_def)
    moreover have "link_abs msgs l' = (link_abs msgs l)\<lparr>st_out := rc_out r @ bs\<rparr>"
      using a(1) app_recv(1,3) by (simp add: link_abs_def link_arrived_def)
    ultimately show ?thesis
      using stream_step.read [of "rc_out r @ bs" "link_abs msgs l" bs] app_recv(3) by (simp add: link_abs_def)
  next
    case (recv_tick r dt rw)
    have "recv_holds msgs (rc_base r) (rc_wnd r)" using d(1) recv_tick(2) by (simp add: receiver_inv_def)
    from timer_holds(4) [OF this recv_tick(3)] show ?thesis
      using recv_tick(1,2) by (intro stay) (simp add: link_abs_def link_arrived_def)
  next
    case (ack_out r seq vec rw)
    have ri: "receiver_inv msgs r" using d(1) ack_out(2) by simp
    from ack_out_sound(1) [OF ri ack_out(3) ack_out_named [OF ri ack_out(3)]] show ?thesis
      by (intro stay) (auto simp: ack_out(1,2) link_abs_def link_arrived_def arrived_ack)
  next
    case (ack_in a seq vec sw)
    have "link_abs msgs l' = (link_abs msgs l)\<lparr>st_released := lk_base l'\<rparr>" "lk_base l \<le> lk_base l'"
      "link_arrived msgs l' = link_arrived msgs l" "w_seg_len (s_w (lk_send l')) = w_seg_len (r_w (rc_wnd (lk_recv l')))"
      "lk_recv l' = lk_recv l"
      using ack_in(1) link_invD(6) [OF inv'] by (simp_all add: link_abs_def link_arrived_def)
    then show ?thesis
      using released_whole [OF inv'] release [of "link_abs msgs l" "lk_base l'"] d(6) by (simp add: link_abs_def)
  qed (auto simp: link_abs_def link_arrived_def intro: stutter)
qed

text \<open>The frames in flight are taken without a fault.\<close>

lemma segment_taken:
  assumes inv: "link_inv msgs l" and f: "(a, h, bs) \<in> set (lk_segs l)" and t: "t < 2 ^ 32"
  shows "arq__recv_wnd_frame b (rc_wnd (lk_recv l)) (h_seq_num h) (h_seg_id h) (h_msg_len h) bs (h_seg_len h) t \<noteq> None"
proof -
  note d = link_invD [OF inv]
  let ?rw = "rc_wnd (lk_recv l)"
  have "recv_holds msgs (rc_base (lk_recv l)) ?rw" using d(1) by (simp add: receiver_inv_def)
  then have "receiver_safe msgs ?rw" using recv_holdsD(1,6) by (auto simp: receiver_safe_def)
  moreover have "frame_ok msgs (r_w ?rw) (a, h, bs)" using d(8) [OF f] frame_ok_cong [OF d(6)] by simp
  ultimately show ?thesis using receiver_safe_frame [OF _ _ t, of msgs ?rw "h_seg_id h" a b] by (auto simp: frame_ok_def)
qed

lemma ack_taken:
  assumes inv: "link_inv msgs l" and a: "(a, seq, vec) \<in> set (lk_acks l)"
  shows "arq__send_wnd_ack (lk_send l) seq vec \<noteq> None"
proof -
  note d = link_invD [OF inv]
  have vec: "vec < 65536" using d(9) [OF a] by blast
  show ?thesis
  proof (cases "w_seq (s_w (lk_send l)) \<le> seq \<and> seq < w_seq (s_w (lk_send l)) + w_size (s_w (lk_send l))")
    case True
    then show ?thesis using send_wnd_ack_eq [OF d(2) _ _ vec, of seq] by auto
  next
    case False
    then show ?thesis using send_wnd_ack_outside [OF _ d(2), of seq vec] by auto
  qed
qed

section \<open>Properties\<close>

text \<open>
  C1. Nothing is lost, altered, repeated or reordered on the way to the reader, as long as no anomaly
  was recorded. Two parties run over a channel that loses, repeats, reorders and delays frames, with
  users who send, flush and read at will; in every state they reach in which nothing was recorded, the
  bytes the reader has got are a prefix of the stream, taken from messages all of whose segments have
  arrived, the sender has released only messages all of whose segments have arrived, and every frame
  in flight is taken without a fault. What can be misread next is only a repeated segment of a message
  that was read before, or an acknowledgement at least 2048 messages old.
\<close>

theorem transfer_is_reliable:
  assumes "reach (link_start msgs) (link_step b msgs) l" and "lk_anomalies l = {}"
  defines "n \<equiv> w_seg_len (s_w (lk_send l))" and "r \<equiv> lk_recv l"
  shows "(\<exists>x m. rc_out r = take x (concat (map msgs [0..<m])) \<and> whole n msgs (link_arrived msgs l) m) \<and>
    whole n msgs (link_arrived msgs l) (lk_base l) \<and>
    (\<forall>(a, k) \<in> link_arrived msgs l. a < lk_base l + w_size (s_w (lk_send l))) \<and>
    (\<forall>(a, h, bs) \<in> set (lk_segs l). \<forall>t < 2 ^ 32.
      arq__recv_wnd_frame b (rc_wnd r) (h_seq_num h) (h_seg_id h) (h_msg_len h) bs (h_seg_len h) t \<noteq> None) \<and>
    (\<forall>(a, seq, vec) \<in> set (lk_acks l). arq__send_wnd_ack (lk_send l) seq vec \<noteq> None) \<and>
    (\<forall>f \<in> set (lk_segs l). misread r (fst f) \<longrightarrow> fst f < rc_base r + r_slide (rc_wnd r)) \<and>
    (\<forall>(a, seq, vec) \<in> set (lk_acks l). ack_misread l a seq vec \<longrightarrow> a + 2048 \<le> lk_base l)"
proof -
  have inv: "link_inv msgs l" by (rule link_reach_inv [OF assms(1,2)])
  note d = link_invD [OF inv]
  show ?thesis
    using read_whole [OF d(1)] released_whole [OF inv] d(6,12) segment_taken [OF inv, of _ _ _ _ b] ack_taken [OF inv]
      segment_misread_read [OF inv] ack_misread_old [OF inv]
    unfolding n_def r_def link_arrived_def by auto
qed

text \<open>
  C4. The protocol refines the abstract stream: every step of the two parties that leaves no anomaly
  recorded, whatever the window code does with sequence numbers, vectors and buffers, is a step of
  the stream or leaves it alone.
\<close>

theorem link_refines_stream:
  assumes "reach (link_start msgs) (link_step b msgs) l" "link_step b msgs l l'" "lk_anomalies l' = {}"
  shows "stream_step (w_seg_len (s_w (lk_send l))) msgs (link_abs msgs l) (link_abs msgs l')"
proof (rule link_step_simulated [OF link_reach_inv [OF assms(1)] assms(2,3)])
  show "lk_anomalies l = {}" using link_step_anomalies [OF assms(2)] assms(3) by simp
qed

section \<open>A transfer, step by step\<close>

text \<open>
  The sender is given three bytes and flushes; both segments are sent, arrive in the wrong order and
  are acknowledged at once; the sender releases the message and the reader takes it.
\<close>

definition demo_sender :: arq__send_wnd_t where
  "demo_sender = \<lparr>s_w = demo_wnd, s_rtx = [0, 0], s_tiny = 0, s_tiny_on = False\<rparr>"

definition demo_full :: arq__wnd_t where
  "demo_full = demo_wnd\<lparr>w_msg := [\<lparr>m_len = 3, m_cur_ack_vec = 0, m_full_ack_vec = 3\<rparr>,
     \<lparr>m_len = 0, m_cur_ack_vec = 0, m_full_ack_vec = 3\<rparr>], w_buf := [1, 2, 3, 0, 0, 0, 0, 0], w_size := 1\<rparr>"

definition demo_sent :: "nat \<Rightarrow> arq__send_wnd_t" where
  "demo_sent rtx = \<lparr>s_w = demo_full, s_rtx = [rtx, 0], s_tiny = 10, s_tiny_on = True\<rparr>"

definition demo_hdr :: "nat \<Rightarrow> arq__frame_hdr_t" where
  "demo_hdr s = arq__frame_hdr_init\<lparr>h_msg_len := 2, h_seg_id := s, h_seg := True\<rparr>"

definition demo_seg :: "nat \<Rightarrow> nat \<times> arq__frame_hdr_t \<times> byte list" where
  "demo_seg s = (if s = 0 then (0, (demo_hdr 0)\<lparr>h_seg_len := 2\<rparr>, [1, 2]) else (0, (demo_hdr 1)\<lparr>h_seg_len := 1\<rparr>, [3]))"

definition demo_link0 :: link where
  "demo_link0 = \<lparr>lk_base = 0, lk_send = demo_sender, lk_ptr = \<lparr>p_seq = 0, p_seg = 0, p_valid = False\<rparr>,
     lk_segs = [], lk_acks = [], lk_recv = demo_receiver demo_recv_wnd [], lk_anomalies = {}\<rparr>"

definition demo_link1 :: link where
  "demo_link1 = demo_link0\<lparr>lk_send := demo_sent 10\<rparr>"

definition demo_link2 :: link where
  "demo_link2 = demo_link1\<lparr>lk_send := demo_sent 0\<rparr>"

definition demo_link3 :: link where
  "demo_link3 = demo_link2\<lparr>lk_send := demo_sent 0, lk_ptr := \<lparr>p_seq = 0, p_seg = 0, p_valid = True\<rparr>,
     lk_segs := demo_seg 0 # lk_segs demo_link2\<rparr>"

definition demo_link4 :: link where
  "demo_link4 = demo_link3\<lparr>lk_send := demo_sent 0, lk_ptr := \<lparr>p_seq = 0, p_seg = 1, p_valid = True\<rparr>,
     lk_segs := demo_seg 1 # lk_segs demo_link3\<rparr>"

definition demo_link5 :: link where
  "demo_link5 = demo_link4\<lparr>lk_recv := \<lparr>rc_base = 0, rc_wnd = demo_rw1, rc_out = [], rc_misread = False\<rparr>\<rparr>"

definition demo_link6 :: link where
  "demo_link6 = demo_link5\<lparr>lk_recv := \<lparr>rc_base = 0, rc_wnd = demo_rw2, rc_out = [], rc_misread = False\<rparr>\<rparr>"

definition demo_link7 :: link where
  "demo_link7 = demo_link6\<lparr>lk_recv := \<lparr>rc_base = 0, rc_wnd = demo_rw2\<lparr>r_ack := [False, False]\<rparr>, rc_out = [], rc_misread = False\<rparr>,
     lk_acks := [(0, 0, 3)]\<rparr>"

definition demo_link8 :: link where
  "demo_link8 = demo_link7\<lparr>lk_send := the (arq__send_wnd_ack (demo_sent 0) 0 3), lk_base := 1\<rparr>"

definition demo_link9 :: link where
  "demo_link9 = demo_link8\<lparr>lk_recv := \<lparr>rc_base = 0,
     rc_wnd = snd (the (arq__recv_wnd_recv (demo_rw2\<lparr>r_ack := [False, False]\<rparr>) 3)), rc_out = [1, 2, 3], rc_misread = False\<rparr>\<rparr>"

lemmas demo_links = demo_link0_def demo_link1_def demo_link2_def demo_link3_def demo_link4_def
  demo_link5_def demo_link6_def demo_link7_def demo_link8_def demo_link9_def

lemma demo_link_start: "link_start demo_msgs demo_link0"
proof -
  have "send_wnd_ok demo_sender"
    by (auto simp: send_wnd_ok_def wnd_ok_def segs_def send_msg_ok_def slot_def fresh_msg_def demo_sender_def
        demo_wnd_def dest!: less_2_cases)
  then show ?thesis
    using demo_receiver_start
    by (simp add: link_start_def demo_link0_def demo_sender_def demo_wnd_def demo_recv_wnd_def)
qed

lemma demo_has: "sender_has demo_msgs 0 demo_full" "sealed demo_msgs 0 demo_full 0"
  by (simp_all add: sender_has_def sealed_def demo_full_def demo_wnd_def demo_msgs_def msg_bytes_def
      seg_count_def slot_def)

text \<open>Steps that record nothing.\<close>

lemma sender_has_clean: "sender_has msgs base w \<Longrightarrow> sender_anomalies msgs base w = {}"
  by (simp add: sender_anomalies_def sender_has_halves)

lemma keep_anomalies:
  "l\<lparr>lk_send := sw, lk_anomalies := lk_anomalies l\<rparr> = l\<lparr>lk_send := sw\<rparr>"
  "l\<lparr>lk_send := sw, lk_base := n, lk_anomalies := lk_anomalies l\<rparr> = l\<lparr>lk_send := sw, lk_base := n\<rparr>"
  "l\<lparr>lk_recv := r, lk_anomalies := lk_anomalies l\<rparr> = l\<lparr>lk_recv := r\<rparr>"
  "l\<lparr>lk_send := sw, lk_ptr := sp, lk_segs := fs, lk_anomalies := lk_anomalies l\<rparr> =
    l\<lparr>lk_send := sw, lk_ptr := sp, lk_segs := fs\<rparr>"
  by (cases l, simp)+

lemma demo_link_step1: "link_step le_build demo_msgs demo_link0 demo_link1"
  unfolding demo_link1_def
proof -
  have "arq__send_wnd_send (lk_send demo_link0) [1, 2, 3] (length [1, 2, 3 :: byte]) 10 = Some (3, demo_sent 10)"
    by code_simp
  moreover have "sender_anomalies demo_msgs (lk_base demo_link0) (s_w (demo_sent 10)) = {}"
    using demo_has by (intro sender_has_clean) (simp add: demo_link0_def demo_sent_def)
  ultimately show "link_step le_build demo_msgs demo_link0 (demo_link0\<lparr>lk_send := demo_sent 10\<rparr>)"
    using link_step.app_send [of "[1, 2, 3]" 10 demo_link0 3 "demo_sent 10" le_build demo_msgs] by (simp add: keep_anomalies)
qed

lemma demo_link_step2: "link_step le_build demo_msgs demo_link1 demo_link2"
  unfolding demo_link2_def
proof -
  have "arq__send_wnd_flush (lk_send demo_link1) = Some (demo_sent 0)" by code_simp
  moreover have "sender_anomalies demo_msgs (lk_base demo_link1) (s_w (demo_sent 0)) = {}"
    using demo_has by (intro sender_has_clean) (simp add: demo_links demo_sent_def)
  ultimately show "link_step le_build demo_msgs demo_link1 (demo_link1\<lparr>lk_send := demo_sent 0\<rparr>)"
    using link_step.app_flush [of demo_link1 "demo_sent 0" le_build demo_msgs] by (simp add: keep_anomalies)
qed

text \<open>The poll of the sender, from a state that has not sent segment \<open>s\<close> yet.\<close>

lemma demo_transmit:
  assumes "send_poll_header (demo_sent 0) (lk_ptr l) arq__frame_hdr_init 50 = Some (demo_sent 0, sp, demo_hdr s)"
    and "lk_send l = demo_sent 0" "lk_base l = 0" "s < 2"
  shows "link_step le_build demo_msgs l
    (l\<lparr>lk_send := demo_sent 0, lk_ptr := sp, lk_segs := demo_seg s # lk_segs l\<rparr>)"
proof -
  have seg: "arq__wnd_seg demo_full 0 0 = Some (0, 2)" "arq__wnd_seg demo_full 0 1 = Some (2, 1)" by code_simp+
  have "s = 0 \<or> s = 1" using assms(4) by linarith
  then obtain ofs len where
    w: "arq__wnd_seg demo_full 0 s = Some (ofs, len)"
      "demo_seg s = (0, (demo_hdr s)\<lparr>h_seg_len := len\<rparr>, take len (drop ofs (w_buf demo_full)))"
    using seg by (auto simp: demo_seg_def demo_full_def)
  have h: "h_seg (demo_hdr s)" "h_seq_num (demo_hdr s) = 0" "h_seg_id (demo_hdr s) = s" "s_w (demo_sent 0) = demo_full"
    "w_size demo_full = 1" "seq_ofs demo_full 0 = 0" "\<not> h_seg arq__frame_hdr_init"
    by (simp_all add: demo_hdr_def demo_sent_def demo_full_def demo_wnd_def seq_ofs_def arq__frame_hdr_init_def)
  show ?thesis
    using link_step.transmit [of 50 arq__frame_hdr_init l "demo_sent 0" sp "demo_hdr s" ofs len 0 le_build demo_msgs] assms(1-3) w h demo_has
    by (simp add: keep_anomalies)
qed

lemma demo_link_step3: "link_step le_build demo_msgs demo_link2 demo_link3"
  unfolding demo_link3_def by (rule demo_transmit) code_simp+

lemma demo_link_step4: "link_step le_build demo_msgs demo_link3 demo_link4"
  unfolding demo_link4_def by (rule demo_transmit) code_simp+

text \<open>A segment in flight reaches the receive window, which has not slid.\<close>

lemma demo_deliver:
  assumes "lk_recv l = \<lparr>rc_base = 0, rc_wnd = rw, rc_out = [], rc_misread = False\<rparr>" "r_slide rw = 0" "w_cap (r_w rw) = 2" "r_slide rw' = 0"
    and "(0, h, bs) \<in> set (lk_segs l)"
    and "arq__recv_wnd_frame le_build rw (h_seq_num h) (h_seg_id h) (h_msg_len h) bs (h_seg_len h) 9 = Some (k, rw')"
  shows "link_step le_build demo_msgs l (l\<lparr>lk_recv := \<lparr>rc_base = 0, rc_wnd = rw', rc_out = [], rc_misread = False\<rparr>\<rparr>)"
proof -
  have "\<not> misread (lk_recv l) 0" using assms(1-3) by (simp add: misread_def wanted_def)
  then show ?thesis
    using link_step.segment_in [OF assms(5) refl, of 9 le_build k rw' demo_msgs] assms by (simp add: keep_anomalies)
qed

lemma demo_link_step5: "link_step le_build demo_msgs demo_link4 demo_link5"
  unfolding demo_link5_def
proof (rule demo_deliver)
  show "lk_recv demo_link4 = \<lparr>rc_base = 0, rc_wnd = demo_recv_wnd, rc_out = [], rc_misread = False\<rparr>" by (simp add: demo_links)
  show "(0, (demo_hdr 1)\<lparr>h_seg_len := 1\<rparr>, [3]) \<in> set (lk_segs demo_link4)"
    by (simp add: demo_links demo_seg_def)
  show "arq__recv_wnd_frame le_build demo_recv_wnd (h_seq_num ((demo_hdr 1)\<lparr>h_seg_len := 1\<rparr>))
      (h_seg_id ((demo_hdr 1)\<lparr>h_seg_len := 1\<rparr>)) (h_msg_len ((demo_hdr 1)\<lparr>h_seg_len := 1\<rparr>)) [3]
      (h_seg_len ((demo_hdr 1)\<lparr>h_seg_len := 1\<rparr>)) 9 = Some (1, demo_rw1)"
    by code_simp
qed (fact demo_segments)+

lemma demo_link_step6: "link_step le_build demo_msgs demo_link5 demo_link6"
  unfolding demo_link6_def
proof (rule demo_deliver)
  show "lk_recv demo_link5 = \<lparr>rc_base = 0, rc_wnd = demo_rw1, rc_out = [], rc_misread = False\<rparr>" by (simp add: demo_links)
  show "(0, (demo_hdr 0)\<lparr>h_seg_len := 2\<rparr>, [1, 2]) \<in> set (lk_segs demo_link5)"
    by (simp add: demo_links demo_seg_def)
  show "arq__recv_wnd_frame le_build demo_rw1 (h_seq_num ((demo_hdr 0)\<lparr>h_seg_len := 2\<rparr>))
      (h_seg_id ((demo_hdr 0)\<lparr>h_seg_len := 2\<rparr>)) (h_msg_len ((demo_hdr 0)\<lparr>h_seg_len := 2\<rparr>)) [1, 2]
      (h_seg_len ((demo_hdr 0)\<lparr>h_seg_len := 2\<rparr>)) 9 = Some (2, demo_rw2)"
    by code_simp
  show "w_cap (r_w demo_rw1) = 2" by code_simp
qed (fact demo_segments)+

lemma demo_link_step7: "link_step le_build demo_msgs demo_link6 demo_link7"
proof -
  have a: "arq__recv_wnd_ack (rc_wnd (lk_recv demo_link6)) = Some (Some (0, 3), demo_rw2\<lparr>r_ack := [False, False]\<rparr>)"
    by code_simp
  have "seq_ofs (r_w (rc_wnd (lk_recv demo_link6))) 0 = 0" by code_simp
  with link_step.ack_out [OF refl a, of le_build demo_msgs] show ?thesis
    by (simp add: demo_links)
qed

lemma demo_link_step8: "link_step le_build demo_msgs demo_link7 demo_link8"
proof -
  have a: "arq__send_wnd_ack (lk_send demo_link7) 0 3 = Some (the (arq__send_wnd_ack (demo_sent 0) 0 3))"
    by code_simp
  have i: "(0, 0, 3) \<in> set (lk_acks demo_link7)" by (simp add: demo_links)
  have m: "\<not> ack_misread demo_link7 0 0 3" by code_simp
  have n: "lk_base demo_link7 + (w_size (s_w (lk_send demo_link7)) - w_size (s_w (the (arq__send_wnd_ack (demo_sent 0) 0 3)))) = 1"
    by code_simp
  from link_step.ack_in [OF i a, of le_build demo_msgs] show ?thesis
    unfolding n demo_link8_def using m by (simp add: keep_anomalies)
qed

lemma demo_link_step9: "link_step le_build demo_msgs demo_link8 demo_link9"
proof -
  let ?rw = "demo_rw2\<lparr>r_ack := [False, False]\<rparr>"
  have a: "arq__recv_wnd_recv (rc_wnd (lk_recv demo_link8)) 3 = Some ([1, 2, 3], snd (the (arq__recv_wnd_recv ?rw 3)))"
    by code_simp
  have "(3 :: nat) < 2 ^ 32" by simp
  from link_step.app_recv [OF this refl a, of le_build demo_msgs] show ?thesis
    by (simp add: demo_links)
qed

lemma demo_link_reach:
  "reach (link_start demo_msgs) (link_step le_build demo_msgs) demo_link2"
  "reach (link_start demo_msgs) (link_step le_build demo_msgs) demo_link8"
  "reach (link_start demo_msgs) (link_step le_build demo_msgs) demo_link9"
proof -
  let ?R = "reach (link_start demo_msgs) (link_step le_build demo_msgs)"
  have "?R demo_link0" using demo_link_start by (rule reach_start)
  from this demo_link_step1 have "?R demo_link1" by (rule reach_step)
  from this demo_link_step2 show two: "?R demo_link2" by (rule reach_step)
  from two demo_link_step3 have "?R demo_link3" by (rule reach_step)
  from this demo_link_step4 have "?R demo_link4" by (rule reach_step)
  from this demo_link_step5 have "?R demo_link5" by (rule reach_step)
  from this demo_link_step6 have "?R demo_link6" by (rule reach_step)
  from this demo_link_step7 have "?R demo_link7" by (rule reach_step)
  from this demo_link_step8 show a: "?R demo_link8" by (rule reach_step)
  show "reach (link_start demo_msgs) (link_step le_build demo_msgs) demo_link9"
    by (rule reach_step [OF a demo_link_step9])
qed

lemma demo_link_clean: "lk_anomalies demo_link2 = {}" "lk_anomalies demo_link8 = {}" "lk_anomalies demo_link9 = {}"
  by (simp_all add: demo_links)

theorem transfer_is_reliable_witness:
  "(\<exists>x m. [1, 2, 3] = take x (concat (map demo_msgs [0..<m]))) \<and> lk_base demo_link9 = 1 \<and>
     (0, 1) \<in> link_arrived demo_msgs demo_link9"
proof -
  have n: "rc_out (lk_recv demo_link9) = [1, 2, 3]" "lk_base demo_link9 = 1" by (simp_all add: demo_links)
  have "w_seg_len (s_w (lk_send demo_link9)) = 2" by code_simp
  then have "1 < seg_total (w_seg_len (s_w (lk_send demo_link9))) (demo_msgs 0)"
    by (simp add: seg_total_def demo_msgs_def)
  with transfer_is_reliable [OF demo_link_reach(3) demo_link_clean(3)] n show ?thesis
    by (auto simp: whole_def simp del: One_nat_def)
qed

theorem link_refines_stream_witness:
  "stream_step (w_seg_len (s_w (lk_send demo_link8))) demo_msgs (link_abs demo_msgs demo_link8) (link_abs demo_msgs demo_link9)"
  by (rule link_refines_stream [OF demo_link_reach(2) demo_link_step9 demo_link_clean(3)])

section \<open>The wire between the two windows\<close>

text \<open>
  What \<open>arq__recv_poll\<close> does with a frame that passes the checksum and carries a segment: the bytes
  behind the header go into the window.
\<close>

lemma recv_poll_delivers:
  assumes "rf_full rf" "arq__frame_read b (rf_buf rf) (rf_len rf) checksum =
      Some (ARQ__FRAME_READ_RESULT_SUCCESS, h, ofs, buf)"
    and "h_seg h" "h_seg_len h \<le> length (drop ofs buf)" "take (h_seg_len h) (drop ofs buf) = bs"
  shows "recv_poll_frame b rw rf checksum rh t =
    map_option (\<lambda>(n, rw'). (rw', frame_taken rf buf, h))
      (arq__recv_wnd_frame b rw (h_seq_num h) (h_seg_id h) (h_msg_len h) bs (h_seg_len h) t)"
  using assms(1-3) assms(5) [symmetric] recv_wnd_frame_take [OF assms(4), of b rw]
  by (auto simp: recv_poll_frame_def frame_taken_def split: Option.bind_splits)

text \<open>A segment of the send window, written to the send frame, reaches any receive window unchanged.\<close>

lemma segment_over_the_wire:
  assumes ok: "send_wnd_ok sw" and sf: "send_frame_ok (18 + w_seg_len (s_w sw)) sf"
    and h: "hdr_fits h" "h_seg h" "h_seg_id h < segs (s_w sw)"
    and seg: "arq__wnd_seg (s_w sw) (h_seq_num h) (h_seg_id h) = Some (ofs, len)" "0 < len"
    and rf: "recv_frame_ok f" "rf_len f = 0" "18 + w_seg_len (s_w sw) \<le> rf_cap f"
  defines "bs \<equiv> take len (drop ofs (w_buf (s_w sw)))"
  shows "\<exists>sf'. backend_emit b cfg sw h sf = Some sf' \<and>
    (\<forall>chunks rest. concat chunks = take (sf_len sf') (sf_buf sf') @ rest \<and> (\<forall>c\<in>set chunks. length c < 2 ^ 32) \<longrightarrow>
      (\<exists>f' buf. feed (\<lambda>f src. arq__recv_frame_fill f src (length src)) f chunks = Some (sf_len sf', f') \<and>
        (\<forall>rw rh t. recv_poll_frame b' rw f' (cfg_checksum cfg) rh t =
           map_option (\<lambda>(n, rw'). (rw', frame_taken f' buf, h\<lparr>h_seg_len := len\<rparr>))
             (arq__recv_wnd_frame b' rw (h_seq_num h) (h_seg_id h) (h_msg_len h) bs len t))))"
proof -
  let ?w = "s_w sw" let ?h = "h\<lparr>h_seg_len := len\<rparr>" let ?p = "Some (drop ofs (w_buf ?w))"
  have wd: "w_seg_len ?w \<le> 238" using wnd_okD(5) [OF send_wnd_okD(1) [OF ok]] .
  have e: "ofs = w_msg_len ?w * (h_seq_num h mod w_cap ?w) + w_seg_len ?w * h_seg_id h"
    "len = min (w_seg_len ?w) (sub32 (m_len (w_msg ?w ! (h_seq_num h mod w_cap ?w))) (w_seg_len ?w * h_seg_id h))"
    using send_window.wnd_seg_eq [OF ok h(3), of "h_seq_num h"] seg(1) by simp_all
  from backend_emit_segment [OF ok sf h, of b cfg, folded e] seg(2) obtain out
    where out: "arq__frame_write b ?h ?p (cfg_checksum cfg) (sf_buf sf) (sf_cap sf) = Some (18 + len, out)"
      "length out = length (sf_buf sf)" "len \<le> w_seg_len ?w" "ofs + w_seg_len ?w \<le> length (w_buf ?w)"
      and em: "backend_emit b cfg sw h sf =
        Some (sf\<lparr>sf_buf := out, sf_len := 18 + len, sf_state := ARQ__SEND_FRAME_STATE_FREE\<rparr>)"
    by blast
  have w: "hdr_fits ?h" "seg_readable ?p (h_seg_len ?h)" "h_seg_len ?h \<le> 238" "18 + h_seg_len ?h \<le> sf_cap sf"
    "18 + h_seg_len ?h \<le> length (sf_buf sf)" "18 + len \<le> rf_cap f"
    using h(1) out(3,4) wd sf rf(3) by (simp_all add: hdr_fits_def seg_readable_def send_frame_ok_def)
  show ?thesis
    unfolding em
  proof (rule exI, intro conjI allI impI, rule refl, simp, elim conjE)
    fix chunks rest assume c: "concat chunks = take (18 + len) out @ rest" "\<forall>c\<in>set chunks. length c < 4294967296"
    then have "\<forall>c\<in>set chunks. length c < 2 ^ 32" by simp
    from frame_wire [OF w(1-5) out(1) rf(1,2) w(6) c(1) this, of b'] obtain f' frame'
      where r: "feed (\<lambda>f src. arq__recv_frame_fill f src (length src)) f chunks = Some (18 + len, f')" "rf_full f'"
        "arq__frame_read b' (rf_buf f') (rf_len f') (cfg_checksum cfg) = Some (ARQ__FRAME_READ_RESULT_SUCCESS, ?h, 13, frame')"
        "take (h_seg_len ?h) (drop 13 frame') = seg_bytes ?p (h_seg_len ?h)"
      by blast
    have bs: "take (h_seg_len ?h) (drop 13 frame') = bs" using r(4) by (simp add: seg_bytes_def bs_def)
    then have "length (take (h_seg_len ?h) (drop 13 frame')) = len" using out(3,4) by (simp add: bs_def)
    then have "h_seg_len ?h \<le> length (drop 13 frame')" by simp
    note recv_poll_delivers [OF r(2,3) _ this bs]
    with h(2) have "\<forall>rw rh t. recv_poll_frame b' rw f' (cfg_checksum cfg) rh t =
        map_option (\<lambda>(n, rw'). (rw', frame_taken f' frame', ?h))
          (arq__recv_wnd_frame b' rw (h_seq_num h) (h_seg_id h) (h_msg_len h) bs len t)"
      by simp
    with r(1) show "\<exists>f'. feed (\<lambda>f src. arq__recv_frame_fill f src (length src)) f chunks = Some (18 + len, f') \<and>
      (\<exists>buf. \<forall>rw rh t. recv_poll_frame b' rw f' (cfg_checksum cfg) rh t =
        map_option (\<lambda>(n, rw'). (rw', frame_taken f' buf, ?h))
          (arq__recv_wnd_frame b' rw (h_seq_num h) (h_seg_id h) (h_msg_len h) bs len t))"
      by blast
  qed
qed

lemma frame_len: "frame_ok msgs w (a, h\<lparr>h_seg_len := len\<rparr>, bs) \<Longrightarrow> len = length bs"
  by (simp add: frame_ok_def)

text \<open>
  C5. What the sender transmits is what the receiver's window gets. In a reachable state with no
  recorded anomaly, take the segment that \<open>arq__send_poll\<close> chooses, of a finished message, write it to the
  send frame as \<open>arq_backend_poll\<close> does, and hand the bytes of this frame to the receive frame of a peer in
  any pieces: the peer decodes it, finds the checksum right, and gives its receive window the sequence number of the message, the number of
  the segment, the segment count, and the very bytes the user wrote at this place of the stream. It
  holds for either byte order at both ends, for every checksum function, and whatever the window is.
\<close>

theorem transmitted_segment_arrives:
  assumes "reach (link_start msgs) (link_step lb msgs) l" "lk_anomalies l = {}"
    and "rtx < 2 ^ 32" "hdr_fits h0" "\<not> h_seg h0" "send_poll_header (lk_send l) (lk_ptr l) h0 rtx = Some (sw, sp, h)"
    and "h_seg h" "i < w_size (s_w sw)" "h_seq_num h = seq_at (s_w sw) i" "sealed msgs (lk_base l) (s_w sw) i"
    and "send_frame_ok (18 + w_seg_len (s_w sw)) sf"
    and "recv_frame_ok f" "rf_len f = 0" "18 + w_seg_len (s_w sw) \<le> rf_cap f"
  defines "M \<equiv> msgs (lk_base l + i)"
  defines "bs \<equiv> msg_seg (w_seg_len (s_w sw)) M (h_seg_id h)"
  shows "\<exists>sf'. backend_emit b cfg sw h sf = Some sf' \<and>
    (\<forall>chunks rest. concat chunks = take (sf_len sf') (sf_buf sf') @ rest \<and> (\<forall>c\<in>set chunks. length c < 2 ^ 32) \<longrightarrow>
      (\<exists>f' buf. feed (\<lambda>f src. arq__recv_frame_fill f src (length src)) f chunks = Some (sf_len sf', f') \<and>
        (\<forall>rw rh t. recv_poll_frame b' rw f' (cfg_checksum cfg) rh t =
           map_option (\<lambda>(n, rw'). (rw', frame_taken f' buf, h\<lparr>h_seg_len := length bs\<rparr>))
             (arq__recv_wnd_frame b' rw ((lk_base l + i) mod 4096) (h_seg_id h) (seg_count (s_w sw) (length M))
                bs (length bs) t))))"
proof -
  note d = link_invD [OF link_reach_inv [OF assms(1,2)]]
  note t = transmit_frame [OF d(2,3) assms(3-6)]
  have "sender_has msgs (lk_base l) (s_w sw)" "w_seq (s_w sw) = lk_base l mod 4096" using d(4,7) t(3) by simp_all
  from t(4) [OF assms(7-10) this] obtain ofs len
    where s: "arq__wnd_seg (s_w sw) (h_seq_num h) (h_seg_id h) = Some (ofs, len)" "hdr_fits h"
        "h_seg_id h < segs (s_w sw)" "0 < len"
      and f: "frame_ok msgs (s_w sw) (lk_base l + i, h\<lparr>h_seg_len := len\<rparr>, take len (drop ofs (w_buf (s_w sw))))"
    by blast
  from f have eq: "h_seq_num h = (lk_base l + i) mod 4096" "h_msg_len h = seg_count (s_w sw) (length M)"
    and bs: "take len (drop ofs (w_buf (s_w sw))) = bs"
    by (simp_all add: frame_ok_def M_def bs_def)
  from frame_len [OF f]have "len = length bs" using bs by simp
  from segment_over_the_wire [OF t(1) assms(11) s(2) assms(7) s(3,1,4) assms(12-14), of b cfg b'] eq bs this
  show ?thesis by simp
qed

text \<open>The first segment of the transfer above, byte by byte from a little endian host to a big endian one.\<close>

definition demo_send_frame :: arq__send_frame_t where
  "demo_send_frame = \<lparr>sf_buf = replicate 20 7, sf_state = ARQ__SEND_FRAME_STATE_FREE, sf_cap = 20, sf_len = 0\<rparr>"

theorem transmitted_segment_arrives_witness:
  "\<exists>sf' f' buf rw'. backend_emit le_build demo_cfg (demo_sent 0) (demo_hdr 0) demo_send_frame = Some sf' \<and>
     feed (\<lambda>f src. arq__recv_frame_fill f src (length src)) demo_recv_frame
       (map (\<lambda>x. [x]) (take (sf_len sf') (sf_buf sf'))) = Some (sf_len sf', f') \<and>
     recv_poll_frame be_build demo_recv_wnd f' (cfg_checksum demo_cfg) arq__frame_hdr_init 9 =
       Some (rw', frame_taken f' buf, (demo_hdr 0)\<lparr>h_seg_len := 2\<rparr>) \<and> take 2 (w_buf (r_w rw')) = [1, 2]"
proof -
  have run: "send_poll_header (lk_send demo_link2) (lk_ptr demo_link2) arq__frame_hdr_init 50 =
      Some (demo_sent 0, \<lparr>p_seq = 0, p_seg = 0, p_valid = True\<rparr>, demo_hdr 0)"
    by code_simp
  have h: "\<not> h_seg arq__frame_hdr_init" "h_seg (demo_hdr 0)" "h_seq_num (demo_hdr 0) = seq_at (s_w (demo_sent 0)) 0"
    "h_seg_id (demo_hdr 0) = 0" "0 < w_size (s_w (demo_sent 0))" "w_seg_len (s_w (demo_sent 0)) = 2"
    "lk_base demo_link2 = 0" "sealed demo_msgs (lk_base demo_link2) (s_w (demo_sent 0)) 0"
    using demo_has by (simp_all add: demo_hdr_def demo_sent_def demo_full_def demo_wnd_def seq_at_def
        arq__frame_hdr_init_def demo_links)
  have f: "send_frame_ok (18 + w_seg_len (s_w (demo_sent 0))) demo_send_frame" "recv_frame_ok demo_recv_frame"
    "rf_len demo_recv_frame = 0" "18 + w_seg_len (s_w (demo_sent 0)) \<le> rf_cap demo_recv_frame"
    using demo_recv_frame_ok h(6) by (simp_all add: send_frame_ok_def demo_send_frame_def demo_recv_frame_def)
  have m: "msg_seg 2 (demo_msgs 0) 0 = [1, 2]" "seg_count (s_w (demo_sent 0)) (length (demo_msgs 0)) = 2"
    by code_simp+
  have rtx: "(50 :: nat) < 2 ^ 32" by simp
  from transmitted_segment_arrives [OF demo_link_reach(1) demo_link_clean(1) rtx hdr_init_fits h(1) run h(2,5,3,8) f, of le_build demo_cfg be_build]
  obtain sf' where sf': "backend_emit le_build demo_cfg (demo_sent 0) (demo_hdr 0) demo_send_frame = Some sf'"
    and all: "\<And>chunks rest. concat chunks = take (sf_len sf') (sf_buf sf') @ rest \<Longrightarrow> \<forall>c\<in>set chunks. length c < 2 ^ 32 \<Longrightarrow>
      \<exists>f' buf. feed (\<lambda>f src. arq__recv_frame_fill f src (length src)) demo_recv_frame chunks = Some (sf_len sf', f') \<and>
        (\<forall>rw rh t. recv_poll_frame be_build rw f' (cfg_checksum demo_cfg) rh t =
           map_option (\<lambda>(n, rw'). (rw', frame_taken f' buf, (demo_hdr 0)\<lparr>h_seg_len := 2\<rparr>))
             (arq__recv_wnd_frame be_build rw 0 0 2 [1, 2] 2 t))"
    unfolding h(4,6,7) add_0 m mod_0 by (auto simp: numeral_2_eq_2)
  let ?bs = "take (sf_len sf') (sf_buf sf')"
  have "concat (map (\<lambda>x. [x]) ?bs) = ?bs @ []" "\<forall>c\<in>set (map (\<lambda>x. [x]) ?bs). length c < 2 ^ 32" by auto
  from all [OF this] obtain f' buf
    where "feed (\<lambda>f src. arq__recv_frame_fill f src (length src)) demo_recv_frame (map (\<lambda>x. [x]) ?bs) = Some (sf_len sf', f')"
      "recv_poll_frame be_build demo_recv_wnd f' (cfg_checksum demo_cfg) arq__frame_hdr_init 9 =
         map_option (\<lambda>(n, rw'). (rw', frame_taken f' buf, (demo_hdr 0)\<lparr>h_seg_len := 2\<rparr>))
           (arq__recv_wnd_frame be_build demo_recv_wnd 0 0 2 [1, 2] 2 9)"
    by blast
  moreover have "arq__recv_wnd_frame be_build demo_recv_wnd 0 0 2 [1, 2] 2 9 =
      Some (2, snd (the (arq__recv_wnd_frame be_build demo_recv_wnd 0 0 2 [1, 2] 2 9)))"
    "take 2 (w_buf (r_w (snd (the (arq__recv_wnd_frame be_build demo_recv_wnd 0 0 2 [1, 2] 2 9))))) = [1, 2]"
    by code_simp+
  ultimately show ?thesis using sf' by auto
qed

end
