(* ===== verification/Arq_Findings.thy ===== *)
theory Arq_Findings imports Arq_Stream begin

text \<open>
  Concrete runs of \<open>src/arq.h\<close> outside the conditions the properties state: what the code does with a
  message that is sent again after it was read, with a retransmission timeout of zero, with data appended to a flushed message, with frames
  that fail their checksum or name impossible segments, and with configurations and buffers it takes
  without checking. Each lemma evaluates the model on one input.
\<close>

section \<open>The receive window\<close>

text \<open>
  The reader takes the first message before its acknowledgement went out. The acknowledgement reads
  the vector of the message, which \<open>arq__recv_wnd_recv\<close> has cleared: it names the message and marks no
  segment, so the sender keeps the message and sends it again.
\<close>

definition demo_read :: arq__recv_wnd_t where
  "demo_read = snd (the (arq__recv_wnd_recv demo_rw2 3))"

lemma read_message_acknowledged_as_missing:
  "map_option fst (arq__recv_wnd_recv demo_rw2 3) = Some [1, 2, 3] \<and>
   map_option fst (arq__recv_wnd_ack demo_read) = Some (Some (0, 0)) \<and>
   arq__send_wnd_ack (demo_sent 0) 0 0 = Some (demo_sent 0)"
  by (intro conjI) code_simp+

text \<open>
  The segments of that message arrive once more, then the next message arrives whole. The window has
  not slid yet and takes the old segments for new ones, and the reader gets the first message again,
  behind the second.
\<close>

definition demo_read_again :: arq__recv_wnd_t where
  "demo_read_again =
     (let step = (\<lambda>seq seg n bs rw. snd (the (arq__recv_wnd_frame release_build rw seq seg n bs (length bs) 9)))
      in step 1 1 2 [6, 7] (step 1 0 2 [4, 5] (step 0 1 2 [3] (step 0 0 2 [1, 2] demo_read))))"

lemma read_message_delivered_again:
  "map_option fst (arq__recv_wnd_recv demo_read_again 20) = Some [4, 5, 6, 7, 1, 2, 3]"
  by code_simp

text \<open>
  The same without any delay of the acknowledgement: messages 0 and 1 are read, message 2 slides the
  window to itself, and a repeated frame of message 1 arrives. Its distance from the window comes out
  as zero and it is stored, in the place that message 3 will have; message 3 is then dropped as a
  repetition, and the reader gets message 1 instead of it.
\<close>

definition demo_single :: "nat \<Rightarrow> byte \<Rightarrow> arq__recv_wnd_t \<Rightarrow> arq__recv_wnd_t option" where
  "demo_single seq x rw = map_option snd (arq__recv_wnd_frame release_build rw seq 0 1 [x] 1 9)"

lemma message_before_window_replaces_later_one:
  "do {
     rw \<leftarrow> demo_single 0 10 demo_recv_wnd;
     rw \<leftarrow> demo_single 1 11 rw;
     (out, rw) \<leftarrow> arq__recv_wnd_recv rw 20;
     rw \<leftarrow> demo_single 2 12 rw;
     rw \<leftarrow> demo_single 1 11 rw;
     rw \<leftarrow> demo_single 3 13 rw;
     (out', rw) \<leftarrow> arq__recv_wnd_recv rw 20;
     Some (out, out')
   } = Some ([10, 11], [12, 11])"
  by code_simp

text \<open>
  A message waits behind one that was read: \<open>arq__recv_wnd_recv\<close> would return its bytes, and
  \<open>arq__recv_wnd_pending\<close> answers that there are none, since it looks at the first message of the window.
\<close>

lemma pending_overlooks_message:
  "(let rw = snd (the (arq__recv_wnd_frame release_build demo_read 1 0 1 [4, 5] 2 9))
    in arq__recv_wnd_pending rw = Some False \<and> map_option fst (arq__recv_wnd_recv rw 9) = Some [4, 5])"
  by code_simp

text \<open>
  The segment number of a frame is not checked against the window: it reaches into the buffer of the
  next message, and beyond the buffer.
\<close>

lemma segment_number_unchecked:
  "map_option (\<lambda>(n, rw). (n, w_buf (r_w rw))) (arq__recv_wnd_frame release_build demo_recv_wnd 0 2 5 [8, 9] 2 9) =
     Some (2, [0, 0, 0, 0, 8, 9, 0, 0]) \<and>
   arq__recv_wnd_frame release_build demo_recv_wnd 0 4 5 [8, 9] 2 9 = None"
  by (intro conjI) code_simp+

section \<open>The send window\<close>

text \<open>
  One byte is sent and flushed, then three more follow into the same message. Its mask still asks for
  one segment only: acknowledging the first segment releases all four bytes.
\<close>

definition demo_appended :: arq__send_wnd_t where
  "demo_appended = snd (the (arq__send_wnd_send
     (the (arq__send_wnd_flush (snd (the (arq__send_wnd_send demo_sender [1] 1 10))))) [2, 3, 4] 3 10))"

lemma bytes_behind_flush_are_dropped:
  "w_size (s_w demo_appended) = 1 \<and> msg_bytes (s_w demo_appended) 0 = [1, 2, 3, 4] \<and>
   m_full_ack_vec (w_msg (s_w demo_appended) ! 0) = 1 \<and>
   map_option (\<lambda>sw. w_size (s_w sw)) (arq__send_wnd_ack demo_appended 0 1) = Some 0"
  by (intro conjI) code_simp+

text \<open>
  The message the send pointer points to is acknowledged as a whole. The pointer moves on inside the
  empty message, and the next frame carries two bytes of it, with a segment count of zero.
\<close>

lemma pointer_survives_acknowledgement:
  "(let sw = the (arq__send_wnd_ack (demo_sent 0) 0 3)
    in w_size (s_w sw) = 0 \<and>
       send_poll_header sw \<lparr>p_seq = 0, p_seg = 0, p_valid = True\<rparr> arq__frame_hdr_init 50 =
         Some (sw, \<lparr>p_seq = 0, p_seg = 1, p_valid = True\<rparr>, (demo_hdr 1)\<lparr>h_msg_len := 0\<rparr>) \<and>
       arq__wnd_seg (s_w sw) 0 1 = Some (2, 2))"
  unfolding Let_def by (intro conjI) code_simp+

text \<open>The window holds the messages 4095 and 0; the acknowledgement of message 0 is ignored.\<close>

lemma acknowledgement_ignored_behind_wrap:
  "(let sw = demo_send_wnd\<lparr>s_w := (s_w demo_send_wnd)\<lparr>w_seq := 4095\<rparr>\<rparr>
    in seq_at (s_w sw) 1 = 0 \<and> w_size (s_w sw) = 2 \<and> arq__send_wnd_ack sw 0 3 = Some sw)"
  by code_simp

text \<open>Sending to a full window takes nothing, and makes the last message due again.\<close>

lemma refused_send_clears_timer:
  "(let sw = demo_send_wnd\<lparr>s_w := (s_w demo_send_wnd)\<lparr>w_msg := [\<lparr>m_len = 4, m_cur_ack_vec = 1, m_full_ack_vec = 3\<rparr>,
        \<lparr>m_len = 4, m_cur_ack_vec = 0, m_full_ack_vec = 3\<rparr>]\<rparr>, s_tiny_on := False\<rparr>
    in s_rtx sw = [5, 9] \<and> arq__send_wnd_send sw [1] 1 10 = Some (0, sw\<lparr>s_rtx := [5, 0]\<rparr>))"
  by code_simp

text \<open>
  An acknowledgement that marks more segments than the message has: the message is neither released
  nor sent again.
\<close>

lemma excessive_vector_stalls:
  "(let sw = the (arq__send_wnd_ack (demo_sent 0) 0 7)
    in w_size (s_w sw) = 1 \<and>
       map_option (\<lambda>(r, p). p_valid p) (arq__send_wnd_ptr_next \<lparr>p_seq = 0, p_seg = 0, p_valid = False\<rparr> sw) = Some False)"
  by code_simp

text \<open>
  A retransmission timeout of zero, which \<open>arq__check_cfg\<close> accepts: a message is due again as soon as the
  pointer has left it, and the pointer goes back to the first of three messages before it gets to the third.
\<close>

definition demo_three :: arq__send_wnd_t where
  "demo_three = (let m = \<lparr>m_len = 2, m_cur_ack_vec = 0, m_full_ack_vec = 1\<rparr>
     in \<lparr>s_w = demo_wnd\<lparr>w_msg := [m, m, m, m\<lparr>m_len := 0\<rparr>], w_buf := [1, 2, 3, 4, 5, 6, 0, 0], w_size := 3, w_cap := 4,
            w_full_ack_vec := 1, w_msg_len := 2\<rparr>,
        s_rtx = [0, 0, 0, 0], s_tiny = 0, s_tiny_on = False\<rparr>)"

lemma zero_timeout_starves_third_message:
  "do {
     (sw, p, h0) \<leftarrow> send_poll_header demo_three \<lparr>p_seq = 0, p_seg = 0, p_valid = False\<rparr> arq__frame_hdr_init 0;
     (sw, p, h1) \<leftarrow> send_poll_header sw p arq__frame_hdr_init 0;
     (sw, p, h2) \<leftarrow> send_poll_header sw p arq__frame_hdr_init 0;
     (sw, p, h3) \<leftarrow> send_poll_header sw p arq__frame_hdr_init 0;
     Some (map h_seq_num [h0, h1, h2, h3])
   } = Some [0, 1, 0, 1] \<and>
   arq__check_cfg (demo_cfg\<lparr>retransmission_timeout := 0\<rparr>) = ARQ_OK_COMPLETED"
  by (intro conjI) code_simp+

section \<open>Frames and buffers\<close>

text \<open>
  The header of a frame that failed its checksum is handed on, and the send window takes the
  acknowledgement in it.
\<close>

lemma rejected_header_is_used:
  assumes "rf_full rf" "arq__frame_read b (rf_buf rf) (rf_len rf) checksum =
      Some (ARQ__FRAME_READ_RESULT_ERR_CHECKSUM, h, ofs, buf)"
    and "h_ack h" "h_ack_num h = 0" "h_cur_ack_vec h = 3"
  shows "recv_poll_frame b rw rf checksum rh t = Some (rw, frame_taken rf buf, h)"
    "map_option (\<lambda>sw. w_size (s_w sw)) (send_poll_timers (demo_sent 0) h 0) = Some 0"
proof -
  show "recv_poll_frame b rw rf checksum rh t = Some (rw, frame_taken rf buf, h)"
    by (rule recv_poll_other [OF assms(1,2)]) simp
  have "arq__send_wnd_ack (demo_sent 0) 0 3 = Some (the (arq__send_wnd_ack (demo_sent 0) 0 3))" by code_simp
  then have "send_poll_timers (demo_sent 0) h 0 =
      send_poll_timers (the (arq__send_wnd_ack (demo_sent 0) 0 3)) arq__frame_hdr_init 0"
    using assms(3-5) by (simp add: send_poll_timers_def arq__frame_hdr_init_def)
  moreover have "map_option (\<lambda>sw. w_size (s_w sw))
      (send_poll_timers (the (arq__send_wnd_ack (demo_sent 0) 0 3)) arq__frame_hdr_init 0) = Some 0"
    by code_simp
  ultimately show "map_option (\<lambda>sw. w_size (s_w sw)) (send_poll_timers (demo_sent 0) h 0) = Some 0" by simp
qed

text \<open>A receive frame that is full and holds no delimiter takes nothing more, for ever.\<close>

lemma full_frame_without_delimiter_stays:
  assumes "rf_len f = rf_cap f" "rf_cap f < 65535"
  shows "arq__recv_frame_fill f src (length src) = Some (0, f)"
  using assms by (simp add: arq__recv_frame_fill_def sub32_le arq__min_eq u16_id Let_def)

text \<open>A delimiter on its own is a frame of one byte, which fails an assertion of the decoder.\<close>

lemma single_delimiter_fails_assertion:
  "map_option (\<lambda>(n, f). (n, rf_full f, rf_len f)) (arq__recv_frame_fill demo_recv_frame [0] 1) = Some (1, True, 1) \<and>
   arq__cobs_decode le_build [0] 1 = None"
  by (intro conjI) code_simp+

section \<open>Configuration and allocation\<close>

text \<open>The configuration check takes segments no frame can carry and messages no vector can mark.\<close>

lemma config_check_accepts_unusable:
  "arq__check_cfg (demo_cfg\<lparr>segment_length_in_bytes := 300, message_length_in_segments := 40\<rparr>) = ARQ_OK_COMPLETED"
  by code_simp

text \<open>The sum in the allocator wraps: a request of almost 4 GB is granted from 300 bytes.\<close>

lemma allocation_size_wraps:
  "arq__lin_alloc_alloc le_build \<lparr>la_base = 4096, la_size = 8, la_capacity = 300\<rparr> 4294967290 4 =
     Some (4104, \<lparr>la_base = 4096, la_size = 2, la_capacity = 300\<rparr>)"
  by code_simp

end
