(* ===== verification/Arq_Harness.thy ===== *)
theory Arq_Harness imports Arq_Crc32 Arq_Calls begin

text \<open>
  The fixture of the functional tests (\<open>src/functional_tests/arq_context.cpp\<close>) and the calls the
  tests share, with what they do to an object: frames in the buffers of a test, a poll as the sequence
  of its stages, and the polls of an object that has nothing to send.
\<close>

section \<open>Frames in buffers\<close>

text \<open>
  The first \<open>n\<close> bytes of a buffer are a frame with the header \<open>h\<close> and the segment \<open>bs\<close>, which any
  reader with the same checksum accepts.
\<close>

definition carries :: "checksum \<Rightarrow> arq__frame_hdr_t \<Rightarrow> byte list \<Rightarrow> byte list \<Rightarrow> nat \<Rightarrow> bool" where
  "carries cs h bs buf n \<longleftrightarrow> h_seg_len h \<le> 238 \<and> n = 18 + h_seg_len h \<and> length bs = h_seg_len h \<and> n \<le> length buf \<and>
     (\<exists>xs. length xs = 16 + h_seg_len h \<and> take n buf = cobs_stuff xs @ [0] \<and> take (h_seg_len h) (drop 12 xs) = bs \<and>
       (\<forall>b. payload_hdr b xs = h \<and> payload_result b cs xs = ARQ__FRAME_READ_RESULT_SUCCESS))"

lemma carries_length: "carries cs h bs buf n \<Longrightarrow> n = 18 + h_seg_len h \<and> h_seg_len h \<le> 238 \<and> n \<le> length buf"
  by (simp add: carries_def)

lemma carries_copy: "carries cs h bs buf n \<Longrightarrow> n \<le> length buf' \<Longrightarrow> take n buf' = take n buf \<Longrightarrow> carries cs h bs buf' n"
  unfolding carries_def by auto

lemma carries_written:
  assumes "hdr_fits h" "seg_readable seg (h_seg_len h)" "h_seg_len h \<le> 238"
    and "18 + h_seg_len h \<le> frame_max" "18 + h_seg_len h \<le> length out"
  shows "\<exists>out'. arq__frame_write b h seg cs out frame_max = Some (18 + h_seg_len h, out') \<and> length out' = length out \<and>
    carries cs h (seg_bytes seg (h_seg_len h)) out' (18 + h_seg_len h)"
proof -
  have ex: "\<exists>xs. arq__frame_write b h seg cs out frame_max = Some (length xs + 2, cobs_stuff xs @ 0 # drop (18 + h_seg_len h) out) \<and>
      length xs = 16 + h_seg_len h \<and> payload_hdr b' xs = h \<and> payload_result b' cs xs = ARQ__FRAME_READ_RESULT_SUCCESS \<and>
      take (h_seg_len h) (drop 12 xs) = seg_bytes seg (h_seg_len h)" for b'
    by (rule frame_write_payload [OF assms])
  then obtain xs where xs: "arq__frame_write b h seg cs out frame_max =
      Some (length xs + 2, cobs_stuff xs @ 0 # drop (18 + h_seg_len h) out)"
    "length xs = 16 + h_seg_len h" "take (h_seg_len h) (drop 12 xs) = seg_bytes seg (h_seg_len h)"
    by blast
  have "payload_hdr b' xs = h \<and> payload_result b' cs xs = ARQ__FRAME_READ_RESULT_SUCCESS" for b'
  proof -
    obtain ys where ys: "cobs_stuff xs @ 0 # drop (18 + h_seg_len h) out = cobs_stuff ys @ 0 # drop (18 + h_seg_len h) out"
      "length ys = 16 + h_seg_len h" "payload_hdr b' ys = h" "payload_result b' cs ys = ARQ__FRAME_READ_RESULT_SUCCESS"
      using ex [of b'] xs(1) by auto
    have "arq__cobs_decode le_build (cobs_stuff xs @ [0]) (length xs + 2) = arq__cobs_decode le_build (cobs_stuff ys @ [0]) (length xs + 2)"
      using ys(1) by simp
    then have "xs = ys" using xs(2) ys(2) assms(3) cobs_decode_stuff [of xs le_build 0 "[]"] cobs_decode_stuff [of ys le_build 0 "[]"]
      by simp
    then show ?thesis using ys by simp
  qed
  then show ?thesis
    using xs assms(2,3,5) by (auto simp: carries_def intro!: exI [of _ xs])
qed

lemma carries_read:
  assumes "carries cs h bs buf n"
  shows "\<exists>buf'. arq__frame_read b buf n cs = Some (ARQ__FRAME_READ_RESULT_SUCCESS, h, 13, buf') \<and>
    take (h_seg_len h) (drop 13 buf') = bs \<and> length buf' = length buf"
proof -
  obtain xs where xs: "length xs = 16 + h_seg_len h" "take n buf = cobs_stuff xs @ [0]"
    "take (h_seg_len h) (drop 12 xs) = bs" "payload_hdr b xs = h" "payload_result b cs xs = ARQ__FRAME_READ_RESULT_SUCCESS"
    "n = 18 + h_seg_len h" "h_seg_len h \<le> 238" "n \<le> length buf"
    using assms unfolding carries_def by blast
  have "buf = cobs_stuff xs @ 0 # drop n buf" using append_take_drop_id [of n buf] xs(2) by simp
  then have "arq__frame_read b buf n cs = Some (ARQ__FRAME_READ_RESULT_SUCCESS, h, 13, 0 # xs @ 0 # drop n buf)"
    using frame_read_payload [of xs b 0 "drop n buf" cs] xs by simp
  moreover have "take (h_seg_len h) (drop 13 (0 # xs @ 0 # drop n buf)) = bs" using xs(1,3) by simp
  moreover have "length (0 # xs @ 0 # drop n buf) = length buf" using xs(1,6,8) by simp
  ultimately show ?thesis by blast
qed

text \<open>A frame that is filled in whole, from a buffer that may be longer; \<open>m\<close> bytes are offered.\<close>

lemma recv_frame_fill_loop_take:
  "i + n \<le> length src \<Longrightarrow> i + n \<le> k \<Longrightarrow>
    recv_frame_fill_loop n src i buf dst st = recv_frame_fill_loop n (take k src) i buf dst st"
  by (induction n arbitrary: i buf dst st) (auto simp: rd_def split: Option.bind_splits)

lemma recv_frame_fill_take:
  "n \<le> length src \<Longrightarrow> arq__recv_frame_fill f src n = arq__recv_frame_fill f (take n src) n"
  using recv_frame_fill_loop_take [of 0 _ src n]
  by (simp add: arq__recv_frame_fill_def arq__min_eq Let_def)

lemma carries_fill_more:
  assumes c: "carries cs h bs buf n" and f: "recv_frame_ok f" "rf_len f = 0" "n \<le> rf_cap f" and m: "n \<le> m" "m \<le> length buf" "m < 2 ^ 32"
  shows "\<exists>f'. arq__recv_frame_fill f buf m = Some (n, f') \<and> rf_full f' \<and> recv_frame_ok f' \<and> rf_len f' = n \<and>
    rf_cap f' = rf_cap f \<and> length (rf_buf f') = length (rf_buf f) \<and> carries cs h bs (rf_buf f') n"
proof -
  obtain xs where xs: "length xs = 16 + h_seg_len h" "take n buf = cobs_stuff xs @ [0]"
    "n = 18 + h_seg_len h" "h_seg_len h \<le> 238" "n \<le> length buf"
    using c unfolding carries_def by blast
  have nz: "0 \<notin> set (cobs_stuff xs)" using xs by (intro cobs_stuff_no_zero) simp
  have op: "\<not> rf_full f" "rf_bytes f = []" using f(1,2) by (auto simp: recv_frame_ok_def rf_bytes_def)
  have len: "length (take m buf) = m" "length (take n buf) = n" using m xs(5) by simp_all
  have "take (min (rf_cap f) m) buf = take n buf @ take (min (rf_cap f) m - n) (drop n buf)"
    using f(3) m(1) take_add [of n "min (rf_cap f) m - n" buf] by simp
  then have "upto_zero (take (min (rf_cap f) m) buf) = take n buf"
    unfolding xs(2) using upto_zero_append [OF nz] by simp
  then have "fill_take f (take m buf) = take n buf" using op(1) f(2) by (simp add: fill_take_def)
  with recv_frame_fill_eq [OF f(1), of "take m buf"] len(1) m(3) obtain f' where
    f': "arq__recv_frame_fill f (take m buf) m = Some (n, f')" "recv_frame_ok f'" "rf_bytes f' = take n buf"
      "rf_cap f' = rf_cap f" "length (rf_buf f') = length (rf_buf f)" "rf_full f'"
    using op(2) len(2) unfolding xs(2) by auto
  have le: "rf_len f' \<le> length (rf_buf f')" using f'(2) by (simp add: recv_frame_ok_def)
  then have rl: "rf_len f' = n" using arg_cong [OF f'(3), of length] len(2) by (simp add: rf_bytes_def)
  then have "take n (rf_buf f') = take n buf" using f'(3) by (simp add: rf_bytes_def)
  then have "carries cs h bs (rf_buf f') n" using le rl by (intro carries_copy [OF c]) simp_all
  then show ?thesis using f' rl recv_frame_fill_take [OF m(2), of f] by auto
qed

lemma carries_fill:
  assumes c: "carries cs h bs buf n" and f: "recv_frame_ok f" "rf_len f = 0" "n \<le> rf_cap f"
  shows "\<exists>f'. arq__recv_frame_fill f buf n = Some (n, f') \<and> rf_full f' \<and> recv_frame_ok f' \<and> rf_len f' = n \<and>
    rf_cap f' = rf_cap f \<and> length (rf_buf f') = length (rf_buf f) \<and> carries cs h bs (rf_buf f') n"
  using carries_length [OF c] by (intro carries_fill_more [OF c f]) auto

section \<open>A poll that may send\<close>

text \<open>The stages of \<open>arq_backend_poll\<close> when the send frame is free, each with its result.\<close>

lemma backend_poll_run:
  assumes ok: "arq_ok a" and sf: "poll_hdr (a_send_frame a) = Some arq__frame_hdr_init"
    and recv: "recv_poll_frame b (a_recv_wnd a) (a_recv_frame a) (cfg_checksum (a_cfg a)) arq__frame_hdr_init
      (inter_segment_timeout (a_cfg a)) = Some (rw1, rf1, rh)" "recv_wnd_ok rw1"
    and ack: "acked (timer_ran rw1 dt) arq__frame_hdr_init = (e1, rw2, h1)"
    and send: "send_poll_timers (a_send_wnd a) rh dt = Some sw1"
      "send_poll_header sw1 (a_send_wnd_ptr a) h1 (retransmission_timeout (a_cfg a)) = Some (sw2, sp, h2)"
    and conn: "arq__conn_poll b (a_conn a) (Some h2) rh dt (a_cfg a) = Some (e3, c', Some h3, ev)"
    and emit: "(if e1 \<or> h_seg h2 \<or> e3 then backend_emit b (a_cfg a) sw2 h3 (a_send_frame a) else Some (a_send_frame a)) = Some sf'"
    and np: "arq__next_poll b sw2 rw2 c' = Some np"
    and pend: "arq__recv_wnd_pending rw2 = Some pd"
  shows "backend_poll b a dt = Some (\<lparr>po_event = ev, po_send_ready = (sf_len sf' > 0), po_recv_ready = pd, po_next_poll = np\<rparr>,
    a\<lparr>a_send_wnd := sw2, a_send_wnd_ptr := sp, a_send_frame := sf', a_recv_wnd := rw2, a_recv_frame := rf1,
      a_need_poll := False, a_conn := c'\<rparr>)"
proof -
  have 1: "arq__recv_poll b (a_recv_wnd a) (a_recv_frame a) (cfg_checksum (a_cfg a)) (Some arq__frame_hdr_init)
      arq__frame_hdr_init dt (inter_segment_timeout (a_cfg a)) = Some (e1, rw2, rf1, Some h1, rh)"
    using recv_poll_run [OF recv, of "Some arq__frame_hdr_init" dt] ack by simp
  have 2: "arq__send_poll (a_send_wnd a) (a_send_wnd_ptr a) (Some h1) rh dt (retransmission_timeout (a_cfg a)) =
      Some (h_seg h2, sw2, sp, Some h2)"
    using send by (simp add: arq__send_poll_def)
  show ?thesis
    unfolding backend_poll_def Let_def poll_hdr_def [symmetric] sf
    by (simp only: 1 2 conn emit np pend bind.bind_lunit split_conv option.case)
qed

section \<open>An object with nothing to send and nothing received\<close>

definition idle :: "arq_t \<Rightarrow> bool" where
  "idle a \<longleftrightarrow> arq_ok a \<and> w_size (s_w (a_send_wnd a)) = 0 \<and> w_size (r_w (a_recv_wnd a)) = 0 \<and> \<not> p_valid (a_send_wnd_ptr a)"

lemma idle_send:
  assumes "idle a" "h_cur_ack_vec rh < 65536"
  shows "\<exists>sw. send_poll_timers (a_send_wnd a) rh dt = Some sw \<and> send_wnd_ok sw \<and> w_size (s_w sw) = 0 \<and>
    w_seg_len (s_w sw) = w_seg_len (s_w (a_send_wnd a)) \<and>
    send_poll_header sw (a_send_wnd_ptr a) h rtx = Some (sw, a_send_wnd_ptr a, h)"
proof -
  have "send_wnd_ok (a_send_wnd a)" and q: "quiet (a_send_wnd a) (a_send_wnd_ptr a)"
    using assms(1) by (simp_all add: idle_def arq_ok_def quiet_def)
  then obtain sw where sw: "send_poll_timers (a_send_wnd a) rh dt = Some sw" "send_wnd_ok sw" "s_w sw = s_w (a_send_wnd a)"
    using quiet_timers [of "a_send_wnd a" rh dt] assms(2) by (auto simp: quiet_def)
  moreover have "quiet sw (a_send_wnd_ptr a)" using q sw(3) by (simp add: quiet_def)
  ultimately show ?thesis using quiet_header [of sw "a_send_wnd_ptr a"] by (simp add: quiet_def)
qed

lemma backend_emit_carries:
  assumes sf: "send_frame_ok n sf" "18 \<le> n" and h: "hdr_fits h" "\<not> h_seg h" "h_seg_len h = 0"
  shows "\<exists>sf'. backend_emit b cfg sw h sf = Some sf' \<and> sf_len sf' = 18 \<and> sf_state sf' = ARQ__SEND_FRAME_STATE_FREE \<and>
    sf_cap sf' = sf_cap sf \<and> length (sf_buf sf') = length (sf_buf sf) \<and> carries (cfg_checksum cfg) h [] (sf_buf sf') 18"
proof -
  have "18 + h_seg_len h \<le> sf_cap sf" "18 + h_seg_len h \<le> length (sf_buf sf)"
    using sf h(3) by (simp_all add: send_frame_ok_def)
  from carries_written [OF h(1) _ _ this, of None b "cfg_checksum cfg"] h(3) obtain out
    where "arq__frame_write b h None (cfg_checksum cfg) (sf_buf sf) (sf_cap sf) = Some (18, out)"
      "length out = length (sf_buf sf)" "carries (cfg_checksum cfg) h [] out 18"
    by (auto simp: seg_readable_def seg_bytes_def)
  then show ?thesis using h(2) by (simp add: backend_emit_def u16_def)
qed

text \<open>What lies in the receive frame: nothing, or a control frame.\<close>

definition control_arrived :: "arq_t \<Rightarrow> arq__frame_hdr_t \<Rightarrow> bool" where
  "control_arrived a h \<longleftrightarrow>
     (if rf_full (a_recv_frame a)
      then carries (cfg_checksum (a_cfg a)) h [] (rf_buf (a_recv_frame a)) (rf_len (a_recv_frame a)) \<and> hdr_fits h \<and> \<not> h_seg h
      else h = arq__frame_hdr_init \<and> rf_len (a_recv_frame a) = 0)"

lemma control_poll_frame:
  assumes "recv_frame_ok (a_recv_frame a)" "control_arrived a h"
  shows "\<exists>rf. recv_poll_frame b rw (a_recv_frame a) (cfg_checksum (a_cfg a)) arq__frame_hdr_init t = Some (rw, rf, h) \<and>
    recv_frame_ok rf \<and> \<not> rf_full rf \<and> rf_len rf = 0 \<and> rf_cap rf = rf_cap (a_recv_frame a)"
proof (cases "rf_full (a_recv_frame a)")
  case True
  then have c: "carries (cfg_checksum (a_cfg a)) h [] (rf_buf (a_recv_frame a)) (rf_len (a_recv_frame a))" "\<not> h_seg h"
    using assms(2) by (simp_all add: control_arrived_def)
  obtain buf where buf: "arq__frame_read b (rf_buf (a_recv_frame a)) (rf_len (a_recv_frame a)) (cfg_checksum (a_cfg a)) =
      Some (ARQ__FRAME_READ_RESULT_SUCCESS, h, 13, buf)" "length buf = length (rf_buf (a_recv_frame a))"
    using carries_read [OF c(1)] by blast
  have "recv_poll_frame b rw (a_recv_frame a) (cfg_checksum (a_cfg a)) arq__frame_hdr_init t =
      Some (rw, frame_taken (a_recv_frame a) buf, h)"
    by (rule recv_poll_other [OF True buf(1)]) (simp add: c(2))
  then show ?thesis
    using frame_taken_ok [OF assms(1) buf(2)] by (simp add: frame_taken_def arq__recv_frame_rst_def)
next
  case False
  then show ?thesis
    using assms recv_poll_no_frame [OF False, of b rw] by (auto simp: control_arrived_def)
qed

lemma idle_poll:
  assumes a: "idle a" and sf: "sf_len (a_send_frame a) = 0" "sf_state (a_send_frame a) \<noteq> ARQ__SEND_FRAME_STATE_HELD"
    and rx: "control_arrived a rh"
    and conn: "arq__conn_poll b (a_conn a) (Some arq__frame_hdr_init) rh dt (a_cfg a) = Some (e, c', Some h, ev)"
  shows "\<exists>np a'. backend_poll b a dt =
      Some (\<lparr>po_event = ev, po_send_ready = e, po_recv_ready = False, po_next_poll = np\<rparr>, a') \<and>
    idle a' \<and> a_cfg a' = a_cfg a \<and> a_conn a' = c' \<and> control_arrived a' arq__frame_hdr_init \<and>
    \<not> rf_full (a_recv_frame a') \<and> \<not> a_need_poll a' \<and>
    w_seg_len (s_w (a_send_wnd a')) = w_seg_len (s_w (a_send_wnd a)) \<and>
    rf_cap (a_recv_frame a') = rf_cap (a_recv_frame a) \<and>
    (if e then sf_len (a_send_frame a') = 18 \<and> carries (cfg_checksum (a_cfg a)) h [] (sf_buf (a_send_frame a')) 18 \<and> hdr_fits h \<and>
       sf_state (a_send_frame a') = ARQ__SEND_FRAME_STATE_FREE
     else a_send_frame a' = a_send_frame a)"
proof -
  let ?c = "a_cfg a"
  have ok: "arq_ok a" and z: "w_size (s_w (a_send_wnd a)) = 0" "w_size (r_w (a_recv_wnd a)) = 0" "\<not> p_valid (a_send_wnd_ptr a)"
    using a by (simp_all add: idle_def)
  note p = arq_okD [OF ok]
  have tm: "inter_segment_timeout ?c < 2 ^ 32" "retransmission_timeout ?c < 2 ^ 32" "connection_rst_period ?c < 2 ^ 32"
    using p(1) by (simp_all add: cfg_ranges_def)
  have rh: "hdr_fits rh" using rx by (auto simp: control_arrived_def split: if_splits)
  obtain rf where 1: "recv_poll_frame b (a_recv_wnd a) (a_recv_frame a) (cfg_checksum ?c) arq__frame_hdr_init
      (inter_segment_timeout ?c) = Some (a_recv_wnd a, rf, rh)" "recv_frame_ok rf" "\<not> rf_full rf" "rf_len rf = 0"
    "rf_cap rf = rf_cap (a_recv_frame a)"
    using control_poll_frame [OF p(6) rx] by blast
  let ?rw = "timer_ran (a_recv_wnd a) dt"
  note tr = recv_poll_timer_eq [OF p(5), of dt]
  have rz: "w_size (r_w ?rw) = 0" using tr(3) z(2) by simp
  have 2: "acked ?rw arq__frame_hdr_init = (False, ?rw, arq__frame_hdr_init)"
    using rz by (simp add: acked_def arq__frame_hdr_init_def)
  have "h_cur_ack_vec rh < 65536" using rh by (simp add: hdr_fits_def)
  from idle_send [OF a this] obtain sw where 3: "send_poll_timers (a_send_wnd a) rh dt = Some sw" "send_wnd_ok sw"
    "w_size (s_w sw) = 0" "w_seg_len (s_w sw) = w_seg_len (s_w (a_send_wnd a))"
    "send_poll_header sw (a_send_wnd_ptr a) arq__frame_hdr_init (retransmission_timeout ?c) = Some (sw, a_send_wnd_ptr a, arq__frame_hdr_init)"
    by blast
  have cok: "conn_ok c'" using conn_poll_total [OF p(8) tm(3), of b "Some arq__frame_hdr_init" rh dt] conn by auto
  have "unflagged (Some h) = unflagged (Some arq__frame_hdr_init)" using conn_poll_unflagged [OF conn] .
  from unflagged_fields [OF this] have h: "hdr_fits h" "\<not> h_seg h" "h_seg_len h = 0"
    by (simp_all add: hdr_fits_def arq__frame_hdr_init_def)
  obtain sf' where 4: "(if False \<or> h_seg arq__frame_hdr_init \<or> e then backend_emit b ?c sw h (a_send_frame a) else Some (a_send_frame a)) = Some sf'"
    "send_frame_ok (18 + w_seg_len (s_w sw)) sf'" "e \<Longrightarrow> sf_len sf' = 18 \<and> carries (cfg_checksum ?c) h [] (sf_buf sf') 18 \<and>
       sf_state sf' = ARQ__SEND_FRAME_STATE_FREE" "\<not> e \<Longrightarrow> sf' = a_send_frame a"
    using backend_emit_carries [OF p(4) _ h, of b ?c sw] p(4) 3(4)
    by (cases e) (auto simp: arq__frame_hdr_init_def send_frame_ok_def)
  obtain np where 5: "arq__next_poll b sw ?rw c' = Some np"
    using next_poll_eq [OF 3(2), of b ?rw c'] conn_next_poll_total [OF cok] by (cases "use_connections b") (auto simp: Let_def)
  have 6: "arq__recv_wnd_pending ?rw = Some False" using rz by (simp add: arq__recv_wnd_pending_def)
  have "poll_hdr (a_send_frame a) = Some arq__frame_hdr_init" using sf by (simp add: poll_hdr_def)
  note run = backend_poll_run [OF ok this 1(1) p(5) 2 3(1,5) conn 4(1) 5 6]
  let ?a = "a\<lparr>a_send_wnd := sw, a_send_wnd_ptr := a_send_wnd_ptr a, a_send_frame := sf', a_recv_wnd := ?rw, a_recv_frame := rf,
      a_need_poll := False, a_conn := c'\<rparr>"
  have "idle ?a" using p 1 3 4(2) cok tr rz z(3) by (simp add: idle_def arq_ok_def)
  moreover have "(sf_len sf' > 0) = e" using 4(3,4) sf(1) by (cases e) simp_all
  ultimately show ?thesis
    using run 1 3(4) 4(3,4) h(1) by (simp add: control_arrived_def)
qed

section \<open>The test harness\<close>

text \<open>
  A test is a program over the public calls that stops at the first check that fails: \<open>None\<close> is a
  failed check or a fault, \<open>Some ()\<close> a test that passed.
\<close>

definition CHECK :: "bool \<Rightarrow> unit option" where
  "CHECK c = (if c then Some () else None)"

lemma CHECK_True [simp]: "CHECK True = Some ()"
  by (simp add: CHECK_def)

text \<open>\<open>&arq_crc32\<close> as the checksum of a configuration.\<close>

definition crc32_checksum :: checksum where
  "crc32_checksum bs = the (arq_crc32 bs (length bs))"

text \<open>
  The fixture: \<open>seat\<close> is the address \<open>malloc\<close> returns, with what the memory there holds, read as an
  object.
\<close>

definition ArqContext :: "build \<Rightarrow> abi \<Rightarrow> nat \<times> arq_t \<Rightarrow> arq_cfg_t \<Rightarrow> arq_t option" where
  "ArqContext b abi seat config = do {
     (e, out_size) \<leftarrow> arq_required_size b abi (Some config) True;
     CHECK (ARQ_SUCCEEDED e);
     sz \<leftarrow> out_size;
     (e', arq) \<leftarrow> arq_init b abi (Some config) (fst seat) sz (snd seat) True;
     CHECK (ARQ_SUCCEEDED e');
     arq
   }"

text \<open>What a test may rely on: \<open>malloc\<close> returns memory of the size asked for.\<close>

definition seat_ok :: "arq_cfg_t \<Rightarrow> nat \<times> arq_t \<Rightarrow> bool" where
  "seat_ok c seat \<longleftrightarrow> 0 < fst seat \<and> arrays_fit c (snd seat)"

text \<open>Memory of the size a configuration asks for.\<close>

definition blank_mem :: "arq_cfg_t \<Rightarrow> arq_t" where
  "blank_mem c = demo_mem
     \<lparr>a_send_wnd := \<lparr>s_w = demo_wnd
        \<lparr>w_msg := replicate (send_window_size_in_messages c) \<lparr>m_len = 9, m_cur_ack_vec = 9, m_full_ack_vec = 9\<rparr>,
         w_buf := replicate (send_window_size_in_messages c * (message_length_in_segments c * segment_length_in_bytes c)) 9\<rparr>,
        s_rtx = replicate (send_window_size_in_messages c) 9, s_tiny = 9, s_tiny_on = True\<rparr>,
      a_recv_wnd := demo_recv_wnd
        \<lparr>r_w := demo_wnd
          \<lparr>w_msg := replicate (recv_window_size_in_messages c) \<lparr>m_len = 9, m_cur_ack_vec = 9, m_full_ack_vec = 9\<rparr>,
           w_buf := replicate (recv_window_size_in_messages c * (message_length_in_segments c * segment_length_in_bytes c)) 9\<rparr>,
         r_ack := replicate (recv_window_size_in_messages c) True\<rparr>,
      a_send_frame := \<lparr>sf_buf = replicate (18 + segment_length_in_bytes c) 9, sf_state = ARQ__SEND_FRAME_STATE_HELD, sf_cap = 9, sf_len = 9\<rparr>,
      a_recv_frame := \<lparr>rf_buf = replicate (18 + segment_length_in_bytes c) 9, rf_state = ARQ__RECV_FRAME_STATE_ACCUMULATING,
        rf_cap = 9, rf_len = 9\<rparr>\<rparr>"

lemma blank_seat: "seat_ok c (4096, blank_mem c)"
  by (simp add: seat_ok_def arrays_fit_def blank_mem_def)

lemma demo_cfg_ranges: "cfg_ranges demo_cfg"
  using demo_cfg_sound by (simp add: cfg_sound_def)

text \<open>The calls the tests make in the same way each time, with the checks on their results.\<close>

definition test_poll :: "build \<Rightarrow> arq_t \<Rightarrow> nat \<Rightarrow> (poll_out \<times> arq_t) option" where
  "test_poll b arq dt = do {
     (e, out, arq') \<leftarrow> arq_backend_poll b (Some arq) dt True True True True;
     CHECK (ARQ_SUCCEEDED e);
     o1 \<leftarrow> out;
     a1 \<leftarrow> arq';
     Some (o1, a1)
   }"

text \<open>The frame to send is copied into a buffer of the test, and released.\<close>

definition test_drain :: "arq_t \<Rightarrow> byte list \<Rightarrow> (nat \<times> byte list \<times> arq_t) option" where
  "test_drain arq frame =
     (case arq_backend_send_ptr_get (Some arq) True True of
        (e, out, arq1) \<Rightarrow> do {
          CHECK (ARQ_SUCCEEDED e);
          (p, frame_len) \<leftarrow> out;
          src \<leftarrow> p;
          bs \<leftarrow> memcpy_out src 0 frame_len;
          frame' \<leftarrow> memcpy_in frame 0 bs;
          (case arq_backend_send_ptr_release arq1 of
             (e', arq2) \<Rightarrow> do {
               CHECK (ARQ_SUCCEEDED e');
               a2 \<leftarrow> arq2;
               Some (frame_len, frame', a2)
             })
        })"

definition test_fill :: "arq_t \<Rightarrow> byte list \<Rightarrow> nat \<Rightarrow> arq_t option" where
  "test_fill arq frame frame_len = do {
     (e, recvd, arq1) \<leftarrow> arq_backend_recv_fill (Some arq) (Some frame) frame_len True;
     CHECK (ARQ_SUCCEEDED e);
     n \<leftarrow> recvd;
     CHECK (frame_len = n);
     arq1
   }"

text \<open>A frame is copied into another buffer and read there.\<close>

definition test_read ::
  "build \<Rightarrow> byte list \<Rightarrow> byte list \<Rightarrow> nat \<Rightarrow> checksum \<Rightarrow> (arq__frame_hdr_t \<times> nat \<times> byte list) option" where
  "test_read b tmp frame frame_len checksum = do {
     bs \<leftarrow> memcpy_out frame 0 frame_len;
     tmp' \<leftarrow> memcpy_in tmp 0 bs;
     (read_result, hdr, seg, tmp'') \<leftarrow> arq__frame_read b tmp' frame_len checksum;
     CHECK (read_result = ARQ__FRAME_READ_RESULT_SUCCESS);
     Some (hdr, seg, tmp'')
   }"

section \<open>What the calls of the harness do\<close>

lemma test_poll_eq: "test_poll b a dt = backend_poll b a dt"
  by (cases "backend_poll b a dt") (auto simp: test_poll_def arq_backend_poll_def ARQ_SUCCEEDED_iff)

text \<open>An object that is idle, with its send frame free.\<close>

definition ready :: "arq_cfg_t \<Rightarrow> arq_t \<Rightarrow> bool" where
  "ready c a \<longleftrightarrow> idle a \<and> sf_len (a_send_frame a) = 0 \<and> sf_state (a_send_frame a) \<noteq> ARQ__SEND_FRAME_STATE_HELD \<and> a_cfg a = c"

lemma ready_ok: "ready c a \<Longrightarrow> arq_ok a \<and> idle a \<and> a_cfg a = c \<and> conn_ok (a_conn a)"
  by (auto simp: ready_def idle_def arq_ok_def)

lemma ArqContext_ready:
  assumes "cfg_sound c" "abi_ok abi" "required_bytes abi c < 2 ^ 32" "arrays_fit c (snd seat)" "0 < fst seat"
  shows "\<exists>a. ArqContext b abi seat c = Some a \<and> ready c a \<and> control_arrived a arq__frame_hdr_init \<and>
    \<not> rf_full (a_recv_frame a) \<and>
    cn_state (a_conn a) = (if use_connections b then ARQ_CONN_STATE_CLOSED else ARQ_CONN_STATE_ESTABLISHED)"
proof -
  from init_in_seat [OF assms] assms(3) obtain a where
    "arq_required_size b abi (Some c) True = Some (ARQ_OK_COMPLETED, Some (required_bytes abi c))"
    "arq_init b abi (Some c) (fst seat) (required_bytes abi c) (snd seat) True = Some (ARQ_OK_COMPLETED, Some a)"
    "arq_ok a" "arq_blank b a" "a_cfg a = c"
    by blast
  then show ?thesis
    by (simp add: ArqContext_def ARQ_SUCCEEDED_iff ready_def idle_def arq_blank_def control_arrived_def)
qed

lemma test_drain_ok:
  assumes "carries cs h bs (sf_buf (a_send_frame a)) (sf_len (a_send_frame a))" "256 \<le> length frame"
  shows "\<exists>frame'. test_drain a frame = Some (sf_len (a_send_frame a), frame',
      a\<lparr>a_send_frame := (a_send_frame a)\<lparr>sf_len := 0, sf_state := ARQ__SEND_FRAME_STATE_RELEASED\<rparr>, a_need_poll := True\<rparr>) \<and>
    carries cs h bs frame' (sf_len (a_send_frame a)) \<and> length frame' = length frame"
proof -
  let ?f = "a_send_frame a" let ?n = "sf_len ?f"
  have n: "?n \<noteq> 0" "?n \<le> length (sf_buf ?f)" "?n \<le> length frame"
    using carries_length [OF assms(1)] assms(2) by linarith+
  let ?frame = "take ?n (sf_buf ?f) @ drop ?n frame"
  have "memcpy_out (sf_buf ?f) 0 ?n = Some (take ?n (sf_buf ?f))" "memcpy_in frame 0 (take ?n (sf_buf ?f)) = Some ?frame"
    using n by (simp_all add: memcpy_out_def memcpy_in_def)
  then have "test_drain a frame = Some (?n, ?frame,
      a\<lparr>a_send_frame := ?f\<lparr>sf_len := 0, sf_state := ARQ__SEND_FRAME_STATE_RELEASED\<rparr>, a_need_poll := True\<rparr>)"
    using n(1) by (simp add: test_drain_def arq_backend_send_ptr_get_def arq_backend_send_ptr_release_def ARQ_SUCCEEDED_iff Let_def)
  moreover have "carries cs h bs ?frame ?n" using n by (intro carries_copy [OF assms(1)]) simp_all
  ultimately show ?thesis using n by simp
qed

lemma test_read_ok:
  assumes "carries cs h bs frame n" "256 \<le> length tmp"
  shows "\<exists>tmp'. test_read b tmp frame n cs = Some (h, 13, tmp') \<and> take (h_seg_len h) (drop 13 tmp') = bs \<and> length tmp' = length tmp"
proof -
  have n: "n \<le> length frame" "n \<le> length tmp" using carries_length [OF assms(1)] assms(2) by linarith+
  let ?tmp = "take n frame @ drop n tmp"
  have m: "memcpy_out frame 0 n = Some (take n frame)" "memcpy_in tmp 0 (take n frame) = Some ?tmp"
    using n by (simp_all add: memcpy_out_def memcpy_in_def)
  have c: "carries cs h bs ?tmp n" using n by (intro carries_copy [OF assms(1)]) simp_all
  obtain buf where "arq__frame_read b ?tmp n cs = Some (ARQ__FRAME_READ_RESULT_SUCCESS, h, 13, buf)"
    "take (h_seg_len h) (drop 13 buf) = bs" "length buf = length ?tmp"
    using carries_read [OF c] by blast
  then show ?thesis using m n by (simp add: test_read_def)
qed

lemma test_fill_ok:
  assumes a: "ready c a" "\<not> rf_full (a_recv_frame a)" "rf_len (a_recv_frame a) = 0"
    and f: "carries (cfg_checksum c) h [] frame n" "hdr_fits h" "\<not> h_seg h"
  shows "\<exists>a'. test_fill a frame n = Some a' \<and> ready c a' \<and> control_arrived a' h \<and> a_conn a' = a_conn a"
proof -
  note p = arq_okD [of a]
  have ok: "arq_ok a" using ready_ok [OF a(1)] by simp
  have "h_seg_len h = 0" using f(1) by (simp add: carries_def)
  then have "n \<le> rf_cap (a_recv_frame a)" using carries_length [OF f(1)] p(7) [OF ok] by simp
  from carries_fill [OF f(1) p(6) [OF ok] a(3) this] obtain rf where rf:
    "arq__recv_frame_fill (a_recv_frame a) frame n = Some (n, rf)" "rf_full rf" "recv_frame_ok rf" "rf_len rf = n"
    "rf_cap rf = rf_cap (a_recv_frame a)" "carries (cfg_checksum c) h [] (rf_buf rf) n"
    by blast
  then have "test_fill a frame n = Some (a\<lparr>a_recv_frame := rf, a_need_poll := True\<rparr>)"
    by (simp add: test_fill_def arq_backend_recv_fill_def ARQ_SUCCEEDED_iff)
  moreover have "ready c (a\<lparr>a_recv_frame := rf, a_need_poll := True\<rparr>)"
    using a(1) rf by (auto simp: ready_def idle_def arq_ok_def)
  ultimately show ?thesis using rf f a(1) by (simp add: control_arrived_def ready_def)
qed

section \<open>The blocks of the connection tests\<close>

definition waiting :: "arq_cfg_t \<Rightarrow> arq_t \<Rightarrow> bool" where
  "waiting c a \<longleftrightarrow> ready c a \<and> \<not> rf_full (a_recv_frame a) \<and> rf_len (a_recv_frame a) = 0"

definition on_wire :: "arq_cfg_t \<Rightarrow> arq__frame_hdr_t \<Rightarrow> byte list \<Rightarrow> bool" where
  "on_wire c h frame \<longleftrightarrow> carries (cfg_checksum c) h [] frame 18 \<and> hdr_fits h \<and> \<not> h_seg h \<and> 256 \<le> length frame"

text \<open>A poll that emits a control frame, which is drained and read.\<close>

lemma emitting_poll:
  assumes a: "ready c a" "control_arrived a rh"
    and conn: "arq__conn_poll b (a_conn a) (Some arq__frame_hdr_init) rh dt c = Some (True, c', Some h, ev)"
    and bufs: "256 \<le> length frame" "256 \<le> length tmp"
  shows "\<exists>np a1 a2 frame' tmp'. test_poll b a dt =
      Some (\<lparr>po_event = ev, po_send_ready = True, po_recv_ready = False, po_next_poll = np\<rparr>, a1) \<and> a_conn a1 = c' \<and>
    sf_len (a_send_frame a1) = 18 \<and> test_drain a1 frame = Some (18, frame', a2) \<and> waiting c a2 \<and> a_conn a2 = c' \<and> on_wire c h frame' \<and>
    test_read b tmp frame' 18 (cfg_checksum c) = Some (h, 13, tmp') \<and> 256 \<le> length tmp'"
proof -
  have r: "idle a" "sf_len (a_send_frame a) = 0" "sf_state (a_send_frame a) \<noteq> ARQ__SEND_FRAME_STATE_HELD" "a_cfg a = c"
    using a(1) by (simp_all add: ready_def)
  from idle_poll [OF r(1-3) a(2), of b dt True c' h ev] conn r(4) obtain np a1
    where 1: "backend_poll b a dt = Some (\<lparr>po_event = ev, po_send_ready = True, po_recv_ready = False, po_next_poll = np\<rparr>, a1)"
      "idle a1" "a_cfg a1 = c" "a_conn a1 = c'" "control_arrived a1 arq__frame_hdr_init" "\<not> rf_full (a_recv_frame a1)"
      "sf_len (a_send_frame a1) = 18" "carries (cfg_checksum c) h [] (sf_buf (a_send_frame a1)) 18" "hdr_fits h"
    by auto
  have "carries (cfg_checksum c) h [] (sf_buf (a_send_frame a1)) (sf_len (a_send_frame a1))" using 1(7,8) by simp
  from test_drain_ok [OF this bufs(1)] 1(7) obtain frame' where 2: "test_drain a1 frame = Some (18, frame',
      a1\<lparr>a_send_frame := (a_send_frame a1)\<lparr>sf_len := 0, sf_state := ARQ__SEND_FRAME_STATE_RELEASED\<rparr>, a_need_poll := True\<rparr>)"
    "carries (cfg_checksum c) h [] frame' 18" "length frame' = length frame"
    by auto
  from test_read_ok [OF 2(2) bufs(2), of b] obtain tmp' where 3: "test_read b tmp frame' 18 (cfg_checksum c) = Some (h, 13, tmp')"
    "length tmp' = length tmp"
    by blast
  let ?a2 = "a1\<lparr>a_send_frame := (a_send_frame a1)\<lparr>sf_len := 0, sf_state := ARQ__SEND_FRAME_STATE_RELEASED\<rparr>, a_need_poll := True\<rparr>"
  have w: "waiting c ?a2" "a_conn ?a2 = c'"
    using 1 by (auto simp: waiting_def ready_def idle_def arq_ok_def send_frame_ok_def control_arrived_def)
  have "unflagged (Some h) = unflagged (Some arq__frame_hdr_init)" using conn_poll_unflagged [OF conn] .
  from unflagged_fields(9) [OF this] have "\<not> h_seg h" by (simp add: arq__frame_hdr_init_def)
  then have o: "on_wire c h frame'" using 1(9) 2(2,3) bufs(1) by (simp add: on_wire_def)
  show ?thesis
    using 1(1,4,7) 2(1) 3 w o bufs(2) unfolding test_poll_eq by (intro exI conjI) (assumption | simp)+
qed

lemma waiting_arrived: "waiting c a \<Longrightarrow> ready c a \<and> control_arrived a arq__frame_hdr_init"
  by (simp add: waiting_def control_arrived_def)

lemma waiting_fill:
  assumes "waiting c a" "on_wire c h frame"
  shows "\<exists>a'. test_fill a frame 18 = Some a' \<and> ready c a' \<and> control_arrived a' h \<and> a_conn a' = a_conn a"
  using assms unfolding waiting_def on_wire_def by (intro test_fill_ok) simp_all

text \<open>The last poll of a handshake emits nothing.\<close>

lemma quiet_poll:
  assumes "ready c a" "control_arrived a rh"
    and "arq__conn_poll b (a_conn a) (Some arq__frame_hdr_init) rh dt c = Some (False, c', Some h, ev)"
  shows "\<exists>np a1. test_poll b a dt =
      Some (\<lparr>po_event = ev, po_send_ready = False, po_recv_ready = False, po_next_poll = np\<rparr>, a1) \<and> a_conn a1 = c'"
  using idle_poll [of a rh b dt False c' h ev] assms unfolding test_poll_eq ready_def by auto

end
