(* ===== verification/Arq_Connect_Tests.thy ===== *)
theory Arq_Connect_Tests imports Arq_Harness begin

text \<open>
  The connection tests of \<open>src/functional_tests\<close> as programs over the model's public calls, and the
  proof that they pass.
\<close>

section \<open>The tests\<close>

text \<open>
  \<open>cfg\<close> is the local variable before its fields are set: the fields no test sets keep whatever value
  they have. \<open>frame\<close> and \<open>tmp\<close> are the buffers of a test before it writes to them.
\<close>

definition connect_cfg :: "arq_cfg_t \<Rightarrow> arq_cfg_t" where
  "connect_cfg cfg = cfg\<lparr>segment_length_in_bytes := 128, message_length_in_segments := 4,
     send_window_size_in_messages := 16, recv_window_size_in_messages := 16, retransmission_timeout := 100,
     inter_segment_timeout := 100, cfg_checksum := crc32_checksum, connection_rst_period := 100,
     connection_rst_attempts := 10\<rparr>"

definition connect_three_way_handshake ::
  "build \<Rightarrow> abi \<Rightarrow> arq_cfg_t \<Rightarrow> nat \<times> arq_t \<Rightarrow> nat \<times> arq_t \<Rightarrow> byte list \<Rightarrow> byte list \<Rightarrow> unit option" where
  "connect_three_way_handshake b abi cfg0 seat1 seat2 frame tmp = do {
     let cfg = connect_cfg cfg0;
     peer1 \<leftarrow> ArqContext b abi seat1 cfg;
     peer2 \<leftarrow> ArqContext b abi seat2 cfg;
     \<comment> \<open>initiate connect, confirm payload carries rst\<close>
     let (e, arq) = arq_connect b (Some peer1);
     CHECK (ARQ_SUCCEEDED e);
     peer1 \<leftarrow> arq;
     (out, peer1) \<leftarrow> test_poll b peer1 0;
     CHECK (po_event out = ARQ_EVENT_NONE \<and> po_send_ready out \<and> \<not> po_recv_ready out);
     (frame_len, frame, peer1) \<leftarrow> test_drain peer1 frame;
     (hdr, seg, tmp) \<leftarrow> test_read b tmp frame frame_len (cfg_checksum cfg);
     CHECK (h_rst hdr \<and> \<not> h_ack hdr \<and> \<not> h_seg hdr);
     \<comment> \<open>receive rst, confirm response carries rst/ack\<close>
     peer2 \<leftarrow> test_fill peer2 frame frame_len;
     (out, peer2) \<leftarrow> test_poll b peer2 0;
     CHECK (po_event out = ARQ_EVENT_NONE \<and> po_send_ready out \<and> \<not> po_recv_ready out);
     (frame_len, frame, peer2) \<leftarrow> test_drain peer2 frame;
     (hdr, seg, tmp) \<leftarrow> test_read b tmp frame frame_len (cfg_checksum cfg);
     CHECK (h_rst hdr \<and> h_ack hdr \<and> \<not> h_seg hdr);
     \<comment> \<open>receive rst/ack, confirm peer1 connected and response carries ack\<close>
     peer1 \<leftarrow> test_fill peer1 frame frame_len;
     (out, peer1) \<leftarrow> test_poll b peer1 0;
     CHECK (po_event out = ARQ_EVENT_CONN_ESTABLISHED \<and> po_send_ready out \<and> \<not> po_recv_ready out);
     CHECK (cn_state (a_conn peer1) = ARQ_CONN_STATE_ESTABLISHED);
     (frame_len, frame, peer1) \<leftarrow> test_drain peer1 frame;
     (hdr, seg, tmp) \<leftarrow> test_read b tmp frame frame_len (cfg_checksum cfg);
     CHECK (\<not> h_rst hdr \<and> h_ack hdr \<and> \<not> h_seg hdr);
     \<comment> \<open>receive ack, confirm peer2 connected\<close>
     peer2 \<leftarrow> test_fill peer2 frame frame_len;
     (out, peer2) \<leftarrow> test_poll b peer2 0;
     CHECK (po_event out = ARQ_EVENT_CONN_ESTABLISHED \<and> \<not> po_send_ready out \<and> \<not> po_recv_ready out);
     CHECK (cn_state (a_conn peer2) = ARQ_CONN_STATE_ESTABLISHED)
   }"

definition connect_simultaneous ::
  "build \<Rightarrow> abi \<Rightarrow> arq_cfg_t \<Rightarrow> nat \<times> arq_t \<Rightarrow> nat \<times> arq_t \<Rightarrow>
   byte list \<Rightarrow> byte list \<Rightarrow> byte list \<Rightarrow> byte list \<Rightarrow> byte list \<Rightarrow> unit option" where
  "connect_simultaneous b abi cfg0 seat1 seat2 peer1_rst peer1_ack peer2_rst peer2_ack tmp = do {
     let cfg = connect_cfg cfg0;
     peer1 \<leftarrow> ArqContext b abi seat1 cfg;
     peer2 \<leftarrow> ArqContext b abi seat2 cfg;
     \<comment> \<open>peer1 connect, confirm payload carries rst\<close>
     let (e, arq) = arq_connect b (Some peer1);
     CHECK (ARQ_SUCCEEDED e);
     peer1 \<leftarrow> arq;
     (out, peer1) \<leftarrow> test_poll b peer1 0;
     CHECK (po_event out = ARQ_EVENT_NONE \<and> po_send_ready out \<and> \<not> po_recv_ready out);
     (peer1_rst_len, peer1_rst, peer1) \<leftarrow> test_drain peer1 peer1_rst;
     (hdr, seg, tmp) \<leftarrow> test_read b tmp peer1_rst peer1_rst_len (cfg_checksum cfg);
     CHECK (h_rst hdr \<and> \<not> h_ack hdr \<and> \<not> h_seg hdr);
     \<comment> \<open>peer2 connect, confirm payload carries rst\<close>
     let (e, arq) = arq_connect b (Some peer2);
     CHECK (ARQ_SUCCEEDED e);
     peer2 \<leftarrow> arq;
     (out, peer2) \<leftarrow> test_poll b peer2 0;
     CHECK (po_event out = ARQ_EVENT_NONE \<and> po_send_ready out \<and> \<not> po_recv_ready out);
     (peer2_rst_len, peer2_rst, peer2) \<leftarrow> test_drain peer2 peer2_rst;
     (hdr, seg, tmp) \<leftarrow> test_read b tmp peer2_rst peer2_rst_len (cfg_checksum cfg);
     CHECK (h_rst hdr \<and> \<not> h_ack hdr \<and> \<not> h_seg hdr);
     \<comment> \<open>deliver peer1's rst to peer2, confirm peer2 ack + connected\<close>
     peer2 \<leftarrow> test_fill peer2 peer1_rst peer1_rst_len;
     (out, peer2) \<leftarrow> test_poll b peer2 0;
     CHECK (po_event out = ARQ_EVENT_CONN_ESTABLISHED \<and> po_send_ready out \<and> \<not> po_recv_ready out);
     (peer2_ack_len, peer2_ack, peer2) \<leftarrow> test_drain peer2 peer2_ack;
     (hdr, seg, tmp) \<leftarrow> test_read b tmp peer2_ack peer2_ack_len (cfg_checksum cfg);
     CHECK (\<not> h_rst hdr \<and> h_ack hdr \<and> \<not> h_seg hdr);
     \<comment> \<open>deliver peer2's rst to peer1, confirm peer1 ack + connected\<close>
     peer1 \<leftarrow> test_fill peer1 peer2_rst peer2_rst_len;
     (out, peer1) \<leftarrow> test_poll b peer1 0;
     CHECK (po_event out = ARQ_EVENT_CONN_ESTABLISHED \<and> po_send_ready out \<and> \<not> po_recv_ready out);
     (peer1_ack_len, peer1_ack, peer1) \<leftarrow> test_drain peer1 peer1_ack;
     (hdr, seg, tmp) \<leftarrow> test_read b tmp peer1_ack peer1_ack_len (cfg_checksum cfg);
     CHECK (\<not> h_rst hdr \<and> h_ack hdr \<and> \<not> h_seg hdr)
   }"

definition timeout_cfg :: "arq_cfg_t \<Rightarrow> arq_cfg_t" where
  "timeout_cfg cfg = cfg\<lparr>segment_length_in_bytes := 220, message_length_in_segments := 4,
     send_window_size_in_messages := 16, recv_window_size_in_messages := 16, retransmission_timeout := 1000,
     tinygram_send_delay := 220, cfg_checksum := crc32_checksum, connection_rst_attempts := 10,
     connection_rst_period := 100\<rparr>"

definition connect_times_out_after_n_attempts :: "build \<Rightarrow> abi \<Rightarrow> arq_cfg_t \<Rightarrow> nat \<times> arq_t \<Rightarrow> unit option" where
  "connect_times_out_after_n_attempts b abi cfg0 seat = do {
     let cfg = timeout_cfg cfg0;
     ctx \<leftarrow> ArqContext b abi seat cfg;
     \<comment> \<open>connect to nothing\<close>
     let (e, arq) = arq_connect b (Some ctx);
     CHECK (ARQ_SUCCEEDED e);
     ctx \<leftarrow> arq;
     let dt = connection_rst_period cfg;
     ctx \<leftarrow> for_range 0 (connection_rst_attempts cfg) (\<lambda>i ctx. do {
       \<comment> \<open>poll to stimulate sending the rst frame\<close>
       (out, ctx) \<leftarrow> test_poll b ctx dt;
       CHECK (po_send_ready out);
       \<comment> \<open>drain and discard the rst frame\<close>
       let (e, p, arq) = arq_backend_send_ptr_get (Some ctx) True True;
       CHECK (ARQ_SUCCEEDED e);
       (unused, sz) \<leftarrow> p;
       n \<leftarrow> arq__frame_len b 0;
       CHECK (n = sz);
       let (e, arq) = arq_backend_send_ptr_release arq;
       CHECK (ARQ_SUCCEEDED e);
       arq
     }) ctx;
     \<comment> \<open>next poll will exceed the number of rst attempts and connect will fail\<close>
     (out, ctx) \<leftarrow> test_poll b ctx dt;
     CHECK (po_send_ready out);
     CHECK (po_event out = ARQ_EVENT_CONN_FAILED_NO_RESPONSE);
     CHECK (cn_state (a_conn ctx) = ARQ_CONN_STATE_CLOSED)
   }"

section \<open>They pass\<close>

lemma connected:
  assumes "ready c a" "use_connections b" "cn_state (a_conn a) = ARQ_CONN_STATE_CLOSED"
  shows "\<exists>a'. arq_connect b (Some a) = (ARQ_OK_POLL_REQUIRED, Some a') \<and> ready c a' \<and>
    a_conn a' = conn_connect (a_conn a) \<and> a_recv_frame a' = a_recv_frame a"
  using assms by (auto simp: arq_connect_def conn_connect_def connect_u_def ready_def idle_def arq_ok_def conn_ok_def)

lemma connect_cfg_sound: "cfg_ranges c \<Longrightarrow> cfg_sound (connect_cfg c)"
  by (simp add: cfg_sound_def connect_cfg_def arq__check_cfg_def cfg_ranges_def geometry_ok_def)

lemma timeout_cfg_sound: "cfg_ranges c \<Longrightarrow> cfg_sound (timeout_cfg c)"
  by (simp add: cfg_sound_def timeout_cfg_def arq__check_cfg_def cfg_ranges_def geometry_ok_def)

lemma fresh_peer:
  assumes "cfg_sound c" "abi_ok abi" "required_bytes abi c < 2 ^ 32" "seat_ok c seat" "use_connections b"
  shows "\<exists>a. ArqContext b abi seat c = Some a \<and> waiting c a \<and> cn_state (a_conn a) = ARQ_CONN_STATE_CLOSED"
  using ArqContext_ready [OF assms(1-3), of seat b] assms(4,5) by (auto simp: seat_ok_def waiting_def control_arrived_def)

lemma connected_waiting:
  assumes "waiting c a" "use_connections b" "cn_state (a_conn a) = ARQ_CONN_STATE_CLOSED"
  shows "\<exists>a'. arq_connect b (Some a) = (ARQ_OK_POLL_REQUIRED, Some a') \<and> waiting c a' \<and> a_conn a' = conn_connect (a_conn a)"
  using connected [of c a b] assms unfolding waiting_def by auto

text \<open>The polls of a handshake that start from an initialized header.\<close>

lemma poll_first_rst:
  assumes "use_connections b" "connection_rst_attempts cfg \<ge> 1" "connection_rst_period cfg < 2 ^ 32"
  shows "\<exists>c1. arq__conn_poll b (conn_connect c0) (Some arq__frame_hdr_init) arq__frame_hdr_init dt cfg =
      Some (True, c1, Some (arq__frame_hdr_init\<lparr>h_rst := True\<rparr>), ARQ_EVENT_NONE) \<and>
    conn_ok c1 \<and> cn_state c1 = ARQ_CONN_STATE_RST_SENT"
  using assms
  by (subst poll_rst_sent_expired [where u = connect_u])
    (simp_all add: conn_connect_def connect_u_def conn_ok_def silent_hdr_init)

lemma init_flags [simp]:
  "\<not> h_rst arq__frame_hdr_init" "\<not> h_ack arq__frame_hdr_init" "\<not> h_seg arq__frame_hdr_init"
  by (simp_all add: arq__frame_hdr_init_def)

lemma connect_cfg_sel [simp]:
  "connection_rst_attempts (connect_cfg c) = 10" "connection_rst_period (connect_cfg c) = 100"
  by (simp_all add: connect_cfg_def)

text \<open>A peer that connects: its first poll puts an RST on the wire.\<close>

lemma first_rst:
  assumes b: "use_connections b" and a: "waiting (connect_cfg cfg) a" "cn_state (a_conn a) = ARQ_CONN_STATE_CLOSED"
    and bufs: "256 \<le> length frame" "256 \<le> length tmp"
  shows "\<exists>a0 np a1 a2 frame' tmp'. arq_connect b (Some a) = (ARQ_OK_POLL_REQUIRED, Some a0) \<and>
    test_poll b a0 0 = Some (\<lparr>po_event = ARQ_EVENT_NONE, po_send_ready = True, po_recv_ready = False, po_next_poll = np\<rparr>, a1) \<and>
    test_drain a1 frame = Some (18, frame', a2) \<and> waiting (connect_cfg cfg) a2 \<and> conn_ok (a_conn a2) \<and>
    cn_state (a_conn a2) = ARQ_CONN_STATE_RST_SENT \<and> on_wire (connect_cfg cfg) (arq__frame_hdr_init\<lparr>h_rst := True\<rparr>) frame' \<and>
    test_read b tmp frame' 18 (cfg_checksum (connect_cfg cfg)) = Some (arq__frame_hdr_init\<lparr>h_rst := True\<rparr>, 13, tmp') \<and>
    256 \<le> length tmp'"
proof -
  let ?c = "connect_cfg cfg"
  obtain a0 where a0: "arq_connect b (Some a) = (ARQ_OK_POLL_REQUIRED, Some a0)" "waiting ?c a0" "a_conn a0 = conn_connect (a_conn a)"
    using connected_waiting [OF a(1) b a(2)] by blast
  obtain c1 where c1: "arq__conn_poll b (a_conn a0) (Some arq__frame_hdr_init) arq__frame_hdr_init 0 ?c =
      Some (True, c1, Some (arq__frame_hdr_init\<lparr>h_rst := True\<rparr>), ARQ_EVENT_NONE)" "conn_ok c1" "cn_state c1 = ARQ_CONN_STATE_RST_SENT"
    using poll_first_rst [OF b, of ?c] a0(3) by auto
  from emitting_poll [OF _ _ c1(1) bufs] waiting_arrived [OF a0(2)] obtain np a1 a2 frame' tmp' where
    "test_poll b a0 0 = Some (\<lparr>po_event = ARQ_EVENT_NONE, po_send_ready = True, po_recv_ready = False, po_next_poll = np\<rparr>, a1)"
    "test_drain a1 frame = Some (18, frame', a2)" "waiting ?c a2" "a_conn a2 = c1" "on_wire ?c (arq__frame_hdr_init\<lparr>h_rst := True\<rparr>) frame'"
    "test_read b tmp frame' 18 (cfg_checksum ?c) = Some (arq__frame_hdr_init\<lparr>h_rst := True\<rparr>, 13, tmp')" "256 \<le> length tmp'"
    by (elim exE conjE) blast
  with a0(1) c1(2,3) show ?thesis by (intro exI conjI) (assumption | simp)+
qed

text \<open>A peer that has sent its RST and gets one answers with an ACK and is established.\<close>

lemma answered_rst:
  assumes b: "use_connections b" and a: "waiting c a" "conn_ok (a_conn a)" "cn_state (a_conn a) = ARQ_CONN_STATE_RST_SENT"
    and f: "on_wire c h frame" "h_rst h" and bufs: "256 \<le> length frame0" "256 \<le> length tmp"
  shows "\<exists>a0 np a1 a2 frame' tmp'. test_fill a frame 18 = Some a0 \<and>
    test_poll b a0 0 = Some (\<lparr>po_event = ARQ_EVENT_CONN_ESTABLISHED, po_send_ready = True, po_recv_ready = False, po_next_poll = np\<rparr>, a1) \<and>
    cn_state (a_conn a1) = ARQ_CONN_STATE_ESTABLISHED \<and> test_drain a1 frame0 = Some (18, frame', a2) \<and>
    on_wire c (arq__frame_hdr_init\<lparr>h_ack := True\<rparr>) frame' \<and>
    test_read b tmp frame' 18 (cfg_checksum c) = Some (arq__frame_hdr_init\<lparr>h_ack := True\<rparr>, 13, tmp') \<and> 256 \<le> length tmp'"
proof -
  obtain a0 where a0: "test_fill a frame 18 = Some a0" "ready c a0" "control_arrived a0 h" "a_conn a0 = a_conn a"
    using waiting_fill [OF a(1) f(1)] by blast
  have "\<not> h_seg h" using f(1) by (simp add: on_wire_def)
  then obtain c1 where c1: "arq__conn_poll b (a_conn a0) (Some arq__frame_hdr_init) h 0 c =
      Some (True, c1, Some (arq__frame_hdr_init\<lparr>h_ack := True\<rparr>), ARQ_EVENT_CONN_ESTABLISHED)" "cn_state c1 = ARQ_CONN_STATE_ESTABLISHED"
    using poll_rst_sent_reply [OF b a(2,3) f(2), of arq__frame_hdr_init 0 c] a0(4) by auto
  from emitting_poll [OF a0(2,3) c1(1) bufs] obtain np a1 a2 frame' tmp' where
    "test_poll b a0 0 = Some (\<lparr>po_event = ARQ_EVENT_CONN_ESTABLISHED, po_send_ready = True, po_recv_ready = False, po_next_poll = np\<rparr>, a1)"
    "a_conn a1 = c1" "test_drain a1 frame0 = Some (18, frame', a2)" "on_wire c (arq__frame_hdr_init\<lparr>h_ack := True\<rparr>) frame'"
    "test_read b tmp frame' 18 (cfg_checksum c) = Some (arq__frame_hdr_init\<lparr>h_ack := True\<rparr>, 13, tmp')" "256 \<le> length tmp'"
    by (elim exE conjE) blast
  with a0(1) c1(2) show ?thesis by (intro exI conjI) (assumption | simp)+
qed

text \<open>A closed peer that gets an RST answers with RST and ACK; the ACK it gets then establishes it.\<close>

definition heard :: arq__conn_t where
  "heard = \<lparr>cn_state = ARQ_CONN_STATE_RST_RECVD, cn_u = U_rst_recvd \<lparr>rr_cnt = 1, rr_tmr = 100, rr_sent_rst_ack = True\<rparr>\<rparr>"

lemma passive_rst:
  assumes b: "use_connections b" and a: "waiting (connect_cfg cfg) a" "cn_state (a_conn a) = ARQ_CONN_STATE_CLOSED"
    and f: "on_wire (connect_cfg cfg) (arq__frame_hdr_init\<lparr>h_rst := True\<rparr>) frame"
    and bufs: "256 \<le> length frame0" "256 \<le> length tmp"
  defines "h \<equiv> arq__frame_hdr_init\<lparr>h_ack := True, h_rst := True\<rparr>"
  shows "\<exists>a0 np a1 a2 frame' tmp'. test_fill a frame 18 = Some a0 \<and>
    test_poll b a0 0 = Some (\<lparr>po_event = ARQ_EVENT_NONE, po_send_ready = True, po_recv_ready = False, po_next_poll = np\<rparr>, a1) \<and>
    test_drain a1 frame0 = Some (18, frame', a2) \<and> waiting (connect_cfg cfg) a2 \<and> a_conn a2 = heard \<and>
    on_wire (connect_cfg cfg) h frame' \<and>
    test_read b tmp frame' 18 (cfg_checksum (connect_cfg cfg)) = Some (h, 13, tmp') \<and> 256 \<le> length tmp'"
proof -
  let ?c = "connect_cfg cfg"
  obtain a0 where a0: "test_fill a frame 18 = Some a0" "ready ?c a0" "control_arrived a0 (arq__frame_hdr_init\<lparr>h_rst := True\<rparr>)"
    "a_conn a0 = a_conn a"
    using waiting_fill [OF a(1) f] by blast
  have c1: "arq__conn_poll b (a_conn a0) (Some arq__frame_hdr_init) (arq__frame_hdr_init\<lparr>h_rst := True\<rparr>) 0 ?c =
      Some (True, heard, Some h, ARQ_EVENT_NONE)"
    using a0(4) a(2) by (subst poll_closed_rst [OF b]) (simp_all add: heard_def h_def)
  from emitting_poll [OF a0(2,3) c1 bufs] obtain np a1 a2 frame' tmp' where
    "test_poll b a0 0 = Some (\<lparr>po_event = ARQ_EVENT_NONE, po_send_ready = True, po_recv_ready = False, po_next_poll = np\<rparr>, a1)"
    "test_drain a1 frame0 = Some (18, frame', a2)" "waiting ?c a2" "a_conn a2 = heard" "on_wire ?c h frame'"
    "test_read b tmp frame' 18 (cfg_checksum ?c) = Some (h, 13, tmp')" "256 \<le> length tmp'"
    by (elim exE conjE) blast
  with a0(1) show ?thesis by (intro exI conjI) (assumption | simp)+
qed

lemma passive_ack:
  assumes b: "use_connections b" and a: "waiting c a" "a_conn a = heard"
    and f: "on_wire c (arq__frame_hdr_init\<lparr>h_ack := True\<rparr>) frame"
  shows "\<exists>a0 np a1. test_fill a frame 18 = Some a0 \<and>
    test_poll b a0 0 = Some (\<lparr>po_event = ARQ_EVENT_CONN_ESTABLISHED, po_send_ready = False, po_recv_ready = False, po_next_poll = np\<rparr>, a1) \<and>
    cn_state (a_conn a1) = ARQ_CONN_STATE_ESTABLISHED"
proof -
  obtain a0 where a0: "test_fill a frame 18 = Some a0" "ready c a0" "control_arrived a0 (arq__frame_hdr_init\<lparr>h_ack := True\<rparr>)"
    "a_conn a0 = heard"
    using waiting_fill [OF a(1) f] a(2) by auto
  have "arq__conn_poll b (a_conn a0) (Some arq__frame_hdr_init) (arq__frame_hdr_init\<lparr>h_ack := True\<rparr>) 0 c =
      Some (False, heard\<lparr>cn_state := ARQ_CONN_STATE_ESTABLISHED\<rparr>, Some arq__frame_hdr_init, ARQ_EVENT_CONN_ESTABLISHED)"
    using a0(4) by (subst poll_rst_recvd_ack [OF b, where u = "\<lparr>rr_cnt = 1, rr_tmr = 100, rr_sent_rst_ack = True\<rparr>"]) (simp_all add: conn_ok_def heard_def)
  from quiet_poll [OF a0(2,3) this] obtain np a1 where
    "test_poll b a0 0 = Some (\<lparr>po_event = ARQ_EVENT_CONN_ESTABLISHED, po_send_ready = False, po_recv_ready = False, po_next_poll = np\<rparr>, a1)"
    "a_conn a1 = heard\<lparr>cn_state := ARQ_CONN_STATE_ESTABLISHED\<rparr>"
    by blast
  with a0(1) show ?thesis by (intro exI conjI) (assumption | simp)+
qed

lemma three_way_handshake_passes:
  assumes b: "use_connections b" and cfg: "cfg_ranges cfg0" "abi_ok abi" "required_bytes abi (connect_cfg cfg0) < 2 ^ 32"
    and mem: "seat_ok (connect_cfg cfg0) seat1" "seat_ok (connect_cfg cfg0) seat2" "256 \<le> length frame" "256 \<le> length tmp"
  shows "connect_three_way_handshake b abi cfg0 seat1 seat2 frame tmp = Some ()"
proof -
  let ?c = "connect_cfg cfg0"
  note fresh = fresh_peer [OF connect_cfg_sound [OF cfg(1)] cfg(2,3) _ b]
  obtain a where a: "ArqContext b abi seat1 ?c = Some a" "waiting ?c a" "cn_state (a_conn a) = ARQ_CONN_STATE_CLOSED"
    using fresh [OF mem(1)] by blast
  obtain p where p: "ArqContext b abi seat2 ?c = Some p" "waiting ?c p" "cn_state (a_conn p) = ARQ_CONN_STATE_CLOSED"
    using fresh [OF mem(2)] by blast
  from first_rst [OF b a(2,3) mem(3,4)] obtain a0 n1 a1 a2 f1 t1 where 1: "arq_connect b (Some a) = (ARQ_OK_POLL_REQUIRED, Some a0)"
    "test_poll b a0 0 = Some (\<lparr>po_event = ARQ_EVENT_NONE, po_send_ready = True, po_recv_ready = False, po_next_poll = n1\<rparr>, a1)"
    "test_drain a1 frame = Some (18, f1, a2)" "waiting ?c a2" "conn_ok (a_conn a2)" "cn_state (a_conn a2) = ARQ_CONN_STATE_RST_SENT"
    "on_wire ?c (arq__frame_hdr_init\<lparr>h_rst := True\<rparr>) f1"
    "test_read b tmp f1 18 (cfg_checksum ?c) = Some (arq__frame_hdr_init\<lparr>h_rst := True\<rparr>, 13, t1)" "256 \<le> length t1"
    by (elim exE conjE)
  from passive_rst [OF b p(2,3) 1(7) _ 1(9), of f1] 1(7) obtain p0 n2 p1 p2 f2 t2 where 2: "test_fill p f1 18 = Some p0"
    "test_poll b p0 0 = Some (\<lparr>po_event = ARQ_EVENT_NONE, po_send_ready = True, po_recv_ready = False, po_next_poll = n2\<rparr>, p1)"
    "test_drain p1 f1 = Some (18, f2, p2)" "waiting ?c p2" "a_conn p2 = heard"
    "on_wire ?c (arq__frame_hdr_init\<lparr>h_ack := True, h_rst := True\<rparr>) f2"
    "test_read b t1 f2 18 (cfg_checksum ?c) = Some (arq__frame_hdr_init\<lparr>h_ack := True, h_rst := True\<rparr>, 13, t2)" "256 \<le> length t2"
    unfolding on_wire_def [of _ _ f1] by (elim exE conjE) blast
  from answered_rst [OF b 1(4-6) 2(6) _ _ 2(8), of f2] 2(6) obtain a3 n3 a4 a5 f3 t3 where 3: "test_fill a2 f2 18 = Some a3"
    "test_poll b a3 0 = Some (\<lparr>po_event = ARQ_EVENT_CONN_ESTABLISHED, po_send_ready = True, po_recv_ready = False, po_next_poll = n3\<rparr>, a4)"
    "cn_state (a_conn a4) = ARQ_CONN_STATE_ESTABLISHED" "test_drain a4 f2 = Some (18, f3, a5)" "on_wire ?c (arq__frame_hdr_init\<lparr>h_ack := True\<rparr>) f3"
    "test_read b t2 f3 18 (cfg_checksum ?c) = Some (arq__frame_hdr_init\<lparr>h_ack := True\<rparr>, 13, t3)"
    by (auto simp: on_wire_def)
  from passive_ack [OF b 2(4,5) 3(5)] obtain p3 n4 p4 where 4: "test_fill p2 f3 18 = Some p3"
    "test_poll b p3 0 = Some (\<lparr>po_event = ARQ_EVENT_CONN_ESTABLISHED, po_send_ready = False, po_recv_ready = False, po_next_poll = n4\<rparr>, p4)"
    "cn_state (a_conn p4) = ARQ_CONN_STATE_ESTABLISHED"
    by blast
  show ?thesis
    by (simp add: connect_three_way_handshake_def a(1) p(1) 1(1,2,3,8) 2(1,2,3,7) 3(1-4,6) 4 ARQ_SUCCEEDED_iff)
qed

lemma simultaneous_passes:
  assumes b: "use_connections b" and cfg: "cfg_ranges cfg0" "abi_ok abi" "required_bytes abi (connect_cfg cfg0) < 2 ^ 32"
    and mem: "seat_ok (connect_cfg cfg0) seat1" "seat_ok (connect_cfg cfg0) seat2"
      "256 \<le> length rst1" "256 \<le> length ack1" "256 \<le> length rst2" "256 \<le> length ack2" "256 \<le> length tmp"
  shows "connect_simultaneous b abi cfg0 seat1 seat2 rst1 ack1 rst2 ack2 tmp = Some ()"
proof -
  let ?c = "connect_cfg cfg0" let ?rst = "arq__frame_hdr_init\<lparr>h_rst := True\<rparr>"
  note fresh = fresh_peer [OF connect_cfg_sound [OF cfg(1)] cfg(2,3) _ b]
  obtain a where a: "ArqContext b abi seat1 ?c = Some a" "waiting ?c a" "cn_state (a_conn a) = ARQ_CONN_STATE_CLOSED"
    using fresh [OF mem(1)] by blast
  obtain p where p: "ArqContext b abi seat2 ?c = Some p" "waiting ?c p" "cn_state (a_conn p) = ARQ_CONN_STATE_CLOSED"
    using fresh [OF mem(2)] by blast
  from first_rst [OF b a(2,3) mem(3,7)] obtain a0 n1 a1 a2 f1 t1 where 1: "arq_connect b (Some a) = (ARQ_OK_POLL_REQUIRED, Some a0)"
    "test_poll b a0 0 = Some (\<lparr>po_event = ARQ_EVENT_NONE, po_send_ready = True, po_recv_ready = False, po_next_poll = n1\<rparr>, a1)"
    "test_drain a1 rst1 = Some (18, f1, a2)" "waiting ?c a2" "conn_ok (a_conn a2)" "cn_state (a_conn a2) = ARQ_CONN_STATE_RST_SENT"
    "on_wire ?c ?rst f1" "test_read b tmp f1 18 (cfg_checksum ?c) = Some (?rst, 13, t1)" "256 \<le> length t1"
    by (elim exE conjE)
  from first_rst [OF b p(2,3) mem(5) 1(9)] obtain p0 n2 p1 p2 f2 t2 where 2: "arq_connect b (Some p) = (ARQ_OK_POLL_REQUIRED, Some p0)"
    "test_poll b p0 0 = Some (\<lparr>po_event = ARQ_EVENT_NONE, po_send_ready = True, po_recv_ready = False, po_next_poll = n2\<rparr>, p1)"
    "test_drain p1 rst2 = Some (18, f2, p2)" "waiting ?c p2" "conn_ok (a_conn p2)" "cn_state (a_conn p2) = ARQ_CONN_STATE_RST_SENT"
    "on_wire ?c ?rst f2" "test_read b t1 f2 18 (cfg_checksum ?c) = Some (?rst, 13, t2)" "256 \<le> length t2"
    by (elim exE conjE)
  from answered_rst [OF b 2(4-6) 1(7) _ mem(6) 2(9)] obtain p3 n3 p4 p5 f3 t3 where 3: "test_fill p2 f1 18 = Some p3"
    "test_poll b p3 0 = Some (\<lparr>po_event = ARQ_EVENT_CONN_ESTABLISHED, po_send_ready = True, po_recv_ready = False, po_next_poll = n3\<rparr>, p4)"
    "test_drain p4 ack2 = Some (18, f3, p5)"
    "test_read b t2 f3 18 (cfg_checksum ?c) = Some (arq__frame_hdr_init\<lparr>h_ack := True\<rparr>, 13, t3)" "256 \<le> length t3"
    by auto
  from answered_rst [OF b 1(4-6) 2(7) _ mem(4) 3(5)] obtain a3 n4 a4 a5 f4 t4 where 4: "test_fill a2 f2 18 = Some a3"
    "test_poll b a3 0 = Some (\<lparr>po_event = ARQ_EVENT_CONN_ESTABLISHED, po_send_ready = True, po_recv_ready = False, po_next_poll = n4\<rparr>, a4)"
    "test_drain a4 ack1 = Some (18, f4, a5)"
    "test_read b t3 f4 18 (cfg_checksum ?c) = Some (arq__frame_hdr_init\<lparr>h_ack := True\<rparr>, 13, t4)"
    by auto
  show ?thesis
    by (simp add: connect_simultaneous_def a(1) p(1) 1(1,2,3,8) 2(1,2,3,8) 3(1-4) 4 ARQ_SUCCEEDED_iff)
qed

lemma drained:
  assumes "test_drain a frame = Some (n, f, a2)" "sf_len (a_send_frame a) \<noteq> 0"
  shows "\<exists>p a1. arq_backend_send_ptr_get (Some a) True True = (ARQ_OK_COMPLETED, Some (p, sf_len (a_send_frame a)), Some a1) \<and>
    arq_backend_send_ptr_release (Some a1) = (ARQ_OK_POLL_REQUIRED, Some a2)"
  using assms
  by (auto simp: test_drain_def arq_backend_send_ptr_get_def arq_backend_send_ptr_release_def Let_def bind_Some_iff)

lemma timeout_cfg_sel [simp]:
  "connection_rst_attempts (timeout_cfg c) = 10" "connection_rst_period (timeout_cfg c) = 100"
  by (simp_all add: timeout_cfg_def)

text \<open>A connection that has sent \<open>n\<close> frames and heard nothing.\<close>

definition unanswered :: "nat \<Rightarrow> arq_t \<Rightarrow> bool" where
  "unanswered n a \<longleftrightarrow> cn_state (a_conn a) = ARQ_CONN_STATE_RST_SENT \<and>
     (\<exists>t \<le> 100. cn_u (a_conn a) = U_rst_sent \<lparr>rs_cnt = n, rs_tmr = t, rs_recvd_rst_ack = False, rs_simultaneous = False\<rparr>)"

lemma unanswered_poll:
  assumes b: "use_connections b" and a: "waiting (timeout_cfg cfg) a" "unanswered n a" "n \<le> 10"
  shows "\<exists>np a1 a2 p a3. test_poll b a 100 = Some (\<lparr>po_event = (if n < 10 then ARQ_EVENT_NONE else ARQ_EVENT_CONN_FAILED_NO_RESPONSE),
      po_send_ready = True, po_recv_ready = False, po_next_poll = np\<rparr>, a1) \<and>
    (n = 10 \<longrightarrow> cn_state (a_conn a1) = ARQ_CONN_STATE_CLOSED) \<and>
    arq_backend_send_ptr_get (Some a1) True True = (ARQ_OK_COMPLETED, Some (p, 18), Some a2) \<and>
    arq_backend_send_ptr_release (Some a2) = (ARQ_OK_POLL_REQUIRED, Some a3) \<and> waiting (timeout_cfg cfg) a3 \<and>
    (n < 10 \<longrightarrow> unanswered (Suc n) a3)"
proof -
  let ?c = "timeout_cfg cfg" let ?h = "arq__frame_hdr_init\<lparr>h_rst := True\<rparr>"
  obtain t where t: "cn_state (a_conn a) = ARQ_CONN_STATE_RST_SENT" "t \<le> 100"
    "cn_u (a_conn a) = U_rst_sent \<lparr>rs_cnt = n, rs_tmr = t, rs_recvd_rst_ack = False, rs_simultaneous = False\<rparr>"
    using a(2) by (auto simp: unanswered_def)
  let ?u = "U_rst_sent \<lparr>rs_cnt = Suc n, rs_tmr = 100, rs_recvd_rst_ack = False, rs_simultaneous = False\<rparr>"
  define c' where "c' = (if n < 10 then (a_conn a)\<lparr>cn_u := ?u\<rparr> else \<lparr>cn_state = ARQ_CONN_STATE_CLOSED, cn_u = ?u\<rparr>)"
  define ev where "ev = (if n < 10 then ARQ_EVENT_NONE else ARQ_EVENT_CONN_FAILED_NO_RESPONSE)"
  have conn: "arq__conn_poll b (a_conn a) (Some arq__frame_hdr_init) arq__frame_hdr_init 100 ?c = Some (True, c', Some ?h, ev)"
    using t a(3) by (subst poll_rst_sent_expired [OF b t(1,3)]) (auto simp: c'_def ev_def silent_hdr_init Let_def)
  have len: "256 \<le> length (replicate 256 (0 :: byte))" by simp
  from emitting_poll [OF _ _ conn len len] waiting_arrived [OF a(1)] obtain np a1 a3 f where
    p: "test_poll b a 100 = Some (\<lparr>po_event = ev, po_send_ready = True, po_recv_ready = False, po_next_poll = np\<rparr>, a1)" "a_conn a1 = c'"
    "sf_len (a_send_frame a1) = 18" "test_drain a1 (replicate 256 0) = Some (18, f, a3)" "waiting ?c a3" "a_conn a3 = c'"
    by (elim exE conjE) blast
  obtain q a2 where "arq_backend_send_ptr_get (Some a1) True True = (ARQ_OK_COMPLETED, Some (q, 18), Some a2)"
    "arq_backend_send_ptr_release (Some a2) = (ARQ_OK_POLL_REQUIRED, Some a3)"
    using drained [OF p(4)] p(3) by auto
  moreover have "n < 10 \<longrightarrow> unanswered (Suc n) a3" using p(6) t(1) by (auto simp: unanswered_def c'_def)
  moreover have "n = 10 \<longrightarrow> cn_state (a_conn a1) = ARQ_CONN_STATE_CLOSED" using p(2) by (simp add: c'_def)
  ultimately show ?thesis using p(1,5) unfolding ev_def by (intro exI conjI) (assumption | simp)+
qed

lemma times_out_passes:
  assumes b: "use_connections b" and cfg: "cfg_ranges cfg0" "abi_ok abi" "required_bytes abi (timeout_cfg cfg0) < 2 ^ 32"
    and mem: "seat_ok (timeout_cfg cfg0) seat"
  shows "connect_times_out_after_n_attempts b abi cfg0 seat = Some ()"
proof -
  let ?c = "timeout_cfg cfg0"
  obtain a where a: "ArqContext b abi seat ?c = Some a" "waiting ?c a" "cn_state (a_conn a) = ARQ_CONN_STATE_CLOSED"
    using fresh_peer [OF timeout_cfg_sound [OF cfg(1)] cfg(2,3) mem b] by blast
  obtain a0 where a0: "arq_connect b (Some a) = (ARQ_OK_POLL_REQUIRED, Some a0)" "waiting ?c a0" "a_conn a0 = conn_connect (a_conn a)"
    using connected_waiting [OF a(2) b a(3)] by blast
  have u0: "unanswered 0 a0" using a0(3) by (simp add: unanswered_def conn_connect_def connect_u_def)
  define body where "body = (\<lambda>(i :: nat) ctx. do {
       (out, ctx) \<leftarrow> test_poll b ctx 100;
       CHECK (po_send_ready out);
       let (e, p, arq) = arq_backend_send_ptr_get (Some ctx) True True;
       CHECK (ARQ_SUCCEEDED e);
       (unused, sz) \<leftarrow> p;
       n \<leftarrow> arq__frame_len b 0;
       CHECK (n = sz);
       let (e, arq) = arq_backend_send_ptr_release arq;
       CHECK (ARQ_SUCCEEDED e);
       arq
     })"
  have step: "\<exists>s'. body j s = Some s' \<and> waiting ?c s' \<and> unanswered (Suc j) s'"
    if "j < 10" "waiting ?c s \<and> unanswered j s" for j s
  proof -
    have "waiting ?c s" "unanswered j s" "j \<le> 10" using that by simp_all
    from unanswered_poll [OF b this] that(1) obtain np a1 a2 p a3 where
      "test_poll b s 100 = Some (\<lparr>po_event = ARQ_EVENT_NONE, po_send_ready = True, po_recv_ready = False, po_next_poll = np\<rparr>, a1)"
      "arq_backend_send_ptr_get (Some a1) True True = (ARQ_OK_COMPLETED, Some (p, 18), Some a2)"
      "arq_backend_send_ptr_release (Some a2) = (ARQ_OK_POLL_REQUIRED, Some a3)" "waiting ?c a3" "unanswered (Suc j) a3"
      by auto
    then show ?thesis by (simp add: body_def ARQ_SUCCEEDED_iff arq__frame_len_ok)
  qed
  obtain a1 where a1: "for_range 0 10 body a0 = Some a1" "waiting ?c a1" "unanswered 10 a1"
    using for_range_inv [where P = "\<lambda>i s. waiting ?c s \<and> unanswered i s" and i = 0 and n = 10 and f = body and s = a0] step a0(2) u0
    by auto
  obtain np a2 where a2: "test_poll b a1 100 = Some (\<lparr>po_event = ARQ_EVENT_CONN_FAILED_NO_RESPONSE, po_send_ready = True,
      po_recv_ready = False, po_next_poll = np\<rparr>, a2)" "cn_state (a_conn a2) = ARQ_CONN_STATE_CLOSED"
    using unanswered_poll [OF b a1(2,3)] by auto
  show ?thesis
    using a(1) a0(1) a1(1) a2
    unfolding connect_times_out_after_n_attempts_def Let_def timeout_cfg_sel body_def [unfolded Let_def, symmetric]
    by (simp add: ARQ_SUCCEEDED_iff)
qed

text \<open>
  C28. The three connection tests pass for every build with connections, whatever the memory and the
  configuration fields the tests do not set hold: the handshake in three frames, the handshake of two peers
  that open at the same time, and the connection that gives up without an answer.
\<close>

theorem connection_tests_pass:
  assumes "use_connections b" "cfg_ranges cfg" "abi_ok abi"
    and "required_bytes abi (connect_cfg cfg) < 2 ^ 32" "required_bytes abi (timeout_cfg cfg) < 2 ^ 32"
    and "seat_ok (connect_cfg cfg) seat1" "seat_ok (connect_cfg cfg) seat2" "seat_ok (timeout_cfg cfg) seat3"
    and "\<forall>f \<in> {frame, rst1, ack1, rst2, ack2, tmp}. length f = 256"
  shows "connect_three_way_handshake b abi cfg seat1 seat2 frame tmp = Some () \<and>
    connect_simultaneous b abi cfg seat1 seat2 rst1 ack1 rst2 ack2 tmp = Some () \<and>
    connect_times_out_after_n_attempts b abi cfg seat3 = Some ()"
  using assms by (intro conjI three_way_handshake_passes simultaneous_passes times_out_passes) simp_all

lemma connection_tests_pass_witness:
  "connect_three_way_handshake le_build demo_abi demo_cfg (4096, blank_mem (connect_cfg demo_cfg)) (4096, blank_mem (connect_cfg demo_cfg))
      (replicate 256 1) (replicate 256 2) = Some () \<and>
   connect_simultaneous le_build demo_abi demo_cfg (4096, blank_mem (connect_cfg demo_cfg)) (4096, blank_mem (connect_cfg demo_cfg))
      (replicate 256 3) (replicate 256 4) (replicate 256 5) (replicate 256 6) (replicate 256 2) = Some () \<and>
   connect_times_out_after_n_attempts le_build demo_abi demo_cfg (4096, blank_mem (timeout_cfg demo_cfg)) = Some ()"
proof (rule connection_tests_pass [OF _ demo_cfg_ranges demo_abi_ok _ _ blank_seat blank_seat blank_seat])
  show "required_bytes demo_abi (connect_cfg demo_cfg) < 2 ^ 32" "required_bytes demo_abi (timeout_cfg demo_cfg) < 2 ^ 32"
    by (simp_all add: required_bytes_def requests_def demo_abi_def connect_cfg_def timeout_cfg_def demo_cfg_def align_up_def)
qed (simp_all add: le_build_def)

end
