(* ===== verification/Arq_Exec.thy ===== *)
theory Arq_Exec imports Arq_Harness begin

text \<open>
  Execution of the model on objects whose buffers are variables: what the functional tests need to run
  \<open>arq_send\<close>, \<open>arq_recv\<close> and \<open>arq_backend_poll\<close> by rewriting. The object \<open>arq_init\<close> makes is given
  field by field, frames are taken by what they carry (\<open>carries\<close>), and the definitions of the steps are
  collected in \<open>exec\<close>.
\<close>

section \<open>Rewriting with the definitions\<close>

text \<open>
  Symbolic execution: the definitions of the memory and arithmetic operations, and a congruence rule
  that keeps the simplifier out of the continuation of a step until the step has its result.
\<close>

lemma bind_weak: "x = y \<Longrightarrow> Option.bind x f = Option.bind y f"
  by simp

lemmas exec_ops = umod_def udiv_def rd_def wr_def u16_def u32_def sub32_def arq__min_def arq__max_def arq__sub_sat_def
  memcpy_out_def memcpy_in_def shr_unsigned_def shl_int_def shl_unsigned_def ARQ_ASSERT_def Let_def

lemma ctz_small [simp]: "arq__ctz (not32 0) = Some 0" "arq__ctz (not32 (Suc 0)) = Some 1" "arq__ctz (not32 3) = Some 2"
  by code_simp+

lemmas exec_send = arq__send_poll_def send_poll_timers_def send_poll_header_def arq__send_wnd_ack_def arq__send_wnd_step_def
  arq__send_wnd_flush_def arq__send_wnd_ptr_next_def

lemmas exec_recv = arq__recv_poll_def recv_poll_frame_def recv_poll_timer_def arq__recv_wnd_ack_def arq__recv_wnd_frame_def
  recv_wnd_make_room_def recv_wnd_store_def arq__recv_frame_rst_def arq__recv_wnd_pending_def

lemmas exec_poll = backend_poll_def exec_send exec_recv arq__next_poll_def backend_emit_def arq__wnd_seg_def

text \<open>A window of one message of \<open>n\<close> segments of 128 bytes, at sequence number 0.\<close>

definition one_wnd :: "nat \<Rightarrow> byte list \<Rightarrow> nat \<Rightarrow> nat \<Rightarrow> nat \<Rightarrow> arq__wnd_t" where
  "one_wnd n buf len vec sz = \<lparr>w_msg = [\<lparr>m_len = len, m_cur_ack_vec = vec, m_full_ack_vec = 2 ^ n - 1\<rparr>], w_buf = buf,
     w_seq = 0, w_cap = 1, w_size = sz, w_msg_len = n * 128, w_seg_len = 128, w_full_ack_vec = 2 ^ n - 1\<rparr>"

definition one_sender :: "nat \<Rightarrow> byte list \<Rightarrow> nat \<Rightarrow> nat \<Rightarrow> nat \<Rightarrow> nat \<Rightarrow> arq__send_wnd_t" where
  "one_sender n buf len vec sz rtx = \<lparr>s_w = one_wnd n buf len vec sz, s_rtx = [rtx], s_tiny = 0, s_tiny_on = False\<rparr>"

definition one_receiver :: "nat \<Rightarrow> byte list \<Rightarrow> nat \<Rightarrow> nat \<Rightarrow> nat \<Rightarrow> bool \<Rightarrow> nat \<Rightarrow> bool \<Rightarrow> nat \<Rightarrow> arq__recv_wnd_t" where
  "one_receiver n buf len vec sz ack tmr on slide = \<lparr>r_w = one_wnd n buf len vec sz, r_ack = [ack], r_inter_seg_ack = tmr,
     r_inter_seg_ack_seq = 0, r_inter_seg_ack_on = on, r_copy_seq = slide, r_copy_ofs = 0, r_slide = slide\<rparr>"

lemmas exec_state = one_wnd_def one_sender_def one_receiver_def

definition send_ptr :: "nat \<Rightarrow> bool \<Rightarrow> arq__send_wnd_ptr_t" where
  "send_ptr seg v = \<lparr>p_seq = 0, p_seg = seg, p_valid = v\<rparr>"

definition closed :: "arq__conn_u \<Rightarrow> arq__conn_t" where
  "closed u = \<lparr>cn_state = ARQ_CONN_STATE_CLOSED, cn_u = u\<rparr>"

lemma closed_poll:
  "\<not> h_rst rh \<Longrightarrow> use_connections b \<Longrightarrow> arq__conn_poll b (closed u) sh rh dt cfg =
     Some (False, closed u, sh, if h_ack rh \<or> h_seg rh then ARQ_EVENT_CONN_FAILED_DESYNC else ARQ_EVENT_NONE)"
  by (simp add: conn_poll_start closed_def)

text \<open>A party of the tests: both windows hold one message, no connection was opened.\<close>

definition sframe :: "byte list \<Rightarrow> arq__send_frame_state_t \<Rightarrow> nat \<Rightarrow> arq__send_frame_t" where
  "sframe buf st n = \<lparr>sf_buf = buf, sf_state = st, sf_cap = 146, sf_len = n\<rparr>"

definition rframe :: "byte list \<Rightarrow> arq__recv_frame_state_t \<Rightarrow> nat \<Rightarrow> arq__recv_frame_t" where
  "rframe buf st n = \<lparr>rf_buf = buf, rf_state = st, rf_cap = 146, rf_len = n\<rparr>"

abbreviation "empty_rframe buf \<equiv> rframe buf ARQ__RECV_FRAME_STATE_ACCUMULATING 0"

definition party :: "arq_cfg_t \<Rightarrow> arq__conn_u \<Rightarrow> arq__send_wnd_t \<Rightarrow> arq__send_wnd_ptr_t \<Rightarrow> arq__send_frame_t \<Rightarrow>
    arq__recv_wnd_t \<Rightarrow> arq__recv_frame_t \<Rightarrow> bool \<Rightarrow> arq_t" where
  "party c u sw p sf rw rf np = \<lparr>a_cfg = c, a_send_wnd = sw, a_send_wnd_ptr = p, a_send_frame = sf, a_recv_wnd = rw,
     a_recv_frame = rf, a_need_poll = np, a_conn = closed u\<rparr>"

lemmas exec_party = party_def sframe_def rframe_def send_ptr_def

text \<open>What the fixture makes of its memory.\<close>

definition fresh_wnd :: "nat \<Rightarrow> nat \<Rightarrow> nat \<Rightarrow> byte list \<Rightarrow> arq__wnd_t" where
  "fresh_wnd cap n seg_len buf = \<lparr>w_msg = replicate cap \<lparr>m_len = 0, m_cur_ack_vec = 0, m_full_ack_vec = 2 ^ n - 1\<rparr>,
     w_buf = buf, w_seq = 0, w_cap = cap, w_size = 0, w_msg_len = n * seg_len, w_seg_len = seg_len, w_full_ack_vec = 2 ^ n - 1\<rparr>"

lemma send_wnd_rst_eq:
  assumes "length (w_msg (s_w sw)) = w_cap (s_w sw)" "length (s_rtx sw) = w_cap (s_w sw)"
  shows "arq__send_wnd_rst sw = Some (sw\<lparr>s_w := (s_w sw)\<lparr>w_size := 0, w_seq := 0,
      w_msg := replicate (w_cap (s_w sw)) (fresh_msg (s_w sw))\<rparr>,
    s_rtx := replicate (w_cap (s_w sw)) 0, s_tiny := 0, s_tiny_on := False\<rparr>)"
  using assms for_range_fill [of "s_rtx sw" "\<lambda>i rtx. wr rtx i 0" 0 0 "length (s_rtx sw)"]
  by (simp add: arq__send_wnd_rst_def wnd_rst_eq wr_def)

lemma ArqContext_fresh:
  assumes c: "cfg_sound c" and s: "abi_ok abi" "required_bytes abi c < 2 ^ 32" "arrays_fit c (snd seat)" "0 < fst seat"
    and b: "use_connections b"
  defines "n \<equiv> message_length_in_segments c" and "l \<equiv> segment_length_in_bytes c"
    and "cs \<equiv> send_window_size_in_messages c" and "cr \<equiv> recv_window_size_in_messages c"
  shows "\<exists>u sb sfb rb rfb. ArqContext b abi seat c = Some \<lparr>a_cfg = c,
      a_send_wnd = \<lparr>s_w = fresh_wnd cs n l sb, s_rtx = replicate cs 0, s_tiny = 0, s_tiny_on = False\<rparr>,
      a_send_wnd_ptr = \<lparr>p_seq = 0, p_seg = 0, p_valid = False\<rparr>,
      a_send_frame = \<lparr>sf_buf = sfb, sf_state = ARQ__SEND_FRAME_STATE_FREE, sf_cap = 18 + l, sf_len = 0\<rparr>,
      a_recv_wnd = \<lparr>r_w = fresh_wnd cr n l rb, r_ack = replicate cr False, r_inter_seg_ack = ARQ_TIME_INFINITY,
        r_inter_seg_ack_seq = 0, r_inter_seg_ack_on = False, r_copy_seq = 0, r_copy_ofs = 0, r_slide = 0\<rparr>,
      a_recv_frame = \<lparr>rf_buf = rfb, rf_state = ARQ__RECV_FRAME_STATE_ACCUMULATING, rf_cap = 18 + l, rf_len = 0\<rparr>,
      a_need_poll = False, a_conn = \<lparr>cn_state = ARQ_CONN_STATE_CLOSED, cn_u = u\<rparr>\<rparr> \<and>
    length sb = cs * (n * l) \<and> length rb = cr * (n * l) \<and> length sfb = 18 + l \<and> length rfb = 18 + l"
proof -
  have geo: "geometry_ok cs n l" "geometry_ok cr n l" using c by (simp_all add: cfg_sound_def n_def l_def cs_def cr_def)
  have ml: "u32 (n * l) = n * l" "l \<le> 238" using geometry_msg_len(2) [OF geo(1)] geo(1) by (simp_all add: u32_id geometry_ok_def)
  let ?m = "snd seat"
  have fit: "length (w_msg (s_w (a_send_wnd ?m))) = cs" "length (w_buf (s_w (a_send_wnd ?m))) = cs * (n * l)"
    "length (s_rtx (a_send_wnd ?m)) = cs" "length (w_msg (r_w (a_recv_wnd ?m))) = cr"
    "length (w_buf (r_w (a_recv_wnd ?m))) = cr * (n * l)" "length (r_ack (a_recv_wnd ?m)) = cr"
    "length (sf_buf (a_send_frame ?m)) = 18 + l" "length (rf_buf (a_recv_frame ?m)) = 18 + l"
    using s(3) by (simp_all add: arrays_fit_def n_def l_def cs_def cr_def)
  from init_in_seat [OF c s, of b] s(2) obtain a a1 where
    i: "arq_required_size b abi (Some c) True = Some (ARQ_OK_COMPLETED, Some (required_bytes abi c))"
      "arq_init b abi (Some c) (fst seat) (required_bytes abi c) ?m True = Some (ARQ_OK_COMPLETED, Some a)"
      "arq__init b (?m\<lparr>a_cfg := c\<rparr>) = Some a1" "arq__rst b a1 = Some a"
    by blast
  have r: "ArqContext b abi seat c = Some a" by (simp add: ArqContext_def ARQ_SUCCEEDED_iff i(1,2))
  let ?sw = "fresh_wnd cs n l (w_buf (s_w (a_send_wnd ?m)))" let ?rw = "fresh_wnd cr n l (w_buf (r_w (a_recv_wnd ?m)))"
  have w: "arq__wnd_init (s_w (a_send_wnd ?m)) cs (n * l) l = Some ?sw" "arq__wnd_init (r_w (a_recv_wnd ?m)) cr (n * l) l = Some ?rw"
    using wnd_init_eq [OF geo(1) fit(1)] wnd_init_eq [OF geo(2) fit(4)]
    by (simp_all add: fresh_wnd_def)
  have a1: "a1 = ?m\<lparr>a_cfg := c, a_send_wnd := (a_send_wnd ?m)\<lparr>s_w := ?sw\<rparr>,
      a_send_frame := (a_send_frame ?m)\<lparr>sf_cap := 18 + l\<rparr>, a_recv_wnd := (a_recv_wnd ?m)\<lparr>r_w := ?rw\<rparr>,
      a_recv_frame := (a_recv_frame ?m)\<lparr>rf_cap := 18 + l\<rparr>\<rparr>"
    using i(3) ml w by (simp add: arq__init_def n_def [symmetric] l_def [symmetric] cs_def [symmetric] cr_def [symmetric]
        Let_def arq__frame_len_ok arq__recv_frame_init_def arq__send_frame_init_def u16_id)
  have ok: "wnd_ok ?rw" by (rule wnd_init_ok(1) [OF geo(2) fit(4,5) w(2)])
  have rs: "arq__send_wnd_rst ((a_send_wnd ?m)\<lparr>s_w := ?sw\<rparr>) =
      Some \<lparr>s_w = ?sw, s_rtx = replicate cs 0, s_tiny = 0, s_tiny_on = False\<rparr>"
    using fit(3) by (subst send_wnd_rst_eq) (simp_all add: fresh_wnd_def fresh_msg_def)
  have rr: "arq__recv_wnd_rst ((a_recv_wnd ?m)\<lparr>r_w := ?rw\<rparr>) = Some \<lparr>r_w = ?rw, r_ack = replicate cr False,
      r_inter_seg_ack = ARQ_TIME_INFINITY, r_inter_seg_ack_seq = 0, r_inter_seg_ack_on = False, r_copy_seq = 0,
      r_copy_ofs = 0, r_slide = 0\<rparr>"
    using fit(6) ok by (subst recv_wnd_rst_eq) (simp_all add: fresh_wnd_def fresh_msg_def)
  have "Some a = Some \<lparr>a_cfg = c,
      a_send_wnd = \<lparr>s_w = ?sw, s_rtx = replicate cs 0, s_tiny = 0, s_tiny_on = False\<rparr>,
      a_send_wnd_ptr = \<lparr>p_seq = 0, p_seg = 0, p_valid = False\<rparr>,
      a_send_frame = \<lparr>sf_buf = sf_buf (a_send_frame ?m), sf_state = ARQ__SEND_FRAME_STATE_FREE, sf_cap = 18 + l, sf_len = 0\<rparr>,
      a_recv_wnd = \<lparr>r_w = ?rw, r_ack = replicate cr False, r_inter_seg_ack = ARQ_TIME_INFINITY,
        r_inter_seg_ack_seq = 0, r_inter_seg_ack_on = False, r_copy_seq = 0, r_copy_ofs = 0, r_slide = 0\<rparr>,
      a_recv_frame = \<lparr>rf_buf = rf_buf (a_recv_frame ?m), rf_state = ARQ__RECV_FRAME_STATE_ACCUMULATING, rf_cap = 18 + l, rf_len = 0\<rparr>,
      a_need_poll = False, a_conn = \<lparr>cn_state = ARQ_CONN_STATE_CLOSED, cn_u = cn_u (a_conn ?m)\<rparr>\<rparr>"
    unfolding i(4) [symmetric] a1 using b rs rr
    by (simp add: arq__rst_def arq__send_wnd_ptr_rst_def arq__send_frame_rst_def arq__recv_frame_rst_def)
  with r fit show ?thesis by auto
qed

text \<open>For windows of one message of segments of 128 bytes.\<close>

lemma ArqContext_one:
  assumes c: "cfg_sound c" "send_window_size_in_messages c = 1" "recv_window_size_in_messages c = 1"
      "message_length_in_segments c = n" "segment_length_in_bytes c = 128"
    and s: "abi_ok abi" "required_bytes abi c < 2 ^ 32" "arrays_fit c (snd seat)" "0 < fst seat" and b: "use_connections b"
  shows "\<exists>u sb sfb rb rfb. ArqContext b abi seat c = Some (party c u (one_sender n sb 0 0 0 0) (send_ptr 0 False)
      (sframe sfb ARQ__SEND_FRAME_STATE_FREE 0) (one_receiver n rb 0 0 0 False ARQ_TIME_INFINITY False 0) (empty_rframe rfb) False) \<and>
    length sb = n * 128 \<and> length rb = n * 128 \<and> length sfb = 146 \<and> length rfb = 146"
  using ArqContext_fresh [OF c(1) s b] c(2-5)
  by (simp add: exec_party exec_state closed_def fresh_wnd_def)

section \<open>Frames of the tests\<close>

text \<open>A vector of \<open>n\<close> bytes filled with 16-bit counters, in the byte order of the host.\<close>

definition test_data :: "build \<Rightarrow> nat \<Rightarrow> byte list" where
  "test_data b n = concat (map (\<lambda>i. obj16 b (of_nat i)) [0..<n div 2]) @ replicate (n mod 2) 0"

lemma length_test_data [simp]: "length (test_data b n) = n"
proof -
  have "length (concat (map (\<lambda>i. obj16 b (of_nat i)) [0..<k])) = k * 2" for k
    by (induction k) (simp_all add: obj16_def)
  then show ?thesis by (simp add: test_data_def)
qed

definition seg_hdr :: "nat \<Rightarrow> nat \<Rightarrow> arq__frame_hdr_t" where
  "seg_hdr n s = arq__frame_hdr_init\<lparr>h_seg_len := 128, h_msg_len := n, h_seg_id := s, h_seg := True\<rparr>"

definition ack_hdr :: "nat \<Rightarrow> arq__frame_hdr_t" where
  "ack_hdr v = arq__frame_hdr_init\<lparr>h_cur_ack_vec := v, h_ack := True\<rparr>"

lemmas exec_hdr = seg_hdr_def ack_hdr_def arq__frame_hdr_init_def

lemma closed_next_poll [simp]: "arq__conn_next_poll (closed u) = Some ARQ_TIME_INFINITY"
  by (simp add: arq__conn_next_poll_def closed_def)

lemmas exec = exec_poll exec_ops exec_state exec_party exec_hdr ARQ_TIME_INFINITY_def

lemma emit_segment:
  assumes "length sfb = 146" "n < 256" "s < 4096" "128 \<le> length d"
  shows "\<exists>out. arq__frame_write b (seg_hdr n s) (Some d) cs sfb 146 = Some (146, out) \<and> length out = 146 \<and>
    carries cs (seg_hdr n s) (take 128 d) out 146"
  using assms carries_written [of "seg_hdr n s" "Some d" 146 sfb b cs]
  by (auto simp: exec_hdr hdr_fits_def seg_readable_def seg_bytes_def)

lemma emit_ack:
  assumes "length sfb = 146" "v < 4096"
  shows "\<exists>out. arq__frame_write b (ack_hdr v) None cs sfb 146 = Some (18, out) \<and> length out = 146 \<and>
    carries cs (ack_hdr v) [] out 18"
  using assms carries_written [of "ack_hdr v" None 146 sfb b cs]
  by (auto simp: exec_hdr hdr_fits_def seg_readable_def seg_bytes_def)

lemma party_sel [simp]:
  "a_cfg (party c u sw p sf rw rf np) = c" "a_send_wnd (party c u sw p sf rw rf np) = sw"
  "a_send_frame (party c u sw p sf rw rf np) = sf" "a_recv_wnd (party c u sw p sf rw rf np) = rw"
  "a_recv_frame (party c u sw p sf rw rf np) = rf" "a_need_poll (party c u sw p sf rw rf np) = np"
  "sf_buf (sframe buf st k) = buf" "sf_len (sframe buf st k) = k" "sf_state (sframe buf st k) = st"
  by (simp_all add: exec_party)

lemma drain_party:
  assumes "carries cs h bs buf k" "256 \<le> length frame"
  shows "\<exists>frame'. test_drain (party c u sw p (sframe buf st k) rw rf np) frame = Some (k, frame',
      party c u sw p (sframe buf ARQ__SEND_FRAME_STATE_RELEASED 0) rw rf True) \<and> carries cs h bs frame' k \<and> 256 \<le> length frame'"
proof -
  let ?a = "party c u sw p (sframe buf st k) rw rf np"
  have "carries cs h bs (sf_buf (a_send_frame ?a)) (sf_len (a_send_frame ?a))" using assms(1) by simp
  from test_drain_ok [OF this assms(2)] assms(2) show ?thesis by (auto simp: exec_party)
qed

lemma fill_party:
  assumes "carries cs h bs frame k" "k \<le> 146" "length rfb = 146"
  shows "\<exists>rfb'. test_fill (party c u sw p sf rw (empty_rframe rfb) np) frame k =
      Some (party c u sw p sf rw (rframe rfb' ARQ__RECV_FRAME_STATE_FULL_FRAME_PRESENT k) True) \<and>
    length rfb' = 146 \<and> carries cs h bs rfb' k"
proof -
  have "recv_frame_ok (empty_rframe rfb)" using assms(3) by (simp add: recv_frame_ok_def rframe_def)
  from carries_fill [OF assms(1) this] assms(2,3) obtain f where
    f: "arq__recv_frame_fill (empty_rframe rfb) frame k = Some (k, f)" "rf_full f" "rf_len f = k" "rf_cap f = 146"
      "length (rf_buf f) = 146" "carries cs h bs (rf_buf f) k"
    by (auto simp: rframe_def)
  then have "f = rframe (rf_buf f) ARQ__RECV_FRAME_STATE_FULL_FRAME_PRESENT k" by (cases f) (simp add: rframe_def)
  with f show ?thesis
    by (intro exI [of _ "rf_buf f"]) (simp add: test_fill_def arq_backend_recv_fill_def ARQ_SUCCEEDED_iff party_def)
qed

lemma carried_frame_read:
  assumes "carries cs h bs buf k" "length buf = 146"
  shows "\<exists>buf'. arq__frame_read b buf k cs = Some (ARQ__FRAME_READ_RESULT_SUCCESS, h, 13, buf') \<and>
    length buf' = 146 \<and> take (h_seg_len h) (drop 13 buf') = bs"
  using carries_read [OF assms(1)] assms(2) by auto

text \<open>What a test may read in a frame with an acknowledgement.\<close>

lemma read_ack:
  assumes "carries cs (ack_hdr 1) [] frame 18" "256 \<le> length frame"
  shows "\<exists>frame'. arq__frame_read b frame 18 cs = Some (ARQ__FRAME_READ_RESULT_SUCCESS, ack_hdr 1, 13, frame') \<and> 256 \<le> length frame'"
  using carries_read [OF assms(1), of b] assms(2) by (elim exE conjE) (intro exI conjI, assumption, simp)

lemma ack_hdr_sel [simp]:
  "\<not> h_seg (ack_hdr v)" "h_seg_len (ack_hdr v) = 0" "h_ack (ack_hdr v)" "h_ack_num (ack_hdr v) = 0" "h_cur_ack_vec (ack_hdr v) = v"
  by (simp_all add: exec_hdr)

lemma seg_hdr_sel [simp]:
  "h_seg (seg_hdr n s)" "h_seq_num (seg_hdr n s) = 0" "h_seg_id (seg_hdr n s) = s" "h_msg_len (seg_hdr n s) = n" "\<not> h_ack (seg_hdr n s)"
  "h_msg_len (ack_hdr v) = 0"
  by (simp_all add: exec_hdr)

text \<open>A frame that is taken from an object and lost.\<close>

definition test_discard :: "arq_t \<Rightarrow> (nat \<times> arq_t) option" where
  "test_discard arq =
     (case arq_backend_send_ptr_get (Some arq) True True of
        (e, out, arq1) \<Rightarrow> do {
          CHECK (ARQ_SUCCEEDED e);
          (p, frame_len) \<leftarrow> out;
          (case arq_backend_send_ptr_release arq1 of
             (e', arq2) \<Rightarrow> do {
               CHECK (ARQ_SUCCEEDED e');
               a2 \<leftarrow> arq2;
               Some (frame_len, a2)
             })
        })"

lemma discard_party:
  assumes "k \<noteq> 0"
  shows "test_discard (party c u sw p (sframe buf st k) rw rf np) =
    Some (k, party c u sw p (sframe buf ARQ__SEND_FRAME_STATE_RELEASED 0) rw rf True)"
  using assms by (simp add: test_discard_def arq_backend_send_ptr_get_def arq_backend_send_ptr_release_def ARQ_SUCCEEDED_iff Let_def exec_party)

end
