(* ===== verification/Arq_Retransmit_Tests.thy ===== *)
theory Arq_Retransmit_Tests imports Arq_Exec begin

text \<open>
  The functional test \<open>lost_ack_payload_retransmitted_already_received\<close>: the acknowledgement of a message
  is lost, and the message is sent again.
\<close>

section \<open>The test\<close>

definition payload_cfg :: "arq_cfg_t \<Rightarrow> arq_cfg_t" where
  "payload_cfg cfg = cfg\<lparr>segment_length_in_bytes := 128, message_length_in_segments := 1,
     send_window_size_in_messages := 1, recv_window_size_in_messages := 1, retransmission_timeout := 100,
     inter_segment_timeout := 100, cfg_checksum := crc32_checksum, connection_rst_attempts := 10,
     connection_rst_period := 100\<rparr>"

definition lost_ack_payload_retransmitted_already_received ::
  "build \<Rightarrow> abi \<Rightarrow> arq_cfg_t \<Rightarrow> nat \<times> arq_t \<Rightarrow> nat \<times> arq_t \<Rightarrow> byte list \<Rightarrow> unit option" where
  "lost_ack_payload_retransmitted_already_received b abi cfg0 seat1 seat2 frame = do {
     let cfg = payload_cfg cfg0;
     sender \<leftarrow> ArqContext b abi seat1 cfg;
     receiver \<leftarrow> ArqContext b abi seat2 cfg;
     let send_test_data = test_data b (segment_length_in_bytes cfg * message_length_in_segments cfg);
     \<comment> \<open>send a full message\<close>
     (e, sent, arq) \<leftarrow> arq_send (Some sender) (Some send_test_data) (length send_test_data) True;
     CHECK (e = ARQ_OK_COMPLETED);
     CHECK (sent = Some (length send_test_data));
     sender \<leftarrow> arq;
     (out, sender) \<leftarrow> test_poll b sender 0;
     CHECK (po_send_ready out);
     (frame_len, frame, sender) \<leftarrow> test_drain sender frame;
     (out, sender) \<leftarrow> test_poll b sender 0;
     CHECK (\<not> po_send_ready out);
     \<comment> \<open>receive the message\<close>
     receiver \<leftarrow> test_fill receiver frame frame_len;
     (out, receiver) \<leftarrow> test_poll b receiver 0;
     CHECK (po_recv_ready out);
     (e, recvd, arq) \<leftarrow> arq_recv (Some receiver) True (length send_test_data) True;
     CHECK (ARQ_SUCCEEDED e);
     recv_test_data \<leftarrow> recvd;
     CHECK (length send_test_data = length recv_test_data);
     CHECK (send_test_data = recv_test_data);
     receiver \<leftarrow> arq;
     \<comment> \<open>lose the ACK from receiver to sender\<close>
     (out, receiver) \<leftarrow> test_poll b receiver 0;
     CHECK (po_send_ready out);
     (frame_len, frame, receiver) \<leftarrow> test_drain receiver frame;
     (out, receiver) \<leftarrow> test_poll b receiver 0;
     CHECK (\<not> po_send_ready out);
     (r, h, seg, frame) \<leftarrow> arq__frame_read b frame frame_len (cfg_checksum cfg);
     CHECK (r = ARQ__FRAME_READ_RESULT_SUCCESS);
     CHECK (\<not> h_seg h);
     CHECK (h_seg_len h = 0);
     CHECK (h_ack h);
     CHECK (h_ack_num h = 0);
     CHECK (h_cur_ack_vec h = 1);
     \<comment> \<open>poll the sender with a large dt to retransmit the message\<close>
     (out, sender) \<leftarrow> test_poll b sender (retransmission_timeout cfg);
     CHECK (po_send_ready out);
     (frame_len, frame, sender) \<leftarrow> test_drain sender frame;
     (out, sender) \<leftarrow> test_poll b sender 0;
     CHECK (\<not> po_send_ready out);
     \<comment> \<open>receive the retransmitted message\<close>
     receiver \<leftarrow> test_fill receiver frame frame_len;
     (out, receiver) \<leftarrow> test_poll b receiver 0;
     CHECK (po_recv_ready out \<and> po_send_ready out);
     \<comment> \<open>examine and confirm the ACK\<close>
     (frame_len, frame, receiver) \<leftarrow> test_drain receiver frame;
     n \<leftarrow> arq__frame_len b 0;
     CHECK (n = frame_len);
     (r, h, seg, frame) \<leftarrow> arq__frame_read b frame frame_len (cfg_checksum cfg);
     CHECK (r = ARQ__FRAME_READ_RESULT_SUCCESS);
     CHECK (\<not> h_seg h);
     CHECK (h_seg_len h = 0);
     CHECK (h_ack h);
     CHECK (h_ack_num h = 0);
     CHECK (h_cur_ack_vec h = 1)
   }"

section \<open>Steps of the sender and the receiver\<close>

text \<open>The sender of one segment.\<close>

abbreviation "sender1 c u data rtx sg v sfb sfs sfl rb rfb np \<equiv> party c u (one_sender 1 data 128 0 1 rtx) (send_ptr sg v)
  (sframe sfb sfs sfl) (one_receiver 1 rb 0 0 0 False ARQ_TIME_INFINITY False 0) (empty_rframe rfb) np"

lemma sender1_send:
  assumes "length sb = 128" "length data = 128"
  shows "arq_send (Some (party c u (one_sender 1 sb 0 0 0 0) (send_ptr 0 False) sf rw rf False)) (Some data) 128 True =
    Some (ARQ_OK_COMPLETED, Some 128, Some (party c u (one_sender 1 data 128 0 1 0) (send_ptr 0 False) sf rw rf False))"
  using assms by (simp add: arq_send_def arq__send_wnd_send_def exec_ops exec_state party_def cong: bind_weak)

lemma sender1_emits:
  assumes c: "use_connections b" and rtx: "rtx \<le> dt" and l: "length data = 128" "length sfb = 146" and s: "sfs \<noteq> ARQ__SEND_FRAME_STATE_HELD"
  shows "\<exists>out np'. backend_poll b (sender1 c u data rtx sg False sfb sfs 0 rb rfb np) dt =
      Some (\<lparr>po_event = ARQ_EVENT_NONE, po_send_ready = True, po_recv_ready = False, po_next_poll = np'\<rparr>,
        sender1 c u data 0 0 True out ARQ__SEND_FRAME_STATE_FREE 146 rb rfb False) \<and>
    length out = 146 \<and> carries (cfg_checksum c) (seg_hdr 1 0) data out 146"
proof -
  obtain out where "arq__frame_write b (seg_hdr 1 0) (Some data) (cfg_checksum c) sfb 146 = Some (146, out)"
    "length out = 146" "carries (cfg_checksum c) (seg_hdr 1 0) data out 146"
    using emit_segment [of sfb 1 0 data b "cfg_checksum c"] l by auto
  then show ?thesis
    using c rtx l s by (intro exI [of _ out] exI conjI) (simp add: exec closed_poll cong: bind_weak; fail)+
qed

lemma sender1_completes:
  assumes "use_connections b" "length data = 128" "retransmission_timeout c = 100"
  shows "\<exists>np'. backend_poll b (sender1 c u data 0 0 True sfb ARQ__SEND_FRAME_STATE_RELEASED 0 rb rfb np) 0 =
      Some (\<lparr>po_event = ARQ_EVENT_NONE, po_send_ready = False, po_recv_ready = False, po_next_poll = np'\<rparr>,
        sender1 c u data 100 1 False sfb ARQ__SEND_FRAME_STATE_RELEASED 0 rb rfb False)"
  using assms by (intro exI) (simp add: exec closed_poll cong: bind_weak)


text \<open>The receiver of one segment; \<open>sz\<close> is 1 while the message is in its window.\<close>

abbreviation "receiver1 c u data len vec sz ack slide sfb sfs sfl sb rf np \<equiv> party c u (one_sender 1 sb 0 0 0 0) (send_ptr 0 False)
  (sframe sfb sfs sfl) (one_receiver 1 data len vec sz ack ARQ_TIME_INFINITY False slide) rf np"

lemma receiver1_stores:
  assumes c: "use_connections b" and l: "length rb = 128" "length data = 128" "length sfb = 146" "length rfb = 146"
    and h: "carries (cfg_checksum c) (seg_hdr 1 0) data rfb 146" and s: "sfs \<noteq> ARQ__SEND_FRAME_STATE_HELD"
    and t: "inter_segment_timeout c = 100"
  shows "\<exists>out np' rfb'. backend_poll b (receiver1 c u rb 0 0 0 False 0 sfb sfs 0 sb
        (rframe rfb ARQ__RECV_FRAME_STATE_FULL_FRAME_PRESENT 146) np) 0 =
      Some (\<lparr>po_event = ARQ_EVENT_CONN_FAILED_DESYNC, po_send_ready = True, po_recv_ready = True, po_next_poll = np'\<rparr>,
        receiver1 c u data 128 1 1 False 0 out ARQ__SEND_FRAME_STATE_FREE 18 sb (empty_rframe rfb') False) \<and>
    length out = 146 \<and> length rfb' = 146 \<and> carries (cfg_checksum c) (ack_hdr 1) [] out 18"
proof -
  obtain out where "arq__frame_write b (ack_hdr 1) None (cfg_checksum c) sfb 146 = Some (18, out)"
    "length out = 146" "carries (cfg_checksum c) (ack_hdr 1) [] out 18"
    using emit_ack [of sfb 1 b "cfg_checksum c"] l by auto
  moreover obtain rfb' where "arq__frame_read b rfb 146 (cfg_checksum c) = Some (ARQ__FRAME_READ_RESULT_SUCCESS, seg_hdr 1 0, 13, rfb')"
    "length rfb' = 146" "take 128 (drop 13 rfb') = data"
    using carried_frame_read [OF h l(4), of b] by (auto simp: seg_hdr_def)
  ultimately show ?thesis
    using c l s t by (intro exI [of _ out] exI [of _ rfb'] exI conjI) (simp add: exec closed_poll cong: bind_weak; fail)+
qed

lemma receiver1_recv:
  assumes "length data = 128"
  shows "arq_recv (Some (receiver1 c u data 128 1 1 False 0 sfb sfs sfl sb (empty_rframe rfb) False)) True 128 True =
    Some (ARQ_OK_COMPLETED, Some data, Some (receiver1 c u data 0 0 1 False 1 sfb sfs sfl sb (empty_rframe rfb) False))"
  using assms by (simp add: arq_recv_def arq__recv_wnd_recv_def exec cong: bind_weak)

lemma receiver1_polls:
  assumes "use_connections b"
  shows "\<exists>np'. backend_poll b (receiver1 c u data 0 0 1 False 1 sfb ARQ__SEND_FRAME_STATE_FREE 18 sb (empty_rframe rfb) np) 0 =
      Some (\<lparr>po_event = ARQ_EVENT_NONE, po_send_ready = True, po_recv_ready = False, po_next_poll = np'\<rparr>,
        receiver1 c u data 0 0 1 False 1 sfb ARQ__SEND_FRAME_STATE_FREE 18 sb (empty_rframe rfb) False)"
    "\<exists>np'. backend_poll b (receiver1 c u data 0 0 1 False 1 sfb ARQ__SEND_FRAME_STATE_RELEASED 0 sb (empty_rframe rfb) np) 0 =
      Some (\<lparr>po_event = ARQ_EVENT_NONE, po_send_ready = False, po_recv_ready = False, po_next_poll = np'\<rparr>,
        receiver1 c u data 0 0 1 False 1 sfb ARQ__SEND_FRAME_STATE_RELEASED 0 sb (empty_rframe rfb) False)"
  using assms by (intro exI; simp add: exec closed_poll cong: bind_weak)+

lemma receiver1_stores_again:
  assumes c: "use_connections b" and l: "length rb = 128" "length data = 128" "length sfb = 146" "length rfb = 146"
    and h: "carries (cfg_checksum c) (seg_hdr 1 0) data rfb 146"
    and t: "inter_segment_timeout c = 100"
  shows "\<exists>out np' rfb'. backend_poll b (receiver1 c u rb 0 0 1 False 1 sfb ARQ__SEND_FRAME_STATE_RELEASED 0 sb
        (rframe rfb ARQ__RECV_FRAME_STATE_FULL_FRAME_PRESENT 146) np) 0 =
      Some (\<lparr>po_event = ARQ_EVENT_CONN_FAILED_DESYNC, po_send_ready = True, po_recv_ready = True, po_next_poll = np'\<rparr>,
        receiver1 c u data 128 1 1 False 1 out ARQ__SEND_FRAME_STATE_FREE 18 sb (empty_rframe rfb') False) \<and>
    length out = 146 \<and> length rfb' = 146 \<and> carries (cfg_checksum c) (ack_hdr 1) [] out 18"
proof -
  obtain out where "arq__frame_write b (ack_hdr 1) None (cfg_checksum c) sfb 146 = Some (18, out)"
    "length out = 146" "carries (cfg_checksum c) (ack_hdr 1) [] out 18"
    using emit_ack [of sfb 1 b "cfg_checksum c"] l by auto
  moreover obtain rfb' where "arq__frame_read b rfb 146 (cfg_checksum c) = Some (ARQ__FRAME_READ_RESULT_SUCCESS, seg_hdr 1 0, 13, rfb')"
    "length rfb' = 146" "take 128 (drop 13 rfb') = data"
    using carried_frame_read [OF h l(4), of b] by (auto simp: seg_hdr_def)
  ultimately show ?thesis
    using c l t by (intro exI [of _ out] exI [of _ rfb'] exI conjI) (simp add: exec closed_poll cong: bind_weak; fail)+
qed

section \<open>The test passes\<close>

lemma payload_cfg_sel [simp]:
  "segment_length_in_bytes (payload_cfg c) = 128" "message_length_in_segments (payload_cfg c) = 1"
  "send_window_size_in_messages (payload_cfg c) = 1" "recv_window_size_in_messages (payload_cfg c) = 1"
  "retransmission_timeout (payload_cfg c) = 100" "inter_segment_timeout (payload_cfg c) = 100"
  by (simp_all add: payload_cfg_def)

lemma payload_cfg_sound: "cfg_ranges c \<Longrightarrow> cfg_sound (payload_cfg c)"
  by (simp add: cfg_sound_def payload_cfg_def arq__check_cfg_def cfg_ranges_def geometry_ok_def)

text \<open>One turn of the sender: a poll that emits the segment, which is drained, and a poll that has nothing to send.\<close>

lemma sender1_turn:
  assumes "use_connections b" "rtx \<le> dt" "length data = 128" "length sfb = 146" "sfs \<noteq> ARQ__SEND_FRAME_STATE_HELD"
    and "retransmission_timeout c = 100" "256 \<le> length frame"
  shows "\<exists>o1 s1 f s2 o2 out. backend_poll b (sender1 c u data rtx sg False sfb sfs 0 rb rfb np) dt = Some (o1, s1) \<and> po_send_ready o1 \<and>
    test_drain s1 frame = Some (146, f, s2) \<and>
    backend_poll b s2 0 = Some (o2, sender1 c u data 100 1 False out ARQ__SEND_FRAME_STATE_RELEASED 0 rb rfb False) \<and>
    \<not> po_send_ready o2 \<and> length out = 146 \<and> carries (cfg_checksum c) (seg_hdr 1 0) data f 146 \<and> 256 \<le> length f"
proof -
  obtain out np1 where 1: "backend_poll b (sender1 c u data rtx sg False sfb sfs 0 rb rfb np) dt =
      Some (\<lparr>po_event = ARQ_EVENT_NONE, po_send_ready = True, po_recv_ready = False, po_next_poll = np1\<rparr>,
        sender1 c u data 0 0 True out ARQ__SEND_FRAME_STATE_FREE 146 rb rfb False)"
    "length out = 146" "carries (cfg_checksum c) (seg_hdr 1 0) data out 146"
    using sender1_emits [OF assms(1-5), of c u sg rb rfb np] by (elim exE conjE)
  obtain f where 2: "test_drain (sender1 c u data 0 0 True out ARQ__SEND_FRAME_STATE_FREE 146 rb rfb False) frame = Some (146, f,
      sender1 c u data 0 0 True out ARQ__SEND_FRAME_STATE_RELEASED 0 rb rfb True)"
    "carries (cfg_checksum c) (seg_hdr 1 0) data f 146" "256 \<le> length f"
    using drain_party [OF 1(3) assms(7)] by blast
  obtain np2 where "backend_poll b (sender1 c u data 0 0 True out ARQ__SEND_FRAME_STATE_RELEASED 0 rb rfb True) 0 =
      Some (\<lparr>po_event = ARQ_EVENT_NONE, po_send_ready = False, po_recv_ready = False, po_next_poll = np2\<rparr>,
        sender1 c u data 100 1 False out ARQ__SEND_FRAME_STATE_RELEASED 0 rb rfb False)"
    using sender1_completes [OF assms(1,3,6)] by blast
  with 1(2) 2(2,3) show ?thesis by (intro exI conjI) (rule 1(1), simp, rule 2(1), assumption, simp_all)
qed

lemma lost_ack_passes:
  assumes b: "use_connections b" and cfg: "cfg_ranges cfg0" "abi_ok abi" "required_bytes abi (payload_cfg cfg0) < 2 ^ 32"
    and mem: "arrays_fit (payload_cfg cfg0) (snd seat1)" "0 < fst seat1" "arrays_fit (payload_cfg cfg0) (snd seat2)" "0 < fst seat2"
      "256 \<le> length frame"
  shows "lost_ack_payload_retransmitted_already_received b abi cfg0 seat1 seat2 frame = Some ()"
proof -
  let ?c = "payload_cfg cfg0" let ?d = "test_data b 128"
  note fresh = ArqContext_one [OF payload_cfg_sound [OF cfg(1)] payload_cfg_sel(3,4,2,1) cfg(2,3) _ _ b]
  obtain u1 sb1 sfb1 rb1 rfb1 where s: "ArqContext b abi seat1 ?c = Some (party ?c u1 (one_sender 1 sb1 0 0 0 0) (send_ptr 0 False)
      (sframe sfb1 ARQ__SEND_FRAME_STATE_FREE 0) (one_receiver 1 rb1 0 0 0 False ARQ_TIME_INFINITY False 0) (empty_rframe rfb1) False)"
    "length sb1 = 128" "length sfb1 = 146"
    using fresh [OF mem(1,2)] by auto
  obtain u2 sb2 sfb2 rb2 rfb2 where r: "ArqContext b abi seat2 ?c = Some (party ?c u2 (one_sender 1 sb2 0 0 0 0) (send_ptr 0 False)
      (sframe sfb2 ARQ__SEND_FRAME_STATE_FREE 0) (one_receiver 1 rb2 0 0 0 False ARQ_TIME_INFINITY False 0) (empty_rframe rfb2) False)"
    "length rb2 = 128" "length sfb2 = 146" "length rfb2 = 146"
    using fresh [OF mem(3,4)] by auto
  note turn = sender1_turn [OF b _ length_test_data [of b] _ _ payload_cfg_sel(5) [of cfg0]]
  have st: "ARQ__SEND_FRAME_STATE_FREE \<noteq> ARQ__SEND_FRAME_STATE_HELD" "ARQ__SEND_FRAME_STATE_RELEASED \<noteq> ARQ__SEND_FRAME_STATE_HELD"
    by simp_all
  obtain o1 s1 f1 s2 o2 sfb where 1: "backend_poll b (sender1 ?c u1 ?d 0 0 False sfb1 ARQ__SEND_FRAME_STATE_FREE 0 rb1 rfb1 False) 0 = Some (o1, s1)"
    "po_send_ready o1" "test_drain s1 frame = Some (146, f1, s2)"
    "backend_poll b s2 0 = Some (o2, sender1 ?c u1 ?d 100 1 False sfb ARQ__SEND_FRAME_STATE_RELEASED 0 rb1 rfb1 False)"
    "\<not> po_send_ready o2" "length sfb = 146" "carries (cfg_checksum ?c) (seg_hdr 1 0) ?d f1 146" "256 \<le> length f1"
    using turn [OF le_refl [of 0] s(3) st(1) mem(5), of u1 0 rb1 rfb1 False] by (elim exE conjE)
  obtain f2 where 2: "test_fill (receiver1 ?c u2 rb2 0 0 0 False 0 sfb2 ARQ__SEND_FRAME_STATE_FREE 0 sb2 (empty_rframe rfb2) False) f1 146 =
      Some (receiver1 ?c u2 rb2 0 0 0 False 0 sfb2 ARQ__SEND_FRAME_STATE_FREE 0 sb2 (rframe f2 ARQ__RECV_FRAME_STATE_FULL_FRAME_PRESENT 146) True)"
    "length f2 = 146" "carries (cfg_checksum ?c) (seg_hdr 1 0) ?d f2 146"
    using fill_party [OF 1(7) order_refl r(4)] by blast
  obtain sfb3 n3 rfb3 where 3: "backend_poll b (receiver1 ?c u2 rb2 0 0 0 False 0 sfb2 ARQ__SEND_FRAME_STATE_FREE 0 sb2
        (rframe f2 ARQ__RECV_FRAME_STATE_FULL_FRAME_PRESENT 146) True) 0 =
      Some (\<lparr>po_event = ARQ_EVENT_CONN_FAILED_DESYNC, po_send_ready = True, po_recv_ready = True, po_next_poll = n3\<rparr>,
        receiver1 ?c u2 ?d 128 1 1 False 0 sfb3 ARQ__SEND_FRAME_STATE_FREE 18 sb2 (empty_rframe rfb3) False)"
    "length sfb3 = 146" "length rfb3 = 146" "carries (cfg_checksum ?c) (ack_hdr 1) [] sfb3 18"
    using receiver1_stores [OF b r(2) length_test_data r(3) 2(2,3) st(1) payload_cfg_sel(6)] by blast
  let ?r = "\<lambda>sfs sfl np. receiver1 ?c u2 ?d 0 0 1 False 1 sfb3 sfs sfl sb2 (empty_rframe rfb3) np"
  obtain n4 where 4: "backend_poll b (?r ARQ__SEND_FRAME_STATE_FREE 18 False) 0 = Some (\<lparr>po_event = ARQ_EVENT_NONE,
      po_send_ready = True, po_recv_ready = False, po_next_poll = n4\<rparr>, ?r ARQ__SEND_FRAME_STATE_FREE 18 False)"
    using receiver1_polls(1) [OF b] by blast
  obtain f4 where 5: "test_drain (?r ARQ__SEND_FRAME_STATE_FREE 18 False) f1 = Some (18, f4, ?r ARQ__SEND_FRAME_STATE_RELEASED 0 True)"
    "carries (cfg_checksum ?c) (ack_hdr 1) [] f4 18" "256 \<le> length f4"
    using drain_party [OF 3(4) 1(8)] by blast
  obtain n6 where 6: "backend_poll b (?r ARQ__SEND_FRAME_STATE_RELEASED 0 True) 0 = Some (\<lparr>po_event = ARQ_EVENT_NONE,
      po_send_ready = False, po_recv_ready = False, po_next_poll = n6\<rparr>, ?r ARQ__SEND_FRAME_STATE_RELEASED 0 False)"
    using receiver1_polls(2) [OF b] by blast
  obtain f5 where 7: "arq__frame_read b f4 18 (cfg_checksum ?c) = Some (ARQ__FRAME_READ_RESULT_SUCCESS, ack_hdr 1, 13, f5)" "256 \<le> length f5"
    using read_ack [OF 5(2,3), of b] by (elim exE conjE)
  obtain o8 s8 f8 s9 o9 sfb9 where 8: "backend_poll b (sender1 ?c u1 ?d 100 1 False sfb ARQ__SEND_FRAME_STATE_RELEASED 0 rb1 rfb1 False) 100 = Some (o8, s8)"
    "po_send_ready o8" "test_drain s8 f5 = Some (146, f8, s9)"
    "backend_poll b s9 0 = Some (o9, sender1 ?c u1 ?d 100 1 False sfb9 ARQ__SEND_FRAME_STATE_RELEASED 0 rb1 rfb1 False)"
    "\<not> po_send_ready o9" "carries (cfg_checksum ?c) (seg_hdr 1 0) ?d f8 146" "256 \<le> length f8"
    using turn [OF le_refl [of 100] 1(6) st(2) 7(2), of u1 1 rb1 rfb1 False] by (elim exE conjE)
  obtain f9 where 9: "test_fill (?r ARQ__SEND_FRAME_STATE_RELEASED 0 False) f8 146 =
      Some (receiver1 ?c u2 ?d 0 0 1 False 1 sfb3 ARQ__SEND_FRAME_STATE_RELEASED 0 sb2 (rframe f9 ARQ__RECV_FRAME_STATE_FULL_FRAME_PRESENT 146) True)"
    "length f9 = 146" "carries (cfg_checksum ?c) (seg_hdr 1 0) ?d f9 146"
    using fill_party [OF 8(6) order_refl 3(3)] by blast
  obtain sfb10 n10 rfb10 where 10: "backend_poll b (receiver1 ?c u2 ?d 0 0 1 False 1 sfb3 ARQ__SEND_FRAME_STATE_RELEASED 0 sb2
        (rframe f9 ARQ__RECV_FRAME_STATE_FULL_FRAME_PRESENT 146) True) 0 =
      Some (\<lparr>po_event = ARQ_EVENT_CONN_FAILED_DESYNC, po_send_ready = True, po_recv_ready = True, po_next_poll = n10\<rparr>,
        receiver1 ?c u2 ?d 128 1 1 False 1 sfb10 ARQ__SEND_FRAME_STATE_FREE 18 sb2 (empty_rframe rfb10) False)"
    "carries (cfg_checksum ?c) (ack_hdr 1) [] sfb10 18"
    using receiver1_stores_again [OF b length_test_data length_test_data 3(2) 9(2,3) payload_cfg_sel(6)] by blast
  obtain f11 s11 where 11: "test_drain (receiver1 ?c u2 ?d 128 1 1 False 1 sfb10 ARQ__SEND_FRAME_STATE_FREE 18 sb2 (empty_rframe rfb10) False) f8 =
      Some (18, f11, s11)" "carries (cfg_checksum ?c) (ack_hdr 1) [] f11 18" "256 \<le> length f11"
    using drain_party [OF 10(2) 8(7)] by blast
  obtain f12 where 12: "arq__frame_read b f11 18 (cfg_checksum ?c) = Some (ARQ__FRAME_READ_RESULT_SUCCESS, ack_hdr 1, 13, f12)"
    using read_ack [OF 11(2,3), of b] by (elim exE conjE)
  show ?thesis
    unfolding lost_ack_payload_retransmitted_already_received_def
    by (simp del: One_nat_def add: test_poll_eq Let_def s(1) r(1) 1(1-5) 2(1) 3(1) 4 5(1) 6 7(1) 8(1-5) 9(1) 10(1) 11(1) 12 arq__frame_len_ok
      sender1_send [OF s(2) length_test_data] receiver1_recv ARQ_SUCCEEDED_iff cong: bind_weak)
qed

end
