(* ===== verification/Arq_Nak_Tests.thy ===== *)
theory Arq_Nak_Tests imports Arq_Retransmit_Tests begin

text \<open>
  The functional tests \<open>losing_final_segment_in_message_triggers_nak\<close> and
  \<open>losing_non_final_segment_triggers_nak\<close>: one of the two segments of a message is lost, the receiver
  shows what it has in an acknowledgement, and the sender sends the segment that is missing.
\<close>

section \<open>The tests\<close>

definition nak_cfg :: "arq_cfg_t \<Rightarrow> arq_cfg_t" where
  "nak_cfg cfg = cfg\<lparr>segment_length_in_bytes := 128, message_length_in_segments := 2,
     send_window_size_in_messages := 1, recv_window_size_in_messages := 1, retransmission_timeout := 100,
     inter_segment_timeout := 50, cfg_checksum := crc32_checksum, connection_rst_period := 100,
     connection_rst_attempts := 10\<rparr>"

definition losing_final_segment_in_message_triggers_nak ::
  "build \<Rightarrow> abi \<Rightarrow> arq_cfg_t \<Rightarrow> nat \<times> arq_t \<Rightarrow> nat \<times> arq_t \<Rightarrow> byte list \<Rightarrow> byte list \<Rightarrow> byte list \<Rightarrow> unit option" where
  "losing_final_segment_in_message_triggers_nak b abi cfg0 seat1 seat2 frame nak rtx = do {
     let cfg = nak_cfg cfg0;
     sender \<leftarrow> ArqContext b abi seat1 cfg;
     receiver \<leftarrow> ArqContext b abi seat2 cfg;
     let send_test_data = test_data b (segment_length_in_bytes cfg * message_length_in_segments cfg);
     \<comment> \<open>send a full message\<close>
     (e, sent, arq) \<leftarrow> arq_send (Some sender) (Some send_test_data) (length send_test_data) True;
     CHECK (e = ARQ_OK_COMPLETED);
     CHECK (sent = Some (length send_test_data));
     sender \<leftarrow> arq;
     (out, sender) \<leftarrow> test_poll b sender 0;
     CHECK (po_send_ready out);
     \<comment> \<open>drain the first segment from the sender\<close>
     (frame_len, frame, sender) \<leftarrow> test_drain sender frame;
     (out, sender) \<leftarrow> test_poll b sender 0;
     CHECK (po_send_ready out);
     \<comment> \<open>lose the second segment from the sender\<close>
     (frame_len, sender) \<leftarrow> test_discard sender;
     (out, sender) \<leftarrow> test_poll b sender 0;
     CHECK (\<not> po_send_ready out);
     \<comment> \<open>receive the first segment, 'wait' until inter-segment timeout expires, drain the NAK frame\<close>
     receiver \<leftarrow> test_fill receiver frame frame_len;
     (out, receiver) \<leftarrow> test_poll b receiver 0;
     CHECK (\<not> po_recv_ready out \<and> \<not> po_send_ready out);
     CHECK (po_next_poll out = inter_segment_timeout cfg);
     (out, receiver) \<leftarrow> test_poll b receiver (po_next_poll out);
     CHECK (\<not> po_recv_ready out \<and> po_send_ready out);
     (frame_len, frame, receiver) \<leftarrow> test_drain receiver frame;
     (out, receiver) \<leftarrow> test_poll b receiver 0;
     CHECK (\<not> po_send_ready out \<and> \<not> po_recv_ready out);
     \<comment> \<open>confirm the NAK frame contents\<close>
     (h, seg, nak) \<leftarrow> test_read b nak frame frame_len (cfg_checksum cfg);
     CHECK (\<not> h_seg h);
     CHECK (h_seg_len h = 0);
     CHECK (h_msg_len h = 0);
     CHECK (h_ack h);
     CHECK (h_ack_num h = 0);
     CHECK (h_cur_ack_vec h = 1);
     \<comment> \<open>push the NAK frame into the sender\<close>
     sender \<leftarrow> test_fill sender frame frame_len;
     (out, sender) \<leftarrow> test_poll b sender 0;
     CHECK (\<not> po_recv_ready out \<and> po_send_ready out);
     \<comment> \<open>drain the retransmission from the sender\<close>
     (frame_len, frame, sender) \<leftarrow> test_drain sender frame;
     (out, sender) \<leftarrow> test_poll b sender 0;
     CHECK (\<not> po_send_ready out);
     \<comment> \<open>confirm the retransmission\<close>
     (h, seg, rtx) \<leftarrow> test_read b rtx frame frame_len (cfg_checksum cfg);
     CHECK (h_seg h);
     CHECK (h_seq_num h = 0);
     CHECK (h_seg_id h = 1);
     CHECK (h_msg_len h = 2);
     CHECK (\<not> h_ack h);
     \<comment> \<open>load into receiver, receive into test vector\<close>
     receiver \<leftarrow> test_fill receiver frame frame_len;
     (out, receiver) \<leftarrow> test_poll b receiver 0;
     CHECK (po_recv_ready out \<and> po_send_ready out);
     (e, recvd, arq) \<leftarrow> arq_recv (Some receiver) True (length send_test_data) True;
     CHECK (ARQ_SUCCEEDED e);
     recv_test_data \<leftarrow> recvd;
     CHECK (length send_test_data = length recv_test_data);
     CHECK (send_test_data = recv_test_data)
   }"

definition losing_non_final_segment_triggers_nak ::
  "build \<Rightarrow> abi \<Rightarrow> arq_cfg_t \<Rightarrow> nat \<times> arq_t \<Rightarrow> nat \<times> arq_t \<Rightarrow> byte list \<Rightarrow> byte list \<Rightarrow> byte list \<Rightarrow> unit option" where
  "losing_non_final_segment_triggers_nak b abi cfg0 seat1 seat2 frame nak rtx = do {
     let cfg = nak_cfg cfg0;
     sender \<leftarrow> ArqContext b abi seat1 cfg;
     receiver \<leftarrow> ArqContext b abi seat2 cfg;
     let send_test_data = test_data b (segment_length_in_bytes cfg * message_length_in_segments cfg);
     \<comment> \<open>send a full message\<close>
     (e, sent, arq) \<leftarrow> arq_send (Some sender) (Some send_test_data) (length send_test_data) True;
     CHECK (e = ARQ_OK_COMPLETED);
     CHECK (sent = Some (length send_test_data));
     sender \<leftarrow> arq;
     (out, sender) \<leftarrow> test_poll b sender 0;
     CHECK (po_send_ready out);
     \<comment> \<open>lose the first segment from the sender\<close>
     (frame_len, sender) \<leftarrow> test_discard sender;
     (out, sender) \<leftarrow> test_poll b sender 0;
     CHECK (po_send_ready out);
     \<comment> \<open>drain the second segment from the sender\<close>
     (frame_len, frame, sender) \<leftarrow> test_drain sender frame;
     (out, sender) \<leftarrow> test_poll b sender 0;
     CHECK (\<not> po_send_ready out);
     \<comment> \<open>receive the second segment, drain the NAK frame\<close>
     receiver \<leftarrow> test_fill receiver frame frame_len;
     (out, receiver) \<leftarrow> test_poll b receiver 0;
     CHECK (\<not> po_recv_ready out \<and> po_send_ready out);
     (frame_len, frame, receiver) \<leftarrow> test_drain receiver frame;
     (out, receiver) \<leftarrow> test_poll b receiver 0;
     CHECK (\<not> po_send_ready out \<and> \<not> po_recv_ready out);
     \<comment> \<open>confirm the NAK frame contents\<close>
     (h, seg, nak) \<leftarrow> test_read b nak frame frame_len (cfg_checksum cfg);
     CHECK (\<not> h_seg h);
     CHECK (h_seg_len h = 0);
     CHECK (h_msg_len h = 0);
     CHECK (h_ack h);
     CHECK (h_ack_num h = 0);
     CHECK (h_cur_ack_vec h = 2);
     \<comment> \<open>push the NAK frame into the sender\<close>
     sender \<leftarrow> test_fill sender frame frame_len;
     (out, sender) \<leftarrow> test_poll b sender 0;
     CHECK (\<not> po_recv_ready out \<and> po_send_ready out);
     \<comment> \<open>drain the retransmission from the sender\<close>
     (frame_len, frame, sender) \<leftarrow> test_drain sender frame;
     (out, sender) \<leftarrow> test_poll b sender 0;
     CHECK (\<not> po_send_ready out);
     \<comment> \<open>confirm the retransmission\<close>
     (h, seg, rtx) \<leftarrow> test_read b rtx frame frame_len (cfg_checksum cfg);
     CHECK (h_seg h);
     CHECK (h_seq_num h = 0);
     CHECK (h_seg_id h = 0);
     CHECK (h_msg_len h = 2);
     CHECK (\<not> h_ack h);
     \<comment> \<open>load into receiver, receive into test vector\<close>
     receiver \<leftarrow> test_fill receiver frame frame_len;
     (out, receiver) \<leftarrow> test_poll b receiver 0;
     CHECK (po_recv_ready out \<and> \<not> po_send_ready out);
     (e, recvd, arq) \<leftarrow> arq_recv (Some receiver) True (length send_test_data) True;
     CHECK (ARQ_SUCCEEDED e);
     recv_test_data \<leftarrow> recvd;
     CHECK (length send_test_data = length recv_test_data);
     CHECK (send_test_data = recv_test_data)
   }"

section \<open>Objects with a message of two segments\<close>

abbreviation "sender2 c u data vec rtx sg v sfb sfs sfl rb rf np \<equiv> party c u (one_sender 2 data 256 vec 1 rtx) (send_ptr sg v)
  (sframe sfb sfs sfl) (one_receiver 2 rb 0 0 0 False ARQ_TIME_INFINITY False 0) rf np"
abbreviation "receiver2 c u data len vec sz tmr on sfb sfs sfl sb rf np \<equiv> party c u (one_sender 2 sb 0 0 0 0) (send_ptr 0 False)
  (sframe sfb sfs sfl) (one_receiver 2 data len vec sz False tmr on 0) rf np"

lemma two_bits [simp]: "arq__ctz (not32 2) = Some 0" "shr_unsigned 0 k = (if k < 32 then Some 0 else None)"
  "shr_unsigned 1 1 = Some 0" "shr_unsigned 1 2 = Some 0" "shr_unsigned 2 1 = Some 1" "shr_unsigned 2 2 = Some 0"
  by (simp_all add: shr_unsigned_def) code_simp+

section \<open>Steps of the sender\<close>

lemma sender2_send:
  assumes "length sb = 256" "length data = 256"
  shows "arq_send (Some (party c u (one_sender 2 sb 0 0 0 0) (send_ptr 0 False) sf rw rf False)) (Some data) 256 True =
    Some (ARQ_OK_COMPLETED, Some 256, Some (party c u (one_sender 2 data 256 0 1 0) (send_ptr 0 False) sf rw rf False))"
  using assms by (simp add: arq_send_def arq__send_wnd_send_def exec_ops exec_state party_def cong: bind_weak)

lemma sender2_emits_first:
  assumes "use_connections b" "length data = 256" "length sfb = 146"
  shows "\<exists>out np'. backend_poll b (sender2 c u data 0 0 0 False sfb ARQ__SEND_FRAME_STATE_FREE 0 rb (empty_rframe rfb) np) 0 =
      Some (\<lparr>po_event = ARQ_EVENT_NONE, po_send_ready = True, po_recv_ready = False, po_next_poll = np'\<rparr>,
        sender2 c u data 0 0 0 True out ARQ__SEND_FRAME_STATE_FREE 146 rb (empty_rframe rfb) False) \<and>
    length out = 146 \<and> carries (cfg_checksum c) (seg_hdr 2 0) (take 128 data) out 146"
proof -
  obtain out where "arq__frame_write b (seg_hdr 2 0) (Some data) (cfg_checksum c) sfb 146 = Some (146, out)"
    "length out = 146" "carries (cfg_checksum c) (seg_hdr 2 0) (take 128 data) out 146"
    using emit_segment [of sfb 2 0 data b "cfg_checksum c"] assms by auto
  then show ?thesis
    using assms by (intro exI [of _ out] exI conjI) (simp add: exec closed_poll cong: bind_weak; fail)+
qed

lemma sender2_emits_second:
  assumes "use_connections b" "length data = 256" "length sfb = 146"
  shows "\<exists>out np'. backend_poll b (sender2 c u data 0 0 0 True sfb ARQ__SEND_FRAME_STATE_RELEASED 0 rb (empty_rframe rfb) np) 0 =
      Some (\<lparr>po_event = ARQ_EVENT_NONE, po_send_ready = True, po_recv_ready = False, po_next_poll = np'\<rparr>,
        sender2 c u data 0 0 1 True out ARQ__SEND_FRAME_STATE_FREE 146 rb (empty_rframe rfb) False) \<and>
    length out = 146 \<and> carries (cfg_checksum c) (seg_hdr 2 1) (drop 128 data) out 146"
proof -
  obtain out where "arq__frame_write b (seg_hdr 2 1) (Some (drop 128 data)) (cfg_checksum c) sfb 146 = Some (146, out)"
    "length out = 146" "carries (cfg_checksum c) (seg_hdr 2 1) (drop 128 data) out 146"
    using emit_segment [of sfb 2 1 "drop 128 data" b "cfg_checksum c"] assms by auto
  then show ?thesis
    using assms by (intro exI [of _ out] exI conjI) (simp add: exec closed_poll cong: bind_weak; fail)+
qed

text \<open>The last segment that is due was sent: the retransmission timer starts.\<close>

lemma sender2_completes:
  assumes "use_connections b" "length data = 256" "retransmission_timeout c = 100"
  shows "\<exists>np'. backend_poll b (sender2 c u data 0 0 1 True sfb ARQ__SEND_FRAME_STATE_RELEASED 0 rb (empty_rframe rfb) np) 0 =
      Some (\<lparr>po_event = ARQ_EVENT_NONE, po_send_ready = False, po_recv_ready = False, po_next_poll = np'\<rparr>,
        sender2 c u data 0 100 2 False sfb ARQ__SEND_FRAME_STATE_RELEASED 0 rb (empty_rframe rfb) False)"
    "\<exists>np'. backend_poll b (sender2 c u data 1 0 1 True sfb ARQ__SEND_FRAME_STATE_RELEASED 0 rb (empty_rframe rfb) np) 0 =
      Some (\<lparr>po_event = ARQ_EVENT_NONE, po_send_ready = False, po_recv_ready = False, po_next_poll = np'\<rparr>,
        sender2 c u data 1 100 2 False sfb ARQ__SEND_FRAME_STATE_RELEASED 0 rb (empty_rframe rfb) False)"
    "\<exists>np'. backend_poll b (sender2 c u data 2 0 0 True sfb ARQ__SEND_FRAME_STATE_RELEASED 0 rb (empty_rframe rfb) np) 0 =
      Some (\<lparr>po_event = ARQ_EVENT_NONE, po_send_ready = False, po_recv_ready = False, po_next_poll = np'\<rparr>,
        sender2 c u data 2 100 2 False sfb ARQ__SEND_FRAME_STATE_RELEASED 0 rb (empty_rframe rfb) False)"
  using assms by (intro exI; simp add: exec closed_poll cong: bind_weak)+

text \<open>A negative acknowledgement makes the segment that is missing due at once.\<close>

lemma sender2_nak:
  assumes "use_connections b" "length data = 256" "length sfb = 146" "length rfb = 146"
    and f: "carries (cfg_checksum c) (ack_hdr v) [] rfb 18" and v: "v = 1 \<and> s = 1 \<and> d = drop 128 data \<or> v = 2 \<and> s = 0 \<and> d = data"
  shows "\<exists>out np' rfb'. backend_poll b (sender2 c u data 0 100 2 False sfb ARQ__SEND_FRAME_STATE_RELEASED 0 rb
        (rframe rfb ARQ__RECV_FRAME_STATE_FULL_FRAME_PRESENT 18) np) 0 =
      Some (\<lparr>po_event = ARQ_EVENT_CONN_FAILED_DESYNC, po_send_ready = True, po_recv_ready = False, po_next_poll = np'\<rparr>,
        sender2 c u data v 0 s True out ARQ__SEND_FRAME_STATE_FREE 146 rb (empty_rframe rfb') False) \<and>
    length out = 146 \<and> length rfb' = 146 \<and> carries (cfg_checksum c) (seg_hdr 2 s) (take 128 d) out 146"
proof -
  obtain out where "arq__frame_write b (seg_hdr 2 s) (Some d) (cfg_checksum c) sfb 146 = Some (146, out)"
    "length out = 146" "carries (cfg_checksum c) (seg_hdr 2 s) (take 128 d) out 146"
    using emit_segment [of sfb 2 s d b "cfg_checksum c"] assms by auto
  moreover obtain rfb' where "arq__frame_read b rfb 18 (cfg_checksum c) = Some (ARQ__FRAME_READ_RESULT_SUCCESS, ack_hdr v, 13, rfb')"
    "length rfb' = 146"
    using carried_frame_read [OF f assms(4), of b] by blast
  ultimately show ?thesis
    using assms(1-4) v by (intro exI [of _ out] exI [of _ rfb'] exI conjI; elim disjE) (simp add: exec closed_poll cong: bind_weak; fail)+
qed

section \<open>Steps of the receiver\<close>

text \<open>A segment that does not end its message starts the inter-segment timer.\<close>

lemma receiver2_stores_first:
  assumes "use_connections b" "length rb = 256" "inter_segment_timeout c = 50" "length rfb = 146"
    and f: "carries (cfg_checksum c) (seg_hdr 2 0) d rfb 146"
  shows "\<exists>rfb'. backend_poll b (receiver2 c u rb 0 0 0 ARQ_TIME_INFINITY False sfb ARQ__SEND_FRAME_STATE_FREE 0 sb
        (rframe rfb ARQ__RECV_FRAME_STATE_FULL_FRAME_PRESENT 146) np) 0 =
      Some (\<lparr>po_event = ARQ_EVENT_CONN_FAILED_DESYNC, po_send_ready = False, po_recv_ready = False, po_next_poll = 50\<rparr>,
        receiver2 c u (d @ drop 128 rb) 128 1 1 50 True sfb ARQ__SEND_FRAME_STATE_FREE 0 sb (empty_rframe rfb') False) \<and>
    length rfb' = 146"
proof -
  obtain rfb' where "arq__frame_read b rfb 146 (cfg_checksum c) = Some (ARQ__FRAME_READ_RESULT_SUCCESS, seg_hdr 2 0, 13, rfb')"
    "length rfb' = 146" "take 128 (drop 13 rfb') = d" "length d = 128"
    using carried_frame_read [OF f assms(4), of b] by (auto simp: seg_hdr_def)
  then show ?thesis
    using assms(1-3) by (intro exI [of _ rfb'] exI conjI) (simp add: exec closed_poll cong: bind_weak; fail)+
qed

lemma receiver2_fills_gap:
  assumes "use_connections b" "length rb = 256" "inter_segment_timeout c = 50" "length rfb = 146"
    and f: "carries (cfg_checksum c) (seg_hdr 2 0) d rfb 146"
  shows "\<exists>np' rfb'. backend_poll b (receiver2 c u rb 128 2 1 ARQ_TIME_INFINITY False sfb ARQ__SEND_FRAME_STATE_RELEASED 0 sb
        (rframe rfb ARQ__RECV_FRAME_STATE_FULL_FRAME_PRESENT 146) np) 0 =
      Some (\<lparr>po_event = ARQ_EVENT_CONN_FAILED_DESYNC, po_send_ready = False, po_recv_ready = True, po_next_poll = np'\<rparr>,
        receiver2 c u (d @ drop 128 rb) 256 3 1 50 True sfb ARQ__SEND_FRAME_STATE_RELEASED 0 sb (empty_rframe rfb') False) \<and>
    length rfb' = 146"
proof -
  obtain rfb' where "arq__frame_read b rfb 146 (cfg_checksum c) = Some (ARQ__FRAME_READ_RESULT_SUCCESS, seg_hdr 2 0, 13, rfb')"
    "length rfb' = 146" "take 128 (drop 13 rfb') = d" "length d = 128"
    using carried_frame_read [OF f assms(4), of b] by (auto simp: seg_hdr_def)
  then show ?thesis
    using assms(1-3) by (intro exI [of _ rfb'] exI conjI) (simp add: exec closed_poll cong: bind_weak; fail)+
qed

text \<open>The last segment of a message is acknowledged with what has arrived.\<close>

lemma receiver2_stores_last:
  assumes "use_connections b" "length rb = 256" "length sfb = 146" "length rfb = 146"
    and f: "carries (cfg_checksum c) (seg_hdr 2 1) d rfb 146"
  shows "\<exists>out np' rfb'. backend_poll b (receiver2 c u rb 0 0 0 ARQ_TIME_INFINITY False sfb ARQ__SEND_FRAME_STATE_FREE 0 sb
        (rframe rfb ARQ__RECV_FRAME_STATE_FULL_FRAME_PRESENT 146) np) 0 =
      Some (\<lparr>po_event = ARQ_EVENT_CONN_FAILED_DESYNC, po_send_ready = True, po_recv_ready = False, po_next_poll = np'\<rparr>,
        receiver2 c u (take 128 rb @ d) 128 2 1 ARQ_TIME_INFINITY False out ARQ__SEND_FRAME_STATE_FREE 18 sb (empty_rframe rfb') False) \<and>
    length rfb' = 146 \<and> length out = 146 \<and> carries (cfg_checksum c) (ack_hdr 2) [] out 18"
proof -
  obtain rfb' where "arq__frame_read b rfb 146 (cfg_checksum c) = Some (ARQ__FRAME_READ_RESULT_SUCCESS, seg_hdr 2 1, 13, rfb')"
    "length rfb' = 146" "take 128 (drop 13 rfb') = d" "length d = 128"
    using carried_frame_read [OF f assms(4), of b] by (auto simp: seg_hdr_def)
  moreover obtain out where "arq__frame_write b (ack_hdr 2) None (cfg_checksum c) sfb 146 = Some (18, out)"
    "length out = 146" "carries (cfg_checksum c) (ack_hdr 2) [] out 18"
    using emit_ack [of sfb 2 b "cfg_checksum c"] assms(3) by auto
  ultimately show ?thesis
    using assms(1-3) by (intro exI [of _ out] exI [of _ rfb'] exI conjI) (simp add: exec closed_poll cong: bind_weak; fail)+
qed

lemma receiver2_ends_message:
  assumes "use_connections b" "length rb = 256" "length sfb = 146" "length rfb = 146"
    and f: "carries (cfg_checksum c) (seg_hdr 2 1) d rfb 146"
  shows "\<exists>out np' rfb'. backend_poll b (receiver2 c u rb 128 1 1 0 False sfb ARQ__SEND_FRAME_STATE_RELEASED 0 sb
        (rframe rfb ARQ__RECV_FRAME_STATE_FULL_FRAME_PRESENT 146) np) 0 =
      Some (\<lparr>po_event = ARQ_EVENT_CONN_FAILED_DESYNC, po_send_ready = True, po_recv_ready = True, po_next_poll = np'\<rparr>,
        receiver2 c u (take 128 rb @ d) 256 3 1 0 False out ARQ__SEND_FRAME_STATE_FREE 18 sb (empty_rframe rfb') False) \<and>
    length rfb' = 146 \<and> length out = 146 \<and> carries (cfg_checksum c) (ack_hdr 3) [] out 18"
proof -
  obtain rfb' where "arq__frame_read b rfb 146 (cfg_checksum c) = Some (ARQ__FRAME_READ_RESULT_SUCCESS, seg_hdr 2 1, 13, rfb')"
    "length rfb' = 146" "take 128 (drop 13 rfb') = d" "length d = 128"
    using carried_frame_read [OF f assms(4), of b] by (auto simp: seg_hdr_def)
  moreover obtain out where "arq__frame_write b (ack_hdr 3) None (cfg_checksum c) sfb 146 = Some (18, out)"
    "length out = 146" "carries (cfg_checksum c) (ack_hdr 3) [] out 18"
    using emit_ack [of sfb 3 b "cfg_checksum c"] assms(3) by auto
  ultimately show ?thesis
    using assms(1-3) by (intro exI [of _ out] exI [of _ rfb'] exI conjI) (simp add: exec closed_poll cong: bind_weak; fail)+
qed

text \<open>The inter-segment timer expires, and the vector that is sent shows what is missing.\<close>

lemma receiver2_expires:
  assumes "use_connections b" "length sfb = 146"
  shows "\<exists>out np'. backend_poll b (receiver2 c u data 128 1 1 50 True sfb ARQ__SEND_FRAME_STATE_FREE 0 sb (empty_rframe rfb) np) 50 =
      Some (\<lparr>po_event = ARQ_EVENT_NONE, po_send_ready = True, po_recv_ready = False, po_next_poll = np'\<rparr>,
        receiver2 c u data 128 1 1 0 False out ARQ__SEND_FRAME_STATE_FREE 18 sb (empty_rframe rfb) False) \<and>
    length out = 146 \<and> carries (cfg_checksum c) (ack_hdr 1) [] out 18"
proof -
  obtain out where "arq__frame_write b (ack_hdr 1) None (cfg_checksum c) sfb 146 = Some (18, out)" "length out = 146"
    "carries (cfg_checksum c) (ack_hdr 1) [] out 18"
    using emit_ack [of sfb 1 b "cfg_checksum c"] assms(2) by auto
  with assms(1) show ?thesis
    by (intro exI [of _ out] exI conjI; simp add: exec closed_poll cong: bind_weak)
qed

lemma receiver2_quiet:
  assumes "use_connections b" "v = 1 \<or> v = 2" "tmr = 0 \<or> tmr = ARQ_TIME_INFINITY"
  shows "\<exists>np'. backend_poll b (receiver2 c u data 128 v 1 tmr False sfb ARQ__SEND_FRAME_STATE_RELEASED 0 sb (empty_rframe rfb) np) 0 =
      Some (\<lparr>po_event = ARQ_EVENT_NONE, po_send_ready = False, po_recv_ready = False, po_next_poll = np'\<rparr>,
        receiver2 c u data 128 v 1 tmr False sfb ARQ__SEND_FRAME_STATE_RELEASED 0 sb (empty_rframe rfb) False)"
  using assms by (intro exI; elim disjE; simp add: exec closed_poll cong: bind_weak)

lemma receiver2_recv:
  assumes "length data = 256"
  shows "\<exists>a. arq_recv (Some (receiver2 c u data 256 3 1 tmr on sfb sfs sfl sb (empty_rframe rfb) False)) True 256 True =
    Some (ARQ_OK_COMPLETED, Some data, Some a)"
  using assms by (intro exI) (simp add: arq_recv_def arq__recv_wnd_recv_def exec cong: bind_weak)

section \<open>The tests pass\<close>

lemma nak_cfg_sel [simp]:
  "segment_length_in_bytes (nak_cfg c) = 128" "message_length_in_segments (nak_cfg c) = 2"
  "send_window_size_in_messages (nak_cfg c) = 1" "recv_window_size_in_messages (nak_cfg c) = 1"
  "retransmission_timeout (nak_cfg c) = 100" "inter_segment_timeout (nak_cfg c) = 50"
  by (simp_all add: nak_cfg_def)

lemma nak_cfg_sound: "cfg_ranges c \<Longrightarrow> cfg_sound (nak_cfg c)"
  by (simp add: cfg_sound_def nak_cfg_def arq__check_cfg_def cfg_ranges_def geometry_ok_def)

text \<open>The sender takes a negative acknowledgement, and sends the segment it asks for.\<close>

lemma sender2_resends:
  assumes b: "use_connections b" and l: "length data = 256" "length sfb = 146" "length rfb = 146" "retransmission_timeout c = 100"
    and f: "carries (cfg_checksum c) (ack_hdr v) [] frame 18" "256 \<le> length frame"
    and v: "v = 1 \<and> s = 1 \<and> d = drop 128 data \<or> v = 2 \<and> s = 0 \<and> d = data"
  shows "\<exists>s1 o1 s2 f' s3 o2 s4. test_fill (sender2 c u data 0 100 2 False sfb ARQ__SEND_FRAME_STATE_RELEASED 0 rb (empty_rframe rfb) False) frame 18 = Some s1 \<and>
    backend_poll b s1 0 = Some (o1, s2) \<and> po_send_ready o1 \<and> \<not> po_recv_ready o1 \<and> test_drain s2 frame = Some (146, f', s3) \<and>
    backend_poll b s3 0 = Some (o2, s4) \<and> \<not> po_send_ready o2 \<and>
    carries (cfg_checksum c) (seg_hdr 2 s) (take 128 d) f' 146 \<and> 256 \<le> length f'"
proof -
  have le: "(18 :: nat) \<le> 146" by simp
  obtain rfb1 where 1: "test_fill (sender2 c u data 0 100 2 False sfb ARQ__SEND_FRAME_STATE_RELEASED 0 rb (empty_rframe rfb) False) frame 18 =
      Some (sender2 c u data 0 100 2 False sfb ARQ__SEND_FRAME_STATE_RELEASED 0 rb (rframe rfb1 ARQ__RECV_FRAME_STATE_FULL_FRAME_PRESENT 18) True)"
    "length rfb1 = 146" "carries (cfg_checksum c) (ack_hdr v) [] rfb1 18"
    using fill_party [OF f(1) le l(3)] by blast
  obtain out np rfb2 where 2: "backend_poll b (sender2 c u data 0 100 2 False sfb ARQ__SEND_FRAME_STATE_RELEASED 0 rb
        (rframe rfb1 ARQ__RECV_FRAME_STATE_FULL_FRAME_PRESENT 18) True) 0 =
      Some (\<lparr>po_event = ARQ_EVENT_CONN_FAILED_DESYNC, po_send_ready = True, po_recv_ready = False, po_next_poll = np\<rparr>,
        sender2 c u data v 0 s True out ARQ__SEND_FRAME_STATE_FREE 146 rb (empty_rframe rfb2) False)"
    "carries (cfg_checksum c) (seg_hdr 2 s) (take 128 d) out 146"
    using sender2_nak [OF b l(1,2) 1(2,3) v] by blast
  obtain f' where 3: "test_drain (sender2 c u data v 0 s True out ARQ__SEND_FRAME_STATE_FREE 146 rb (empty_rframe rfb2) False) frame =
      Some (146, f', sender2 c u data v 0 s True out ARQ__SEND_FRAME_STATE_RELEASED 0 rb (empty_rframe rfb2) True)"
    "carries (cfg_checksum c) (seg_hdr 2 s) (take 128 d) f' 146" "256 \<le> length f'"
    using drain_party [OF 2(2) f(2)] by blast
  obtain np' where "backend_poll b (sender2 c u data v 0 s True out ARQ__SEND_FRAME_STATE_RELEASED 0 rb (empty_rframe rfb2) True) 0 =
      Some (\<lparr>po_event = ARQ_EVENT_NONE, po_send_ready = False, po_recv_ready = False, po_next_poll = np'\<rparr>,
        sender2 c u data v 100 2 False out ARQ__SEND_FRAME_STATE_RELEASED 0 rb (empty_rframe rfb2) False)"
    using sender2_completes(2,3) [OF b l(1,4)] v by blast
  with 3(2,3) show ?thesis by (intro exI conjI) (rule 1(1), rule 2(1), simp, simp, rule 3(1), assumption, simp_all)
qed

text \<open>The sender sends both segments of its message, of which one is lost.\<close>

lemma sender2_sends:
  assumes b: "use_connections b" and l: "length data = 256" "length sfb = 146" "retransmission_timeout c = 100"
    and f: "256 \<le> length frame"
  shows "\<exists>o1 s1 o2 s2 o3 out. backend_poll b (sender2 c u data 0 0 0 False sfb ARQ__SEND_FRAME_STATE_FREE 0 rb (empty_rframe rfb) False) 0 = Some (o1, s1) \<and>
    po_send_ready o1 \<and> po_send_ready o2 \<and> \<not> po_send_ready o3 \<and> length out = 146 \<and>
    (\<exists>f' d1 d2. test_drain s1 frame = Some (146, f', d1) \<and> backend_poll b d1 0 = Some (o2, s2) \<and> test_discard s2 = Some (146, d2) \<and>
      backend_poll b d2 0 = Some (o3, sender2 c u data 0 100 2 False out ARQ__SEND_FRAME_STATE_RELEASED 0 rb (empty_rframe rfb) False) \<and>
      carries (cfg_checksum c) (seg_hdr 2 0) (take 128 data) f' 146 \<and> 256 \<le> length f') \<and>
    (\<exists>f' d1 d2. test_discard s1 = Some (146, d1) \<and> backend_poll b d1 0 = Some (o2, s2) \<and> test_drain s2 frame = Some (146, f', d2) \<and>
      backend_poll b d2 0 = Some (o3, sender2 c u data 0 100 2 False out ARQ__SEND_FRAME_STATE_RELEASED 0 rb (empty_rframe rfb) False) \<and>
      carries (cfg_checksum c) (seg_hdr 2 1) (drop 128 data) f' 146 \<and> 256 \<le> length f')"
proof -
  let ?s = "\<lambda>sg sfb sfs sfl. sender2 c u data 0 0 sg True sfb sfs sfl rb (empty_rframe rfb)"
  obtain o1 n1 where 1: "backend_poll b (sender2 c u data 0 0 0 False sfb ARQ__SEND_FRAME_STATE_FREE 0 rb (empty_rframe rfb) False) 0 =
      Some (\<lparr>po_event = ARQ_EVENT_NONE, po_send_ready = True, po_recv_ready = False, po_next_poll = n1\<rparr>,
        ?s 0 o1 ARQ__SEND_FRAME_STATE_FREE 146 False)"
    "length o1 = 146" "carries (cfg_checksum c) (seg_hdr 2 0) (take 128 data) o1 146"
    using sender2_emits_first [OF b l(1,2)] by blast
  obtain o2 n2 where 2: "backend_poll b (?s 0 o1 ARQ__SEND_FRAME_STATE_RELEASED 0 True) 0 =
      Some (\<lparr>po_event = ARQ_EVENT_NONE, po_send_ready = True, po_recv_ready = False, po_next_poll = n2\<rparr>,
        ?s 1 o2 ARQ__SEND_FRAME_STATE_FREE 146 False)" "length o2 = 146" "carries (cfg_checksum c) (seg_hdr 2 1) (drop 128 data) o2 146"
    using sender2_emits_second [OF b l(1) 1(2)] by blast
  obtain n3 where 3: "backend_poll b (?s 1 o2 ARQ__SEND_FRAME_STATE_RELEASED 0 True) 0 =
      Some (\<lparr>po_event = ARQ_EVENT_NONE, po_send_ready = False, po_recv_ready = False, po_next_poll = n3\<rparr>,
        sender2 c u data 0 100 2 False o2 ARQ__SEND_FRAME_STATE_RELEASED 0 rb (empty_rframe rfb) False)"
    using sender2_completes(1) [OF b l(1,3)] by blast
  obtain f1 where 4: "test_drain (?s 0 o1 ARQ__SEND_FRAME_STATE_FREE 146 False) frame = Some (146, f1, ?s 0 o1 ARQ__SEND_FRAME_STATE_RELEASED 0 True)"
    "carries (cfg_checksum c) (seg_hdr 2 0) (take 128 data) f1 146" "256 \<le> length f1"
    using drain_party [OF 1(3) f] by blast
  obtain f2 where 5: "test_drain (?s 1 o2 ARQ__SEND_FRAME_STATE_FREE 146 False) frame = Some (146, f2, ?s 1 o2 ARQ__SEND_FRAME_STATE_RELEASED 0 True)"
    "carries (cfg_checksum c) (seg_hdr 2 1) (drop 128 data) f2 146" "256 \<le> length f2"
    using drain_party [OF 2(3) f] by blast
  have "(146 :: nat) \<noteq> 0" by simp
  note d = discard_party [OF this]
  have 6: "po_send_ready \<lparr>po_event = ARQ_EVENT_NONE, po_send_ready = True, po_recv_ready = False, po_next_poll = n1\<rparr>"
    "po_send_ready \<lparr>po_event = ARQ_EVENT_NONE, po_send_ready = True, po_recv_ready = False, po_next_poll = n2\<rparr>"
    "\<not> po_send_ready \<lparr>po_event = ARQ_EVENT_NONE, po_send_ready = False, po_recv_ready = False, po_next_poll = n3\<rparr>" by simp_all
  show ?thesis by (intro exI conjI) (rule 1(1) 6 2(2) 4 2(1) d 3 5)+
qed

text \<open>The receiver gets the first segment only, and asks for the last one when its timer expires.\<close>

lemma receiver2_asks_for_last:
  assumes b: "use_connections b" and l: "length rb = 256" "length sfb = 146" "length rfb = 146" "inter_segment_timeout c = 50"
    and f: "carries (cfg_checksum c) (seg_hdr 2 0) d frame 146" "256 \<le> length frame"
  shows "\<exists>r1 o1 r2 o2 r3 f' r4 o3 out rfb'.
    test_fill (receiver2 c u rb 0 0 0 ARQ_TIME_INFINITY False sfb ARQ__SEND_FRAME_STATE_FREE 0 sb (empty_rframe rfb) False) frame 146 = Some r1 \<and>
    backend_poll b r1 0 = Some (o1, r2) \<and> \<not> po_recv_ready o1 \<and> \<not> po_send_ready o1 \<and> po_next_poll o1 = 50 \<and>
    backend_poll b r2 50 = Some (o2, r3) \<and> \<not> po_recv_ready o2 \<and> po_send_ready o2 \<and>
    test_drain r3 frame = Some (18, f', r4) \<and>
    backend_poll b r4 0 = Some (o3, receiver2 c u (d @ drop 128 rb) 128 1 1 0 False out ARQ__SEND_FRAME_STATE_RELEASED 0 sb (empty_rframe rfb') False) \<and>
    \<not> po_send_ready o3 \<and> \<not> po_recv_ready o3 \<and> carries (cfg_checksum c) (ack_hdr 1) [] f' 18 \<and> 256 \<le> length f' \<and>
    length out = 146 \<and> length rfb' = 146"
proof -
  let ?r = "\<lambda>sfb sfs sfl q. receiver2 c u (d @ drop 128 rb) 128 1 1 0 False sfb sfs sfl sb (empty_rframe q)"
  obtain q1 where 1: "test_fill (receiver2 c u rb 0 0 0 ARQ_TIME_INFINITY False sfb ARQ__SEND_FRAME_STATE_FREE 0 sb (empty_rframe rfb) False) frame 146 =
      Some (receiver2 c u rb 0 0 0 ARQ_TIME_INFINITY False sfb ARQ__SEND_FRAME_STATE_FREE 0 sb
        (rframe q1 ARQ__RECV_FRAME_STATE_FULL_FRAME_PRESENT 146) True)"
    "length q1 = 146" "carries (cfg_checksum c) (seg_hdr 2 0) d q1 146"
    using fill_party [OF f(1) order_refl l(3)] by blast
  obtain q2 where 2: "backend_poll b (receiver2 c u rb 0 0 0 ARQ_TIME_INFINITY False sfb ARQ__SEND_FRAME_STATE_FREE 0 sb
        (rframe q1 ARQ__RECV_FRAME_STATE_FULL_FRAME_PRESENT 146) True) 0 =
      Some (\<lparr>po_event = ARQ_EVENT_CONN_FAILED_DESYNC, po_send_ready = False, po_recv_ready = False, po_next_poll = 50\<rparr>,
        receiver2 c u (d @ drop 128 rb) 128 1 1 50 True sfb ARQ__SEND_FRAME_STATE_FREE 0 sb (empty_rframe q2) False)" "length q2 = 146"
    using receiver2_stores_first [OF b l(1,4) 1(2,3)] by blast
  obtain o3 n3 where 3: "backend_poll b (receiver2 c u (d @ drop 128 rb) 128 1 1 50 True sfb ARQ__SEND_FRAME_STATE_FREE 0 sb (empty_rframe q2) False) 50 =
      Some (\<lparr>po_event = ARQ_EVENT_NONE, po_send_ready = True, po_recv_ready = False, po_next_poll = n3\<rparr>,
        ?r o3 ARQ__SEND_FRAME_STATE_FREE 18 q2 False)"
    "length o3 = 146" "carries (cfg_checksum c) (ack_hdr 1) [] o3 18"
    using receiver2_expires [OF b l(2)] by blast
  obtain f4 where 4: "test_drain (?r o3 ARQ__SEND_FRAME_STATE_FREE 18 q2 False) frame = Some (18, f4, ?r o3 ARQ__SEND_FRAME_STATE_RELEASED 0 q2 True)"
    "carries (cfg_checksum c) (ack_hdr 1) [] f4 18" "256 \<le> length f4"
    using drain_party [OF 3(3) f(2)] by blast
  obtain n5 where "backend_poll b (?r o3 ARQ__SEND_FRAME_STATE_RELEASED 0 q2 True) 0 =
      Some (\<lparr>po_event = ARQ_EVENT_NONE, po_send_ready = False, po_recv_ready = False, po_next_poll = n5\<rparr>,
        ?r o3 ARQ__SEND_FRAME_STATE_RELEASED 0 q2 False)"
    using receiver2_quiet [OF b, of 1 0] by blast
  with 2(2) 3(2) 4(2,3) show ?thesis
    by (intro exI conjI) (rule 1(1), rule 2(1), simp, simp, simp, rule 3(1), simp, simp, rule 4(1), assumption, simp_all)
qed

text \<open>The receiver gets the last segment only, and answers with what is missing.\<close>

lemma receiver2_asks_for_first:
  assumes b: "use_connections b" and l: "length rb = 256" "length sfb = 146" "length rfb = 146"
    and f: "carries (cfg_checksum c) (seg_hdr 2 1) d frame 146" "256 \<le> length frame"
  shows "\<exists>r1 o1 r2 f' r3 o2 out rfb'.
    test_fill (receiver2 c u rb 0 0 0 ARQ_TIME_INFINITY False sfb ARQ__SEND_FRAME_STATE_FREE 0 sb (empty_rframe rfb) False) frame 146 = Some r1 \<and>
    backend_poll b r1 0 = Some (o1, r2) \<and> \<not> po_recv_ready o1 \<and> po_send_ready o1 \<and>
    test_drain r2 frame = Some (18, f', r3) \<and>
    backend_poll b r3 0 = Some (o2, receiver2 c u (take 128 rb @ d) 128 2 1 ARQ_TIME_INFINITY False out ARQ__SEND_FRAME_STATE_RELEASED 0 sb
      (empty_rframe rfb') False) \<and>
    \<not> po_send_ready o2 \<and> \<not> po_recv_ready o2 \<and> carries (cfg_checksum c) (ack_hdr 2) [] f' 18 \<and> 256 \<le> length f' \<and> length rfb' = 146"
proof -
  let ?r = "\<lambda>sfb sfs sfl q. receiver2 c u (take 128 rb @ d) 128 2 1 ARQ_TIME_INFINITY False sfb sfs sfl sb (empty_rframe q)"
  obtain q1 where 1: "test_fill (receiver2 c u rb 0 0 0 ARQ_TIME_INFINITY False sfb ARQ__SEND_FRAME_STATE_FREE 0 sb (empty_rframe rfb) False) frame 146 =
      Some (receiver2 c u rb 0 0 0 ARQ_TIME_INFINITY False sfb ARQ__SEND_FRAME_STATE_FREE 0 sb
        (rframe q1 ARQ__RECV_FRAME_STATE_FULL_FRAME_PRESENT 146) True)"
    "length q1 = 146" "carries (cfg_checksum c) (seg_hdr 2 1) d q1 146"
    using fill_party [OF f(1) order_refl l(3)] by blast
  obtain o2 n2 q2 where 2: "backend_poll b (receiver2 c u rb 0 0 0 ARQ_TIME_INFINITY False sfb ARQ__SEND_FRAME_STATE_FREE 0 sb
        (rframe q1 ARQ__RECV_FRAME_STATE_FULL_FRAME_PRESENT 146) True) 0 =
      Some (\<lparr>po_event = ARQ_EVENT_CONN_FAILED_DESYNC, po_send_ready = True, po_recv_ready = False, po_next_poll = n2\<rparr>,
        ?r o2 ARQ__SEND_FRAME_STATE_FREE 18 q2 False)"
    "length q2 = 146" "carries (cfg_checksum c) (ack_hdr 2) [] o2 18"
    using receiver2_stores_last [OF b l(1,2) 1(2,3)] by blast
  obtain f3 where 3: "test_drain (?r o2 ARQ__SEND_FRAME_STATE_FREE 18 q2 False) frame = Some (18, f3, ?r o2 ARQ__SEND_FRAME_STATE_RELEASED 0 q2 True)"
    "carries (cfg_checksum c) (ack_hdr 2) [] f3 18" "256 \<le> length f3"
    using drain_party [OF 2(3) f(2)] by blast
  obtain n4 where "backend_poll b (?r o2 ARQ__SEND_FRAME_STATE_RELEASED 0 q2 True) 0 =
      Some (\<lparr>po_event = ARQ_EVENT_NONE, po_send_ready = False, po_recv_ready = False, po_next_poll = n4\<rparr>,
        ?r o2 ARQ__SEND_FRAME_STATE_RELEASED 0 q2 False)"
    using receiver2_quiet [OF b, of 2 ARQ_TIME_INFINITY] by blast
  with 2(2) 3(2,3) show ?thesis
    by (intro exI conjI) (rule 1(1), rule 2(1), simp, simp, rule 3(1), assumption, simp_all)
qed

lemma losing_final_passes:
  assumes b: "use_connections b" and cfg: "cfg_ranges cfg0" "abi_ok abi" "required_bytes abi (nak_cfg cfg0) < 2 ^ 32"
    and mem: "arrays_fit (nak_cfg cfg0) (snd seat1)" "0 < fst seat1" "arrays_fit (nak_cfg cfg0) (snd seat2)" "0 < fst seat2"
      "256 \<le> length frame" "256 \<le> length nak" "256 \<le> length rtx"
  shows "losing_final_segment_in_message_triggers_nak b abi cfg0 seat1 seat2 frame nak rtx = Some ()"
proof -
  let ?c = "nak_cfg cfg0" let ?d = "test_data b 256"
  note fresh = ArqContext_one [OF nak_cfg_sound [OF cfg(1)] nak_cfg_sel(3,4,2,1) cfg(2,3) _ _ b]
  obtain u1 sb1 sfb1 rb1 rfb1 where s: "ArqContext b abi seat1 ?c = Some (party ?c u1 (one_sender 2 sb1 0 0 0 0) (send_ptr 0 False)
      (sframe sfb1 ARQ__SEND_FRAME_STATE_FREE 0) (one_receiver 2 rb1 0 0 0 False ARQ_TIME_INFINITY False 0) (empty_rframe rfb1) False)"
    "length sb1 = 256" "length sfb1 = 146" "length rfb1 = 146"
    using fresh [OF mem(1,2)] by auto
  obtain u2 sb2 sfb2 rb2 rfb2 where r: "ArqContext b abi seat2 ?c = Some (party ?c u2 (one_sender 2 sb2 0 0 0 0) (send_ptr 0 False)
      (sframe sfb2 ARQ__SEND_FRAME_STATE_FREE 0) (one_receiver 2 rb2 0 0 0 False ARQ_TIME_INFINITY False 0) (empty_rframe rfb2) False)"
    "length rb2 = 256" "length sfb2 = 146" "length rfb2 = 146"
    using fresh [OF mem(3,4)] by auto
  obtain o1 s1 o2 s2 o3 sfb3 f1 d1 d2 where 1:
    "backend_poll b (sender2 ?c u1 ?d 0 0 0 False sfb1 ARQ__SEND_FRAME_STATE_FREE 0 rb1 (empty_rframe rfb1) False) 0 = Some (o1, s1)"
    "po_send_ready o1" "po_send_ready o2" "\<not> po_send_ready o3" "test_drain s1 frame = Some (146, f1, d1)"
    "backend_poll b d1 0 = Some (o2, s2)" "test_discard s2 = Some (146, d2)"
    "backend_poll b d2 0 = Some (o3, sender2 ?c u1 ?d 0 100 2 False sfb3 ARQ__SEND_FRAME_STATE_RELEASED 0 rb1 (empty_rframe rfb1) False)"
    "length sfb3 = 146" "carries (cfg_checksum ?c) (seg_hdr 2 0) (take 128 ?d) f1 146" "256 \<le> length f1"
    using sender2_sends [where data = ?d and c = ?c and u = u1 and rb = rb1 and rfb = rfb1, OF b length_test_data s(3) nak_cfg_sel(5) mem(5)]
    by (elim exE conjE) (rule that; assumption)
  obtain r1 o4 r2 o5 r3 f2 r4 o6 sfb4 rfb4 where 2:
    "test_fill (receiver2 ?c u2 rb2 0 0 0 ARQ_TIME_INFINITY False sfb2 ARQ__SEND_FRAME_STATE_FREE 0 sb2 (empty_rframe rfb2) False) f1 146 = Some r1"
    "backend_poll b r1 0 = Some (o4, r2)" "\<not> po_recv_ready o4" "\<not> po_send_ready o4" "po_next_poll o4 = 50"
    "backend_poll b r2 50 = Some (o5, r3)" "\<not> po_recv_ready o5" "po_send_ready o5" "test_drain r3 f1 = Some (18, f2, r4)"
    "backend_poll b r4 0 = Some (o6, receiver2 ?c u2 (take 128 ?d @ drop 128 rb2) 128 1 1 0 False sfb4 ARQ__SEND_FRAME_STATE_RELEASED 0 sb2
      (empty_rframe rfb4) False)" "\<not> po_send_ready o6" "\<not> po_recv_ready o6"
    "carries (cfg_checksum ?c) (ack_hdr 1) [] f2 18" "256 \<le> length f2" "length sfb4 = 146" "length rfb4 = 146"
    using receiver2_asks_for_last [where u = u2 and sb = sb2, OF b r(2-4) nak_cfg_sel(6) 1(10,11)] by (elim exE conjE) (rule that; assumption)
  obtain tmp where 3: "test_read b nak f2 18 (cfg_checksum ?c) = Some (ack_hdr 1, 13, tmp)"
    using test_read_ok [OF 2(13) mem(6)] by blast
  obtain s3 o7 s4 f3 s5 o8 s6 where 4:
    "test_fill (sender2 ?c u1 ?d 0 100 2 False sfb3 ARQ__SEND_FRAME_STATE_RELEASED 0 rb1 (empty_rframe rfb1) False) f2 18 = Some s3"
    "backend_poll b s3 0 = Some (o7, s4)" "po_send_ready o7" "\<not> po_recv_ready o7" "test_drain s4 f2 = Some (146, f3, s5)"
    "backend_poll b s5 0 = Some (o8, s6)" "\<not> po_send_ready o8" "carries (cfg_checksum ?c) (seg_hdr 2 1) (take 128 (drop 128 ?d)) f3 146"
    using sender2_resends [where u = u1 and rb = rb1 and data = ?d, OF b length_test_data 1(9) s(4) nak_cfg_sel(5) 2(13,14) disjI1 [OF conjI [OF refl conjI [OF refl refl]]]]
    by (elim exE conjE) (rule that; assumption)
  obtain tmp' where 5: "test_read b rtx f3 146 (cfg_checksum ?c) = Some (seg_hdr 2 1, 13, tmp')"
    using test_read_ok [OF 4(8) mem(7)] by blast
  let ?b1 = "take 128 ?d @ drop 128 rb2"
  obtain q where 6: "test_fill (receiver2 ?c u2 ?b1 128 1 1 0 False sfb4 ARQ__SEND_FRAME_STATE_RELEASED 0 sb2 (empty_rframe rfb4) False) f3 146 =
      Some (receiver2 ?c u2 ?b1 128 1 1 0 False sfb4 ARQ__SEND_FRAME_STATE_RELEASED 0 sb2 (rframe q ARQ__RECV_FRAME_STATE_FULL_FRAME_PRESENT 146) True)"
    "length q = 146" "carries (cfg_checksum ?c) (seg_hdr 2 1) (take 128 (drop 128 ?d)) q 146"
    using fill_party [OF 4(8) order_refl 2(16)] by blast
  have "length ?b1 = 256" "take 128 ?b1 @ take 128 (drop 128 ?d) = ?d" using r(2) by (simp_all add: append_take_drop_id)
  then obtain o9 n9 rfb9 where 7: "backend_poll b (receiver2 ?c u2 ?b1 128 1 1 0 False sfb4 ARQ__SEND_FRAME_STATE_RELEASED 0 sb2
        (rframe q ARQ__RECV_FRAME_STATE_FULL_FRAME_PRESENT 146) True) 0 =
      Some (\<lparr>po_event = ARQ_EVENT_CONN_FAILED_DESYNC, po_send_ready = True, po_recv_ready = True, po_next_poll = n9\<rparr>,
        receiver2 ?c u2 ?d 256 3 1 0 False o9 ARQ__SEND_FRAME_STATE_FREE 18 sb2 (empty_rframe rfb9) False)"
    using receiver2_ends_message [OF b _ 2(15) 6(2,3), of ?b1] by metis
  obtain a where 8: "arq_recv (Some (receiver2 ?c u2 ?d 256 3 1 0 False o9 ARQ__SEND_FRAME_STATE_FREE 18 sb2 (empty_rframe rfb9) False)) True 256 True =
    Some (ARQ_OK_COMPLETED, Some ?d, Some a)"
    using receiver2_recv [OF length_test_data] by blast
  show ?thesis
    unfolding losing_final_segment_in_message_triggers_nak_def
    by (simp del: One_nat_def add: test_poll_eq Let_def s(1) r(1) 1(1-8) 2(1-12) 3 4(1-7) 5 6(1) 7 8
      sender2_send [OF s(2) length_test_data] ARQ_SUCCEEDED_iff cong: bind_weak)
qed

lemma losing_non_final_passes:
  assumes b: "use_connections b" and cfg: "cfg_ranges cfg0" "abi_ok abi" "required_bytes abi (nak_cfg cfg0) < 2 ^ 32"
    and mem: "arrays_fit (nak_cfg cfg0) (snd seat1)" "0 < fst seat1" "arrays_fit (nak_cfg cfg0) (snd seat2)" "0 < fst seat2"
      "256 \<le> length frame" "256 \<le> length nak" "256 \<le> length rtx"
  shows "losing_non_final_segment_triggers_nak b abi cfg0 seat1 seat2 frame nak rtx = Some ()"
proof -
  let ?c = "nak_cfg cfg0" let ?d = "test_data b 256"
  note fresh = ArqContext_one [OF nak_cfg_sound [OF cfg(1)] nak_cfg_sel(3,4,2,1) cfg(2,3) _ _ b]
  obtain u1 sb1 sfb1 rb1 rfb1 where s: "ArqContext b abi seat1 ?c = Some (party ?c u1 (one_sender 2 sb1 0 0 0 0) (send_ptr 0 False)
      (sframe sfb1 ARQ__SEND_FRAME_STATE_FREE 0) (one_receiver 2 rb1 0 0 0 False ARQ_TIME_INFINITY False 0) (empty_rframe rfb1) False)"
    "length sb1 = 256" "length sfb1 = 146" "length rfb1 = 146"
    using fresh [OF mem(1,2)] by auto
  obtain u2 sb2 sfb2 rb2 rfb2 where r: "ArqContext b abi seat2 ?c = Some (party ?c u2 (one_sender 2 sb2 0 0 0 0) (send_ptr 0 False)
      (sframe sfb2 ARQ__SEND_FRAME_STATE_FREE 0) (one_receiver 2 rb2 0 0 0 False ARQ_TIME_INFINITY False 0) (empty_rframe rfb2) False)"
    "length rb2 = 256" "length sfb2 = 146" "length rfb2 = 146"
    using fresh [OF mem(3,4)] by auto
  obtain o1 s1 o2 s2 o3 sfb3 f1 d1 d2 where 1:
    "backend_poll b (sender2 ?c u1 ?d 0 0 0 False sfb1 ARQ__SEND_FRAME_STATE_FREE 0 rb1 (empty_rframe rfb1) False) 0 = Some (o1, s1)"
    "po_send_ready o1" "po_send_ready o2" "\<not> po_send_ready o3" "test_discard s1 = Some (146, d1)"
    "backend_poll b d1 0 = Some (o2, s2)" "test_drain s2 frame = Some (146, f1, d2)"
    "backend_poll b d2 0 = Some (o3, sender2 ?c u1 ?d 0 100 2 False sfb3 ARQ__SEND_FRAME_STATE_RELEASED 0 rb1 (empty_rframe rfb1) False)"
    "length sfb3 = 146" "carries (cfg_checksum ?c) (seg_hdr 2 1) (drop 128 ?d) f1 146" "256 \<le> length f1"
    using sender2_sends [where data = ?d and c = ?c and u = u1 and rb = rb1 and rfb = rfb1, OF b length_test_data s(3) nak_cfg_sel(5) mem(5)]
    by (elim exE conjE) (rule that; assumption)
  obtain r1 o4 r2 f2 r4 o6 sfb4 rfb4 where 2:
    "test_fill (receiver2 ?c u2 rb2 0 0 0 ARQ_TIME_INFINITY False sfb2 ARQ__SEND_FRAME_STATE_FREE 0 sb2 (empty_rframe rfb2) False) f1 146 = Some r1"
    "backend_poll b r1 0 = Some (o4, r2)" "\<not> po_recv_ready o4" "po_send_ready o4" "test_drain r2 f1 = Some (18, f2, r4)"
    "backend_poll b r4 0 = Some (o6, receiver2 ?c u2 (take 128 rb2 @ drop 128 ?d) 128 2 1 ARQ_TIME_INFINITY False sfb4
      ARQ__SEND_FRAME_STATE_RELEASED 0 sb2 (empty_rframe rfb4) False)" "\<not> po_send_ready o6" "\<not> po_recv_ready o6"
    "carries (cfg_checksum ?c) (ack_hdr 2) [] f2 18" "256 \<le> length f2" "length rfb4 = 146"
    using receiver2_asks_for_first [where u = u2 and sb = sb2, OF b r(2-4) 1(10,11)] by (elim exE conjE) (rule that; assumption)
  obtain tmp where 3: "test_read b nak f2 18 (cfg_checksum ?c) = Some (ack_hdr 2, 13, tmp)"
    using test_read_ok [OF 2(9) mem(6)] by blast
  obtain s3 o7 s4 f3 s5 o8 s6 where 4:
    "test_fill (sender2 ?c u1 ?d 0 100 2 False sfb3 ARQ__SEND_FRAME_STATE_RELEASED 0 rb1 (empty_rframe rfb1) False) f2 18 = Some s3"
    "backend_poll b s3 0 = Some (o7, s4)" "po_send_ready o7" "\<not> po_recv_ready o7" "test_drain s4 f2 = Some (146, f3, s5)"
    "backend_poll b s5 0 = Some (o8, s6)" "\<not> po_send_ready o8" "carries (cfg_checksum ?c) (seg_hdr 2 0) (take 128 ?d) f3 146"
    using sender2_resends [where u = u1 and rb = rb1 and data = ?d, OF b length_test_data 1(9) s(4) nak_cfg_sel(5) 2(9,10) disjI2 [OF conjI [OF refl conjI [OF refl refl]]]]
    by (elim exE conjE) (rule that; assumption)
  obtain tmp' where 5: "test_read b rtx f3 146 (cfg_checksum ?c) = Some (seg_hdr 2 0, 13, tmp')"
    using test_read_ok [OF 4(8) mem(7)] by blast
  let ?r = "receiver2 ?c u2 (take 128 rb2 @ drop 128 ?d) 128 2 1 ARQ_TIME_INFINITY False sfb4 ARQ__SEND_FRAME_STATE_RELEASED 0 sb2"
  obtain q where 6: "test_fill (?r (empty_rframe rfb4) False) f3 146 = Some (?r (rframe q ARQ__RECV_FRAME_STATE_FULL_FRAME_PRESENT 146) True)"
    "length q = 146" "carries (cfg_checksum ?c) (seg_hdr 2 0) (take 128 ?d) q 146"
    using fill_party [OF 4(8) order_refl 2(11)] by blast
  have "length (take 128 rb2 @ drop 128 ?d) = 256" "take 128 ?d @ drop 128 (take 128 rb2 @ drop 128 ?d) = ?d"
    using r(2) by (simp_all add: append_take_drop_id)
  then obtain n9 rfb9 where 7: "backend_poll b (?r (rframe q ARQ__RECV_FRAME_STATE_FULL_FRAME_PRESENT 146) True) 0 =
      Some (\<lparr>po_event = ARQ_EVENT_CONN_FAILED_DESYNC, po_send_ready = False, po_recv_ready = True, po_next_poll = n9\<rparr>,
        receiver2 ?c u2 ?d 256 3 1 50 True sfb4 ARQ__SEND_FRAME_STATE_RELEASED 0 sb2 (empty_rframe rfb9) False)"
    using receiver2_fills_gap [OF b _ nak_cfg_sel(6) 6(2,3), of "take 128 rb2 @ drop 128 ?d"] by metis
  obtain a where 8: "arq_recv (Some (receiver2 ?c u2 ?d 256 3 1 50 True sfb4 ARQ__SEND_FRAME_STATE_RELEASED 0 sb2 (empty_rframe rfb9) False)) True 256 True =
    Some (ARQ_OK_COMPLETED, Some ?d, Some a)"
    using receiver2_recv [OF length_test_data] by blast
  show ?thesis
    unfolding losing_non_final_segment_triggers_nak_def
    by (simp del: One_nat_def add: test_poll_eq Let_def s(1) r(1) 1(1-8) 2(1-8) 3 4(1-7) 5 6(1) 7 8
      sender2_send [OF s(2) length_test_data] ARQ_SUCCEEDED_iff cong: bind_weak)
qed

end
