(* ===== verification/Arq_Ack_Tests.thy ===== *)
theory Arq_Ack_Tests imports Arq_Connect_Tests Arq_Nak_Tests begin

text \<open>
  The functional test \<open>ack_one_message\<close>: a message of four segments goes from a sender to a receiver, the
  acknowledgement goes back and empties the sender's window, and the receiver gives the message to its
  reader. With the tests of lost frames, it makes the tests of messages on the wire.
\<close>

section \<open>The test\<close>

text \<open>The loop that reads until nothing comes.\<close>

partial_function (option) recv_all :: "arq_t \<Rightarrow> nat \<Rightarrow> byte list \<Rightarrow> (byte list \<times> arq_t) option" where
  "recv_all arq sz recv_test_data = do {
     (e, data, arq') \<leftarrow> arq_recv (Some arq) True sz True;
     CHECK (ARQ_SUCCEEDED e);
     bs \<leftarrow> data;
     a \<leftarrow> arq';
     if bs \<noteq> [] then recv_all a sz (recv_test_data @ bs) else Some (recv_test_data @ bs, a)
   }"

definition ack_one_message ::
  "build \<Rightarrow> abi \<Rightarrow> arq_cfg_t \<Rightarrow> nat \<times> arq_t \<Rightarrow> nat \<times> arq_t \<Rightarrow> byte list \<Rightarrow> unit option" where
  "ack_one_message b abi cfg0 seat1 seat2 frame = do {
     let cfg = connect_cfg cfg0;
     sender \<leftarrow> ArqContext b abi seat1 cfg;
     receiver \<leftarrow> ArqContext b abi seat2 cfg;
     let send_test_data = test_data b (segment_length_in_bytes cfg * message_length_in_segments cfg);
     \<comment> \<open>send a full message into the sender\<close>
     (e, sent, arq) \<leftarrow> arq_send (Some sender) (Some send_test_data) (length send_test_data) True;
     CHECK (e = ARQ_OK_COMPLETED);
     CHECK (sent = Some (length send_test_data));
     sender \<leftarrow> arq;
     (frame, sender, receiver) \<leftarrow> for_range 0 (message_length_in_segments cfg) (\<lambda>i (frame, sender, receiver). do {
       \<comment> \<open>poll the sender to move a frame from the send window into the send frame\<close>
       (out, sender) \<leftarrow> test_poll b sender 0;
       CHECK (po_send_ready out);
       (frame_len, frame, sender) \<leftarrow> test_drain sender frame;
       \<comment> \<open>load the send frame into the receiver\<close>
       receiver \<leftarrow> test_fill receiver frame frame_len;
       (out, receiver) \<leftarrow> test_poll b receiver 0;
       Some (frame, sender, receiver)
     }) (frame, sender, receiver);
     \<comment> \<open>drain the receiver's ACK-only frame\<close>
     (frame_len, frame, receiver) \<leftarrow> test_drain receiver frame;
     (out, receiver) \<leftarrow> test_poll b receiver 0;
     \<comment> \<open>load the ACK frame into the sender\<close>
     sender \<leftarrow> test_fill sender frame frame_len;
     (out, sender) \<leftarrow> test_poll b sender 0;
     \<comment> \<open>drain the receiver's receive window\<close>
     (recv_test_data, receiver) \<leftarrow> recv_all receiver 128 [];
     CHECK (w_size (s_w (a_send_wnd sender)) = 0);
     CHECK (length send_test_data = length recv_test_data);
     CHECK (recv_test_data = send_test_data)
   }"

section \<open>Objects with a message of four segments\<close>

definition four_wnd :: "arq__msg_t list \<Rightarrow> byte list \<Rightarrow> nat \<Rightarrow> nat \<Rightarrow> nat \<Rightarrow> arq__wnd_t" where
  "four_wnd ms buf len vec sz = \<lparr>w_msg = \<lparr>m_len = len, m_cur_ack_vec = vec, m_full_ack_vec = 15\<rparr> # ms, w_buf = buf,
     w_seq = 0, w_cap = 16, w_size = sz, w_msg_len = 512, w_seg_len = 128, w_full_ack_vec = 15\<rparr>"

definition four_sender :: "arq__msg_t list \<Rightarrow> nat list \<Rightarrow> byte list \<Rightarrow> nat \<Rightarrow> nat \<Rightarrow> arq__send_wnd_t" where
  "four_sender ms ts buf len sz = \<lparr>s_w = four_wnd ms buf len 0 sz, s_rtx = 0 # ts, s_tiny = 0, s_tiny_on = False\<rparr>"

definition four_receiver :: "arq__msg_t list \<Rightarrow> bool list \<Rightarrow> byte list \<Rightarrow> nat \<Rightarrow> nat \<Rightarrow> nat \<Rightarrow> nat \<Rightarrow> bool \<Rightarrow> nat \<Rightarrow> arq__recv_wnd_t" where
  "four_receiver ms as buf len vec sz tmr on ofs = \<lparr>r_w = four_wnd ms buf len vec sz, r_ack = False # as, r_inter_seg_ack = tmr,
     r_inter_seg_ack_seq = 0, r_inter_seg_ack_on = on, r_copy_seq = 0, r_copy_ofs = ofs, r_slide = 0\<rparr>"

lemmas exec_four = exec four_wnd_def four_sender_def four_receiver_def

lemma four_bits [simp]: "arq__ctz (not32 7) = Some 3"
  by code_simp

abbreviation "sending c u ms ts data sz sg v sfb sfs sfl rw rf np \<equiv>
  party c u (four_sender ms ts data (512 * sz) sz) (send_ptr sg v) (sframe sfb sfs sfl) rw rf np"

lemma four_cases: "i < 4 \<Longrightarrow> i = 0 \<or> i = 1 \<or> i = 2 \<or> i = (3 :: nat)"
  by linarith

section \<open>Steps of the sender\<close>

lemma four_send:
  assumes "length sb = 8192" "length data = 512"
  shows "arq_send (Some (sending c u ms ts sb 0 0 False sfb sfs sfl rw rf False)) (Some data) 512 True =
    Some (ARQ_OK_COMPLETED, Some 512, Some (sending c u ms ts (data @ drop 512 sb) 1 0 False sfb sfs sfl rw rf False))"
  using assms by (simp add: arq_send_def arq__send_wnd_send_def exec_four cong: bind_weak)

text \<open>The sender before its poll number \<open>i\<close>.\<close>

definition sends_at :: "arq_cfg_t \<Rightarrow> byte list \<Rightarrow> nat \<Rightarrow> arq_t \<Rightarrow> bool" where
  "sends_at c data i a \<longleftrightarrow> (\<exists>u ms ts buf sfb ms' as rb rfb np. length buf = 8192 \<and> take 512 buf = data \<and> length sfb = 146 \<and> length rfb = 146 \<and>
     a = sending c u ms ts buf 1 (i - 1) (i \<noteq> 0) sfb (if i = 0 then ARQ__SEND_FRAME_STATE_FREE else ARQ__SEND_FRAME_STATE_RELEASED) 0
       (four_receiver ms' as rb 0 0 0 ARQ_TIME_INFINITY False 0) (empty_rframe rfb) np)"

lemma four_emits:
  assumes "use_connections b" "length buf = 8192" "length sfb = 146" "i < 4"
  shows "\<exists>out np'. backend_poll b (sending c u ms ts buf 1 (i - 1) (i \<noteq> 0) sfb
        (if i = 0 then ARQ__SEND_FRAME_STATE_FREE else ARQ__SEND_FRAME_STATE_RELEASED) 0
        (four_receiver ms' as rb 0 0 0 ARQ_TIME_INFINITY False 0) (empty_rframe rfb) np) 0 =
      Some (\<lparr>po_event = ARQ_EVENT_NONE, po_send_ready = True, po_recv_ready = False, po_next_poll = np'\<rparr>,
        sending c u ms ts buf 1 i True out ARQ__SEND_FRAME_STATE_FREE 146
          (four_receiver ms' as rb 0 0 0 ARQ_TIME_INFINITY False 0) (empty_rframe rfb) False) \<and>
    length out = 146 \<and> carries (cfg_checksum c) (seg_hdr 4 i) (take 128 (drop (128 * i) buf)) out 146"
proof -
  have "128 \<le> length (drop (128 * i) buf)" using assms(2) four_cases [OF assms(4)] by auto
  then obtain out where "arq__frame_write b (seg_hdr 4 i) (Some (drop (128 * i) buf)) (cfg_checksum c) sfb 146 = Some (146, out)"
    "length out = 146" "carries (cfg_checksum c) (seg_hdr 4 i) (take 128 (drop (128 * i) buf)) out 146"
    using emit_segment [of sfb 4 i "drop (128 * i) buf" b "cfg_checksum c"] assms(3,4) by auto
  then show ?thesis
    using assms(1-3) four_cases [OF assms(4)]
    by (elim disjE; intro exI [of _ out] exI conjI; simp add: exec_four closed_poll numeral_2_eq_2 [symmetric] cong: bind_weak)
qed

lemma sends_next:
  assumes b: "use_connections b" and a: "sends_at c data i a" "i < 4" and f: "256 \<le> length frame"
  shows "\<exists>o1 a1 f' a2. backend_poll b a 0 = Some (o1, a1) \<and> po_send_ready o1 \<and> test_drain a1 frame = Some (146, f', a2) \<and>
    sends_at c data (Suc i) a2 \<and> carries (cfg_checksum c) (seg_hdr 4 i) (take 128 (drop (128 * i) data)) f' 146 \<and> 256 \<le> length f'"
proof -
  obtain u ms ts buf sfb ms' as rb rfb np where s: "length buf = 8192" "take 512 buf = data" "length sfb = 146" "length rfb = 146"
    "a = sending c u ms ts buf 1 (i - 1) (i \<noteq> 0) sfb (if i = 0 then ARQ__SEND_FRAME_STATE_FREE else ARQ__SEND_FRAME_STATE_RELEASED) 0
       (four_receiver ms' as rb 0 0 0 ARQ_TIME_INFINITY False 0) (empty_rframe rfb) np"
    using a(1) unfolding sends_at_def by blast
  let ?a = "\<lambda>out st n np. sending c u ms ts buf 1 i True out st n (four_receiver ms' as rb 0 0 0 ARQ_TIME_INFINITY False 0) (empty_rframe rfb) np"
  obtain out np' where 1: "backend_poll b a 0 = Some (\<lparr>po_event = ARQ_EVENT_NONE, po_send_ready = True, po_recv_ready = False,
      po_next_poll = np'\<rparr>, ?a out ARQ__SEND_FRAME_STATE_FREE 146 False)" "length out = 146"
    "carries (cfg_checksum c) (seg_hdr 4 i) (take 128 (drop (128 * i) buf)) out 146"
    using four_emits [OF b s(1,3) a(2), of c u ms ts ms' as rb rfb np] unfolding s(5) by blast
  obtain f' where 2: "test_drain (?a out ARQ__SEND_FRAME_STATE_FREE 146 False) frame = Some (146, f', ?a out ARQ__SEND_FRAME_STATE_RELEASED 0 True)"
    "carries (cfg_checksum c) (seg_hdr 4 i) (take 128 (drop (128 * i) buf)) f' 146" "256 \<le> length f'"
    using drain_party [OF 1(3) f] by blast
  have "sends_at c data (Suc i) (?a out ARQ__SEND_FRAME_STATE_RELEASED 0 True)"
    unfolding sends_at_def using s(1,2,4) 1(2) by (intro exI conjI) (assumption | simp)+
  moreover have "take 128 (drop (128 * i) buf) = take 128 (drop (128 * i) data)"
    using s(2) four_cases [OF a(2)] by (auto simp: drop_take)
  ultimately show ?thesis using 1(1) 2 by (intro exI conjI) (assumption | simp)+
qed

text \<open>The acknowledgement of the whole message empties the window.\<close>

lemma sends_acked:
  assumes b: "use_connections b" "retransmission_timeout c = 100" and a: "sends_at c data 4 a" and f: "carries (cfg_checksum c) (ack_hdr 15) [] frame 18"
  shows "\<exists>a1 o1 a2. test_fill a frame 18 = Some a1 \<and> backend_poll b a1 0 = Some (o1, a2) \<and> w_size (s_w (a_send_wnd a2)) = 0"
proof -
  obtain u ms ts buf sfb ms' as rb rfb np where s: "length buf = 8192" "length rfb = 146"
    "a = sending c u ms ts buf 1 3 True sfb ARQ__SEND_FRAME_STATE_RELEASED 0
       (four_receiver ms' as rb 0 0 0 ARQ_TIME_INFINITY False 0) (empty_rframe rfb) np"
    using a unfolding sends_at_def by auto
  let ?a = "\<lambda>rf np. sending c u ms ts buf 1 3 True sfb ARQ__SEND_FRAME_STATE_RELEASED 0
       (four_receiver ms' as rb 0 0 0 ARQ_TIME_INFINITY False 0) rf np"
  have le: "(18 :: nat) \<le> 146" by simp
  obtain q where 1: "test_fill a frame 18 = Some (?a (rframe q ARQ__RECV_FRAME_STATE_FULL_FRAME_PRESENT 18) True)" "length q = 146"
    "carries (cfg_checksum c) (ack_hdr 15) [] q 18"
    using fill_party [OF f le s(2)] unfolding s(3) by blast
  obtain q' where "arq__frame_read b q 18 (cfg_checksum c) = Some (ARQ__FRAME_READ_RESULT_SUCCESS, ack_hdr 15, 13, q')" "length q' = 146"
    using carried_frame_read [OF 1(3,2), of b] by blast
  then have "\<exists>o1 a2. backend_poll b (?a (rframe q ARQ__RECV_FRAME_STATE_FULL_FRAME_PRESENT 18) True) 0 = Some (o1, a2) \<and>
      w_size (s_w (a_send_wnd a2)) = 0"
    using b s(1) by (intro exI conjI) (simp add: exec_four closed_poll cong: bind_weak; fail)+
  with 1(1) show ?thesis by blast
qed

section \<open>Steps of the receiver\<close>

text \<open>The receiver that has taken \<open>i\<close> segments; with the fourth its acknowledgement waits to be sent.\<close>

abbreviation "receiving c u ms ts sb sfb sfs sfl ms' as rb i rf np \<equiv> party c u (four_sender ms ts sb 0 0) (send_ptr 0 False) (sframe sfb sfs sfl)
  (four_receiver ms' as rb (128 * i) (2 ^ i - 1) (if i = 0 then 0 else 1) (if i = 0 then ARQ_TIME_INFINITY else 100) (0 < i \<and> i < 4) 0) rf np"

definition receives_at :: "arq_cfg_t \<Rightarrow> byte list \<Rightarrow> nat \<Rightarrow> arq_t \<Rightarrow> bool" where
  "receives_at c data i a \<longleftrightarrow> (\<exists>u ms ts sb sfb ms' as rb rfb np. length rb = 8192 \<and> take (128 * i) rb = take (128 * i) data \<and>
     length ms' = 15 \<and> m_len (ms' ! 0) = 0 \<and> length sfb = 146 \<and> length rfb = 146 \<and> (i = 4 \<longrightarrow> carries (cfg_checksum c) (ack_hdr 15) [] sfb 18) \<and>
     a = receiving c u ms ts sb sfb ARQ__SEND_FRAME_STATE_FREE (if i = 4 then 18 else 0) ms' as rb i (empty_rframe rfb) np)"

lemma four_stores:
  assumes "use_connections b" "length rb = 8192" "length sfb = 146" "length rfb = 146" "inter_segment_timeout c = 100" "i < 4"
    and f: "carries (cfg_checksum c) (seg_hdr 4 i) d rfb 146"
  shows "\<exists>o1 out rfb'. backend_poll b (receiving c u ms ts sb sfb ARQ__SEND_FRAME_STATE_FREE 0 ms' as rb i
        (rframe rfb ARQ__RECV_FRAME_STATE_FULL_FRAME_PRESENT 146) np) 0 =
      Some (o1, receiving c u ms ts sb out ARQ__SEND_FRAME_STATE_FREE (if Suc i = 4 then 18 else 0) ms' as
        (take (128 * i) rb @ d @ drop (128 * Suc i) rb) (Suc i) (empty_rframe rfb') False) \<and>
    length out = 146 \<and> length rfb' = 146 \<and> (Suc i = 4 \<longrightarrow> carries (cfg_checksum c) (ack_hdr 15) [] out 18)"
proof -
  obtain rfb' where r: "arq__frame_read b rfb 146 (cfg_checksum c) = Some (ARQ__FRAME_READ_RESULT_SUCCESS, seg_hdr 4 i, 13, rfb')"
    "length rfb' = 146" "take 128 (drop 13 rfb') = d" "length d = 128"
    using carried_frame_read [OF f assms(4), of b] by (auto simp: seg_hdr_def)
  obtain ack where k: "arq__frame_write b (ack_hdr 15) None (cfg_checksum c) sfb 146 = Some (18, ack)"
    "length ack = 146" "carries (cfg_checksum c) (ack_hdr 15) [] ack 18"
    using emit_ack [of sfb 15 b "cfg_checksum c"] assms(3) by auto
  define out where "out = (if i = 3 then ack else sfb)"
  have "\<exists>o1. backend_poll b (receiving c u ms ts sb sfb ARQ__SEND_FRAME_STATE_FREE 0 ms' as rb i
        (rframe rfb ARQ__RECV_FRAME_STATE_FULL_FRAME_PRESENT 146) np) 0 =
      Some (o1, receiving c u ms ts sb out ARQ__SEND_FRAME_STATE_FREE (if Suc i = 4 then 18 else 0) ms' as
        (take (128 * i) rb @ d @ drop (128 * Suc i) rb) (Suc i) (empty_rframe rfb') False)"
    using r k assms(1-3,5) four_cases [OF assms(6)]
    by (elim disjE; intro exI; simp add: exec_four out_def closed_poll numeral_2_eq_2 [symmetric] cong: bind_weak)
  moreover have "length out = 146" "Suc i = 4 \<longrightarrow> carries (cfg_checksum c) (ack_hdr 15) [] out 18"
    using k(2,3) assms(3) by (simp_all add: out_def)
  ultimately show ?thesis using r(2) by blast
qed

lemma receives_next:
  assumes b: "use_connections b" "inter_segment_timeout c = 100" and a: "receives_at c data i a" "i < 4" and d: "length data = 512"
    and f: "carries (cfg_checksum c) (seg_hdr 4 i) (take 128 (drop (128 * i) data)) frame 146"
  shows "\<exists>a1 o1 a2. test_fill a frame 146 = Some a1 \<and> backend_poll b a1 0 = Some (o1, a2) \<and> receives_at c data (Suc i) a2"
proof -
  let ?d = "take 128 (drop (128 * i) data)"
  obtain u ms ts sb sfb ms' as rb rfb np where s: "length rb = 8192" "take (128 * i) rb = take (128 * i) data" "length sfb = 146" "length rfb = 146"
    "length ms' = 15" "m_len (ms' ! 0) = 0" "a = receiving c u ms ts sb sfb ARQ__SEND_FRAME_STATE_FREE 0 ms' as rb i (empty_rframe rfb) np"
    using a unfolding receives_at_def by auto
  obtain q where 1: "test_fill a frame 146 = Some (receiving c u ms ts sb sfb ARQ__SEND_FRAME_STATE_FREE 0 ms' as rb i
      (rframe q ARQ__RECV_FRAME_STATE_FULL_FRAME_PRESENT 146) True)" "length q = 146" "carries (cfg_checksum c) (seg_hdr 4 i) ?d q 146"
    using fill_party [OF f order_refl s(4)] unfolding s(7) by blast
  let ?rb = "take (128 * i) rb @ ?d @ drop (128 * Suc i) rb"
  obtain o1 out q' where 2: "backend_poll b (receiving c u ms ts sb sfb ARQ__SEND_FRAME_STATE_FREE 0 ms' as rb i
        (rframe q ARQ__RECV_FRAME_STATE_FULL_FRAME_PRESENT 146) True) 0 =
      Some (o1, receiving c u ms ts sb out ARQ__SEND_FRAME_STATE_FREE (if Suc i = 4 then 18 else 0) ms' as ?rb (Suc i) (empty_rframe q') False)"
    "length out = 146" "length q' = 146" "Suc i = 4 \<longrightarrow> carries (cfg_checksum c) (ack_hdr 15) [] out 18"
    using four_stores [OF b(1) s(1,3) 1(2) b(2) a(2) 1(3), of u ms ts sb ms' as True] by (elim exE conjE)
  have n: "length ?d = 128" using d four_cases [OF a(2)] by auto
  have "length (take (128 * i) rb) = 128 * i" using s(1) a(2) by simp
  then have "length ?rb = 8192" "take (128 * Suc i) ?rb = take (128 * i) rb @ ?d"
    using n s(1) a(2) by simp_all
  moreover have "take (128 * Suc i) data = take (128 * i) data @ ?d"
    using take_add [of "128 * i" 128 data] by (simp add: add.commute)
  ultimately have "receives_at c data (Suc i) (receiving c u ms ts sb out ARQ__SEND_FRAME_STATE_FREE (if Suc i = 4 then 18 else 0) ms' as ?rb
      (Suc i) (empty_rframe q') False)"
    unfolding receives_at_def using 2(2-4) s(2,5,6) by (intro exI conjI) (assumption | simp)+
  with 1(1) 2(1) show ?thesis by blast
qed

text \<open>What the receiver gives to its reader, in pieces of one segment.\<close>

abbreviation "read_at c u ms ts sb sfb ms' as rb ofs rf \<equiv> party c u (four_sender ms ts sb 0 0) (send_ptr 0 False)
  (sframe sfb ARQ__SEND_FRAME_STATE_RELEASED 0) (four_receiver ms' as rb 512 15 1 100 False ofs) rf False"

lemma four_read:
  assumes "length rb = 8192"
  shows "arq_recv (Some (read_at c u ms ts sb sfb ms' as rb 0 rf)) True 128 True =
      Some (ARQ_OK_COMPLETED, Some (take 128 rb), Some (read_at c u ms ts sb sfb ms' as rb 128 rf))"
    "arq_recv (Some (read_at c u ms ts sb sfb ms' as rb 128 rf)) True 128 True =
      Some (ARQ_OK_COMPLETED, Some (take 128 (drop 128 rb)), Some (read_at c u ms ts sb sfb ms' as rb 256 rf))"
    "arq_recv (Some (read_at c u ms ts sb sfb ms' as rb 256 rf)) True 128 True =
      Some (ARQ_OK_COMPLETED, Some (take 128 (drop 256 rb)), Some (read_at c u ms ts sb sfb ms' as rb 384 rf))"
  using assms by (simp_all add: exec_four arq_recv_def arq__recv_wnd_recv_def cong: bind_weak)

lemma four_read_last:
  assumes "length rb = 8192" "length ms' = 15" "m_len (ms' ! 0) = 0"
  shows "\<exists>a a'. arq_recv (Some (read_at c u ms ts sb sfb ms' as rb 384 rf)) True 128 True =
      Some (ARQ_OK_COMPLETED, Some (take 128 (drop 384 rb)), Some a) \<and> arq_recv (Some a) True 128 True = Some (ARQ_OK_COMPLETED, Some [], Some a')"
  using assms by (intro exI conjI) (simp add: exec_four arq_recv_def arq__recv_wnd_recv_def cong: bind_weak)+

lemma quarters:
  "take 128 xs @ take 128 (drop 128 xs) @ take 128 (drop 256 xs) @ take 128 (drop 384 xs) = take 512 xs"
  using take_add [of 128 384 xs] take_add [of 128 256 "drop 128 xs"] take_add [of 128 128 "drop 256 xs"] by simp

lemma four_read_all:
  assumes "length rb = 8192" "length ms' = 15" "m_len (ms' ! 0) = 0"
  shows "\<exists>a. recv_all (read_at c u ms ts sb sfb ms' as rb 0 rf) 128 [] = Some (take 512 rb, a)"
proof -
  obtain a a' where l: "arq_recv (Some (read_at c u ms ts sb sfb ms' as rb 384 rf)) True 128 True =
      Some (ARQ_OK_COMPLETED, Some (take 128 (drop 384 rb)), Some a)" "arq_recv (Some a) True 128 True = Some (ARQ_OK_COMPLETED, Some [], Some a')"
    using four_read_last [OF assms] by blast
  have ne: "take 128 rb \<noteq> []" "take 128 (drop 128 rb) \<noteq> []" "take 128 (drop 256 rb) \<noteq> []" "take 128 (drop 384 rb) \<noteq> []"
    using assms(1) by auto
  have "recv_all a 128 (take 512 rb) = Some (take 512 rb, a')"
    by (subst recv_all.simps) (simp del: One_nat_def add: l(2) ARQ_SUCCEEDED_iff)
  then have "recv_all (read_at c u ms ts sb sfb ms' as rb 384 rf) 128 (take 128 rb @ take 128 (drop 128 rb) @ take 128 (drop 256 rb)) =
      Some (take 512 rb, a')"
    by (subst recv_all.simps) (simp del: One_nat_def add: l(1) ne(4) ARQ_SUCCEEDED_iff quarters assms(1))
  then have "recv_all (read_at c u ms ts sb sfb ms' as rb 256 rf) 128 (take 128 rb @ take 128 (drop 128 rb)) = Some (take 512 rb, a')"
    by (subst recv_all.simps) (simp del: One_nat_def add: four_read(3) [OF assms(1)] ne(3) ARQ_SUCCEEDED_iff assms(1))
  then have "recv_all (read_at c u ms ts sb sfb ms' as rb 128 rf) 128 (take 128 rb) = Some (take 512 rb, a')"
    by (subst recv_all.simps) (simp del: One_nat_def add: four_read(2) [OF assms(1)] ne(2) ARQ_SUCCEEDED_iff assms(1))
  then show ?thesis
    by (subst recv_all.simps) (simp del: One_nat_def add: four_read(1) [OF assms(1)] ne(1) ARQ_SUCCEEDED_iff assms(1))
qed

text \<open>The receiver sends its acknowledgement, and gives the message to its reader.\<close>

lemma receives_finish:
  assumes b: "use_connections b" and a: "receives_at c data 4 a" and d: "length data = 512" and f: "256 \<le> length frame"
  shows "\<exists>f' a1 o1 a2 a3. test_drain a frame = Some (18, f', a1) \<and> backend_poll b a1 0 = Some (o1, a2) \<and>
    carries (cfg_checksum c) (ack_hdr 15) [] f' 18 \<and> recv_all a2 128 [] = Some (data, a3)"
proof -
  obtain u ms ts sb sfb ms' as rb rfb np where s: "length rb = 8192" "take 512 rb = data" "length ms' = 15" "m_len (ms' ! 0) = 0"
    "carries (cfg_checksum c) (ack_hdr 15) [] sfb 18"
    "a = receiving c u ms ts sb sfb ARQ__SEND_FRAME_STATE_FREE 18 ms' as rb 4 (empty_rframe rfb) np"
    using a d unfolding receives_at_def by auto
  let ?a = "receiving c u ms ts sb sfb ARQ__SEND_FRAME_STATE_RELEASED 0 ms' as rb 4 (empty_rframe rfb) True"
  obtain f' where 1: "test_drain a frame = Some (18, f', ?a)" "carries (cfg_checksum c) (ack_hdr 15) [] f' 18"
    using drain_party [OF s(5) f] unfolding s(6) by blast
  have "\<exists>o1. backend_poll b ?a 0 = Some (o1, read_at c u ms ts sb sfb ms' as rb 0 (empty_rframe rfb))"
    using b by (intro exI) (simp add: exec_four closed_poll cong: bind_weak)
  moreover obtain a3 where "recv_all (read_at c u ms ts sb sfb ms' as rb 0 (empty_rframe rfb)) 128 [] = Some (data, a3)"
    using four_read_all [OF s(1,3,4)] s(2) by blast
  ultimately show ?thesis using 1 by blast
qed

section \<open>The test passes\<close>

lemma four_start:
  assumes c: "cfg_sound c" "send_window_size_in_messages c = 16" "recv_window_size_in_messages c = 16"
      "message_length_in_segments c = 4" "segment_length_in_bytes c = 128"
    and s: "abi_ok abi" "required_bytes abi c < 2 ^ 32" "seat_ok c seat" and b: "use_connections b"
  shows "\<exists>u sb sfb rb rfb ms ts as. ArqContext b abi seat c = Some (party c u (four_sender ms ts sb 0 0) (send_ptr 0 False)
      (sframe sfb ARQ__SEND_FRAME_STATE_FREE 0) (four_receiver ms as rb 0 0 0 ARQ_TIME_INFINITY False 0) (empty_rframe rfb) False) \<and>
    length sb = 8192 \<and> length sfb = 146 \<and> length rb = 8192 \<and> length rfb = 146 \<and> length ms = 15 \<and> m_len (ms ! 0) = 0"
  using ArqContext_fresh [OF c(1) s(1,2) _ _ b, of seat] s(3) c(2-5)
  by (auto simp: seat_ok_def exec_party four_sender_def four_receiver_def four_wnd_def fresh_wnd_def closed_def replicate_Suc [of 15, simplified]
      intro!: exI [of _ "replicate 15 _"])

lemma connect_cfg_more [simp]:
  "segment_length_in_bytes (connect_cfg c) = 128" "message_length_in_segments (connect_cfg c) = 4"
  "send_window_size_in_messages (connect_cfg c) = 16" "recv_window_size_in_messages (connect_cfg c) = 16"
  "retransmission_timeout (connect_cfg c) = 100" "inter_segment_timeout (connect_cfg c) = 100"
  by (simp_all add: connect_cfg_def)

lemma ack_one_message_passes:
  assumes b: "use_connections b" and cfg: "cfg_ranges cfg0" "abi_ok abi" "required_bytes abi (connect_cfg cfg0) < 2 ^ 32"
    and mem: "seat_ok (connect_cfg cfg0) seat1" "seat_ok (connect_cfg cfg0) seat2" "256 \<le> length frame"
  shows "ack_one_message b abi cfg0 seat1 seat2 frame = Some ()"
proof -
  let ?c = "connect_cfg cfg0" let ?d = "test_data b 512"
  note fresh = four_start [OF connect_cfg_sound [OF cfg(1)] connect_cfg_more(3,4,2,1) cfg(2,3) _ b]
  obtain u1 sb1 sfb1 rb1 rfb1 ms1 ts1 as1 where s: "ArqContext b abi seat1 ?c = Some (party ?c u1 (four_sender ms1 ts1 sb1 0 0) (send_ptr 0 False)
      (sframe sfb1 ARQ__SEND_FRAME_STATE_FREE 0) (four_receiver ms1 as1 rb1 0 0 0 ARQ_TIME_INFINITY False 0) (empty_rframe rfb1) False)"
    "length sb1 = 8192" "length sfb1 = 146" "length rfb1 = 146"
    using fresh [OF mem(1)] by (elim exE conjE)
  obtain r where r: "ArqContext b abi seat2 ?c = Some r" "receives_at ?c ?d 0 r"
  proof -
    obtain u2 sb2 sfb2 rb2 rfb2 ms2 ts2 as2 where r: "ArqContext b abi seat2 ?c = Some (party ?c u2 (four_sender ms2 ts2 sb2 0 0) (send_ptr 0 False)
        (sframe sfb2 ARQ__SEND_FRAME_STATE_FREE 0) (four_receiver ms2 as2 rb2 0 0 0 ARQ_TIME_INFINITY False 0) (empty_rframe rfb2) False)"
      "length sfb2 = 146" "length rb2 = 8192" "length rfb2 = 146" "length ms2 = 15" "m_len (ms2 ! 0) = 0"
      using fresh [OF mem(2)] by (elim exE conjE)
    have "receives_at ?c ?d 0 (party ?c u2 (four_sender ms2 ts2 sb2 0 0) (send_ptr 0 False)
        (sframe sfb2 ARQ__SEND_FRAME_STATE_FREE 0) (four_receiver ms2 as2 rb2 0 0 0 ARQ_TIME_INFINITY False 0) (empty_rframe rfb2) False)"
      unfolding receives_at_def using r(2-6) by (intro exI conjI) (assumption | simp)+
    with r(1) show ?thesis by (rule that)
  qed
  let ?s = "sending ?c u1 ms1 ts1 (?d @ drop 512 sb1) 1 0 False sfb1 ARQ__SEND_FRAME_STATE_FREE 0
    (four_receiver ms1 as1 rb1 0 0 0 ARQ_TIME_INFINITY False 0) (empty_rframe rfb1) False"
  have "length (?d @ drop 512 sb1) = 8192" "take 512 (?d @ drop 512 sb1) = ?d" using s(2) by simp_all
  then have s0: "sends_at ?c ?d 0 ?s"
    unfolding sends_at_def using s(3,4) by (intro exI conjI) (assumption | simp)+
  define body where "body = (\<lambda>(i :: nat) (frame, sender, receiver). do {
       (out, sender) \<leftarrow> test_poll b sender 0;
       CHECK (po_send_ready out);
       (frame_len, frame, sender) \<leftarrow> test_drain sender frame;
       receiver \<leftarrow> test_fill receiver frame frame_len;
       (out, receiver) \<leftarrow> test_poll b receiver 0;
       Some (frame, sender, receiver)
     })"
  let ?P = "\<lambda>i (frame, sender, receiver). 256 \<le> length frame \<and> sends_at ?c ?d i sender \<and> receives_at ?c ?d i receiver"
  have "\<exists>t'. body j t = Some t' \<and> ?P (Suc j) t'" if j: "j < 4" "?P j t" for j t
  proof -
    obtain f a q where t: "t = (f, a, q)" "256 \<le> length f" "sends_at ?c ?d j a" "receives_at ?c ?d j q"
      using j(2) by (cases t) auto
    obtain o1 a1 f' a2 where 1: "backend_poll b a 0 = Some (o1, a1)" "po_send_ready o1" "test_drain a1 f = Some (146, f', a2)"
      "sends_at ?c ?d (Suc j) a2" "carries (cfg_checksum ?c) (seg_hdr 4 j) (take 128 (drop (128 * j) ?d)) f' 146" "256 \<le> length f'"
      using sends_next [OF b t(3) j(1) t(2)] by (elim exE conjE)
    obtain q1 o2 q2 where 2: "test_fill q f' 146 = Some q1" "backend_poll b q1 0 = Some (o2, q2)" "receives_at ?c ?d (Suc j) q2"
      using receives_next [OF b connect_cfg_more(6) t(4) j(1) length_test_data 1(5)] by (elim exE conjE)
    show ?thesis using 1 2 by (simp add: body_def t(1) test_poll_eq)
  qed
  with for_range_inv [where P = ?P and i = 0 and n = 4 and f = body and s = "(frame, ?s, r)"] s0 r(2) mem(3)
  obtain f1 s1 r1 where 1: "for_range 0 4 body (frame, ?s, r) = Some (f1, s1, r1)" "256 \<le> length f1" "sends_at ?c ?d 4 s1" "receives_at ?c ?d 4 r1"
    by auto
  obtain f2 r2 o1 r3 r4 where 2: "test_drain r1 f1 = Some (18, f2, r2)" "backend_poll b r2 0 = Some (o1, r3)"
    "carries (cfg_checksum ?c) (ack_hdr 15) [] f2 18" "recv_all r3 128 [] = Some (?d, r4)"
    using receives_finish [OF b 1(4) length_test_data 1(2)] by (elim exE conjE)
  obtain s2 o2 s3 where 3: "test_fill s1 f2 18 = Some s2" "backend_poll b s2 0 = Some (o2, s3)" "w_size (s_w (a_send_wnd s3)) = 0"
    using sends_acked [OF b connect_cfg_more(5) 1(3) 2(3)] by (elim exE conjE)
  have send: "arq_send (Some (party ?c u1 (four_sender ms1 ts1 sb1 0 0) (send_ptr 0 False) (sframe sfb1 ARQ__SEND_FRAME_STATE_FREE 0)
      (four_receiver ms1 as1 rb1 0 0 0 ARQ_TIME_INFINITY False 0) (empty_rframe rfb1) False)) (Some ?d) 512 True =
    Some (ARQ_OK_COMPLETED, Some 512, Some ?s)"
    using four_send [OF s(2) length_test_data] by simp
  show ?thesis
    unfolding ack_one_message_def Let_def body_def [symmetric]
    using 1(1) by (simp del: One_nat_def mult_1_right add: test_poll_eq s(1) r(1) 2(1,2,4) 3 send ARQ_SUCCEEDED_iff cong: bind_weak)
qed

text \<open>
  C8. The four tests of messages on the wire pass, whatever the memory and the unset configuration fields
  hold: a message of four segments is delivered, acknowledged and leaves the sender's window; a message whose
  acknowledgement is lost is sent again and acknowledged again; and a message that lost its first or its last
  segment is completed by resending that segment alone.
\<close>

theorem transfer_tests_pass:
  assumes "use_connections b" "cfg_ranges cfg" "abi_ok abi"
    and "required_bytes abi (connect_cfg cfg) < 2 ^ 32" "required_bytes abi (payload_cfg cfg) < 2 ^ 32"
    and "required_bytes abi (nak_cfg cfg) < 2 ^ 32"
    and "seat_ok (connect_cfg cfg) seat1" "seat_ok (connect_cfg cfg) seat2"
    and "seat_ok (payload_cfg cfg) seat3" "seat_ok (payload_cfg cfg) seat4"
    and "seat_ok (nak_cfg cfg) seat5" "seat_ok (nak_cfg cfg) seat6"
    and "\<forall>f \<in> {frame, nak, rtx}. length f = 256"
  shows "ack_one_message b abi cfg seat1 seat2 frame = Some () \<and>
    lost_ack_payload_retransmitted_already_received b abi cfg seat3 seat4 frame = Some () \<and>
    losing_final_segment_in_message_triggers_nak b abi cfg seat5 seat6 frame nak rtx = Some () \<and>
    losing_non_final_segment_triggers_nak b abi cfg seat5 seat6 frame nak rtx = Some ()"
  using assms ack_one_message_passes [of b cfg abi seat1 seat2 frame] unfolding seat_ok_def
  by (intro conjI lost_ack_passes losing_final_passes losing_non_final_passes) simp_all

lemma transfer_tests_pass_witness:
  "ack_one_message be_build demo_abi demo_cfg (4096, blank_mem (connect_cfg demo_cfg)) (4096, blank_mem (connect_cfg demo_cfg))
      (replicate 256 1) = Some () \<and>
   lost_ack_payload_retransmitted_already_received be_build demo_abi demo_cfg (4096, blank_mem (payload_cfg demo_cfg))
      (4096, blank_mem (payload_cfg demo_cfg)) (replicate 256 1) = Some () \<and>
   losing_final_segment_in_message_triggers_nak be_build demo_abi demo_cfg (4096, blank_mem (nak_cfg demo_cfg))
      (4096, blank_mem (nak_cfg demo_cfg)) (replicate 256 1) (replicate 256 2) (replicate 256 3) = Some () \<and>
   losing_non_final_segment_triggers_nak be_build demo_abi demo_cfg (4096, blank_mem (nak_cfg demo_cfg))
      (4096, blank_mem (nak_cfg demo_cfg)) (replicate 256 1) (replicate 256 2) (replicate 256 3) = Some ()"
proof (rule transfer_tests_pass [OF _ demo_cfg_ranges demo_abi_ok _ _ _ blank_seat blank_seat blank_seat blank_seat blank_seat blank_seat])
  show "required_bytes demo_abi (connect_cfg demo_cfg) < 2 ^ 32" "required_bytes demo_abi (payload_cfg demo_cfg) < 2 ^ 32"
    "required_bytes demo_abi (nak_cfg demo_cfg) < 2 ^ 32"
    by (simp_all add: required_bytes_def requests_def demo_abi_def connect_cfg_def payload_cfg_def nak_cfg_def demo_cfg_def align_up_def)
qed (simp_all add: be_build_def)

end
