(* ===== verification/Arq_Frame_Tests.thy ===== *)
theory Arq_Frame_Tests imports Arq_Exec begin

text \<open>
  The functional tests \<open>frame_serialization\<close>, \<open>flush_tinygram\<close> and \<open>poll_until_tinygram_sends\<close>: frames
  of every length in one buffer, and one byte that leaves on a flush or when its delay is over.
\<close>

section \<open>Frames of every length\<close>

definition frame_serialization :: "build \<Rightarrow> byte list \<Rightarrow> byte list option" where
  "frame_serialization b frame = do {
     let seg = map of_nat [0..<256];
     for_range 0 239 (\<lambda>i frame. do {
       let write_hdr = arq__frame_hdr_init\<lparr>h_seg_len := i\<rparr>;
       (frame_len, frame) \<leftarrow> arq__frame_write b write_hdr (Some seg) crc32_checksum frame (length frame);
       (r, read_hdr, read_seg, frame) \<leftarrow> arq__frame_read b frame frame_len crc32_checksum;
       CHECK (r = ARQ__FRAME_READ_RESULT_SUCCESS);
       CHECK (h_seg_len write_hdr = h_seg_len read_hdr);
       CHECK (take (h_seg_len read_hdr) seg = take (h_seg_len read_hdr) (drop read_seg frame));
       Some frame
     }) frame
   }"

lemma frame_serialization_passes:
  assumes "length frame = 256"
  shows "\<exists>frame'. frame_serialization b frame = Some frame'"
proof -
  let ?seg = "map of_nat [0..<256] :: byte list" let ?hdr = "\<lambda>i. arq__frame_hdr_init\<lparr>h_seg_len := i\<rparr>"
  define body where "body = (\<lambda>i frame. do {
       let write_hdr = ?hdr i;
       (frame_len, frame) \<leftarrow> arq__frame_write b write_hdr (Some ?seg) crc32_checksum frame (length frame);
       (r, read_hdr, read_seg, frame) \<leftarrow> arq__frame_read b frame frame_len crc32_checksum;
       CHECK (r = ARQ__FRAME_READ_RESULT_SUCCESS);
       CHECK (h_seg_len write_hdr = h_seg_len read_hdr);
       CHECK (take (h_seg_len read_hdr) ?seg = take (h_seg_len read_hdr) (drop read_seg frame));
       Some frame
     })"
  have step: "\<exists>s'. body j s = Some s' \<and> length s' = 256" if j: "j < 239" "length s = 256" for j s
  proof -
    obtain out where w: "arq__frame_write b (?hdr j) (Some ?seg) crc32_checksum s 256 = Some (18 + j, out)"
      "length out = 256" "carries crc32_checksum (?hdr j) (take j ?seg) out (18 + j)"
      using carries_written [of "?hdr j" "Some ?seg" 256 s b crc32_checksum] j
      by (auto simp: hdr_fits_def arq__frame_hdr_init_def seg_readable_def seg_bytes_def)
    obtain buf where "arq__frame_read b out (18 + j) crc32_checksum = Some (ARQ__FRAME_READ_RESULT_SUCCESS, ?hdr j, 13, buf)"
      "take j (drop 13 buf) = take j ?seg" "length buf = 256"
      using carries_read [OF w(3), of b] w(2) by auto
    then show ?thesis using w j by (simp add: body_def)
  qed
  have "\<exists>s'. for_range 0 239 body frame = Some s' \<and> length s' = 256"
    using for_range_inv [where P = "\<lambda>i s. length s = 256" and i = 0 and n = 239 and f = body and s = frame] step assms by auto
  then show ?thesis by (auto simp: frame_serialization_def body_def Let_def)
qed

section \<open>One byte\<close>

definition flush_cfg :: "arq_cfg_t \<Rightarrow> arq_cfg_t" where
  "flush_cfg cfg = cfg\<lparr>segment_length_in_bytes := 220, message_length_in_segments := 4,
     send_window_size_in_messages := 16, recv_window_size_in_messages := 16, retransmission_timeout := 1000,
     tinygram_send_delay := 220, cfg_checksum := crc32_checksum, connection_rst_attempts := 10,
     connection_rst_period := 100\<rparr>"

definition flush_tinygram :: "build \<Rightarrow> abi \<Rightarrow> arq_cfg_t \<Rightarrow> nat \<times> arq_t \<Rightarrow> byte list \<Rightarrow> unit option" where
  "flush_tinygram b abi cfg0 seat frame = do {
     let cfg = flush_cfg cfg0;
     ctx \<leftarrow> ArqContext b abi seat cfg;
     let send_test_data = 0xA5;
     \<comment> \<open>send the test byte, confirm there's nothing to send\<close>
     (e, sent, arq) \<leftarrow> arq_send (Some ctx) (Some [send_test_data]) 1 True;
     CHECK (ARQ_SUCCEEDED e);
     CHECK (sent = Some 1);
     ctx \<leftarrow> arq;
     (out, ctx) \<leftarrow> test_poll b ctx 0;
     CHECK (\<not> po_send_ready out);
     \<comment> \<open>flush the test byte, confirm there's data to send\<close>
     (e, arq) \<leftarrow> arq_flush (Some ctx);
     CHECK (ARQ_SUCCEEDED e);
     ctx \<leftarrow> arq;
     (out, ctx) \<leftarrow> test_poll b ctx 0;
     CHECK (po_send_ready out);
     \<comment> \<open>drain the frame, confirm the test data is sent\<close>
     (sz, frame, ctx) \<leftarrow> test_drain ctx frame;
     n \<leftarrow> arq__frame_len b 1;
     CHECK (n = sz);
     (r, hdr, p, frame) \<leftarrow> arq__frame_read b frame sz crc32_checksum;
     CHECK (r = ARQ__FRAME_READ_RESULT_SUCCESS);
     recv_test_data \<leftarrow> rd frame p;
     CHECK (send_test_data = recv_test_data)
   }"

definition tinygram_cfg :: "arq_cfg_t \<Rightarrow> arq_cfg_t" where
  "tinygram_cfg cfg = cfg\<lparr>segment_length_in_bytes := 220, message_length_in_segments := 4,
     send_window_size_in_messages := 16, recv_window_size_in_messages := 16, retransmission_timeout := 100,
     tinygram_send_delay := 50, cfg_checksum := crc32_checksum, connection_rst_attempts := 10,
     connection_rst_period := 100\<rparr>"

definition poll_until_tinygram_sends :: "build \<Rightarrow> abi \<Rightarrow> arq_cfg_t \<Rightarrow> nat \<times> arq_t \<Rightarrow> byte list \<Rightarrow> unit option" where
  "poll_until_tinygram_sends b abi cfg0 seat decode_buf = do {
     let cfg = tinygram_cfg cfg0;
     ctx \<leftarrow> ArqContext b abi seat cfg;
     let send_data = 0x5A;
     (e, sent, arq) \<leftarrow> arq_send (Some ctx) (Some [send_data]) 1 True;
     CHECK (ARQ_SUCCEEDED e);
     CHECK (sent = Some 1);
     ctx \<leftarrow> arq;
     ctx \<leftarrow> for_range 0 (tinygram_send_delay cfg - 1) (\<lambda>i ctx. do {
       (out, ctx) \<leftarrow> test_poll b ctx 1;
       CHECK (\<not> po_send_ready out);
       CHECK (po_next_poll out = tinygram_send_delay cfg - i - 1);
       Some ctx
     }) ctx;
     (out, ctx) \<leftarrow> test_poll b ctx 1;
     CHECK (po_send_ready out);
     (sz, decode_buf, ctx) \<leftarrow> test_drain ctx decode_buf;
     (r, h, seg, decode_buf) \<leftarrow> arq__frame_read b decode_buf sz (cfg_checksum cfg);
     CHECK (r = ARQ__FRAME_READ_RESULT_SUCCESS);
     CHECK (h_seg_len h = 1);
     actual \<leftarrow> rd decode_buf seg;
     CHECK (send_data = actual)
   }"

section \<open>An object that holds one byte\<close>

text \<open>
  Windows of 16 messages of 4 segments of 220 bytes, of which the first message is in use: \<open>ms\<close>, \<open>ts\<close> and
  \<open>as\<close> are the entries of the others. \<open>k\<close> is what both timers of the byte have left.
\<close>

definition first_wnd :: "arq__msg_t list \<Rightarrow> byte list \<Rightarrow> nat \<Rightarrow> nat \<Rightarrow> nat \<Rightarrow> arq__wnd_t" where
  "first_wnd ms buf len full sz = \<lparr>w_msg = \<lparr>m_len = len, m_cur_ack_vec = 0, m_full_ack_vec = full\<rparr> # ms, w_buf = buf,
     w_seq = 0, w_cap = 16, w_size = sz, w_msg_len = 880, w_seg_len = 220, w_full_ack_vec = 15\<rparr>"

definition tiny_party :: "arq_cfg_t \<Rightarrow> arq__conn_u \<Rightarrow> arq__send_wnd_t \<Rightarrow> bool \<Rightarrow> arq__send_frame_t \<Rightarrow>
    arq__msg_t list \<Rightarrow> bool list \<Rightarrow> byte list \<Rightarrow> byte list \<Rightarrow> bool \<Rightarrow> arq_t" where
  "tiny_party c u sw p sf ms as rb rfb np = \<lparr>a_cfg = c, a_send_wnd = sw, a_send_wnd_ptr = \<lparr>p_seq = 0, p_seg = 0, p_valid = p\<rparr>,
     a_send_frame = sf, a_recv_wnd = \<lparr>r_w = first_wnd ms rb 0 15 0, r_ack = as, r_inter_seg_ack = ARQ_TIME_INFINITY,
       r_inter_seg_ack_seq = 0, r_inter_seg_ack_on = False, r_copy_seq = 0, r_copy_ofs = 0, r_slide = 0\<rparr>,
     a_recv_frame = \<lparr>rf_buf = rfb, rf_state = ARQ__RECV_FRAME_STATE_ACCUMULATING, rf_cap = 238, rf_len = 0\<rparr>,
     a_need_poll = np, a_conn = closed u\<rparr>"

definition tiny_sender :: "arq__msg_t list \<Rightarrow> nat list \<Rightarrow> byte list \<Rightarrow> nat \<Rightarrow> nat \<Rightarrow> nat \<Rightarrow> nat \<Rightarrow> nat \<Rightarrow> bool \<Rightarrow> arq__send_wnd_t" where
  "tiny_sender ms ts buf len full sz rtx k on = \<lparr>s_w = first_wnd ms buf len full sz, s_rtx = rtx # ts, s_tiny = k, s_tiny_on = on\<rparr>"

definition tiny_frame :: "byte list \<Rightarrow> nat \<Rightarrow> arq__send_frame_t" where
  "tiny_frame buf n = \<lparr>sf_buf = buf, sf_state = ARQ__SEND_FRAME_STATE_FREE, sf_cap = 238, sf_len = n\<rparr>"

definition tiny_hdr :: arq__frame_hdr_t where
  "tiny_hdr = arq__frame_hdr_init\<lparr>h_seg_len := 1, h_msg_len := 1, h_seg := True\<rparr>"

lemmas exec_tiny = exec_poll exec_ops first_wnd_def tiny_party_def tiny_sender_def tiny_frame_def tiny_hdr_def arq__frame_hdr_init_def
  ARQ_TIME_INFINITY_def

lemma tiny_send:
  assumes "length sb = 14080" "tinygram_send_delay c = k"
  shows "arq_send (Some (tiny_party c u (tiny_sender ms ts sb 0 15 0 0 0 False) False sf ms' as rb rfb False)) (Some [x]) 1 True =
    Some (ARQ_OK_COMPLETED, Some 1, Some (tiny_party c u (tiny_sender ms ts (x # drop 1 sb) 1 15 1 k k True) False sf ms' as rb rfb False))"
  using assms by (simp add: exec_tiny arq_send_def arq__send_wnd_send_def cong: bind_weak)

text \<open>A poll before the delay is over only counts.\<close>

lemma tiny_waits:
  assumes "use_connections b" "dt < k" "k < 1000"
  shows "backend_poll b (tiny_party c u (tiny_sender ms ts sb 1 15 1 k k True) False (tiny_frame sfb 0) ms' as rb rfb np) dt =
    Some (\<lparr>po_event = ARQ_EVENT_NONE, po_send_ready = False, po_recv_ready = False, po_next_poll = k - dt\<rparr>,
      tiny_party c u (tiny_sender ms ts sb 1 15 1 (k - dt) (k - dt) True) False (tiny_frame sfb 0) ms' as rb rfb False)"
  using assms by (simp add: exec_tiny closed_poll cong: bind_weak)

lemma tiny_flush:
  "arq_flush (Some (tiny_party c u (tiny_sender ms ts sb 1 15 1 k k True) False sf ms' as rb rfb np)) =
    Some (ARQ_OK_COMPLETED, Some (tiny_party c u (tiny_sender ms ts sb 1 1 1 0 k True) False sf ms' as rb rfb np))"
  by (simp add: exec_tiny arq_flush_def arq__send_wnd_flush_def cong: bind_weak)

lemma rd_taken: "take 1 (drop n xs) = [x] \<Longrightarrow> rd xs n = Some x"
  by (cases "n < length xs") (simp_all add: rd_def flip: Cons_nth_drop_Suc)

text \<open>The byte is sent by a poll behind a flush, or by the poll that ends its delay.\<close>

lemma tiny_emits:
  assumes "use_connections b" "length sb = 14079" "length sfb = 238" "256 \<le> length frame"
    and s: "full = 1 \<and> t = 0 \<and> 0 < k \<and> k < 1000 \<and> dt = 0 \<or> full = 15 \<and> t = 1 \<and> k = 1 \<and> dt = 1"
  shows "\<exists>o1 a1 frame' a2. backend_poll b (tiny_party c u (tiny_sender ms ts (x # sb) 1 full 1 t k True) False (tiny_frame sfb 0) ms' as rb rfb np) dt =
      Some (o1, a1) \<and> po_send_ready o1 \<and> test_drain a1 frame = Some (19, frame', a2) \<and>
    (\<exists>frame''. arq__frame_read b frame' 19 (cfg_checksum c) = Some (ARQ__FRAME_READ_RESULT_SUCCESS, tiny_hdr, 13, frame'') \<and> rd frame'' 13 = Some x)"
proof -
  obtain out where w: "arq__frame_write b tiny_hdr (Some (x # sb)) (cfg_checksum c) sfb 238 = Some (19, out)"
    "carries (cfg_checksum c) tiny_hdr [x] out 19"
    using carries_written [of tiny_hdr "Some (x # sb)" 238 sfb b "cfg_checksum c"] assms(2,3)
    by (auto simp: tiny_hdr_def arq__frame_hdr_init_def hdr_fits_def seg_readable_def seg_bytes_def)
  have "\<exists>o1 a1. backend_poll b (tiny_party c u (tiny_sender ms ts (x # sb) 1 full 1 t k True) False (tiny_frame sfb 0) ms' as rb rfb np) dt =
      Some (o1, a1) \<and> po_send_ready o1 \<and> sf_buf (a_send_frame a1) = out \<and> sf_len (a_send_frame a1) = 19"
    using s assms(1-3) w(1) by (elim disjE; intro exI conjI) (simp add: exec_tiny closed_poll cong: bind_weak; fail)+
  then obtain o1 a1 where 1: "backend_poll b (tiny_party c u (tiny_sender ms ts (x # sb) 1 full 1 t k True) False (tiny_frame sfb 0) ms' as rb rfb np) dt =
      Some (o1, a1)" "po_send_ready o1" "carries (cfg_checksum c) tiny_hdr [x] (sf_buf (a_send_frame a1)) (sf_len (a_send_frame a1))"
    "sf_len (a_send_frame a1) = 19"
    using w(2) by auto
  obtain frame' where 2: "test_drain a1 frame = Some (19, frame',
      a1\<lparr>a_send_frame := (a_send_frame a1)\<lparr>sf_len := 0, sf_state := ARQ__SEND_FRAME_STATE_RELEASED\<rparr>, a_need_poll := True\<rparr>)"
    "carries (cfg_checksum c) tiny_hdr [x] frame' 19"
    using test_drain_ok [OF 1(3) assms(4)] 1(4) by auto
  obtain frame'' where 3: "arq__frame_read b frame' 19 (cfg_checksum c) = Some (ARQ__FRAME_READ_RESULT_SUCCESS, tiny_hdr, 13, frame'')"
    "take (h_seg_len tiny_hdr) (drop 13 frame'') = [x]"
    using carries_read [OF 2(2), of b] by blast
  have "take 1 (drop 13 frame'') = [x]" using 3(2) by (simp add: tiny_hdr_def)
  from rd_taken [OF this] 1(1,2) 2(1) 3(1) show ?thesis by blast
qed

lemma tiny_start:
  assumes c: "cfg_sound c" "send_window_size_in_messages c = 16" "recv_window_size_in_messages c = 16"
      "message_length_in_segments c = 4" "segment_length_in_bytes c = 220"
    and s: "abi_ok abi" "required_bytes abi c < 2 ^ 32" "arrays_fit c (snd seat)" "0 < fst seat" and b: "use_connections b"
  shows "\<exists>u sb sfb rb rfb ms ts as. ArqContext b abi seat c = Some (tiny_party c u (tiny_sender ms ts sb 0 15 0 0 0 False) False
      (tiny_frame sfb 0) ms as rb rfb False) \<and> length sb = 14080 \<and> length sfb = 238"
  using ArqContext_fresh [OF c(1) s b] c(2-5)
  by (auto simp: tiny_party_def tiny_sender_def tiny_frame_def first_wnd_def fresh_wnd_def closed_def replicate_Suc [of 15, simplified])

section \<open>The tests pass\<close>

lemma flush_cfg_sound: "cfg_ranges c \<Longrightarrow> cfg_sound (flush_cfg c)"
  by (simp add: cfg_sound_def flush_cfg_def arq__check_cfg_def cfg_ranges_def geometry_ok_def)

lemma tinygram_cfg_sound: "cfg_ranges c \<Longrightarrow> cfg_sound (tinygram_cfg c)"
  by (simp add: cfg_sound_def tinygram_cfg_def arq__check_cfg_def cfg_ranges_def geometry_ok_def)

lemma tiny_cfg_sel [simp]:
  "segment_length_in_bytes (flush_cfg c) = 220" "message_length_in_segments (flush_cfg c) = 4"
  "send_window_size_in_messages (flush_cfg c) = 16" "recv_window_size_in_messages (flush_cfg c) = 16"
  "tinygram_send_delay (flush_cfg c) = 220" "cfg_checksum (flush_cfg c) = crc32_checksum"
  "segment_length_in_bytes (tinygram_cfg c) = 220" "message_length_in_segments (tinygram_cfg c) = 4"
  "send_window_size_in_messages (tinygram_cfg c) = 16" "recv_window_size_in_messages (tinygram_cfg c) = 16"
  "tinygram_send_delay (tinygram_cfg c) = 50" "cfg_checksum (tinygram_cfg c) = crc32_checksum"
  by (simp_all add: flush_cfg_def tinygram_cfg_def)

lemma flush_tinygram_passes:
  assumes b: "use_connections b" and cfg: "cfg_ranges cfg0" "abi_ok abi" "required_bytes abi (flush_cfg cfg0) < 2 ^ 32"
    and mem: "arrays_fit (flush_cfg cfg0) (snd seat)" "0 < fst seat" "256 \<le> length frame"
  shows "flush_tinygram b abi cfg0 seat frame = Some ()"
proof -
  let ?c = "flush_cfg cfg0"
  obtain u sb sfb rb rfb ms ts as where 0: "ArqContext b abi seat ?c = Some (tiny_party ?c u (tiny_sender ms ts sb 0 15 0 0 0 False) False
      (tiny_frame sfb 0) ms as rb rfb False)" "length sb = 14080" "length sfb = 238"
    using tiny_start [OF flush_cfg_sound [OF cfg(1)] tiny_cfg_sel(3,4,2,1) cfg(2,3) mem(1,2) b] by blast
  have "length (drop 1 sb) = 14079" using 0(2) by simp
  from tiny_emits [where full = 1 and t = 0 and k = 220 and dt = 0 and c = ?c and u = u and ms = ms and ts = ts and x = "0xA5" and ms' = ms
      and as = as and rb = rb and rfb = rfb and np = False, OF b this 0(3) mem(3)]
  obtain o1 a1 f1 a2 f2 where 1:
    "backend_poll b (tiny_party ?c u (tiny_sender ms ts (0xA5 # drop 1 sb) 1 1 1 0 220 True) False (tiny_frame sfb 0) ms as rb rfb False) 0 =
      Some (o1, a1)" "po_send_ready o1" "test_drain a1 frame = Some (19, f1, a2)"
    "arq__frame_read b f1 19 (cfg_checksum ?c) = Some (ARQ__FRAME_READ_RESULT_SUCCESS, tiny_hdr, 13, f2)" "rd f2 13 = Some 0xA5"
    by auto
  have 2: "backend_poll b (tiny_party ?c u (tiny_sender ms ts (0xA5 # drop 1 sb) 1 15 1 220 220 True) False (tiny_frame sfb 0) ms as rb rfb False) 0 =
    Some (\<lparr>po_event = ARQ_EVENT_NONE, po_send_ready = False, po_recv_ready = False, po_next_poll = 220\<rparr>,
      tiny_party ?c u (tiny_sender ms ts (0xA5 # drop 1 sb) 1 15 1 220 220 True) False (tiny_frame sfb 0) ms as rb rfb False)"
    using tiny_waits [of b 0 220] b by simp
  show ?thesis
    unfolding flush_tinygram_def
    using 1(4) by (simp del: One_nat_def add: test_poll_eq Let_def 0(1) 1(1-3,5) 2 tiny_send [OF 0(2) tiny_cfg_sel(5)] tiny_flush arq__frame_len_ok
      ARQ_SUCCEEDED_iff cong: bind_weak)
qed

lemma poll_until_tinygram_sends_passes:
  assumes b: "use_connections b" and cfg: "cfg_ranges cfg0" "abi_ok abi" "required_bytes abi (tinygram_cfg cfg0) < 2 ^ 32"
    and mem: "arrays_fit (tinygram_cfg cfg0) (snd seat)" "0 < fst seat" "256 \<le> length decode_buf"
  shows "poll_until_tinygram_sends b abi cfg0 seat decode_buf = Some ()"
proof -
  let ?c = "tinygram_cfg cfg0"
  obtain u sb sfb rb rfb ms ts as where 0: "ArqContext b abi seat ?c = Some (tiny_party ?c u (tiny_sender ms ts sb 0 15 0 0 0 False) False
      (tiny_frame sfb 0) ms as rb rfb False)" "length sb = 14080" "length sfb = 238"
    using tiny_start [OF tinygram_cfg_sound [OF cfg(1)] tiny_cfg_sel(9,10,8,7) cfg(2,3) mem(1,2) b] by blast
  let ?a = "\<lambda>k. tiny_party ?c u (tiny_sender ms ts (0x5A # drop 1 sb) 1 15 1 k k True) False (tiny_frame sfb 0) ms as rb rfb False"
  define body where "body = (\<lambda>i ctx. do {
       (out, ctx) \<leftarrow> test_poll b ctx 1;
       CHECK (\<not> po_send_ready out);
       CHECK (po_next_poll out = tinygram_send_delay ?c - i - 1);
       Some ctx
     })"
  have loop: "for_range 0 49 body (?a 50) = Some (?a 1)"
    using for_range_inv [where P = "\<lambda>i s. s = ?a (50 - i)" and i = 0 and n = 49 and f = body and s = "?a 50"]
      tiny_waits [where dt = 1, OF b] by (auto simp: body_def test_poll_eq)
  have "length (drop 1 sb) = 14079" using 0(2) by simp
  from tiny_emits [where full = 15 and t = 1 and k = 1 and dt = 1 and c = ?c and u = u and ms = ms and ts = ts and x = "0x5A" and ms' = ms
      and as = as and rb = rb and rfb = rfb and np = False, OF b this 0(3) mem(3)]
  obtain o1 a1 f1 a2 f2 where 1: "backend_poll b (?a 1) 1 = Some (o1, a1)" "po_send_ready o1" "test_drain a1 decode_buf = Some (19, f1, a2)"
    "arq__frame_read b f1 19 (cfg_checksum ?c) = Some (ARQ__FRAME_READ_RESULT_SUCCESS, tiny_hdr, 13, f2)" "rd f2 13 = Some 0x5A"
    by auto
  have h: "h_seg_len tiny_hdr = 1" by (simp add: tiny_hdr_def)
  show ?thesis
    unfolding poll_until_tinygram_sends_def Let_def body_def [symmetric]
    using 1(4) loop by (simp del: One_nat_def add: test_poll_eq 0(1) 1(1-3,5) h tiny_send [OF 0(2) tiny_cfg_sel(11)]
      ARQ_SUCCEEDED_iff cong: bind_weak)
qed

text \<open>
  C24. The tests of frames and of tinygrams pass, whatever the memory and the unset configuration fields hold:
  frames of every length from 0 to 238 are read as they were written in one reused buffer, one byte is sent
  behind a flush, and without a flush by exactly the poll that ends its delay.
\<close>

theorem frame_tests_pass:
  assumes "use_connections b" "cfg_ranges cfg" "abi_ok abi"
    and "required_bytes abi (flush_cfg cfg) < 2 ^ 32" "required_bytes abi (tinygram_cfg cfg) < 2 ^ 32"
    and "seat_ok (flush_cfg cfg) seat1" "seat_ok (tinygram_cfg cfg) seat2" "length frame = 256"
  shows "(\<exists>frame'. frame_serialization b frame = Some frame') \<and>
    flush_tinygram b abi cfg seat1 frame = Some () \<and> poll_until_tinygram_sends b abi cfg seat2 frame = Some ()"
  using assms unfolding seat_ok_def
  by (intro conjI frame_serialization_passes flush_tinygram_passes poll_until_tinygram_sends_passes) simp_all

lemma frame_tests_pass_witness:
  "(\<exists>frame'. frame_serialization le_build (replicate 256 1) = Some frame') \<and>
   flush_tinygram le_build demo_abi demo_cfg (4096, blank_mem (flush_cfg demo_cfg)) (replicate 256 1) = Some () \<and>
   poll_until_tinygram_sends le_build demo_abi demo_cfg (4096, blank_mem (tinygram_cfg demo_cfg)) (replicate 256 1) = Some ()"
proof (rule frame_tests_pass [OF _ demo_cfg_ranges demo_abi_ok _ _ blank_seat blank_seat])
  show "required_bytes demo_abi (flush_cfg demo_cfg) < 2 ^ 32" "required_bytes demo_abi (tinygram_cfg demo_cfg) < 2 ^ 32"
    by (simp_all add: required_bytes_def requests_def demo_abi_def flush_cfg_def tinygram_cfg_def demo_cfg_def align_up_def)
qed (simp_all add: le_build_def)

end
