(* ===== verification/Arq_Receive.thy ===== *)
theory Arq_Receive imports Arq_Exec Arq_Arrived begin

text \<open>
  Receiving at the public interface: frames filled in with \<open>arq_backend_recv_fill\<close>, each followed by a
  poll, and the bytes \<open>arq_recv\<close> returns. What \<open>Arq_Reassembly\<close> proves of the receive window is carried
  to a whole object, through the receive frame, the checksum and all stages of the poll.
\<close>

section \<open>Complete messages\<close>

text \<open>A message all of whose segments are there is complete.\<close>

lemma bits_all:
  fixes v :: nat
  assumes "v < 2 ^ n" "\<And>s. s < n \<Longrightarrow> bit v s"
  shows "v = 2 ^ n - 1"
proof -
  have "bit v s \<longleftrightarrow> s < n" for s using assms bit_nat_less [of v s n] by blast
  then have "v = mask n" by (intro bit_eqI) (simp add: bit_mask_iff)
  then show ?thesis by (simp add: mask_eq_exp_minus_1)
qed

lemma arrived_complete:
  assumes h: "recv_holds msgs base rw" and m: "base + r_slide rw \<le> m" "m < base + r_slide rw + w_cap (r_w rw)"
    and all: "\<And>s. s < seg_count (r_w rw) (length (msgs m)) \<Longrightarrow> (m, s) \<in> arrived msgs base rw"
  shows "m < base + w_size (r_w rw)" "complete_msg (msg_at (r_w rw) (m - base))"
    "m_cur_ack_vec (msg_at (r_w rw) (m - base)) = 2 ^ seg_count (r_w rw) (length (msgs m)) - 1"
proof -
  let ?w = "r_w rw" let ?n = "seg_count (r_w rw) (length (msgs m))" let ?v = "m_cur_ack_vec (msg_at (r_w rw) (m - base))"
  note hd = recv_holdsD [OF h]
  have wok: "wnd_ok ?w" by (rule recv_wnd_okD(1) [OF hd(1)])
  have n: "1 \<le> ?n" by (rule fits_seg_count(1) [OF wok hd(6)])
  have seg: "has_seg rw m s" if "s < ?n" for s using all [OF that] m(1) by (simp add: arrived_def)
  have k: "slot ?w (m - base) = m mod w_cap ?w" using m by (simp add: holds_slot [OF h])
  show lt: "m < base + w_size ?w" using has_seg_bound(2) [OF h m seg [of 0]] n by simp
  have i: "m - base < w_cap ?w" "r_slide rw \<le> m - base" "m - base < w_size ?w" "base + (m - base) = m"
    using lt m(1) wnd_okD(12) [OF wok] by auto
  have part: "partial ?w (slot ?w (m - base)) (msgs m)" using hd(7) [OF i(1-3)] i(4) by simp
  show vec: "?v = 2 ^ ?n - 1"
    using part seg by (intro bits_all) (simp_all add: partial_def Let_def has_seg_def k)
  moreover have "(2 :: nat) ^ 1 \<le> 2 ^ ?n" using n by (intro power_increasing) auto
  ultimately show "complete_msg (msg_at ?w (m - base))"
    using part vec by (simp add: complete_msg_def partial_def Let_def)
qed

lemma avail_arrived:
  assumes h: "recv_holds msgs base rw" and k: "k \<le> w_cap (r_w rw)"
    and all: "\<And>m s. base + r_slide rw \<le> m \<Longrightarrow> m < base + r_slide rw + k \<Longrightarrow>
      s < seg_count (r_w rw) (length (msgs m)) \<Longrightarrow> (m, s) \<in> arrived msgs base rw"
    and ofs: "r_copy_ofs rw = 0"
  shows "\<exists>zs. avail msgs base rw = concat (map msgs [base + r_slide rw..<base + r_slide rw + k]) @ zs"
proof -
  let ?w = "r_w rw" and ?c = "\<lambda>i. complete_msg (msg_at (r_w rw) i)"
  have c: "m < base + w_size ?w" "?c (m - base)" if "base + r_slide rw \<le> m" "m < base + r_slide rw + k" for m
    using arrived_complete [OF h that(1) _ all [OF that]] that k by auto
  have le: "r_slide rw + k \<le> w_size ?w"
    using c(1) [of "base + r_slide rw + k - 1"] recv_holdsD(4) [OF h] by (cases k) auto
  let ?xs = "[r_slide rw..<r_slide rw + k]" and ?ys = "[r_slide rw + k..<w_size ?w]"
  have split: "[r_slide rw..<w_size ?w] = ?xs @ ?ys"
    using upt_add_eq_append [of "r_slide rw" "r_slide rw + k" "w_size ?w - (r_slide rw + k)"] le by simp
  have "?c i" if "i \<in> set ?xs" for i using c(2) [of "base + i"] that by simp
  then have tw: "takeWhile ?c [r_slide rw..<w_size ?w] = ?xs @ takeWhile ?c ?ys"
    unfolding split by (rule takeWhile_append2)
  have "map (\<lambda>i. msgs (base + i)) [r_slide rw..<r_slide rw + k] =
      map msgs [base + r_slide rw..<base + r_slide rw + k]"
    by (rule nth_equalityI) (simp_all add: add.assoc)
  then show ?thesis by (simp add: avail_def ofs tw)
qed

section \<open>An object that receives\<close>

text \<open>
  The object holds, from message \<open>base\<close> on, what has arrived of \<open>msgs\<close>; it sends no data itself, its receive
  frame is open and it was polled. The connection may be in any state.
\<close>

definition receives :: "(nat \<Rightarrow> byte list) \<Rightarrow> nat \<Rightarrow> arq_t \<Rightarrow> bool" where
  "receives msgs base a \<longleftrightarrow> arq_ok a \<and> quiet (a_send_wnd a) (a_send_wnd_ptr a) \<and>
     recv_holds msgs base (a_recv_wnd a) \<and> \<not> rf_full (a_recv_frame a) \<and> rf_len (a_recv_frame a) = 0 \<and> \<not> a_need_poll a"

lemma receivesD:
  assumes "receives msgs base a"
  shows "arq_ok a" "quiet (a_send_wnd a) (a_send_wnd_ptr a)" "recv_holds msgs base (a_recv_wnd a)"
    "\<not> rf_full (a_recv_frame a)" "rf_len (a_recv_frame a) = 0" "\<not> a_need_poll a"
  using assms by (simp_all add: receives_def)

text \<open>The number of the next message to read, and what did not change since: the sizes, and a read offset of 0.\<close>

abbreviation next_msg :: "nat \<Rightarrow> arq_t \<Rightarrow> nat" where
  "next_msg base a \<equiv> base + r_slide (a_recv_wnd a)"

definition same_shape :: "arq_t \<Rightarrow> arq_t \<Rightarrow> bool" where
  "same_shape a a' \<longleftrightarrow> a_cfg a' = a_cfg a \<and> w_cap (r_w (a_recv_wnd a')) = w_cap (r_w (a_recv_wnd a)) \<and>
     w_seg_len (r_w (a_recv_wnd a')) = w_seg_len (r_w (a_recv_wnd a)) \<and>
     r_copy_ofs (a_recv_wnd a') = r_copy_ofs (a_recv_wnd a)"

lemma same_shape_trans: "same_shape a a' \<Longrightarrow> same_shape a' a'' \<Longrightarrow> same_shape a a''"
  by (simp add: same_shape_def)

text \<open>The header of segment \<open>s\<close> of message \<open>m\<close>.\<close>

definition names_segment :: "(nat \<Rightarrow> byte list) \<Rightarrow> arq__wnd_t \<Rightarrow> nat \<Rightarrow> nat \<Rightarrow> arq__frame_hdr_t \<Rightarrow> bool" where
  "names_segment msgs w m s h \<longleftrightarrow> s < seg_count w (length (msgs m)) \<and> hdr_fits h \<and> h_seg h \<and> h_seq_num h = m mod 4096 \<and>
     h_seg_id h = s \<and> h_msg_len h = seg_count w (length (msgs m))"

lemma names_segment_cong: "w_seg_len w' = w_seg_len w \<Longrightarrow> names_segment msgs w' m s h = names_segment msgs w m s h"
  using seg_count_cong [of w' w] by (simp add: names_segment_def)

lemma same_content_arrived:
  assumes "same_content rw rw'"
  shows "arrived msgs base rw' = arrived msgs base rw"
  using assms by (simp add: same_content_def arrived_def has_seg_def)

text \<open>Filling a frame in.\<close>

lemma fill_segment:
  assumes r: "receives msgs base a"
    and c: "carries (cfg_checksum (a_cfg a)) h (msg_seg (w_seg_len (r_w (a_recv_wnd a))) M s) frame n"
  shows "\<exists>rf. test_fill a frame n = Some (a\<lparr>a_recv_frame := rf, a_need_poll := True\<rparr>) \<and> rf_full rf \<and> recv_frame_ok rf \<and>
    rf_cap rf = rf_cap (a_recv_frame a) \<and>
    carries (cfg_checksum (a_cfg a)) h (msg_seg (w_seg_len (r_w (a_recv_wnd a))) M s) (rf_buf rf) (rf_len rf)"
proof -
  note d = receivesD [OF r] and ok = arq_okD [OF receivesD(1) [OF r]]
  have "h_seg_len h = length (msg_seg (w_seg_len (r_w (a_recv_wnd a))) M s)" using c by (simp add: carries_def)
  then have "n \<le> rf_cap (a_recv_frame a)" using carries_length [OF c] ok(7) by (simp add: length_msg_seg)
  from carries_fill [OF c ok(6) d(5) this] obtain rf where
    "arq__recv_frame_fill (a_recv_frame a) frame n = Some (n, rf)" "rf_full rf" "recv_frame_ok rf" "rf_len rf = n"
    "rf_cap rf = rf_cap (a_recv_frame a)"
    "carries (cfg_checksum (a_cfg a)) h (msg_seg (w_seg_len (r_w (a_recv_wnd a))) M s) (rf_buf rf) n"
    by blast
  then show ?thesis by (auto simp: test_fill_def arq_backend_recv_fill_def ARQ_SUCCEEDED_iff)
qed

text \<open>What the last segment of a message asks for, and the position of the window.\<close>

lemma frame_keeps_front:
  "arq__recv_wnd_frame b rw seq seg cnt p n t = Some (k, rw') \<Longrightarrow> r_slide rw = 0 \<Longrightarrow> r_slide rw' = 0"
  by (auto simp: arq__recv_wnd_frame_def recv_wnd_make_room_def recv_wnd_store_def Let_def bind_Some_iff split: if_splits)

lemma last_segment_flagged:
  fixes s :: nat
  assumes h: "recv_holds msgs base rw" and m: "base + r_slide rw \<le> m" "m < base + r_slide rw + w_cap (r_w rw)"
  defines "n \<equiv> seg_count (r_w rw) (length (msgs m))"
  defines "p \<equiv> msg_seg (w_seg_len (r_w rw)) (msgs m) s"
  assumes s: "s = n - 1" and r: "arq__recv_wnd_frame b rw (m mod 4096) s n p (length p) t = Some (k, rw')"
  shows "\<exists>j < w_size (r_w rw'). r_ack rw' ! slot (r_w rw') j"
proof -
  have d: "r_slide rw \<le> m - base" "m - base < w_cap (r_w rw) + r_slide rw" "base + (m - base) = m" using m by auto
  from make_room_holds [OF h d(1,2)] d(3) obtain rw1 base1 where mr: "recv_wnd_make_room rw (m mod 4096) = Some rw1"
    "recv_holds msgs base1 rw1" "base1 \<le> m" "m < base1 + w_size (r_w rw1)" "w_cap (r_w rw1) = w_cap (r_w rw)"
    "w_seg_len (r_w rw1) = w_seg_len (r_w rw)"
    by auto
  note ok = recv_holdsD(1) [OF mr(2)]
  note w = recv_wnd_okD [OF ok]
  have cnt: "seg_count (r_w rw1) (length (msgs m)) = n" using mr(6) by (simp add: n_def seg_count_def)
  note f = fits_seg_count [OF w(1) recv_holdsD(6) [OF mr(2)], of m, unfolded cnt]
  have len: "length p \<le> w_seg_len (r_w rw1)" "length p \<le> w_seg_len (r_w rw)" by (simp_all add: p_def length_msg_seg mr(6))
  have "(2 :: nat) ^ n \<le> 2 ^ 16" using f(3) by (intro power_increasing) simp_all
  then have full: "2 ^ n - 1 < (65536 :: nat)" by simp
  let ?k = "m mod 4096 mod w_cap (r_w rw1)"
  have k: "?k < length (r_ack rw1)" using w(1,2) by (simp add: wnd_okD)
  have "recv_wnd_store rw1 (m mod 4096) s n (2 ^ n - 1) p (length p) t = Some (k, rw')"
    using r mr(1) recv_wnd_frame_run [OF f(3) len(2)] by simp
  moreover have "s < segs (r_w rw1)" using f(1,2) s by simp
  ultimately have "r_ack rw' ! ?k" "w_size (r_w rw') = w_size (r_w rw1)" "slot (r_w rw') = slot (r_w rw1)"
    using recv_wnd_store_eq [OF ok _ len(1) f(1) _ full, where seg = s and seq = "m mod 4096" and t = t] f(3) s k
    by (auto simp: stored_def Let_def slot_def fun_eq_iff split: if_splits)
  moreover have "?k = slot (r_w rw1) (m - base1)"
  proof -
    have "w_cap (r_w rw1) dvd 4096" using wnd_okD [OF w(1)] by blast
    then show ?thesis using mr(3) by (simp add: holds_slot [OF mr(2)] mod_mod_cancel)
  qed
  moreover have "m - base1 < w_size (r_w rw1)" using mr(3,4) by simp
  ultimately show ?thesis by (intro exI [of _ "m - base1"]) simp
qed

text \<open>A segment that is new sets the request of its message when it is the last one, and the timer if not.\<close>

lemma new_segment_flags:
  fixes s :: nat
  assumes h: "recv_holds msgs base rw" and m: "base + r_slide rw \<le> m" "m < base + r_slide rw + w_cap (r_w rw)"
  defines "n \<equiv> seg_count (r_w rw) (length (msgs m))"
  defines "p \<equiv> msg_seg (w_seg_len (r_w rw)) (msgs m) s"
  assumes s: "s < n" "\<not> has_seg rw m s" and r: "arq__recv_wnd_frame b rw (m mod 4096) s n p (length p) t = Some (k, rw')"
  shows "r_ack rw' = (if s = n - 1 then (r_ack rw)[m mod w_cap (r_w rw) := True] else r_ack rw)"
    "r_inter_seg_ack_on rw' = (s \<noteq> n - 1)" "s \<noteq> n - 1 \<longrightarrow> r_inter_seg_ack rw' = t"
proof -
  have d: "r_slide rw \<le> m - base" "m - base < w_cap (r_w rw) + r_slide rw" "base + (m - base) = m" using m by auto
  from make_room_holds [OF h d(1,2)] d(3) obtain rw1 base1 where mr: "recv_wnd_make_room rw (m mod 4096) = Some rw1"
    "recv_holds msgs base1 rw1" "w_msg (r_w rw1) = w_msg (r_w rw)" "w_cap (r_w rw1) = w_cap (r_w rw)"
    "w_seg_len (r_w rw1) = w_seg_len (r_w rw)"
    by auto
  have ack: "r_ack rw1 = r_ack rw"
    using mr(1) by (auto simp: recv_wnd_make_room_def Let_def split: if_splits)
  note ok = recv_holdsD(1) [OF mr(2)]
  note w = recv_wnd_okD [OF ok]
  have "seg_count (r_w rw1) (length (msgs m)) = n" using mr(5) by (simp add: n_def seg_count_def)
  note f = fits_seg_count [OF w(1) recv_holdsD(6) [OF mr(2)], of m, unfolded this]
  have len: "length p \<le> w_seg_len (r_w rw1)" "length p \<le> w_seg_len (r_w rw)" by (simp_all add: p_def length_msg_seg mr(5))
  have "(2 :: nat) ^ n \<le> 2 ^ 16" using f(3) by (intro power_increasing) simp_all
  then have full: "2 ^ n - 1 < (65536 :: nat)" by simp
  have seq: "m mod 4096 mod w_cap (r_w rw1) = m mod w_cap (r_w rw)"
    using wnd_okD(2) [OF w(1)] mr(4) by (simp add: mod_mod_cancel)
  have "\<not> bit (m_cur_ack_vec (w_msg (r_w rw1) ! (m mod 4096 mod w_cap (r_w rw1)))) s"
    unfolding seq using s(2) mr(3) by (simp add: has_seg_def)
  moreover have "recv_wnd_store rw1 (m mod 4096) s n (2 ^ n - 1) p (length p) t = Some (k, rw')"
    using r mr(1) recv_wnd_frame_run [OF f(3) len(2)] by simp
  moreover have "s < segs (r_w rw1)" using f(2) s(1) by simp
  ultimately have "rw' = stored rw1 (m mod 4096) s n (2 ^ n - 1) p t"
    using recv_wnd_store_eq [OF ok _ len(1) f(1) _ full, where seg = s and seq = "m mod 4096" and t = t] f(3) by simp
  then show "r_ack rw' = (if s = n - 1 then (r_ack rw)[m mod w_cap (r_w rw) := True] else r_ack rw)"
    "r_inter_seg_ack_on rw' = (s \<noteq> n - 1)" "s \<noteq> n - 1 \<longrightarrow> r_inter_seg_ack rw' = t"
    using ack seq by (auto simp: stored_def Let_def)
qed

text \<open>The receiving half of the poll behind it.\<close>

lemma take_segment:
  assumes h: "recv_holds msgs base rw" and m: "base + r_slide rw \<le> m" "m < base + r_slide rw + w_cap (r_w rw)"
    and n: "names_segment msgs (r_w rw) m s h" and t: "t < 2 ^ 32"
    and rf: "rf_full rf" "recv_frame_ok rf" "carries cs h (msg_seg (w_seg_len (r_w rw)) (msgs m) s) (rf_buf rf) (rf_len rf)"
  shows "\<exists>rw' rf' base'. recv_poll_frame b rw rf cs rh t = Some (rw', rf', h) \<and> recv_holds msgs base' rw' \<and>
    base' + r_slide rw' = base + r_slide rw \<and> r_copy_ofs rw' = r_copy_ofs rw \<and> w_cap (r_w rw') = w_cap (r_w rw) \<and>
    w_seg_len (r_w rw') = w_seg_len (r_w rw) \<and> arrived msgs base' rw' = insert (m, s) (arrived msgs base rw) \<and>
    (r_slide rw = 0 \<longrightarrow> r_slide rw' = 0) \<and>
    (s = seg_count (r_w rw) (length (msgs m)) - 1 \<longrightarrow> (\<exists>j < w_size (r_w rw'). r_ack rw' ! slot (r_w rw') j)) \<and>
    (\<not> has_seg rw m s \<longrightarrow>
      r_ack rw' = (if s = seg_count (r_w rw) (length (msgs m)) - 1 then (r_ack rw)[m mod w_cap (r_w rw) := True] else r_ack rw) \<and>
      r_inter_seg_ack_on rw' = (s \<noteq> seg_count (r_w rw) (length (msgs m)) - 1) \<and>
      (s \<noteq> seg_count (r_w rw) (length (msgs m)) - 1 \<longrightarrow> r_inter_seg_ack rw' = t)) \<and>
    recv_frame_ok rf' \<and> \<not> rf_full rf' \<and> rf_len rf' = 0 \<and> rf_cap rf' = rf_cap rf"
proof -
  let ?p = "msg_seg (w_seg_len (r_w rw)) (msgs m) s"
  obtain buf where buf: "arq__frame_read b (rf_buf rf) (rf_len rf) cs = Some (ARQ__FRAME_READ_RESULT_SUCCESS, h, 13, buf)"
    "take (h_seg_len h) (drop 13 buf) = ?p" "length buf = length (rf_buf rf)"
    using carries_read [OF rf(3)] by blast
  have len: "h_seg_len h = length ?p" "13 + h_seg_len h \<le> length (rf_buf rf)"
    using rf(3) carries_length [OF rf(3)] by (simp_all add: carries_def)
  have "s < seg_count (r_w rw) (length (msgs m))" using n by (simp add: names_segment_def)
  from arrived_frame [OF h m this t, of b] obtain k rw' base' where
    r: "arq__recv_wnd_frame b rw (m mod 4096) s (seg_count (r_w rw) (length (msgs m))) ?p (length ?p) t = Some (k, rw')"
      "recv_holds msgs base' rw'" "base' + r_slide rw' = base + r_slide rw" "r_copy_ofs rw' = r_copy_ofs rw"
      "w_cap (r_w rw') = w_cap (r_w rw)" "w_seg_len (r_w rw') = w_seg_len (r_w rw)"
      "arrived msgs base' rw' = insert (m, s) (arrived msgs base rw)"
    by blast
  have "arq__recv_wnd_frame b rw (h_seq_num h) (h_seg_id h) (h_msg_len h) (take (h_seg_len h) (drop 13 buf)) (h_seg_len h) t =
      Some (k, rw')"
    using r(1) n buf(2) len(1) by (simp add: names_segment_def)
  then have "recv_poll_frame b rw rf cs rh t = Some (rw', frame_taken rf buf, h)"
    using n len(2) buf(3) by (intro recv_poll_segment [OF rf(1) buf(1)]) (simp_all add: names_segment_def)
  then show ?thesis
    using r(2-7) frame_taken_ok [OF rf(2) buf(3)] frame_keeps_front [OF r(1)] last_segment_flagged [OF h m _ r(1)]
      new_segment_flags [OF h m _ _ r(1)] n
    by (intro exI [of _ rw'] exI [of _ "frame_taken rf buf"] exI [of _ base'])
      (simp add: frame_taken_def arq__recv_frame_rst_def names_segment_def)
qed

text \<open>
  What a poll reports: data to read when the next message is complete and first in the window, and a frame to
  send when there was one or an acknowledgement is owed.
\<close>

lemma pending_arrived:
  assumes h: "recv_holds msgs base rw" and z: "r_slide rw = 0"
    and all: "\<forall>s < seg_count (r_w rw) (length (msgs base)). (base, s) \<in> arrived msgs base rw"
  shows "arq__recv_wnd_pending rw = Some True"
proof -
  have w: "wnd_ok (r_w rw)" using recv_holdsD(1) [OF h] by (rule recv_wnd_okD)
  note ok = wnd_okD [OF w]
  have "base < base + w_size (r_w rw)" "complete_msg (msg_at (r_w rw) (base - base))"
    using arrived_complete [OF h, of base] all z ok(1) by simp_all
  then show ?thesis using ok(1,9) by (simp add: arq__recv_wnd_pending_def complete_msg_def slot_def umod_pos rd_ok)
qed

definition can_send :: "arq_t \<Rightarrow> bool" where
  "can_send a \<longleftrightarrow> sf_len (a_send_frame a) \<noteq> 0 \<or> poll_hdr (a_send_frame a) \<noteq> None"

lemma receive_segment:
  assumes r: "receives msgs base a" and m: "next_msg base a \<le> m" "m < next_msg base a + w_cap (r_w (a_recv_wnd a))"
    and n: "names_segment msgs (r_w (a_recv_wnd a)) m s h"
    and c: "carries (cfg_checksum (a_cfg a)) h (msg_seg (w_seg_len (r_w (a_recv_wnd a))) (msgs m) s) frame k"
  shows "\<exists>a1 out a' base'. test_fill a frame k = Some a1 \<and> test_poll b a1 dt = Some (out, a') \<and> receives msgs base' a' \<and>
    next_msg base' a' = next_msg base a \<and> same_shape a a' \<and>
    arrived msgs base' (a_recv_wnd a') = insert (m, s) (arrived msgs base (a_recv_wnd a)) \<and>
    (r_slide (a_recv_wnd a) = 0 \<longrightarrow> r_slide (a_recv_wnd a') = 0) \<and>
    (r_slide (a_recv_wnd a) = 0 \<and> (\<forall>s < seg_count (r_w (a_recv_wnd a)) (length (msgs base)).
      (base, s) \<in> arrived msgs base' (a_recv_wnd a')) \<longrightarrow> po_recv_ready out) \<and>
    (can_send a \<and> s = seg_count (r_w (a_recv_wnd a)) (length (msgs m)) - 1 \<longrightarrow> po_send_ready out \<and> can_send a')"
proof -
  note d = receivesD [OF r] and ok = arq_okD [OF receivesD(1) [OF r]]
  have t: "inter_segment_timeout (a_cfg a) < 2 ^ 32" using ok(1) by (simp add: cfg_ranges_def)
  obtain rf where f: "test_fill a frame k = Some (a\<lparr>a_recv_frame := rf, a_need_poll := True\<rparr>)" "rf_full rf" "recv_frame_ok rf"
    "rf_cap rf = rf_cap (a_recv_frame a)"
    "carries (cfg_checksum (a_cfg a)) h (msg_seg (w_seg_len (r_w (a_recv_wnd a))) (msgs m) s) (rf_buf rf) (rf_len rf)"
    using fill_segment [OF r c] by blast
  let ?a = "a\<lparr>a_recv_frame := rf, a_need_poll := True\<rparr>"
  obtain rw1 rf1 base' where s: "recv_poll_frame b (a_recv_wnd ?a) (a_recv_frame ?a) (cfg_checksum (a_cfg ?a)) arq__frame_hdr_init
      (inter_segment_timeout (a_cfg ?a)) = Some (rw1, rf1, h)" "recv_holds msgs base' rw1"
    "base' + r_slide rw1 = next_msg base a" "r_copy_ofs rw1 = r_copy_ofs (a_recv_wnd a)"
    "w_cap (r_w rw1) = w_cap (r_w (a_recv_wnd a))" "w_seg_len (r_w rw1) = w_seg_len (r_w (a_recv_wnd a))"
    "arrived msgs base' rw1 = insert (m, s) (arrived msgs base (a_recv_wnd a))"
    "r_slide (a_recv_wnd a) = 0 \<longrightarrow> r_slide rw1 = 0"
    "s = seg_count (r_w (a_recv_wnd a)) (length (msgs m)) - 1 \<longrightarrow> (\<exists>j < w_size (r_w rw1). r_ack rw1 ! slot (r_w rw1) j)"
    "recv_frame_ok rf1" "\<not> rf_full rf1" "rf_len rf1 = 0" "rf_cap rf1 = rf_cap rf"
    using take_segment [OF d(3) m n t f(2,3,5), of b arq__frame_hdr_init] by (simp del: insert_iff) (elim exE conjE)
  have "arq_ok ?a" using d(1) f(3,4) by (simp add: arq_ok_def)
  moreover have "h_cur_ack_vec h < 4096" using n by (simp add: names_segment_def hdr_fits_def)
  ultimately obtain out a' where p: "backend_poll b ?a dt = Some (out, a')" "arq_ok a'" "\<not> a_need_poll a'" "a_cfg a' = a_cfg a"
    "a_recv_frame a' = rf1" "same_content rw1 (a_recv_wnd a')" "quiet (a_send_wnd a') (a_send_wnd_ptr a')"
    "poll_hdr (a_send_frame a) = None \<longrightarrow> a_send_frame a' = a_send_frame a"
    "arq__recv_wnd_pending rw1 = Some (po_recv_ready out)" "po_send_ready out = (0 < sf_len (a_send_frame a'))"
    "poll_hdr (a_send_frame a) \<noteq> None \<and> (\<exists>j < w_size (r_w rw1). r_ack rw1 ! slot (r_w rw1) j) \<longrightarrow> po_send_ready out"
    using backend_poll_runs [of ?a b rw1 rf1 h dt, OF _ _ s(1) recv_holdsD(1) [OF s(2)] s(10)] s(6,13) f(4) d(2)
    by (simp, elim exE conjE, simp)
  have "receives msgs base' a'"
    using p s(10-12) same_content_holds [OF p(6) s(2)] by (simp add: receives_def)
  moreover have sc: "same_shape a a'" "next_msg base' a' = next_msg base a" "r_slide (a_recv_wnd a') = r_slide rw1"
    using p(4,6) s(3-6) by (simp_all add: same_shape_def same_content_def)
  moreover have arr: "arrived msgs base' (a_recv_wnd a') = arrived msgs base' rw1" by (rule same_content_arrived [OF p(6)])
  moreover have "po_recv_ready out" if q: "r_slide (a_recv_wnd a) = 0" "\<forall>s < seg_count (r_w (a_recv_wnd a)) (length (msgs base)).
      (base, s) \<in> arrived msgs base' (a_recv_wnd a')"
  proof -
    have "base' = base" "r_slide rw1 = 0" using q(1) s(3,8) by simp_all
    then show ?thesis
      using pending_arrived [OF s(2)] q(2) arr p(9) seg_count_cong [OF s(6)] by simp
  qed
  moreover have "po_send_ready out \<and> can_send a'"
    if "can_send a" "s = seg_count (r_w (a_recv_wnd a)) (length (msgs m)) - 1"
    using that p(8,10,11) s(9) by (auto simp: can_send_def poll_hdr_def split: if_splits)
  ultimately show ?thesis
    using f(1) p(1) s(7,8) by (intro exI [of _ ?a] exI [of _ out] exI [of _ a'] exI [of _ base']) (simp add: test_poll_eq)
qed

text \<open>Reading.\<close>

lemma receive_read:
  assumes r: "receives msgs base a" and n: "n < 2 ^ 32"
  shows "\<exists>a'. arq_recv (Some a) True n True = Some (ARQ_OK_COMPLETED, Some (take n (avail msgs base (a_recv_wnd a))), Some a') \<and>
    receives msgs base a' \<and> avail msgs base (a_recv_wnd a') = drop n (avail msgs base (a_recv_wnd a))"
proof -
  note d = receivesD [OF r]
  obtain rw' where rw: "arq__recv_wnd_recv (a_recv_wnd a) n = Some (take n (avail msgs base (a_recv_wnd a)), rw')"
    "recv_holds msgs base rw'" "avail msgs base rw' = drop n (avail msgs base (a_recv_wnd a))"
    using recv_wnd_recv_holds [OF d(3) n] by blast
  moreover have "w_seg_len (r_w rw') = w_seg_len (r_w (a_recv_wnd a))" by (rule arrived_recv(2) [OF d(3) n rw(1)])
  then have "receives msgs base (a\<lparr>a_recv_wnd := rw'\<rparr>)"
    using d rw(2) recv_holdsD(1) [OF rw(2)] by (simp add: receives_def arq_ok_def)
  ultimately show ?thesis using d(6) by (auto simp: arq_recv_def)
qed

lemma read_messages:
  assumes r: "receives msgs base a" and z: "r_copy_ofs (a_recv_wnd a) = 0" and k: "k \<le> w_cap (r_w (a_recv_wnd a))"
    and all: "\<forall>m s. next_msg base a \<le> m \<and> m < next_msg base a + k \<and> s < seg_count (r_w (a_recv_wnd a)) (length (msgs m)) \<longrightarrow>
      (m, s) \<in> arrived msgs base (a_recv_wnd a)"
  shows "\<exists>zs. avail msgs base (a_recv_wnd a) = concat (map msgs [next_msg base a..<next_msg base a + k]) @ zs"
  using avail_arrived [OF receivesD(3) [OF r] k _ z] all by blast

section \<open>Segments in any order\<close>

text \<open>A frame that arrives: the segment \<open>s\<close> of message \<open>m\<close> under the header \<open>h\<close>, the first \<open>k\<close> bytes of a buffer.\<close>

type_synonym arrival = "nat \<times> nat \<times> arq__frame_hdr_t \<times> byte list \<times> nat"

definition brings :: "(nat \<Rightarrow> byte list) \<Rightarrow> nat \<Rightarrow> arq_t \<Rightarrow> arrival \<Rightarrow> bool" where
  "brings msgs n a = (\<lambda>(m, s, h, frame, k). n \<le> m \<and> m < n + w_cap (r_w (a_recv_wnd a)) \<and>
     names_segment msgs (r_w (a_recv_wnd a)) m s h \<and>
     carries (cfg_checksum (a_cfg a)) h (msg_seg (w_seg_len (r_w (a_recv_wnd a))) (msgs m) s) frame k)"

lemma brings_cong: "same_shape a a' \<Longrightarrow> brings msgs n a' = brings msgs n a"
  by (simp add: brings_def same_shape_def names_segment_cong [of "r_w (a_recv_wnd a')" "r_w (a_recv_wnd a)"] cong: prod.case_cong)

text \<open>Every frame is filled in and polled for.\<close>

fun feed_polled :: "build \<Rightarrow> nat \<Rightarrow> arrival list \<Rightarrow> arq_t \<Rightarrow> arq_t option" where
  "feed_polled b dt [] a = Some a" |
  "feed_polled b dt ((m, s, h, frame, k) # xs) a = do {
     a1 \<leftarrow> test_fill a frame k;
     (out, a2) \<leftarrow> test_poll b a1 dt;
     feed_polled b dt xs a2
   }"

lemma feed_segments:
  assumes "receives msgs base a" "\<forall>x \<in> set xs. brings msgs (next_msg base a) a x"
  shows "\<exists>a' base'. feed_polled b dt xs a = Some a' \<and> receives msgs base' a' \<and> next_msg base' a' = next_msg base a \<and> same_shape a a' \<and>
    arrived msgs base' (a_recv_wnd a') = (\<lambda>(m, s, _). (m, s)) ` set xs \<union> arrived msgs base (a_recv_wnd a)"
  using assms
proof (induction xs arbitrary: a base)
  case Nil
  then show ?case by (auto simp: same_shape_def)
next
  case (Cons x xs)
  obtain m s h frame k where x: "x = (m, s, h, frame, k)" by (cases x)
  have "brings msgs (next_msg base a) a (m, s, h, frame, k)" using Cons.prems(2) x by simp
  then obtain a1 out a2 base2 where 1: "test_fill a frame k = Some a1" "test_poll b a1 dt = Some (out, a2)" "receives msgs base2 a2"
    "next_msg base2 a2 = next_msg base a" "same_shape a a2"
    "arrived msgs base2 (a_recv_wnd a2) = insert (m, s) (arrived msgs base (a_recv_wnd a))"
    using receive_segment [OF Cons.prems(1), of m s h frame k b dt] unfolding brings_def by (simp, elim exE conjE, simp)
  have "\<forall>x \<in> set xs. brings msgs (next_msg base2 a2) a2 x"
    using Cons.prems(2) by (simp add: 1(4) brings_cong [OF 1(5)])
  then obtain a3 base3 where 2: "feed_polled b dt xs a2 = Some a3" "receives msgs base3 a3" "next_msg base3 a3 = next_msg base2 a2"
    "same_shape a2 a3" "arrived msgs base3 (a_recv_wnd a3) = (\<lambda>(m, s, _). (m, s)) ` set xs \<union> arrived msgs base2 (a_recv_wnd a2)"
    using Cons.IH [OF 1(3)] by blast
  have "feed_polled b dt (x # xs) a = Some a3" using 1(1,2) 2(1) by (simp add: x)
  moreover have "next_msg base3 a3 = next_msg base a" using 1(4) 2(3) by simp
  moreover have "arrived msgs base3 (a_recv_wnd a3) = (\<lambda>(m, s, _). (m, s)) ` set (x # xs) \<union> arrived msgs base (a_recv_wnd a)"
    using 1(6) 2(5) by (simp add: x)
  ultimately show ?case using 2(2) same_shape_trans [OF 1(5) 2(4)] by blast
qed

section \<open>A fresh object\<close>

lemma fresh_receives:
  assumes c: "cfg_sound c" and s: "abi_ok abi" "required_bytes abi c < 2 ^ 32" "seat_ok c seat" and b: "use_connections b"
    and w: "recv_window_size_in_messages c < 2048"
    and msgs: "\<forall>m. 0 < length (msgs m) \<and> length (msgs m) \<le> message_length_in_segments c * segment_length_in_bytes c"
  shows "\<exists>a. ArqContext b abi seat c = Some a \<and> receives msgs 0 a \<and> a_cfg a = c \<and> can_send a \<and>
    r_slide (a_recv_wnd a) = 0 \<and> r_copy_ofs (a_recv_wnd a) = 0 \<and>
    w_cap (r_w (a_recv_wnd a)) = recv_window_size_in_messages c \<and> w_seg_len (r_w (a_recv_wnd a)) = segment_length_in_bytes c \<and>
    w_size (r_w (a_recv_wnd a)) = 0 \<and> r_ack (a_recv_wnd a) = replicate (recv_window_size_in_messages c) False \<and>
    \<not> r_inter_seg_ack_on (a_recv_wnd a) \<and> sf_len (a_send_frame a) = 0 \<and> sf_state (a_send_frame a) = ARQ__SEND_FRAME_STATE_FREE \<and>
    cn_state (a_conn a) = ARQ_CONN_STATE_CLOSED"
proof -
  have seat: "arrays_fit c (snd seat)" "0 < fst seat" using s(3) by (simp_all add: seat_ok_def)
  obtain a where a: "ArqContext b abi seat c = Some a" "ready c a"
    using ArqContext_ready [OF c s(1,2) seat] by blast
  let ?r = "a_recv_wnd a"
  have f: "r_slide ?r = 0 \<and> r_copy_ofs ?r = 0 \<and> r_copy_seq ?r = 0 \<and> r_ack ?r = replicate (w_cap (r_w ?r)) False \<and>
      r_inter_seg_ack ?r = ARQ_TIME_INFINITY \<and> r_inter_seg_ack_seq ?r = 0 \<and> \<not> r_inter_seg_ack_on ?r"
    "\<exists>rb. r_w ?r = fresh_wnd (recv_window_size_in_messages c) (message_length_in_segments c) (segment_length_in_bytes c) rb"
    "sf_len (a_send_frame a) = 0" "sf_state (a_send_frame a) = ARQ__SEND_FRAME_STATE_FREE"
    "rf_len (a_recv_frame a) = 0" "\<not> rf_full (a_recv_frame a)" "\<not> a_need_poll a" "cn_state (a_conn a) = ARQ_CONN_STATE_CLOSED"
    using ArqContext_fresh [OF c s(1,2) seat b] a(1) by (auto simp: fresh_wnd_def)
  have i: "arq_ok a" "quiet (a_send_wnd a) (a_send_wnd_ptr a)" "a_cfg a = c"
    using a(2) by (simp_all add: ready_def idle_def quiet_def)
  have ok: "wnd_ok (r_w ?r)" "length (r_ack ?r) = w_cap (r_w ?r)" using recv_wnd_okD(1,2) [OF arq_okD(5) [OF i(1)]] by simp_all
  have g: "w_cap (r_w ?r) = recv_window_size_in_messages c" "w_seg_len (r_w ?r) = segment_length_in_bytes c"
    "w_msg_len (r_w ?r) = message_length_in_segments c * segment_length_in_bytes c" "w_size (r_w ?r) = 0"
    using f(2) by (auto simp: fresh_wnd_def)
  have "arq__recv_wnd_rst ?r = Some ?r"
    unfolding recv_wnd_rst_eq [OF ok] option.inject using f(1,2)
    by (intro arq__recv_wnd_t.equality arq__wnd_t.equality) (auto simp: fresh_wnd_def fresh_msg_def)
  with recv_wnd_rst_holds(1) [OF ok, of ?r msgs] g w msgs
  have "recv_holds msgs 0 ?r"
    by (simp add: msg_fits_def)
  then have "receives msgs 0 a" using i f(5-7) by (simp add: receives_def)
  moreover have "can_send a" using f(3,4) by (simp add: can_send_def poll_hdr_def)
  ultimately show ?thesis using a(1) i(3) g f by (intro exI [of _ a]) simp
qed

section \<open>Delivery\<close>


text \<open>For the witness: an object of two messages of two segments, and the second segment of a message twice before the first one.\<close>

definition demo_hdr :: "nat \<Rightarrow> nat \<Rightarrow> arq__frame_hdr_t" where
  "demo_hdr s n = arq__frame_hdr_init\<lparr>h_seg := True, h_seg_id := s, h_msg_len := 2, h_seg_len := n\<rparr>"

lemma demo_frame:
  assumes "n \<le> 2" "length bs = n" "s < 2"
  shows "\<exists>f. carries cs (demo_hdr s n) bs f (18 + n)"
  using carries_written [of "demo_hdr s n" "Some bs" 20 "replicate 20 0" le_build cs] assms
  by (auto simp: demo_hdr_def hdr_fits_def arq__frame_hdr_init_def seg_readable_def seg_bytes_def)

lemma demo_fresh:
  "\<exists>a. ArqContext release_build demo_abi (4096, demo_mem) demo_cfg = Some a \<and> receives demo_msgs 0 a \<and> r_slide (a_recv_wnd a) = 0 \<and>
    r_copy_ofs (a_recv_wnd a) = 0 \<and> w_cap (r_w (a_recv_wnd a)) = 2 \<and> w_seg_len (r_w (a_recv_wnd a)) = 2"
  using fresh_receives [OF demo_cfg_sound demo_abi_ok, of "(4096, demo_mem)" release_build demo_msgs] demo_required_bytes demo_arrays_fit
  by (auto simp: seat_ok_def release_build_def demo_cfg_def demo_msgs_def)


end
