(* ===== verification/Arq_Transmit.thy ===== *)
theory Arq_Transmit imports Arq_Exec begin

text \<open>
  Sending at the public interface: what \<open>arq_send\<close> puts into the window of a fresh object, and the frames
  the polls of \<open>arq_backend_poll\<close> then make of it, each taken with \<open>arq_backend_send_ptr_get\<close> and
  \<open>arq_backend_send_ptr_release\<close>: segment by segment, in order, each segment once.
\<close>

section \<open>A window full of messages\<close>

text \<open>
  Of the \<open>K\<close> full messages \<open>D\<close> the send window holds those from \<open>k\<close> on, none of which is acknowledged; the
  segments below \<open>i\<close> are sent.
\<close>

definition full_messages :: "byte list \<Rightarrow> nat \<Rightarrow> nat \<Rightarrow> arq__send_wnd_t \<Rightarrow> bool" where
  "full_messages D K k sw \<longleftrightarrow> send_wnd_ok sw \<and> w_seq (s_w sw) = k \<and> w_size (s_w sw) = K - k \<and> k < K \<and> K \<le> w_cap (s_w sw) \<and>
     length D = K * w_msg_len (s_w sw) \<and> take (K * w_msg_len (s_w sw)) (w_buf (s_w sw)) = D \<and> \<not> s_tiny_on sw \<and>
     (\<forall>j. k \<le> j \<and> j < K \<longrightarrow>
       w_msg (s_w sw) ! j = \<lparr>m_len = w_msg_len (s_w sw), m_cur_ack_vec = 0, m_full_ack_vec = 2 ^ segs (s_w sw) - 1\<rparr>)"

definition segments_sent :: "nat \<Rightarrow> nat \<Rightarrow> nat \<Rightarrow> arq__send_wnd_t \<Rightarrow> arq__send_wnd_ptr_t \<Rightarrow> nat \<Rightarrow> bool" where
  "segments_sent K k i sw sp rtx \<longleftrightarrow> (let n = segs (s_w sw) in k * n \<le> i \<and> i \<le> K * n \<and>
     (\<forall>j. k \<le> j \<and> j < K \<longrightarrow> s_rtx sw ! j = (if Suc j * n < i then rtx else 0)) \<and>
     (if i = k * n then \<not> p_valid sp else p_valid sp \<and> p_seq sp = (i - 1) div n \<and> p_seg sp = (i - 1) mod n))"

lemma full_messagesD:
  assumes "full_messages D K k sw"
  shows "send_wnd_ok sw" "wnd_ok (s_w sw)" "w_seq (s_w sw) = k" "w_size (s_w sw) = K - k" "k < K" "K \<le> w_cap (s_w sw)" "K \<le> 4096"
    "length D = K * w_msg_len (s_w sw)" "take (K * w_msg_len (s_w sw)) (w_buf (s_w sw)) = D" "\<not> s_tiny_on sw"
    "\<And>j. k \<le> j \<Longrightarrow> j < K \<Longrightarrow>
      w_msg (s_w sw) ! j = \<lparr>m_len = w_msg_len (s_w sw), m_cur_ack_vec = 0, m_full_ack_vec = 2 ^ segs (s_w sw) - 1\<rparr>"
    "\<And>j. j < K - k \<Longrightarrow> slot (s_w sw) j = k + j" "\<And>j. j < K - k \<Longrightarrow> seq_at (s_w sw) j = k + j"
proof -
  show a: "send_wnd_ok sw" "w_seq (s_w sw) = k" "w_size (s_w sw) = K - k" "k < K" "K \<le> w_cap (s_w sw)" "length D = K * w_msg_len (s_w sw)"
    "take (K * w_msg_len (s_w sw)) (w_buf (s_w sw)) = D" "\<not> s_tiny_on sw"
    "\<And>j. k \<le> j \<Longrightarrow> j < K \<Longrightarrow>
      w_msg (s_w sw) ! j = \<lparr>m_len = w_msg_len (s_w sw), m_cur_ack_vec = 0, m_full_ack_vec = 2 ^ segs (s_w sw) - 1\<rparr>"
    using assms unfolding full_messages_def by blast+
  show w: "wnd_ok (s_w sw)" by (rule send_wnd_okD(1) [OF a(1)])
  show "K \<le> 4096" using wnd_okD(3) [OF w] a(5) by simp
  then show "\<And>j. j < K - k \<Longrightarrow> slot (s_w sw) j = k + j" "\<And>j. j < K - k \<Longrightarrow> seq_at (s_w sw) j = k + j"
    using a(2,5) by (simp_all add: slot_def seq_at_def)
qed

text \<open>A poll without time lowers no timer.\<close>

lemma send_wnd_step_0:
  assumes ok: "send_wnd_ok sw"
  shows "arq__send_wnd_step sw 0 = Some sw"
proof -
  obtain sw' where s: "arq__send_wnd_step sw 0 = Some sw'" "send_wnd_ok sw'" "s_w sw' = s_w sw" "s_tiny_on sw' = s_tiny_on sw"
    "s_tiny sw' = s_tiny sw" "\<forall>i < w_cap (s_w sw). s_rtx sw' ! slot (s_w sw) i = s_rtx sw ! slot (s_w sw) i"
    using send_wnd_step_eq [OF ok, of 0] by auto
  have "s_rtx sw' ! k = s_rtx sw ! k" if "k < w_cap (s_w sw)" for k
    using slot_surj [OF send_wnd_okD(1) [OF ok] that] s(6) by metis
  then have "s_rtx sw' = s_rtx sw"
    using send_wnd_okD(2) [OF ok] send_wnd_okD(2) [OF s(2)] s(3) by (intro nth_equalityI) simp_all
  then show ?thesis using s(1,3-5) by simp
qed

section \<open>The send pointer\<close>

lemma find_least:
  assumes "m < K" "P m" "\<And>j. j < m \<Longrightarrow> \<not> P j"
  shows "find P [0..<K] = Some m"
  using assms by (auto simp: find_Some_iff intro!: exI [of _ m])

lemma pred_div:
  fixes n :: nat
  assumes "0 < n" "0 < q"
  shows "(q * n - 1) div n = q - 1"
  using assms by (cases q) (auto intro!: div_nat_eqI simp: mult.commute [of n])

lemma lowest_clear_start: "lowest_clear 0 = 0" "next_clear 0 s = Suc s"
  by (simp_all add: lowest_clear_0 next_clear_def)

lemma full_due:
  assumes f: "full_messages D K k sw" and s: "segments_sent K k i sw sp rtx" and rtx: "0 < rtx" and j: "j < K - k"
  shows "send_due sw j \<longleftrightarrow> i \<le> Suc (k + j) * segs (s_w sw)"
proof -
  note d = full_messagesD [OF f]
  have "0 < segs (s_w sw)" "0 < w_msg_len (s_w sw)" using wnd_okD(7) [OF d(2)] wnd_ok_msg_len(1) [OF d(2)] by simp_all
  then have "0 < (2 :: nat) ^ segs (s_w sw) - 1" using exp_minus_1_less_iff [of 0 "segs (s_w sw)"] by simp
  then show ?thesis
    using d(11) [of "k + j"] d(12) [OF j] s j rtx \<open>0 < w_msg_len (s_w sw)\<close> by (simp add: send_due_def segments_sent_def Let_def not_less)
qed

lemma next_segment:
  assumes f: "full_messages D K k sw" and s: "segments_sent K k i sw sp rtx" and rtx: "0 < rtx" and i: "i < K * segs (s_w sw)"
  defines "n \<equiv> segs (s_w sw)"
  shows "arq__send_wnd_ptr_next sp sw = Some (if i mod n = 0 \<and> k * n < i then ARQ__SEND_WND_PTR_NEXT_COMPLETED_MSG
      else ARQ__SEND_WND_PTR_NEXT_INSIDE_MSG, \<lparr>p_seq = i div n, p_seg = i mod n, p_valid = True\<rparr>)"
proof -
  note d = full_messagesD [OF f]
  have n: "0 < n" "n \<le> 12" using wnd_okD(7,8) [OF d(2)] by (simp_all add: n_def)
  have ki: "k * n \<le> i" using s by (simp add: segments_sent_def Let_def n_def)
  have iK: "i div n < K" "k \<le> i div n" using i ki n(1) by (simp_all add: n_def less_mult_imp_div_less less_eq_div_iff_mult_less_eq)
  have sp: "if i = k * n then \<not> p_valid sp else p_valid sp \<and> p_seq sp = (i - 1) div n \<and> p_seg sp = (i - 1) mod n"
    using s by (simp add: segments_sent_def Let_def n_def)
  have pn: "(i - 1) div n < K" using iK(1) by (meson diff_le_self div_le_mono le_less_trans)
  have "(i - 1) mod n < 12" using n by (meson less_le_trans mod_less_divisor)
  then have pok: "ptr_ok sp" using sp pn d(7) by (auto simp: ptr_ok_def split: if_splits)
  have due: "send_due sw j \<longleftrightarrow> i \<le> Suc (k + j) * n" if "j < K - k" for j using full_due [OF f s rtx that] by (simp add: n_def)
  have lands: "ptr_to_due sw p = \<lparr>p_seq = i div n, p_seg = 0, p_valid = True\<rparr>"
    if p: "i mod n = 0" "p_valid p \<Longrightarrow> k * n < i \<and> p_seq p = (i - 1) div n" "\<not> p_valid p \<Longrightarrow> i = k * n" for p
  proof -
    have im: "i = i div n * n" using div_mult_mod_eq [of i n] p(1) by simp
    have last: "(i - 1) div n = i div n - 1" "0 < i div n" if "k * n < i"
    proof -
      show "0 < i div n" using im that by (cases "i div n") auto
      from pred_div [OF n(1) this] show "(i - 1) div n = i div n - 1" using im by simp
    qed
    have od: "other_due sw p j \<longleftrightarrow> i div n \<le> k + j" if j: "j < K - k" for j
    proof -
      have "i \<le> Suc (k + j) * n \<longleftrightarrow> i div n \<le> Suc (k + j)" using n(1) im by (metis mult_le_cancel2)
      then show ?thesis using due [OF j] p last d(13) [OF j] n(1) by (cases "i = k * n") (auto simp: other_due_def)
    qed
    have "find (other_due sw p) [0..<K - k] = Some (i div n - k)" using iK od by (intro find_least) auto
    then show ?thesis using d(4,11,12,13) iK by (simp add: ptr_to_due_def lowest_clear_start)
  qed
  show ?thesis
  proof (cases "i = k * n")
    case True
    then show ?thesis using sp lands [of sp] pok n(1) by (simp add: send_wnd_ptr_next_eq [OF d(1) pok] ptr_next_spec_def)
  next
    case False
    then have v: "p_valid sp" "p_seq sp = (i - 1) div n" "p_seg sp = (i - 1) mod n" using sp by simp_all
    have kp: "k \<le> (i - 1) div n" using False ki n(1) by (simp add: less_eq_div_iff_mult_less_eq)
    have "p_seq sp mod w_cap (s_w sw) = (i - 1) div n" using v(2) pn d(6) by simp
    then have adv: "ptr_advance sw sp = sp\<lparr>p_seg := Suc ((i - 1) mod n)\<rparr>"
      and full: "m_full_ack_vec (w_msg (s_w sw) ! (p_seq sp mod w_cap (s_w sw))) = 2 ^ n - 1"
      using d(11) [OF kp pn] v(3) by (simp_all add: ptr_advance_def lowest_clear_start n_def)
    have inside: "2 ^ p_seg (ptr_advance sw sp) - 1 < (2 :: nat) ^ n - 1 \<longleftrightarrow> Suc ((i - 1) mod n) < n"
      unfolding exp_minus_1_less_iff adv by simp
    have "i = Suc (i - 1)" "k * n < i" using False ki by simp_all
    then have mod: "i mod n = (if Suc ((i - 1) mod n) = n then 0 else Suc ((i - 1) mod n))"
      and div: "i div n = (if Suc ((i - 1) mod n) = n then Suc ((i - 1) div n) else (i - 1) div n)"
      by (metis mod_Suc, metis div_Suc mod_Suc nat.simps(3))
    have lt: "(i - 1) mod n < n" using n(1) by simp
    show ?thesis
    proof (cases "Suc ((i - 1) mod n) = n")
      case True
      have "ptr_to_due sw (ptr_advance sw sp) = \<lparr>p_seq = i div n, p_seg = 0, p_valid = True\<rparr>"
        using True mod v \<open>k * n < i\<close> by (intro lands) (simp_all add: adv)
      then show ?thesis
        using True \<open>k * n < i\<close> v(1) mod inside full by (simp add: send_wnd_ptr_next_eq [OF d(1) pok] ptr_next_spec_def)
    next
      case neq: False
      have "ptr_advance sw sp = \<lparr>p_seq = i div n, p_seg = i mod n, p_valid = True\<rparr>"
        using neq v mod div by (simp add: adv)
      then show ?thesis
        using neq lt v(1) mod inside full by (simp add: send_wnd_ptr_next_eq [OF d(1) pok] ptr_next_spec_def)
    qed
  qed
qed

text \<open>The header of segment \<open>i\<close>, and the state of the window behind it.\<close>

definition data_hdr :: "nat \<Rightarrow> nat \<Rightarrow> arq__frame_hdr_t" where
  "data_hdr n i = arq__frame_hdr_init\<lparr>h_msg_len := n, h_seq_num := i div n, h_seg_id := i mod n, h_seg := True\<rparr>"

lemma full_messages_rtx:
  assumes "full_messages D K k sw" "rtx < 2 ^ 32"
  shows "full_messages D K k (sw\<lparr>s_rtx := (s_rtx sw)[j := rtx]\<rparr>)"
  using assms send_wnd_ok_rtx [of sw rtx j] by (simp add: full_messages_def)

lemma seg_count_multiple:
  assumes "0 < w_seg_len w"
  shows "seg_count w (n * w_seg_len w) = n"
proof -
  have "n * w_seg_len w + w_seg_len w - 1 = w_seg_len w - 1 + n * w_seg_len w" using assms by simp
  then show ?thesis unfolding seg_count_def using assms by (simp only: div_mult_self1) simp
qed

lemma seg_count_full:
  assumes "wnd_ok w"
  shows "seg_count w (w_msg_len w) = segs w"
  using wnd_okD(4,6) [OF assms] seg_count_multiple [of w "segs w"] by simp

lemma header_segment:
  assumes f: "full_messages D K k sw" and s: "segments_sent K k i sw sp rtx" and rtx: "0 < rtx" "rtx < 2 ^ 32" and i: "i < K * segs (s_w sw)"
  shows "\<exists>sw' sp'. send_poll_header sw sp arq__frame_hdr_init rtx = Some (sw', sp', data_hdr (segs (s_w sw)) i) \<and>
    s_w sw' = s_w sw \<and> full_messages D K k sw' \<and> segments_sent K k (Suc i) sw' sp' rtx \<and> ptr_ok sp'"
proof -
  let ?n = "segs (s_w sw)"
  note d = full_messagesD [OF f] and nx = next_segment [OF f s rtx(1) i]
  note w = wnd_okD [OF d(2)]
  have n: "0 < ?n" using w(7) by simp
  have sg: "\<forall>j. k \<le> j \<and> j < K \<longrightarrow> s_rtx sw ! j = (if Suc j * ?n < i then rtx else 0)"
    "if i = k * ?n then \<not> p_valid sp else p_valid sp \<and> p_seq sp = (i - 1) div ?n \<and> p_seg sp = (i - 1) mod ?n" "k * ?n \<le> i"
    using s by (simp_all add: segments_sent_def Let_def)
  have iK: "i div ?n < K" "k \<le> i div ?n" using i sg(3) n by (simp_all add: less_mult_imp_div_less less_eq_div_iff_mult_less_eq)
  let ?sp' = "\<lparr>p_seq = i div ?n, p_seg = i mod ?n, p_valid = True\<rparr>"
  have pok: "ptr_ok sp"
  proof -
    have "(i - 1) div ?n < K" using iK(1) by (meson diff_le_self div_le_mono le_less_trans)
    moreover have "(i - 1) mod ?n < 12" using w(7,8) by (meson less_le_trans mod_less_divisor zero_less_one)
    ultimately show ?thesis using sg(2) d(7) by (auto simp: ptr_ok_def split: if_splits)
  qed
  from send_poll_header_eq [OF d(1) pok rtx(2), of arq__frame_hdr_init] obtain sw' h' where
    h: "send_poll_header sw sp arq__frame_hdr_init rtx = Some (sw', ?sp', h')" "ptr_ok ?sp'"
      "sw' = (if i mod ?n = 0 \<and> k * ?n < i then sw\<lparr>s_rtx := (s_rtx sw)[p_seq sp mod w_cap (s_w sw) := rtx]\<rparr> else sw)"
      "h' = arq__frame_hdr_init\<lparr>h_msg_len := seg_count (s_w sw) (m_len (w_msg (s_w sw) ! (i div ?n mod w_cap (s_w sw)))),
        h_seq_num := i div ?n, h_seg_id := i mod ?n, h_seg := True\<rparr>"
    unfolding nx by (auto split: if_splits)
  have "seg_count (s_w sw) (w_msg_len (s_w sw)) = ?n"
    by (rule seg_count_full [OF d(2)])
  then have h': "h' = data_hdr ?n i" using h(4) d(6) d(11) [OF iK(2,1)] iK by (simp add: data_hdr_def)
  have fm: "full_messages D K k sw'" using f full_messages_rtx [OF f rtx(2)] h(3) by simp
  have "s_rtx sw' ! j = (if Suc j * ?n < Suc i then rtx else 0)" if j: "k \<le> j" "j < K" for j
  proof (cases "i mod ?n = 0 \<and> k * ?n < i")
    case False
    have "Suc j * ?n \<noteq> i"
    proof
      assume "Suc j * ?n = i"
      moreover from this have "i mod ?n = 0" by (metis mod_mult_self2_is_0)
      moreover have "k * ?n < Suc j * ?n" using j(1) n by (intro mult_strict_right_mono) simp_all
      ultimately show False using False by simp
    qed
    moreover have "sw' = sw" using False h(3) by (simp only: if_False)
    ultimately show ?thesis using sg(1) j by (simp add: less_Suc_eq)
  next
    case True
    then have im: "i = i div ?n * ?n" using div_mult_mod_eq [of i ?n] by simp
    then have q: "0 < i div ?n" using True by (cases "i div ?n") auto
    have "p_seq sp = i div ?n - 1" using sg(2) True pred_div [OF n q] im by simp
    moreover have "i div ?n - 1 < w_cap (s_w sw)" using iK d(6) by simp
    ultimately have "s_rtx sw' = (s_rtx sw)[i div ?n - 1 := rtx]" using h(3) True by simp
    moreover have "Suc j * ?n < Suc i \<longleftrightarrow> Suc j * ?n < i \<or> j = i div ?n - 1"
    proof -
      have "Suc j * ?n = i \<longleftrightarrow> Suc j = i div ?n" using im n by (metis mult_cancel2 less_numeral_extra(3))
      then show ?thesis using q by (auto simp: less_Suc_eq)
    qed
    ultimately show ?thesis
      using sg(1) j send_wnd_okD(2) [OF d(1)] d(6) by (cases "j = i div ?n - 1") (simp_all del: mult_Suc)
  qed
  then have "segments_sent K k (Suc i) sw' ?sp' rtx" using i sg(3) h(3) by (simp add: segments_sent_def Let_def)
  then show ?thesis using h(1-3) h' fm by auto
qed

section \<open>The polls\<close>

text \<open>An object that takes part in a transfer as its sender: nothing was received, its frames are free, its connection is closed.\<close>

definition sender_ready :: "arq_t \<Rightarrow> bool" where
  "sender_ready a \<longleftrightarrow> arq_ok a \<and> 0 < retransmission_timeout (a_cfg a) \<and> sf_len (a_send_frame a) = 0 \<and>
     sf_state (a_send_frame a) \<noteq> ARQ__SEND_FRAME_STATE_HELD \<and> w_size (r_w (a_recv_wnd a)) = 0 \<and> \<not> r_inter_seg_ack_on (a_recv_wnd a) \<and>
     \<not> rf_full (a_recv_frame a) \<and> rf_len (a_recv_frame a) = 0 \<and> cn_state (a_conn a) = ARQ_CONN_STATE_CLOSED"

lemma sender_readyD:
  assumes "sender_ready a"
  shows "arq_ok a" "0 < retransmission_timeout (a_cfg a)" "sf_len (a_send_frame a) = 0" "sf_state (a_send_frame a) \<noteq> ARQ__SEND_FRAME_STATE_HELD"
    "w_size (r_w (a_recv_wnd a)) = 0" "\<not> r_inter_seg_ack_on (a_recv_wnd a)" "\<not> rf_full (a_recv_frame a)" "rf_len (a_recv_frame a) = 0"
    "cn_state (a_conn a) = ARQ_CONN_STATE_CLOSED" "timer_ran (a_recv_wnd a) dt = a_recv_wnd a" "retransmission_timeout (a_cfg a) < 2 ^ 32"
proof -
  show "arq_ok a" "0 < retransmission_timeout (a_cfg a)" "sf_len (a_send_frame a) = 0" "sf_state (a_send_frame a) \<noteq> ARQ__SEND_FRAME_STATE_HELD"
    "w_size (r_w (a_recv_wnd a)) = 0" "\<not> r_inter_seg_ack_on (a_recv_wnd a)" "\<not> rf_full (a_recv_frame a)" "rf_len (a_recv_frame a) = 0"
    "cn_state (a_conn a) = ARQ_CONN_STATE_CLOSED"
    using assms by (simp_all add: sender_ready_def)
  then show "timer_ran (a_recv_wnd a) dt = a_recv_wnd a" "retransmission_timeout (a_cfg a) < 2 ^ 32"
    using arq_okD(1) by (auto simp: timer_ran_def cfg_ranges_def)
qed

definition transmits :: "byte list \<Rightarrow> nat \<Rightarrow> nat \<Rightarrow> nat \<Rightarrow> arq_t \<Rightarrow> bool" where
  "transmits D K k i a \<longleftrightarrow> sender_ready a \<and> full_messages D K k (a_send_wnd a) \<and>
     segments_sent K k i (a_send_wnd a) (a_send_wnd_ptr a) (retransmission_timeout (a_cfg a))"

text \<open>The frame the header is turned into.\<close>

lemma emit_data:
  assumes f: "full_messages D K k sw" and i: "k * segs (s_w sw) \<le> i" "i < K * segs (s_w sw)" and sf: "send_frame_ok (18 + w_seg_len (s_w sw)) sf"
  defines "l \<equiv> w_seg_len (s_w sw)"
  shows "\<exists>out. backend_emit b c sw (data_hdr (segs (s_w sw)) i) sf =
      Some (sf\<lparr>sf_buf := out, sf_len := 18 + l, sf_state := ARQ__SEND_FRAME_STATE_FREE\<rparr>) \<and> length out = length (sf_buf sf) \<and>
    carries (cfg_checksum c) ((data_hdr (segs (s_w sw)) i)\<lparr>h_seg_len := l\<rparr>) (take l (drop (i * l) D)) out (18 + l)"
proof -
  let ?n = "segs (s_w sw)" and ?h = "data_hdr (segs (s_w sw)) i"
  note d = full_messagesD [OF f]
  note w = wnd_okD [OF d(2)]
  have iK: "i div ?n < K" "k \<le> i div ?n" using i w(7) by (simp_all add: less_mult_imp_div_less less_eq_div_iff_mult_less_eq)
  have sg: "i mod ?n < ?n" using w(7) by simp
  have h: "hdr_fits ?h" "h_seg ?h" "h_seg_id ?h < ?n" using iK sg w(8) d(7) by (simp_all add: data_hdr_def hdr_fits_def arq__frame_hdr_init_def)
  have k: "h_seq_num ?h mod w_cap (s_w sw) = i div ?n" using iK d(6) by (simp add: data_hdr_def)
  let ?ofs = "w_msg_len (s_w sw) * (i div ?n) + l * (i mod ?n)"
  have ofs: "?ofs = i * l"
  proof -
    have "?ofs = (?n * (i div ?n) + i mod ?n) * l" by (simp only: w(6) l_def add_mult_distrib add_mult_distrib2 mult_ac)
    then show ?thesis by simp
  qed
  have rest: "min l (sub32 (w_msg_len (s_w sw)) (l * (i mod ?n))) = l"
  proof -
    have "Suc (i mod ?n) * l \<le> ?n * l" using sg by (intro mult_le_mono1) simp
    then have "l * (i mod ?n) + l \<le> w_msg_len (s_w sw)" by (simp add: w(6) l_def mult.commute add.commute)
    moreover have "w_msg_len (s_w sw) < 4294967296" using wnd_ok_msg_len(2) [OF d(2)] by simp
    ultimately show ?thesis by (simp add: sub32_le)
  qed
  from backend_emit_segment [OF d(1) sf h, of b c, unfolded k, folded l_def] d(11) [OF iK(2,1)] rest w(4)
  obtain out where out: "arq__frame_write b (?h\<lparr>h_seg_len := l\<rparr>) (Some (drop (i * l) (w_buf (s_w sw)))) (cfg_checksum c) (sf_buf sf) (sf_cap sf) =
      Some (18 + l, out)" "length out = length (sf_buf sf)"
    "backend_emit b c sw ?h sf = Some (sf\<lparr>sf_buf := out, sf_len := 18 + l, sf_state := ARQ__SEND_FRAME_STATE_FREE\<rparr>)"
    "i * l + l \<le> length (w_buf (s_w sw))"
    by (auto simp: data_hdr_def ofs [unfolded l_def] l_def min_def split: if_splits)
  have "hdr_fits (?h\<lparr>h_seg_len := l\<rparr>)" using h(1) w(5) by (simp add: hdr_fits_def l_def)
  from carries_written [OF this, of "Some (drop (i * l) (w_buf (s_w sw)))" "sf_cap sf" "sf_buf sf" b "cfg_checksum c"]
  have "carries (cfg_checksum c) (?h\<lparr>h_seg_len := l\<rparr>) (take l (drop (i * l) (w_buf (s_w sw)))) out (18 + l)"
    using out(1,4) sf w(5) by (auto simp: seg_readable_def seg_bytes_def send_frame_ok_def l_def)
  moreover have "take l (drop (i * l) (w_buf (s_w sw))) = take l (drop (i * l) D)"
  proof -
    have "Suc i * l \<le> K * ?n * l" using i(2) by (intro mult_le_mono1) simp
    then have "i * l + l \<le> K * w_msg_len (s_w sw)" by (simp add: w(6) l_def algebra_simps)
    then show ?thesis by (subst d(9) [symmetric]) (simp add: drop_take min_def)
  qed
  ultimately show ?thesis using out(2,3) by auto
qed

lemma closed_conn: "cn_state c = ARQ_CONN_STATE_CLOSED \<Longrightarrow> c = closed (cn_u c)"
  by (cases c) (simp add: closed_def)

text \<open>A poll whose timers leave the window as it is after \<open>i\<close> segments.\<close>

lemma poll_due:
  assumes a: "sender_ready a" and t: "send_poll_timers (a_send_wnd a) arq__frame_hdr_init dt = Some sw"
    and f: "full_messages D K k sw" "segments_sent K k i sw (a_send_wnd_ptr a) (retransmission_timeout (a_cfg a))"
    and b: "use_connections b" and i: "i < K * segs (s_w sw)" and l: "w_seg_len (s_w (a_send_wnd a)) = l" "w_seg_len (s_w sw) = l"
  shows "\<exists>out a'. backend_poll b a dt = Some (out, a') \<and> po_send_ready out \<and> \<not> po_recv_ready out \<and> a_cfg a' = a_cfg a \<and>
    s_w (a_send_wnd a') = s_w sw \<and> sf_len (a_send_frame a') = 18 + l \<and>
    carries (cfg_checksum (a_cfg a)) ((data_hdr (segs (s_w sw)) i)\<lparr>h_seg_len := l\<rparr>) (take l (drop (i * l) D)) (sf_buf (a_send_frame a')) (18 + l) \<and>
    transmits D K k (Suc i) (a'\<lparr>a_send_frame := (a_send_frame a')\<lparr>sf_len := 0, sf_state := ARQ__SEND_FRAME_STATE_RELEASED\<rparr>, a_need_poll := True\<rparr>)"
proof -
  let ?c = "a_cfg a" and ?h = "data_hdr (segs (s_w sw)) i" and ?rw = "a_recv_wnd a"
  note d = sender_readyD [OF a] and p = arq_okD [OF sender_readyD(1) [OF a]]
  have 1: "recv_poll_frame b ?rw (a_recv_frame a) (cfg_checksum ?c) arq__frame_hdr_init (inter_segment_timeout ?c) =
      Some (?rw, a_recv_frame a, arq__frame_hdr_init)"
    using recv_poll_no_frame [OF d(7)] by simp
  have 2: "acked (timer_ran ?rw dt) arq__frame_hdr_init = (False, ?rw, arq__frame_hdr_init)"
    using d(5,10) by (simp add: acked_def arq__frame_hdr_init_def)
  obtain sw' sp' where 4: "send_poll_header sw (a_send_wnd_ptr a) arq__frame_hdr_init (retransmission_timeout ?c) = Some (sw', sp', ?h)"
    "s_w sw' = s_w sw" "full_messages D K k sw'" "segments_sent K k (Suc i) sw' sp' (retransmission_timeout ?c)" "ptr_ok sp'"
    using header_segment [OF f d(2,11) i] by blast
  have 5: "arq__conn_poll b (a_conn a) (Some ?h) arq__frame_hdr_init dt ?c = Some (False, a_conn a, Some ?h, ARQ_EVENT_NONE)"
    by (subst (1 2) closed_conn [OF d(9)]) (simp add: closed_poll [OF _ b] arq__frame_hdr_init_def)
  have "k * segs (s_w sw) \<le> i" using f(2) by (simp add: segments_sent_def Let_def)
  then obtain out where 6: "backend_emit b ?c sw' ?h (a_send_frame a) =
      Some ((a_send_frame a)\<lparr>sf_buf := out, sf_len := 18 + l, sf_state := ARQ__SEND_FRAME_STATE_FREE\<rparr>)" "length out = length (sf_buf (a_send_frame a))"
    "carries (cfg_checksum ?c) (?h\<lparr>h_seg_len := l\<rparr>) (take l (drop (i * l) D)) out (18 + l)"
    using emit_data [OF 4(3), of i "a_send_frame a" b ?c] i p(4) 4(2) l by auto
  let ?sf = "(a_send_frame a)\<lparr>sf_buf := out, sf_len := 18 + l, sf_state := ARQ__SEND_FRAME_STATE_FREE\<rparr>"
  have 7: "(if False \<or> h_seg ?h \<or> False then backend_emit b ?c sw' ?h (a_send_frame a) else Some (a_send_frame a)) = Some ?sf"
    using 6(1) by (simp add: data_hdr_def)
  note g = full_messagesD [OF 4(3)]
  obtain np where 8: "arq__next_poll b sw' ?rw (a_conn a) = Some np"
    using next_poll_eq [OF g(1), of b ?rw "a_conn a"] conn_next_poll_total [OF p(8)] b by (auto simp: Let_def)
  have 9: "arq__recv_wnd_pending ?rw = Some False" using d(5) by (simp add: arq__recv_wnd_pending_def)
  have "poll_hdr (a_send_frame a) = Some arq__frame_hdr_init" using d(3,4) by (simp add: poll_hdr_def)
  note run = backend_poll_run [OF d(1) this 1 p(5) 2 t 4(1) 5 7 8 9]
  have "send_frame_ok (18 + l) (?sf\<lparr>sf_len := 0, sf_state := ARQ__SEND_FRAME_STATE_RELEASED\<rparr>)"
    using p(4) 6(2) l(1) by (simp add: send_frame_ok_def)
  then show ?thesis
    unfolding run using 4(2-5) 6(3) d p g(1) l
    by (simp add: transmits_def sender_ready_def arq_ok_def send_frame_ok_def)
qed

lemma poll_segment:
  assumes a: "transmits D K k i a" and b: "use_connections b" and i: "i < K * segs (s_w (a_send_wnd a))"
  defines "l \<equiv> w_seg_len (s_w (a_send_wnd a))"
  shows "\<exists>out a'. backend_poll b a 0 = Some (out, a') \<and> po_send_ready out \<and> \<not> po_recv_ready out \<and> a_cfg a' = a_cfg a \<and>
    s_w (a_send_wnd a') = s_w (a_send_wnd a) \<and> sf_len (a_send_frame a') = 18 + l \<and>
    carries (cfg_checksum (a_cfg a)) ((data_hdr (segs (s_w (a_send_wnd a))) i)\<lparr>h_seg_len := l\<rparr>) (take l (drop (i * l) D))
      (sf_buf (a_send_frame a')) (18 + l) \<and>
    transmits D K k (Suc i) (a'\<lparr>a_send_frame := (a_send_frame a')\<lparr>sf_len := 0, sf_state := ARQ__SEND_FRAME_STATE_RELEASED\<rparr>, a_need_poll := True\<rparr>)"
proof -
  have d: "sender_ready a" "full_messages D K k (a_send_wnd a)"
    "segments_sent K k i (a_send_wnd a) (a_send_wnd_ptr a) (retransmission_timeout (a_cfg a))"
    using a by (simp_all add: transmits_def)
  note f = full_messagesD [OF d(2)]
  have "send_poll_timers (a_send_wnd a) arq__frame_hdr_init 0 = Some (a_send_wnd a)"
    using send_wnd_step_0 [OF f(1)] f(10) by (simp add: send_poll_timers_def arq__frame_hdr_init_def)
  from poll_due [OF d(1) this d(2,3) b i] show ?thesis by (simp add: l_def)
qed

section \<open>Sending into a fresh object\<close>

definition fresh_sender :: "nat \<Rightarrow> nat \<Rightarrow> nat \<Rightarrow> byte list \<Rightarrow> arq__send_wnd_t" where
  "fresh_sender cap n l buf = \<lparr>s_w = fresh_wnd cap n l buf, s_rtx = replicate cap 0, s_tiny = 0, s_tiny_on = False\<rparr>"

lemma fresh_fill:
  fixes m :: arq__msg_t
  assumes K: "K \<le> cap" and cap: "cap \<le> 4096"
  shows "\<exists>msg. for_range 0 K (\<lambda>i (rtx, msg). do {
        k \<leftarrow> umod (u32 i) cap;
        rtx' \<leftarrow> wr rtx k (0 :: nat);
        mk \<leftarrow> rd msg k;
        msg' \<leftarrow> wr msg k (mk\<lparr>m_len := len\<rparr>);
        Some (rtx', msg')
      }) (replicate cap 0, replicate cap m) = Some (replicate cap 0, msg) \<and> length msg = cap \<and>
    (\<forall>k < cap. msg ! k = (if k < K then m\<lparr>m_len := len\<rparr> else m))"
proof -
  define body :: "nat \<Rightarrow> nat list \<times> arq__msg_t list \<Rightarrow> _" where "body = (\<lambda>i (rtx, msg). do {
        k \<leftarrow> umod (u32 i) cap;
        rtx' \<leftarrow> wr rtx k (0 :: nat);
        mk \<leftarrow> rd msg k;
        msg' \<leftarrow> wr msg k (mk\<lparr>m_len := len\<rparr>);
        Some (rtx', msg')
      })"
  let ?P = "\<lambda>i (rtx, msg). rtx = replicate cap (0 :: nat) \<and> length msg = cap \<and> (\<forall>k < cap. msg ! k = (if k < i then m\<lparr>m_len := len\<rparr> else m))"
  have step: "\<exists>t'. body j t = Some t' \<and> ?P (Suc j) t'" if j: "j < 0 + K" and P: "?P j t" for j t
  proof -
    obtain msg where t: "t = (replicate cap 0, msg)" "length msg = cap" "\<forall>k < cap. msg ! k = (if k < j then m\<lparr>m_len := len\<rparr> else m)"
      using P by (cases t) auto
    have jc: "j < cap" "u32 j = j" using j K cap by (simp_all add: u32_def)
    have r: "(replicate cap (0 :: nat))[j := 0] = replicate cap 0" using jc by (intro nth_equalityI) (auto simp: nth_list_update)
    have "body j t = Some (replicate cap 0, msg[j := m\<lparr>m_len := len\<rparr>])"
      using jc t(2,3) r by (simp add: body_def t(1) umod_pos rd_ok wr_ok)
    then show ?thesis using t(2,3) jc by (auto simp: nth_list_update)
  qed
  have "?P 0 (replicate cap 0, replicate cap m)" by simp
  from for_range_inv [where P = ?P and i = 0 and n = K and f = body, OF this] step
  show ?thesis unfolding body_def [symmetric] by auto
qed

lemma fresh_send:
  assumes g: "geometry_ok cap n l" and buf: "length buf = cap * (n * l)" and D: "length D = K * (n * l)" "0 < K" "K \<le> cap"
  shows "\<exists>sw. arq__send_wnd_send (fresh_sender cap n l buf) D (length D) tiny = Some (length D, sw) \<and> full_messages D K 0 sw \<and>
    segs (s_w sw) = n \<and> w_seg_len (s_w sw) = l \<and> w_cap (s_w sw) = cap \<and> (\<forall>k < K. s_rtx sw ! k = 0)"
proof -
  let ?sw = "fresh_sender cap n l buf" and ?w = "fresh_wnd cap n l buf" and ?m = "\<lparr>m_len = 0, m_cur_ack_vec = 0, m_full_ack_vec = 2 ^ n - 1\<rparr>"
  have n: "1 \<le> n" "n \<le> 12" "0 < l" "l \<le> 238" "0 < cap" "cap \<le> 4096" "cap dvd 4096"
    using g geometry_msg_len(3) [OF g] by (simp_all add: geometry_ok_def)
  have f: "w_size ?w = 0" "w_seq ?w = 0" "w_cap ?w = cap" "w_msg_len ?w = n * l" "w_buf ?w = buf" "w_msg ?w = replicate cap ?m" "w_seg_len ?w = l"
    "w_full_ack_vec ?w = 2 ^ n - 1"
    by (simp_all add: fresh_wnd_def)
  have sg: "segs ?w = n" using n(3) by (simp add: segs_def fresh_wnd_def)
  have fm: "fresh_msg ?w = ?m" by (simp add: fresh_msg_def fresh_wnd_def)
  have wok: "wnd_ok ?w" using n buf by (simp add: wnd_ok_def sg f)
  have msgs: "msg_at ?w i = ?m" for i using slot_less [OF wok, of i] by (simp add: fresh_wnd_def)
  have ok: "send_wnd_ok ?sw" using wok msgs fm by (auto simp: send_wnd_ok_def fresh_sender_def send_msg_ok_def fresh_wnd_def)
  have sl: "slot ?w i = i mod cap" for i by (simp add: slot_def fresh_wnd_def)
  have DL: "length D \<le> cap * (n * l)" "0 < length D" using D n(1,3) by (simp_all add: mult_le_mono1)
  have tk: "send_take ?w (length D) = length D" using DL msgs [of 0] by (simp add: send_take_def wnd_total_def f)
  have sf: "sent_full ?w (length D) = K" "sent_rest ?w (length D) = 0" "sent_size ?w (length D) = K"
    using D n(1,3) msgs [of 0] by (simp_all add: sent_full_def sent_rest_def sent_size_def f)
  from fresh_fill [OF D(3) n(6), of "n * l" ?m] obtain msg where msg: "for_range 0 K (\<lambda>i (rtx, msg). do {
        k \<leftarrow> umod (u32 i) cap;
        rtx' \<leftarrow> wr rtx k (0 :: nat);
        mk \<leftarrow> rd msg k;
        msg' \<leftarrow> wr msg k (mk\<lparr>m_len := n * l\<rparr>);
        Some (rtx', msg')
      }) (replicate cap 0, replicate cap ?m) = Some (replicate cap 0, msg)" "length msg = cap"
    "\<forall>k < cap. msg ! k = (if k < K then ?m\<lparr>m_len := n * l\<rparr> else ?m)"
    by blast
  let ?w' = "?w\<lparr>w_buf := ring_copy buf 0 D, w_msg := msg, w_size := K\<rparr>"
  let ?sw' = "?sw\<lparr>s_w := ?w', s_rtx := replicate cap 0, s_tiny_on := False\<rparr>"
  have run: "arq__send_wnd_send ?sw D (length D) tiny = Some (length D, ?sw')"
    using send_wnd_send_run [OF ok order_refl DL(2), of "replicate cap 0" msg tiny] msg(1,2) f tk sf msgs [of 0]
    by (simp add: fresh_sender_def sl)
  have rc: "ring_copy buf 0 D = D @ drop (length D) buf" using DL(1) buf by (simp add: ring_copy_def)
  have w': "w_size ?w' = K" "w_seq ?w' = 0" "w_cap ?w' = cap" "w_msg_len ?w' = n * l" "w_seg_len ?w' = l" "w_msg ?w' = msg"
    "w_full_ack_vec ?w' = 2 ^ n - 1" "segs ?w' = n" "fresh_msg ?w' = ?m" "w_buf ?w' = ring_copy buf 0 D"
    using sg by (simp_all add: f segs_def fresh_msg_def)
  have wok': "wnd_ok ?w'"
    unfolding wnd_ok_def w' using n buf DL(1) msg(2) D(3) rc by simp
  have "slot ?w' i = i" if "i < cap" for i using that by (simp add: slot_def w')
  moreover have "full_vec_ok ?w' (2 ^ n - 1)" unfolding full_vec_ok_def w'(8) using n(1) by auto
  moreover have "(0 :: nat) < n * l" using n by simp
  ultimately have "send_msg_ok ?w' i" if "i < cap" for i
    using msg(3) that unfolding send_msg_ok_def w' by simp
  then have "send_wnd_ok ?sw'"
    using wok' unfolding send_wnd_ok_def by (simp add: w' fresh_sender_def)
  then have "full_messages D K 0 ?sw'"
    using D msg(3) rc w' by (simp add: full_messages_def)
  then show ?thesis using run w' D(3) by (intro exI [of _ ?sw']) simp
qed

lemma context_sends:
  assumes c: "cfg_sound c" and s: "abi_ok abi" "required_bytes abi c < 2 ^ 32" "seat_ok c seat" and b: "use_connections b"
    and D: "length D = K * (message_length_in_segments c * segment_length_in_bytes c)" "0 < K" "K \<le> send_window_size_in_messages c"
    and rtx: "0 < retransmission_timeout c"
  shows "\<exists>a a'. ArqContext b abi seat c = Some a \<and> arq_send (Some a) (Some D) (length D) True = Some (ARQ_OK_COMPLETED, Some (length D), Some a') \<and>
    transmits D K 0 0 a' \<and> a_cfg a' = c \<and> segs (s_w (a_send_wnd a')) = message_length_in_segments c \<and>
    w_seg_len (s_w (a_send_wnd a')) = segment_length_in_bytes c \<and> w_cap (s_w (a_send_wnd a')) = send_window_size_in_messages c"
proof -
  let ?n = "message_length_in_segments c" and ?l = "segment_length_in_bytes c" and ?cap = "send_window_size_in_messages c"
  have seat: "arrays_fit c (snd seat)" "0 < fst seat" using s(3) by (simp_all add: seat_ok_def)
  obtain a where a: "ArqContext b abi seat c = Some a" "ready c a"
    using ArqContext_ready [OF c s(1,2) seat] by blast
  have g: "geometry_ok ?cap ?n ?l" using c by (simp add: cfg_sound_def)
  obtain sb where f: "a_send_wnd a = fresh_sender ?cap ?n ?l sb" "length sb = ?cap * (?n * ?l)" "cn_state (a_conn a) = ARQ_CONN_STATE_CLOSED"
    "\<not> a_need_poll a" "\<not> rf_full (a_recv_frame a)" "\<not> p_valid (a_send_wnd_ptr a)" "rf_len (a_recv_frame a) = 0"
    "\<not> r_inter_seg_ack_on (a_recv_wnd a)"
    using ArqContext_fresh [OF c s(1,2) seat b] a(1) by (auto simp: fresh_sender_def)
  obtain sw where sw: "arq__send_wnd_send (a_send_wnd a) D (length D) (tinygram_send_delay c) = Some (length D, sw)" "full_messages D K 0 sw"
    "segs (s_w sw) = ?n" "w_seg_len (s_w sw) = ?l" "\<forall>k < K. s_rtx sw ! k = 0" "w_cap (s_w sw) = ?cap"
    using fresh_send [OF g f(2) D] unfolding f(1) by blast
  have r: "arq_ok a" "idle a" "a_cfg a = c" "sf_len (a_send_frame a) = 0" "sf_state (a_send_frame a) \<noteq> ARQ__SEND_FRAME_STATE_HELD"
    using a(2) by (simp_all add: ready_def idle_def)
  have wl: "w_seg_len (s_w (a_send_wnd a)) = ?l" by (simp add: f(1) fresh_sender_def fresh_wnd_def)
  let ?a = "a\<lparr>a_send_wnd := sw\<rparr>"
  have "transmits D K 0 0 ?a"
    using r f(3,5-8) sw(2,4,5) full_messagesD(1) [OF sw(2)] wl rtx
    by (simp add: transmits_def sender_ready_def arq_ok_def idle_def segments_sent_def Let_def)
  moreover have "arq_send (Some a) (Some D) (length D) True = Some (ARQ_OK_COMPLETED, Some (length D), Some ?a)"
    using sw(1) f(4) r(3) by (simp add: arq_send_def)
  ultimately show ?thesis using a(1) r(3) sw(3,4,6) by (intro exI [of _ a] exI [of _ ?a]) simp
qed

end
