(* ===== verification/Arq_Transfer.thy ===== *)
theory Arq_Transfer imports Arq_Receive Arq_Transmit begin

text \<open>
  From a sender to a receiver: the frames of the polls of one object are filled into another one, each
  followed by a poll. For a sound configuration with a retransmission timeout, a receive window of less than
  2048 messages and a build with connections, what \<open>arq_send\<close> took of full messages is what \<open>arq_recv\<close> gives
  at the other end.
\<close>

section \<open>Messages of a buffer\<close>

text \<open>A buffer cut into messages of \<open>l\<close> bytes; what lies behind its end does not matter.\<close>

definition chop :: "nat \<Rightarrow> byte list \<Rightarrow> nat \<Rightarrow> byte list" where
  "chop l D m = (if l * m < length D then take l (drop (l * m) D) else [0])"

lemma length_chop: "0 < l \<Longrightarrow> 0 < length (chop l D m) \<and> length (chop l D m) \<le> l"
  by (auto simp: chop_def)

lemma concat_chop:
  assumes "0 < l" "k * l \<le> length D"
  shows "concat (map (chop l D) [0..<k]) = take (k * l) D"
  using assms(2)
proof (induction k)
  case (Suc k)
  then have "l * k < length D" using assms(1) by (simp add: mult.commute)
  then have "concat (map (chop l D) [0..<Suc k]) = take (k * l) D @ take l (drop (k * l) D)"
    using Suc by (simp add: chop_def [of l D k] mult.commute)
  also have "\<dots> = take (k * l + l) D" by (simp add: take_add)
  finally show ?case by (simp add: add.commute)
qed simp

lemma full_chop:
  assumes "length D = K * l" "m < K" "0 < l"
  shows "chop l D m = take l (drop (l * m) D)" "length (chop l D m) = l"
proof -
  have "Suc m * l \<le> K * l" using assms(2) by (intro mult_le_mono1) simp
  then have "l * m + l \<le> length D" using assms(1) by (simp add: mult.commute add.commute)
  then show "chop l D m = take l (drop (l * m) D)" "length (chop l D m) = l" using assms(3) by (simp_all add: chop_def)
qed

text \<open>Segment \<open>i\<close> of the buffer is segment \<open>i mod n\<close> of its message \<open>i div n\<close>.\<close>

lemma chop_segment:
  fixes n l i :: nat
  assumes D: "length D = K * (n * l)" and n: "0 < n" "0 < l" and i: "i < K * n"
  shows "msg_seg l (chop (n * l) D (i div n)) (i mod n) = take l (drop (i * l) D)"
proof -
  have iK: "i div n < K" using i by (simp add: less_mult_imp_div_less)
  have s: "i mod n < n" using n by simp
  have "Suc (i mod n) * l \<le> n * l" using s by (intro mult_le_mono1) simp
  then have le: "i mod n * l + l \<le> n * l" by simp
  have ofs: "n * l * (i div n) + i mod n * l = i * l"
  proof -
    have "n * l * (i div n) + i mod n * l = (n * (i div n) + i mod n) * l"
      by (simp only: add_mult_distrib add_mult_distrib2 mult_ac)
    then show ?thesis by simp
  qed
  have "msg_seg l (chop (n * l) D (i div n)) (i mod n) = take l (drop (i mod n * l) (take (n * l) (drop (n * l * (i div n)) D)))"
    using full_chop(1) [OF D iK] n by (simp add: msg_seg_def)
  also have "\<dots> = take l (drop (i mod n * l + n * l * (i div n)) D)"
    using le by (simp add: drop_take min_def)
  finally show ?thesis using ofs by (simp only: add.commute [of "i mod n * l"])
qed

section \<open>Segments in order\<close>

text \<open>The object has taken the first \<open>i\<close> segments of the buffer \<open>D\<close> and no other one, and nothing of it is read.\<close>

definition received :: "arq_cfg_t \<Rightarrow> byte list \<Rightarrow> nat \<Rightarrow> arq_t \<Rightarrow> bool" where
  "received c D i a \<longleftrightarrow> (let n = message_length_in_segments c; l = segment_length_in_bytes c in
     receives (chop (n * l) D) 0 a \<and> a_cfg a = c \<and> r_slide (a_recv_wnd a) = 0 \<and> r_copy_ofs (a_recv_wnd a) = 0 \<and>
     w_cap (r_w (a_recv_wnd a)) = recv_window_size_in_messages c \<and> w_seg_len (r_w (a_recv_wnd a)) = l \<and>
     arrived (chop (n * l) D) 0 (a_recv_wnd a) = {(m, s). m * n + s < i \<and> s < n})"

lemma nothing_arrived:
  assumes h: "recv_holds msgs base rw" and z: "w_size (r_w rw) = 0" "base = 0"
  shows "arrived msgs base rw = {}"
proof -
  have "r_slide rw = 0" using recv_holdsD(4) [OF h] z by simp
  then show ?thesis using has_seg_bound(2) [OF h] z by (auto simp: arrived_def)
qed

lemma fresh_received:
  assumes "cfg_sound c" "abi_ok abi" "required_bytes abi c < 2 ^ 32" "seat_ok c seat" "use_connections b"
    and "recv_window_size_in_messages c < 2048"
  shows "\<exists>a. ArqContext b abi seat c = Some a \<and> received c D 0 a \<and> r_ack (a_recv_wnd a) = replicate (recv_window_size_in_messages c) False \<and>
    \<not> r_inter_seg_ack_on (a_recv_wnd a) \<and> sf_len (a_send_frame a) = 0 \<and> sf_state (a_send_frame a) = ARQ__SEND_FRAME_STATE_FREE \<and>
    cn_state (a_conn a) = ARQ_CONN_STATE_CLOSED"
proof -
  let ?M = "chop (message_length_in_segments c * segment_length_in_bytes c) D"
  have "0 < message_length_in_segments c * segment_length_in_bytes c"
    using assms(1) by (auto simp: cfg_sound_def geometry_ok_def)
  from length_chop [OF this, of D]
  obtain a where "ArqContext b abi seat c = Some a" "receives ?M 0 a" "a_cfg a = c" "r_slide (a_recv_wnd a) = 0" "r_copy_ofs (a_recv_wnd a) = 0"
    "w_cap (r_w (a_recv_wnd a)) = recv_window_size_in_messages c" "w_seg_len (r_w (a_recv_wnd a)) = segment_length_in_bytes c"
    "w_size (r_w (a_recv_wnd a)) = 0" "r_ack (a_recv_wnd a) = replicate (recv_window_size_in_messages c) False"
    "\<not> r_inter_seg_ack_on (a_recv_wnd a)" "sf_len (a_send_frame a) = 0" "sf_state (a_send_frame a) = ARQ__SEND_FRAME_STATE_FREE"
    "cn_state (a_conn a) = ARQ_CONN_STATE_CLOSED"
    using fresh_receives [OF assms, of ?M] by auto
  then show ?thesis using nothing_arrived [OF receivesD(3), of ?M 0 a] by (simp add: received_def Let_def)
qed

lemma insert_segment:
  fixes n :: nat
  assumes "0 < n"
  shows "insert (i div n, i mod n) {(m, s). m * n + s < i \<and> s < n} = {(m, s). m * n + s < Suc i \<and> s < n}"
proof -
  have "(m, s) = (i div n, i mod n) \<longleftrightarrow> m * n + s = i" if "s < n" for m s
    using that assms div_mult_mod_eq [of i n] by auto
  then show ?thesis using assms by (auto simp: less_Suc_eq)
qed

lemma receive_next:
  fixes n l :: nat
  assumes a: "received c D i a" and D: "length D = K * (n * l)" and n: "0 < n" "0 < l" and i: "i < K * n" "K \<le> recv_window_size_in_messages c"
    and nl: "n = message_length_in_segments c" "l = segment_length_in_bytes c" and K: "K \<le> 4096"
    and h: "hdr_fits h" "h_seg h" "h_seq_num h = i div n" "h_seg_id h = i mod n" "h_msg_len h = n"
    and f: "carries (cfg_checksum c) h (take l (drop (i * l) D)) frame k"
  shows "\<exists>a1 out a2. test_fill a frame k = Some a1 \<and> test_poll b a1 0 = Some (out, a2) \<and> received c D (Suc i) a2"
proof -
  let ?m = "i div n" and ?s = "i mod n" and ?M = "chop (n * l) D"
  have t: "receives ?M 0 a" "a_cfg a = c" "r_slide (a_recv_wnd a) = 0" "r_copy_ofs (a_recv_wnd a) = 0"
    "w_cap (r_w (a_recv_wnd a)) = recv_window_size_in_messages c" "w_seg_len (r_w (a_recv_wnd a)) = l"
    "arrived ?M 0 (a_recv_wnd a) = {(m, s). m * n + s < i \<and> s < n}"
    using a nl by (simp_all add: received_def Let_def)
  have iK: "?m < K" using i(1) by (simp add: less_mult_imp_div_less)
  have cnt: "seg_count (r_w (a_recv_wnd a)) (length (?M ?m)) = n"
    using n full_chop(2) [OF D iK] t(6) seg_count_multiple [of "r_w (a_recv_wnd a)" n] by simp
  have "names_segment ?M (r_w (a_recv_wnd a)) ?m ?s h"
    using h n(1) cnt iK K by (simp add: names_segment_def)
  from receive_segment [OF t(1) _ _ this, of frame k b 0] iK i(2) t(2,3,5,6) f chop_segment [OF D n i(1)]
  obtain a1 out a2 base where r: "test_fill a frame k = Some a1" "test_poll b a1 0 = Some (out, a2)" "receives ?M base a2"
    "base + r_slide (a_recv_wnd a2) = 0" "same_shape a a2" "arrived ?M base (a_recv_wnd a2) = insert (?m, ?s) (arrived ?M 0 (a_recv_wnd a))"
    by (simp, elim exE conjE, simp)
  have "received c D (Suc i) a2"
    using r(3-6) t(2-7) insert_segment [OF n(1), of i] by (simp add: received_def Let_def nl [symmetric] same_shape_def del: insert_Collect)
  then show ?thesis using r(1,2) by blast
qed

text \<open>When all segments are there, the buffer can be read.\<close>

lemma received_avail:
  fixes n l :: nat
  assumes a: "received c D (K * n) a" and D: "length D = K * (n * l)" and n: "0 < n" "0 < l" and K: "K \<le> recv_window_size_in_messages c"
    and nl: "n = message_length_in_segments c" "l = segment_length_in_bytes c"
  shows "receives (chop (n * l) D) 0 a" "\<exists>zs. avail (chop (n * l) D) 0 (a_recv_wnd a) = D @ zs"
proof -
  let ?M = "chop (n * l) D"
  have t: "receives ?M 0 a" "r_slide (a_recv_wnd a) = 0" "r_copy_ofs (a_recv_wnd a) = 0"
    "w_cap (r_w (a_recv_wnd a)) = recv_window_size_in_messages c" "w_seg_len (r_w (a_recv_wnd a)) = l"
    "arrived ?M 0 (a_recv_wnd a) = {(m, s). m * n + s < K * n \<and> s < n}"
    using a nl by (simp_all add: received_def Let_def)
  show "receives ?M 0 a" by (rule t(1))
  have "(m, s) \<in> arrived ?M 0 (a_recv_wnd a)" if q: "m < K" "s < seg_count (r_w (a_recv_wnd a)) (length (?M m))" for m s
  proof -
    have "s < n" using q n full_chop(2) [OF D q(1)] t(5) seg_count_multiple [of "r_w (a_recv_wnd a)" n] by simp
    moreover have "Suc m * n \<le> K * n" using q(1) by (intro mult_le_mono1) simp
    ultimately show ?thesis using t(6) by simp
  qed
  then have "\<exists>zs. avail ?M 0 (a_recv_wnd a) = concat (map ?M [0..<K]) @ zs"
    using read_messages [OF t(1,3), of K] t(2,4) K by simp
  moreover have "concat (map ?M [0..<K]) = D" using concat_chop [of "n * l" K D] D n by simp
  ultimately show "\<exists>zs. avail ?M 0 (a_recv_wnd a) = D @ zs" by simp
qed

section \<open>The transfer\<close>

text \<open>A frame of the sender goes to the receiver, as the tests have it.\<close>

definition transfer_segment ::
  "build \<Rightarrow> byte list \<times> arq_t \<times> arq_t \<Rightarrow> (byte list \<times> arq_t \<times> arq_t) option" where
  "transfer_segment b = (\<lambda>(frame, sender, receiver). do {
     (out, sender) \<leftarrow> test_poll b sender 0;
     CHECK (po_send_ready out);
     (frame_len, frame, sender) \<leftarrow> test_drain sender frame;
     receiver \<leftarrow> test_fill receiver frame frame_len;
     (out, receiver) \<leftarrow> test_poll b receiver 0;
     Some (frame, sender, receiver)
   })"

text \<open>Sender, receiver and the buffer between them, before round \<open>i\<close>.\<close>

definition sends :: "arq_cfg_t \<Rightarrow> byte list \<Rightarrow> nat \<Rightarrow> nat \<Rightarrow> nat \<Rightarrow> arq_t \<Rightarrow> bool" where
  "sends c D K k i a \<longleftrightarrow> transmits D K k i a \<and> a_cfg a = c \<and>
     segs (s_w (a_send_wnd a)) = message_length_in_segments c \<and> w_seg_len (s_w (a_send_wnd a)) = segment_length_in_bytes c"

definition transferred :: "arq_cfg_t \<Rightarrow> byte list \<Rightarrow> nat \<Rightarrow> nat \<Rightarrow> byte list \<times> arq_t \<times> arq_t \<Rightarrow> bool" where
  "transferred c D K i = (\<lambda>(frame, sender, receiver). 256 \<le> length frame \<and> sends c D K 0 i sender \<and> received c D i receiver)"

lemma drained_frame:
  assumes c: "carries cs h bs (sf_buf (a_send_frame a)) n" "sf_len (a_send_frame a) = n" and f: "256 \<le> length frame"
  shows "\<exists>frame'. test_drain a frame = Some (n, frame',
      a\<lparr>a_send_frame := (a_send_frame a)\<lparr>sf_len := 0, sf_state := ARQ__SEND_FRAME_STATE_RELEASED\<rparr>, a_need_poll := True\<rparr>) \<and>
    carries cs h bs frame' n \<and> 256 \<le> length frame'"
  using test_drain_ok [of cs h bs a frame] c f by auto

lemma sent_frame:
  fixes n l :: nat
  assumes a: "sends c D K k i a" and b: "use_connections b" and i: "i < K * n" and f: "256 \<le> length frame"
    and nl: "n = message_length_in_segments c" "l = segment_length_in_bytes c"
  shows "\<exists>out a1 frame' a2. test_poll b a 0 = Some (out, a1) \<and> po_send_ready out \<and> test_drain a1 frame = Some (18 + l, frame', a2) \<and>
    256 \<le> length frame' \<and> carries (cfg_checksum c) ((data_hdr n i)\<lparr>h_seg_len := l\<rparr>) (take l (drop (i * l) D)) frame' (18 + l) \<and>
    sends c D K k (Suc i) a2"
proof -
  have t: "transmits D K k i a" "a_cfg a = c" and g: "segs (s_w (a_send_wnd a)) = n" "w_seg_len (s_w (a_send_wnd a)) = l"
    using a nl by (simp_all add: sends_def)
  have "i < K * segs (s_w (a_send_wnd a))" using i g(1) by simp
  then obtain out a1 where p: "backend_poll b a 0 = Some (out, a1)" "po_send_ready out" "a_cfg a1 = c"
    "s_w (a_send_wnd a1) = s_w (a_send_wnd a)" "sf_len (a_send_frame a1) = 18 + l"
    "carries (cfg_checksum c) ((data_hdr n i)\<lparr>h_seg_len := l\<rparr>) (take l (drop (i * l) D)) (sf_buf (a_send_frame a1)) (18 + l)"
    "transmits D K k (Suc i) (a1\<lparr>a_send_frame := (a_send_frame a1)\<lparr>sf_len := 0, sf_state := ARQ__SEND_FRAME_STATE_RELEASED\<rparr>, a_need_poll := True\<rparr>)"
    using poll_segment [OF t(1) b] t(2) g by (auto simp del: One_nat_def)
  then show ?thesis using drained_frame [OF p(6,5) f] nl g by (auto simp: test_poll_eq sends_def)
qed

lemma data_hdr_segment:
  fixes n :: nat
  assumes n: "0 < n" "n \<le> 12" "l \<le> 238" and i: "i < K * n" and K: "K \<le> 4096"
  shows "hdr_fits ((data_hdr n i)\<lparr>h_seg_len := l\<rparr>)" "h_seg ((data_hdr n i)\<lparr>h_seg_len := l\<rparr>)"
    "h_seq_num ((data_hdr n i)\<lparr>h_seg_len := l\<rparr>) = i div n" "h_seg_id ((data_hdr n i)\<lparr>h_seg_len := l\<rparr>) = i mod n"
    "h_msg_len ((data_hdr n i)\<lparr>h_seg_len := l\<rparr>) = n"
proof -
  have "i div n < K" "i mod n < n" using i n(1) by (simp_all add: less_mult_imp_div_less)
  then show "hdr_fits ((data_hdr n i)\<lparr>h_seg_len := l\<rparr>)" "h_seg ((data_hdr n i)\<lparr>h_seg_len := l\<rparr>)"
    "h_seq_num ((data_hdr n i)\<lparr>h_seg_len := l\<rparr>) = i div n" "h_seg_id ((data_hdr n i)\<lparr>h_seg_len := l\<rparr>) = i mod n"
    "h_msg_len ((data_hdr n i)\<lparr>h_seg_len := l\<rparr>) = n"
    using n K less_trans [of "i mod n" n 4096] by (simp_all add: data_hdr_def hdr_fits_def arq__frame_hdr_init_def)
qed

text \<open>A round, for a receiver that takes the segment.\<close>

lemma transfer_round:
  assumes c: "cfg_sound c" and b: "use_connections b" and i: "i < K * message_length_in_segments c"
    and s: "256 \<le> length frame" "sends c D K k i s"
    and r: "\<And>f. carries (cfg_checksum c) ((data_hdr (message_length_in_segments c) i)\<lparr>h_seg_len := segment_length_in_bytes c\<rparr>)
        (take (segment_length_in_bytes c) (drop (i * segment_length_in_bytes c) D)) f (18 + segment_length_in_bytes c) \<Longrightarrow>
      \<exists>r1 out r2. test_fill r f (18 + segment_length_in_bytes c) = Some r1 \<and> test_poll b r1 0 = Some (out, r2) \<and> R r2"
  shows "\<exists>f s' r'. transfer_segment b (frame, s, r) = Some (f, s', r') \<and> 256 \<le> length f \<and> sends c D K k (Suc i) s' \<and> R r'"
proof -
  obtain o1 s1 f s2 where 1: "test_poll b s 0 = Some (o1, s1)" "po_send_ready o1"
    "test_drain s1 frame = Some (18 + segment_length_in_bytes c, f, s2)" "256 \<le> length f"
    "carries (cfg_checksum c) ((data_hdr (message_length_in_segments c) i)\<lparr>h_seg_len := segment_length_in_bytes c\<rparr>)
      (take (segment_length_in_bytes c) (drop (i * segment_length_in_bytes c) D)) f (18 + segment_length_in_bytes c)"
    "sends c D K k (Suc i) s2"
    using sent_frame [OF s(2) b i s(1) refl refl] by blast
  obtain r1 o2 r2 where "test_fill r f (18 + segment_length_in_bytes c) = Some r1" "test_poll b r1 0 = Some (o2, r2)" "R r2"
    using r [OF 1(5)] by blast
  then show ?thesis using 1 by (simp add: transfer_segment_def)
qed

lemma cfg_sizes:
  assumes "cfg_sound c"
  shows "0 < message_length_in_segments c" "message_length_in_segments c \<le> 12" "0 < segment_length_in_bytes c"
    "segment_length_in_bytes c \<le> 238" "recv_window_size_in_messages c \<le> 4096"
  using assms geometry_msg_len(3) by (auto simp: cfg_sound_def geometry_ok_def)

lemma transfer_step:
  assumes c: "cfg_sound c" and b: "use_connections b"
    and D: "length D = K * (message_length_in_segments c * segment_length_in_bytes c)" and K: "K \<le> recv_window_size_in_messages c"
    and i: "i < K * message_length_in_segments c" and st: "transferred c D K i st"
  shows "\<exists>st'. transfer_segment b st = Some st' \<and> transferred c D K (Suc i) st'"
proof -
  obtain frame s r where t: "st = (frame, s, r)" "256 \<le> length frame" "sends c D K 0 i s" "received c D i r"
    using st by (cases st) (auto simp: transferred_def)
  note nl = cfg_sizes [OF c]
  have K4: "K \<le> 4096" using K nl(5) by simp
  show ?thesis
    using transfer_round [OF c b i t(2,3) receive_next [OF t(4) D nl(1,3) i K refl refl K4 data_hdr_segment [OF nl(1,2,4) i K4]]]
    by (auto simp: t(1) transferred_def)
qed

lemma transfer_loop:
  assumes c: "cfg_sound c" and b: "use_connections b" and D: "length D = K * (message_length_in_segments c * segment_length_in_bytes c)"
    and K: "K \<le> recv_window_size_in_messages c" and st: "transferred c D K 0 st"
  shows "\<exists>st'. for_range 0 (K * message_length_in_segments c) (\<lambda>i. transfer_segment b) st = Some st' \<and>
    transferred c D K (K * message_length_in_segments c) st'"
  using for_range_inv [where P = "transferred c D K" and i = 0 and f = "\<lambda>i. transfer_segment b", OF st]
    transfer_step [OF c b D K] by simp

text \<open>Two fresh objects, one with the buffer in its window.\<close>

lemma transfer_start:
  assumes c: "cfg_sound c" "recv_window_size_in_messages c < 2048" "0 < retransmission_timeout c"
    and s: "abi_ok abi" "required_bytes abi c < 2 ^ 32" "seat_ok c seat1" "seat_ok c seat2" and b: "use_connections b"
    and D: "length D = K * (message_length_in_segments c * segment_length_in_bytes c)" "0 < K" "K \<le> send_window_size_in_messages c"
    and f: "256 \<le> length frame"
  shows "\<exists>sender receiver sender'. ArqContext b abi seat1 c = Some sender \<and> ArqContext b abi seat2 c = Some receiver \<and>
    arq_send (Some sender) (Some D) (length D) True = Some (ARQ_OK_COMPLETED, Some (length D), Some sender') \<and>
    transferred c D K 0 (frame, sender', receiver)"
  using context_sends [OF c(1) s(1,2,3) b D c(3)] fresh_received [OF c(1) s(1,2,4) b c(2), of D] f
  by (auto simp: transferred_def sends_def)

text \<open>What has been received can be read.\<close>

lemma received_read:
  assumes c: "cfg_sound c" and w: "recv_window_size_in_messages c < 2048" and r: "received c D (K * message_length_in_segments c) a"
    and D: "length D = K * (message_length_in_segments c * segment_length_in_bytes c)" and K: "K \<le> recv_window_size_in_messages c"
  shows "\<exists>a'. arq_recv (Some a) True (length D) True = Some (ARQ_OK_COMPLETED, Some D, Some a')"
proof -
  let ?n = "message_length_in_segments c" and ?l = "segment_length_in_bytes c"
  have g: "0 < ?n" "0 < ?l" "?n * ?l \<le> 2856" using c geometry_msg_len(2) by (auto simp: cfg_sound_def geometry_ok_def)
  have "K * (?n * ?l) \<le> 2048 * 2856" using K w g(3) by (intro mult_le_mono) simp_all
  then have "length D < 2 ^ 32" using D by simp
  from receive_read [OF received_avail(1) [OF r D g(1,2) K refl refl] this] received_avail(2) [OF r D g(1,2) K refl refl]
  show ?thesis by auto
qed

end
