(* ===== verification/Arq_Window_Tests.thy ===== *)
theory Arq_Window_Tests imports Arq_Transfer begin

text \<open>
  The functional tests that fill the receive window of an object with frames written by hand and read it:
  \<open>recv_full_window_in_one_call\<close>, \<open>recv_full_window_one_byte_at_a_time\<close>,
  \<open>recv_full_window_one_segment_at_a_time\<close> and \<open>recv_full_frame_partial_frame_full_frame\<close>. They pass by
  what \<open>Arq_Receive\<close> shows of an object that is fed segments.
\<close>

section \<open>Loops\<close>

text \<open>A \<open>while\<close> loop of a test; a loop that does not end has no result.\<close>

partial_function (option) while_loop :: "('s \<Rightarrow> bool) \<Rightarrow> ('s \<Rightarrow> 's option) \<Rightarrow> 's \<Rightarrow> 's option" where
  "while_loop c f s = (if c s then do { s' \<leftarrow> f s; while_loop c f s' } else Some s)"

lemma while_loop_rounds:
  assumes "P i s" "i \<le> n" "\<And>j t. j < n \<Longrightarrow> P j t \<Longrightarrow> c t \<and> (\<exists>t'. f t = Some t' \<and> P (Suc j) t')" "\<And>t. P n t \<Longrightarrow> \<not> c t"
  shows "\<exists>s'. while_loop c f s = Some s' \<and> P n s'"
  using assms(1,2)
proof (induction "n - i" arbitrary: i s)
  case 0
  then show ?case using assms(4) [of s] by (simp add: while_loop.simps [of c f s])
next
  case (Suc k)
  have "i < n" "k = n - Suc i" using Suc.hyps(2) by simp_all
  then obtain t where t: "c s" "f s = Some t" "P (Suc i) t" using assms(3) [OF _ Suc.prems(1)] by blast
  obtain s' where "while_loop c f t = Some s'" "P n s'" using Suc.hyps(1) [OF \<open>k = n - Suc i\<close> t(3)] \<open>i < n\<close> by auto
  then show ?case using t by (simp add: while_loop.simps [of c f s])
qed

section \<open>The tests\<close>

text \<open>
  The configuration, with the fields the tests do not set in \<open>cfg\<close>; \<open>h0\<close> is what the header \<open>h\<close>, which the
  tests of a full window initialise in part, holds before.
\<close>

definition window_cfg :: "arq_cfg_t \<Rightarrow> arq_cfg_t" where
  "window_cfg cfg = cfg\<lparr>segment_length_in_bytes := 220, message_length_in_segments := 4,
     send_window_size_in_messages := 16, recv_window_size_in_messages := 16, retransmission_timeout := 100,
     cfg_checksum := crc32_checksum, connection_rst_attempts := 10, connection_rst_period := 100\<rparr>"

text \<open>A \<open>std::vector\<close> that is given the size \<open>n\<close>.\<close>

definition resize :: "nat \<Rightarrow> byte list \<Rightarrow> byte list" where
  "resize n v = take n v @ replicate (n - length v) 0"

text \<open>The body of the loop that loads the window, the same in the three tests.\<close>

definition load_segment ::
  "build \<Rightarrow> arq_cfg_t \<Rightarrow> byte list \<Rightarrow> arq__frame_hdr_t \<times> byte list \<times> nat \<times> arq_t
   \<Rightarrow> (arq__frame_hdr_t \<times> byte list \<times> nat \<times> arq_t) option" where
  "load_segment b cfg test_input = (\<lambda>(h, frame, test_input_offset, ctx). do {
     let h = h\<lparr>h_seg := True, h_seg_len := arq__min (segment_length_in_bytes cfg) (u32 (length test_input - test_input_offset))\<rparr>;
     n \<leftarrow> arq__frame_len b (h_seg_len h);
     let frame = resize n frame;
     (frame_len, frame) \<leftarrow> arq__frame_write b h (Some (drop test_input_offset test_input)) crc32_checksum frame (length frame);
     let test_input_offset = test_input_offset + h_seg_len h;
     let h = h\<lparr>h_seq_num := u32 (h_seq_num h + (if h_seg_id h = sub32 (message_length_in_segments cfg) 1 then 1 else 0))\<rparr>;
     seg_id \<leftarrow> umod (u32 (h_seg_id h + 1)) (message_length_in_segments cfg);
     let h = h\<lparr>h_seg_id := seg_id\<rparr>;
     ctx \<leftarrow> test_fill ctx frame frame_len;
     (out, ctx) \<leftarrow> test_poll b ctx 0;
     Some (h, frame, test_input_offset, ctx)
   })"

definition recv_full_window_in_one_call ::
  "build \<Rightarrow> abi \<Rightarrow> arq_cfg_t \<Rightarrow> nat \<times> arq_t \<Rightarrow> arq__frame_hdr_t \<Rightarrow> unit option" where
  "recv_full_window_in_one_call b abi cfg0 seat h0 = do {
     let cfg = window_cfg cfg0;
     ctx \<leftarrow> ArqContext b abi seat cfg;
     let test_input = test_data b (recv_window_size_in_messages cfg * message_length_in_segments cfg * segment_length_in_bytes cfg);
     let h = h0\<lparr>h_msg_len := message_length_in_segments cfg, h_seg_id := 0, h_seq_num := 0, h_cur_ack_vec := 0\<rparr>;
     (h, frame, test_input_offset, ctx) \<leftarrow> while_loop (\<lambda>(h, frame, test_input_offset, ctx). test_input_offset < length test_input)
       (load_segment b cfg test_input) (h, [], 0, ctx);
     CHECK (length test_input = test_input_offset);
     (e, test_output, arq) \<leftarrow> arq_recv (Some ctx) True (length test_input) True;
     CHECK (ARQ_SUCCEEDED e);
     bs \<leftarrow> test_output;
     CHECK (length test_input = length bs);
     CHECK (test_input = bs)
   }"

definition recv_full_window_one_byte_at_a_time ::
  "build \<Rightarrow> abi \<Rightarrow> arq_cfg_t \<Rightarrow> nat \<times> arq_t \<Rightarrow> arq__frame_hdr_t \<Rightarrow> unit option" where
  "recv_full_window_one_byte_at_a_time b abi cfg0 seat h0 = do {
     let cfg = window_cfg cfg0;
     ctx \<leftarrow> ArqContext b abi seat cfg;
     let test_input = test_data b (recv_window_size_in_messages cfg * message_length_in_segments cfg * segment_length_in_bytes cfg);
     let h = h0\<lparr>h_msg_len := message_length_in_segments cfg, h_seg_id := 0, h_seq_num := 0, h_cur_ack_vec := 0\<rparr>;
     (h, frame, test_input_offset, ctx) \<leftarrow> while_loop (\<lambda>(h, frame, test_input_offset, ctx). test_input_offset < length test_input)
       (load_segment b cfg test_input) (h, [], 0, ctx);
     CHECK (length test_input = test_input_offset);
     (test_output, ctx) \<leftarrow> while_loop (\<lambda>(test_output, ctx). length test_output < length test_input) (\<lambda>(test_output, ctx). do {
       (e, byte, arq) \<leftarrow> arq_recv (Some ctx) True 1 True;
       CHECK (ARQ_SUCCEEDED e);
       bs \<leftarrow> byte;
       CHECK (1 = length bs);
       ctx \<leftarrow> arq;
       Some (test_output @ bs, ctx)
     }) ([], ctx);
     CHECK (length test_input = length test_output);
     CHECK (test_input = test_output)
   }"

definition recv_full_window_one_segment_at_a_time ::
  "build \<Rightarrow> abi \<Rightarrow> arq_cfg_t \<Rightarrow> nat \<times> arq_t \<Rightarrow> arq__frame_hdr_t \<Rightarrow> unit option" where
  "recv_full_window_one_segment_at_a_time b abi cfg0 seat h0 = do {
     let cfg = window_cfg cfg0;
     ctx \<leftarrow> ArqContext b abi seat cfg;
     let test_input = test_data b (recv_window_size_in_messages cfg * message_length_in_segments cfg * segment_length_in_bytes cfg);
     let h = h0\<lparr>h_msg_len := message_length_in_segments cfg, h_seg_id := 0, h_seq_num := 0, h_cur_ack_vec := 0\<rparr>;
     (h, frame, test_input_offset, ctx) \<leftarrow> while_loop (\<lambda>(h, frame, test_input_offset, ctx). test_input_offset < length test_input)
       (load_segment b cfg test_input) (h, [], 0, ctx);
     CHECK (length test_input = test_input_offset);
     (test_output, ctx) \<leftarrow> while_loop (\<lambda>(test_output, ctx). length test_output < length test_input) (\<lambda>(test_output, ctx). do {
       (e, recv, arq) \<leftarrow> arq_recv (Some ctx) True (segment_length_in_bytes cfg) True;
       CHECK (ARQ_SUCCEEDED e);
       bs \<leftarrow> recv;
       CHECK (length bs > 0);
       ctx \<leftarrow> arq;
       Some (test_output @ bs, ctx)
     }) ([], ctx);
     CHECK (length test_input = length test_output);
     CHECK (test_input = test_output)
   }"

text \<open>One of the three blocks of the test of a partial message, and the test.\<close>

definition partial_cfg :: "arq_cfg_t \<Rightarrow> arq_cfg_t" where
  "partial_cfg cfg = cfg\<lparr>segment_length_in_bytes := 64, message_length_in_segments := 1,
     send_window_size_in_messages := 16, recv_window_size_in_messages := 16, retransmission_timeout := 100,
     cfg_checksum := crc32_checksum, connection_rst_attempts := 10, connection_rst_period := 100\<rparr>"

definition load_message ::
  "build \<Rightarrow> arq_cfg_t \<Rightarrow> byte list \<Rightarrow> nat \<Rightarrow> nat \<Rightarrow> byte list \<times> arq_t \<Rightarrow> (byte list \<times> arq_t) option" where
  "load_message b cfg seg seq seg_len = (\<lambda>(frame, ctx). do {
     let h = arq__frame_hdr_init\<lparr>h_seg := True, h_seq_num := seq, h_seg_len := seg_len, h_msg_len := 1\<rparr>;
     (frame_len, frame) \<leftarrow> arq__frame_write b h (Some seg) (cfg_checksum cfg) frame (length frame);
     n \<leftarrow> arq__frame_len b seg_len;
     CHECK (n = frame_len);
     ctx \<leftarrow> test_fill ctx frame frame_len;
     (out, ctx) \<leftarrow> test_poll b ctx 0;
     CHECK (po_send_ready out \<and> po_recv_ready out);
     Some (frame, ctx)
   })"

definition recv_full_frame_partial_frame_full_frame ::
  "build \<Rightarrow> abi \<Rightarrow> arq_cfg_t \<Rightarrow> nat \<times> arq_t \<Rightarrow> unit option" where
  "recv_full_frame_partial_frame_full_frame b abi cfg0 seat = do {
     let cfg = partial_cfg cfg0;
     ctx \<leftarrow> ArqContext b abi seat cfg;
     let test_input = test_data b (segment_length_in_bytes cfg * 2 + 1);
     n \<leftarrow> arq__frame_len b (segment_length_in_bytes cfg);
     let frame = resize n [];
     \<comment> \<open>load full message\<close>
     (frame, ctx) \<leftarrow> load_message b cfg test_input 0 (segment_length_in_bytes cfg) (frame, ctx);
     \<comment> \<open>load one byte\<close>
     (frame, ctx) \<leftarrow> load_message b cfg (drop (segment_length_in_bytes cfg) test_input) 1 1 (frame, ctx);
     \<comment> \<open>load full message\<close>
     (frame, ctx) \<leftarrow> load_message b cfg (drop (segment_length_in_bytes cfg + 1) test_input) 2 (segment_length_in_bytes cfg) (frame, ctx);
     \<comment> \<open>receive the full bit/small/big message trio\<close>
     (e, test_output, arq) \<leftarrow> arq_recv (Some ctx) True (length test_input) True;
     CHECK (ARQ_SUCCEEDED e);
     bs \<leftarrow> test_output;
     CHECK (length test_input = length bs);
     CHECK (test_input = bs)
   }"

section \<open>Loading the window\<close>

text \<open>The loop of the tests before round \<open>i\<close>.\<close>

definition loaded :: "arq_cfg_t \<Rightarrow> byte list \<Rightarrow> nat \<Rightarrow> arq__frame_hdr_t \<times> byte list \<times> nat \<times> arq_t \<Rightarrow> bool" where
  "loaded c D i = (\<lambda>(h, frame, ofs, a). ofs = 220 * i \<and> hdr_fits h \<and> h_msg_len h = 4 \<and> h_seg_id h = i mod 4 \<and> h_seq_num h = i div 4 \<and>
     received c D i a)"

lemma window_cfg_sel [simp]:
  "segment_length_in_bytes (window_cfg c) = 220" "message_length_in_segments (window_cfg c) = 4"
  "recv_window_size_in_messages (window_cfg c) = 16" "cfg_checksum (window_cfg c) = crc32_checksum"
  by (simp_all add: window_cfg_def)

lemma window_cfg_sound: "cfg_ranges c \<Longrightarrow> cfg_sound (window_cfg c)"
  by (simp add: cfg_sound_def window_cfg_def arq__check_cfg_def cfg_ranges_def geometry_ok_def)

lemma length_resize [simp]: "length (resize n v) = n"
  by (simp add: resize_def)

lemma load_segment_step:
  assumes l: "loaded (window_cfg c) D i st" and i: "i < 64" and D: "length D = 14080"
  shows "\<exists>st'. load_segment b (window_cfg c) D st = Some st' \<and> loaded (window_cfg c) D (Suc i) st'"
proof -
  obtain h frame a where st: "st = (h, frame, 220 * i, a)" and h: "hdr_fits h" "h_msg_len h = 4" "h_seg_id h = i mod 4" "h_seq_num h = i div 4"
    and a: "received (window_cfg c) D i a"
    using l by (cases st) (auto simp: loaded_def)
  let ?h = "h\<lparr>h_seg := True, h_seg_len := 220\<rparr>" and ?p = "take 220 (drop (i * 220) D)"
  have hh: "hdr_fits ?h" using h(1) by (simp add: hdr_fits_def)
  have av: "220 \<le> length (drop (220 * i) D)" using i D by simp
  have sl: "arq__min 220 (u32 (14080 - 220 * i)) = 220" using i by (simp add: arq__min_def u32_def)
  obtain out where w: "arq__frame_write b ?h (Some (drop (220 * i) D)) crc32_checksum (resize 238 frame) 238 = Some (238, out)"
    "carries crc32_checksum ?h ?p out 238"
    using carries_written [OF hh, of "Some (drop (220 * i) D)" 238 "resize 238 frame" b crc32_checksum] av
    by (auto simp: seg_readable_def seg_bytes_def mult.commute)
  have D': "length D = 16 * (4 * 220)" using D by simp
  have "\<exists>a1 o1 a2. test_fill a out 238 = Some a1 \<and> test_poll b a1 0 = Some (o1, a2) \<and> received (window_cfg c) D (Suc i) a2"
    by (rule receive_next [OF a D', of ?h out 238 b]) (use i hh h(2-4) w(2) in simp_all)
  then obtain a1 o1 a2 where r: "test_fill a out 238 = Some a1" "test_poll b a1 0 = Some (o1, a2)" "received (window_cfg c) D (Suc i) a2"
    by blast
  let ?h' = "?h\<lparr>h_seq_num := Suc i div 4, h_seg_id := Suc i mod 4\<rparr>"
  have nx: "u32 (i div 4 + (if i mod 4 = sub32 4 1 then 1 else 0)) = Suc i div 4" "u32 (i mod 4 + 1) = i mod 4 + 1"
    "(i mod 4 + 1) mod 4 = Suc i mod 4"
    using i by (auto simp: u32_def sub32_def div_Suc mod_Suc)
  have "load_segment b (window_cfg c) D st = Some (?h', out, 220 * Suc i, a2)"
    using w(1) r(1,2) sl nx h(3,4) D
    by (simp add: load_segment_def st arq__frame_len_ok umod_pos del: add_Suc_right One_nat_def)
  then show ?thesis
    using hh h(2) r(3) i by (auto simp: loaded_def hdr_fits_def)
qed

text \<open>The loop puts the whole buffer into the window.\<close>

lemma load_window:
  assumes c: "cfg_ranges c" and s: "abi_ok abi" "required_bytes abi (window_cfg c) < 2 ^ 32" "seat_ok (window_cfg c) seat"
    and b: "use_connections b" and D: "length D = 14080" and h: "hdr_fits h0"
  shows "\<exists>ctx h frame a. ArqContext b abi seat (window_cfg c) = Some ctx \<and>
    while_loop (\<lambda>(h, frame, ofs, ctx). ofs < length D) (load_segment b (window_cfg c) D)
      (h0\<lparr>h_msg_len := 4, h_seg_id := 0, h_seq_num := 0, h_cur_ack_vec := 0\<rparr>, [], 0, ctx) = Some (h, frame, 14080, a) \<and>
    receives (chop 880 D) 0 a \<and> (\<exists>zs. avail (chop 880 D) 0 (a_recv_wnd a) = D @ zs)"
proof -
  let ?c = "window_cfg c" and ?h = "h0\<lparr>h_msg_len := 4, h_seg_id := 0, h_seq_num := 0, h_cur_ack_vec := 0\<rparr>"
  obtain ctx where ctx: "ArqContext b abi seat ?c = Some ctx" "received ?c D 0 ctx"
    using fresh_received [OF window_cfg_sound [OF c] s b, of D] by auto
  have "loaded ?c D 0 (?h, [], 0, ctx)" using ctx(2) h by (simp add: loaded_def hdr_fits_def)
  from while_loop_rounds [where P = "loaded ?c D" and n = 64 and f = "load_segment b ?c D" and c = "\<lambda>(h, frame, ofs, ctx). ofs < length D", OF this]
    load_segment_step [OF _ _ D] D
  obtain st where st: "while_loop (\<lambda>(h, frame, ofs, ctx). ofs < length D) (load_segment b ?c D) (?h, [], 0, ctx) = Some st" "loaded ?c D 64 st"
    by (auto simp: loaded_def)
  then obtain h frame a where l: "st = (h, frame, 14080, a)" "received ?c D 64 a" by (cases st) (auto simp: loaded_def)
  have D': "length D = 16 * (4 * 220)" using D by simp
  have all: "received ?c D (16 * 4) a" using l(2) by simp
  have "receives (chop (4 * 220) D) 0 a" by (rule received_avail(1) [OF all D']) simp_all
  moreover have "\<exists>zs. avail (chop (4 * 220) D) 0 (a_recv_wnd a) = D @ zs" by (rule received_avail(2) [OF all D']) simp_all
  ultimately have "receives (chop 880 D) 0 a" "\<exists>zs. avail (chop 880 D) 0 (a_recv_wnd a) = D @ zs" by simp_all
  then show ?thesis using ctx(1) st(1) l(1) by blast
qed

section \<open>Reading the window\<close>

text \<open>
  A loop that reads \<open>n\<close> bytes in each round; \<open>chk\<close> is what the test checks of them, \<open>put\<close> what it appends
  to its output.
\<close>

definition read_round ::
  "(byte list \<Rightarrow> bool) \<Rightarrow> (byte list \<Rightarrow> byte list) \<Rightarrow> nat \<Rightarrow> byte list \<times> arq_t \<Rightarrow> (byte list \<times> arq_t) option" where
  "read_round chk put n = (\<lambda>(test_output, ctx). do {
     (e, data, arq) \<leftarrow> arq_recv (Some ctx) True n True;
     CHECK (ARQ_SUCCEEDED e);
     bs \<leftarrow> data;
     CHECK (chk bs);
     ctx \<leftarrow> arq;
     Some (test_output @ put bs, ctx)
   })"

lemma read_loop:
  assumes a: "receives msgs base a" "\<exists>zs. avail msgs base (a_recv_wnd a) = D @ zs"
    and n: "0 < n" "n < 2 ^ 32" "length D = n * k" and chk: "\<And>bs. length bs = n \<Longrightarrow> chk bs \<and> put bs = bs"
  shows "\<exists>a'. while_loop (\<lambda>(out, ctx). length out < length D) (read_round chk put n) ([], a) = Some (D, a')"
proof -
  let ?P = "\<lambda>i (out, ctx). receives msgs base ctx \<and> out = take (n * i) D \<and> (\<exists>zs. avail msgs base (a_recv_wnd ctx) = drop (n * i) D @ zs)"
  let ?c = "\<lambda>(out, ctx). length out < length D"
  have step: "?c st \<and> (\<exists>st'. read_round chk put n st = Some st' \<and> ?P (Suc j) st')" if j: "j < k" and P: "?P j st" for j st
  proof -
    obtain ctx zs where st: "st = (take (n * j) D, ctx)" "receives msgs base ctx" "avail msgs base (a_recv_wnd ctx) = drop (n * j) D @ zs"
      using P by (cases st) auto
    have "n * Suc j \<le> n * k" using j by (intro mult_le_mono) simp_all
    then have len: "n * j + n \<le> length D" using n(3) by simp
    from receive_read [OF st(2) n(2)] obtain ctx' where r: "arq_recv (Some ctx) True n True =
        Some (ARQ_OK_COMPLETED, Some (take n (drop (n * j) D)), Some ctx')" "receives msgs base ctx'"
      "avail msgs base (a_recv_wnd ctx') = drop n (drop (n * j) D) @ zs"
      using len by (auto simp: st(3))
    have "chk (take n (drop (n * j) D)) \<and> put (take n (drop (n * j) D)) = take n (drop (n * j) D)" using len by (intro chk) simp
    then have "read_round chk put n st = Some (take (n * Suc j) D, ctx')"
      using r(1) by (simp add: read_round_def st(1) ARQ_SUCCEEDED_iff take_add add.commute [of n])
    moreover have "?P (Suc j) (take (n * Suc j) D, ctx')" using r(2,3) by (simp add: add.commute)
    moreover have "?c st" using len n(1) st(1) by simp
    ultimately show ?thesis by blast
  qed
  have "?P 0 ([], a)" using a by simp
  from while_loop_rounds [where P = ?P and i = 0 and n = k and c = ?c and f = "read_round chk put n", OF this] step n(3)
  have "\<exists>st. while_loop ?c (read_round chk put n) ([], a) = Some st \<and> ?P k st" by auto
  then show ?thesis using n(3) by auto
qed

lemma window_bytes: "length (test_data b (16 * 4 * 220)) = 14080" "(14080 :: nat) = 1 * 14080" "(14080 :: nat) = 220 * 64"
  by simp_all

lemma recv_in_one_call_passes:
  assumes "cfg_ranges cfg" "abi_ok abi" "required_bytes abi (window_cfg cfg) < 2 ^ 32" "seat_ok (window_cfg cfg) seat"
    and "use_connections b" "hdr_fits h0"
  shows "recv_full_window_in_one_call b abi cfg seat h0 = Some ()"
proof -
  obtain ctx h frame a zs where w: "ArqContext b abi seat (window_cfg cfg) = Some ctx"
    "while_loop (\<lambda>(h, frame, ofs, ctx). ofs < length (test_data b (16 * 4 * 220))) (load_segment b (window_cfg cfg) (test_data b (16 * 4 * 220)))
      (h0\<lparr>h_msg_len := 4, h_seg_id := 0, h_seq_num := 0, h_cur_ack_vec := 0\<rparr>, [], 0, ctx) = Some (h, frame, 14080, a)"
    "receives (chop 880 (test_data b (16 * 4 * 220))) 0 a"
    "avail (chop 880 (test_data b (16 * 4 * 220))) 0 (a_recv_wnd a) = test_data b (16 * 4 * 220) @ zs"
    using load_window [OF assms(1-5) window_bytes(1) assms(6)] by blast
  obtain a' where "arq_recv (Some a) True 14080 True = Some (ARQ_OK_COMPLETED, Some (test_data b (16 * 4 * 220)), Some a')"
    using receive_read [OF w(3), of 14080] w(4) by auto
  then show ?thesis
    using w(1,2) by (simp add: recv_full_window_in_one_call_def ARQ_SUCCEEDED_iff)
qed

lemma recv_bytes_passes:
  assumes "cfg_ranges cfg" "abi_ok abi" "required_bytes abi (window_cfg cfg) < 2 ^ 32" "seat_ok (window_cfg cfg) seat"
    and "use_connections b" "hdr_fits h0"
  shows "recv_full_window_one_byte_at_a_time b abi cfg seat h0 = Some ()"
    and "recv_full_window_one_segment_at_a_time b abi cfg seat h0 = Some ()"
proof -
  define D where "D = test_data b (16 * 4 * 220)"
  have D: "length D = 14080" by (simp add: D_def)
  obtain ctx h frame a where w: "ArqContext b abi seat (window_cfg cfg) = Some ctx"
    "while_loop (\<lambda>(h, frame, ofs, ctx). ofs < length D) (load_segment b (window_cfg cfg) D)
      (h0\<lparr>h_msg_len := 4, h_seg_id := 0, h_seq_num := 0, h_cur_ack_vec := 0\<rparr>, [], 0, ctx) = Some (h, frame, 14080, a)"
    "receives (chop 880 D) 0 a" "\<exists>zs. avail (chop 880 D) 0 (a_recv_wnd a) = D @ zs"
    using load_window [OF assms(1-5) D assms(6)] by blast
  obtain a1 where 1: "while_loop (\<lambda>(out, ctx). length out < length D) (read_round (\<lambda>bs. 1 = length bs) (\<lambda>bs. bs) 1) ([], a) = Some (D, a1)"
    using read_loop [OF w(3,4), of 1 14080 "\<lambda>bs. 1 = length bs" "\<lambda>bs. bs"] D by (simp, elim exE, simp)
  obtain a2 where 2: "while_loop (\<lambda>(out, ctx). length out < length D) (read_round (\<lambda>bs. length bs > 0) (\<lambda>bs. bs) 220) ([], a) = Some (D, a2)"
    using read_loop [OF w(3,4), of 220 64 "\<lambda>bs. length bs > 0" "\<lambda>bs. bs"] D by (simp, elim exE, simp)
  have t: "test_data b (recv_window_size_in_messages (window_cfg cfg) * message_length_in_segments (window_cfg cfg) *
      segment_length_in_bytes (window_cfg cfg)) = D" by (simp add: D_def)
  show "recv_full_window_one_byte_at_a_time b abi cfg seat h0 = Some ()"
    unfolding recv_full_window_one_byte_at_a_time_def Let_def t read_round_def [symmetric] using w(1,2) 1 D by simp
  show "recv_full_window_one_segment_at_a_time b abi cfg seat h0 = Some ()"
    unfolding recv_full_window_one_segment_at_a_time_def Let_def t unfolding window_cfg_sel(1) read_round_def [symmetric] using w(1,2) 2 D by simp
qed

section \<open>Three messages of one segment\<close>

lemma partial_cfg_sel [simp]:
  "segment_length_in_bytes (partial_cfg c) = 64" "message_length_in_segments (partial_cfg c) = 1"
  "recv_window_size_in_messages (partial_cfg c) = 16" "cfg_checksum (partial_cfg c) = crc32_checksum"
  by (simp_all add: partial_cfg_def)

lemma partial_cfg_sound: "cfg_ranges c \<Longrightarrow> cfg_sound (partial_cfg c)"
  by (simp add: cfg_sound_def partial_cfg_def arq__check_cfg_def cfg_ranges_def geometry_ok_def)

text \<open>The test after the first \<open>n\<close> messages.\<close>

definition took :: "arq_cfg_t \<Rightarrow> (nat \<Rightarrow> byte list) \<Rightarrow> nat \<Rightarrow> arq_t \<Rightarrow> bool" where
  "took c msgs n a \<longleftrightarrow> receives msgs 0 a \<and> a_cfg a = c \<and> can_send a \<and> r_slide (a_recv_wnd a) = 0 \<and> r_copy_ofs (a_recv_wnd a) = 0 \<and>
     w_cap (r_w (a_recv_wnd a)) = 16 \<and> w_seg_len (r_w (a_recv_wnd a)) = 64 \<and> (\<forall>m < n. (m, 0) \<in> arrived msgs 0 (a_recv_wnd a))"

lemma one_segment:
  assumes "w_seg_len w = 64" "0 < x" "x \<le> 64"
  shows "seg_count w x = 1"
  unfolding seg_count_def assms(1) using assms(2,3) by (intro div_nat_eqI) simp_all

lemma load_message_step:
  assumes a: "took (partial_cfg c) msgs n a" and n: "n < 16" and f: "length frame = 82"
    and m: "0 < k" "k \<le> 64" "k \<le> length seg" "msgs n = take k seg" "\<forall>m. 0 < length (msgs m) \<and> length (msgs m) \<le> 64"
  shows "\<exists>f' a'. load_message b (partial_cfg c) seg n k (frame, a) = Some (f', a') \<and> length f' = 82 \<and> took (partial_cfg c) msgs (Suc n) a'"
proof -
  let ?h = "arq__frame_hdr_init\<lparr>h_seg := True, h_seq_num := n, h_seg_len := k, h_msg_len := 1\<rparr>" and ?w = "r_w (a_recv_wnd a)"
  have t: "receives msgs 0 a" "a_cfg a = partial_cfg c" "can_send a" "r_slide (a_recv_wnd a) = 0" "r_copy_ofs (a_recv_wnd a) = 0"
    "w_cap ?w = 16" "w_seg_len ?w = 64" "\<forall>m < n. (m, 0) \<in> arrived msgs 0 (a_recv_wnd a)"
    using a by (simp_all add: took_def)
  have cnt: "seg_count ?w (length (msgs m)) = 1" for m
  proof -
    have "0 < length (msgs m)" "length (msgs m) \<le> 64" using m(5) by blast+
    then show ?thesis by (rule one_segment [OF t(7)])
  qed
  have h: "hdr_fits ?h" using n m(2) by (simp add: hdr_fits_def arq__frame_hdr_init_def)
  obtain out where w: "arq__frame_write b ?h (Some seg) crc32_checksum frame 82 = Some (18 + k, out)" "length out = 82"
    "carries crc32_checksum ?h (take k seg) out (18 + k)"
    using carries_written [OF h, of "Some seg" 82 frame b crc32_checksum] m(2,3) f by (auto simp: seg_readable_def seg_bytes_def)
  have ms: "msg_seg (w_seg_len ?w) (msgs n) 0 = take k seg" using m(2,4) t(7) by (simp add: msg_seg_def)
  have "names_segment msgs ?w n 0 ?h" using h n cnt by (simp add: names_segment_def arq__frame_hdr_init_def)
  then obtain a1 o1 a2 base' where r: "test_fill a out (18 + k) = Some a1" "test_poll b a1 0 = Some (o1, a2)" "receives msgs base' a2"
    "base' + r_slide (a_recv_wnd a2) = 0" "same_shape a a2" "arrived msgs base' (a_recv_wnd a2) = insert (n, 0) (arrived msgs 0 (a_recv_wnd a))"
    "(0, 0) \<in> arrived msgs base' (a_recv_wnd a2) \<longrightarrow> po_recv_ready o1" "po_send_ready o1" "can_send a2"
    using receive_segment [OF t(1), of n 0 ?h out "18 + k" b 0] w(3) ms n t(2-6) cnt
    by (simp del: insert_iff, elim exE conjE, simp)
  have "(0, 0) \<in> arrived msgs base' (a_recv_wnd a2)" using r(6) t(8) by (cases n) auto
  then have "load_message b (partial_cfg c) seg n k (frame, a) = Some (out, a2)"
    using w(1) f m(2) r(1,2,7,8) by (simp add: load_message_def arq__frame_len_ok)
  moreover have "\<forall>m < Suc n. (m, 0) \<in> arrived msgs 0 (a_recv_wnd a2)" using r(4,6) t(8) by (auto simp: less_Suc_eq)
  ultimately show ?thesis
    using w(2) r(3-5,9) t(2,5-7) by (auto simp: took_def same_shape_def)
qed

lemma recv_partial_passes:
  assumes c: "cfg_ranges cfg" and s: "abi_ok abi" "required_bytes abi (partial_cfg cfg) < 2 ^ 32" "seat_ok (partial_cfg cfg) seat"
    and b: "use_connections b"
  shows "recv_full_frame_partial_frame_full_frame b abi cfg seat = Some ()"
proof -
  define D where "D = test_data b 129"
  define msgs where "msgs = (\<lambda>m :: nat. if m = 0 then take 64 D else if m = 1 then take 1 (drop 64 D) else take 64 (drop 65 D))"
  let ?c = "partial_cfg cfg"
  have D: "length D = 129" by (simp add: D_def)
  have fits: "\<forall>m. 0 < length (msgs m) \<and> length (msgs m) \<le> 64" using D by (auto simp: msgs_def simp del: length_greater_0_conv)
  obtain a where a: "ArqContext b abi seat ?c = Some a" "took ?c msgs 0 a"
    using fresh_receives [OF partial_cfg_sound [OF c] s b, of msgs] fits by (auto simp: took_def)
  obtain f1 a1 where 1: "load_message b ?c D 0 64 (resize 82 [], a) = Some (f1, a1)" "length f1 = 82" "took ?c msgs 1 a1"
    using load_message_step [OF a(2), of "resize 82 []" 64 D b] D fits by (auto simp: msgs_def)
  obtain f2 a2 where 2: "load_message b ?c (drop 64 D) 1 1 (f1, a1) = Some (f2, a2)" "length f2 = 82" "took ?c msgs 2 a2"
    using load_message_step [OF 1(3), of f1 1 "drop 64 D" b] 1(2) D fits by (auto simp: msgs_def numeral_2_eq_2)
  obtain f3 a3 where 3: "load_message b ?c (drop 65 D) 2 64 (f2, a2) = Some (f3, a3)" "took ?c msgs 3 a3"
    using load_message_step [OF 2(3), of f2 64 "drop 65 D" b] 2(2) D fits by (auto simp: msgs_def numeral_3_eq_3)
  have t: "receives msgs 0 a3" "r_slide (a_recv_wnd a3) = 0" "r_copy_ofs (a_recv_wnd a3) = 0" "w_cap (r_w (a_recv_wnd a3)) = 16"
    "w_seg_len (r_w (a_recv_wnd a3)) = 64" "\<forall>m < 3. (m, 0) \<in> arrived msgs 0 (a_recv_wnd a3)"
    using 3(2) by (simp_all add: took_def)
  have "s = 0" if "s < seg_count (r_w (a_recv_wnd a3)) (length (msgs m))" for m s
  proof -
    have "0 < length (msgs m)" "length (msgs m) \<le> 64" using fits by blast+
    then show ?thesis using that by (simp add: one_segment [OF t(5)])
  qed
  then have "\<forall>m s. m < 3 \<and> s < seg_count (r_w (a_recv_wnd a3)) (length (msgs m)) \<longrightarrow> (m, s) \<in> arrived msgs 0 (a_recv_wnd a3)"
    using t(6) by fastforce
  then have "\<exists>zs. avail msgs 0 (a_recv_wnd a3) = concat (map msgs [0..<3]) @ zs"
    using read_messages [OF t(1,3), of 3] t(2,4) by simp
  moreover have "concat (map msgs [0..<3]) = D"
  proof -
    have "concat (map msgs [0..<3]) = take 64 D @ take 1 (drop 64 D) @ drop 65 D"
      using D by (simp add: msgs_def upt_rec numeral_3_eq_3)
    also have "\<dots> = take 64 D @ drop 64 D" using append_take_drop_id [of 1 "drop 64 D"] by simp
    finally show ?thesis by simp
  qed
  ultimately obtain a4 where "arq_recv (Some a3) True 129 True = Some (ARQ_OK_COMPLETED, Some D, Some a4)"
    using receive_read [OF t(1), of 129] D by auto
  then show ?thesis
    using a(1) 1(1) 2(1) 3(1) D
    by (simp add: recv_full_frame_partial_frame_full_frame_def arq__frame_len_ok ARQ_SUCCEEDED_iff D_def)
qed

end
