(* ===== verification/Arq_Acked.thy ===== *)
theory Arq_Acked imports Arq_Transfer begin

text \<open>
  The way back: the acknowledgements a receiver owes for the messages of a full window, one frame for each
  message, and the sender that releases a message with each of them.
\<close>

section \<open>A sender that waits for acknowledgements\<close>

text \<open>
  The window holds the messages \<open>k\<close> to \<open>K - 1\<close> of \<open>D\<close>, none of them acknowledged; every segment was sent. The
  retransmission timers stand at \<open>t\<close>, but for the message the send pointer has not left yet.
\<close>

definition unacked_msgs :: "byte list \<Rightarrow> nat \<Rightarrow> nat \<Rightarrow> arq__send_wnd_t \<Rightarrow> arq__send_wnd_ptr_t \<Rightarrow> nat \<Rightarrow> bool" where
  "unacked_msgs D K k sw sp t \<longleftrightarrow> send_wnd_ok sw \<and> \<not> s_tiny_on sw \<and> k \<le> K \<and> 0 < K \<and> K < 4096 \<and> K \<le> w_cap (s_w sw) \<and>
     length D = K * w_msg_len (s_w sw) \<and> take (K * w_msg_len (s_w sw)) (w_buf (s_w sw)) = D \<and>
     w_seq (s_w sw) = k \<and> w_size (s_w sw) = K - k \<and>
     (\<forall>j < K - k. msg_at (s_w sw) j = \<lparr>m_len = w_msg_len (s_w sw), m_cur_ack_vec = 0, m_full_ack_vec = 2 ^ segs (s_w sw) - 1\<rparr> \<and>
        (s_rtx sw ! slot (s_w sw) j = t \<or> p_valid sp \<and> p_seq sp = k + j)) \<and>
     (p_valid sp \<longrightarrow> p_seq sp = K - 1 \<and> p_seg sp = segs (s_w sw) - 1) \<and> ptr_ok sp"

lemma unacked_msgsD:
  assumes "unacked_msgs D K k sw sp t"
  shows "send_wnd_ok sw" "wnd_ok (s_w sw)" "\<not> s_tiny_on sw" "k \<le> K" "0 < K" "K < 4096" "w_seq (s_w sw) = k" "w_size (s_w sw) = K - k"
    "\<And>j. j < K - k \<Longrightarrow> msg_at (s_w sw) j = \<lparr>m_len = w_msg_len (s_w sw), m_cur_ack_vec = 0, m_full_ack_vec = 2 ^ segs (s_w sw) - 1\<rparr>"
    "\<And>j. j < K - k \<Longrightarrow> s_rtx sw ! slot (s_w sw) j = t \<or> p_valid sp \<and> p_seq sp = k + j"
    "p_valid sp \<Longrightarrow> p_seq sp = K - 1 \<and> p_seg sp = segs (s_w sw) - 1" "ptr_ok sp" "0 < (2 :: nat) ^ segs (s_w sw) - 1"
    "w_size (s_w sw) \<le> w_cap (s_w sw)" "K \<le> w_cap (s_w sw)" "length D = K * w_msg_len (s_w sw)"
    "take (K * w_msg_len (s_w sw)) (w_buf (s_w sw)) = D" "\<And>j. j < K - k \<Longrightarrow> slot (s_w sw) j = k + j"
proof -
  show a: "send_wnd_ok sw" "\<not> s_tiny_on sw" "k \<le> K" "0 < K" "K < 4096" "w_seq (s_w sw) = k" "w_size (s_w sw) = K - k"
    "\<And>j. j < K - k \<Longrightarrow> msg_at (s_w sw) j = \<lparr>m_len = w_msg_len (s_w sw), m_cur_ack_vec = 0, m_full_ack_vec = 2 ^ segs (s_w sw) - 1\<rparr>"
    "\<And>j. j < K - k \<Longrightarrow> s_rtx sw ! slot (s_w sw) j = t \<or> p_valid sp \<and> p_seq sp = k + j"
    "p_valid sp \<Longrightarrow> p_seq sp = K - 1 \<and> p_seg sp = segs (s_w sw) - 1" "ptr_ok sp" "K \<le> w_cap (s_w sw)" "length D = K * w_msg_len (s_w sw)"
    "take (K * w_msg_len (s_w sw)) (w_buf (s_w sw)) = D"
    using assms unfolding unacked_msgs_def by blast+
  show w: "wnd_ok (s_w sw)" by (rule send_wnd_okD(1) [OF a(1)])
  note d = wnd_okD [OF w]
  show "0 < (2 :: nat) ^ segs (s_w sw) - 1" using d(7) exp_minus_1_less_iff [of 0 "segs (s_w sw)"] by simp
  show "w_size (s_w sw) \<le> w_cap (s_w sw)" by (rule d(12))
  show "\<And>j. j < K - k \<Longrightarrow> slot (s_w sw) j = k + j" using a(6,12) by (simp add: slot_def)
qed

lemma all_sent_unacked:
  assumes f: "full_messages D K k sw" and s: "segments_sent K k (K * segs (s_w sw)) sw sp rtx" and K: "K < 4096"
  shows "unacked_msgs D K k sw sp rtx"
proof -
  note d = full_messagesD [OF f]
  let ?n = "segs (s_w sw)"
  have n: "0 < ?n" using wnd_okD(7) [OF d(2)] by simp
  have K0: "0 < K" using d(5) by simp
  have "k * ?n < K * ?n" using d(5) n by simp
  then have s': "\<forall>j. k \<le> j \<and> j < K \<longrightarrow> s_rtx sw ! j = (if Suc j * ?n < K * ?n then rtx else 0)"
    "p_valid sp" "p_seq sp = (K * ?n - 1) div ?n" "p_seg sp = (K * ?n - 1) mod ?n"
    using s by (simp_all add: segments_sent_def Let_def)
  have "K * ?n - 1 = ?n - 1 + (K - 1) * ?n" using n K0 by (cases K) auto
  then have g: "p_seg sp = ?n - 1" unfolding s'(4) using n by (simp only: mod_mult_self1) simp
  have q: "p_seq sp = K - 1" using s'(3) pred_div [OF n K0] by simp
  have "s_rtx sw ! (k + j) = rtx \<or> K - 1 = k + j" if "j < K - k" for j
    using s'(1) that n by (cases "Suc (k + j) = K") (auto simp del: mult_Suc)
  moreover have "ptr_ok sp" using q g K wnd_okD(7,8) [OF d(2)] by (auto simp: ptr_ok_def)
  ultimately show ?thesis
    using d K K0 s'(2) q g by (simp add: unacked_msgs_def)
qed

text \<open>When their timers have run out, the messages are as before their first segment was sent.\<close>

lemma unacked_expired:
  assumes u: "unacked_msgs D K k sw sp 0" and k: "k < K" and v: "\<not> p_valid sp"
  shows "full_messages D K k sw" "segments_sent K k (k * segs (s_w sw)) sw sp rtx"
proof -
  note d = unacked_msgsD [OF u]
  have at: "w_msg (s_w sw) ! j = \<lparr>m_len = w_msg_len (s_w sw), m_cur_ack_vec = 0, m_full_ack_vec = 2 ^ segs (s_w sw) - 1\<rparr>"
    "s_rtx sw ! j = 0" if "k \<le> j" "j < K" for j
    using d(9) [of "j - k"] d(10) [of "j - k"] d(18) [of "j - k"] that v by simp_all
  show "full_messages D K k sw" using d at(1) k by (simp add: full_messages_def)
  have "\<not> Suc j * segs (s_w sw) < k * segs (s_w sw)" if "k \<le> j" for j
    unfolding not_less using that by (intro mult_le_mono1) simp
  then show "segments_sent K k (k * segs (s_w sw)) sw sp rtx" using at(2) v k by (simp add: segments_sent_def Let_def)
qed

text \<open>Time passes.\<close>

lemma unacked_step:
  assumes u: "unacked_msgs D K k sw sp t" and v: "p_valid sp \<longrightarrow> dt = 0"
  shows "\<exists>sw'. arq__send_wnd_step sw dt = Some sw' \<and> unacked_msgs D K k sw' sp (t - dt) \<and> s_w sw' = s_w sw"
proof -
  note d = unacked_msgsD [OF u]
  obtain sw' where s: "arq__send_wnd_step sw dt = Some sw'" "send_wnd_ok sw'" "s_w sw' = s_w sw" "s_tiny_on sw' = s_tiny_on sw"
    "\<forall>i<w_cap (s_w sw). s_rtx sw' ! slot (s_w sw) i =
       (if i < w_size (s_w sw) then s_rtx sw ! slot (s_w sw) i - dt else s_rtx sw ! slot (s_w sw) i)"
    using send_wnd_step_eq [OF d(1), of dt] by blast
  have "s_rtx sw' ! slot (s_w sw) j = t - dt \<or> p_valid sp \<and> p_seq sp = k + j" if "j < K - k" for j
    using s(5) d(8,10,14) that v by auto
  then have "unacked_msgs D K k sw' sp (t - dt)" using s(2-4) d(3-17) by (simp add: unacked_msgs_def)
  then show ?thesis using s(1,3) by blast
qed

lemma ack_keeps_timers:
  assumes "arq__send_wnd_ack sw seq vec = Some sw'" "vec = m_full_ack_vec (w_msg (s_w sw) ! (seq mod w_cap (s_w sw)))"
  shows "s_rtx sw' = s_rtx sw" "s_tiny_on sw' = s_tiny_on sw"
  using assms by (auto simp: arq__send_wnd_ack_def Let_def bind_Some_iff umod_def rd_def split: if_splits)

text \<open>An acknowledgement of the first message releases it.\<close>

lemma first_acked:
  assumes u: "unacked_msgs D K k sw sp t" and k: "k < K"
  shows "\<exists>sw'. arq__send_wnd_ack sw k (2 ^ segs (s_w sw) - 1) = Some sw' \<and> unacked_msgs D K (Suc k) sw' sp t \<and>
    s_rtx sw' = s_rtx sw \<and> segs (s_w sw') = segs (s_w sw) \<and> w_seg_len (s_w sw') = w_seg_len (s_w sw) \<and> w_cap (s_w sw') = w_cap (s_w sw)"
proof -
  note d = unacked_msgsD [OF u]
  note w = wnd_okD [OF d(2)]
  let ?w = "s_w sw" and ?v = "2 ^ segs (s_w sw) - 1 :: nat"
  have v: "?v < 65536"
  proof -
    have "(2 :: nat) ^ segs ?w \<le> 2 ^ 12" using w(8) by (intro power_increasing) simp_all
    then show ?thesis by simp
  qed
  let ?P = "\<lambda>i. ack_vec ?w k ?v i = m_full_ack_vec (msg_at ?w i)"
  have "[0..<w_size ?w] = 0 # [1..<K - k]" using k d(8) by (simp add: upt_rec)
  moreover have "?P 0" using d(7,9) k by (simp add: ack_vec_def)
  moreover have "takeWhile ?P [1..<K - k] = []"
  proof (cases "1 < K - k")
    case True
    then have "\<not> ?P 1" using d(7,9,13) by (simp add: ack_vec_def)
    then show ?thesis using True by (simp add: upt_rec)
  qed simp
  ultimately have cnt: "ack_count ?w k ?v = 1" by (simp add: ack_count_def)
  obtain sw' where a: "arq__send_wnd_ack sw k ?v = Some sw'" "send_wnd_ok sw'"
    "released_wnd ?w 1 (ack_vec ?w k ?v) (s_w sw')"
    using send_wnd_ack_eq [OF d(1), of k ?v] d(7,8) k v cnt by auto
  note r = released_wndD [OF a(3)]
  have t: "s_rtx sw' = s_rtx sw" "s_tiny_on sw' = s_tiny_on sw"
    using ack_keeps_timers [OF a(1)] d(9) [of 0] k d(7) by (simp_all add: slot_def)
  have sl: "slot (s_w sw') j = slot ?w (Suc j)" for j
    using r(2,8) d(7) d(6) k by (simp add: slot_def)
  have "msg_at (s_w sw') j = \<lparr>m_len = w_msg_len ?w, m_cur_ack_vec = 0, m_full_ack_vec = ?v\<rparr>" if "j < K - Suc k" for j
    using released_inside [OF d(2) a(3), of j] that r(9) d(7,8) d(9) [of "Suc j"] by (simp add: ack_vec_def)
  moreover have "s_rtx sw' ! slot (s_w sw') j = t \<or> p_valid sp \<and> p_seq sp = Suc k + j" if "j < K - Suc k" for j
    using d(10) [of "Suc j"] that by (simp add: sl t)
  ultimately have "unacked_msgs D K (Suc k) sw' sp t"
    using a(2) t(2) d r k by (simp add: unacked_msgs_def)
  then show ?thesis using a(1) t(1) r by simp
qed

text \<open>Nothing is due: the pointer comes to rest, and the timer of the message it leaves is started.\<close>

lemma nothing_due:
  assumes u: "unacked_msgs D K k sw sp t" and t: "0 < t" "p_valid sp \<longrightarrow> t = rtx" and rtx: "rtx < 2 ^ 32"
  shows "\<exists>sw' sp'. send_poll_header sw sp arq__frame_hdr_init rtx = Some (sw', sp', arq__frame_hdr_init) \<and>
    unacked_msgs D K k sw' sp' t \<and> \<not> p_valid sp' \<and> s_w sw' = s_w sw"
proof -
  note d = unacked_msgsD [OF u]
  note w = wnd_okD [OF d(2)]
  have nd: "\<not> other_due sw p j" if p: "p_valid p = p_valid sp" "p_seq p = p_seq sp" and j: "j < w_size (s_w sw)" for p j
  proof -
    have "seq_at (s_w sw) j = k + j" using d(6,7,8) j by (simp add: seq_at_def)
    then show ?thesis using d(10) [of j] d(8) t(1) p j by (auto simp: other_due_def send_due_def)
  qed
  have rest: "ptr_to_due sw p = p\<lparr>p_valid := False\<rparr>" if p: "p_valid p = p_valid sp" "p_seq p = p_seq sp" for p
  proof -
    have "find (other_due sw p) [0..<w_size (s_w sw)] = None" using nd [OF p] by (auto simp: find_None_iff)
    then show ?thesis by (simp add: ptr_to_due_def)
  qed
  show ?thesis
  proof (cases "p_valid sp")
    case False
    have "arq__send_wnd_ptr_next sp sw = Some (ARQ__SEND_WND_PTR_NEXT_INSIDE_MSG, sp\<lparr>p_valid := False\<rparr>)"
      using False rest [of sp] by (simp add: send_wnd_ptr_next_eq [OF d(1,12)] ptr_next_spec_def)
    then have "send_poll_header sw sp arq__frame_hdr_init rtx = Some (sw, sp\<lparr>p_valid := False\<rparr>, arq__frame_hdr_init)"
      by (simp add: send_poll_header_def Let_def)
    moreover have "unacked_msgs D K k sw (sp\<lparr>p_valid := False\<rparr>) t"
      using u False by (simp add: unacked_msgs_def ptr_ok_def)
    ultimately show ?thesis by simp
  next
    case True
    have p: "p_seq sp = K - 1" "p_seg sp = segs (s_w sw) - 1" using d(11) [OF True] by simp_all
    let ?q = "p_seq sp mod w_cap (s_w sw)"
    have m: "m_cur_ack_vec (w_msg (s_w sw) ! ?q) = 0" "m_full_ack_vec (w_msg (s_w sw) ! ?q) = 2 ^ segs (s_w sw) - 1"
    proof -
      have "w_msg (s_w sw) ! ?q = \<lparr>m_len = w_msg_len (s_w sw), m_cur_ack_vec = 0, m_full_ack_vec = 2 ^ segs (s_w sw) - 1\<rparr> \<or>
          w_msg (s_w sw) ! ?q = fresh_msg (s_w sw)"
      proof (cases "k < K")
        case True
        then have "slot (s_w sw) (K - 1 - k) = ?q" using d(7) p(1) by (simp add: slot_def)
        then show ?thesis using d(9) [of "K - 1 - k"] True by simp
      next
        case False
        then have k: "k = K" "w_size (s_w sw) = 0" using d(4,8) by simp_all
        have "K + (w_cap (s_w sw) - 1) = (K - 1) + w_cap (s_w sw)" using d(5) w(1) by simp
        then have "slot (s_w sw) (w_cap (s_w sw) - 1) = ?q" using d(7) p(1) k(1) by (simp add: slot_def)
        moreover have "w_msg (s_w sw) ! slot (s_w sw) (w_cap (s_w sw) - 1) = fresh_msg (s_w sw)"
          using d(1) w(1) k(2) by (auto simp: send_wnd_ok_def send_msg_ok_def)
        ultimately show ?thesis by simp
      qed
      then show "m_cur_ack_vec (w_msg (s_w sw) ! ?q) = 0" "m_full_ack_vec (w_msg (s_w sw) ! ?q) = 2 ^ segs (s_w sw) - 1"
        using w(13) by (auto simp: fresh_msg_def)
    qed
    have adv: "ptr_advance sw sp = sp\<lparr>p_seg := segs (s_w sw)\<rparr>"
      using m(1) p(2) w(7) by (simp add: ptr_advance_def lowest_clear_start)
    let ?sp = "(sp\<lparr>p_seg := segs (s_w sw)\<rparr>)\<lparr>p_valid := False\<rparr>"
    have nx: "arq__send_wnd_ptr_next sp sw = Some (ARQ__SEND_WND_PTR_NEXT_COMPLETED_MSG, ?sp)"
      using True m(2) rest [of "sp\<lparr>p_seg := segs (s_w sw)\<rparr>"]
      by (simp add: send_wnd_ptr_next_eq [OF d(1,12)] ptr_next_spec_def adv)
    let ?sw = "sw\<lparr>s_rtx := (s_rtx sw)[?q := rtx]\<rparr>"
    have "send_poll_header sw sp arq__frame_hdr_init rtx = Some (?sw, ?sp, arq__frame_hdr_init)"
      using send_poll_header_eq [OF d(1,12) rtx, of arq__frame_hdr_init] unfolding nx by auto
    moreover have "s_rtx ?sw ! slot (s_w sw) j = t" if j: "j < K - k" for j
    proof (cases "slot (s_w sw) j = ?q")
      case True
      then show ?thesis using send_wnd_okD(2) [OF d(1)] w(1) t(2) \<open>p_valid sp\<close> by simp
    next
      case False
      then have "p_seq sp \<noteq> k + j" using d(7) by (auto simp: slot_def)
      then show ?thesis using False d(10) [OF j] by simp
    qed
    then have "unacked_msgs D K k ?sw ?sp t"
      using d send_wnd_ok_rtx [OF d(1) rtx, of ?q] by (simp add: unacked_msgs_def ptr_ok_def)
    ultimately show ?thesis by simp
  qed
qed

section \<open>Polls that send nothing\<close>

text \<open>
  A poll of an object whose receive window is empty, with nothing or a control frame in its receive frame: if
  the sender finds no segment, nothing is sent.
\<close>

lemma silent_poll:
  assumes a: "sender_ready a" and b: "use_connections b" and f: "recv_frame_ok rf0" "rf_cap rf0 = rf_cap (a_recv_frame a)"
    and rx: "control_arrived (a\<lparr>a_recv_frame := rf0, a_need_poll := np\<rparr>) rh" "\<not> h_rst rh"
    and send: "send_poll_timers (a_send_wnd a) rh dt = Some sw1"
      "send_poll_header sw1 (a_send_wnd_ptr a) arq__frame_hdr_init (retransmission_timeout (a_cfg a)) = Some (sw2, sp, arq__frame_hdr_init)"
      "send_wnd_ok sw2" "ptr_ok sp" "w_seg_len (s_w sw2) = w_seg_len (s_w (a_send_wnd a))"
  shows "\<exists>out a'. backend_poll b (a\<lparr>a_recv_frame := rf0, a_need_poll := np\<rparr>) dt = Some (out, a') \<and> \<not> po_send_ready out \<and>
    po_next_poll out = Min (set (ARQ_TIME_INFINITY # running_timers sw2 (a_recv_wnd a))) \<and>
    sender_ready a' \<and> a_send_wnd a' = sw2 \<and> a_send_wnd_ptr a' = sp \<and> a_cfg a' = a_cfg a"
proof -
  let ?c = "a_cfg a" and ?rw = "a_recv_wnd a" and ?a = "a\<lparr>a_recv_frame := rf0, a_need_poll := np\<rparr>"
  note d = sender_readyD [OF a] and p = arq_okD [OF sender_readyD(1) [OF a]]
  have ok: "arq_ok ?a" using d(1) f by (simp add: arq_ok_def)
  obtain rf where 1: "recv_poll_frame b (a_recv_wnd ?a) (a_recv_frame ?a) (cfg_checksum (a_cfg ?a)) arq__frame_hdr_init
      (inter_segment_timeout (a_cfg ?a)) = Some (?rw, rf, rh)" "recv_frame_ok rf" "\<not> rf_full rf" "rf_len rf = 0"
    "rf_cap rf = rf_cap (a_recv_frame a)"
    using control_poll_frame [of ?a rh b ?rw "inter_segment_timeout ?c"] f rx(1) by auto
  have 2: "acked (timer_ran ?rw dt) arq__frame_hdr_init = (False, ?rw, arq__frame_hdr_init)"
    using d(5,10) by (simp add: acked_def arq__frame_hdr_init_def)
  have "\<exists>ev. arq__conn_poll b (a_conn a) (Some arq__frame_hdr_init) rh dt ?c = Some (False, a_conn a, Some arq__frame_hdr_init, ev)"
    by (subst (1 2) closed_conn [OF d(9)]) (simp add: closed_poll [OF rx(2) b])
  then obtain ev where 3: "arq__conn_poll b (a_conn ?a) (Some arq__frame_hdr_init) rh dt (a_cfg ?a) =
      Some (False, a_conn a, Some arq__frame_hdr_init, ev)"
    by auto
  have 4: "(if False \<or> h_seg arq__frame_hdr_init \<or> False then backend_emit b (a_cfg ?a) sw2 arq__frame_hdr_init (a_send_frame ?a)
      else Some (a_send_frame ?a)) = Some (a_send_frame a)"
    by (simp add: arq__frame_hdr_init_def)
  have "arq__conn_next_poll (a_conn a) = Some ARQ_TIME_INFINITY" using d(9) by (simp add: arq__conn_next_poll_def)
  then have 5: "arq__next_poll b sw2 ?rw (a_conn a) = Some (Min (set (ARQ_TIME_INFINITY # running_timers sw2 ?rw)))"
    using b unfolding next_poll_eq [OF send(3)] Let_def by (simp add: arq__min_def del: set_append)
  have 6: "arq__recv_wnd_pending ?rw = Some False" using d(5) by (simp add: arq__recv_wnd_pending_def)
  have "poll_hdr (a_send_frame ?a) = Some arq__frame_hdr_init" using d(3,4) by (simp add: poll_hdr_def)
  note run = backend_poll_run [OF ok this 1(1) _ 2 _ _ 3 4 5 6, of sw1 sp] send(1,2) p(5)
  let ?b = "a\<lparr>a_send_wnd := sw2, a_send_wnd_ptr := sp, a_recv_frame := rf, a_need_poll := False\<rparr>"
  have "sender_ready ?b" using d p 1(2-5) send(3-5) by (simp add: sender_ready_def arq_ok_def)
  moreover have "backend_poll b ?a dt = Some (\<lparr>po_event = ev, po_send_ready = (sf_len (a_send_frame a) > 0), po_recv_ready = False,
      po_next_poll = Min (set (ARQ_TIME_INFINITY # running_timers sw2 ?rw))\<rparr>, ?b)"
    using run by simp
  ultimately show ?thesis using d(3) by (intro exI conjI) (assumption, simp_all)
qed

text \<open>The timers that run are those of the messages.\<close>

lemma unacked_next_poll:
  assumes u: "unacked_msgs D K k sw sp t" and k: "k < K" and v: "\<not> p_valid sp" and t: "0 < t" "t < 2 ^ 32" and on: "\<not> r_inter_seg_ack_on rw"
  shows "Min (set (ARQ_TIME_INFINITY # running_timers sw rw)) = t"
proof -
  note d = unacked_msgsD [OF u]
  have "map (\<lambda>i. s_rtx sw ! slot (s_w sw) i) [0..<w_size (s_w sw)] = replicate (K - k) t"
    using d(8,10) v by (intro nth_equalityI) auto
  then have "set (running_timers sw rw) = {t}"
    using d(3) on t(1) k by (simp add: running_timers_def filter_replicate)
  moreover have "t \<le> ARQ_TIME_INFINITY" using t(2) by (simp add: ARQ_TIME_INFINITY_def)
  ultimately show ?thesis by simp
qed

text \<open>The sender in between, as it is before acknowledgement \<open>k\<close>, with \<open>t\<close> left of its timers.\<close>

definition awaits :: "byte list \<Rightarrow> nat \<Rightarrow> nat \<Rightarrow> nat \<Rightarrow> arq_t \<Rightarrow> bool" where
  "awaits D K k t a \<longleftrightarrow> sender_ready a \<and> unacked_msgs D K k (a_send_wnd a) (a_send_wnd_ptr a) t \<and> t < 2 ^ 32 \<and>
     (p_valid (a_send_wnd_ptr a) \<longrightarrow> t = retransmission_timeout (a_cfg a))"

lemma sent_awaits:
  assumes a: "transmits D K k (K * segs (s_w (a_send_wnd a))) a" and K: "K < 4096"
  shows "awaits D K k (retransmission_timeout (a_cfg a)) a"
  using a all_sent_unacked [of D K k "a_send_wnd a" "a_send_wnd_ptr a" "retransmission_timeout (a_cfg a)"] K
    sender_readyD(11) [of a] by (simp add: transmits_def awaits_def)

text \<open>A poll, with nothing or a control frame in the receive frame: it sends nothing while the timers run.\<close>

lemma awaiting_poll:
  assumes a: "awaits D K k t a" and b: "use_connections b" and f: "recv_frame_ok rf0" "rf_cap rf0 = rf_cap (a_recv_frame a)"
    and rx: "control_arrived (a\<lparr>a_recv_frame := rf0, a_need_poll := np\<rparr>) rh" "\<not> h_rst rh"
    and ack: "(if h_ack rh then arq__send_wnd_ack (a_send_wnd a) (h_ack_num rh) (h_cur_ack_vec rh) else Some (a_send_wnd a)) = Some sw1"
      "unacked_msgs D K k' sw1 (a_send_wnd_ptr a) t" "w_seg_len (s_w sw1) = w_seg_len (s_w (a_send_wnd a))" "segs (s_w sw1) = segs (s_w (a_send_wnd a))"
    and dt: "dt < t" "p_valid (a_send_wnd_ptr a) \<longrightarrow> dt = 0"
  shows "\<exists>out a'. backend_poll b (a\<lparr>a_recv_frame := rf0, a_need_poll := np\<rparr>) dt = Some (out, a') \<and> \<not> po_send_ready out \<and>
    (k' < K \<longrightarrow> po_next_poll out = t - dt) \<and> awaits D K k' (t - dt) a' \<and> \<not> p_valid (a_send_wnd_ptr a') \<and> a_cfg a' = a_cfg a \<and>
    segs (s_w (a_send_wnd a')) = segs (s_w (a_send_wnd a)) \<and> w_seg_len (s_w (a_send_wnd a')) = w_seg_len (s_w (a_send_wnd a))"
proof -
  have d: "sender_ready a" "t < 2 ^ 32" "p_valid (a_send_wnd_ptr a) \<longrightarrow> t = retransmission_timeout (a_cfg a)"
    using a by (simp_all add: awaits_def)
  note r = sender_readyD [OF d(1)]
  obtain sw where 1: "arq__send_wnd_step sw1 dt = Some sw" "unacked_msgs D K k' sw (a_send_wnd_ptr a) (t - dt)" "s_w sw = s_w sw1"
    using unacked_step [OF ack(2) dt(2)] by blast
  have t: "send_poll_timers (a_send_wnd a) rh dt = Some sw"
    using ack(1) 1(1) unacked_msgsD(3) [OF 1(2)] by (simp add: send_poll_timers_def)
  have "p_valid (a_send_wnd_ptr a) \<longrightarrow> t - dt = retransmission_timeout (a_cfg a)" using d(3) dt(2) by simp
  then obtain sw2 sp where 2: "send_poll_header sw (a_send_wnd_ptr a) arq__frame_hdr_init (retransmission_timeout (a_cfg a)) =
      Some (sw2, sp, arq__frame_hdr_init)" "unacked_msgs D K k' sw2 sp (t - dt)" "\<not> p_valid sp" "s_w sw2 = s_w sw"
    using nothing_due [OF 1(2) _ _ r(11)] dt(1) by (auto simp del: split_paired_Ex)
  note w = unacked_msgsD [OF 2(2)]
  have "w_seg_len (s_w sw2) = w_seg_len (s_w (a_send_wnd a))" using 2(4) 1(3) ack(3) by simp
  from silent_poll [OF d(1) b f rx t 2(1) w(1,12) this]
  obtain out a' where p: "backend_poll b (a\<lparr>a_recv_frame := rf0, a_need_poll := np\<rparr>) dt = Some (out, a')" "\<not> po_send_ready out"
    "po_next_poll out = Min (set (ARQ_TIME_INFINITY # running_timers sw2 (a_recv_wnd a)))"
    "sender_ready a'" "a_send_wnd a' = sw2" "a_send_wnd_ptr a' = sp" "a_cfg a' = a_cfg a"
    by blast
  have "po_next_poll out = t - dt" if "k' < K"
    unfolding p(3) using unacked_next_poll [OF 2(2) that 2(3) _ _ r(6)] dt(1) d(2) by simp
  then show ?thesis using p 2(2-4) 1(3) ack(3,4) d(2) by (simp add: awaits_def)
qed

text \<open>A poll without a frame, and one at or behind the end of the timers, which sends the first message again.\<close>

lemma waiting_poll:
  assumes a: "awaits D K k t a" and b: "use_connections b" and dt: "dt < t" "p_valid (a_send_wnd_ptr a) \<longrightarrow> dt = 0"
  shows "\<exists>out a'. backend_poll b a dt = Some (out, a') \<and> \<not> po_send_ready out \<and> (k < K \<longrightarrow> po_next_poll out = t - dt) \<and>
    awaits D K k (t - dt) a' \<and> \<not> p_valid (a_send_wnd_ptr a') \<and> a_cfg a' = a_cfg a \<and>
    segs (s_w (a_send_wnd a')) = segs (s_w (a_send_wnd a)) \<and> w_seg_len (s_w (a_send_wnd a')) = w_seg_len (s_w (a_send_wnd a))"
proof -
  have d: "sender_ready a" "unacked_msgs D K k (a_send_wnd a) (a_send_wnd_ptr a) t" using a by (simp_all add: awaits_def)
  note r = sender_readyD [OF d(1)]
  have e: "a\<lparr>a_recv_frame := a_recv_frame a, a_need_poll := a_need_poll a\<rparr> = a" by simp
  have "control_arrived (a\<lparr>a_recv_frame := a_recv_frame a, a_need_poll := a_need_poll a\<rparr>) arq__frame_hdr_init"
    using r(7,8) by (simp add: control_arrived_def)
  moreover have "\<not> h_rst arq__frame_hdr_init" "\<not> h_ack arq__frame_hdr_init" by (simp_all add: arq__frame_hdr_init_def)
  ultimately show ?thesis
    using awaiting_poll [OF a b arq_okD(6) [OF r(1)] refl _ _ _ d(2) refl refl dt, where np = "a_need_poll a" and rh = arq__frame_hdr_init]
    unfolding e by simp
qed

lemma expired_poll:
  assumes a: "awaits D K k t a" and b: "use_connections b" and k: "k < K" and dt: "t \<le> dt" "\<not> p_valid (a_send_wnd_ptr a)"
  defines "n \<equiv> segs (s_w (a_send_wnd a))" and "l \<equiv> w_seg_len (s_w (a_send_wnd a))"
  shows "\<exists>out a'. backend_poll b a dt = Some (out, a') \<and> po_send_ready out \<and> a_cfg a' = a_cfg a \<and>
    s_w (a_send_wnd a') = s_w (a_send_wnd a) \<and> sf_len (a_send_frame a') = 18 + l \<and>
    carries (cfg_checksum (a_cfg a)) ((data_hdr n (k * n))\<lparr>h_seg_len := l\<rparr>) (take l (drop (k * n * l) D)) (sf_buf (a_send_frame a')) (18 + l) \<and>
    transmits D K k (Suc (k * n)) (a'\<lparr>a_send_frame := (a_send_frame a')\<lparr>sf_len := 0, sf_state := ARQ__SEND_FRAME_STATE_RELEASED\<rparr>, a_need_poll := True\<rparr>)"
proof -
  have d: "sender_ready a" "unacked_msgs D K k (a_send_wnd a) (a_send_wnd_ptr a) t" using a by (simp_all add: awaits_def)
  obtain sw where s: "arq__send_wnd_step (a_send_wnd a) dt = Some sw" "unacked_msgs D K k sw (a_send_wnd_ptr a) (t - dt)"
    "s_w sw = s_w (a_send_wnd a)"
    using unacked_step [OF d(2)] dt(2) by blast
  have "send_poll_timers (a_send_wnd a) arq__frame_hdr_init dt = Some sw"
    using s(1) unacked_msgsD(3) [OF s(2)] by (simp add: send_poll_timers_def arq__frame_hdr_init_def)
  moreover have u: "unacked_msgs D K k sw (a_send_wnd_ptr a) 0" using s(2) dt(1) by simp
  moreover have "0 < n" using wnd_okD(7) [OF unacked_msgsD(2) [OF d(2)]] by (simp add: n_def)
  ultimately show ?thesis
    using poll_due [OF d(1) _ unacked_expired [OF u k dt(2)] b, of dt] s(3) k by (auto simp: n_def l_def)
qed

text \<open>The header of an acknowledgement of message \<open>k\<close>, all of whose \<open>n\<close> segments have arrived.\<close>

definition full_ack :: "nat \<Rightarrow> nat \<Rightarrow> arq__frame_hdr_t" where
  "full_ack n k = arq__frame_hdr_init\<lparr>h_ack := True, h_ack_num := k, h_cur_ack_vec := 2 ^ n - 1\<rparr>"

lemma full_ack_fits:
  assumes "n \<le> 12" "k < 4096"
  shows "hdr_fits (full_ack n k)"
proof -
  have "(2 :: nat) ^ n \<le> 2 ^ 12" using assms(1) by (intro power_increasing) simp_all
  then show ?thesis using assms(2) by (simp add: full_ack_def hdr_fits_def arq__frame_hdr_init_def)
qed

text \<open>A control frame is filled in.\<close>

lemma fill_control:
  assumes a: "sender_ready a" and f: "carries (cfg_checksum (a_cfg a)) h [] frame n" "n = 18" and h: "hdr_fits h" "\<not> h_seg h"
  shows "\<exists>rf. test_fill a frame n = Some (a\<lparr>a_recv_frame := rf, a_need_poll := True\<rparr>) \<and> recv_frame_ok rf \<and>
    rf_cap rf = rf_cap (a_recv_frame a) \<and> control_arrived (a\<lparr>a_recv_frame := rf, a_need_poll := True\<rparr>) h"
proof -
  note r = sender_readyD [OF a]
  note p = arq_okD [OF r(1)]
  have "n \<le> rf_cap (a_recv_frame a)" using p(7) f(2) by simp
  from carries_fill [OF f(1) p(6) r(8) this] obtain rf where rf: "arq__recv_frame_fill (a_recv_frame a) frame n = Some (n, rf)"
    "rf_full rf" "recv_frame_ok rf" "rf_len rf = n" "rf_cap rf = rf_cap (a_recv_frame a)"
    "carries (cfg_checksum (a_cfg a)) h [] (rf_buf rf) n"
    by blast
  then show ?thesis using h
    by (intro exI [of _ rf]) (simp add: test_fill_def arq_backend_recv_fill_def ARQ_SUCCEEDED_iff control_arrived_def)
qed

lemma take_ack:
  assumes a: "awaits D K k t a" and t: "0 < t" and k: "k < K" and b: "use_connections b" and n: "segs (s_w (a_send_wnd a)) = n"
    and f: "carries (cfg_checksum (a_cfg a)) (full_ack n k) [] frame 18"
  shows "\<exists>a1 out a2. test_fill a frame 18 = Some a1 \<and> test_poll b a1 0 = Some (out, a2) \<and> \<not> po_send_ready out \<and>
    awaits D K (Suc k) t a2 \<and> \<not> p_valid (a_send_wnd_ptr a2) \<and> a_cfg a2 = a_cfg a \<and> segs (s_w (a_send_wnd a2)) = n \<and>
    w_seg_len (s_w (a_send_wnd a2)) = w_seg_len (s_w (a_send_wnd a))"
proof -
  let ?h = "full_ack n k"
  have d: "sender_ready a" "unacked_msgs D K k (a_send_wnd a) (a_send_wnd_ptr a) t" using a by (simp_all add: awaits_def)
  note u = unacked_msgsD [OF d(2)]
  have n12: "n \<le> 12" using wnd_okD(8) [OF u(2)] n by simp
  have h: "hdr_fits ?h" "\<not> h_seg ?h" "\<not> h_rst ?h" "h_ack ?h" "h_ack_num ?h = k" "h_cur_ack_vec ?h = 2 ^ n - 1"
    using full_ack_fits [OF n12, of k] k u(6) by (simp_all add: full_ack_def arq__frame_hdr_init_def)
  obtain rf where fl: "test_fill a frame 18 = Some (a\<lparr>a_recv_frame := rf, a_need_poll := True\<rparr>)" "recv_frame_ok rf"
    "rf_cap rf = rf_cap (a_recv_frame a)" "control_arrived (a\<lparr>a_recv_frame := rf, a_need_poll := True\<rparr>) ?h"
    using fill_control [OF d(1) f refl h(1,2)] by blast
  obtain sw1 where 1: "arq__send_wnd_ack (a_send_wnd a) k (2 ^ n - 1) = Some sw1"
    "unacked_msgs D K (Suc k) sw1 (a_send_wnd_ptr a) t" "segs (s_w sw1) = segs (s_w (a_send_wnd a))"
    "w_seg_len (s_w sw1) = w_seg_len (s_w (a_send_wnd a))"
    using first_acked [OF d(2) k] n by auto
  have "(if h_ack ?h then arq__send_wnd_ack (a_send_wnd a) (h_ack_num ?h) (h_cur_ack_vec ?h) else Some (a_send_wnd a)) = Some sw1"
    using 1(1) h by simp
  from awaiting_poll [OF a b fl(2,3,4) h(3) this 1(2,4,3) t] obtain out a2 where
    p: "backend_poll b (a\<lparr>a_recv_frame := rf, a_need_poll := True\<rparr>) 0 = Some (out, a2)" "\<not> po_send_ready out"
    "awaits D K (Suc k) t a2" "\<not> p_valid (a_send_wnd_ptr a2)" "a_cfg a2 = a_cfg a" "segs (s_w (a_send_wnd a2)) = segs (s_w (a_send_wnd a))"
    "w_seg_len (s_w (a_send_wnd a2)) = w_seg_len (s_w (a_send_wnd a))"
    unfolding diff_zero by blast
  then show ?thesis using fl(1) n
    by (intro exI [of _ "a\<lparr>a_recv_frame := rf, a_need_poll := True\<rparr>"] exI [of _ out] exI [of _ a2]) (simp add: test_poll_eq)
qed

section \<open>A receiver that owes acknowledgements\<close>

text \<open>A poll of an object that sends no data: what becomes of its receive window and of its send frame.\<close>

lemma quiet_closed_poll:
  assumes ok: "arq_ok a" and q: "quiet (a_send_wnd a) (a_send_wnd_ptr a)" and cl: "cn_state (a_conn a) = ARQ_CONN_STATE_CLOSED"
    and b: "use_connections b"
    and recv: "recv_poll_frame b (a_recv_wnd a) (a_recv_frame a) (cfg_checksum (a_cfg a)) arq__frame_hdr_init
      (inter_segment_timeout (a_cfg a)) = Some (rw1, rf1, rh)" "recv_wnd_ok rw1" "recv_frame_ok rf1"
    "rf_cap rf1 = rf_cap (a_recv_frame a)" "w_seg_len (r_w rw1) = w_seg_len (r_w (a_recv_wnd a))" "h_cur_ack_vec rh < 4096" "\<not> h_rst rh"
    and tm: "timer_ran rw1 dt = rw1" and ack: "acked rw1 arq__frame_hdr_init = (e, rw2, h)"
  shows "\<exists>out a'. backend_poll b a dt = Some (out, a') \<and> arq_ok a' \<and> a_cfg a' = a_cfg a \<and> a_recv_frame a' = rf1 \<and> \<not> a_need_poll a' \<and>
    quiet (a_send_wnd a') (a_send_wnd_ptr a') \<and> cn_state (a_conn a') = ARQ_CONN_STATE_CLOSED \<and>
    a_recv_wnd a' = (if poll_hdr (a_send_frame a) = None then rw1 else rw2) \<and>
    (if poll_hdr (a_send_frame a) \<noteq> None \<and> e
     then sf_len (a_send_frame a') = 18 \<and> carries (cfg_checksum (a_cfg a)) h [] (sf_buf (a_send_frame a')) 18
     else a_send_frame a' = a_send_frame a)"
proof -
  let ?c = "a_cfg a" and ?sw = "a_send_wnd a" and ?sp = "a_send_wnd_ptr a"
  note p = arq_okD [OF ok]
  obtain out a' where run: "backend_poll b a dt = Some (out, a')" "arq_ok a'" "\<not> a_need_poll a'" "a_cfg a' = ?c" "a_recv_frame a' = rf1"
    "quiet (a_send_wnd a') (a_send_wnd_ptr a')"
    using backend_poll_runs [OF ok _ recv(1-6), of dt] q by blast
  have vec: "h_cur_ack_vec rh < 65536" using recv(6) by simp
  have conn: "\<exists>ev. arq__conn_poll b (a_conn a) sh rh dt ?c = Some (False, a_conn a, sh, ev)" for sh
    using closed_poll [OF recv(7) b] closed_conn [OF cl] by metis
  have "a_recv_wnd a' = (if poll_hdr (a_send_frame a) = None then rw1 else rw2) \<and> a_conn a' = a_conn a \<and>
    (if poll_hdr (a_send_frame a) \<noteq> None \<and> e
     then sf_len (a_send_frame a') = 18 \<and> carries (cfg_checksum ?c) h [] (sf_buf (a_send_frame a')) 18
     else a_send_frame a' = a_send_frame a)"
  proof (cases "poll_hdr (a_send_frame a)")
    case None
    have 1: "arq__recv_poll b (a_recv_wnd a) (a_recv_frame a) (cfg_checksum ?c) None arq__frame_hdr_init dt (inter_segment_timeout ?c) =
        Some (False, rw1, rf1, None, rh)"
      using recv_poll_run [OF recv(1,2), of None dt] tm by simp
    obtain e2 sw where 2: "arq__send_poll ?sw ?sp None rh dt (retransmission_timeout ?c) = Some (e2, sw, ?sp, None)"
      using quiet_send_poll [OF p(2) q recv(6)] by blast
    obtain ev where 3: "arq__conn_poll b (a_conn a) None rh dt ?c = Some (False, a_conn a, None, ev)" using conn by blast
    have "a_recv_wnd a' = rw1 \<and> a_conn a' = a_conn a \<and> a_send_frame a' = a_send_frame a"
      using run(1) unfolding backend_poll_def Let_def poll_hdr_def [symmetric] None
      by (simp add: 1 2 3 bind_Some_iff) auto
    then show ?thesis using None by simp
  next
    case (Some h0)
    then have h0: "poll_hdr (a_send_frame a) = Some arq__frame_hdr_init" by (auto simp: poll_hdr_def split: if_splits)
    obtain sw where 2: "send_poll_timers ?sw rh dt = Some sw" "send_wnd_ok sw" "s_w sw = s_w ?sw"
      using quiet_timers [OF p(2) _ vec] q by (auto simp: quiet_def)
    have 3: "send_poll_header sw ?sp h (retransmission_timeout ?c) = Some (sw, ?sp, h)"
      using q 2(3) by (intro quiet_header) (simp add: quiet_def)
    obtain ev where 4: "arq__conn_poll b (a_conn a) (Some h) rh dt ?c = Some (False, a_conn a, Some h, ev)" using conn by blast
    have h: "\<not> h_seg h" "h_seg_len h = 0" "hdr_fits h"
      using ack acked_hdr [OF recv(2) ack emittable_init] by (auto simp: acked_def emittable_def arq__frame_hdr_init_def split: option.splits)
    obtain sf where sf: "(if e \<or> h_seg h \<or> False then backend_emit b ?c sw h (a_send_frame a) else Some (a_send_frame a)) = Some sf"
      "if e then sf_len sf = 18 \<and> carries (cfg_checksum ?c) h [] (sf_buf sf) 18 else sf = a_send_frame a"
      using backend_emit_carries [OF p(4) _ h(3,1,2), of b ?c sw] h(1) by (cases e) auto
    obtain np where 5: "arq__next_poll b sw rw2 (a_conn a) = Some np"
      using next_poll_eq [OF 2(2), of b rw2 "a_conn a"] conn_next_poll_total [OF p(8)] by (cases "use_connections b") (auto simp: Let_def)
    obtain pend where 6: "arq__recv_wnd_pending rw2 = Some pend"
      using recv_pending_total [OF acked_ok(1) [OF recv(2) ack]] by blast
    show ?thesis
      using backend_poll_run [OF ok h0 recv(1,2) _ 2(1) 3 4 sf(1) 5 6] ack tm run(1) sf(2) h0 by auto
  qed
  then show ?thesis using run cl by auto
qed

text \<open>
  Of the first \<open>i\<close> segments of the buffer each complete message asks for an acknowledgement, but for the
  first \<open>k\<close>, whose requests were taken up.
\<close>

definition requests_from :: "nat \<Rightarrow> nat \<Rightarrow> nat \<Rightarrow> arq__recv_wnd_t \<Rightarrow> bool" where
  "requests_from n i k rw \<longleftrightarrow> length (r_ack rw) = w_cap (r_w rw) \<and>
     (\<forall>j < w_cap (r_w rw). r_ack rw ! j \<longleftrightarrow> k \<le> j \<and> Suc j * n \<le> i)"

definition timer_fresh :: "arq__recv_wnd_t \<Rightarrow> bool" where
  "timer_fresh rw \<longleftrightarrow> (r_inter_seg_ack_on rw \<longrightarrow> 0 < r_inter_seg_ack rw)"

lemma timer_fresh_ran: "timer_fresh rw \<Longrightarrow> timer_ran rw 0 = rw"
  by (auto simp: timer_fresh_def timer_ran_def)

lemma requests_step:
  fixes n :: nat
  assumes r: "requests_from n i k rw" and n: "0 < n" and k: "k \<le> i div n" and m: "i div n < w_cap (r_w rw)" and w: "w_cap (r_w rw') = w_cap (r_w rw)"
    and a: "r_ack rw' = (if i mod n = n - 1 then (r_ack rw)[i div n := True] else r_ack rw)"
  shows "requests_from n (Suc i) k rw'"
proof -
  have e: "Suc j * n = Suc i \<longleftrightarrow> i mod n = n - 1 \<and> j = i div n" for j
  proof
    assume *: "Suc j * n = Suc i"
    then have "i = n - 1 + j * n" using n by (cases n) auto
    then have "i mod n = (n - 1) mod n" "i div n = j + (n - 1) div n"
      using n by (simp_all only: mod_mult_self1 div_mult_self1)
    then show "i mod n = n - 1 \<and> j = i div n" using n by simp
  next
    assume "i mod n = n - 1 \<and> j = i div n"
    then show "Suc j * n = Suc i" using n div_mult_mod_eq [of i n] by simp
  qed
  have l: "Suc j * n \<le> Suc i \<longleftrightarrow> Suc j * n \<le> i \<or> i mod n = n - 1 \<and> j = i div n" for j
    unfolding le_Suc_eq e by blast
  show ?thesis
    using r k m unfolding requests_from_def w a l by (auto simp: nth_list_update)
qed

lemma acked_request:
  fixes n :: nat
  assumes h: "recv_holds msgs 0 rw" "r_slide rw = 0" and r: "requests_from n i k rw" and n: "0 < n"
    and a: "arrived msgs 0 rw = {(m, s). m * n + s < i \<and> s < n}"
    and k: "k < w_cap (r_w rw)" "k < 4096" "Suc k * n \<le> i" and cnt: "seg_count (r_w rw) (length (msgs k)) = n"
  shows "acked rw arq__frame_hdr_init = (True, rw\<lparr>r_ack := (r_ack rw)[k := False]\<rparr>, full_ack n k)"
    "requests_from n i (Suc k) (rw\<lparr>r_ack := (r_ack rw)[k := False]\<rparr>)"
proof -
  have sl: "slot (r_w rw) j = j" if "j < w_cap (r_w rw)" for j using that by (simp add: holds_slot [OF h(1)])
  have "(k, s) \<in> arrived msgs 0 rw" if "s < n" for s using that k(3) by (simp add: a)
  from arrived_complete [OF h(1) _ _ this] h(2) k(1) cnt
  have c: "k < w_size (r_w rw)" "m_cur_ack_vec (msg_at (r_w rw) k) = 2 ^ n - 1" by simp_all
  have f: "r_ack rw ! slot (r_w rw) j \<longleftrightarrow> k \<le> j \<and> Suc j * n \<le> i" if "j < w_size (r_w rw)" for j
  proof -
    have "j < w_cap (r_w rw)" using that wnd_okD(12) [OF recv_wnd_okD(1) [OF recv_holdsD(1) [OF h(1)]]] by simp
    then show ?thesis using r sl by (simp add: requests_from_def)
  qed
  have "find (\<lambda>j. r_ack rw ! slot (r_w rw) j) [0..<w_size (r_w rw)] = Some k"
    using c(1) f k(3) by (intro find_least) (auto dest: less_trans)
  then show "acked rw arq__frame_hdr_init = (True, rw\<lparr>r_ack := (r_ack rw)[k := False]\<rparr>, full_ack n k)"
    using recv_holdsD(2) [OF h(1)] k(1,2) c(2) sl by (simp add: acked_def full_ack_def)
  show "requests_from n i (Suc k) (rw\<lparr>r_ack := (r_ack rw)[k := False]\<rparr>)"
    using r k(1) by (auto simp: requests_from_def nth_list_update)
qed

lemma acked_no_request:
  fixes n :: nat
  assumes h: "recv_holds msgs 0 rw" and r: "requests_from n i k rw" and i: "i < Suc k * n"
  shows "acked rw arq__frame_hdr_init = (False, rw, arq__frame_hdr_init)"
proof -
  have "\<not> r_ack rw ! slot (r_w rw) j" if "j < w_size (r_w rw)" for j
  proof -
    have j: "j < w_cap (r_w rw)" using that wnd_okD(12) [OF recv_wnd_okD(1) [OF recv_holdsD(1) [OF h]]] by simp
    then have "slot (r_w rw) j = j" by (simp add: holds_slot [OF h])
    moreover have "\<not> (k \<le> j \<and> Suc j * n \<le> i)"
    proof
      assume "k \<le> j \<and> Suc j * n \<le> i"
      moreover from this have "Suc k * n \<le> Suc j * n" by (intro mult_le_mono1) simp
      ultimately show False using i by linarith
    qed
    ultimately show ?thesis using r j by (simp add: requests_from_def)
  qed
  then have "find (\<lambda>j. r_ack rw ! slot (r_w rw) j) [0..<w_size (r_w rw)] = None" by (auto simp: find_None_iff)
  then show ?thesis by (simp add: acked_def arq__frame_hdr_init_def)
qed

text \<open>The receiver before segment \<open>i\<close>, after \<open>k\<close> acknowledgements were written; the last one waits in the send frame.\<close>

definition owes :: "arq_cfg_t \<Rightarrow> byte list \<Rightarrow> nat \<Rightarrow> nat \<Rightarrow> arq_t \<Rightarrow> bool" where
  "owes c D i k a \<longleftrightarrow> received c D i a \<and> requests_from (message_length_in_segments c) i k (a_recv_wnd a) \<and> timer_fresh (a_recv_wnd a) \<and>
     cn_state (a_conn a) = ARQ_CONN_STATE_CLOSED \<and>
     (if k = 0 then sf_len (a_send_frame a) = 0 \<and> sf_state (a_send_frame a) \<noteq> ARQ__SEND_FRAME_STATE_HELD
      else sf_len (a_send_frame a) = 18 \<and>
        carries (cfg_checksum c) (full_ack (message_length_in_segments c) (k - 1)) [] (sf_buf (a_send_frame a)) 18)"

lemma fresh_owes:
  assumes "cfg_sound c" "abi_ok abi" "required_bytes abi c < 2 ^ 32" "seat_ok c seat" "use_connections b"
    and "recv_window_size_in_messages c < 2048"
  shows "\<exists>a. ArqContext b abi seat c = Some a \<and> owes c D 0 0 a"
proof -
  have n: "0 < message_length_in_segments c" using assms(1) by (auto simp: cfg_sound_def geometry_ok_def)
  obtain a where "ArqContext b abi seat c = Some a" "received c D 0 a" "r_ack (a_recv_wnd a) = replicate (recv_window_size_in_messages c) False"
    "\<not> r_inter_seg_ack_on (a_recv_wnd a)" "sf_len (a_send_frame a) = 0" "sf_state (a_send_frame a) = ARQ__SEND_FRAME_STATE_FREE"
    "cn_state (a_conn a) = ARQ_CONN_STATE_CLOSED"
    using fresh_received [OF assms, of D] by auto
  then show ?thesis using n by (auto simp: owes_def requests_from_def timer_fresh_def received_def Let_def)
qed

text \<open>What is received stays when only requests and timers change.\<close>

lemma received_same:
  assumes a: "received c D i a" and a': "arq_ok a'" "quiet (a_send_wnd a') (a_send_wnd_ptr a')" "same_content (a_recv_wnd a) (a_recv_wnd a')"
    "\<not> rf_full (a_recv_frame a')" "rf_len (a_recv_frame a') = 0" "\<not> a_need_poll a'" "a_cfg a' = a_cfg a"
  shows "received c D i a'"
  using assms same_content_holds [OF a'(3)] same_content_arrived [OF a'(3)]
  by (auto simp: received_def Let_def receives_def same_content_def)

text \<open>The next segment.\<close>

lemma owe_next:
  fixes n l :: nat
  assumes a: "owes c D i (if n \<le> i then 1 else 0) a" and D: "length D = K * (n * l)" and n: "0 < n" "0 < l"
    and i: "i < K * n" "K \<le> recv_window_size_in_messages c"
    and nl: "n = message_length_in_segments c" "l = segment_length_in_bytes c" and K: "K \<le> 4096" and it: "0 < inter_segment_timeout c"
    and h: "hdr_fits h" "h_seg h" "h_seq_num h = i div n" "h_seg_id h = i mod n" "h_msg_len h = n" "\<not> h_rst h"
    and f: "carries (cfg_checksum c) h (take l (drop (i * l) D)) frame k" and b: "use_connections b"
  shows "\<exists>a1 out a2. test_fill a frame k = Some a1 \<and> test_poll b a1 0 = Some (out, a2) \<and> owes c D (Suc i) (if n \<le> Suc i then 1 else 0) a2"
proof -
  let ?m = "i div n" and ?s = "i mod n" and ?M = "chop (n * l) D" and ?k = "if n \<le> i then 1 else 0 :: nat"
  have o: "received c D i a" "requests_from n i ?k (a_recv_wnd a)" "cn_state (a_conn a) = ARQ_CONN_STATE_CLOSED"
    "if n \<le> i then sf_len (a_send_frame a) = 18 \<and> carries (cfg_checksum c) (full_ack n 0) [] (sf_buf (a_send_frame a)) 18
     else sf_len (a_send_frame a) = 0 \<and> sf_state (a_send_frame a) \<noteq> ARQ__SEND_FRAME_STATE_HELD"
    using a nl(1) by (auto simp: owes_def split: if_splits)
  have t: "receives ?M 0 a" "a_cfg a = c" "r_slide (a_recv_wnd a) = 0" "w_cap (r_w (a_recv_wnd a)) = recv_window_size_in_messages c"
    "w_seg_len (r_w (a_recv_wnd a)) = l" "arrived ?M 0 (a_recv_wnd a) = {(m, s). m * n + s < i \<and> s < n}"
    using o(1) nl by (simp_all add: received_def Let_def)
  note r = receivesD [OF t(1)]
  note ok = arq_okD [OF r(1)]
  have iK: "?m < K" using i(1) by (simp add: less_mult_imp_div_less)
  have sn: "?s < n" using n(1) by simp
  have cnt: "seg_count (r_w (a_recv_wnd a)) (length (?M j)) = n" if "j < K" for j
    using n full_chop(2) [OF D that] t(5) seg_count_multiple [of "r_w (a_recv_wnd a)" n] by simp
  have ns: "names_segment ?M (r_w (a_recv_wnd a)) ?m ?s h" using h n(1) cnt [OF iK] iK K by (simp add: names_segment_def)
  have new: "\<not> has_seg (a_recv_wnd a) ?m ?s"
  proof
    assume "has_seg (a_recv_wnd a) ?m ?s"
    then have "(?m, ?s) \<in> arrived ?M 0 (a_recv_wnd a)" using cnt [OF iK] sn iK i(2) t(4) by (simp add: arrived_def)
    then show False using t(6) div_mult_mod_eq [of i n] by simp
  qed
  have f': "carries (cfg_checksum (a_cfg a)) h (msg_seg (w_seg_len (r_w (a_recv_wnd a))) (?M ?m) ?s) frame k"
    using f t(2,5) chop_segment [OF D n i(1)] by simp
  obtain rf where fl: "test_fill a frame k = Some (a\<lparr>a_recv_frame := rf, a_need_poll := True\<rparr>)" "rf_full rf" "recv_frame_ok rf"
    "rf_cap rf = rf_cap (a_recv_frame a)"
    "carries (cfg_checksum (a_cfg a)) h (msg_seg (w_seg_len (r_w (a_recv_wnd a))) (?M ?m) ?s) (rf_buf rf) (rf_len rf)"
    using fill_segment [OF t(1) f'] by blast
  let ?a = "a\<lparr>a_recv_frame := rf, a_need_poll := True\<rparr>"
  have tt: "inter_segment_timeout (a_cfg a) < 2 ^ 32" using ok(1) by (simp add: cfg_ranges_def)
  have mb: "0 + r_slide (a_recv_wnd a) \<le> ?m" "?m < 0 + r_slide (a_recv_wnd a) + w_cap (r_w (a_recv_wnd a))" using t(3,4) iK i(2) by simp_all
  obtain rw1 rf1 base' where s: "recv_poll_frame b (a_recv_wnd ?a) (a_recv_frame ?a) (cfg_checksum (a_cfg ?a)) arq__frame_hdr_init
      (inter_segment_timeout (a_cfg ?a)) = Some (rw1, rf1, h)" "recv_holds ?M base' rw1" "base' + r_slide rw1 = 0"
    "w_cap (r_w rw1) = w_cap (r_w (a_recv_wnd a))" "w_seg_len (r_w rw1) = w_seg_len (r_w (a_recv_wnd a))"
    "arrived ?M base' rw1 = insert (?m, ?s) (arrived ?M 0 (a_recv_wnd a))"
    "r_ack rw1 = (if ?s = n - 1 then (r_ack (a_recv_wnd a))[?m mod w_cap (r_w (a_recv_wnd a)) := True] else r_ack (a_recv_wnd a))"
    "r_inter_seg_ack_on rw1 = (?s \<noteq> n - 1)" "?s \<noteq> n - 1 \<longrightarrow> r_inter_seg_ack rw1 = inter_segment_timeout (a_cfg ?a)"
    "recv_frame_ok rf1" "\<not> rf_full rf1" "rf_len rf1 = 0" "rf_cap rf1 = rf_cap rf"
    using take_segment [OF r(3) mb ns tt fl(2,3,5), of b arq__frame_hdr_init] new t(3)
    by (simp del: insert_iff add: cnt [OF iK]) (elim exE conjE, simp)
  have z: "base' = 0" "r_slide rw1 = 0" using s(3) by simp_all
  note h1 = s(2) [unfolded z(1)]
  obtain a1 out a2 where nx: "test_fill a frame k = Some a1" "test_poll b a1 0 = Some (out, a2)" "received c D (Suc i) a2"
    using receive_next [OF o(1) D n i nl K h(1-5) f, of b] by blast
  have bp: "backend_poll b ?a 0 = Some (out, a2)" using nx(1,2) fl(1) by (simp add: test_poll_eq)
  have arr: "arrived ?M 0 rw1 = {(m, s). m * n + s < Suc i \<and> s < n}"
    using s(6) t(6) insert_segment [OF n(1), of i] z(1) by simp
  have tf: "timer_fresh rw1" using s(8,9) it t(2) by (simp add: timer_fresh_def)
  have rq: "requests_from n (Suc i) ?k rw1"
  proof (rule requests_step [OF o(2) n(1)])
    show "?k \<le> ?m" using n(1) div_le_mono [of n i n] by simp
  qed (use s(4,7) mb t(3) in simp_all)
  obtain e rw2 h2 where ack: "acked rw1 arq__frame_hdr_init = (e, rw2, h2)" by (metis prod_cases3)
  have "arq_ok ?a" using r(1) fl(3,4) by (simp add: arq_ok_def)
  moreover have "h_cur_ack_vec h < 4096" using h(1) by (simp add: hdr_fits_def)
  ultimately have q: "cn_state (a_conn a2) = ARQ_CONN_STATE_CLOSED" "a_recv_wnd a2 = (if poll_hdr (a_send_frame a) = None then rw1 else rw2)"
    "if poll_hdr (a_send_frame a) \<noteq> None \<and> e
     then sf_len (a_send_frame a2) = 18 \<and> carries (cfg_checksum c) h2 [] (sf_buf (a_send_frame a2)) 18
     else a_send_frame a2 = a_send_frame a"
    using quiet_closed_poll [of ?a b rw1 rf1 h 0, OF _ _ _ b s(1) recv_holdsD(1) [OF h1] s(10)] s(5,13) fl(4) r(2) o(3) h(6)
      timer_fresh_ran [OF tf] ack bp t(2) by auto
  show ?thesis
  proof (cases "n \<le> i")
    case True
    then have "poll_hdr (a_send_frame a) = None" using o(4) by (simp add: poll_hdr_def)
    then have "owes c D (Suc i) 1 a2" using q nx(3) rq tf o(4) True nl(1) by (simp add: owes_def)
    then show ?thesis using nx(1,2) True by auto
  next
    case False
    then have p: "poll_hdr (a_send_frame a) \<noteq> None" using o(4) by (simp add: poll_hdr_def)
    show ?thesis
    proof (cases "Suc i = n")
      case True
      have "acked rw1 arq__frame_hdr_init = (True, rw1\<lparr>r_ack := (r_ack rw1)[0 := False]\<rparr>, full_ack n 0)"
        "requests_from n (Suc i) (Suc 0) (rw1\<lparr>r_ack := (r_ack rw1)[0 := False]\<rparr>)"
        using acked_request [OF h1 z(2) rq n(1) arr] False True cnt [of 0] seg_count_cong [OF s(5)] s(4) t(4) i(2) iK by simp_all
      then have "owes c D (Suc i) 1 a2" using q p ack nx(3) tf nl(1) by (simp add: owes_def timer_fresh_def)
      then show ?thesis using nx(1,2) True by auto
    next
      case neq: False
      then have "acked rw1 arq__frame_hdr_init = (False, rw1, arq__frame_hdr_init)"
        using acked_no_request [OF h1 rq] False by simp
      then have "owes c D (Suc i) 0 a2" using q p ack nx(3) tf nl(1) rq False o(4) by (simp add: owes_def)
      then show ?thesis using nx(1,2) False neq by auto
    qed
  qed
qed

text \<open>The acknowledgement that waits is drained, and the next poll writes the next one.\<close>

lemma owe_ack:
  fixes n :: nat
  assumes a: "owes c D (K * n) (Suc k) a" and D: "length D = K * (n * l)" and n: "0 < n" "0 < l"
    and k: "k < K" "K \<le> recv_window_size_in_messages c" "K \<le> 4096" and nl: "n = message_length_in_segments c" "l = segment_length_in_bytes c"
    and f: "256 \<le> length frame" and b: "use_connections b"
  shows "\<exists>frame' a1 out a2. test_drain a frame = Some (18, frame', a1) \<and> carries (cfg_checksum c) (full_ack n k) [] frame' 18 \<and>
    length frame' = length frame \<and> test_poll b a1 0 = Some (out, a2) \<and> received c D (K * n) a2 \<and>
    (Suc k < K \<longrightarrow> owes c D (K * n) (Suc (Suc k)) a2)"
proof -
  let ?M = "chop (n * l) D" and ?rw = "a_recv_wnd a"
  have o: "received c D (K * n) a" "requests_from n (K * n) (Suc k) ?rw" "cn_state (a_conn a) = ARQ_CONN_STATE_CLOSED" "timer_fresh ?rw"
    "sf_len (a_send_frame a) = 18" "carries (cfg_checksum c) (full_ack n k) [] (sf_buf (a_send_frame a)) 18"
    using a nl(1) by (simp_all add: owes_def)
  have t: "receives ?M 0 a" "a_cfg a = c" "r_slide ?rw = 0" "w_cap (r_w ?rw) = recv_window_size_in_messages c"
    "w_seg_len (r_w ?rw) = l" "arrived ?M 0 ?rw = {(m, s). m * n + s < K * n \<and> s < n}"
    using o(1) nl by (simp_all add: received_def Let_def)
  note r = receivesD [OF t(1)]
  note ok = arq_okD [OF r(1)]
  let ?a = "a\<lparr>a_send_frame := (a_send_frame a)\<lparr>sf_len := 0, sf_state := ARQ__SEND_FRAME_STATE_RELEASED\<rparr>, a_need_poll := True\<rparr>"
  obtain frame' where dr: "test_drain a frame = Some (18, frame', ?a)" "carries (cfg_checksum c) (full_ack n k) [] frame' 18"
    "length frame' = length frame"
    using test_drain_ok [OF _ f, of "cfg_checksum c" "full_ack n k" "[]" a] o(5,6) by auto
  obtain e rw2 h2 where ack: "acked ?rw arq__frame_hdr_init = (e, rw2, h2)" by (metis prod_cases3)
  have "arq_ok ?a" using r(1) by (simp add: arq_ok_def send_frame_ok_def)
  moreover have "recv_poll_frame b ?rw (a_recv_frame a) (cfg_checksum c) arq__frame_hdr_init (inter_segment_timeout c) =
      Some (?rw, a_recv_frame a, arq__frame_hdr_init)"
    by (rule recv_poll_no_frame [OF r(4)])
  moreover have "h_cur_ack_vec arq__frame_hdr_init < 4096" "\<not> h_rst arq__frame_hdr_init" by (simp_all add: arq__frame_hdr_init_def)
  moreover have "poll_hdr (a_send_frame ?a) = Some arq__frame_hdr_init" by (simp add: poll_hdr_def)
  ultimately obtain out a2 where q: "backend_poll b ?a 0 = Some (out, a2)" "arq_ok a2" "a_cfg a2 = c" "a_recv_frame a2 = a_recv_frame a" "\<not> a_need_poll a2"
    "quiet (a_send_wnd a2) (a_send_wnd_ptr a2)" "cn_state (a_conn a2) = ARQ_CONN_STATE_CLOSED" "a_recv_wnd a2 = rw2"
    "e \<longrightarrow> sf_len (a_send_frame a2) = 18 \<and> carries (cfg_checksum c) h2 [] (sf_buf (a_send_frame a2)) 18"
    using quiet_closed_poll [of ?a b ?rw "a_recv_frame a" arq__frame_hdr_init 0 e rw2 h2] b ok(5,6) r(2) o(3) t(2)
      timer_fresh_ran [OF o(4)] ack by (auto split: if_splits)
  have "same_content ?rw rw2" by (rule acked_content [OF _ ack]) (simp add: same_content_def ok(5))
  then have rc: "received c D (K * n) a2"
    using received_same [OF o(1) q(2,6) _ _ _ q(5)] q(3,4,8) r(4,5) t(2) by simp
  have "owes c D (K * n) (Suc (Suc k)) a2" if k': "Suc k < K"
  proof -
    have "Suc (Suc k) * n \<le> K * n" using k' by (intro mult_le_mono1) simp
    moreover have "seg_count (r_w ?rw) (length (?M (Suc k))) = n"
      using n full_chop(2) [OF D k'] t(5) seg_count_multiple [of "r_w ?rw" n] by simp
    moreover have "Suc k < w_cap (r_w ?rw)" "Suc k < 4096" using k' k(2,3) t(4) by simp_all
    ultimately have "acked ?rw arq__frame_hdr_init = (True, ?rw\<lparr>r_ack := (r_ack ?rw)[Suc k := False]\<rparr>, full_ack n (Suc k))"
      "requests_from n (K * n) (Suc (Suc k)) (?rw\<lparr>r_ack := (r_ack ?rw)[Suc k := False]\<rparr>)"
      using acked_request [OF r(3) t(3) o(2) n(1) t(6)] by blast+
    then show ?thesis using ack q(7-9) rc nl(1) o(4) by (simp add: owes_def timer_fresh_def)
  qed
  then show ?thesis using dr q(1) rc by (intro exI [of _ frame'] exI [of _ ?a] exI [of _ out] exI [of _ a2]) (simp add: test_poll_eq)
qed

section \<open>The whole exchange\<close>

text \<open>An acknowledgement of the receiver goes to the sender.\<close>

definition transfer_ack :: "build \<Rightarrow> byte list \<times> arq_t \<times> arq_t \<Rightarrow> (byte list \<times> arq_t \<times> arq_t) option" where
  "transfer_ack b = (\<lambda>(frame, sender, receiver). do {
     (frame_len, frame, receiver) \<leftarrow> test_drain receiver frame;
     (out, receiver) \<leftarrow> test_poll b receiver 0;
     sender \<leftarrow> test_fill sender frame frame_len;
     (out, sender) \<leftarrow> test_poll b sender 0;
     Some (frame, sender, receiver)
   })"

text \<open>Sender and receiver, and the buffer between them, before segment \<open>i\<close>, and before acknowledgement \<open>k\<close>.\<close>

definition exchanging :: "arq_cfg_t \<Rightarrow> byte list \<Rightarrow> nat \<Rightarrow> nat \<Rightarrow> byte list \<times> arq_t \<times> arq_t \<Rightarrow> bool" where
  "exchanging c D K i = (\<lambda>(frame, sender, receiver). 256 \<le> length frame \<and> sends c D K 0 i sender \<and>
     owes c D i (if message_length_in_segments c \<le> i then 1 else 0) receiver)"

definition acknowledging :: "arq_cfg_t \<Rightarrow> byte list \<Rightarrow> nat \<Rightarrow> nat \<Rightarrow> byte list \<times> arq_t \<times> arq_t \<Rightarrow> bool" where
  "acknowledging c D K k = (\<lambda>(frame, sender, receiver). 256 \<le> length frame \<and> awaits D K k (retransmission_timeout c) sender \<and> a_cfg sender = c \<and>
     segs (s_w (a_send_wnd sender)) = message_length_in_segments c \<and> w_seg_len (s_w (a_send_wnd sender)) = segment_length_in_bytes c \<and>
     received c D (K * message_length_in_segments c) receiver \<and>
     (k < K \<longrightarrow> owes c D (K * message_length_in_segments c) (Suc k) receiver))"

lemma exchange_step:
  assumes c: "cfg_sound c" "0 < inter_segment_timeout c" and b: "use_connections b"
    and D: "length D = K * (message_length_in_segments c * segment_length_in_bytes c)" and K: "K \<le> recv_window_size_in_messages c"
    and i: "i < K * message_length_in_segments c" and st: "exchanging c D K i st"
  shows "\<exists>st'. transfer_segment b st = Some st' \<and> exchanging c D K (Suc i) st'"
proof -
  let ?h = "(data_hdr (message_length_in_segments c) i)\<lparr>h_seg_len := segment_length_in_bytes c\<rparr>"
  obtain frame s r where t: "st = (frame, s, r)" "256 \<le> length frame" "sends c D K 0 i s"
    "owes c D i (if message_length_in_segments c \<le> i then 1 else 0) r"
    using st by (cases st) (auto simp: exchanging_def)
  note nl = cfg_sizes [OF c(1)]
  have K4: "K \<le> 4096" using K nl(5) by simp
  have "\<not> h_rst ?h" by (simp add: data_hdr_def arq__frame_hdr_init_def)
  from transfer_round [OF c(1) b i t(2,3) owe_next [OF t(4) D nl(1,3) i K refl refl K4 c(2) data_hdr_segment [OF nl(1,2,4) i K4] this _ b]]
  show ?thesis by (auto simp: t(1) exchanging_def)
qed

lemma exchanged:
  assumes st: "exchanging c D K (K * message_length_in_segments c) st" and K: "0 < K" "K < 4096" and n: "0 < message_length_in_segments c"
  shows "acknowledging c D K 0 st"
proof -
  let ?n = "message_length_in_segments c"
  obtain frame s r where t: "st = (frame, s, r)" "256 \<le> length frame" "transmits D K 0 (K * ?n) s" "a_cfg s = c" "owes c D (K * ?n) (if ?n \<le> K * ?n then 1 else 0) r"
    and g: "segs (s_w (a_send_wnd s)) = ?n" "w_seg_len (s_w (a_send_wnd s)) = segment_length_in_bytes c"
    using st by (cases st) (auto simp: exchanging_def sends_def)
  have "awaits D K 0 (retransmission_timeout c) s" using sent_awaits [of D K 0 s] t(3,4) g(1) K(2) by simp
  moreover have "?n \<le> K * ?n" using K(1) n by simp
  ultimately show ?thesis using t g K(1) by (simp add: acknowledging_def owes_def)
qed

lemma ack_step:
  assumes c: "cfg_sound c" and b: "use_connections b"
    and D: "length D = K * (message_length_in_segments c * segment_length_in_bytes c)" and K: "K \<le> recv_window_size_in_messages c"
    and k: "k < K" and st: "acknowledging c D K k st"
  shows "\<exists>st'. transfer_ack b st = Some st' \<and> acknowledging c D K (Suc k) st'"
proof -
  let ?n = "message_length_in_segments c" and ?l = "segment_length_in_bytes c"
  obtain frame s r where t: "st = (frame, s, r)" "256 \<le> length frame" "awaits D K k (retransmission_timeout c) s" "a_cfg s = c" "owes c D (K * ?n) (Suc k) r"
    and g: "segs (s_w (a_send_wnd s)) = ?n" "w_seg_len (s_w (a_send_wnd s)) = ?l"
    using st k by (cases st) (auto simp: acknowledging_def)
  note nl = cfg_sizes [OF c]
  have K4: "K \<le> 4096" using K nl(5) by simp
  obtain f r1 o1 r2 where 1: "test_drain r frame = Some (18, f, r1)" "carries (cfg_checksum c) (full_ack ?n k) [] f 18" "length f = length frame"
    "test_poll b r1 0 = Some (o1, r2)" "received c D (K * ?n) r2" "Suc k < K \<longrightarrow> owes c D (K * ?n) (Suc (Suc k)) r2"
    using owe_ack [OF t(5) D nl(1,3) k K K4 refl refl t(2) b] by blast
  have f: "carries (cfg_checksum (a_cfg s)) (full_ack ?n k) [] f 18" using 1(2) t(4) by simp
  have rtx: "0 < retransmission_timeout c" using t(3,4) by (auto simp: awaits_def sender_ready_def)
  from take_ack [OF t(3) rtx k b g(1) f] g(2) t(4)
  obtain s1 o2 s2 where 2: "test_fill s f 18 = Some s1" "test_poll b s1 0 = Some (o2, s2)" "awaits D K (Suc k) (retransmission_timeout c) s2" "a_cfg s2 = c"
    "segs (s_w (a_send_wnd s2)) = ?n" "w_seg_len (s_w (a_send_wnd s2)) = ?l"
    by auto
  show ?thesis using 1 2 t(2) by (simp add: transfer_ack_def acknowledging_def t(1))
qed

text \<open>All messages are acknowledged: the window of the sender is empty.\<close>

lemma acknowledgedD:
  assumes "acknowledging c D K K (frame, s, r)"
  shows "w_size (s_w (a_send_wnd s)) = 0" "received c D (K * message_length_in_segments c) r"
  using assms by (auto simp: acknowledging_def awaits_def unacked_msgs_def)

text \<open>Two fresh objects are before the first segment.\<close>

lemma exchange_start:
  assumes c: "cfg_sound c" "recv_window_size_in_messages c < 2048" "0 < retransmission_timeout c"
    and s: "abi_ok abi" "required_bytes abi c < 2 ^ 32" "seat_ok c seat1" "seat_ok c seat2" and b: "use_connections b"
    and D: "length D = K * (message_length_in_segments c * segment_length_in_bytes c)" "0 < K" "K \<le> send_window_size_in_messages c"
    and f: "256 \<le> length frame"
  shows "\<exists>sender receiver sender'. ArqContext b abi seat1 c = Some sender \<and> ArqContext b abi seat2 c = Some receiver \<and>
    arq_send (Some sender) (Some D) (length D) True = Some (ARQ_OK_COMPLETED, Some (length D), Some sender') \<and>
    exchanging c D K 0 (frame, sender', receiver) \<and> w_cap (s_w (a_send_wnd sender')) = send_window_size_in_messages c"
proof -
  have "\<not> message_length_in_segments c \<le> 0" using cfg_sizes(1) [OF c(1)] by simp
  then show ?thesis
    using context_sends [OF c(1) s(1,2,3) b D c(3)] fresh_owes [OF c(1) s(1,2,4) b c(2), of D] f
    by (auto simp: exchanging_def sends_def)
qed

lemma exchange_all:
  assumes c: "cfg_sound c" "recv_window_size_in_messages c < 2048" "0 < inter_segment_timeout c" and b: "use_connections b"
    and D: "length D = K * (message_length_in_segments c * segment_length_in_bytes c)" "0 < K" "K \<le> recv_window_size_in_messages c"
    and st: "exchanging c D K 0 st"
  shows "\<exists>st1 f s r. for_range 0 (K * message_length_in_segments c) (\<lambda>i. transfer_segment b) st = Some st1 \<and>
    for_range 0 K (\<lambda>k. transfer_ack b) st1 = Some (f, s, r) \<and> acknowledging c D K K (f, s, r)"
proof -
  have K: "K < 4096" using D(3) c(2) by simp
  obtain st1 where 1: "for_range 0 (K * message_length_in_segments c) (\<lambda>i. transfer_segment b) st = Some st1"
    "exchanging c D K (K * message_length_in_segments c) st1"
    using for_range_inv [where P = "exchanging c D K" and i = 0 and n = "K * message_length_in_segments c" and f = "\<lambda>i. transfer_segment b", OF st]
      exchange_step [OF c(1,3) b D(1,3)] by auto
  have "acknowledging c D K 0 st1" by (rule exchanged [OF 1(2) D(2) K cfg_sizes(1) [OF c(1)]])
  from for_range_inv [where P = "acknowledging c D K" and i = 0 and n = K and f = "\<lambda>k. transfer_ack b", OF this]
    ack_step [OF c(1) b D(1,3)]
  obtain st2 where "for_range 0 K (\<lambda>k. transfer_ack b) st1 = Some st2" "acknowledging c D K K st2" by auto
  then show ?thesis using 1(1) by (cases st2) auto
qed

text \<open>
  C2. A transfer. Take two fresh objects of the same configuration that is sound (\<open>cfg_sound\<close>), has a
  retransmission timeout that is not zero and a receive window of less than 2048 messages, in a build with
  connections and in seats that fit; and a buffer of \<open>K\<close> full messages, at least one and no more than either
  window holds. \<open>arq_send\<close> takes the whole buffer, and when every frame of the sender's polls is filled
  into the receiver and polled for, \<open>arq_recv\<close> gives the buffer at the other end. No call fails on the
  way, and the sender has a frame to send in every round. If moreover the inter-segment timeout is not
  zero, the receiver then has one acknowledgement for each message: when these are drained and filled into
  the sender, the sender's window is empty, and the buffer can still be read.
\<close>

theorem transfer_delivers:
  assumes c: "cfg_sound c" "recv_window_size_in_messages c < 2048" "0 < retransmission_timeout c"
    and s: "abi_ok abi" "required_bytes abi c < 2 ^ 32" "seat_ok c seat1" "seat_ok c seat2" and b: "use_connections b"
    and D: "length D = K * (message_length_in_segments c * segment_length_in_bytes c)"
    and K: "0 < K" "K \<le> send_window_size_in_messages c" "K \<le> recv_window_size_in_messages c" and f: "256 \<le> length frame"
  shows "\<exists>sender receiver sender1 frame1 sender2 receiver1 reader.
    ArqContext b abi seat1 c = Some sender \<and> ArqContext b abi seat2 c = Some receiver \<and>
    arq_send (Some sender) (Some D) (length D) True = Some (ARQ_OK_COMPLETED, Some (length D), Some sender1) \<and>
    for_range 0 (K * message_length_in_segments c) (\<lambda>i. transfer_segment b) (frame, sender1, receiver) = Some (frame1, sender2, receiver1) \<and>
    arq_recv (Some receiver1) True (length D) True = Some (ARQ_OK_COMPLETED, Some D, Some reader) \<and>
    (0 < inter_segment_timeout c \<longrightarrow>
      (\<exists>frame2 sender3 receiver2 reader2.
        for_range 0 K (\<lambda>k. transfer_ack b) (frame1, sender2, receiver1) = Some (frame2, sender3, receiver2) \<and>
        w_size (s_w (a_send_wnd sender3)) = 0 \<and>
        arq_recv (Some receiver2) True (length D) True = Some (ARQ_OK_COMPLETED, Some D, Some reader2)))"
proof -
  let ?n = "message_length_in_segments c"
  obtain s0 r0 s1 where 1: "ArqContext b abi seat1 c = Some s0" "ArqContext b abi seat2 c = Some r0"
    "arq_send (Some s0) (Some D) (length D) True = Some (ARQ_OK_COMPLETED, Some (length D), Some s1)" "exchanging c D K 0 (frame, s1, r0)"
    using exchange_start [OF c s b D K(1,2) f] by blast
  then have "transferred c D K 0 (frame, s1, r0)" by (auto simp: exchanging_def transferred_def owes_def)
  then obtain f' s2 r2 where 2: "for_range 0 (K * ?n) (\<lambda>i. transfer_segment b) (frame, s1, r0) = Some (f', s2, r2)" "received c D (K * ?n) r2"
    using transfer_loop [OF c(1) b D K(3)] by (fastforce simp: transferred_def)
  obtain r3 where 3: "arq_recv (Some r2) True (length D) True = Some (ARQ_OK_COMPLETED, Some D, Some r3)"
    using received_read [OF c(1,2) 2(2) D K(3)] by blast
  have "\<exists>f'' s3 r4 r5. for_range 0 K (\<lambda>k. transfer_ack b) (f', s2, r2) = Some (f'', s3, r4) \<and>
      w_size (s_w (a_send_wnd s3)) = 0 \<and> arq_recv (Some r4) True (length D) True = Some (ARQ_OK_COMPLETED, Some D, Some r5)"
    if it: "0 < inter_segment_timeout c"
  proof -
    obtain f'' s3 r4 where a: "for_range 0 K (\<lambda>k. transfer_ack b) (f', s2, r2) = Some (f'', s3, r4)" "acknowledging c D K K (f'', s3, r4)"
      using exchange_all [OF c(1,2) it b D K(1,3) 1(4)] 2(1) by auto
    then show ?thesis using acknowledgedD [OF a(2)] received_read [OF c(1,2) _ D K(3), of r4] by auto
  qed
  then show ?thesis
    using 1(1-3) 2(1) 3 by (intro exI [of _ s0] exI [of _ r0] exI [of _ s1] exI [of _ f'] exI [of _ s2] exI [of _ r2] exI [of _ r3]) simp
qed

theorem transfer_delivers_witness:
  "\<exists>s r s1 f s2 r1 r2 f1 s3 r3 r4. ArqContext release_build demo_abi (4096, demo_mem) demo_cfg = Some s \<and>
    ArqContext release_build demo_abi (8192, demo_mem) demo_cfg = Some r \<and>
    arq_send (Some s) (Some [1, 2, 3, 4, 5, 6, 7, 8]) 8 True = Some (ARQ_OK_COMPLETED, Some 8, Some s1) \<and>
    for_range 0 4 (\<lambda>i. transfer_segment release_build) (replicate 256 9, s1, r) = Some (f, s2, r1) \<and>
    arq_recv (Some r1) True 8 True = Some (ARQ_OK_COMPLETED, Some [1, 2, 3, 4, 5, 6, 7, 8], Some r2) \<and>
    for_range 0 2 (\<lambda>k. transfer_ack release_build) (f, s2, r1) = Some (f1, s3, r3) \<and> w_size (s_w (a_send_wnd s3)) = 0 \<and>
    arq_recv (Some r3) True 8 True = Some (ARQ_OK_COMPLETED, Some [1, 2, 3, 4, 5, 6, 7, 8], Some r4)"
proof -
  have c: "recv_window_size_in_messages demo_cfg < 2048" "0 < retransmission_timeout demo_cfg" "message_length_in_segments demo_cfg = 2"
    "segment_length_in_bytes demo_cfg = 2" "send_window_size_in_messages demo_cfg = 2" "recv_window_size_in_messages demo_cfg = 2"
    "0 < inter_segment_timeout demo_cfg"
    by (simp_all add: demo_cfg_def)
  have s: "required_bytes demo_abi demo_cfg < 2 ^ 32" "seat_ok demo_cfg (4096, demo_mem)" "seat_ok demo_cfg (8192, demo_mem)"
    "use_connections release_build"
    using demo_arrays_fit by (simp_all add: demo_required_bytes seat_ok_def release_build_def)
  define D :: "byte list" where "D = [1, 2, 3, 4, 5, 6, 7, 8]"
  have L: "length D = 8" by (simp add: D_def)
  then have "length D = 2 * (message_length_in_segments demo_cfg * segment_length_in_bytes demo_cfg)" by (simp add: c)
  from transfer_delivers [OF demo_cfg_sound c(1,2) demo_abi_ok s this, of "replicate 256 9"]
  show ?thesis unfolding D_def [symmetric] by (simp add: c L)
qed

end
