(* ===== verification/Arq_Resend.thy ===== *)
theory Arq_Resend imports Arq_Acked begin

text \<open>
  Frames that are lost: a sender that gets no acknowledgement is silent until the retransmission timeout is
  over, and then sends again, from the first message on that is not acknowledged. The functional test
  \<open>retransmission_timers\<close> is such a run.
\<close>

section \<open>Silent polls\<close>

text \<open>Polls that have nothing to send, with what the last one announces.\<close>

fun silent_polls :: "build \<Rightarrow> nat list \<Rightarrow> nat \<times> arq_t \<Rightarrow> (nat \<times> arq_t) option" where
  "silent_polls b [] st = Some st" |
  "silent_polls b (dt # dts) (np, a) = do {
     (out, a) \<leftarrow> test_poll b a dt;
     CHECK (\<not> po_send_ready out);
     silent_polls b dts (po_next_poll out, a)
   }"

text \<open>A sender that waits, its send pointer at rest, with \<open>t\<close> left of its timers.\<close>

definition rests :: "arq_cfg_t \<Rightarrow> byte list \<Rightarrow> nat \<Rightarrow> nat \<Rightarrow> nat \<Rightarrow> arq_t \<Rightarrow> bool" where
  "rests c D K k t a \<longleftrightarrow> awaits D K k t a \<and> \<not> p_valid (a_send_wnd_ptr a) \<and> a_cfg a = c \<and>
     segs (s_w (a_send_wnd a)) = message_length_in_segments c \<and> w_seg_len (s_w (a_send_wnd a)) = segment_length_in_bytes c"

lemma rest_poll:
  assumes a: "rests c D K k t a" and b: "use_connections b" and k: "k < K" and dt: "dt < t"
  shows "\<exists>out a'. test_poll b a dt = Some (out, a') \<and> \<not> po_send_ready out \<and> po_next_poll out = t - dt \<and> rests c D K k (t - dt) a'"
proof -
  have d: "awaits D K k t a" "\<not> p_valid (a_send_wnd_ptr a)" "a_cfg a = c" using a by (simp_all add: rests_def)
  show ?thesis using waiting_poll [OF d(1) b dt] a d(2) k by (auto simp: rests_def test_poll_eq)
qed

lemma rest_polls:
  assumes "rests c D K k t a" "use_connections b" "k < K" "sum_list dts < t"
  shows "\<exists>a'. silent_polls b dts (t, a) = Some (t - sum_list dts, a') \<and> rests c D K k (t - sum_list dts) a'"
  using assms(1,4)
proof (induction dts arbitrary: t a)
  case (Cons dt dts)
  have "dt < t" using Cons.prems(2) by simp
  then obtain out a1 where p: "test_poll b a dt = Some (out, a1)" "\<not> po_send_ready out" "po_next_poll out = t - dt" "rests c D K k (t - dt) a1"
    using rest_poll [OF Cons.prems(1) assms(2,3)] by blast
  have "sum_list dts < t - dt" using Cons.prems(2) by simp
  from Cons.IH [OF p(4) this] show ?case using p(1-3) by (simp add: diff_diff_left)
qed simp

text \<open>The first poll after the last segment, and the one at the end of the timers.\<close>

lemma sent_rests:
  assumes a: "sends c D K k (K * message_length_in_segments c) a" and b: "use_connections b" and K: "K < 4096"
  shows "\<exists>out a'. test_poll b a 0 = Some (out, a') \<and> \<not> po_send_ready out \<and> po_next_poll out = retransmission_timeout c \<and>
    rests c D K k (retransmission_timeout c) a'"
proof -
  have s: "transmits D K k (K * segs (s_w (a_send_wnd a))) a" "a_cfg a = c" using a by (simp_all add: sends_def)
  have "sender_ready a" "k < K" using s(1) by (auto simp: transmits_def full_messages_def)
  then have "0 < retransmission_timeout c" using sender_readyD(2) s(2) by blast
  then show ?thesis
    using waiting_poll [OF sent_awaits [OF s(1) K] b, of 0] a s(2) \<open>k < K\<close> by (auto simp: rests_def sends_def test_poll_eq)
qed

lemma sent_again:
  fixes n l :: nat
  assumes a: "rests c D K k t a" and b: "use_connections b" and k: "k < K" and dt: "t \<le> dt" and f: "256 \<le> length frame"
    and nl: "n = message_length_in_segments c" "l = segment_length_in_bytes c"
  shows "\<exists>out a1 frame' a2. test_poll b a dt = Some (out, a1) \<and> po_send_ready out \<and> test_drain a1 frame = Some (18 + l, frame', a2) \<and>
    256 \<le> length frame' \<and> carries (cfg_checksum c) ((data_hdr n (k * n))\<lparr>h_seg_len := l\<rparr>) (take l (drop (k * n * l) D)) frame' (18 + l) \<and>
    sends c D K k (Suc (k * n)) a2"
proof -
  have t: "awaits D K k t a" "\<not> p_valid (a_send_wnd_ptr a)" "a_cfg a = c" and g: "segs (s_w (a_send_wnd a)) = n" "w_seg_len (s_w (a_send_wnd a)) = l"
    using a nl by (simp_all add: rests_def)
  obtain out a1 where p: "backend_poll b a dt = Some (out, a1)" "po_send_ready out" "a_cfg a1 = c"
    "s_w (a_send_wnd a1) = s_w (a_send_wnd a)" "sf_len (a_send_frame a1) = 18 + l"
    "carries (cfg_checksum c) ((data_hdr n (k * n))\<lparr>h_seg_len := l\<rparr>) (take l (drop (k * n * l) D)) (sf_buf (a_send_frame a1)) (18 + l)"
    "transmits D K k (Suc (k * n)) (a1\<lparr>a_send_frame := (a_send_frame a1)\<lparr>sf_len := 0, sf_state := ARQ__SEND_FRAME_STATE_RELEASED\<rparr>, a_need_poll := True\<rparr>)"
    using expired_poll [OF t(1) b k dt t(2)] t(3) g by auto
  then show ?thesis using drained_frame [OF p(6,5) f] nl g by (auto simp: test_poll_eq sends_def)
qed

section \<open>A transfer that is lost\<close>

text \<open>A frame of the sender is taken and dropped.\<close>

definition lose_segment :: "build \<Rightarrow> byte list \<times> arq_t \<Rightarrow> (byte list \<times> arq_t) option" where
  "lose_segment b = (\<lambda>(frame, sender). do {
     (out, sender) \<leftarrow> test_poll b sender 0;
     CHECK (po_send_ready out);
     (frame_len, frame, sender) \<leftarrow> test_drain sender frame;
     Some (frame, sender)
   })"

lemma lose_all:
  assumes a: "sends c D K 0 0 a" and b: "use_connections b" and f: "256 \<le> length frame"
  shows "\<exists>frame' a'. for_range 0 (K * message_length_in_segments c) (\<lambda>i. lose_segment b) (frame, a) = Some (frame', a') \<and>
    256 \<le> length frame' \<and> sends c D K 0 (K * message_length_in_segments c) a'"
proof -
  let ?P = "\<lambda>i (frame, a). 256 \<le> length (frame :: byte list) \<and> sends c D K 0 i a"
  have step: "\<exists>st'. lose_segment b st = Some st' \<and> ?P (Suc i) st'" if i: "i < K * message_length_in_segments c" and P: "?P i st" for i st
  proof -
    obtain frame a where st: "st = (frame, a)" "256 \<le> length frame" "sends c D K 0 i a" using P by (cases st) auto
    obtain o1 a1 f a2 where "test_poll b a 0 = Some (o1, a1)" "po_send_ready o1" "test_drain a1 frame = Some (18 + segment_length_in_bytes c, f, a2)"
      "256 \<le> length f" "sends c D K 0 (Suc i) a2"
      using sent_frame [OF st(3) b i st(2) refl refl] by blast
    then show ?thesis by (simp add: lose_segment_def st(1))
  qed
  have "?P 0 (frame, a)" using a f by simp
  from for_range_inv [where P = ?P and i = 0 and n = "K * message_length_in_segments c" and f = "\<lambda>i. lose_segment b", OF this] step
  show ?thesis by auto
qed

text \<open>The first frame that is sent again, with the poll of \<open>dt\<close>, goes to the receiver.\<close>

definition resend_segment :: "build \<Rightarrow> nat \<Rightarrow> byte list \<times> arq_t \<times> arq_t \<Rightarrow> (byte list \<times> arq_t \<times> arq_t) option" where
  "resend_segment b dt = (\<lambda>(frame, sender, receiver). do {
     (out, sender) \<leftarrow> test_poll b sender dt;
     CHECK (po_send_ready out);
     (frame_len, frame, sender) \<leftarrow> test_drain sender frame;
     receiver \<leftarrow> test_fill receiver frame frame_len;
     (out, receiver) \<leftarrow> test_poll b receiver 0;
     Some (frame, sender, receiver)
   })"

lemma resend_first:
  assumes c: "cfg_sound c" and b: "use_connections b"
    and D: "length D = K * (message_length_in_segments c * segment_length_in_bytes c)" and K: "0 < K" "K \<le> recv_window_size_in_messages c"
    and s: "rests c D K 0 t s" "t \<le> dt" and r: "received c D 0 r" and f: "256 \<le> length frame"
  shows "\<exists>st. resend_segment b dt (frame, s, r) = Some st \<and> transferred c D K 1 st"
proof -
  let ?n = "message_length_in_segments c" and ?l = "segment_length_in_bytes c"
  note nl = cfg_sizes [OF c]
  have K4: "K \<le> 4096" using K nl(5) by simp
  have i: "0 < K * ?n" using K(1) nl(1) by simp
  obtain o1 s1 f1 s2 where 1: "test_poll b s dt = Some (o1, s1)" "po_send_ready o1" "test_drain s1 frame = Some (18 + ?l, f1, s2)" "256 \<le> length f1"
    "carries (cfg_checksum c) ((data_hdr ?n 0)\<lparr>h_seg_len := ?l\<rparr>) (take ?l (drop (0 * ?l) D)) f1 (18 + ?l)" "sends c D K 0 1 s2"
    using sent_again [OF s(1) b K(1) s(2) f refl refl] by auto
  from receive_next [OF r D nl(1,3) i K(2) refl refl K4 data_hdr_segment [OF nl(1,2,4) i K4] 1(5), of b]
  obtain r1 o2 r2 where 2: "test_fill r f1 (18 + ?l) = Some r1" "test_poll b r1 0 = Some (o2, r2)" "received c D 1 r2"
    by auto
  show ?thesis using 1 2 by (simp add: resend_segment_def transferred_def)
qed

text \<open>
  C3. A transfer whose first round is lost. Take two fresh objects of the same configuration that is sound
  (\<open>cfg_sound\<close>), has a retransmission timeout that is not zero and a receive window of less than 2048
  messages, in a build with connections and in seats that fit; and a buffer of \<open>K\<close> full messages, at least
  one and no more than either window holds, every frame of which is lost when it is sent for the first
  time. The sender then polls silently, announcing what is left of its retransmission timeout, for
  as long as the times it is polled with stay below that timeout; the poll that reaches it has the first
  segment to send again, and the whole buffer follows, as in a transfer without loss: no call fails, and
  \<open>arq_recv\<close> gives the buffer at the other end.
\<close>

theorem lost_transfer_recovers:
  assumes c: "cfg_sound c" "recv_window_size_in_messages c < 2048" "0 < retransmission_timeout c"
    and s: "abi_ok abi" "required_bytes abi c < 2 ^ 32" "seat_ok c seat1" "seat_ok c seat2" and b: "use_connections b"
    and D: "length D = K * (message_length_in_segments c * segment_length_in_bytes c)"
    and K: "0 < K" "K \<le> send_window_size_in_messages c" "K \<le> recv_window_size_in_messages c" and f: "256 \<le> length frame"
    and dts: "sum_list dts < retransmission_timeout c" "retransmission_timeout c \<le> sum_list dts + dt"
  shows "\<exists>sender receiver sender1 frame1 sender2 sender3 st frame2 sender4 receiver1 reader.
    ArqContext b abi seat1 c = Some sender \<and> ArqContext b abi seat2 c = Some receiver \<and>
    arq_send (Some sender) (Some D) (length D) True = Some (ARQ_OK_COMPLETED, Some (length D), Some sender1) \<and>
    for_range 0 (K * message_length_in_segments c) (\<lambda>i. lose_segment b) (frame, sender1) = Some (frame1, sender2) \<and>
    silent_polls b (0 # dts) (0, sender2) = Some (retransmission_timeout c - sum_list dts, sender3) \<and>
    resend_segment b dt (frame1, sender3, receiver) = Some st \<and>
    for_range 1 (K * message_length_in_segments c - 1) (\<lambda>i. transfer_segment b) st = Some (frame2, sender4, receiver1) \<and>
    arq_recv (Some receiver1) True (length D) True = Some (ARQ_OK_COMPLETED, Some D, Some reader)"
proof -
  let ?N = "K * message_length_in_segments c" and ?rtx = "retransmission_timeout c"
  obtain s0 r0 s1 where 1: "ArqContext b abi seat1 c = Some s0" "ArqContext b abi seat2 c = Some r0"
    "arq_send (Some s0) (Some D) (length D) True = Some (ARQ_OK_COMPLETED, Some (length D), Some s1)" "transferred c D K 0 (frame, s1, r0)"
    using transfer_start [OF c s b D K(1,2) f] by blast
  then obtain f1 s2 where 2: "for_range 0 ?N (\<lambda>i. lose_segment b) (frame, s1) = Some (f1, s2)" "256 \<le> length f1" "sends c D K 0 ?N s2"
    using lose_all [of c D K s1 b frame] b f by (auto simp: transferred_def)
  have "K < 4096" using K(3) c(2) by simp
  from sent_rests [OF 2(3) b this] obtain o3 s3 where 3: "test_poll b s2 0 = Some (o3, s3)" "\<not> po_send_ready o3" "po_next_poll o3 = ?rtx"
    "rests c D K 0 ?rtx s3" by blast
  obtain s4 where 4: "silent_polls b dts (?rtx, s3) = Some (?rtx - sum_list dts, s4)" "rests c D K 0 (?rtx - sum_list dts) s4"
    using rest_polls [OF 3(4) b K(1) dts(1)] by blast
  have "?rtx - sum_list dts \<le> dt" using dts(2) by simp
  moreover have "received c D 0 r0" using 1(4) by (simp add: transferred_def)
  ultimately obtain st where 5: "resend_segment b dt (f1, s4, r0) = Some st" "transferred c D K 1 st"
    using resend_first [OF c(1) b D K(1,3) 4(2) _ _ 2(2)] by blast
  have N: "1 + (?N - 1) = ?N" using K(1) cfg_sizes(1) [OF c(1)] by simp
  from for_range_inv [where P = "transferred c D K" and i = 1 and n = "?N - 1" and f = "\<lambda>i. transfer_segment b", OF 5(2)]
    transfer_step [OF c(1) b D K(3)]
  obtain f6 s6 r6 where 6: "for_range 1 (?N - 1) (\<lambda>i. transfer_segment b) st = Some (f6, s6, r6)" "transferred c D K ?N (f6, s6, r6)"
    unfolding N by fastforce
  have "received c D ?N r6" using 6(2) by (simp add: transferred_def)
  from received_read [OF c(1,2) this D K(3)] obtain r7
    where 7: "arq_recv (Some r6) True (length D) True = Some (ARQ_OK_COMPLETED, Some D, Some r7)" by blast
  have "silent_polls b (0 # dts) (0, s2) = Some (?rtx - sum_list dts, s4)" using 3(1-3) 4(1) by simp
  then show ?thesis using 1(1-3) 2(1) 5(1) 6(1) 7 by blast
qed

theorem lost_transfer_recovers_witness:
  "\<exists>s r s1 f1 s2 s3 st f2 s4 r1 r2. ArqContext release_build demo_abi (4096, demo_mem) demo_cfg = Some s \<and>
    ArqContext release_build demo_abi (8192, demo_mem) demo_cfg = Some r \<and>
    arq_send (Some s) (Some [1, 2, 3, 4, 5, 6, 7, 8]) 8 True = Some (ARQ_OK_COMPLETED, Some 8, Some s1) \<and>
    for_range 0 4 (\<lambda>i. lose_segment release_build) (replicate 256 9, s1) = Some (f1, s2) \<and>
    silent_polls release_build [0, 15, 0, 25] (0, s2) = Some (10, s3) \<and>
    resend_segment release_build 12 (f1, s3, r) = Some st \<and>
    for_range 1 3 (\<lambda>i. transfer_segment release_build) st = Some (f2, s4, r1) \<and>
    arq_recv (Some r1) True 8 True = Some (ARQ_OK_COMPLETED, Some [1, 2, 3, 4, 5, 6, 7, 8], Some r2)"
proof -
  have c: "recv_window_size_in_messages demo_cfg < 2048" "0 < retransmission_timeout demo_cfg" "message_length_in_segments demo_cfg = 2"
    "segment_length_in_bytes demo_cfg = 2" "send_window_size_in_messages demo_cfg = 2" "recv_window_size_in_messages demo_cfg = 2"
    "retransmission_timeout demo_cfg = 50"
    by (simp_all add: demo_cfg_def)
  have s: "required_bytes demo_abi demo_cfg < 2 ^ 32" "seat_ok demo_cfg (4096, demo_mem)" "seat_ok demo_cfg (8192, demo_mem)"
    "use_connections release_build"
    using demo_arrays_fit by (simp_all add: demo_required_bytes seat_ok_def release_build_def)
  define D :: "byte list" where "D = [1, 2, 3, 4, 5, 6, 7, 8]"
  have L: "length D = 8" by (simp add: D_def)
  then have "length D = 2 * (message_length_in_segments demo_cfg * segment_length_in_bytes demo_cfg)" by (simp add: c)
  from lost_transfer_recovers [OF demo_cfg_sound c(1,2) demo_abi_ok s this, of "replicate 256 9" "[15, 0, 25]" 12]
  show ?thesis unfolding D_def [symmetric] by (simp add: c L)
qed

section \<open>The test of the retransmission timers\<close>

text \<open>
  The test \<open>retransmission_timers\<close>. Its local buffer \<open>frame\<close> has 256 bytes; the fields of the configuration
  it does not set are in \<open>cfg0\<close>.
\<close>

definition timers_cfg :: "nat \<Rightarrow> arq_cfg_t \<Rightarrow> arq_cfg_t" where
  "timers_cfg seg_len cfg = cfg\<lparr>segment_length_in_bytes := seg_len, message_length_in_segments := 1,
     send_window_size_in_messages := 16, recv_window_size_in_messages := 16, retransmission_timeout := 100,
     inter_segment_timeout := 100, tinygram_send_delay := 50, cfg_checksum := crc32_checksum,
     connection_rst_period := 100, connection_rst_attempts := 10\<rparr>"

text \<open>A message is drained: its frame is read, and its bytes go to their place in \<open>recv_test_data\<close>.\<close>

definition drain_message ::
  "build \<Rightarrow> arq_cfg_t \<Rightarrow> nat \<Rightarrow> nat \<Rightarrow> nat \<Rightarrow> byte list \<times> byte list \<times> arq_t \<Rightarrow> (byte list \<times> byte list \<times> arq_t) option" where
  "drain_message b cfg dt seq ofs = (\<lambda>(recv_test_data, frame, ctx). do {
     (out, ctx) \<leftarrow> test_poll b ctx dt;
     CHECK (po_send_ready out);
     (size, frame, ctx) \<leftarrow> test_drain ctx frame;
     n \<leftarrow> arq__frame_len b (segment_length_in_bytes cfg);
     CHECK (n = size);
     (r, hdr, seg, frame) \<leftarrow> arq__frame_read b frame size crc32_checksum;
     CHECK (r = ARQ__FRAME_READ_RESULT_SUCCESS);
     CHECK (h_seq_num hdr = seq);
     bs \<leftarrow> memcpy_out frame seg (h_seg_len hdr);
     recv_test_data \<leftarrow> memcpy_in recv_test_data ofs bs;
     Some (recv_test_data, frame, ctx)
   })"

text \<open>A message is lost: its frame is taken and released, and not looked at.\<close>

definition lose_message :: "build \<Rightarrow> arq_t \<Rightarrow> arq_t option" where
  "lose_message b ctx = do {
     (out, ctx) \<leftarrow> test_poll b ctx 0;
     CHECK (po_send_ready out);
     (case arq_backend_send_ptr_get (Some ctx) True True of
        (e, out, arq) \<Rightarrow> do {
          CHECK (ARQ_SUCCEEDED e);
          (case arq_backend_send_ptr_release arq of
             (e', arq') \<Rightarrow> do {
               CHECK (ARQ_SUCCEEDED e');
               arq'
             })
        })
   }"

text \<open>The blocks that acknowledge: \<open>ack\<close> is what they set in the field of that name.\<close>

definition ack_message :: "build \<Rightarrow> bool \<Rightarrow> byte list \<times> arq_t \<Rightarrow> (byte list \<times> arq_t) option" where
  "ack_message b ack = (\<lambda>(frame, ctx). do {
     let h = arq__frame_hdr_init\<lparr>h_ack := ack, h_ack_num := 0, h_cur_ack_vec := 1\<rparr>;
     (len, frame) \<leftarrow> arq__frame_write b h None crc32_checksum frame 256;
     (e, recvd, arq) \<leftarrow> arq_backend_recv_fill (Some ctx) (Some frame) 256 True;
     CHECK (ARQ_SUCCEEDED e);
     n \<leftarrow> recvd;
     CHECK (len = n);
     ctx \<leftarrow> arq;
     (out, ctx) \<leftarrow> test_poll b ctx 0;
     CHECK (\<not> po_send_ready out);
     Some (frame, ctx)
   })"

definition retransmission_timers :: "build \<Rightarrow> abi \<Rightarrow> arq_cfg_t \<Rightarrow> nat \<times> arq_t \<Rightarrow> byte list \<Rightarrow> unit option" where
  "retransmission_timers b abi cfg0 seat frame =
     (case arq_seg_len_from_frame_len 128 True of
        (e, seg_len) \<Rightarrow> do {
          CHECK (ARQ_SUCCEEDED e);
          seg_len \<leftarrow> seg_len;
          let cfg = timers_cfg seg_len cfg0;
          ctx \<leftarrow> ArqContext b abi seat cfg;
          let send_test_data = test_data b (segment_length_in_bytes cfg * message_length_in_segments cfg * 3);
          (e, sent, arq) \<leftarrow> arq_send (Some ctx) (Some send_test_data) (length send_test_data) True;
          CHECK (ARQ_SUCCEEDED e);
          CHECK (sent = Some (length send_test_data));
          ctx \<leftarrow> arq;
          let recv_test_data = replicate (length send_test_data) 0;
          \<comment> \<open>drain message 0\<close>
          (recv_test_data, frame, ctx) \<leftarrow> drain_message b cfg 0 0 0 (recv_test_data, frame, ctx);
          \<comment> \<open>lose message 1\<close>
          ctx \<leftarrow> lose_message b ctx;
          \<comment> \<open>drain message 2\<close>
          (recv_test_data, frame, ctx) \<leftarrow> drain_message b cfg 0 2 (segment_length_in_bytes cfg * 2) (recv_test_data, frame, ctx);
          (out, ctx) \<leftarrow> test_poll b ctx 0;
          \<comment> \<open>ack message 0: the header has \<open>ack = 0\<close>\<close>
          (frame, ctx) \<leftarrow> ack_message b False (frame, ctx);
          \<comment> \<open>ack message 2: the header has \<open>ack = 2\<close>\<close>
          (frame, ctx) \<leftarrow> ack_message b True (frame, ctx);
          \<comment> \<open>confirm that message 1's retransmission timer is active\<close>
          (out, ctx) \<leftarrow> test_poll b ctx 0;
          CHECK (\<not> po_send_ready out);
          CHECK (po_next_poll out = retransmission_timeout cfg);
          \<comment> \<open>step slowly towards retransmission\<close>
          ctx \<leftarrow> for_range 0 (sub32 (retransmission_timeout cfg) 1) (\<lambda>i ctx. do {
            (out, ctx) \<leftarrow> test_poll b ctx 1;
            CHECK (\<not> po_send_ready out);
            CHECK (po_next_poll out = sub32 (sub32 (retransmission_timeout cfg) i) 1);
            Some ctx
          }) ctx;
          \<comment> \<open>drain message 1\<close>
          (recv_test_data, frame, ctx) \<leftarrow> drain_message b cfg 1 1 (segment_length_in_bytes cfg) (recv_test_data, frame, ctx);
          (out, ctx) \<leftarrow> test_poll b ctx 0;
          CHECK (recv_test_data = send_test_data)
        })"

section \<open>The test passes\<close>

lemma timers_cfg_sel [simp]:
  "segment_length_in_bytes (timers_cfg l c) = l" "message_length_in_segments (timers_cfg l c) = 1"
  "send_window_size_in_messages (timers_cfg l c) = 16" "retransmission_timeout (timers_cfg l c) = 100"
  "cfg_checksum (timers_cfg l c) = crc32_checksum"
  by (simp_all add: timers_cfg_def)

lemma timers_cfg_sound: "cfg_ranges c \<Longrightarrow> cfg_sound (timers_cfg 110 c)"
  by (simp add: cfg_sound_def timers_cfg_def arq__check_cfg_def cfg_ranges_def geometry_ok_def)

text \<open>A frame that is drained and read.\<close>

lemma drain_read:
  assumes p: "test_poll b a dt = Some (out, a1)" "po_send_ready out" "test_drain a1 frame = Some (18 + l, f1, a2)" "256 \<le> length f1"
    and c: "carries crc32_checksum h bs f1 (18 + l)" "h_seg_len h = l" "h_seq_num h = seq" "l = segment_length_in_bytes cfg"
    and d: "ofs + l \<le> length data"
  shows "\<exists>f2. drain_message b cfg dt seq ofs (data, frame, a) = Some (take ofs data @ bs @ drop (ofs + l) data, f2, a2) \<and> 256 \<le> length f2"
proof -
  have l: "l \<le> 238" "length bs = l" using c(1,2) by (simp_all add: carries_def)
  obtain buf where rd: "arq__frame_read b f1 (18 + l) crc32_checksum = Some (ARQ__FRAME_READ_RESULT_SUCCESS, h, 13, buf)"
    "take l (drop 13 buf) = bs" "length buf = length f1"
    using carries_read [OF c(1), of b] c(2) by auto
  have "memcpy_out buf 13 l = Some bs" using rd(2,3) carries_length [OF c(1)] by (simp add: memcpy_out_def)
  moreover have "memcpy_in data ofs bs = Some (take ofs data @ bs @ drop (ofs + l) data)" using d l(2) by (simp add: memcpy_in_def)
  ultimately show ?thesis
    using p rd(1,3) c(2-4) l(1) by (simp add: drain_message_def arq__frame_len_ok)
qed

lemma lose_message_step:
  assumes a: "sends c D K k i a" and b: "use_connections b" and i: "i < K * message_length_in_segments c"
  shows "\<exists>a'. lose_message b a = Some a' \<and> sends c D K k (Suc i) a'"
proof -
  have t: "transmits D K k i a" "a_cfg a = c" and g: "segs (s_w (a_send_wnd a)) = message_length_in_segments c"
    "w_seg_len (s_w (a_send_wnd a)) = segment_length_in_bytes c"
    using a by (simp_all add: sends_def)
  have "i < K * segs (s_w (a_send_wnd a))" using i g(1) by simp
  then obtain out a1 where p: "backend_poll b a 0 = Some (out, a1)" "po_send_ready out" "a_cfg a1 = c"
    "s_w (a_send_wnd a1) = s_w (a_send_wnd a)" "sf_len (a_send_frame a1) = 18 + segment_length_in_bytes c"
    "transmits D K k (Suc i) (a1\<lparr>a_send_frame := (a_send_frame a1)\<lparr>sf_len := 0, sf_state := ARQ__SEND_FRAME_STATE_RELEASED\<rparr>, a_need_poll := True\<rparr>)"
    using poll_segment [OF t(1) b] t(2) g by (auto simp del: One_nat_def)
  then show ?thesis
    using g by (simp add: lose_message_def test_poll_eq arq_backend_send_ptr_get_def arq_backend_send_ptr_release_def
      ARQ_SUCCEEDED_iff Let_def sends_def)
qed

text \<open>The header of the first block acknowledges nothing; that of the second one acknowledges message 0.\<close>

lemma ack_message_step:
  assumes a: "rests c D K 0 t a" and t: "0 < t" and K: "0 < K" and b: "use_connections b" and f: "256 \<le> length frame"
    and c: "cfg_checksum c = crc32_checksum" "message_length_in_segments c = 1"
  shows "\<exists>f' a'. ack_message b ack (frame, a) = Some (f', a') \<and> 256 \<le> length f' \<and> rests c D K (if ack then 1 else 0) t a'"
proof -
  let ?h = "arq__frame_hdr_init\<lparr>h_ack := ack, h_ack_num := 0, h_cur_ack_vec := 1\<rparr>"
  have r: "awaits D K 0 t a" "\<not> p_valid (a_send_wnd_ptr a)" "a_cfg a = c" "segs (s_w (a_send_wnd a)) = 1"
    using a c(2) by (simp_all add: rests_def)
  have d: "sender_ready a" "unacked_msgs D K 0 (a_send_wnd a) (a_send_wnd_ptr a) t" using r(1) by (simp_all add: awaits_def)
  note p = arq_okD [OF sender_readyD(1) [OF d(1)]]
  have h: "hdr_fits ?h" "\<not> h_seg ?h" "\<not> h_rst ?h" "h_seg_len ?h = 0" by (simp_all add: hdr_fits_def arq__frame_hdr_init_def)
  obtain out where w: "arq__frame_write b ?h None crc32_checksum frame 256 = Some (18, out)" "length out = length frame"
    "carries crc32_checksum ?h [] out 18"
    using carries_written [OF h(1), of None 256 frame b crc32_checksum] h(4) f by (auto simp: seg_readable_def seg_bytes_def)
  have "18 \<le> rf_cap (a_recv_frame a)" using p(7) by simp
  from carries_fill_more [OF w(3) p(6) sender_readyD(8) [OF d(1)] this, of 256] f w(2) obtain rf where
    rf: "arq__recv_frame_fill (a_recv_frame a) out 256 = Some (18, rf)" "rf_full rf" "recv_frame_ok rf" "rf_len rf = 18"
    "rf_cap rf = rf_cap (a_recv_frame a)" "carries crc32_checksum ?h [] (rf_buf rf) 18"
    by auto
  let ?a = "a\<lparr>a_recv_frame := rf, a_need_poll := True\<rparr>"
  have rx: "control_arrived ?a ?h" using rf h r(3) c(1) by (simp add: control_arrived_def)
  obtain sw where sw: "(if h_ack ?h then arq__send_wnd_ack (a_send_wnd a) (h_ack_num ?h) (h_cur_ack_vec ?h) else Some (a_send_wnd a)) = Some sw"
    "unacked_msgs D K (if ack then 1 else 0) sw (a_send_wnd_ptr a) t" "w_seg_len (s_w sw) = w_seg_len (s_w (a_send_wnd a))"
    "segs (s_w sw) = segs (s_w (a_send_wnd a))"
  proof (cases ack)
    case True
    then show thesis using first_acked [OF d(2) K] r(4) that by (auto simp: arq__frame_hdr_init_def)
  next
    case False
    then show thesis using d(2) that [of "a_send_wnd a"] by simp
  qed
  obtain o2 a' where "backend_poll b ?a 0 = Some (o2, a')" "\<not> po_send_ready o2" "rests c D K (if ack then 1 else 0) t a'"
    using awaiting_poll [OF r(1) b rf(3,5) rx h(3) sw t] r a by (auto simp: rests_def)
  then have "ack_message b ack (frame, a) = Some (out, a')"
    using w(1) rf(1,2) by (simp add: ack_message_def arq_backend_recv_fill_def ARQ_SUCCEEDED_iff test_poll_eq)
  then show ?thesis using \<open>rests c D K (if ack then 1 else 0) t a'\<close> f w(2) by simp
qed

text \<open>The messages are drained in order, but for the one that is sent again.\<close>

lemma drain_sent:
  assumes a: "sends c D K k i a" and b: "use_connections b" and i: "i < K" and f: "256 \<le> length frame"
    and c: "cfg_checksum c = crc32_checksum" "message_length_in_segments c = 1" "l = segment_length_in_bytes c" and d: "ofs + l \<le> length data"
  shows "\<exists>f' a'. drain_message b c 0 i ofs (data, frame, a) = Some (take ofs data @ take l (drop (i * l) D) @ drop (ofs + l) data, f', a') \<and>
    256 \<le> length f' \<and> sends c D K k (Suc i) a'"
proof -
  have i1: "i < K * 1" using i by simp
  obtain out a1 f1 a2 where p: "test_poll b a 0 = Some (out, a1)" "po_send_ready out" "test_drain a1 frame = Some (18 + l, f1, a2)" "256 \<le> length f1"
    "carries crc32_checksum ((data_hdr 1 i)\<lparr>h_seg_len := l\<rparr>) (take l (drop (i * l) D)) f1 (18 + l)" "sends c D K k (Suc i) a2"
    using sent_frame [OF a b i1 f c(2) [symmetric] c(3)] c(1) by auto
  have h: "h_seg_len ((data_hdr 1 i)\<lparr>h_seg_len := l\<rparr>) = l" "h_seq_num ((data_hdr 1 i)\<lparr>h_seg_len := l\<rparr>) = i" by (simp_all add: data_hdr_def)
  show ?thesis using drain_read [OF p(1-5) h c(3) d] p(6) by blast
qed

lemma drain_again:
  assumes a: "rests c D K k t a" and b: "use_connections b" and k: "k < K" "t \<le> dt" and f: "256 \<le> length frame"
    and c: "cfg_checksum c = crc32_checksum" "message_length_in_segments c = 1" "l = segment_length_in_bytes c" and d: "ofs + l \<le> length data"
  shows "\<exists>f' a'. drain_message b c dt k ofs (data, frame, a) = Some (take ofs data @ take l (drop (k * l) D) @ drop (ofs + l) data, f', a') \<and>
    256 \<le> length f' \<and> sends c D K k (Suc k) a'"
proof -
  obtain out a1 f1 a2 where p: "test_poll b a dt = Some (out, a1)" "po_send_ready out" "test_drain a1 frame = Some (18 + l, f1, a2)" "256 \<le> length f1"
    "carries crc32_checksum ((data_hdr 1 k)\<lparr>h_seg_len := l\<rparr>) (take l (drop (k * l) D)) f1 (18 + l)" "sends c D K k (Suc k) a2"
    using sent_again [OF a b k f c(2) [symmetric] c(3)] c(1) by auto
  have h: "h_seg_len ((data_hdr 1 k)\<lparr>h_seg_len := l\<rparr>) = l" "h_seq_num ((data_hdr 1 k)\<lparr>h_seg_len := l\<rparr>) = k" by (simp_all add: data_hdr_def)
  show ?thesis using drain_read [OF p(1-5) h c(3) d] p(6) by blast
qed

text \<open>The loop of the polls with time 1.\<close>

lemma step_slowly:
  assumes a: "rests c D K k t a" and b: "use_connections b" and k: "k < K" and t: "0 < t" "t < 2 ^ 32"
  shows "\<exists>a'. for_range 0 (t - 1) (\<lambda>i ctx. do {
      (out, ctx) \<leftarrow> test_poll b ctx 1;
      CHECK (\<not> po_send_ready out);
      CHECK (po_next_poll out = sub32 (sub32 t i) 1);
      Some ctx
    }) a = Some a' \<and> rests c D K k 1 a'"
proof -
  let ?f = "\<lambda>i ctx. do {
      (out, ctx) \<leftarrow> test_poll b ctx 1;
      CHECK (\<not> po_send_ready out);
      CHECK (po_next_poll out = sub32 (sub32 t i) 1);
      Some ctx
    }"
  have step: "\<exists>s'. ?f i s = Some s' \<and> rests c D K k (t - Suc i) s'" if i: "i < t - 1" and s: "rests c D K k (t - i) s" for i s
  proof -
    have "1 < t - i" using i by simp
    then obtain out s' where "test_poll b s 1 = Some (out, s')" "\<not> po_send_ready out" "po_next_poll out = t - i - 1" "rests c D K k (t - i - 1) s'"
      using rest_poll [OF s b k] by blast
    then show ?thesis using i t(2) by (simp add: sub32_le)
  qed
  have "rests c D K k (t - 0) a" using a by simp
  from for_range_inv [where P = "\<lambda>i. rests c D K k (t - i)" and i = 0 and n = "t - 1" and f = ?f, OF this] step
  show ?thesis using t(1) by simp
qed

lemma retransmission_timers_passes:
  assumes c: "cfg_ranges cfg" and s: "abi_ok abi" "required_bytes abi (timers_cfg 110 cfg) < 2 ^ 32" "seat_ok (timers_cfg 110 cfg) seat"
    and b: "use_connections b" and f: "256 \<le> length frame"
  shows "retransmission_timers b abi cfg seat frame = Some ()"
proof -
  let ?c = "timers_cfg 110 cfg"
  define D where "D = test_data b 330"
  have D: "length D = 330" "length D = 3 * (message_length_in_segments ?c * segment_length_in_bytes ?c)" by (simp_all add: D_def)
  have cc: "cfg_checksum ?c = crc32_checksum" "message_length_in_segments ?c = 1" "110 = segment_length_in_bytes ?c" by simp_all
  obtain a0 a1 where 1: "ArqContext b abi seat ?c = Some a0"
    "arq_send (Some a0) (Some D) (length D) True = Some (ARQ_OK_COMPLETED, Some (length D), Some a1)" "sends ?c D 3 0 0 a1"
    using context_sends [OF timers_cfg_sound [OF c] s b D(2)] by (auto simp: sends_def)
  define R1 where "R1 = take 110 D @ drop 110 (replicate 330 0)"
  define R2 where "R2 = take 220 R1 @ take 110 (drop 220 D)"
  have L: "length R1 = 330" "length R2 = 330" by (simp_all add: R1_def R2_def D(1))
  obtain f2 a2 where 2: "drain_message b ?c 0 0 0 (replicate 330 0, frame, a1) = Some (R1, f2, a2)" "256 \<le> length f2" "sends ?c D 3 0 1 a2"
    using drain_sent [OF 1(3) b _ f cc, of 0 "replicate 330 0"] by (auto simp: R1_def)
  obtain a3 where 3: "lose_message b a2 = Some a3" "sends ?c D 3 0 2 a3"
    using lose_message_step [OF 2(3) b] by (auto simp: numeral_2_eq_2)
  obtain f4 a4 where 4: "drain_message b ?c 0 2 220 (R1, f2, a3) = Some (R2, f4, a4)" "256 \<le> length f4" "sends ?c D 3 0 3 a4"
    using drain_sent [OF 3(2) b _ 2(2) cc, of 220 R1] L(1) by (auto simp: R2_def numeral_3_eq_3)
  obtain o5 a5 where 5: "test_poll b a4 0 = Some (o5, a5)" "rests ?c D 3 0 100 a5"
    using sent_rests [of ?c D 3 0 a4, OF _ b] 4(3) by auto
  obtain f6 a6 where 6: "ack_message b False (f4, a5) = Some (f6, a6)" "256 \<le> length f6" "rests ?c D 3 0 100 a6"
    using ack_message_step [OF 5(2) _ _ b 4(2) cc(1,2), of False] by auto
  obtain f7 a7 where 7: "ack_message b True (f6, a6) = Some (f7, a7)" "256 \<le> length f7" "rests ?c D 3 1 100 a7"
    using ack_message_step [OF 6(3) _ _ b 6(2) cc(1,2), of True] by auto
  obtain o8 a8 where 8: "test_poll b a7 0 = Some (o8, a8)" "\<not> po_send_ready o8" "po_next_poll o8 = 100" "rests ?c D 3 1 100 a8"
    using rest_poll [OF 7(3) b, of 0] by auto
  obtain a9 where 9: "for_range 0 99 (\<lambda>i ctx. do {
      (out, ctx) \<leftarrow> test_poll b ctx 1;
      CHECK (\<not> po_send_ready out);
      CHECK (po_next_poll out = sub32 (sub32 100 i) 1);
      Some ctx
    }) a8 = Some a9" "rests ?c D 3 1 1 a9"
    using step_slowly [OF 8(4) b] by auto
  have R: "take 110 R2 @ take 110 (drop 110 D) @ drop 220 R2 = D"
  proof -
    have "take 110 R2 = take 110 D" "drop 220 R2 = take 110 (drop 220 D)" using D(1) by (simp_all add: R1_def R2_def)
    moreover have "take 110 (drop 220 D) = drop 110 (drop 110 D)" using D(1) by simp
    ultimately show ?thesis by (simp only: append_take_drop_id)
  qed
  obtain f10 a10 where 10: "drain_message b ?c 1 1 110 (R2, f7, a9) = Some (D, f10, a10)" "sends ?c D 3 1 2 a10"
    using drain_again [OF 9(2) b _ _ 7(2) cc, of 1 110 R2] L(2) R by (auto simp: numeral_2_eq_2)
  obtain o11 a11 where 11: "test_poll b a10 0 = Some (o11, a11)"
    using poll_segment [of D 3 1 2 a10 b] 10(2) b by (auto simp: sends_def test_poll_eq)
  have g: "arq_seg_len_from_frame_len 128 True = (ARQ_OK_COMPLETED, Some 110)"
    by (simp add: arq_seg_len_from_frame_len_def sub32_le)
  have t: "test_data b (segment_length_in_bytes ?c * message_length_in_segments ?c * 3) = D" "sub32 100 1 = 99"
    by (simp_all add: D_def sub32_le)
  show ?thesis
    unfolding retransmission_timers_def g
    using 1(1,2) 2(1) 3(1) 4(1) 5(1) 6(1) 7(1) 8(1-3) 9(1) 10(1) 11 t D(1)
    by (simp add: ARQ_SUCCEEDED_iff)
qed

end
