(* ===== verification/Arq_Transfer_Tests.thy ===== *)
theory Arq_Transfer_Tests imports Arq_Window_Tests Arq_Resend begin

text \<open>
  The functional tests that send a full window: \<open>send_full_window\<close>, which reads the frames of a sender, and
  \<open>transfer_full_window_one_way_manual_acks\<close> (\<open>transfer_full_window_one_way.cpp\<close>), which hands them to a
  receiver and reads there, and \<open>ack_full_window\<close>, in which the receiver's acknowledgements go back and its
  window is drained until nothing comes. They pass by what \<open>Arq_Transfer\<close> and \<open>Arq_Acked\<close> show of two
  objects.
\<close>

section \<open>The tests\<close>

text \<open>
  The configurations of the two tests are those of the tests that load the receive window. What the local
  buffers of a round hold when it starts is in \<open>decode_buf\<close> and \<open>recv_buf\<close>.
\<close>

definition send_full_window ::
  "build \<Rightarrow> abi \<Rightarrow> arq_cfg_t \<Rightarrow> nat \<times> arq_t \<Rightarrow> byte list \<Rightarrow> unit option" where
  "send_full_window b abi cfg0 seat decode_buf = do {
     let cfg = window_cfg cfg0;
     ctx \<leftarrow> ArqContext b abi seat cfg;
     let send_test_data = test_data b (send_window_size_in_messages cfg * message_length_in_segments cfg * segment_length_in_bytes cfg);
     (e, sent, arq) \<leftarrow> arq_send (Some ctx) (Some send_test_data) (length send_test_data) True;
     CHECK (ARQ_SUCCEEDED e);
     ctx \<leftarrow> arq;
     (recv_test_data, ctx) \<leftarrow> while_loop (\<lambda>(recv_test_data, ctx). length recv_test_data < length send_test_data)
       (\<lambda>(recv_test_data, ctx). do {
          (out, ctx) \<leftarrow> test_poll b ctx 0;
          CHECK (po_send_ready out);
          (size, decode_buf, ctx) \<leftarrow> test_drain ctx decode_buf;
          (r, h, seg, decode_buf) \<leftarrow> arq__frame_read b decode_buf size (cfg_checksum cfg);
          CHECK (r = ARQ__FRAME_READ_RESULT_SUCCESS);
          bs \<leftarrow> memcpy_out decode_buf seg (h_seg_len h);
          Some (recv_test_data @ bs, ctx)
        }) ([], ctx);
     CHECK (length send_test_data = length recv_test_data);
     CHECK (send_test_data = recv_test_data)
   }"

definition transfer_full_window_one_way_manual_acks ::
  "build \<Rightarrow> abi \<Rightarrow> arq_cfg_t \<Rightarrow> nat \<times> arq_t \<Rightarrow> nat \<times> arq_t \<Rightarrow> byte list \<Rightarrow> byte list \<Rightarrow> unit option" where
  "transfer_full_window_one_way_manual_acks b abi cfg0 seat1 seat2 decode_buf recv_buf = do {
     let cfg = window_cfg cfg0;
     sender \<leftarrow> ArqContext b abi seat1 cfg;
     receiver \<leftarrow> ArqContext b abi seat2 cfg;
     let send_test_data = test_data b (message_length_in_segments cfg * segment_length_in_bytes cfg * send_window_size_in_messages cfg);
     (e, sent, arq) \<leftarrow> arq_send (Some sender) (Some send_test_data) (length send_test_data) True;
     CHECK (e = ARQ_OK_COMPLETED);
     CHECK (sent = Some (length send_test_data));
     sender \<leftarrow> arq;
     (sender, receiver) \<leftarrow> for_range 0 (message_length_in_segments cfg * send_window_size_in_messages cfg) (\<lambda>i (sender, receiver). do {
       (out, sender) \<leftarrow> test_poll b sender 0;
       CHECK (po_send_ready out);
       (size, decode_buf, sender) \<leftarrow> test_drain sender decode_buf;
       receiver \<leftarrow> test_fill receiver decode_buf size;
       (out, receiver) \<leftarrow> test_poll b receiver 0;
       Some (sender, receiver)
     }) (sender, receiver);
     (recv_test_data, receiver) \<leftarrow> while_loop (\<lambda>(recv_test_data, receiver). length recv_test_data < length send_test_data)
       (\<lambda>(recv_test_data, receiver). do {
          (e, recvd, arq) \<leftarrow> arq_recv (Some receiver) True (length recv_buf) True;
          CHECK (ARQ_SUCCEEDED e);
          bs \<leftarrow> recvd;
          CHECK (length bs > 0);
          receiver \<leftarrow> arq;
          \<comment> \<open>the whole buffer is copied, whatever was received\<close>
          Some (recv_test_data @ (bs @ drop (length bs) recv_buf), receiver)
        }) ([], receiver);
     CHECK (length send_test_data = length recv_test_data);
     CHECK (send_test_data = recv_test_data)
   }"

definition acked_cfg :: "arq_cfg_t \<Rightarrow> arq_cfg_t" where
  "acked_cfg cfg = cfg\<lparr>segment_length_in_bytes := 128, message_length_in_segments := 4, send_window_size_in_messages := 16,
     recv_window_size_in_messages := 16, retransmission_timeout := 100, inter_segment_timeout := 100,
     cfg_checksum := crc32_checksum, connection_rst_period := 100, connection_rst_attempts := 10\<rparr>"

text \<open>The body of the loop that drains the window, with the bytes it read.\<close>

definition drain_round :: "byte list \<times> arq_t \<Rightarrow> (nat \<times> byte list \<times> arq_t) option" where
  "drain_round = (\<lambda>(recv_test_data, receiver). do {
     (e, data, arq) \<leftarrow> arq_recv (Some receiver) True 128 True;
     CHECK (ARQ_SUCCEEDED e);
     bs \<leftarrow> data;
     receiver \<leftarrow> arq;
     Some (length bs, recv_test_data @ bs, receiver)
   })"

definition ack_full_window :: "build \<Rightarrow> abi \<Rightarrow> arq_cfg_t \<Rightarrow> nat \<times> arq_t \<Rightarrow> nat \<times> arq_t \<Rightarrow> byte list \<Rightarrow> unit option" where
  "ack_full_window b abi cfg0 seat1 seat2 frame = do {
     let cfg = acked_cfg cfg0;
     sender \<leftarrow> ArqContext b abi seat1 cfg;
     receiver \<leftarrow> ArqContext b abi seat2 cfg;
     let send_test_data = test_data b (segment_length_in_bytes cfg * message_length_in_segments cfg * send_window_size_in_messages cfg);
     (e, sent, arq) \<leftarrow> arq_send (Some sender) (Some send_test_data) (length send_test_data) True;
     CHECK (ARQ_SUCCEEDED e);
     CHECK (sent = Some (length send_test_data));
     sender \<leftarrow> arq;
     (frame, sender, receiver) \<leftarrow> for_range 0 (message_length_in_segments cfg * w_cap (s_w (a_send_wnd sender)))
       (\<lambda>i. transfer_segment b) (frame, sender, receiver);
     (frame, sender, receiver) \<leftarrow> for_range 0 (send_window_size_in_messages cfg) (\<lambda>i. transfer_ack b) (frame, sender, receiver);
     \<comment> \<open>do ... while (bytes_read)\<close>
     (bytes_read, recv_test_data, receiver) \<leftarrow> drain_round ([], receiver);
     (bytes_read, recv_test_data, receiver) \<leftarrow> while_loop (\<lambda>(bytes_read, recv_test_data, receiver). bytes_read \<noteq> 0)
       (\<lambda>(bytes_read, recv_test_data, receiver). drain_round (recv_test_data, receiver)) (bytes_read, recv_test_data, receiver);
     CHECK (w_size (s_w (a_send_wnd sender)) = 0);
     CHECK (length send_test_data = length recv_test_data);
     CHECK (recv_test_data = send_test_data)
   }"

section \<open>Sending\<close>

lemma window_cfg_more [simp]:
  "send_window_size_in_messages (window_cfg c) = 16" "retransmission_timeout (window_cfg c) = 100"
  by (simp_all add: window_cfg_def)

text \<open>The sender, with what was read off its frames, before round \<open>i\<close>.\<close>

definition sent_off :: "arq_cfg_t \<Rightarrow> byte list \<Rightarrow> nat \<Rightarrow> byte list \<times> arq_t \<Rightarrow> bool" where
  "sent_off c D i = (\<lambda>(out, a). out = take (i * 220) D \<and> sends c D 16 0 i a)"

lemma send_full_window_passes:
  assumes c: "cfg_ranges cfg" and s: "abi_ok abi" "required_bytes abi (window_cfg cfg) < 2 ^ 32" "seat_ok (window_cfg cfg) seat"
    and b: "use_connections b" and f: "256 \<le> length decode_buf"
  shows "send_full_window b abi cfg seat decode_buf = Some ()"
proof -
  let ?c = "window_cfg cfg"
  define D where "D = test_data b (16 * 4 * 220)"
  have D: "length D = 14080" "length D = 16 * (message_length_in_segments ?c * segment_length_in_bytes ?c)" by (simp_all add: D_def)
  obtain a0 a1 where a: "ArqContext b abi seat ?c = Some a0"
    "arq_send (Some a0) (Some D) (length D) True = Some (ARQ_OK_COMPLETED, Some (length D), Some a1)" "sent_off ?c D 0 ([], a1)"
    using context_sends [OF window_cfg_sound [OF c] s b D(2)] by (auto simp: sent_off_def sends_def)
  define body where "body = (\<lambda>(recv_test_data, ctx). do {
          (out, ctx) \<leftarrow> test_poll b ctx 0;
          CHECK (po_send_ready out);
          (size, decode_buf, ctx) \<leftarrow> test_drain ctx decode_buf;
          (r, h, seg, decode_buf) \<leftarrow> arq__frame_read b decode_buf size (cfg_checksum ?c);
          CHECK (r = ARQ__FRAME_READ_RESULT_SUCCESS);
          bs \<leftarrow> memcpy_out decode_buf seg (h_seg_len h);
          Some (recv_test_data @ bs, ctx)
        })"
  have step: "\<exists>st'. body st = Some st' \<and> sent_off ?c D (Suc i) st'" if i: "i < 64" and P: "sent_off ?c D i st" for i st
  proof -
    obtain a where t: "st = (take (i * 220) D, a)" "sends ?c D 16 0 i a"
      using P by (cases st) (auto simp: sent_off_def)
    have iK: "i < 16 * 4" using i by simp
    let ?h = "(data_hdr 4 i)\<lparr>h_seg_len := 220\<rparr>"
    obtain o1 a1 frame a2 where r: "test_poll b a 0 = Some (o1, a1)" "po_send_ready o1" "test_drain a1 decode_buf = Some (18 + 220, frame, a2)"
      "carries (cfg_checksum ?c) ?h (take 220 (drop (i * 220) D)) frame (18 + 220)"
      "sends ?c D 16 0 (Suc i) a2"
      using sent_frame [OF t(2) b iK f, of 220] by auto
    obtain buf where rd: "arq__frame_read b frame (18 + 220) (cfg_checksum ?c) = Some (ARQ__FRAME_READ_RESULT_SUCCESS, ?h, 13, buf)"
      "take 220 (drop 13 buf) = take 220 (drop (i * 220) D)" "length buf = length frame"
      using carries_read [OF r(4), of b] by auto
    have "memcpy_out buf 13 220 = Some (take 220 (drop (i * 220) D))"
      using rd(2,3) carries_length [OF r(4)] by (simp add: memcpy_out_def)
    then have "body st = Some (take (i * 220) D @ take 220 (drop (i * 220) D), a2)"
      using r(1-3) rd(1) by (simp add: body_def t(1))
    moreover have "take (i * 220) D @ take 220 (drop (i * 220) D) = take (Suc i * 220) D"
      by (simp add: take_add [symmetric] add.commute)
    ultimately show ?thesis using r(5) by (simp add: sent_off_def)
  qed
  let ?more = "\<lambda>(recv_test_data, ctx :: arq_t). length recv_test_data < length D"
  have "?more st" if "i < 64" "sent_off ?c D i st" for i st using that D(1) by (auto simp: sent_off_def)
  with while_loop_rounds [where P = "sent_off ?c D" and n = 64 and f = body and c = ?more, OF a(3)] step D(1)
  obtain a2 where "while_loop ?more body ([], a1) = Some (D, a2)" by (auto simp: sent_off_def)
  moreover have "test_data b (send_window_size_in_messages ?c * message_length_in_segments ?c * segment_length_in_bytes ?c) = D"
    by (simp add: D_def)
  ultimately show ?thesis
    unfolding send_full_window_def Let_def body_def [symmetric] using a(1,2) by (simp add: ARQ_SUCCEEDED_iff)
qed

section \<open>Transfer\<close>

lemma transfer_full_window_passes:
  assumes c: "cfg_ranges cfg" and s: "abi_ok abi" "required_bytes abi (window_cfg cfg) < 2 ^ 32" "seat_ok (window_cfg cfg) seat1" "seat_ok (window_cfg cfg) seat2"
    and b: "use_connections b" and f: "256 \<le> length decode_buf" "length recv_buf = 256"
  shows "transfer_full_window_one_way_manual_acks b abi cfg seat1 seat2 decode_buf recv_buf = Some ()"
proof -
  let ?c = "window_cfg cfg"
  define D where "D = test_data b (4 * 220 * 16)"
  have D: "length D = 14080" "length D = 16 * (message_length_in_segments ?c * segment_length_in_bytes ?c)" by (simp_all add: D_def)
  obtain s0 r0 s1 where 1: "ArqContext b abi seat1 ?c = Some s0" "ArqContext b abi seat2 ?c = Some r0"
    "arq_send (Some s0) (Some D) (length D) True = Some (ARQ_OK_COMPLETED, Some (length D), Some s1)"
    "transferred ?c D 16 0 (decode_buf, s1, r0)"
    using transfer_start [OF window_cfg_sound [OF c] _ _ s b D(2) _ _ f(1)] by auto
  define body where "body = (\<lambda>(i :: nat) (sender, receiver). do {
       (out, sender) \<leftarrow> test_poll b sender 0;
       CHECK (po_send_ready out);
       (size, decode_buf, sender) \<leftarrow> test_drain sender decode_buf;
       receiver \<leftarrow> test_fill receiver decode_buf size;
       (out, receiver) \<leftarrow> test_poll b receiver 0;
       Some (sender, receiver)
     })"
  let ?P = "\<lambda>i (s, r). transferred ?c D 16 i (decode_buf, s, r)"
  have step: "\<exists>st'. body i st = Some st' \<and> ?P (Suc i) st'" if i: "i < 64" and P: "?P i st" for i st
  proof -
    obtain s r where t: "st = (s, r)" "transferred ?c D 16 i (decode_buf, s, r)" using P by (cases st) auto
    have "\<exists>st'. transfer_segment b (decode_buf, s, r) = Some st' \<and> transferred ?c D 16 (Suc i) st'"
      using i D by (intro transfer_step [OF window_cfg_sound [OF c] b _ _ _ t(2)]) simp_all
    then obtain f' s' r' where "transfer_segment b (decode_buf, s, r) = Some (f', s', r')" "transferred ?c D 16 (Suc i) (f', s', r')"
      by auto
    then show ?thesis
      using f(1) by (auto simp: transfer_segment_def body_def t(1) transferred_def bind_Some_iff split: prod.splits Option.bind_splits)
  qed
  have "?P 0 (s1, r0)" using 1(4) by simp
  from for_range_inv [where P = ?P and i = 0 and n = 64 and f = body, OF this] step
  obtain s2 r2 where 2: "for_range 0 64 body (s1, r0) = Some (s2, r2)" "received ?c D 64 r2" by (auto simp: transferred_def)
  have all: "received ?c D (16 * 4) r2" and D': "length D = 16 * (4 * 220)" using 2(2) D(1) by simp_all
  have v: "receives (chop (4 * 220) D) 0 r2" by (rule received_avail(1) [OF all D']) simp_all
  have av: "\<exists>zs. avail (chop (4 * 220) D) 0 (a_recv_wnd r2) = D @ zs" by (rule received_avail(2) [OF all D']) simp_all
  obtain r3 where 3: "while_loop (\<lambda>(out, ctx). length out < length D) (read_round (\<lambda>bs. length bs > 0) (\<lambda>bs. bs @ drop (length bs) recv_buf) 256) ([], r2) = Some (D, r3)"
    using read_loop [OF v av, of 256 55 "\<lambda>bs. length bs > 0" "\<lambda>bs. bs @ drop (length bs) recv_buf"] D(1) f(2)
    by (simp, elim exE, simp)
  have t: "test_data b (message_length_in_segments ?c * segment_length_in_bytes ?c * send_window_size_in_messages ?c) = D"
    "message_length_in_segments ?c * send_window_size_in_messages ?c = 64"
    by (simp_all add: D_def)
  show ?thesis
    unfolding transfer_full_window_one_way_manual_acks_def Let_def t body_def [symmetric] read_round_def [symmetric] f(2)
    using 1(1-3) 2(1) 3 by simp
qed

section \<open>Acknowledgement\<close>

lemma length_concat_le:
  assumes "\<forall>x \<in> set xs. length (f x) \<le> L"
  shows "length (concat (map f xs)) \<le> length xs * L"
  using assms by (induction xs) auto

lemma avail_le:
  assumes h: "recv_holds msgs base rw" and L: "\<forall>m. length (msgs m) \<le> L"
  shows "length (avail msgs base rw) \<le> w_cap (r_w rw) * L"
proof -
  let ?ms = "takeWhile (\<lambda>i. complete_msg (msg_at (r_w rw) i)) [r_slide rw..<w_size (r_w rw)]"
  have "length ?ms \<le> w_size (r_w rw)" by (rule order_trans [OF length_takeWhile_le]) simp
  also have "\<dots> \<le> w_cap (r_w rw)" by (rule wnd_okD(12) [OF recv_wnd_okD(1) [OF recv_holdsD(1) [OF h]]])
  finally have "length ?ms * L \<le> w_cap (r_w rw) * L" by (rule mult_le_mono1)
  moreover have "length (concat (map (\<lambda>i. msgs (base + i)) ?ms)) \<le> length ?ms * L" using L by (intro length_concat_le) simp
  ultimately show ?thesis unfolding avail_def length_drop by linarith
qed

text \<open>A window that is full holds the buffer and nothing else.\<close>

lemma received_window:
  fixes n l :: nat
  assumes a: "received c D (K * n) a" and D: "length D = K * (n * l)" and n: "0 < n" "0 < l" and K: "K = recv_window_size_in_messages c"
    and nl: "n = message_length_in_segments c" "l = segment_length_in_bytes c"
  shows "receives (chop (n * l) D) 0 a" "avail (chop (n * l) D) 0 (a_recv_wnd a) = D"
proof -
  have le: "K \<le> recv_window_size_in_messages c" using K by simp
  show r: "receives (chop (n * l) D) 0 a" by (rule received_avail(1) [OF a D n le nl])
  obtain zs where zs: "avail (chop (n * l) D) 0 (a_recv_wnd a) = D @ zs" using received_avail(2) [OF a D n le nl] by blast
  have "w_cap (r_w (a_recv_wnd a)) = K" using a K by (simp add: received_def Let_def)
  moreover have "\<forall>m. length (chop (n * l) D m) \<le> n * l" using n length_chop by simp
  ultimately have "length (avail (chop (n * l) D) 0 (a_recv_wnd a)) \<le> length D"
    using avail_le [OF receivesD(3) [OF r]] D by metis
  then show "avail (chop (n * l) D) 0 (a_recv_wnd a) = D" using zs by simp
qed

lemma drain_loop:
  assumes a: "receives msgs base a" "avail msgs base (a_recv_wnd a) = D" and n: "length D = 128 * k" "0 < k"
  shows "\<exists>st a'. drain_round ([], a) = Some st \<and> while_loop (\<lambda>(bytes_read, out, ctx). bytes_read \<noteq> 0)
    (\<lambda>(bytes_read, out, ctx). drain_round (out, ctx)) st = Some (0, D, a')"
proof -
  let ?P = "\<lambda>i (m, out, ctx). receives msgs base ctx \<and> out = take (128 * i) D \<and> avail msgs base (a_recv_wnd ctx) = drop (128 * i) D \<and>
    (m = 0 \<longleftrightarrow> k < i)"
  have round: "\<exists>st. drain_round (take (128 * j) D, ctx) = Some st \<and> ?P (Suc j) st"
    if c: "receives msgs base ctx" "avail msgs base (a_recv_wnd ctx) = drop (128 * j) D" and j: "j \<le> k" for j ctx
  proof -
    from receive_read [OF c(1), of 128] obtain ctx' where r: "arq_recv (Some ctx) True 128 True =
        Some (ARQ_OK_COMPLETED, Some (take 128 (drop (128 * j) D)), Some ctx')" "receives msgs base ctx'"
      "avail msgs base (a_recv_wnd ctx') = drop 128 (drop (128 * j) D)"
      by (auto simp: c(2))
    have "drain_round (take (128 * j) D, ctx) = Some (length (take 128 (drop (128 * j) D)), take (128 * Suc j) D, ctx')"
      using r(1) by (simp add: drain_round_def ARQ_SUCCEEDED_iff take_add add.commute [of 128])
    moreover have "length (take 128 (drop (128 * j) D)) = 0 \<longleftrightarrow> k < Suc j" using j n(1) by auto
    ultimately show ?thesis using r(2,3) by (simp add: add.commute)
  qed
  obtain st where st: "drain_round ([], a) = Some st" "?P 1 st" using round [of a 0] a by auto
  let ?c = "\<lambda>(m :: nat, out :: byte list, ctx :: arq_t). m \<noteq> 0"
  let ?f = "\<lambda>(m :: nat, out, ctx). drain_round (out, ctx)"
  have "?c st \<and> (\<exists>st'. ?f st = Some st' \<and> ?P (Suc j) st')" if j: "j < Suc k" and P: "?P j st" for j st
    using round [of _ j] P j by (cases st) auto
  with while_loop_rounds [where P = ?P and i = 1 and n = "Suc k" and c = ?c and f = ?f, OF st(2)]
  obtain st' where "while_loop ?c ?f st = Some st'" "?P (Suc k) st'" by fastforce
  then show ?thesis using st(1) n(1) by (cases st') auto
qed

lemma acked_cfg_sel [simp]:
  "segment_length_in_bytes (acked_cfg c) = 128" "message_length_in_segments (acked_cfg c) = 4" "send_window_size_in_messages (acked_cfg c) = 16"
  "recv_window_size_in_messages (acked_cfg c) = 16" "retransmission_timeout (acked_cfg c) = 100" "inter_segment_timeout (acked_cfg c) = 100"
  by (simp_all add: acked_cfg_def)

lemma acked_cfg_sound: "cfg_ranges c \<Longrightarrow> cfg_sound (acked_cfg c)"
  by (simp add: cfg_sound_def acked_cfg_def arq__check_cfg_def cfg_ranges_def geometry_ok_def)

lemma ack_full_window_passes:
  assumes c: "cfg_ranges cfg" and s: "abi_ok abi" "required_bytes abi (acked_cfg cfg) < 2 ^ 32" "seat_ok (acked_cfg cfg) seat1" "seat_ok (acked_cfg cfg) seat2"
    and b: "use_connections b" and f: "256 \<le> length frame"
  shows "ack_full_window b abi cfg seat1 seat2 frame = Some ()"
proof -
  let ?c = "acked_cfg cfg"
  define D where "D = test_data b (128 * 4 * 16)"
  have D: "length D = 128 * 64" "length D = 16 * (message_length_in_segments ?c * segment_length_in_bytes ?c)" by (simp_all add: D_def)
  have w: "recv_window_size_in_messages ?c < 2048" "0 < retransmission_timeout ?c" "0 < inter_segment_timeout ?c" "(0 :: nat) < 16"
    "16 \<le> send_window_size_in_messages ?c" "16 \<le> recv_window_size_in_messages ?c"
    by simp_all
  note cs = acked_cfg_sound [OF c]
  obtain s0 r0 s1 where 1: "ArqContext b abi seat1 ?c = Some s0" "ArqContext b abi seat2 ?c = Some r0"
    "arq_send (Some s0) (Some D) (length D) True = Some (ARQ_OK_COMPLETED, Some (length D), Some s1)" "exchanging ?c D 16 0 (frame, s1, r0)"
    and cap: "w_cap (s_w (a_send_wnd s1)) = 16"
    using exchange_start [OF cs w(1,2) s b D(2) w(4,5) f] by auto
  obtain st1 f2 s2 r2 where 2: "for_range 0 64 (\<lambda>i. transfer_segment b) (frame, s1, r0) = Some st1"
    "for_range 0 16 (\<lambda>k. transfer_ack b) st1 = Some (f2, s2, r2)" "acknowledging ?c D 16 16 (f2, s2, r2)"
    using exchange_all [OF cs w(1,3) b D(2) w(4,6) 1(4)] by auto
  have e: "w_size (s_w (a_send_wnd s2)) = 0" "received ?c D (16 * 4) r2" using acknowledgedD [OF 2(3)] by simp_all
  have D': "length D = 16 * (4 * 128)" using D(1) by simp
  have r: "receives (chop (4 * 128) D) 0 r2" by (rule received_window(1) [OF e(2) D']) simp_all
  have av: "avail (chop (4 * 128) D) 0 (a_recv_wnd r2) = D" by (rule received_window(2) [OF e(2) D']) simp_all
  obtain st3 r3 where 3: "drain_round ([], r2) = Some st3" "while_loop (\<lambda>(bytes_read, out, ctx). bytes_read \<noteq> 0)
    (\<lambda>(bytes_read, out, ctx). drain_round (out, ctx)) st3 = Some (0, D, r3)"
    using drain_loop [OF r av D(1)] by auto
  have t: "test_data b (segment_length_in_bytes ?c * message_length_in_segments ?c * send_window_size_in_messages ?c) = D"
    by (simp add: D_def)
  obtain f1 s4 r4 where st1: "st1 = (f1, s4, r4)" by (cases st1)
  obtain n3 o3 q3 where st3: "st3 = (n3, o3, q3)" by (cases st3)
  show ?thesis
    unfolding ack_full_window_def Let_def t
    using 1(1-3) 2(1,2) 3 e(1) by (simp add: cap st1 st3 ARQ_SUCCEEDED_iff)
qed

section \<open>The property\<close>

text \<open>
  C9. The tests that fill a window, and the one of the retransmission timers, pass for every build with connections, whatever the memory and the
  configuration fields the tests leave open hold: a receive window of sixteen messages of four segments is
  read whole, byte by byte and segment by segment; a full, a partial and another full message are read at
  once; the frames of a full send window carry the buffer in order, and a receiver that is given them has
  the whole buffer to read; its acknowledgements empty the sender's window; of three messages the one that
  was lost is sent again when its timer is over, to the tick. The header the tests write by hand may hold
  anything that fits the wire format in the fields that are not set.
\<close>

theorem window_tests_pass:
  assumes "use_connections b" "cfg_ranges cfg" "abi_ok abi" "hdr_fits h0"
    and "required_bytes abi (window_cfg cfg) < 2 ^ 32" "required_bytes abi (partial_cfg cfg) < 2 ^ 32"
    and "required_bytes abi (acked_cfg cfg) < 2 ^ 32" "required_bytes abi (timers_cfg 110 cfg) < 2 ^ 32"
    and "seat_ok (window_cfg cfg) seat1" "seat_ok (window_cfg cfg) seat2" "seat_ok (partial_cfg cfg) seat3"
    and "seat_ok (acked_cfg cfg) seat4" "seat_ok (acked_cfg cfg) seat5" "seat_ok (timers_cfg 110 cfg) seat6"
    and "length decode_buf = 256" "length recv_buf = 256"
  shows "recv_full_window_in_one_call b abi cfg seat1 h0 = Some () \<and>
    recv_full_window_one_byte_at_a_time b abi cfg seat1 h0 = Some () \<and>
    recv_full_window_one_segment_at_a_time b abi cfg seat1 h0 = Some () \<and>
    recv_full_frame_partial_frame_full_frame b abi cfg seat3 = Some () \<and>
    send_full_window b abi cfg seat1 decode_buf = Some () \<and>
    transfer_full_window_one_way_manual_acks b abi cfg seat1 seat2 decode_buf recv_buf = Some () \<and>
    ack_full_window b abi cfg seat4 seat5 decode_buf = Some () \<and>
    retransmission_timers b abi cfg seat6 decode_buf = Some ()"
  using assms
  by (intro conjI recv_in_one_call_passes recv_bytes_passes recv_partial_passes send_full_window_passes transfer_full_window_passes
    ack_full_window_passes retransmission_timers_passes) simp_all

theorem window_tests_pass_witness:
  "recv_full_window_in_one_call be_build demo_abi demo_cfg (4096, blank_mem (window_cfg demo_cfg)) (seg_hdr 7 9\<lparr>h_rst := True\<rparr>) = Some () \<and>
   recv_full_window_one_byte_at_a_time be_build demo_abi demo_cfg (4096, blank_mem (window_cfg demo_cfg)) (seg_hdr 7 9\<lparr>h_rst := True\<rparr>) = Some () \<and>
   recv_full_window_one_segment_at_a_time be_build demo_abi demo_cfg (4096, blank_mem (window_cfg demo_cfg)) (seg_hdr 7 9\<lparr>h_rst := True\<rparr>) = Some () \<and>
   recv_full_frame_partial_frame_full_frame be_build demo_abi demo_cfg (4096, blank_mem (partial_cfg demo_cfg)) = Some () \<and>
   send_full_window be_build demo_abi demo_cfg (4096, blank_mem (window_cfg demo_cfg)) (replicate 256 7) = Some () \<and>
   transfer_full_window_one_way_manual_acks be_build demo_abi demo_cfg (4096, blank_mem (window_cfg demo_cfg))
     (4096, blank_mem (window_cfg demo_cfg)) (replicate 256 7) (replicate 256 8) = Some () \<and>
   ack_full_window be_build demo_abi demo_cfg (4096, blank_mem (acked_cfg demo_cfg)) (4096, blank_mem (acked_cfg demo_cfg)) (replicate 256 7) = Some () \<and>
   retransmission_timers be_build demo_abi demo_cfg (4096, blank_mem (timers_cfg 110 demo_cfg)) (replicate 256 7) = Some ()"
proof (rule window_tests_pass [OF _ demo_cfg_ranges demo_abi_ok _ _ _ _ _ blank_seat blank_seat blank_seat blank_seat blank_seat blank_seat])
  show "required_bytes demo_abi (window_cfg demo_cfg) < 2 ^ 32" "required_bytes demo_abi (partial_cfg demo_cfg) < 2 ^ 32"
    "required_bytes demo_abi (acked_cfg demo_cfg) < 2 ^ 32" "required_bytes demo_abi (timers_cfg 110 demo_cfg) < 2 ^ 32"
    by (simp_all add: required_bytes_def requests_def demo_abi_def window_cfg_def partial_cfg_def acked_cfg_def timers_cfg_def demo_cfg_def align_up_def)
qed (simp_all add: be_build_def hdr_fits_def exec_hdr)

end
