(* ===== verification/Spec2Isabelle.thy ===== *)
theory Spec2Isabelle imports Arq_Crc32 Arq_Findings Arq_Ack_Tests Arq_Frame_Tests Arq_Transfer_Tests begin

text \<open>
  nanoarq: a sliding-window reliable transport for microcontrollers, in the single header \<open>src/arq.h\<close>, and
  its functional tests in \<open>src/functional_tests\<close>.

  The program. An \<open>arq_t\<close> is one end of a connection over a byte stream that loses and alters bytes. A user
  gives bytes to \<open>arq_send\<close>, which appends them to the messages of the send window, and takes bytes from
  \<open>arq_recv\<close>, which reads the messages of the receive window in order. A backend owns the wire: it puts the
  bytes it got into the receive frame (\<open>arq_backend_recv_fill\<close>), takes the send frame
  (\<open>arq_backend_send_ptr_get\<close>, \<open>arq_backend_send_ptr_release\<close>), and calls \<open>arq_backend_poll\<close>, where all the
  work is done: a complete frame is decoded (COBS), checked (a checksum the user configures; the header provides CRC-32) and
  its segment stored in the receive window, its acknowledgement applied to the send window, timers are
  stepped, the send pointer moves to the next segment that is due, the connection's state machine runs, and
  one frame with what there is to say is written to the send frame. \<open>arq_init\<close> lays an instance out in
  memory of the caller; nothing else is allocated, and there are no threads.

  The model. Every C function of the header is a HOL function of the same name, in one theory per component;
  the static loops and the blocks of long functions have names of their own, without the prefix
  (\<open>recv_wnd_store\<close> of \<open>arq__recv_wnd_frame\<close>, \<open>send_poll_header\<close> of \<open>arq__send_poll\<close>). A struct is a record,
  the arrays it points to are lists inside it, an enum a datatype; an unsigned value is a natural number
  with its wrap-around written out (\<open>u16\<close>, \<open>u32\<close>, \<open>sub32\<close>), a byte an \<open>8 word\<close>. \<open>None\<close> is an execution
  without a defined result: an access out of bounds, a division by zero, a shift that is too long, a failed
  assertion, a loop that does not end. Error codes are values. The build switches are the record \<open>build\<close>,
  and every function that depends on one has it as an argument; the checksum, \<open>sizeof\<close> and \<open>alignof\<close> of the
  C types (\<open>abi\<close>) and the memory \<open>arq_init\<close> gets are parameters.

  Theories.
  \<^item> \<open>Arq_Prelude\<close>: C integers, undefined behaviour, counting loops, byte access, the collections of simp
    rules, reachability and the locale \<open>invariant_system\<close> all transition systems below interpret.
    \<open>Arq_Util\<close>: minimum, maximum, saturating subtraction, \<open>arq__ctz\<close> and the byte-order functions.
    \<open>Arq_Types\<close>: error codes, events, \<open>arq_cfg_t\<close> and \<open>arq__check_cfg\<close>.
  \<^item> \<open>Arq_Crc32\<close>: \<open>arq_crc32\<close> with its table is the division by the polynomial, and finds every burst of
    up to four bytes. \<open>Arq_Cobs\<close>: \<open>arq__cobs_encode\<close> and \<open>arq__cobs_decode\<close> on the frame in place, their
    round trip, and no delimiter inside a frame. \<open>Arq_Frame\<close>: header, segment and checksum of a frame,
    written and read, with the round trips and what a damaged frame is answered.
  \<^item> \<open>Arq_Wnd\<close>: the ring of messages both windows are made of; the locale \<open>window_user\<close> holds what a
    component that embeds one may use, and both windows interpret it. \<open>Arq_Send_Wnd\<close>: sending appends to
    a stream, acknowledging releases whole messages from its front, flushing closes the last message.
    \<open>Arq_Send_Ptr\<close>: the cursor visits exactly the segments that are due, and the send frame.
    \<open>Arq_Recv_Wnd\<close>: storing, reading and acknowledging. \<open>Arq_Reassembly\<close>: what the receive window is for, a
    segment put in its place and the messages read in order. \<open>Arq_Recv_Frame\<close>: the buffer that collects bytes up to the delimiter
    (locale \<open>delimited_buffer\<close>), and a frame over the wire in any pieces.
  \<^item> \<open>Arq_Conn\<close>: the handshake, one function per state and their driver; \<open>conn_step\<close> is a connection with
    what it has sent and received, and it is established only behind a handshake. The loop of the driver
    is a \<open>partial_function\<close>, and it is proved to return.
  \<^item> \<open>Arq_Poll\<close>: \<open>arq__recv_poll\<close>, \<open>arq__send_poll\<close> and \<open>arq__next_poll\<close>. \<open>Arq_Alloc\<close>: the linear
    allocator and the layout of an instance. \<open>Arq_Api\<close>: the public functions. \<open>Arq_Safety\<close> and
    \<open>Arq_Calls\<close>: the invariant \<open>arq_ok\<close> of an instance, kept by every call; \<open>api_step\<close> is a public call,
    and none of them faults or loops.
  \<^item> \<open>Arq_Arrived\<close>, \<open>Arq_Receiver\<close>: the receive window over time; \<open>receiver_step\<close> is one window fed with any
    segments of a message sequence, none of its calls faults, and the bytes it delivers are a prefix of the
    sequence as long as it has misread no segment (\<open>misread\<close>: taken one it has no place for).
    \<open>Arq_Link\<close>, \<open>Arq_Stream\<close>: a sender and a receiver with a channel between them that loses, repeats, reorders
    and delays frames (\<open>link_step\<close>, over the window functions of both ends). No step is ruled out; what
    the protocol is not made for is recorded in \<open>lk_anomalies\<close>, and in the runs in which nothing was
    recorded the pair refines an abstract stream (\<open>stream_step\<close>) and the transfer is reliable.
  \<^item> \<open>Arq_Findings\<close>: single runs outside the conditions of the properties, which show what the code does
    with input a peer or a user may give it.
  \<^item> \<open>Arq_Harness\<close>, \<open>Arq_Exec\<close>: the fixture of the functional tests, the calls they share, and lemmas that
    run the public functions on objects with unknown buffers.
  \<^item> \<open>Arq_Receive\<close>, \<open>Arq_Transmit\<close>, \<open>Arq_Transfer\<close>, \<open>Arq_Acked\<close>: whole objects at the public interface. An
    object that is fed segments in any order (\<open>receives\<close>), an object whose polls send what \<open>arq_send\<close> took
    (\<open>transmits\<close>), both together (\<open>transferred\<close>), and the way back: which acknowledgements the receiver
    owes (\<open>owes\<close>) and what they do to the sender (\<open>awaits\<close>). For a sound configuration with a
    retransmission timeout and a receive window of less than 2048 messages, in a build with connections, a
    buffer of full messages that fits both windows is received as it was sent, and if there is an
    inter-segment timeout its acknowledgements empty the sender's window. \<open>Arq_Resend\<close>: under the same
    conditions, when all frames of the first round are lost, the sender is silent until the retransmission
    timeout is over, and then the transfer runs as if nothing had been lost; and the test of the
    retransmission timers. Without a timeout later messages starve (\<open>zero_timeout_starves_third_message\<close>).
  \<^item> \<open>Arq_Connect_Tests\<close>, \<open>Arq_Retransmit_Tests\<close>, \<open>Arq_Nak_Tests\<close>, \<open>Arq_Ack_Tests\<close>, \<open>Arq_Frame_Tests\<close>,
    \<open>Arq_Window_Tests\<close>, \<open>Arq_Transfer_Tests\<close>, and a section of \<open>Arq_Resend\<close>: eighteen of the
    tests, statement by statement, as programs over the modelled calls (a failed check is \<open>None\<close>, a \<open>while\<close> loop a \<open>partial_function\<close>), and the proof that
    they pass in memory with any content.

  Bounds. The windows are proved for the geometry the wire format can express, \<open>geometry_ok\<close>: segments of
  1 to 238 bytes (the COBS block and the one-byte length of the header), 1 to 12 segments in a message (the
  bits of the acknowledgement vector) and a capacity that divides 4096 (the sequence numbers; the slot of a
  message is its number modulo the capacity). \<open>arq__check_cfg\<close> does not check all of this
  (\<open>config_check_accepts_unusable\<close>). In the model of two parties the window has less than half of the
  sequence space. The properties of a transfer hold up to the first anomaly. Two kinds of frame cause one:
  a repeated segment of a message that was read already, which the code may take for a segment of
  another message or deliver again (\<open>read_message_delivered_again\<close>,
  \<open>message_before_window_replaces_later_one\<close>), and an acknowledgement that is 2048 messages old; and so
  does a sender that sends a segment of a message it has not finished, or whose user appends to a message
  that was flushed (\<open>bytes_behind_flush_are_dropped\<close>). \<open>api_never_faults\<close> starts from what \<open>arq_init\<close> makes
  of a sound configuration in memory whose arrays have the lengths of the layout (\<open>arrays_fit\<close>, which by
  \<open>arrays_fill_regions\<close> are those that fill the regions of \<open>arq__alloc\<close>), and assumes of an arriving frame that
  passes its checksum that its segment lies inside the window's messages (\<open>segment_number_unchecked\<close>).
  Fuel occurs only where the code itself counts down; loops that may run on are \<open>partial_function\<close>s.

  Not modelled. \<open>arq_stats_t\<close>, which no code touches; \<open>arq_close\<close>, which is declared and not defined, and
  the states of closing, which are never entered. Of the tests: the unit tests, which replace functions of
  the header by mocks of a framework that is not in the repository; the compilation tests, which run
  nothing; \<open>main.cpp\<close>; and the functional tests that move ten megabytes through the calls modelled here,
  and \<open>tiny_sends_accumulate_into_message\<close>. The header's variants for other compilers (\<open>ARQ_ALIGNOF\<close>,
  \<open>ARQ_MOCKABLE\<close>, C++ linkage) change no behaviour.
\<close>

end
